(* ===== verification/C_Prelude.thy ===== *)
theory C_Prelude
  imports Main
begin

text \<open>
  Prelude of the development: what the C sources use of the language and of its
  standard library, written as total functions, and the generic lemmas that the
  component theories share.

  A C string (\<^verbatim>\<open>char *\<close> to NUL-terminated memory) is a \<^typ>\<open>string\<close> without its
  terminating NUL, and a pointer that walks over such a string is the remaining
  suffix, so \<^verbatim>\<open>*p\<close> is \<open>peek p\<close> and \<^verbatim>\<open>p++\<close> is \<open>tl p\<close>.
  An array whose bounds matter is the list of its cells.  Undefined behaviour
  and failed assertions are values of \<open>c_fault\<close>, as is the end of the program by \<^verbatim>\<open>exit\<close>; a function that can run into
  them returns \<open>c_fault + 'a\<close>.
\<close>

section \<open>Collections of facts\<close>

named_theorems res_simps \<open>rewriting of computations with faults\<close>
named_theorems inv_intros \<open>invariants kept by the operations\<close>

section \<open>Faults and computations that may fail\<close>

datatype c_fault =
    Assert_failed
  | Buffer_overflow
  | Null_pointer
  | Uninitialised
  | Out_of_bounds
  | Dangling_pointer
  | Int_overflow
  | Exited

type_synonym 'a res = "c_fault + 'a"

definition bind_res :: "'e + 'a \<Rightarrow> ('a \<Rightarrow> 'e + 'b) \<Rightarrow> 'e + 'b" where
  "bind_res r f = (case r of Inl e \<Rightarrow> Inl e | Inr x \<Rightarrow> f x)"

definition guard_res :: "bool \<Rightarrow> 'e \<Rightarrow> 'e + unit" where
  "guard_res b e = (if b then Inr () else Inl e)"

lemma bind_res_Inl [simp, res_simps]: "bind_res (Inl e) f = Inl e"
  by (simp add: bind_res_def)

lemma bind_res_Inr [simp, res_simps]: "bind_res (Inr x) f = f x"
  by (simp add: bind_res_def)

lemma bind_res_eq_Inr [res_simps]:
  "bind_res r f = Inr y \<longleftrightarrow> (\<exists>x. r = Inr x \<and> f x = Inr y)"
  by (cases r) simp_all

lemma bind_res_eq_Inl [res_simps]:
  "bind_res r f = Inl e \<longleftrightarrow> r = Inl e \<or> (\<exists>x. r = Inr x \<and> f x = Inl e)"
  by (cases r) simp_all

lemma guard_res_True [simp]: "b \<Longrightarrow> guard_res b e = Inr ()"
  by (simp add: guard_res_def)

lemma guard_res_False [simp]: "\<not> b \<Longrightarrow> guard_res b e = Inl e"
  by (simp add: guard_res_def)

lemma guard_res_eq_Inr [res_simps]: "guard_res b e = Inr u \<longleftrightarrow> b"
  by (simp add: guard_res_def)

lemma bind_res_assoc: "bind_res (bind_res r f) g = bind_res r (\<lambda>x. bind_res (f x) g)"
  by (cases r) simp_all

text \<open>Operations that follow links or repeat a system call until it succeeds may not end:
  \<^const>\<open>None\<close>.\<close>

type_synonym 'a run = "'a res option"

definition bind_run :: "'a run \<Rightarrow> ('a \<Rightarrow> 'b run) \<Rightarrow> 'b run" where
  "bind_run r f = (case r of None \<Rightarrow> None | Some (Inl e) \<Rightarrow> Some (Inl e) | Some (Inr x) \<Rightarrow> f x)"

lemma bind_run_simps [simp, res_simps]:
  "bind_run None f = None"
  "bind_run (Some (Inl e)) f = Some (Inl e)"
  "bind_run (Some (Inr x)) f = f x"
  by (simp_all add: bind_run_def)

lemma bind_run_eq_Inr [res_simps]:
  "bind_run r f = Some (Inr y) \<longleftrightarrow> (\<exists>x. r = Some (Inr x) \<and> f x = Some (Inr y))"
  by (auto simp: bind_run_def split: option.splits sum.splits)

text \<open>
  Reasoning about such computations: \<open>run_ok N F P r\<close> says that \<open>r\<close> does not return only if
  \<open>N\<close>, faults only in \<open>F\<close>, and otherwise yields a result in \<open>P\<close>.
\<close>

definition res_ok :: "'e set \<Rightarrow> ('a \<Rightarrow> bool) \<Rightarrow> 'e + 'a \<Rightarrow> bool" where
  "res_ok F P r = (case r of Inl f \<Rightarrow> f \<in> F | Inr x \<Rightarrow> P x)"

definition run_ok :: "bool \<Rightarrow> c_fault set \<Rightarrow> ('a \<Rightarrow> bool) \<Rightarrow> 'a run \<Rightarrow> bool" where
  "run_ok N F P r = (case r of None \<Rightarrow> N | Some q \<Rightarrow> res_ok F P q)"

lemma res_ok_simps [simp]: "res_ok F P (Inl f) = (f \<in> F)" "res_ok F P (Inr x) = P x"
  by (simp_all add: res_ok_def)

lemma run_ok_simps [simp]: "run_ok N F P None = N" "run_ok N F P (Some q) = res_ok F P q"
  by (simp_all add: run_ok_def)

lemma res_ok_bind: "res_ok F P r \<Longrightarrow> (\<And>x. P x \<Longrightarrow> res_ok F Q (f x)) \<Longrightarrow> res_ok F Q (bind_res r f)"
  by (cases r) auto

lemma run_ok_bind: "run_ok N F P r \<Longrightarrow> (\<And>x. P x \<Longrightarrow> run_ok N F Q (f x)) \<Longrightarrow> run_ok N F Q (bind_run r f)"
  by (cases r; cases "the r") simp_all

lemma res_ok_mono: "res_ok F P r \<Longrightarrow> (\<And>x. P x \<Longrightarrow> Q x) \<Longrightarrow> res_ok F Q r"
  by (cases r) auto

lemma run_ok_mono: "run_ok N F P r \<Longrightarrow> (\<And>x. P x \<Longrightarrow> Q x) \<Longrightarrow> run_ok N F Q r"
  by (auto simp: run_ok_def split: option.splits intro: res_ok_mono)

lemma run_ok_weaken: "run_ok N F P r \<Longrightarrow> (N \<Longrightarrow> N') \<Longrightarrow> F \<subseteq> F' \<Longrightarrow> run_ok N' F' P r"
  by (auto simp: run_ok_def res_ok_def split: option.splits sum.splits)

lemma bind_run_mono [partial_function_mono]:
  assumes "mono_option B" and "\<And>y. mono_option (\<lambda>f. C y f)"
  shows "mono_option (\<lambda>f. bind_run (B f) (\<lambda>y. C y f))"
proof -
  have eq: "(\<lambda>f. bind_run (B f) (\<lambda>y. C y f)) =
    (\<lambda>f. Option.bind (B f) (\<lambda>q. case q of Inl e \<Rightarrow> Some (Inl e) | Inr x \<Rightarrow> C x f))"
    by (auto simp: fun_eq_iff bind_run_def split: option.split sum.split)
  show ?thesis unfolding eq
  proof (rule bind_mono [OF assms(1)])
    fix q
    show "mono_option (\<lambda>f. case q of Inl e \<Rightarrow> Some (Inl e) | Inr x \<Rightarrow> C x f)"
      using assms(2) by (cases q) (auto intro: option.const_mono)
  qed
qed

lemma run_okD: "run_ok N F P r \<Longrightarrow> r = Some (Inr x) \<Longrightarrow> P x"
  by simp

section \<open>Transition systems with faults\<close>

text \<open>
  Several components are driven by a sequence of calls or of input bytes.
  \<open>run_steps\<close> runs the sequence and stops at the first fault, as the program does.
\<close>

fun run_steps :: "('s \<Rightarrow> 'e \<Rightarrow> c_fault + 's) \<Rightarrow> 's \<Rightarrow> 'e list \<Rightarrow> c_fault + 's" where
  "run_steps step s [] = Inr s"
| "run_steps step s (e # es) = bind_res (step s e) (\<lambda>s'. run_steps step s' es)"

lemma run_steps_append:
  "run_steps step s (xs @ ys) = bind_res (run_steps step s xs) (\<lambda>s'. run_steps step s' ys)"
  by (induction xs arbitrary: s) (simp_all add: bind_res_assoc)

text \<open>
  The interface of such a component: an invariant that every step keeps, as long as the
  caller stays within the documented inputs (\<open>legal\<close>).
\<close>

locale stepping =
  fixes step :: "'s \<Rightarrow> 'e \<Rightarrow> c_fault + 's"
    and inv :: "'s \<Rightarrow> bool"
    and legal :: "'e \<Rightarrow> bool"
  assumes step_inv: "inv s \<Longrightarrow> legal e \<Longrightarrow> step s e = Inr s' \<Longrightarrow> inv s'"
begin

lemma run_inv: "inv s \<Longrightarrow> list_all legal es \<Longrightarrow> run_steps step s es = Inr s' \<Longrightarrow> inv s'"
  by (induction es arbitrary: s) (auto simp: res_simps intro: step_inv)

end

text \<open>A component whose legal steps never fault.\<close>

locale safe_stepping = stepping step inv legal
  for step :: "'s \<Rightarrow> 'e \<Rightarrow> c_fault + 's" and inv :: "'s \<Rightarrow> bool" and legal :: "'e \<Rightarrow> bool" +
  assumes step_safe: "inv s \<Longrightarrow> legal e \<Longrightarrow> \<exists>s'. step s e = Inr s'"
begin

lemma run_safe:
  assumes "inv s" and "list_all legal es"
  shows "\<exists>s'. run_steps step s es = Inr s' \<and> inv s'"
  using assms
proof (induction es arbitrary: s)
  case Nil
  then show ?case by simp
next
  case (Cons e es)
  from Cons.prems obtain s1 where s1: "step s e = Inr s1"
    using step_safe by fastforce
  with Cons.prems have "inv s1" by (auto intro: step_inv)
  with Cons.IH [OF this] Cons.prems s1 show ?case by auto
qed

end

section \<open>Keyed stores\<close>

text \<open>
  The interface of an association table with a bounded key: new entries go to the end and
  the first entry of a key is the one that is found.
\<close>

locale keyed_store =
  fixes put :: "'s \<Rightarrow> 'k \<Rightarrow> 'v \<Rightarrow> 's"
    and get :: "'s \<Rightarrow> 'k \<Rightarrow> c_fault + 'v option"
    and ok :: "'s \<Rightarrow> bool"
    and key :: "'k \<Rightarrow> bool"
  assumes ok_put: "ok s \<Longrightarrow> ok (put s k v)"
    and get_total: "ok s \<Longrightarrow> \<exists>r. get s k = Inr r"
    and get_put: "ok s \<Longrightarrow> key k \<Longrightarrow>
      get (put s k v) k' = (if get s k' = Inr None \<and> k' = k then Inr (Some v) else get s k')"
begin

lemma get_puts:
  assumes "ok s" and "list_all (\<lambda>(k, v). key k) kvs"
  shows "ok (fold (\<lambda>(k, v) s. put s k v) kvs s) \<and>
    get (fold (\<lambda>(k, v) s. put s k v) kvs s) q = (if get s q = Inr None then Inr (map_of kvs q) else get s q)"
  using assms
proof (induction kvs arbitrary: s)
  case Nil
  then show ?case by simp
next
  case (Cons kv kvs)
  obtain k v where kv: "kv = (k, v)" by (cases kv)
  with Cons.prems have "ok (put s k v)" "key k" "list_all (\<lambda>(k, v). key k) kvs"
    by (simp_all add: ok_put)
  with Cons.IH [of "put s k v"] kv Cons.prems(1) show ?case by (simp add: get_put)
qed

end

section \<open>Arrays\<close>

text \<open>Copying into an array at some position.\<close>

definition write_at :: "nat \<Rightarrow> 'a list \<Rightarrow> 'a list \<Rightarrow> 'a list res" where
  "write_at k bs a = (if k + length bs \<le> length a then Inr (take k a @ bs @ drop (k + length bs) a)
     else Inl Buffer_overflow)"

section \<open>Characters and C strings\<close>

abbreviation NUL :: char where "NUL \<equiv> CHR 0x00"
abbreviation LF :: char where "LF \<equiv> CHR 0x0A"
abbreviation DQUOTE :: char where "DQUOTE \<equiv> CHR 0x22"
abbreviation SQUOTE :: char where "SQUOTE \<equiv> CHR 0x27"

definition is_space :: "char \<Rightarrow> bool" where
  "is_space c \<longleftrightarrow> c = CHR '' '' \<or> c = CHR 0x09 \<or> c = LF \<or> c = CHR 0x0B \<or> c = CHR 0x0C \<or> c = CHR 0x0D"

definition is_digit :: "char \<Rightarrow> bool" where
  "is_digit c \<longleftrightarrow> CHR ''0'' = c \<or> CHR ''1'' = c \<or> CHR ''2'' = c \<or> CHR ''3'' = c \<or> CHR ''4'' = c \<or>
     CHR ''5'' = c \<or> CHR ''6'' = c \<or> CHR ''7'' = c \<or> CHR ''8'' = c \<or> CHR ''9'' = c"

definition digit_val :: "char \<Rightarrow> nat" where
  "digit_val c = of_char c - 48"

text \<open>\<^verbatim>\<open>*p\<close> at a position of a C string.\<close>

definition peek :: "string \<Rightarrow> char" where
  "peek p = (case p of [] \<Rightarrow> NUL | c # _ \<Rightarrow> c)"

lemma peek_simps [simp]: "peek [] = NUL" "peek (c # p) = c"
  by (simp_all add: peek_def)

text \<open>No NUL occurs inside a C string.\<close>

definition c_string :: "string \<Rightarrow> bool" where
  "c_string s \<longleftrightarrow> NUL \<notin> set s"

lemma c_string_simps [simp]:
  "c_string []"
  "c_string (c # s) \<longleftrightarrow> c \<noteq> NUL \<and> c_string s"
  "c_string (s @ t) \<longleftrightarrow> c_string s \<and> c_string t"
  by (auto simp: c_string_def)

lemma c_string_take [simp]: "c_string s \<Longrightarrow> c_string (take n s)"
  by (auto simp: c_string_def dest: in_set_takeD)

text \<open>\<^verbatim>\<open>strncmp (p, lit, strlen (lit)) == 0\<close>\<close>

definition starts_with :: "string \<Rightarrow> string \<Rightarrow> bool" where
  "starts_with lit p \<longleftrightarrow> take (length lit) p = lit"

lemma starts_with_append [simp]: "starts_with lit (lit @ p)"
  by (simp add: starts_with_def)

lemma starts_with_Cons: "starts_with (a # lit) (b # p) \<longleftrightarrow> a = b \<and> starts_with lit p"
  by (auto simp: starts_with_def)

lemma starts_with_Nil_left [simp]: "starts_with [] p"
  by (simp add: starts_with_def)

lemma starts_with_Nil_right [simp]: "starts_with lit [] \<longleftrightarrow> lit = []"
  by (auto simp: starts_with_def)

lemma starts_with_drop: "starts_with lit p \<Longrightarrow> p = lit @ drop (length lit) p"
  by (metis append_take_drop_id starts_with_def)

text \<open>\<^verbatim>\<open>strchr\<close> and \<^verbatim>\<open>strstr\<close>: the suffix at the first occurrence, \<open>None\<close> for NULL.\<close>

fun c_strchr :: "char \<Rightarrow> string \<Rightarrow> string option" where
  "c_strchr c [] = None"
| "c_strchr c (x # p) = (if x = c then Some (x # p) else c_strchr c p)"

fun c_strstr :: "string \<Rightarrow> string \<Rightarrow> string option" where
  "c_strstr lit [] = (if lit = [] then Some [] else None)"
| "c_strstr lit (x # p) = (if starts_with lit (x # p) then Some (x # p) else c_strstr lit p)"

lemma c_strchr_None: "c_strchr c p = None \<longleftrightarrow> c \<notin> set p"
  by (induction p) auto

lemma c_strchr_Some: "c_strchr c p = Some q \<Longrightarrow> \<exists>r. p = r @ q \<and> c \<notin> set r \<and> (\<exists>t. q = c # t)"
proof (induction p)
  case Nil
  then show ?case by simp
next
  case (Cons x p)
  show ?case
  proof (cases "x = c")
    case True
    with Cons.prems show ?thesis by auto
  next
    case False
    with Cons obtain r where "p = r @ q \<and> c \<notin> set r \<and> (\<exists>t. q = c # t)" by auto
    with False show ?thesis by (intro exI [of _ "x # r"]) auto
  qed
qed

lemma c_strchr_length: "c_strchr c p = Some q \<Longrightarrow> length q \<le> length p \<and> 0 < length q"
  by (drule c_strchr_Some) auto

lemma c_strchr_shorter: "c_strchr c p = Some q \<Longrightarrow> 0 < m \<Longrightarrow> length q - m < length p"
  by (drule c_strchr_length) linarith

lemma c_strchr_append: "c \<notin> set a \<Longrightarrow> c_strchr c (a @ c # b) = Some (c # b)"
  by (induction a) auto

lemma c_strstr_Some:
  "c_strstr lit p = Some q \<Longrightarrow> starts_with lit q \<and> length q \<le> length p"
proof (induction p)
  case Nil
  then show ?case by (simp split: if_splits)
next
  case (Cons x p)
  then show ?case by (auto split: if_splits)
qed

text \<open>
  \<^verbatim>\<open>while (*p && P (*p)) p++\<close>: the skipped part and the rest are \<^const>\<open>takeWhile\<close>
  and \<^const>\<open>dropWhile\<close>; the parsers count the newlines they skip.
\<close>

definition count_nl :: "string \<Rightarrow> nat" where
  "count_nl s = length (filter (\<lambda>c. c = LF) s)"

lemma count_nl_simps [simp]:
  "count_nl [] = 0"
  "count_nl (c # s) = (if c = LF then Suc (count_nl s) else count_nl s)"
  "count_nl (s @ t) = count_nl s + count_nl t"
  by (simp_all add: count_nl_def)

lemma count_nl_takeWhile: "count_nl (takeWhile P s) \<le> count_nl s"
  by (induction s) auto

lemma length_dropWhile_less:
  "p \<noteq> [] \<Longrightarrow> P (hd p) \<Longrightarrow> length (dropWhile P p) < length p"
  by (cases p) (auto simp: le_imp_less_Suc length_dropWhile_le)

text \<open>\<^verbatim>\<open>atoi\<close> on a string that starts with a digit (values that fit an \<^verbatim>\<open>int\<close>).\<close>

fun atoi_acc :: "nat \<Rightarrow> string \<Rightarrow> nat" where
  "atoi_acc n [] = n"
| "atoi_acc n (c # p) = (if is_digit c then atoi_acc (10 * n + digit_val c) p else n)"

definition c_atoi :: "string \<Rightarrow> nat" where
  "c_atoi p = atoi_acc 0 p"

text \<open>The decimal digits that \<^verbatim>\<open>printf ("%d")\<close> prints for a non-negative number.\<close>

definition digit_char :: "nat \<Rightarrow> char" where
  "digit_char n = char_of (n + 48)"

fun show_nat :: "nat \<Rightarrow> string" where
  "show_nat n = (if n < 10 then [digit_char n] else show_nat (n div 10) @ [digit_char (n mod 10)])"

declare show_nat.simps [simp del]

text \<open>\<^verbatim>\<open>%d\<close>\<close>

definition show_int :: "int \<Rightarrow> string" where
  "show_int i = (if i < 0 then CHR ''-'' # show_nat (nat (- i)) else show_nat (nat i))"

lemma show_nat_length: "n < 10 ^ k \<Longrightarrow> 0 < k \<Longrightarrow> length (show_nat n) \<le> k"
proof (induction n arbitrary: k rule: show_nat.induct)
  case (1 n)
  show ?case
  proof (cases "n < 10")
    case True
    with 1 show ?thesis by (simp add: show_nat.simps [of n])
  next
    case False
    with "1.prems" have k: "1 < k" by (cases "k = 1") auto
    then obtain m where m: "k = Suc m" "0 < m" by (cases k) auto
    with "1.prems" have "n div 10 < 10 ^ m" by (simp add: less_mult_imp_div_less)
    with "1.IH" [OF False this m(2)] False m show ?thesis by (simp add: show_nat.simps [of n])
  qed
qed

lemma is_digit_digit_char: "d < 10 \<Longrightarrow> is_digit (digit_char d) \<and> digit_val (digit_char d) = d"
proof -
  assume "d < 10"
  then have "d \<in> {0, 1, 2, 3, 4, 5, 6, 7, 8, 9}" by auto
  then show ?thesis
    by (auto simp: is_digit_def digit_val_def digit_char_def char_of_def bit_Suc_0_iff)
qed

lemma show_nat_digits:
  "list_all is_digit (show_nat n) \<and> foldl (\<lambda>n c. 10 * n + digit_val c) 0 (show_nat n) = n \<and> show_nat n \<noteq> []"
proof (induction n rule: show_nat.induct)
  case (1 n)
  show ?case
  proof (cases "n < 10")
    case True
    then show ?thesis by (simp add: show_nat.simps [of n] is_digit_digit_char)
  next
    case False
    with 1 is_digit_digit_char [of "n mod 10"] show ?thesis by (simp add: show_nat.simps [of n])
  qed
qed

section \<open>Lists\<close>

lemma take_list_update_Suc:
  "d < length xs \<Longrightarrow> take (Suc d) (xs[d := c]) = take d xs @ [c]"
  by (simp add: take_Suc_conv_app_nth)

lemma list_update_append_drop:
  "d < length xs \<Longrightarrow> xs[d := c] = take d xs @ c # drop (Suc d) xs"
  by (rule upd_conv_take_nth_drop)

lemma drop_behind:
  "length xs < n \<Longrightarrow> drop n (xs @ y # drop (Suc (length xs)) zs) = drop n zs"
  by (simp add: drop_Cons')

lemma takeWhile_neq_append:
  "c \<notin> set a \<Longrightarrow> takeWhile (\<lambda>x. x \<noteq> c) (a @ c # b) = a"
  by (induction a) auto

lemma dropWhile_neq_append:
  "c \<notin> set a \<Longrightarrow> dropWhile (\<lambda>x. x \<noteq> c) (a @ c # b) = c # b"
  by (induction a) auto

end
