(* ===== verification/Strlcpy.thy ===== *)
theory Strlcpy
  imports C_Prelude
begin

text \<open>
  Bounded string copy and concatenation (\<^verbatim>\<open>src/mxml/strlcpy.c\<close>), modelled on the
  memory they work on: an array is the list of its bytes, a pointer into it is an
  index, and a read or write outside an array yields \<open>None\<close>.  The loops of the
  source are the functions \<open>strlcpy_copy\<close>, \<open>strlcpy_skip\<close>, \<open>strlcat_find\<close> and
  \<open>strlcat_append\<close>.  The theorems give the result for every siz, that nothing behind
  the first \<open>siz\<close> bytes is touched, and that the result is terminated.  The locale
  \<open>bounded_store\<close> is the contract the XML library relies on.
\<close>

section \<open>The code\<close>

text \<open>\<^verbatim>\<open>do { if ((*d++ = *s++) == 0) break; } while (--n != 0);\<close>\<close>

fun strlcpy_copy ::
  "char list \<Rightarrow> nat \<Rightarrow> char list \<Rightarrow> nat \<Rightarrow> nat \<Rightarrow> (char list \<times> nat \<times> nat \<times> nat) option" where
  "strlcpy_copy dst d src s n =
     (if length src \<le> s \<or> length dst \<le> d then None
      else let c = src ! s; dst' = dst[d := c] in
        if c = NUL then Some (dst', d + 1, s + 1, n)
        else if n - 1 = 0 then Some (dst', d + 1, s + 1, n - 1)
        else strlcpy_copy dst' (d + 1) src (s + 1) (n - 1))"

declare strlcpy_copy.simps [simp del]

text \<open>\<^verbatim>\<open>while (*s++);\<close>\<close>

function strlcpy_skip :: "char list \<Rightarrow> nat \<Rightarrow> nat option" where
  "strlcpy_skip src s =
     (if length src \<le> s then None
      else if src ! s = NUL then Some (s + 1)
      else strlcpy_skip src (s + 1))"
  by pat_completeness auto
termination
  by (relation "measure (\<lambda>(src, s). length src - s)") auto

declare strlcpy_skip.simps [simp del]

definition strlcpy :: "char list \<Rightarrow> char list \<Rightarrow> nat \<Rightarrow> (char list \<times> nat) option" where
  "strlcpy dst src siz =
     (case (if siz \<noteq> 0 \<and> siz - 1 \<noteq> 0 then strlcpy_copy dst 0 src 0 (siz - 1)
            else Some (dst, 0, 0, siz - 1)) of
        None \<Rightarrow> None
      | Some (dst', d, s, n) \<Rightarrow>
          if n \<noteq> 0 then Some (dst', s - 1)
          else if siz \<noteq> 0 \<and> length dst' \<le> d then None
          else let dst'' = (if siz \<noteq> 0 then dst'[d := NUL] else dst') in
            (case strlcpy_skip src s of None \<Rightarrow> None | Some s' \<Rightarrow> Some (dst'', s' - 1)))"

text \<open>\<^verbatim>\<open>while (n-- != 0 && *d != '\0') d++;\<close>\<close>

fun strlcat_find :: "char list \<Rightarrow> nat \<Rightarrow> nat \<Rightarrow> nat option" where
  "strlcat_find dst 0 d = Some d"
| "strlcat_find dst (Suc n) d =
     (if length dst \<le> d then None
      else if dst ! d \<noteq> NUL then strlcat_find dst n (d + 1)
      else Some d)"

text \<open>\<^verbatim>\<open>while (*s != '\0') { if (n != 1) { *d++ = *s; n--; } s++; }\<close>\<close>

function strlcat_append ::
  "char list \<Rightarrow> nat \<Rightarrow> char list \<Rightarrow> nat \<Rightarrow> nat \<Rightarrow> (char list \<times> nat \<times> nat) option" where
  "strlcat_append dst d src s n =
     (if length src \<le> s then None
      else if src ! s = NUL then Some (dst, d, s)
      else if n = 1 then strlcat_append dst d src (s + 1) n
      else if length dst \<le> d then None
      else strlcat_append (dst[d := src ! s]) (d + 1) src (s + 1) (n - 1))"
  by pat_completeness auto
termination
  by (relation "measure (\<lambda>(dst, d, src, s, n). length src - s)") auto

declare strlcat_append.simps [simp del]

definition strlcat :: "char list \<Rightarrow> char list \<Rightarrow> nat \<Rightarrow> (char list \<times> nat) option" where
  "strlcat dst src siz =
     (case strlcat_find dst siz 0 of
        None \<Rightarrow> None
      | Some dlen \<Rightarrow>
          let n = siz - dlen in
          if n = 0 then
            (case strlcpy_skip src 0 of None \<Rightarrow> None | Some s' \<Rightarrow> Some (dst, dlen + (s' - 1)))
          else
            (case strlcat_append dst dlen src 0 n of
               None \<Rightarrow> None
             | Some (dst', d, s) \<Rightarrow>
                 if length dst' \<le> d then None else Some (dst'[d := NUL], dlen + s)))"

section \<open>What the arrays hold\<close>

text \<open>The C string at the start of an array, and that the array holds a terminated one.\<close>

definition array_str :: "char list \<Rightarrow> string" where
  "array_str a = takeWhile (\<lambda>c. c \<noteq> NUL) a"

definition terminated :: "char list \<Rightarrow> bool" where
  "terminated a \<longleftrightarrow> NUL \<in> set a"

lemma array_str_append [simp]: "c_string t \<Longrightarrow> array_str (t @ NUL # r) = t"
  by (simp add: array_str_def c_string_def takeWhile_neq_append)

lemma terminated_append [simp]: "terminated (t @ NUL # r)"
  by (simp add: terminated_def)

lemma terminated_take: "length xs < n \<Longrightarrow> terminated (take n (xs @ NUL # ys))"
  by (simp add: terminated_def take_Cons')

lemma terminated_split:
  assumes "terminated a"
  obtains r where "a = array_str a @ NUL # r" and "c_string (array_str a)"
proof -
  from assms have "dropWhile (\<lambda>c. c \<noteq> NUL) a \<noteq> []"
    by (auto simp: terminated_def dropWhile_eq_Nil_conv)
  then obtain c r where d: "dropWhile (\<lambda>c. c \<noteq> NUL) a = c # r"
    by (cases "dropWhile (\<lambda>c. c \<noteq> NUL) a") auto
  then have "c = NUL" using hd_dropWhile [of "\<lambda>c. c \<noteq> NUL" a] by auto
  then have "a = array_str a @ NUL # r"
    using takeWhile_dropWhile_id [of "\<lambda>c. c \<noteq> NUL" a] d by (simp add: array_str_def)
  moreover have "c_string (array_str a)"
    by (auto simp: array_str_def c_string_def dest: set_takeWhileD)
  ultimately show ?thesis by (rule that)
qed

section \<open>The loops\<close>

lemma strlcpy_skip_app:
  assumes "c_string t"
  shows "strlcpy_skip (pre @ t @ NUL # r) (length pre) = Some (length pre + length t + 1)"
  using assms
proof (induction t arbitrary: pre)
  case Nil
  show ?case by (simp add: strlcpy_skip.simps nth_append)
next
  case (Cons c t)
  then have "strlcpy_skip ((pre @ [c]) @ t @ NUL # r) (length (pre @ [c]))
      = Some (length (pre @ [c]) + length t + 1)"
    by (intro Cons.IH) simp
  with Cons.prems show ?case
    by (simp add: strlcpy_skip.simps [of "pre @ c # t @ NUL # r"] nth_append)
qed

text \<open>
  The copy loop, started with the destination split at the write position: either the
  whole string fits, terminator included, or exactly \<open>n\<close> bytes are copied.
\<close>

lemma strlcpy_copy_app:
  assumes "c_string t" and "0 < n" and "n \<le> length old"
  shows "strlcpy_copy (dpre @ old) (length dpre) (spre @ t @ NUL # r) (length spre) n =
    (if length t < n
     then Some (dpre @ t @ NUL # drop (Suc (length t)) old,
                length dpre + length t + 1, length spre + length t + 1, n - length t)
     else Some (dpre @ take n t @ drop n old, length dpre + n, length spre + n, 0))"
  using assms
proof (induction t arbitrary: n dpre spre old)
  case Nil
  then obtain x old' where "old = x # old'" by (cases old) auto
  with Nil show ?case by (simp add: strlcpy_copy.simps nth_append)
next
  case (Cons c t)
  then obtain x old' where old: "old = x # old'" by (cases old) auto
  show ?case
  proof (cases "n = 1")
    case True
    with Cons.prems old show ?thesis by (simp add: strlcpy_copy.simps nth_append)
  next
    case False
    have "strlcpy_copy ((dpre @ [c]) @ old') (length (dpre @ [c]))
            ((spre @ [c]) @ t @ NUL # r) (length (spre @ [c])) (n - 1) =
      (if length t < n - 1
       then Some ((dpre @ [c]) @ t @ NUL # drop (Suc (length t)) old',
                  length (dpre @ [c]) + length t + 1, length (spre @ [c]) + length t + 1, n - 1 - length t)
       else Some ((dpre @ [c]) @ take (n - 1) t @ drop (n - 1) old',
                  length (dpre @ [c]) + (n - 1), length (spre @ [c]) + (n - 1), 0))"
      using Cons.prems False old by (intro Cons.IH) auto
    with Cons.prems False old show ?thesis
      by (cases n) (auto simp: strlcpy_copy.simps [of "dpre @ x # old'"] nth_append)
  qed
qed

lemma strlcat_find_app:
  assumes "c_string a"
  shows "strlcat_find (pre @ a @ NUL # r) n (length pre) = Some (length pre + min n (length a))"
  using assms
proof (induction a arbitrary: n pre)
  case Nil
  show ?case by (cases n) (simp_all add: nth_append)
next
  case (Cons c a)
  show ?case
  proof (cases n)
    case 0
    then show ?thesis by simp
  next
    case (Suc m)
    from Cons have "strlcat_find ((pre @ [c]) @ a @ NUL # r) m (length (pre @ [c]))
        = Some (length (pre @ [c]) + min m (length a))"
      by (intro Cons.IH) simp
    with Suc Cons.prems show ?thesis by (simp add: nth_append)
  qed
qed

lemma strlcat_append_app:
  assumes "c_string t" and "0 < n" and "n \<le> length old"
  shows "strlcat_append (dpre @ old) (length dpre) (spre @ t @ NUL # r) (length spre) n =
    Some (dpre @ take (n - 1) t @ drop (min (n - 1) (length t)) old,
          length dpre + min (n - 1) (length t), length spre + length t)"
  using assms
proof (induction t arbitrary: n dpre spre old)
  case Nil
  then show ?case by (simp add: strlcat_append.simps nth_append)
next
  case (Cons c t)
  then obtain x old' where old: "old = x # old'" by (cases old) auto
  show ?case
  proof (cases "n = 1")
    case True
    have "strlcat_append (dpre @ old) (length dpre) ((spre @ [c]) @ t @ NUL # r) (length (spre @ [c])) 1
        = Some (dpre @ take 0 t @ drop (min 0 (length t)) old,
                length dpre + min 0 (length t), length (spre @ [c]) + length t)"
      using Cons.IH [of 1 old dpre "spre @ [c]"] Cons.prems True by simp
    with Cons.prems True show ?thesis
      by (simp add: strlcat_append.simps [of _ "length dpre" "spre @ c # t @ NUL # r"] nth_append)
  next
    case False
    have "strlcat_append ((dpre @ [c]) @ old') (length (dpre @ [c]))
            ((spre @ [c]) @ t @ NUL # r) (length (spre @ [c])) (n - 1) =
      Some ((dpre @ [c]) @ take (n - 1 - 1) t @ drop (min (n - 1 - 1) (length t)) old',
            length (dpre @ [c]) + min (n - 1 - 1) (length t), length (spre @ [c]) + length t)"
      using Cons.prems False old by (intro Cons.IH) auto
    moreover obtain k where "n = Suc (Suc k)"
      using Cons.prems False by (cases n; cases "n - 1") auto
    ultimately show ?thesis
      using Cons.prems old
      by (simp add: strlcat_append.simps [of "dpre @ x # old'"] nth_append)
  qed
qed

section \<open>Results of the two functions\<close>

lemma strlcpy_result:
  assumes "c_string t" and "siz \<le> length dst"
  shows "strlcpy dst (t @ NUL # r) siz =
    Some ((if siz = 0 then dst
           else if length t < siz - 1 then t @ NUL # drop (Suc (length t)) dst
           else take (siz - 1) t @ NUL # drop siz dst), length t)"
proof (cases "siz \<le> 1")
  case True
  then consider "siz = 0" | "siz = 1" by linarith
  then show ?thesis
  proof cases
    case 1
    then show ?thesis
      using strlcpy_skip_app [OF assms(1), of "[]"] by (simp add: strlcpy_def)
  next
    case 2
    with assms(2) obtain x dst' where "dst = x # dst'" by (cases dst) auto
    with 2 show ?thesis
      using strlcpy_skip_app [OF assms(1), of "[]"] by (simp add: strlcpy_def)
  qed
next
  case False
  have copy: "strlcpy_copy dst 0 (t @ NUL # r) 0 (siz - 1) =
    (if length t < siz - 1
     then Some (t @ NUL # drop (Suc (length t)) dst, length t + 1, length t + 1, siz - 1 - length t)
     else Some (take (siz - 1) t @ drop (siz - 1) dst, siz - 1, siz - 1, 0))"
    using strlcpy_copy_app [OF assms(1), of "siz - 1" dst "[]" "[]"] False assms(2) by simp
  show ?thesis
  proof (cases "length t < siz - 1")
    case True
    with False copy show ?thesis by (simp add: strlcpy_def)
  next
    case long: False
    have "t = take (siz - 1) t @ drop (siz - 1) t" by simp
    then have "strlcpy_skip (t @ NUL # r) (siz - 1) = Some (length t + 1)"
      using strlcpy_skip_app [of "drop (siz - 1) t" "take (siz - 1) t" r] assms(1) long
      by (metis (no_types, lifting) append.assoc append_take_drop_id c_string_simps(3)
          length_append length_take min.absorb2 not_less)
    moreover have "(take (siz - 1) t @ drop (siz - 1) dst)[siz - 1 := NUL]
        = take (siz - 1) t @ NUL # drop siz dst"
    proof -
      obtain y ys where d: "drop (siz - 1) dst = y # ys"
        using assms(2) False by (cases "drop (siz - 1) dst") auto
      have "ys = drop (Suc (siz - 1)) dst"
        using d by (metis drop_Suc list.sel(3) tl_drop)
      moreover have "Suc (siz - 1) = siz" using False by simp
      ultimately have "ys = drop siz dst" by simp
      with d long show ?thesis by (simp add: list_update_append)
    qed
    ultimately show ?thesis
      using False long copy assms(2) by (simp add: strlcpy_def)
  qed
qed

lemma strlcat_result:
  assumes "c_string t" and "c_string a" and "dst = a @ NUL # rest"
    and "siz \<le> length dst" and "length a < siz"
  shows "strlcat dst (t @ NUL # r) siz =
    Some ((let m = min (siz - length a - 1) (length t) in
             a @ take m t @ NUL # drop (length a + m + 1) dst), length a + length t)"
proof -
  define n where "n = siz - length a"
  define m where "m = min (n - 1) (length t)"
  have find: "strlcat_find dst siz 0 = Some (length a)"
    using strlcat_find_app [OF assms(2), of "[]" rest siz] assms(3,5) by simp
  have "strlcat_append (a @ NUL # rest) (length a) (t @ NUL # r) 0 n =
      Some (a @ take (n - 1) t @ drop m (NUL # rest), length a + m, length t)"
    using strlcat_append_app [OF assms(1), of n "NUL # rest" a "[]" r] assms(3,4,5)
    by (simp add: n_def m_def)
  moreover have "take (n - 1) t = take m t"
    by (simp add: m_def min_def)
  ultimately have app: "strlcat_append dst (length a) (t @ NUL # r) 0 n =
      Some (a @ take m t @ drop m (NUL # rest), length a + m, length t)"
    using assms(3) by simp
  have m: "m < length (NUL # rest)" "length (take m t) = m"
    using assms(3,4,5) by (auto simp: m_def n_def)
  then obtain y ys where d: "drop m (NUL # rest) = y # ys"
    by (cases "drop m (NUL # rest)") auto
  have ys: "ys = drop (Suc m) (NUL # rest)"
    using d by (metis drop_Suc list.sel(3) tl_drop)
  have "(a @ take m t @ drop m (NUL # rest))[length a + m := NUL]
      = a @ take m t @ NUL # drop (length a + m + 1) dst"
    using m d ys assms(3) by (simp add: list_update_append)
  moreover have "siz - length a = n" "n \<noteq> 0"
    using assms(5) by (simp_all add: n_def)
  moreover have "min (n - Suc 0) (length t) = m"
    by (simp add: m_def)
  ultimately show ?thesis
    using find app m d by (simp add: strlcat_def Let_def)
qed

section \<open>The contract of bounded copying\<close>

text \<open>
  What the two functions do to the string in the destination: \<open>strlcpy_str\<close> and
  \<open>strlcat_str\<close> are the operations the XML library is modelled with.
\<close>

definition strlcpy_str :: "nat \<Rightarrow> string \<Rightarrow> string" where
  "strlcpy_str siz t = take (siz - 1) t"

definition strlcat_str :: "nat \<Rightarrow> string \<Rightarrow> string \<Rightarrow> string" where
  "strlcat_str siz a t = take (siz - 1) (a @ t)"

lemma strlcpy_str_length [simp]: "0 < siz \<Longrightarrow> length (strlcpy_str siz t) < siz"
  by (simp add: strlcpy_str_def)

lemma strlcpy_str_id: "length t < siz \<Longrightarrow> strlcpy_str siz t = t"
  by (simp add: strlcpy_str_def)

lemma strlcat_str_id: "length a + length t < siz \<Longrightarrow> strlcat_str siz a t = a @ t"
  by (simp add: strlcat_str_def)

lemma strlcat_str_length [simp]: "0 < siz \<Longrightarrow> length (strlcat_str siz a t) < siz"
  by (simp add: strlcat_str_def)

lemma c_string_strlcpy_str [simp]: "c_string t \<Longrightarrow> c_string (strlcpy_str siz t)"
  by (simp add: strlcpy_str_def)

text \<open>
  \<open>ready dst siz\<close> is what the caller owes the function, \<open>wanted dst t\<close> the string it
  would produce in an array of unlimited size.
\<close>

locale bounded_store =
  fixes store :: "char list \<Rightarrow> char list \<Rightarrow> nat \<Rightarrow> (char list \<times> nat) option"
    and ready :: "char list \<Rightarrow> nat \<Rightarrow> bool"
    and wanted :: "char list \<Rightarrow> string \<Rightarrow> string"
  assumes store_ok:
    "\<lbrakk>c_string t; 0 < siz; siz \<le> length dst; ready dst siz\<rbrakk> \<Longrightarrow>
     \<exists>dst'. store dst (t @ NUL # r) siz = Some (dst', length (wanted dst t)) \<and>
       length dst' = length dst \<and> drop siz dst' = drop siz dst \<and>
       terminated (take siz dst') \<and> array_str dst' = take (siz - 1) (wanted dst t)"
begin

text \<open>The returned length tells the caller exactly whether the string was cut.\<close>

lemma truncation_reported:
  assumes "c_string t" "0 < siz" "siz \<le> length dst" "ready dst siz"
    and "store dst (t @ NUL # r) siz = Some (dst', ret)"
  shows "siz \<le> ret \<longleftrightarrow> array_str dst' \<noteq> wanted dst t"
proof -
  obtain d where "store dst (t @ NUL # r) siz = Some (d, length (wanted dst t))"
    and "array_str d = take (siz - 1) (wanted dst t)"
    using store_ok [OF assms(1-4)] by blast
  with assms(5) have ret: "ret = length (wanted dst t)"
    and str: "array_str dst' = take (siz - 1) (wanted dst t)"
    by simp_all
  have "take (siz - 1) (wanted dst t) = wanted dst t \<longleftrightarrow> length (wanted dst t) < siz"
    using assms(2) by (simp only: take_all_iff) linarith
  with ret str show ?thesis by (simp only: not_less)
qed

end

interpretation cpy: bounded_store strlcpy "\<lambda>_ _. True" "\<lambda>_ t. t"
proof
  fix t r dst :: "char list" and siz :: nat
  assume a: "c_string t" "0 < siz" "siz \<le> length dst"
  let ?d = "if length t < siz - 1 then t @ NUL # drop (Suc (length t)) dst
            else take (siz - 1) t @ NUL # drop siz dst"
  have "strlcpy dst (t @ NUL # r) siz = Some (?d, length t)"
    using strlcpy_result [OF a(1,3), of r] a(2) by simp
  moreover have "length ?d = length dst" using a by auto
  moreover have "drop siz ?d = drop siz dst"
    using a drop_behind [of t siz NUL dst] by auto
  moreover have "terminated (take siz ?d)"
    using a(2) terminated_take [of t siz] terminated_take [of "take (siz - 1) t" siz] by simp
  moreover have "array_str ?d = take (siz - 1) t"
    using a(1) by auto
  ultimately show "\<exists>dst'. strlcpy dst (t @ NUL # r) siz = Some (dst', length t) \<and>
      length dst' = length dst \<and> drop siz dst' = drop siz dst \<and>
      terminated (take siz dst') \<and> array_str dst' = take (siz - 1) t"
    by blast
qed

interpretation cat: bounded_store strlcat
  "\<lambda>dst siz. terminated dst \<and> length (array_str dst) < siz" "\<lambda>dst t. array_str dst @ t"
proof
  fix t r dst :: "char list" and siz :: nat
  assume a: "c_string t" "0 < siz" "siz \<le> length dst"
    and ready: "terminated dst \<and> length (array_str dst) < siz"
  from ready obtain rest where rest: "dst = array_str dst @ NUL # rest"
    and cs: "c_string (array_str dst)"
    by (blast elim: terminated_split)
  define k where "k = length (array_str dst)"
  define m where "m = min (siz - k - 1) (length t)"
  let ?d = "array_str dst @ take m t @ NUL # drop (k + m + 1) dst"
  have "strlcat dst (t @ NUL # r) siz = Some (?d, length (array_str dst @ t))"
    using strlcat_result [OF a(1) cs rest a(3)] ready by (simp add: Let_def m_def k_def)
  moreover have len: "k + m < siz" "length (take m t) = m" "k < siz"
    using ready by (auto simp: m_def k_def)
  then have "length ?d = length dst"
    using a(3) by (auto simp: k_def)
  moreover have "drop siz ?d = drop siz dst"
    using len drop_behind [of "array_str dst @ take m t" siz NUL dst] by (simp add: k_def)
  moreover have "terminated (take siz ?d)"
    using len terminated_take [of "array_str dst @ take m t" siz] by (simp add: k_def)
  moreover have "array_str ?d = take (siz - 1) (array_str dst @ t)"
  proof -
    have "array_str ?d = array_str dst @ take m t"
      using a(1) cs array_str_append [of "array_str dst @ take m t"] by simp
    also have "\<dots> = take (siz - 1) (array_str dst @ t)"
      using len(3) by (auto simp: m_def k_def min_def)
    finally show ?thesis .
  qed
  ultimately show "\<exists>dst'. strlcat dst (t @ NUL # r) siz = Some (dst', length (array_str dst @ t)) \<and>
      length dst' = length dst \<and> drop siz dst' = drop siz dst \<and>
      terminated (take siz dst') \<and> array_str dst' = take (siz - 1) (array_str dst @ t)"
    by blast
qed

section \<open>Correctness\<close>

text \<open>For every terminated source and every destination of at least the announced size
  \<^verbatim>\<open>strlcpy\<close> stays inside both arrays, stores the longest prefix of the source that leaves
  room for the NUL, terminates it, leaves the bytes behind the announced size alone, and
  returns the length of the source, which is at least the size exactly if the string was cut.\<close>

theorem strlcpy_correct:
  assumes "c_string t" and "0 < siz" and "siz \<le> length dst"
  shows "\<exists>dst'. strlcpy dst (t @ NUL # r) siz = Some (dst', length t) \<and>
    length dst' = length dst \<and> drop siz dst' = drop siz dst \<and> terminated (take siz dst') \<and>
    array_str dst' = strlcpy_str siz t \<and> (siz \<le> length t \<longleftrightarrow> array_str dst' \<noteq> t)"
proof -
  obtain d where d: "strlcpy dst (t @ NUL # r) siz = Some (d, length t)" "length d = length dst"
    "drop siz d = drop siz dst" "terminated (take siz d)" "array_str d = take (siz - 1) t"
    using cpy.store_ok [OF assms TrueI, of r] by blast
  with cpy.truncation_reported [OF assms TrueI d(1)] show ?thesis
    by (auto simp: strlcpy_str_def)
qed

theorem strlcpy_correct_witness:
  "\<exists>dst'. strlcpy ''xxxxxx'' (''hello'' @ NUL # []) 4 = Some (dst', 5) \<and> length dst' = 6 \<and>
     array_str dst' = ''hel''"
  using strlcpy_correct [of "''hello''" 4 "''xxxxxx''" "[]"] by (auto simp: strlcpy_str_def)

text \<open>If the destination of \<^verbatim>\<open>strlcat\<close> holds a terminated string that fits the announced
  size, the source is appended up to that size: both arrays are respected, the result is
  terminated, nothing behind the announced size changes, and the returned total length is at
  least the size exactly if something was cut.\<close>

theorem strlcat_correct:
  assumes "c_string t" and "siz \<le> length dst" and "terminated dst" and "length (array_str dst) < siz"
  shows "\<exists>dst'. strlcat dst (t @ NUL # r) siz = Some (dst', length (array_str dst) + length t) \<and>
    length dst' = length dst \<and> drop siz dst' = drop siz dst \<and> terminated (take siz dst') \<and>
    array_str dst' = strlcat_str siz (array_str dst) t \<and>
    (siz \<le> length (array_str dst) + length t \<longleftrightarrow> array_str dst' \<noteq> array_str dst @ t)"
proof -
  from assms(4) have siz: "0 < siz" by simp
  have rd: "terminated dst \<and> length (array_str dst) < siz" using assms by simp
  obtain d where d: "strlcat dst (t @ NUL # r) siz = Some (d, length (array_str dst @ t))"
    "length d = length dst" "drop siz d = drop siz dst" "terminated (take siz d)"
    "array_str d = take (siz - 1) (array_str dst @ t)"
    using cat.store_ok [OF assms(1) siz assms(2) rd, of r] by blast
  with cat.truncation_reported [OF assms(1) siz assms(2) rd d(1)] show ?thesis
    by (auto simp: strlcat_str_def)
qed

theorem strlcat_correct_witness:
  "\<exists>dst'. strlcat (''ab'' @ NUL # ''xxx'') (''cdef'' @ NUL # []) 5 = Some (dst', 6) \<and>
     length dst' = 6 \<and> array_str dst' = ''abcd''"
proof -
  have a: "array_str (''ab'' @ NUL # ''xxx'') = ''ab''" by (rule array_str_append) simp
  show ?thesis
    using strlcat_correct [of "''cdef''" 5 "''ab'' @ NUL # ''xxx''" "[]", unfolded a]
    by (auto simp: strlcat_str_def terminated_def)
qed

end
