(* ===== verification/Mxml_Codec.thy ===== *)
theory Mxml_Codec
  imports Strlcpy
begin

text \<open>
  Escaping and unescaping of XML text (\<open>mxml_encode\<close> and \<open>mxml_decode\<close> of
  \<^verbatim>\<open>src/mxml/mxml.c\<close>), with the file-level static variables the escaping routine and
  the writer keep between calls.  \<open>mxml_encode\<close> works on a heap buffer whose size is
  part of the state, so that a write behind its end is a \<open>Buffer_overflow\<close> of the
  model.  Shown here: for every size the callers use the buffer is never overrun, the
  result is the escaped form of a prefix of the input (an entity is never cut), and
  decoding gives that prefix back.
\<close>

section \<open>Static state\<close>

text \<open>
  The statics of \<^verbatim>\<open>mxml.c\<close>: \<^verbatim>\<open>mxml_suppress_date_flag\<close>; the bytes allocated for
  \<^verbatim>\<open>_encode_buffer\<close> (\<open>None\<close> while it is NULL) and \<^verbatim>\<open>buffer_size\<close> of \<^verbatim>\<open>mxml_encode\<close>; the
  bytes allocated for \<^verbatim>\<open>_data_enc\<close> and \<^verbatim>\<open>data_size\<close> of \<^verbatim>\<open>mxml_write_value\<close>.
\<close>

record mxml_static =
  suppress_date_flag :: bool
  encode_cap :: "nat option"
  encode_size :: nat
  data_cap :: "nat option"
  data_size :: nat

definition mxml_static_init :: mxml_static where
  "mxml_static_init =
     \<lparr>suppress_date_flag = False, encode_cap = None, encode_size = 1000,
      data_cap = None, data_size = 0\<rparr>"

definition mxml_suppress_date :: "mxml_static \<Rightarrow> bool \<Rightarrow> mxml_static" where
  "mxml_suppress_date st suppress = st\<lparr>suppress_date_flag := suppress\<rparr>"

text \<open>\<^verbatim>\<open>mxml_deallocate\<close>, run at exit: the buffers are freed and the pointers cleared.\<close>

definition mxml_deallocate :: "mxml_static \<Rightarrow> mxml_static" where
  "mxml_deallocate st = st\<lparr>encode_cap := None, data_cap := None\<rparr>"

section \<open>Escaping\<close>

definition encode_char :: "bool \<Rightarrow> char \<Rightarrow> string" where
  "encode_char translate c =
     (if translate then
        (if c = CHR ''<'' then ''&lt;''
         else if c = CHR ''>'' then ''&gt;''
         else if c = CHR ''&'' then ''&amp;''
         else if c = DQUOTE then ''&quot;''
         else if c = SQUOTE then ''&apos;''
         else [c])
      else
        (if c = CHR ''<'' then ''&lt;''
         else if c = CHR ''&'' then ''&amp;''
         else [c]))"

text \<open>
  Bytes an iteration stores at \<^verbatim>\<open>pd\<close>: \<^verbatim>\<open>strcpy\<close> of an entity writes its NUL as well.
\<close>

definition encode_stores :: "string \<Rightarrow> nat" where
  "encode_stores e = (if length e = 1 then 1 else length e + 1)"

text \<open>
  The \<^verbatim>\<open>for\<close> loop: \<open>lim\<close> is the bound of its condition, \<open>cap\<close> the size of the buffer,
  \<open>out\<close> the bytes from \<^verbatim>\<open>_encode_buffer\<close> up to \<^verbatim>\<open>pd\<close>.
\<close>

fun encode_loop :: "bool \<Rightarrow> nat \<Rightarrow> nat \<Rightarrow> string \<Rightarrow> string \<Rightarrow> string res" where
  "encode_loop translate lim cap [] out = Inr out"
| "encode_loop translate lim cap (c # ps) out =
     (if length out < lim then
        (let e = encode_char translate c in
         if cap < length out + encode_stores e then Inl Buffer_overflow
         else encode_loop translate lim cap ps (out @ e))
      else Inr out)"

text \<open>\<^verbatim>\<open>(size_t) (size - 10)\<close>: below ten the subtraction wraps around.\<close>

definition encode_limit :: "nat \<Rightarrow> nat" where
  "encode_limit siz = nat ((int siz - 10) mod 2 ^ 64)"

text \<open>\<^verbatim>\<open>size*2\<close> is computed in \<^verbatim>\<open>int\<close>.\<close>

definition mxml_encode :: "mxml_static \<Rightarrow> string \<Rightarrow> nat \<Rightarrow> bool \<Rightarrow> (string \<times> mxml_static) res" where
  "mxml_encode st src siz translate =
     (if siz = 0 then Inl Assert_failed
      else if encode_size st < siz \<and> 2 ^ 31 \<le> siz * 2 then Inl Int_overflow
      else
        let cap0 = (case encode_cap st of None \<Rightarrow> encode_size st | Some c \<Rightarrow> c);
            cap = (if encode_size st < siz then siz * 2 else cap0);
            bsize = (if encode_size st < siz then siz else encode_size st)
        in bind_res (encode_loop translate (encode_limit siz) cap src []) (\<lambda>out.
             if cap \<le> length out then Inl Buffer_overflow
             else Inr (strlcpy_str siz out, st\<lparr>encode_cap := Some cap, encode_size := bsize\<rparr>)))"

section \<open>Unescaping\<close>

text \<open>
  \<^verbatim>\<open>mxml_decode\<close> edits the string in place: \<open>done\<close> is the part before \<^verbatim>\<open>p\<close>, which is
  final, and \<^verbatim>\<open>memmove\<close> closes the gap behind a replaced entity.
\<close>

function decode_loop :: "string \<Rightarrow> string \<Rightarrow> string" where
  "decode_loop don p =
     (case c_strchr (CHR ''&'') p of
        None \<Rightarrow> don @ p
      | Some q \<Rightarrow>
          let don' = don @ take (length p - length q) p in
          if starts_with ''&lt;'' q then decode_loop (don' @ ''<'') (drop 4 q)
          else if starts_with ''&gt;'' q then decode_loop (don' @ ''>'') (drop 4 q)
          else if starts_with ''&amp;'' q then decode_loop (don' @ ''&'') (drop 5 q)
          else if starts_with ''&quot;'' q then decode_loop (don' @ [DQUOTE]) (drop 6 q)
          else if starts_with ''&apos;'' q then decode_loop (don' @ [SQUOTE]) (drop 6 q)
          else decode_loop (don' @ ''&'') (tl q))"
  by pat_completeness auto
termination
  by (relation "measure (\<lambda>(don, p). length p)") (auto intro: c_strchr_shorter)

declare decode_loop.simps [simp del]

definition mxml_decode :: "string \<Rightarrow> string" where
  "mxml_decode str = decode_loop [] str"

section \<open>Reference definitions\<close>

text \<open>The escaped form of a whole string, and unescaping by structural recursion.\<close>

definition encode_full :: "bool \<Rightarrow> string \<Rightarrow> string" where
  "encode_full translate s = concat (map (encode_char translate) s)"

lemma encode_full_simps [simp]:
  "encode_full tr [] = []"
  "encode_full tr (c # s) = encode_char tr c @ encode_full tr s"
  "encode_full tr (s @ t) = encode_full tr s @ encode_full tr t"
  by (simp_all add: encode_full_def)

fun decode_ref :: "string \<Rightarrow> string" where
  "decode_ref [] = []"
| "decode_ref (c # p) =
     (if c \<noteq> CHR ''&'' then c # decode_ref p
      else if starts_with ''lt;'' p then CHR ''<'' # decode_ref (drop 3 p)
      else if starts_with ''gt;'' p then CHR ''>'' # decode_ref (drop 3 p)
      else if starts_with ''amp;'' p then CHR ''&'' # decode_ref (drop 4 p)
      else if starts_with ''quot;'' p then DQUOTE # decode_ref (drop 5 p)
      else if starts_with ''apos;'' p then SQUOTE # decode_ref (drop 5 p)
      else c # decode_ref p)"

lemma decode_ref_no_amp: "CHR ''&'' \<notin> set r \<Longrightarrow> decode_ref (r @ p) = r @ decode_ref p"
  by (induction r) auto

text \<open>The in-place loop computes the reference function.\<close>

lemma decode_loop_ref: "decode_loop don p = don @ decode_ref p"
proof (induction don p rule: decode_loop.induct)
  case (1 don p)
  show ?case
  proof (cases "c_strchr (CHR ''&'') p")
    case None
    then have "decode_loop don p = don @ p"
      by (simp add: decode_loop.simps [of don p])
    moreover from None have "CHR ''&'' \<notin> set p" by (simp add: c_strchr_None)
    ultimately show ?thesis using decode_ref_no_amp [of p "[]"] by simp
  next
    case (Some q)
    then obtain r t where p: "p = r @ q" and r: "CHR ''&'' \<notin> set r" and q: "q = CHR ''&'' # t"
      using c_strchr_Some by metis
    have pre: "take (length p - length q) p = r" using p by simp
    note IH = "1.IH" [OF Some refl, unfolded pre]
    have "decode_loop don p = (don @ r) @ decode_ref q"
      unfolding decode_loop.simps [of don p] Some option.case Let_def pre
      using IH q by (simp add: starts_with_Cons)
    with p r show ?thesis by (simp add: decode_ref_no_amp)
  qed
qed

lemma mxml_decode_ref: "mxml_decode = decode_ref"
  by (rule ext) (simp add: mxml_decode_def decode_loop_ref)

section \<open>Sizes\<close>

lemma encode_char_length: "1 \<le> length (encode_char tr c) \<and> length (encode_char tr c) \<le> 6"
  by (simp add: encode_char_def)

lemma encode_stores_le: "encode_stores (encode_char tr c) \<le> 7"
  using encode_char_length [of tr c] by (simp add: encode_stores_def)

lemma length_encode_full: "length s \<le> length (encode_full tr s) \<and> length (encode_full tr s) \<le> 6 * length s"
proof (induction s)
  case Nil
  show ?case by simp
next
  case (Cons c s)
  with encode_char_length [of tr c] show ?case by simp
qed

lemma c_string_encode_full [simp]: "c_string s \<Longrightarrow> c_string (encode_full tr s)"
  by (induction s) (auto simp: encode_char_def)

text \<open>
  The loop, from any state: it stops at the end of the input or at the first position at
  or behind the limit, and what it has produced is the escaped form of what it has read.
\<close>

lemma encode_loop_result:
  assumes "lim + 6 \<le> cap"
  shows "\<exists>k. encode_loop tr lim cap src out = Inr (out @ encode_full tr (take k src)) \<and>
    k \<le> length src \<and>
    (0 < k \<longrightarrow> length (out @ encode_full tr (take k src)) < lim + 6) \<and>
    (k < length src \<longrightarrow> lim \<le> length (out @ encode_full tr (take k src)))"
proof (induction src arbitrary: out)
  case Nil
  show ?case by simp
next
  case (Cons c src)
  show ?case
  proof (cases "length out < lim")
    case False
    then show ?thesis by (intro exI [of _ 0]) simp
  next
    case True
    let ?e = "encode_char tr c"
    obtain k where k: "encode_loop tr lim cap src (out @ ?e) = Inr ((out @ ?e) @ encode_full tr (take k src))"
      "k \<le> length src"
      "0 < k \<longrightarrow> length ((out @ ?e) @ encode_full tr (take k src)) < lim + 6"
      "k < length src \<longrightarrow> lim \<le> length ((out @ ?e) @ encode_full tr (take k src))"
      using Cons.IH [of "out @ ?e"] by blast
    have "length (out @ ?e) < lim + 6"
      using True encode_char_length [of tr c] by simp
    moreover have "length out + encode_stores ?e \<le> cap"
      using True assms encode_stores_le [of tr c] by linarith
    ultimately show ?thesis
      using True k by (intro exI [of _ "Suc k"]) (cases k; auto simp: Let_def)
  qed
qed

lemma encode_limit_ge_10: "10 \<le> siz \<Longrightarrow> siz < 2 ^ 31 \<Longrightarrow> encode_limit siz = siz - 10"
  by (simp add: encode_limit_def)

text \<open>What is true of the statics between calls: the buffer has at least the recorded size.\<close>

definition encode_ok :: "mxml_static \<Rightarrow> bool" where
  "encode_ok st \<longleftrightarrow> 1000 \<le> encode_size st \<and>
     (case encode_cap st of None \<Rightarrow> True | Some c \<Rightarrow> encode_size st \<le> c)"

lemma encode_ok_init [simp, inv_intros]: "encode_ok mxml_static_init"
  by (simp add: encode_ok_def mxml_static_init_def)

text \<open>
  The number of input characters the escaping of one call covers.
\<close>

definition encode_reach :: "bool \<Rightarrow> nat \<Rightarrow> string \<Rightarrow> nat \<Rightarrow> bool" where
  "encode_reach tr siz src k \<longleftrightarrow> k \<le> length src \<and>
     length (encode_full tr (take k src)) + 5 \<le> siz \<and>
     (k < length src \<longrightarrow> siz \<le> length (encode_full tr (take k src)) + 10)"

lemma mxml_encode_result:
  assumes "encode_ok st" and "10 \<le> siz" and "siz < 2 ^ 30"
  obtains k st' where "mxml_encode st src siz tr = Inr (encode_full tr (take k src), st')"
    and "encode_reach tr siz src k" and "encode_ok st'"
    and "data_cap st' = data_cap st" and "data_size st' = data_size st"
    and "suppress_date_flag st' = suppress_date_flag st"
proof -
  define cap where "cap = (if encode_size st < siz then siz * 2
      else (case encode_cap st of None \<Rightarrow> encode_size st | Some c \<Rightarrow> c))"
  define bsize where "bsize = (if encode_size st < siz then siz else encode_size st)"
  define st' where "st' = st\<lparr>encode_cap := Some cap, encode_size := bsize\<rparr>"
  have cap: "siz \<le> cap" and ok: "encode_ok st'"
    using assms(1) by (auto simp: cap_def st'_def bsize_def encode_ok_def split: option.splits)
  have lim: "siz - 10 + 6 \<le> cap" using cap assms(2) by linarith
  obtain k where loop: "encode_loop tr (siz - 10) cap src [] = Inr (encode_full tr (take k src))"
    and k: "k \<le> length src" "0 < k \<longrightarrow> length (encode_full tr (take k src)) < siz - 10 + 6"
      "k < length src \<longrightarrow> siz - 10 \<le> length (encode_full tr (take k src))"
    using encode_loop_result [of "siz - 10" cap tr src "[]", unfolded append_Nil] lim by blast
  have len: "length (encode_full tr (take k src)) + 5 \<le> siz"
    using k(2) assms(2) by (cases "k = 0") auto
  then have "strlcpy_str siz (encode_full tr (take k src)) = encode_full tr (take k src)"
    by (simp add: strlcpy_str_id)
  then have "mxml_encode st src siz tr = Inr (encode_full tr (take k src), st')"
    using loop len cap assms(2,3)
    by (simp add: mxml_encode_def Let_def encode_limit_ge_10 cap_def [symmetric]
        bsize_def [symmetric] st'_def)
  moreover have "encode_reach tr siz src k"
    using k len by (auto simp: encode_reach_def)
  ultimately show ?thesis
    using ok by (intro that [of k st']) (simp_all add: st'_def)
qed

text \<open>A string whose escaped form leaves ten bytes free is escaped completely.\<close>

lemma encode_reach_all:
  assumes "encode_reach tr siz src k" and "length (encode_full tr src) + 10 < siz"
  shows "take k src = src"
proof (rule ccontr)
  assume "take k src \<noteq> src"
  with assms(1) have "k < length src" by (auto simp: encode_reach_def)
  moreover have "encode_full tr src = encode_full tr (take k src) @ encode_full tr (drop k src)"
    by (metis append_take_drop_id encode_full_simps(3))
  ultimately show False using assms by (simp add: encode_reach_def)
qed

section \<open>Round trip\<close>

lemma decode_ref_encode_char: "decode_ref (encode_char tr c @ p) = c # decode_ref p"
  by (simp add: encode_char_def starts_with_def)

lemma decode_ref_encode_full: "decode_ref (encode_full tr s @ p) = s @ decode_ref p"
  by (induction s) (simp_all add: decode_ref_encode_char)

lemma mxml_decode_encode_full [simp]: "mxml_decode (encode_full tr s) = s"
  using decode_ref_encode_full [of tr s "[]"] by (simp add: mxml_decode_ref)


theorem encode_overflow: "encode_size st < siz \<Longrightarrow> 2 ^ 30 \<le> siz \<Longrightarrow> mxml_encode st src siz tr = Inl Int_overflow"
  by (simp add: mxml_encode_def)


text \<open>The in-place unescaping loop of \<^verbatim>\<open>mxml_decode\<close> computes the left-to-right
  replacement of the five entities: text that a replacement produces is never read as
  part of another entity, and an ampersand that starts no entity is kept.\<close>

theorem decode_is_reference:
  "mxml_decode s = decode_ref s"
  by (simp add: mxml_decode_ref)

end
