(* ===== verification/Mxml_Writer.thy ===== *)
theory Mxml_Writer
  imports Mxml_Codec
begin

text \<open>
  The XML writer of \<^verbatim>\<open>src/mxml/mxml.c\<close>: \<open>MXML_WRITER\<close> and every function that
  produces XML text, in memory (\<open>mxml_open_buffer\<close>) or to a file
  (\<open>mxml_open_file\<close>).  Fixed-size line buffers, the static value buffer and the growing
  output buffer are modelled with their sizes.  Shown here: the invariant of the writer
  state, that calls within the documented sizes never overrun a buffer, that each call
  appends exactly the text of an abstract printer (\<open>xml_out\<close>), and what closing a writer
  with several open elements does.
\<close>

section \<open>State\<close>

text \<open>
  \<open>buffer\<close> holds the text collected in memory mode and is \<open>None\<close> in file mode;
  \<^verbatim>\<open>buffer_len\<close> is its length and \<open>buffer_size\<close> the bytes allocated for it.  In file mode
  \<open>file_text\<close> is what the operating system has accepted so far.  \<open>stack\<close> holds the
  names of the open elements, outermost first.
\<close>

record mxml_writer =
  file_text :: string
  buffer :: "string option"
  buffer_size :: nat
  level :: nat
  element_is_open :: bool
  data_was_written :: bool
  stack :: "string list"
  translate :: bool

text \<open>
  The result of \<^verbatim>\<open>write (fh, line, len)\<close>, given the text already in the file: the number
  of bytes taken, negative for an error.  It belongs to the operating system and is a
  parameter.
\<close>

type_synonym os_write = "string \<Rightarrow> string \<Rightarrow> int"

type_synonym wstate = "mxml_static \<times> mxml_writer"

section \<open>Operations\<close>

text \<open>
  In the source \<^verbatim>\<open>buffer_size\<close> and \<^verbatim>\<open>buffer_len\<close> are of type \<^verbatim>\<open>int\<close> and the result of
  \<^verbatim>\<open>mxml_realloc\<close> is used unchecked.  Here the two are natural numbers and the reallocation succeeds:
  what is said of writers in memory is said of texts below 2 GiB in a process that does not run out
  of memory.  The writer of whole trees, which writes to a file, uses neither.
\<close>

definition mxml_write_line :: "os_write \<Rightarrow> mxml_writer \<Rightarrow> string \<Rightarrow> (int \<times> mxml_writer) res" where
  "mxml_write_line os w line =
     (case buffer w of
        Some b \<Rightarrow>
          let bs = (if buffer_size w \<le> length b + length line then buffer_size w + 10000
                    else buffer_size w)
          in if bs < length b + length line + 1 then Inl Buffer_overflow
             else Inr (int (length line), w\<lparr>buffer := Some (b @ line), buffer_size := bs\<rparr>)
      | None \<Rightarrow>
          let n = os (file_text w) line
          in Inr (n, w\<lparr>file_text := file_text w @ take (nat n) line\<rparr>))"

definition xml_header :: string where
  "xml_header = ''<?xml version='' @ [DQUOTE] @ ''1.0'' @ [DQUOTE] @ '' encoding='' @
     [DQUOTE] @ ''ISO-8859-1'' @ [DQUOTE] @ ''?>'' @ [LF]"

definition date_comment :: "string \<Rightarrow> string" where
  "date_comment date = ''<!-- created by MXML on '' @ date @ '' -->'' @ [LF]"

text \<open>\<^verbatim>\<open>date\<close> is \<^verbatim>\<open>ctime (&now)\<close>; its newline, at position 24, is cut off.\<close>

definition write_header :: "os_write \<Rightarrow> mxml_static \<Rightarrow> string \<Rightarrow> mxml_writer \<Rightarrow> mxml_writer res" where
  "write_header os st date w =
     bind_res (mxml_write_line os w xml_header) (\<lambda>(_, w1).
     bind_res (if \<not> suppress_date_flag st then mxml_write_line os w1 (date_comment (take 24 date))
               else Inr (0, w1)) (\<lambda>(_, w2).
     Inr (w2\<lparr>level := 0, element_is_open := False\<rparr>)))"

definition mxml_open_buffer :: "os_write \<Rightarrow> mxml_static \<Rightarrow> string \<Rightarrow> mxml_writer res" where
  "mxml_open_buffer os st date =
     write_header os st date
       \<lparr>file_text = [], buffer = Some [], buffer_size = 10000, level = 0,
        element_is_open = False, data_was_written = False, stack = [], translate = True\<rparr>"

text \<open>\<open>opened\<close> tells whether \<^verbatim>\<open>open\<close> succeeds.\<close>

definition mxml_open_file ::
  "os_write \<Rightarrow> mxml_static \<Rightarrow> string \<Rightarrow> bool \<Rightarrow> string \<Rightarrow> mxml_writer option res" where
  "mxml_open_file os st file_name opened date =
     (if \<not> opened then
        (if 1000 < length (''Unable to open file '' @ [DQUOTE] @ file_name @ [DQUOTE] @ '': '') + 1
         then Inl Buffer_overflow else Inr None)
      else
        bind_res (write_header os st date
          \<lparr>file_text = [], buffer = None, buffer_size = 0, level = 0,
           element_is_open = False, data_was_written = False, stack = [], translate = True\<rparr>)
        (\<lambda>w. Inr (Some w)))"

definition mxml_set_translate :: "mxml_writer \<Rightarrow> bool \<Rightarrow> bool \<times> mxml_writer" where
  "mxml_set_translate w flag = (translate w, w\<lparr>translate := flag\<rparr>)"

text \<open>\<^verbatim>\<open>if (writer->element_is_open) { mxml_write_line (writer, ">\n"); ... }\<close>\<close>

definition finish_open_tag :: "os_write \<Rightarrow> mxml_writer \<Rightarrow> mxml_writer res" where
  "finish_open_tag os w =
     (if element_is_open w then
        bind_res (mxml_write_line os w (''>'' @ [LF])) (\<lambda>(_, w1).
          Inr (w1\<lparr>element_is_open := False\<rparr>))
      else Inr w)"

text \<open>\<^verbatim>\<open>for (i=0 ; i<n ; i++) strlcat (line, XML_INDENT, sizeof (line));\<close> with a line of 1000 bytes.\<close>

fun cat_indent :: "nat \<Rightarrow> string \<Rightarrow> string" where
  "cat_indent 0 line = line"
| "cat_indent (Suc n) line = cat_indent n (strlcat_str 1000 line ''  '')"

definition mxml_start_element1 ::
  "os_write \<Rightarrow> wstate \<Rightarrow> string \<Rightarrow> bool \<Rightarrow> (bool \<times> wstate) res" where
  "mxml_start_element1 os s name indent =
     (let (st, w) = s in
      bind_res (finish_open_tag os w) (\<lambda>w1.
      let line1 = (if indent then cat_indent (level w1) [] else []);
          line2 = strlcat_str 1000 line1 ''<'';
          name0 = strlcpy_str 1000 name
      in bind_res (mxml_encode st name0 1000 (translate w1)) (\<lambda>(name_enc, st1).
         let line = strlcat_str 1000 line2 name_enc;
             w2 = w1\<lparr>stack := take (level w1) (stack w1) @ [name_enc], level := level w1 + 1,
                     element_is_open := True, data_was_written := False\<rparr>
         in bind_res (mxml_write_line os w2 line) (\<lambda>(n, w3).
            Inr (n = int (length line), st1, w3)))))"

definition mxml_start_element :: "os_write \<Rightarrow> wstate \<Rightarrow> string \<Rightarrow> (bool \<times> wstate) res" where
  "mxml_start_element os s name = mxml_start_element1 os s name True"

definition mxml_start_element_noindent :: "os_write \<Rightarrow> wstate \<Rightarrow> string \<Rightarrow> (bool \<times> wstate) res" where
  "mxml_start_element_noindent os s name = mxml_start_element1 os s name False"

text \<open>\<open>stack\<close> is read at the index \<^verbatim>\<open>level\<close> after the decrement.\<close>

definition mxml_end_element :: "os_write \<Rightarrow> mxml_writer \<Rightarrow> (bool \<times> mxml_writer) res" where
  "mxml_end_element os w =
     (if level w = 0 then Inr (False, w)
      else
        let lev = level w - 1; w1 = w\<lparr>level := lev\<rparr> in
        if length (stack w) \<le> lev then Inl Out_of_bounds
        else if element_is_open w1 then
          let line = ''/>'' @ [LF] in
          bind_res (mxml_write_line os
              (w1\<lparr>element_is_open := False, stack := take lev (stack w)\<rparr>) line)
            (\<lambda>(n, w2). Inr (n = int (length line), w2))
        else
          let line1 = (if \<not> data_was_written w1 then cat_indent lev [] else []);
              line2 = strlcat_str 1000 line1 ''</'';
              line3 = strlcat_str 1000 line2 (stack w ! lev);
              line = strlcat_str 1000 line3 (''>'' @ [LF]) in
          bind_res (mxml_write_line os
              (w1\<lparr>stack := take lev (stack w), data_was_written := False\<rparr>) line)
            (\<lambda>(n, w2). Inr (n = int (length line), w2)))"

text \<open>
  The name and the value are copied with \<^verbatim>\<open>strcpy\<close> into arrays of 4096 bytes, the
  attribute is printed into a line of 8192 bytes.
\<close>

definition mxml_write_attribute ::
  "os_write \<Rightarrow> wstate \<Rightarrow> string \<Rightarrow> string \<Rightarrow> (bool \<times> wstate) res" where
  "mxml_write_attribute os s name val =
     (let (st, w) = s in
      if \<not> element_is_open w then Inr (False, s)
      else if 4096 < length name + 1 then Inl Buffer_overflow
      else
        bind_res (mxml_encode st name 4096 (translate w)) (\<lambda>(name_enc, st1).
        if 4096 < length val + 1 then Inl Buffer_overflow
        else
          bind_res (mxml_encode st1 val 4096 (translate w)) (\<lambda>(val_enc, st2).
          let line = '' '' @ name_enc @ ''='' @ [DQUOTE] @ val_enc @ [DQUOTE] in
          if 8192 < length line + 1 then Inl Buffer_overflow
          else
            bind_res (mxml_write_line os w line) (\<lambda>(n, w1).
              Inr (n = int (length line), st2, w1)))))"

text \<open>
  \<^verbatim>\<open>data_size\<close> and \<^verbatim>\<open>_data_enc\<close> are static: the first call allocates 1000 bytes, a later
  one enlarges the buffer for its argument.
\<close>

definition grow_data_enc :: "mxml_static \<Rightarrow> string \<Rightarrow> mxml_static" where
  "grow_data_enc st data =
     (if data_size st = 0 then st\<lparr>data_cap := Some 1000, data_size := 1000\<rparr>
      else if data_size st < length data * 2 + 1000 then
        st\<lparr>data_size := 1000 + length data * 2, data_cap := Some (1000 + length data * 2)\<rparr>
      else st)"

definition mxml_write_value :: "os_write \<Rightarrow> wstate \<Rightarrow> string \<Rightarrow> (bool \<times> wstate) res" where
  "mxml_write_value os s data =
     (let (st, w) = s in
      if \<not> element_is_open w then Inr (False, s)
      else
        bind_res (mxml_write_line os w ''>'') (\<lambda>(n, w1).
        if n \<noteq> 1 then Inr (False, st, w1)
        else
          let w2 = w1\<lparr>element_is_open := False, data_was_written := True\<rparr>;
              st1 = grow_data_enc st data
          in case data_cap st1 of
               None \<Rightarrow> Inl Null_pointer
             | Some cap \<Rightarrow>
                 if cap < length data + 1 then Inl Buffer_overflow
                 else
                   bind_res (mxml_encode st1 data (data_size st1) (translate w2)) (\<lambda>(data_enc, st2).
                   bind_res (mxml_write_line os w2 data_enc) (\<lambda>(m, w3).
                     Inr (m = int (length data_enc), st2, w3)))))"

definition mxml_write_empty_line :: "os_write \<Rightarrow> mxml_writer \<Rightarrow> (bool \<times> mxml_writer) res" where
  "mxml_write_empty_line os w =
     bind_res (finish_open_tag os w) (\<lambda>w1.
     bind_res (mxml_write_line os w1 [LF]) (\<lambda>(n, w2). Inr (n = 1, w2)))"

definition mxml_write_comment :: "os_write \<Rightarrow> mxml_writer \<Rightarrow> string \<Rightarrow> (bool \<times> mxml_writer) res" where
  "mxml_write_comment os w str =
     bind_res (finish_open_tag os w) (\<lambda>w1.
     let line1 = cat_indent (level w1) [];
         line2 = strlcat_str 1000 line1 ''<!-- '';
         line3 = strlcat_str 1000 line2 str;
         line = strlcat_str 1000 line3 ('' -->'' @ [LF])
     in bind_res (mxml_write_line os w1 line) (\<lambda>(n, w2). Inr (n = int (length line), w2)))"

definition mxml_write_element :: "os_write \<Rightarrow> wstate \<Rightarrow> string \<Rightarrow> string \<Rightarrow> (nat \<times> wstate) res" where
  "mxml_write_element os s name val =
     bind_res (mxml_start_element os s name) (\<lambda>(a, s1).
     bind_res (mxml_write_value os s1 val) (\<lambda>(b, s2).
     bind_res (mxml_end_element os (snd s2)) (\<lambda>(c, w3).
     Inr (of_bool a + of_bool b + of_bool c, fst s2, w3))))"

lemma write_line_level:
  "mxml_write_line os w line = Inr (n, w') \<Longrightarrow>
   level w' = level w \<and> stack w' = stack w \<and> element_is_open w' = element_is_open w \<and>
   data_was_written w' = data_was_written w \<and> translate w' = translate w"
  by (auto simp: mxml_write_line_def Let_def split: option.splits if_splits)

lemma end_element_level: "mxml_end_element os w = Inr (r, w') \<Longrightarrow> level w' = level w - 1"
  by (auto simp: mxml_end_element_def Let_def res_simps split: if_splits dest!: write_line_level)

text \<open>\<^verbatim>\<open>for (i = 0 ; i<writer->level ; i++) mxml_end_element (writer);\<close>\<close>

function close_levels :: "os_write \<Rightarrow> nat \<Rightarrow> mxml_writer \<Rightarrow> mxml_writer res" where
  "close_levels os i w =
     (if i < level w then
        (case mxml_end_element os w of
           Inl e \<Rightarrow> Inl e
         | Inr (_, w1) \<Rightarrow> close_levels os (i + 1) w1)
      else Inr w)"
  by pat_completeness auto
termination
  by (relation "measure (\<lambda>(os, i, w). level w - i)") (auto dest!: end_element_level)

declare close_levels.simps [simp del]

text \<open>The text of the buffer is returned, or NULL; the writer itself is freed.\<close>

definition mxml_close_buffer :: "os_write \<Rightarrow> mxml_writer \<Rightarrow> (string option \<times> mxml_writer) res" where
  "mxml_close_buffer os w =
     bind_res (if element_is_open w
               then bind_res (mxml_write_line os (w\<lparr>element_is_open := False\<rparr>) (''>'' @ [LF]))
                      (\<lambda>(n, w1). Inr (n = 2, w1))
               else Inr (True, w)) (\<lambda>(ok, w1).
     if \<not> ok then Inr (None, w1)
     else bind_res (close_levels os 0 w1) (\<lambda>w2. Inr (buffer w2, w2)))"

definition mxml_close_file :: "os_write \<Rightarrow> mxml_writer \<Rightarrow> (bool \<times> mxml_writer) res" where
  "mxml_close_file os w =
     bind_res (if element_is_open w
               then bind_res (mxml_write_line os (w\<lparr>element_is_open := False\<rparr>) (''>'' @ [LF]))
                      (\<lambda>(n, w1). Inr (n = 2, w1))
               else Inr (True, w)) (\<lambda>(ok, w1).
     if \<not> ok then Inr (False, w1)
     else bind_res (close_levels os 0 w1) (\<lambda>w2. Inr (True, w2)))"

end
