(* ===== verification/Mxml_Printer.thy ===== *)
theory Mxml_Printer
  imports Mxml_Writer
begin

text \<open>
  Correctness of the XML writer, in memory mode and in file mode when the operating
  system takes every line (\<open>writes_all\<close>).  \<open>xml_out\<close> is an abstract printer: a
  text and a stack of open tags, without buffers or limits.  Every writer call whose
  strings fit the fixed buffers of the source refines the abstract operation of the same
  name (\<open>view (f w) = out_f (view w)\<close>).  The writer as a whole is an instance of
  \<open>safe_stepping\<close>: no sequence of calls within the documented sizes overruns a buffer.
\<close>

section \<open>The abstract printer\<close>

record xml_out =
  otext :: string
  tags :: "string list"
  pending :: bool
  inline :: bool

definition indent_of :: "nat \<Rightarrow> string" where
  "indent_of n = replicate (2 * n) (CHR '' '')"

definition close_pending :: "xml_out \<Rightarrow> string" where
  "close_pending x = (if pending x then ''>'' @ [LF] else [])"

definition out_start :: "bool \<Rightarrow> string \<Rightarrow> bool \<Rightarrow> xml_out \<Rightarrow> xml_out" where
  "out_start tr name ind x =
     x\<lparr>otext := otext x @ close_pending x @ (if ind then indent_of (length (tags x)) else []) @
         ''<'' @ encode_full tr name,
       tags := tags x @ [encode_full tr name], pending := True, inline := False\<rparr>"

definition out_attribute :: "bool \<Rightarrow> string \<Rightarrow> string \<Rightarrow> xml_out \<Rightarrow> xml_out" where
  "out_attribute tr name val x =
     x\<lparr>otext := otext x @ '' '' @ encode_full tr name @ ''='' @ [DQUOTE] @ encode_full tr val @ [DQUOTE]\<rparr>"

definition out_value :: "bool \<Rightarrow> string \<Rightarrow> xml_out \<Rightarrow> xml_out" where
  "out_value tr data x =
     x\<lparr>otext := otext x @ ''>'' @ encode_full tr data, pending := False, inline := True\<rparr>"

definition out_end :: "xml_out \<Rightarrow> xml_out" where
  "out_end x =
     (if tags x = [] then x
      else if pending x then
        x\<lparr>otext := otext x @ ''/>'' @ [LF], tags := butlast (tags x), pending := False\<rparr>
      else
        x\<lparr>otext := otext x @ (if inline x then [] else indent_of (length (tags x) - 1)) @
             ''</'' @ last (tags x) @ ''>'' @ [LF],
          tags := butlast (tags x), inline := False\<rparr>)"

definition out_comment :: "string \<Rightarrow> xml_out \<Rightarrow> xml_out" where
  "out_comment str x =
     x\<lparr>otext := otext x @ close_pending x @ indent_of (length (tags x)) @ ''<!-- '' @ str @ '' -->'' @ [LF],
       pending := False\<rparr>"

text \<open>The text written so far, to memory or to the file.\<close>

definition written :: "mxml_writer \<Rightarrow> string" where
  "written w = (case buffer w of Some b \<Rightarrow> b | None \<Rightarrow> file_text w)"

lemma written_updates [simp]:
  "written (w\<lparr>element_is_open := a\<rparr>) = written w" "written (w\<lparr>data_was_written := a\<rparr>) = written w"
  "written (w\<lparr>stack := ns\<rparr>) = written w" "written (w\<lparr>level := n\<rparr>) = written w"
  "written (w\<lparr>translate := a\<rparr>) = written w"
  by (simp_all add: written_def split: option.splits)

definition view :: "mxml_writer \<Rightarrow> xml_out" where
  "view w = \<lparr>otext = written w, tags = stack w, pending = element_is_open w,
     inline = data_was_written w\<rparr>"

section \<open>Invariant\<close>

definition writes_all :: "os_write \<Rightarrow> bool" where
  "writes_all os \<longleftrightarrow> (\<forall>t line. os t line = int (length line))"

definition writer_ok :: "os_write \<Rightarrow> mxml_writer \<Rightarrow> bool" where
  "writer_ok os w \<longleftrightarrow> length (stack w) = level w \<and>
     (case buffer w of None \<Rightarrow> writes_all os | Some b \<Rightarrow> length b < buffer_size w)"

definition data_ok :: "mxml_static \<Rightarrow> bool" where
  "data_ok st \<longleftrightarrow> data_cap st = (if data_size st = 0 then None else Some (data_size st)) \<and>
     (data_size st = 0 \<or> 1000 \<le> data_size st)"

definition good :: "os_write \<Rightarrow> wstate \<Rightarrow> bool" where
  "good os s \<longleftrightarrow> encode_ok (fst s) \<and> data_ok (fst s) \<and> writer_ok os (snd s)"

lemma goodI: "encode_ok st \<Longrightarrow> data_ok st \<Longrightarrow> writer_ok os w \<Longrightarrow> good os (st, w)"
  by (simp add: good_def)

lemma goodD: "good os (st, w) \<Longrightarrow> encode_ok st \<and> data_ok st \<and> writer_ok os w"
  by (simp add: good_def)

lemma data_ok_init [inv_intros]: "data_ok mxml_static_init"
  by (simp add: data_ok_def mxml_static_init_def)

lemma data_size_init [simp]: "data_size mxml_static_init = 0"
  by (simp add: mxml_static_init_def)

lemma data_ok_same:
  "data_ok st \<Longrightarrow> data_cap st' = data_cap st \<Longrightarrow> data_size st' = data_size st \<Longrightarrow> data_ok st'"
  by (simp add: data_ok_def)

text \<open>A line of at most 10000 bytes is appended to the buffer, which stays large enough.\<close>

lemma write_line_mem:
  assumes "writer_ok os w" and "length line \<le> 10000"
  obtains w' where "mxml_write_line os w line = Inr (int (length line), w')"
    and "writer_ok os w'" and "level w' = level w" and "translate w' = translate w"
    and "view w' = (view w)\<lparr>otext := otext (view w) @ line\<rparr>"
proof (cases "buffer w")
  case None
  define w' where "w' = w\<lparr>file_text := file_text w @ line\<rparr>"
  have "mxml_write_line os w line = Inr (int (length line), w')"
    using None assms(1) by (simp add: mxml_write_line_def Let_def w'_def writer_ok_def writes_all_def)
  moreover have "writer_ok os w'" "view w' = (view w)\<lparr>otext := otext (view w) @ line\<rparr>"
    using None assms(1) by (simp_all add: writer_ok_def view_def written_def w'_def)
  ultimately show ?thesis by (intro that [of w']) (simp_all add: w'_def)
next
  case (Some b)
  with assms(1) have b: "length b < buffer_size w" by (simp add: writer_ok_def)
  define bs where "bs = (if buffer_size w \<le> length b + length line then buffer_size w + 10000
                    else buffer_size w)"
  have bs: "length b + length line < bs" using b assms(2) by (auto simp: bs_def)
  define w' where "w' = w\<lparr>buffer := Some (b @ line), buffer_size := bs\<rparr>"
  have "mxml_write_line os w line = Inr (int (length line), w')"
    using Some bs by (simp add: mxml_write_line_def Let_def bs_def [symmetric] w'_def)
  moreover have "writer_ok os w'" "view w' = (view w)\<lparr>otext := otext (view w) @ line\<rparr>"
    using Some assms(1) bs by (simp_all add: writer_ok_def view_def written_def w'_def)
  ultimately show ?thesis by (intro that [of w']) (simp_all add: w'_def)
qed

lemma view_updates:
  "view (w\<lparr>element_is_open := a\<rparr>) = (view w)\<lparr>pending := a\<rparr>"
  "view (w\<lparr>data_was_written := a\<rparr>) = (view w)\<lparr>inline := a\<rparr>"
  "view (w\<lparr>stack := ns\<rparr>) = (view w)\<lparr>tags := ns\<rparr>"
  "view (w\<lparr>level := n\<rparr>) = view w"
  "view (w\<lparr>translate := a\<rparr>) = view w"
  by (simp_all add: view_def)

lemma view_sel [simp]:
  "tags (view w) = stack w" "pending (view w) = element_is_open w" "inline (view w) = data_was_written w"
  by (simp_all add: view_def written_def)

lemma writer_ok_updates [simp]:
  "writer_ok os (w\<lparr>element_is_open := a\<rparr>) = writer_ok os w"
  "writer_ok os (w\<lparr>data_was_written := a\<rparr>) = writer_ok os w"
  "writer_ok os (w\<lparr>translate := a\<rparr>) = writer_ok os w"
  by (simp_all add: writer_ok_def split: option.splits)

lemma writer_ok_stack:
  "writer_ok os w \<Longrightarrow> length ns = n \<Longrightarrow> writer_ok os (w\<lparr>stack := ns, level := n\<rparr>)"
  by (simp add: writer_ok_def split: option.splits)

lemma writer_okD: "writer_ok os w \<Longrightarrow> length (stack w) = level w"
  by (simp add: writer_ok_def)

lemma finish_open_tag_mem:
  assumes "writer_ok os w"
  obtains w' where "finish_open_tag os w = Inr w'" and "writer_ok os w'" and "level w' = level w"
    and "translate w' = translate w" and "element_is_open w' = False"
    and "view w' = (view w)\<lparr>otext := otext (view w) @ close_pending (view w), pending := False\<rparr>"
proof (cases "element_is_open w")
  case True
  obtain w1 where "mxml_write_line os w (''>'' @ [LF]) = Inr (int (length (''>'' @ [LF])), w1)"
    "writer_ok os w1" "level w1 = level w" "translate w1 = translate w"
    "view w1 = (view w)\<lparr>otext := otext (view w) @ ''>'' @ [LF]\<rparr>"
    by (rule write_line_mem [OF assms, of "''>'' @ [LF]"]) auto
  with True show ?thesis
    by (intro that [of "w1\<lparr>element_is_open := False\<rparr>"])
      (simp_all add: finish_open_tag_def view_updates close_pending_def)
next
  case False
  then show ?thesis
    using assms by (intro that [of w]) (simp_all add: finish_open_tag_def close_pending_def view_def)
qed

lemma cat_indent_length: "length line < 1000 \<Longrightarrow> length (cat_indent n line) < 1000"
  by (induction n arbitrary: line) (simp_all del: One_nat_def)

lemma cat_indent_exact:
  "2 * n + length line < 1000 \<Longrightarrow> cat_indent n line = line @ indent_of n"
proof (induction n arbitrary: line)
  case 0
  show ?case by (simp add: indent_of_def)
next
  case (Suc n)
  have "strlcat_str 1000 line ''  '' = line @ ''  ''"
    using Suc.prems by (intro strlcat_str_id) simp
  with Suc show ?case by (simp add: indent_of_def)
qed

section \<open>The calls\<close>

text \<open>When the strings of a call fit the fixed buffers completely.\<close>

definition name_fits :: "mxml_writer \<Rightarrow> string \<Rightarrow> bool" where
  "name_fits w name \<longleftrightarrow> 2 * level w + length (encode_full (translate w) name) + 10 < 1000"

definition attr_fits :: "mxml_writer \<Rightarrow> string \<Rightarrow> bool" where
  "attr_fits w str \<longleftrightarrow> length (encode_full (translate w) str) + 10 < 4096"

definition data_fits :: "mxml_static \<Rightarrow> mxml_writer \<Rightarrow> string \<Rightarrow> bool" where
  "data_fits st w data \<longleftrightarrow>
     length (encode_full (translate w) data) + 10 < min 10000 (data_size (grow_data_enc st data))"

lemma line_short: "length (strlcat_str 1000 a t) \<le> 10000"
  by (simp add: strlcat_str_def)

lemma start_element_mem:
  assumes "good os (st, w)"
  obtains st' w' where "mxml_start_element1 os (st, w) name ind = Inr (True, st', w')"
    and "good os (st', w')" and "data_size st' = data_size st"
    and "translate w' = translate w" and "level w' = level w + 1"
    and "name_fits w name \<longrightarrow> view w' = out_start (translate w) name ind (view w)"
proof -
  from goodD [OF assms] have st: "encode_ok st" "data_ok st" and w: "writer_ok os w" by simp_all
  obtain w1 where w1: "finish_open_tag os w = Inr w1" "writer_ok os w1" "level w1 = level w"
    "translate w1 = translate w"
    "view w1 = (view w)\<lparr>otext := otext (view w) @ close_pending (view w), pending := False\<rparr>"
    by (rule finish_open_tag_mem [OF w])
  obtain k st1 where enc: "mxml_encode st (strlcpy_str 1000 name) 1000 (translate w)
      = Inr (encode_full (translate w) (take k (strlcpy_str 1000 name)), st1)"
    and reach: "encode_reach (translate w) 1000 (strlcpy_str 1000 name) k"
    and st1: "encode_ok st1" "data_cap st1 = data_cap st" "data_size st1 = data_size st"
    by (rule mxml_encode_result [OF st(1), of 1000 "strlcpy_str 1000 name" "translate w"]) auto
  define ne where "ne = encode_full (translate w) (take k (strlcpy_str 1000 name))"
  define line where "line = strlcat_str 1000
      (strlcat_str 1000 (if ind then cat_indent (level w) [] else []) ''<'') ne"
  define w2 where "w2 = w1\<lparr>stack := take (level w) (stack w1) @ [ne], level := level w + 1,
      element_is_open := True, data_was_written := False\<rparr>"
  have w2: "writer_ok os w2" "level w2 = level w + 1" "translate w2 = translate w"
    using w1 writer_okD [OF w1(2)]
    by (simp_all add: w2_def writer_ok_stack)
  have "length line \<le> 10000" unfolding line_def by (rule line_short)
  then obtain w3 where w3: "mxml_write_line os w2 line = Inr (int (length line), w3)"
    "writer_ok os w3" "level w3 = level w2" "translate w3 = translate w2"
    "view w3 = (view w2)\<lparr>otext := otext (view w2) @ line\<rparr>"
    by (rule write_line_mem [OF w2(1), of line])
  have res: "mxml_start_element1 os (st, w) name ind = Inr (True, st1, w3)"
    using w1 enc w3(1)
    by (cases ind) (simp_all add: mxml_start_element1_def Let_def ne_def line_def w2_def)
  have fit: "view w3 = out_start (translate w) name ind (view w)" if fits: "name_fits w name"
  proof -
    have len: "length name < 1000" "2 * level w < 1000"
      using fits length_encode_full [of name "translate w"] by (simp_all add: name_fits_def)
    then have nm: "strlcpy_str 1000 name = name" by (simp add: strlcpy_str_id)
    have "take k name = name"
      by (rule encode_reach_all [OF reach [unfolded nm]]) (use fits in \<open>simp add: name_fits_def\<close>)
    then have ne: "ne = encode_full (translate w) name" by (simp add: ne_def nm)
    have ind: "(if ind then cat_indent (level w) [] else []) = (if ind then indent_of (level w) else [])"
      using len(2) by (simp add: cat_indent_exact)
    have l1: "strlcat_str 1000 (if ind then indent_of (level w) else []) ''<''
        = (if ind then indent_of (level w) else []) @ ''<''"
      using fits by (intro strlcat_str_id) (simp add: indent_of_def name_fits_def)
    have "line = (if ind then indent_of (level w) else []) @ ''<'' @ ne"
      unfolding line_def ind l1 ne
      using fits by (subst strlcat_str_id) (simp_all add: indent_of_def name_fits_def)
    moreover have "stack w1 = stack w" using arg_cong [OF w1(5), of tags] by simp
    ultimately show ?thesis
      using w3(5) w1(5) ne writer_okD [OF w] by (simp add: out_start_def w2_def view_updates)
  qed
  show ?thesis
    using res w3 w2 st1 st fit by (intro that [of st1 w3]) (auto intro: goodI data_ok_same)
qed

lemma encode_attr:
  assumes "encode_ok st" "data_ok st"
  obtains k st' where "mxml_encode st str 4096 tr = Inr (encode_full tr (take k str), st')"
    and "encode_ok st'" and "data_ok st'" and "data_size st' = data_size st"
    and "length (encode_full tr (take k str)) \<le> 4091"
    and "length (encode_full tr str) + 10 < 4096 \<longrightarrow> take k str = str"
proof -
  obtain k st' where "mxml_encode st str 4096 tr = Inr (encode_full tr (take k str), st')"
    and reach: "encode_reach tr 4096 str k" and st': "encode_ok st'" "data_cap st' = data_cap st"
      "data_size st' = data_size st"
    by (rule mxml_encode_result [OF assms(1), of 4096 str tr]) auto
  moreover have "data_ok st'" using assms(2) st' by (auto intro: data_ok_same)
  moreover have "length (encode_full tr (take k str)) \<le> 4091"
    using reach by (simp add: encode_reach_def)
  moreover have "length (encode_full tr str) + 10 < 4096 \<longrightarrow> take k str = str"
    using encode_reach_all [OF reach] by blast
  ultimately show ?thesis by (intro that [of k st'])
qed

text \<open>
  The line of 8192 bytes always holds the attribute, because escaping leaves five bytes of
  each 4096-byte array unused.
\<close>

lemma write_attribute_mem:
  assumes "good os (st, w)" and "length name < 4096" and "length val < 4096"
  obtains st' w' where "mxml_write_attribute os (st, w) name val = Inr (element_is_open w, st', w')"
    and "good os (st', w')" and "data_size st' = data_size st"
    and "translate w' = translate w" and "level w' = level w"
    and "element_is_open w \<and> attr_fits w name \<and> attr_fits w val \<longrightarrow>
      view w' = out_attribute (translate w) name val (view w)"
proof (cases "element_is_open w")
  case False
  with assms show ?thesis by (intro that [of st w]) (simp_all add: mxml_write_attribute_def)
next
  case True
  from goodD [OF assms(1)] have st: "encode_ok st" "data_ok st" and w: "writer_ok os w" by simp_all
  obtain k st1 where e1: "mxml_encode st name 4096 (translate w) = Inr (encode_full (translate w) (take k name), st1)"
    and st1: "encode_ok st1" "data_ok st1" "data_size st1 = data_size st"
    and l1: "length (encode_full (translate w) (take k name)) \<le> 4091"
    and f1: "length (encode_full (translate w) name) + 10 < 4096 \<longrightarrow> take k name = name"
    by (rule encode_attr [OF st, of name "translate w"])
  obtain m st2 where e2: "mxml_encode st1 val 4096 (translate w) = Inr (encode_full (translate w) (take m val), st2)"
    and st2: "encode_ok st2" "data_ok st2" "data_size st2 = data_size st1"
    and l2: "length (encode_full (translate w) (take m val)) \<le> 4091"
    and f2: "length (encode_full (translate w) val) + 10 < 4096 \<longrightarrow> take m val = val"
    by (rule encode_attr [OF st1(1,2), of val "translate w"])
  define line where "line = '' '' @ encode_full (translate w) (take k name) @ ''='' @ [DQUOTE] @
      encode_full (translate w) (take m val) @ [DQUOTE]"
  have len: "length line < 8192" using l1 l2 by (simp add: line_def)
  then obtain w1 where w1: "mxml_write_line os w line = Inr (int (length line), w1)" "writer_ok os w1"
    "level w1 = level w" "translate w1 = translate w"
    "view w1 = (view w)\<lparr>otext := otext (view w) @ line\<rparr>"
    using write_line_mem [OF w, of line] by auto
  have "mxml_write_attribute os (st, w) name val = Inr (True, st2, w1)"
    using True assms(2,3) e1 e2 w1(1) l1 l2
    by (simp add: mxml_write_attribute_def Let_def line_def [simplified, symmetric])
  moreover have "view w1 = out_attribute (translate w) name val (view w)"
    if "attr_fits w name" "attr_fits w val"
    using w1(5) f1 f2 that by (simp add: line_def out_attribute_def attr_fits_def)
  ultimately show ?thesis
    using True w1 st1 st2 by (intro that [of st2 w1]) (simp_all add: goodI)
qed

text \<open>
  The value buffer: large enough for the copy unless the very first value has 1000 or more
  characters.
\<close>

definition data_room :: "mxml_static \<Rightarrow> string \<Rightarrow> bool" where
  "data_room st data \<longleftrightarrow> length data < data_size (grow_data_enc st data)"

lemma data_room_later: "1000 \<le> data_size st \<Longrightarrow> data_room st data"
  by (simp add: data_room_def grow_data_enc_def)

lemma data_room_short: "data_ok st \<Longrightarrow> length data < 1000 \<Longrightarrow> data_room st data"
  by (auto simp: data_room_def grow_data_enc_def data_ok_def)

lemma grow_data_enc_ok:
  "data_ok st \<Longrightarrow> data_ok (grow_data_enc st data) \<and> 1000 \<le> data_size (grow_data_enc st data) \<and>
   data_cap (grow_data_enc st data) = Some (data_size (grow_data_enc st data))"
  by (auto simp: grow_data_enc_def data_ok_def)

lemma grow_data_enc_encode [simp]: "encode_ok (grow_data_enc st data) = encode_ok st"
  by (auto simp: grow_data_enc_def encode_ok_def split: option.splits)

lemma write_value_mem:
  assumes "good os (st, w)" and "element_is_open w" and "data_room st data"
    and "data_size (grow_data_enc st data) \<le> 10000"
  obtains st' w' where "mxml_write_value os (st, w) data = Inr (True, st', w')"
    and "good os (st', w')" and "data_size st' = data_size (grow_data_enc st data)"
    and "translate w' = translate w" and "level w' = level w"
    and "data_fits st w data \<longrightarrow> view w' = out_value (translate w) data (view w)"
proof -
  from goodD [OF assms(1)] have st: "encode_ok st" "data_ok st" and w: "writer_ok os w" by simp_all
  define st1 where "st1 = grow_data_enc st data"
  have st1: "encode_ok st1" "data_ok st1" "data_cap st1 = Some (data_size st1)" "1000 \<le> data_size st1"
    using st grow_data_enc_ok [of st data] by (simp_all add: st1_def)
  obtain w1 where w1: "mxml_write_line os w ''>'' = Inr (1, w1)" "writer_ok os w1" "level w1 = level w"
    "translate w1 = translate w" "view w1 = (view w)\<lparr>otext := otext (view w) @ ''>''\<rparr>"
    by (rule write_line_mem [OF w, of "''>''"]) auto
  define w2 where "w2 = w1\<lparr>element_is_open := False, data_was_written := True\<rparr>"
  have w2: "writer_ok os w2" using w1(2) by (simp add: w2_def)
  obtain k st2 where enc: "mxml_encode st1 data (data_size st1) (translate w)
      = Inr (encode_full (translate w) (take k data), st2)"
    and reach: "encode_reach (translate w) (data_size st1) data k"
    and st2: "encode_ok st2" "data_cap st2 = data_cap st1" "data_size st2 = data_size st1"
    by (rule mxml_encode_result [OF st1(1), of "data_size st1" data "translate w"])
      (use st1(4) assms(4) in \<open>auto simp: st1_def\<close>)
  let ?e = "encode_full (translate w) (take k data)"
  have "length ?e \<le> 10000"
    using reach assms(4) by (simp add: encode_reach_def st1_def)
  then obtain w3 where w3: "mxml_write_line os w2 ?e = Inr (int (length ?e), w3)" "writer_ok os w3"
    "level w3 = level w2" "translate w3 = translate w2"
    "view w3 = (view w2)\<lparr>otext := otext (view w2) @ ?e\<rparr>"
    by (rule write_line_mem [OF w2])
  have good: "good os (st2, w3)"
    using goodI [OF st2(1) data_ok_same [OF st1(2) st2(2,3)] w3(2)] .
  have "length data < data_size st1" using assms(3) by (simp add: data_room_def st1_def)
  then have "mxml_write_value os (st, w) data = Inr (True, st2, w3)"
    using assms(2) w1 st1(3) enc w3(1)
    by (simp add: mxml_write_value_def Let_def st1_def [symmetric] w2_def)
  moreover have "view w3 = out_value (translate w) data (view w)" if fits: "data_fits st w data"
  proof -
    have "take k data = data"
      by (rule encode_reach_all [OF reach]) (use fits in \<open>simp add: data_fits_def st1_def\<close>)
    with w1(5) w3(5) show ?thesis by (simp add: out_value_def w2_def view_updates)
  qed
  ultimately show ?thesis
    using st2 w1 w3 good by (intro that [of st2 w3]) (simp_all add: w2_def st1_def)
qed

lemma end_element_mem:
  assumes "writer_ok os w"
  obtains w' where "mxml_end_element os w = Inr (level w \<noteq> 0, w')" and "writer_ok os w'"
    and "translate w' = translate w" and "level w' = level w - 1"
    and "element_is_open w' = (element_is_open w \<and> level w = 0)"
    and "level w = 0 \<or> element_is_open w \<or> 2 * level w + length (last (stack w)) + 4 < 1000 \<longrightarrow>
      view w' = out_end (view w)"
proof (cases "level w = 0")
  case True
  with assms show ?thesis
    by (intro that [of w]) (auto simp: mxml_end_element_def out_end_def writer_ok_def)
next
  case False
  define lev where "lev = level w - 1"
  have levw: "level w = Suc lev" using False by (simp add: lev_def)
  have stk: "length (stack w) = Suc lev" using False writer_okD [OF assms] by (simp add: lev_def)
  then obtain xs x where xs: "stack w = xs @ [x]" "length xs = lev"
    by (cases "stack w" rule: rev_exhaust) auto
  then have lst: "stack w ! lev = last (stack w)" "take lev (stack w) = butlast (stack w)"
    "stack w \<noteq> []"
    by (auto simp: nth_append)
  define line where "line = (if element_is_open w then ''/>'' @ [LF]
      else strlcat_str 1000 (strlcat_str 1000 (strlcat_str 1000
        (if \<not> data_was_written w then cat_indent lev [] else []) ''</'') (last (stack w))) (''>'' @ [LF]))"
  define w1 where "w1 = (if element_is_open w
      then w\<lparr>level := lev, element_is_open := False, stack := butlast (stack w)\<rparr>
      else w\<lparr>level := lev, stack := butlast (stack w), data_was_written := False\<rparr>)"
  have w1: "writer_ok os w1" "level w1 = lev" "translate w1 = translate w" "element_is_open w1 = False"
    using assms stk by (auto simp: w1_def writer_ok_def split: option.splits)
  have "length line \<le> 10000" by (simp add: line_def line_short)
  then obtain w2 where w2: "mxml_write_line os w1 line = Inr (int (length line), w2)" "writer_ok os w2"
    "level w2 = level w1" "translate w2 = translate w1"
    "view w2 = (view w1)\<lparr>otext := otext (view w1) @ line\<rparr>"
    by (rule write_line_mem [OF w1(1)])
  have res: "mxml_end_element os w = Inr (True, w2)"
    using levw stk w2(1) lst
    by (cases "element_is_open w"; cases "data_was_written w")
      (simp_all add: mxml_end_element_def Let_def line_def w1_def)
  have open2: "element_is_open w2 = False"
    using write_line_level [OF w2(1)] w1(4) by simp
  have "view w2 = out_end (view w)"
    if fits: "element_is_open w \<or> 2 * level w + length (last (stack w)) + 4 < 1000"
  proof (cases "element_is_open w")
    case True
    then show ?thesis
      using w2(5) lst by (simp add: out_end_def w1_def line_def view_def)
  next
    case nopen: False
    let ?ind = "if data_was_written w then [] else indent_of lev"
    have "cat_indent lev [] = indent_of lev"
      using nopen fits False by (simp add: cat_indent_exact lev_def)
    then have "line = strlcat_str 1000 (strlcat_str 1000 (strlcat_str 1000 ?ind ''</'') (last (stack w))) (''>'' @ [LF])"
      using nopen by (simp add: line_def)
    also have "\<dots> = ?ind @ ''</'' @ last (stack w) @ ''>'' @ [LF]"
      using nopen fits levw by (simp add: strlcat_str_def indent_of_def)
    finally show ?thesis
      using w2(5) lst stk nopen by (simp add: out_end_def w1_def view_def)
  qed
  then show ?thesis
    using res False w1 w2 open2 by (intro that [of w2]) (auto simp: lev_def)
qed

lemma write_comment_mem:
  assumes "writer_ok os w"
  obtains w' where "mxml_write_comment os w str = Inr (True, w')" and "writer_ok os w'"
    and "translate w' = translate w" and "level w' = level w"
    and "2 * level w + length str + 10 < 1000 \<longrightarrow> view w' = out_comment str (view w)"
proof -
  obtain w1 where w1: "finish_open_tag os w = Inr w1" "writer_ok os w1" "level w1 = level w"
    "translate w1 = translate w" "element_is_open w1 = False"
    "view w1 = (view w)\<lparr>otext := otext (view w) @ close_pending (view w), pending := False\<rparr>"
    by (rule finish_open_tag_mem [OF assms])
  define line where "line = strlcat_str 1000 (strlcat_str 1000 (strlcat_str 1000
      (cat_indent (level w) []) ''<!-- '') str) ('' -->'' @ [LF])"
  have "length line \<le> 10000" unfolding line_def by (rule line_short)
  then obtain w2 where w2: "mxml_write_line os w1 line = Inr (int (length line), w2)" "writer_ok os w2"
    "level w2 = level w1" "translate w2 = translate w1"
    "view w2 = (view w1)\<lparr>otext := otext (view w1) @ line\<rparr>"
    by (rule write_line_mem [OF w1(2)])
  have "mxml_write_comment os w str = Inr (True, w2)"
    using w1 w2(1) by (simp add: mxml_write_comment_def Let_def line_def)
  moreover have "view w2 = out_comment str (view w)" if fits: "2 * level w + length str + 10 < 1000"
  proof -
    have "line = indent_of (level w) @ ''<!-- '' @ str @ '' -->'' @ [LF]"
      using fits by (simp add: line_def cat_indent_exact strlcat_str_def indent_of_def)
    with w1(6) w2(5) writer_okD [OF assms] show ?thesis by (simp add: out_comment_def)
  qed
  ultimately show ?thesis using w1 w2 by (intro that [of w2]) simp_all
qed

lemma write_empty_line_mem:
  assumes "writer_ok os w"
  obtains w' where "mxml_write_empty_line os w = Inr (True, w')" and "writer_ok os w'"
proof -
  obtain w1 where w1: "finish_open_tag os w = Inr w1" "writer_ok os w1"
    by (rule finish_open_tag_mem [OF assms])
  obtain w2 where w2: "mxml_write_line os w1 [LF] = Inr (1, w2)" "writer_ok os w2"
    by (rule write_line_mem [OF w1(2), of "[LF]"]) auto
  from w1 w2 show ?thesis by (intro that [of w2]) (simp_all add: mxml_write_empty_line_def)
qed

section \<open>Sequences of calls\<close>

datatype wcall =
    Start string
  | Start_noindent string
  | Attribute string string
  | Value string
  | End
  | Empty_line
  | Comment string
  | Translate bool

definition wstep :: "os_write \<Rightarrow> wstate \<Rightarrow> wcall \<Rightarrow> wstate res" where
  "wstep os s c =
     (case c of
        Start name \<Rightarrow> bind_res (mxml_start_element os s name) (\<lambda>(_, s'). Inr s')
      | Start_noindent name \<Rightarrow> bind_res (mxml_start_element_noindent os s name) (\<lambda>(_, s'). Inr s')
      | Attribute name val \<Rightarrow> bind_res (mxml_write_attribute os s name val) (\<lambda>(_, s'). Inr s')
      | Value data \<Rightarrow> bind_res (mxml_write_value os s data) (\<lambda>(_, s'). Inr s')
      | End \<Rightarrow> bind_res (mxml_end_element os (snd s)) (\<lambda>(_, w'). Inr (fst s, w'))
      | Empty_line \<Rightarrow> bind_res (mxml_write_empty_line os (snd s)) (\<lambda>(_, w'). Inr (fst s, w'))
      | Comment str \<Rightarrow> bind_res (mxml_write_comment os (snd s) str) (\<lambda>(_, w'). Inr (fst s, w'))
      | Translate flag \<Rightarrow> Inr (fst s, snd (mxml_set_translate (snd s) flag)))"

text \<open>The documented sizes: only attributes and values are limited.\<close>

definition wlegal :: "wcall \<Rightarrow> bool" where
  "wlegal c =
     (case c of
        Attribute name val \<Rightarrow> length name < 4096 \<and> length val < 4096
      | Value data \<Rightarrow> length data < 1000
      | _ \<Rightarrow> True)"

definition winv :: "os_write \<Rightarrow> wstate \<Rightarrow> bool" where
  "winv os s \<longleftrightarrow> good os s \<and> data_size (fst s) \<le> 2998"

lemma wstep_safe:
  assumes "winv os s" and "wlegal c"
  shows "\<exists>s'. wstep os s c = Inr s' \<and> winv os s'"
proof -
  obtain st w where s: "s = (st, w)" by (cases s)
  from assms(1) s have g: "good os (st, w)" and d: "data_size st \<le> 2998" by (simp_all add: winv_def)
  note ok = goodD [OF g]
  show ?thesis
  proof (cases c)
    case (Start name)
    with s d show ?thesis
      by (auto intro: start_element_mem [OF g, of name True]
          simp: wstep_def mxml_start_element_def winv_def)
  next
    case (Start_noindent name)
    with s d show ?thesis
      by (auto intro: start_element_mem [OF g, of name False]
          simp: wstep_def mxml_start_element_noindent_def winv_def)
  next
    case (Attribute name val)
    with s d assms(2) show ?thesis
      by (auto intro: write_attribute_mem [OF g, of name val] simp: wstep_def wlegal_def winv_def)
  next
    case (Value data)
    with assms(2) have len: "length data < 1000" by (simp add: wlegal_def)
    have grow: "data_size (grow_data_enc st data) \<le> 2998"
      using d len by (simp add: grow_data_enc_def)
    show ?thesis
    proof (cases "element_is_open w")
      case True
      obtain st' w' where "mxml_write_value os (st, w) data = Inr (True, st', w')"
        "good os (st', w')" "data_size st' = data_size (grow_data_enc st data)"
        by (rule write_value_mem [OF g True, of data])
          (use data_room_short [of st data] ok len grow in auto)
      with s Value grow show ?thesis by (simp add: wstep_def winv_def)
    next
      case False
      with s Value assms(1) show ?thesis by (simp add: wstep_def mxml_write_value_def)
    qed
  next
    case End
    obtain w' where "mxml_end_element os w = Inr (level w \<noteq> 0, w')" "writer_ok os w'"
      by (rule end_element_mem [of os w]) (use ok in auto)
    with s End ok d show ?thesis by (simp add: wstep_def winv_def good_def)
  next
    case Empty_line
    obtain w' where "mxml_write_empty_line os w = Inr (True, w')" "writer_ok os w'"
      by (rule write_empty_line_mem [of os w]) (use ok in auto)
    with s Empty_line ok d show ?thesis by (simp add: wstep_def winv_def good_def)
  next
    case (Comment str)
    obtain w' where "mxml_write_comment os w str = Inr (True, w')" "writer_ok os w'"
      by (rule write_comment_mem [of os w str]) (use ok in auto)
    with s Comment ok d show ?thesis by (simp add: wstep_def winv_def good_def)
  next
    case (Translate flag)
    with s ok d show ?thesis
      by (simp add: wstep_def winv_def good_def mxml_set_translate_def)
  qed
qed

interpretation wr: safe_stepping "wstep os" "winv os" wlegal for os
proof
  show "winv os s'" if "winv os s" "wlegal c" "wstep os s c = Inr s'" for s s' c
    using wstep_safe [OF that(1,2)] that(3) by auto
  show "\<exists>s'. wstep os s c = Inr s'" if "winv os s" "wlegal c" for s c
    using wstep_safe [OF that] by auto
qed

lemma open_buffer_ok:
  "\<exists>w. mxml_open_buffer os st date = Inr w \<and> writer_ok os w \<and> level w = 0 \<and> translate w \<and>
    view w = \<lparr>otext = xml_header @ (if suppress_date_flag st then [] else date_comment (take 24 date)),
      tags = [], pending = False, inline = False\<rparr>"
  by (auto simp: mxml_open_buffer_def write_header_def mxml_write_line_def Let_def
      writer_ok_def view_def written_def xml_header_def date_comment_def)

lemma open_file_ok:
  assumes "writes_all os"
  shows "\<exists>w. mxml_open_file os st file_name True date = Inr (Some w) \<and> writer_ok os w \<and> level w = 0 \<and> translate w \<and>
    buffer w = None \<and>
    view w = \<lparr>otext = xml_header @ (if suppress_date_flag st then [] else date_comment (take 24 date)),
      tags = [], pending = False, inline = False\<rparr>"
  using assms by (auto simp: mxml_open_file_def write_header_def mxml_write_line_def Let_def
      writer_ok_def view_def written_def writes_all_def xml_header_def date_comment_def)

section \<open>Closing a writer\<close>

lemma close_levels_mem:
  assumes "writer_ok os w"
  shows "\<exists>w'. close_levels os i w = Inr w' \<and> writer_ok os w' \<and>
    level w' = (if i < level w then (level w + i) div 2 else level w)"
  using assms
proof (induction os i w rule: close_levels.induct)
  case (1 os i w)
  show ?case
  proof (cases "i < level w")
    case False
    with "1.prems" show ?thesis by (simp add: close_levels.simps [of os i w])
  next
    case True
    obtain w1 where w1: "mxml_end_element os w = Inr (level w \<noteq> 0, w1)" "writer_ok os w1"
      "level w1 = level w - 1"
      by (rule end_element_mem [OF "1.prems"])
    obtain w' where w': "close_levels os (i + 1) w1 = Inr w'" "writer_ok os w'"
      "level w' = (if i + 1 < level w1 then (level w1 + (i + 1)) div 2 else level w1)"
      using "1.IH" [OF True w1(1) refl w1(2)] by blast
    have "level w' = (level w + i) div 2"
      using w'(3) w1(3) True by (cases "i + 1 < level w1") auto
    with w' w1 True show ?thesis by (simp add: close_levels.simps [of os i w])
  qed
qed

section \<open>Properties of the writer\<close>

definition fresh_writer :: "os_write \<Rightarrow> string \<Rightarrow> wstate res" where
  "fresh_writer os date =
     bind_res (mxml_open_buffer os mxml_static_init date) (\<lambda>w. Inr (mxml_static_init, w))"

text \<open>C6: No sequence of writer calls on a memory buffer, from the opening of the first
  writer on, overruns any of the buffers of the library, provided attribute names and values
  have fewer than 4096 and element values fewer than 1000 characters; element names and
  comments may have any length.  The invariant of the writer holds in the end.  The text as a whole
  is shorter than 2 GiB and the allocations succeed, see \<^const>\<open>mxml_write_line\<close>.\<close>

theorem writer_calls_safe:
  assumes "list_all wlegal cs"
  shows "\<exists>s'. bind_res (fresh_writer os date) (\<lambda>s. run_steps (wstep os) s cs) = Inr s' \<and> winv os s'"
proof -
  obtain w where "mxml_open_buffer os mxml_static_init date = Inr w" "writer_ok os w"
    using open_buffer_ok by blast
  moreover from this have "winv os (mxml_static_init, w)"
    by (simp add: winv_def good_def data_ok_init)
  ultimately show ?thesis
    using wr.run_safe [OF _ assms] by (simp add: fresh_writer_def)
qed

theorem writer_calls_safe_witness:
  "\<exists>s'. bind_res (fresh_writer (\<lambda>_ _. 0) ''today'') (\<lambda>s. run_steps (wstep (\<lambda>_ _. 0)) s
     [Start ''run'', Attribute ''n'' ''5'', Value ''a<b'', End]) = Inr s' \<and> winv (\<lambda>_ _. 0) s'"
  by (rule writer_calls_safe) (simp add: wlegal_def)

text \<open>The abstract effect of a call, and the strings it needs to fit.\<close>

definition out_step :: "bool \<Rightarrow> wcall \<Rightarrow> xml_out \<Rightarrow> xml_out" where
  "out_step tr c x =
     (case c of
        Start name \<Rightarrow> out_start tr name True x
      | Start_noindent name \<Rightarrow> out_start tr name False x
      | Attribute name val \<Rightarrow> (if pending x then out_attribute tr name val x else x)
      | Value data \<Rightarrow> (if pending x then out_value tr data x else x)
      | End \<Rightarrow> out_end x
      | Empty_line \<Rightarrow> x\<lparr>otext := otext x @ close_pending x @ [LF], pending := False\<rparr>
      | Comment str \<Rightarrow> out_comment str x
      | Translate flag \<Rightarrow> x)"

definition call_fits :: "wstate \<Rightarrow> wcall \<Rightarrow> bool" where
  "call_fits s c =
     (let (st, w) = s in
      case c of
        Start name \<Rightarrow> name_fits w name
      | Start_noindent name \<Rightarrow> name_fits w name
      | Attribute name val \<Rightarrow> length name < 4096 \<and> length val < 4096 \<and> attr_fits w name \<and> attr_fits w val
      | Value data \<Rightarrow> data_room st data \<and> data_size (grow_data_enc st data) \<le> 10000 \<and> data_fits st w data
      | End \<Rightarrow> level w = 0 \<or> element_is_open w \<or> 2 * level w + length (last (stack w)) + 4 < 1000
      | Comment str \<Rightarrow> 2 * level w + length str + 10 < 1000
      | _ \<Rightarrow> True)"

lemma empty_line_view:
  assumes "writer_ok os w"
  shows "\<exists>w'. mxml_write_empty_line os w = Inr (True, w') \<and>
    view w' = (view w)\<lparr>otext := otext (view w) @ close_pending (view w) @ [LF], pending := False\<rparr>"
proof -
  obtain w1 where w1: "finish_open_tag os w = Inr w1" "writer_ok os w1"
    "view w1 = (view w)\<lparr>otext := otext (view w) @ close_pending (view w), pending := False\<rparr>"
    by (rule finish_open_tag_mem [OF assms])
  obtain w2 where "mxml_write_line os w1 [LF] = Inr (int (length [LF]), w2)"
    "view w2 = (view w1)\<lparr>otext := otext (view w1) @ [LF]\<rparr>"
    by (rule write_line_mem [OF w1(2), of "[LF]"]) auto
  with w1 show ?thesis by (simp add: mxml_write_empty_line_def)
qed

text \<open>C5: Every writer call on a memory buffer whose strings fit the fixed arrays of the
  source changes text, open tags and flags exactly as the abstract printer says: the tag,
  attribute, value, end tag or comment is appended in escaped form, with two blanks of
  indentation per level.\<close>

theorem writer_refines_printer:
  assumes "good os (st, w)" and "call_fits (st, w) c"
  shows "\<exists>st' w'. wstep os (st, w) c = Inr (st', w') \<and> view w' = out_step (translate w) c (view w)"
proof (cases c)
  case (Start name)
  obtain st' w' where "mxml_start_element1 os (st, w) name True = Inr (True, st', w')"
    and "name_fits w name \<longrightarrow> view w' = out_start (translate w) name True (view w)"
    by (rule start_element_mem [OF assms(1), of name True])
  with Start assms(2) show ?thesis
    by (simp add: wstep_def mxml_start_element_def call_fits_def out_step_def)
next
  case (Start_noindent name)
  obtain st' w' where "mxml_start_element1 os (st, w) name False = Inr (True, st', w')"
    and "name_fits w name \<longrightarrow> view w' = out_start (translate w) name False (view w)"
    by (rule start_element_mem [OF assms(1), of name False])
  with Start_noindent assms(2) show ?thesis
    by (simp add: wstep_def mxml_start_element_noindent_def call_fits_def out_step_def)
next
  case (Attribute name val)
  with assms(2) have len: "length name < 4096" "length val < 4096"
    and fits: "attr_fits w name" "attr_fits w val"
    by (simp_all add: call_fits_def)
  obtain st' w' where "mxml_write_attribute os (st, w) name val = Inr (element_is_open w, st', w')"
    and "element_is_open w \<and> attr_fits w name \<and> attr_fits w val \<longrightarrow>
      view w' = out_attribute (translate w) name val (view w)"
    by (rule write_attribute_mem [OF assms(1) len])
  with Attribute fits show ?thesis
    by (cases "element_is_open w")
      (simp_all add: wstep_def out_step_def mxml_write_attribute_def)
next
  case (Value data)
  show ?thesis
  proof (cases "element_is_open w")
    case True
    from Value assms(2) have room: "data_room st data" "data_size (grow_data_enc st data) \<le> 10000"
      and fits: "data_fits st w data"
      by (simp_all add: call_fits_def)
    obtain st' w' where "mxml_write_value os (st, w) data = Inr (True, st', w')"
      and "data_fits st w data \<longrightarrow> view w' = out_value (translate w) data (view w)"
      by (rule write_value_mem [OF assms(1) True room])
    with Value True fits show ?thesis by (simp add: wstep_def out_step_def)
  next
    case False
    with Value show ?thesis by (simp add: wstep_def out_step_def mxml_write_value_def)
  qed
next
  case End
  from goodD [OF assms(1)] have ok: "writer_ok os w" by simp
  obtain w' where "mxml_end_element os w = Inr (level w \<noteq> 0, w')"
    and "level w = 0 \<or> element_is_open w \<or> 2 * level w + length (last (stack w)) + 4 < 1000 \<longrightarrow>
      view w' = out_end (view w)"
    by (rule end_element_mem [OF ok])
  with End assms(2) show ?thesis by (auto simp: wstep_def out_step_def call_fits_def)
next
  case Empty_line
  from goodD [OF assms(1)] have ok: "writer_ok os w" by simp
  from empty_line_view [OF ok] Empty_line show ?thesis
    by (auto simp: wstep_def out_step_def)
next
  case (Comment str)
  from goodD [OF assms(1)] have ok: "writer_ok os w" by simp
  obtain w' where "mxml_write_comment os w str = Inr (True, w')"
    and "2 * level w + length str + 10 < 1000 \<longrightarrow> view w' = out_comment str (view w)"
    by (rule write_comment_mem [OF ok, of str])
  with Comment assms(2) show ?thesis by (auto simp: wstep_def out_step_def call_fits_def)
next
  case (Translate flag)
  then show ?thesis by (simp add: wstep_def out_step_def mxml_set_translate_def view_updates)
qed

definition demo_writer :: mxml_writer where
  "demo_writer = \<lparr>file_text = [], buffer = Some ''<a'', buffer_size = 10000, level = 1,
     element_is_open = True, data_was_written = False, stack = [''a''], translate = True\<rparr>"

lemma demo_writer_good: "good os (mxml_static_init, demo_writer)"
  by (simp add: good_def data_ok_init writer_ok_def demo_writer_def)

theorem writer_refines_printer_witness:
  "\<exists>st' w'. wstep (\<lambda>_ _. 0) (mxml_static_init, demo_writer) (Attribute ''k'' ''1>0'') = Inr (st', w') \<and>
     view w' = out_step (translate demo_writer) (Attribute ''k'' ''1>0'') (view demo_writer)"
  by (rule writer_refines_printer [OF demo_writer_good])
    (simp add: call_fits_def attr_fits_def demo_writer_def encode_char_def)

text \<open>Appending a line to the memory buffer fails exactly when the line does not fit the
  10000 bytes by which the buffer grows: the size is raised once, whatever the length of
  the line.  In all other cases the line is appended unchanged.\<close>

theorem write_line_overflow_iff:
  assumes "writer_ok os w" and "buffer w \<noteq> None"
  shows "(mxml_write_line os w line = Inl Buffer_overflow \<longleftrightarrow>
      buffer_size w + 10000 \<le> length (otext (view w)) + length line) \<and>
    (length (otext (view w)) + length line < buffer_size w + 10000 \<longrightarrow>
      (\<exists>w'. mxml_write_line os w line = Inr (int (length line), w') \<and>
        otext (view w') = otext (view w) @ line \<and> writer_ok os w'))"
proof -
  from assms obtain b where "buffer w = Some b" "length b < buffer_size w" "length (stack w) = level w"
    by (auto simp: writer_ok_def split: option.splits)
  then show ?thesis
    by (auto simp: mxml_write_line_def Let_def view_def writer_ok_def written_def)
qed

theorem write_line_overflow_witness:
  "writer_ok (\<lambda>_ _. 0) demo_writer \<and>
   (mxml_write_line (\<lambda>_ _. 0) demo_writer (replicate 20000 CHR ''x'') = Inl Buffer_overflow)"
proof -
  have ok: "writer_ok (\<lambda>_ _. 0) demo_writer" using demo_writer_good by (simp add: good_def)
  show ?thesis
    using ok write_line_overflow_iff [OF ok, of "replicate 20000 CHR ''x''"]
    by (simp add: demo_writer_def view_def written_def)
qed

text \<open>The first element value a process writes must have fewer than 1000 characters: a
  longer one overruns the value buffer, which the first call allocates with 1000 bytes
  without looking at the argument.\<close>

theorem first_value_overflow:
  assumes "good os (st, w)" and "element_is_open w" and "data_size st = 0"
  shows "mxml_write_value os (st, w) data = Inl Buffer_overflow \<longleftrightarrow> 1000 \<le> length data"
proof (cases "1000 \<le> length data")
  case True
  from goodD [OF assms(1)] have w: "writer_ok os w" by simp
  obtain w1 where "mxml_write_line os w ''>'' = Inr (1, w1)"
    by (rule write_line_mem [OF w, of "''>''"]) auto
  with assms True show ?thesis
    by (simp add: mxml_write_value_def grow_data_enc_def Let_def)
next
  case False
  have "data_room st data" "data_size (grow_data_enc st data) \<le> 10000"
    using False assms(3) by (simp_all add: data_room_def grow_data_enc_def)
  then obtain st' w' where "mxml_write_value os (st, w) data = Inr (True, st', w')"
    by (rule write_value_mem [OF assms(1,2), of data])
  with False show ?thesis by simp
qed

theorem first_value_overflow_witness:
  "mxml_write_value (\<lambda>_ _. 0) (mxml_static_init, demo_writer) (replicate 1000 CHR ''x'')
     = Inl Buffer_overflow"
  using first_value_overflow [OF demo_writer_good, of "\<lambda>_ _. 0" "replicate 1000 CHR ''x''"]
  by (simp add: demo_writer_def)

text \<open>A value whose escaped form does not leave ten bytes of the value buffer free is cut
  without notice: the call reports success and what it writes is the escaped form of a
  proper prefix of the value.\<close>

theorem long_value_truncated:
  assumes "good os (st, w)" and "element_is_open w" and "data_room st data"
    and "data_size (grow_data_enc st data) \<le> 10000"
    and "data_size (grow_data_enc st data) < length (encode_full (translate w) data) + 5"
  shows "\<exists>k st' w'. k < length data \<and> mxml_write_value os (st, w) data = Inr (True, st', w') \<and>
    view w' = out_value (translate w) (take k data) (view w)"
proof -
  from goodD [OF assms(1)] have st: "encode_ok st" "data_ok st" and w: "writer_ok os w" by simp_all
  define st1 where "st1 = grow_data_enc st data"
  have st1: "encode_ok st1" "data_cap st1 = Some (data_size st1)" "1000 \<le> data_size st1"
    using st grow_data_enc_ok [of st data] by (simp_all add: st1_def)
  obtain w1 where w1: "mxml_write_line os w ''>'' = Inr (1, w1)" "writer_ok os w1"
    "translate w1 = translate w" "view w1 = (view w)\<lparr>otext := otext (view w) @ ''>''\<rparr>"
    by (rule write_line_mem [OF w, of "''>''"]) auto
  define w2 where "w2 = w1\<lparr>element_is_open := False, data_was_written := True\<rparr>"
  have w2: "writer_ok os w2" using w1(2) by (simp add: w2_def)
  obtain k st2 where enc: "mxml_encode st1 data (data_size st1) (translate w)
      = Inr (encode_full (translate w) (take k data), st2)"
    and reach: "encode_reach (translate w) (data_size st1) data k"
    by (rule mxml_encode_result [OF st1(1), of "data_size st1" data "translate w"])
      (use st1(3) assms(4) in \<open>auto simp: st1_def\<close>)
  let ?e = "encode_full (translate w) (take k data)"
  have "length ?e \<le> 10000" using reach assms(4) by (simp add: encode_reach_def st1_def)
  then obtain w3 where w3: "mxml_write_line os w2 ?e = Inr (int (length ?e), w3)"
    "view w3 = (view w2)\<lparr>otext := otext (view w2) @ ?e\<rparr>"
    by (rule write_line_mem [OF w2])
  have "length data < data_size st1" using assms(3) by (simp add: data_room_def st1_def)
  then have "mxml_write_value os (st, w) data = Inr (True, st2, w3)"
    using assms(2) w1 st1(2) enc w3(1)
    by (simp add: mxml_write_value_def Let_def st1_def [symmetric] w2_def)
  moreover have "view w3 = out_value (translate w) (take k data) (view w)"
    using w1(4) w3(2) by (simp add: out_value_def w2_def view_updates)
  moreover have "k < length data"
  proof (rule ccontr)
    assume "\<not> k < length data"
    with reach assms(5) show False by (simp add: encode_reach_def st1_def)
  qed
  ultimately show ?thesis by blast
qed

lemma encode_full_replicate: "encode_full tr (replicate n c) = concat (replicate n (encode_char tr c))"
  by (simp add: encode_full_def)

theorem long_value_truncated_witness:
  "\<exists>k st' w'. k < length (replicate 500 DQUOTE) \<and>
     mxml_write_value (\<lambda>_ _. 0) (mxml_static_init, demo_writer) (replicate 500 DQUOTE) = Inr (True, st', w') \<and>
     view w' = out_value (translate demo_writer) (take k (replicate 500 DQUOTE)) (view demo_writer)"
proof -
  have "length (encode_full True (replicate 500 DQUOTE)) = 3000"
    by (simp add: encode_full_replicate length_concat sum_list_replicate encode_char_def)
  then show ?thesis
    by (intro long_value_truncated [OF demo_writer_good])
      (simp_all add: demo_writer_def data_room_def grow_data_enc_def)
qed

text \<open>Closing a memory writer terminates and returns the collected text, but it closes only
  every second of the elements that are still open: of \<open>n\<close> open elements \<open>n div 2\<close>
  remain without an end tag.\<close>

theorem close_buffer_half:
  assumes "writer_ok os w"
  shows "\<exists>w'. mxml_close_buffer os w = Inr (buffer w', w') \<and> level w' = level w div 2"
proof -
  define w0 where "w0 = w\<lparr>element_is_open := False\<rparr>"
  have w0: "writer_ok os w0" "level w0 = level w" using assms by (simp_all add: w0_def)
  obtain w1 where w1: "writer_ok os w1" "level w1 = level w"
    and step: "(if element_is_open w
         then bind_res (mxml_write_line os w0 (''>'' @ [LF])) (\<lambda>(n, w1). Inr (n = 2, w1))
         else Inr (True, w)) = Inr (True, w1)"
  proof (cases "element_is_open w")
    case True
    obtain w1 where "mxml_write_line os w0 (''>'' @ [LF]) = Inr (int (length (''>'' @ [LF])), w1)"
      "writer_ok os w1" "level w1 = level w0"
      by (rule write_line_mem [OF w0(1), of "''>'' @ [LF]"]) auto
    with True w0 show ?thesis by (intro that [of w1]) simp_all
  next
    case False
    with assms show ?thesis by (intro that [of w]) simp_all
  qed
  obtain w2 where "close_levels os 0 w1 = Inr w2" "writer_ok os w2" "level w2 = level w div 2"
    using close_levels_mem [OF w1(1), of 0] w1(2) by auto
  then show ?thesis
    unfolding mxml_close_buffer_def step [unfolded w0_def] by simp
qed

theorem close_buffer_half_witness:
  "\<exists>w'. mxml_close_buffer (\<lambda>_ _. 0) (demo_writer\<lparr>level := 2, stack := [''a'', ''b'']\<rparr>) = Inr (buffer w', w') \<and>
     level w' = 1"
  using close_buffer_half [of "\<lambda>_ _. 0" "demo_writer\<lparr>level := 2, stack := [''a'', ''b'']\<rparr>"]
  by (simp add: writer_ok_def demo_writer_def)

end
