(* ===== verification/Mxml_Tree.thy ===== *)
theory Mxml_Tree
  imports Strlcpy
begin

text \<open>
  The in-memory XML tree of \<^verbatim>\<open>src/mxml/mxml.c\<close>: \<open>MXML_NODE\<close> and the functions that
  build, query and change it.

  A node lies in the \<^verbatim>\<open>child\<close> array of its parent, so its address is a pair of an array
  (a block number) and an index.  A node stores the address its \<^verbatim>\<open>parent\<close> pointer holds and
  the block of its own child array; the functions that call \<^verbatim>\<open>malloc\<close> or \<^verbatim>\<open>realloc\<close> take
  the block the allocator returns as an argument, so a statement for every such block
  covers arrays that move and arrays that stay.  \<open>parents_ok\<close> says that every parent
  pointer of a tree is the address of the parent.  The attribute arrays are a list of
  slots, \<open>None\<close> for memory that was never written, next to the separate counter
  \<^verbatim>\<open>n_attributes\<close>.
\<close>

section \<open>Data\<close>

datatype node_kind =
    ELEMENT_NODE
  | TEXT_NODE
  | PROCESSING_INSTRUCTION_NODE
  | COMMENT_NODE
  | DOCUMENT_NODE

type_synonym addr = "nat \<times> nat"

record node_info =
  nname :: string
  node_type :: node_kind
  nvalue :: "string option"
  n_attributes :: nat
  attributes :: "(string \<times> string) option list"
  line_number_start :: nat
  line_number_end :: nat
  parent :: "addr option"
  child_block :: nat

datatype mxml_node = MXML_NODE (info: node_info) (child: "mxml_node list")

definition MXML_NAME_LENGTH :: nat where
  "MXML_NAME_LENGTH = 64"

definition n_children :: "mxml_node \<Rightarrow> nat" where
  "n_children t = length (child t)"

definition map_info :: "(node_info \<Rightarrow> node_info) \<Rightarrow> mxml_node \<Rightarrow> mxml_node" where
  "map_info f t = MXML_NODE (f (info t)) (child t)"

lemma map_info_sel [simp]: "info (map_info f t) = f (info t)" "child (map_info f t) = child t"
  by (simp_all add: map_info_def)

section \<open>Building the tree\<close>

definition empty_info :: node_info where
  "empty_info = \<lparr>nname = [], node_type = ELEMENT_NODE, nvalue = None, n_attributes = 0,
     attributes = [], line_number_start = 0, line_number_end = 0, parent = None, child_block = 0\<rparr>"

definition mxml_create_root_node :: mxml_node where
  "mxml_create_root_node = MXML_NODE (empty_info\<lparr>nname := ''root'', node_type := DOCUMENT_NODE\<rparr>) []"

text \<open>\<^verbatim>\<open>for (j=0 ; j<pchild->n_children ; j++) pchild->child[j].parent = pchild;\<close>\<close>

definition set_parent :: "addr \<Rightarrow> mxml_node \<Rightarrow> mxml_node" where
  "set_parent a = map_info (\<lambda>i. i\<lparr>parent := Some a\<rparr>)"

definition fix_parents :: "addr \<Rightarrow> mxml_node \<Rightarrow> mxml_node" where
  "fix_parents a t = MXML_NODE (info t) (map (set_parent a) (child t))"

text \<open>
  One round of the loop that corrects the parent pointers, at slot \<open>i\<close> of the child array
  in block \<open>nb\<close>.  After the following nodes were moved one down, slot \<open>idx\<close> still holds a
  copy of the node now in slot \<open>idx + 1\<close>: both point to the same child array, so a write
  through one is seen through the other.
\<close>

definition fix_slot :: "nat \<Rightarrow> bool \<Rightarrow> nat \<Rightarrow> nat \<Rightarrow> mxml_node list \<Rightarrow> mxml_node list" where
  "fix_slot nb moved idx i cs =
     (let cs1 = cs[i := fix_parents (nb, i) (cs ! i)] in
      if moved \<and> i = idx then cs1[Suc idx := fix_parents (nb, i) (cs1 ! Suc idx)] else cs1)"

definition new_node :: "addr \<Rightarrow> node_kind \<Rightarrow> string \<Rightarrow> string option \<Rightarrow> mxml_node" where
  "new_node pa kind name val =
     MXML_NODE (empty_info\<lparr>nname := strlcpy_str MXML_NAME_LENGTH name, node_type := kind,
        parent := Some pa,
        nvalue := (case val of Some v \<Rightarrow> (if v \<noteq> [] then Some v else None) | None \<Rightarrow> None)\<rparr>) []"

text \<open>
  \<open>pa\<close> is the address of \<^verbatim>\<open>parent\<close>, \<open>nb\<close> the block its child array is (re)allocated at.
  The new node is at \<open>(nb, idx)\<close>; an index behind the array is a write out of bounds.
\<close>

definition mxml_add_special_node_at ::
  "nat \<Rightarrow> addr \<Rightarrow> mxml_node \<Rightarrow> node_kind \<Rightarrow> string \<Rightarrow> string option \<Rightarrow> nat \<Rightarrow> mxml_node res" where
  "mxml_add_special_node_at nb pa par kind name val idx =
     (let n = n_children par; cs = child par; moved = idx < n;
          \<comment> \<open>move following nodes one down\<close>
          arr = (if moved then take idx cs @ [cs ! idx] @ drop idx cs else cs);
          \<comment> \<open>correct parent pointer for children\<close>
          arr1 = fold (fix_slot nb moved idx) [0..<n] arr;
          \<comment> \<open>initialize new node\<close>
          node = new_node pa kind name val
      in if n < idx then Inl Out_of_bounds
         else Inr (MXML_NODE ((info par)\<lparr>child_block := nb\<rparr>)
                (if moved then arr1[idx := node] else arr1 @ [node])))"

definition mxml_add_special_node ::
  "nat \<Rightarrow> addr \<Rightarrow> mxml_node \<Rightarrow> node_kind \<Rightarrow> string \<Rightarrow> string option \<Rightarrow> mxml_node res" where
  "mxml_add_special_node nb pa par kind name val =
     mxml_add_special_node_at nb pa par kind name val (n_children par)"

definition mxml_add_node :: "nat \<Rightarrow> addr \<Rightarrow> mxml_node \<Rightarrow> string \<Rightarrow> string option \<Rightarrow> mxml_node res" where
  "mxml_add_node nb pa par name val =
     mxml_add_special_node_at nb pa par ELEMENT_NODE name val (n_children par)"

definition mxml_add_node_at ::
  "nat \<Rightarrow> addr \<Rightarrow> mxml_node \<Rightarrow> string \<Rightarrow> string option \<Rightarrow> nat \<Rightarrow> mxml_node res" where
  "mxml_add_node_at nb pa par name val idx =
     mxml_add_special_node_at nb pa par ELEMENT_NODE name val idx"

text \<open>
  \<^verbatim>\<open>mxml_add_tree_at\<close> runs the correcting loop a last time over all children, the new one
  included, so the pointers its earlier loops wrote are all overwritten.
\<close>

definition fix_all :: "nat \<Rightarrow> mxml_node list \<Rightarrow> mxml_node list" where
  "fix_all nb cs = map (\<lambda>i. fix_parents (nb, i) (cs ! i)) [0..<length cs]"

definition mxml_add_tree_at :: "nat \<Rightarrow> addr \<Rightarrow> mxml_node \<Rightarrow> mxml_node \<Rightarrow> nat \<Rightarrow> mxml_node res" where
  "mxml_add_tree_at nb pa par tree idx =
     (let n = n_children par; cs = child par in
      if n < idx then Inl Out_of_bounds
      else Inr (MXML_NODE ((info par)\<lparr>child_block := nb\<rparr>)
             (fix_all nb (take idx cs @ [set_parent pa tree] @ drop idx cs))))"

definition mxml_add_tree :: "nat \<Rightarrow> addr \<Rightarrow> mxml_node \<Rightarrow> mxml_node \<Rightarrow> mxml_node res" where
  "mxml_add_tree nb pa par tree = mxml_add_tree_at nb pa par tree (n_children par)"

section \<open>Attributes\<close>

text \<open>
  The arrays are resized to \<^verbatim>\<open>n_attributes + 1\<close> slots; what \<^verbatim>\<open>realloc\<close> adds is
  uninitialised.
\<close>

definition mxml_add_attribute :: "mxml_node \<Rightarrow> string \<Rightarrow> string \<Rightarrow> mxml_node" where
  "mxml_add_attribute t attrib_name attrib_value =
     (let n = n_attributes (info t);
          arr = take (n + 1) (attributes (info t) @ replicate (n + 1) None)
      in map_info (\<lambda>i. i\<lparr>attributes := arr[n := Some (strlcpy_str MXML_NAME_LENGTH attrib_name, attrib_value)],
                          n_attributes := n + 1\<rparr>) t)"

text \<open>
  The loop all lookups share: the index of the first slot below \<open>n\<close> with the given name,
  \<open>n\<close> when there is none.
\<close>

function attribute_index :: "(string \<times> string) option list \<Rightarrow> nat \<Rightarrow> string \<Rightarrow> nat \<Rightarrow> nat res" where
  "attribute_index arr n name i =
     (if i < n then
        (if length arr \<le> i then Inl Out_of_bounds
         else case arr ! i of
           None \<Rightarrow> Inl Uninitialised
         | Some (a, _) \<Rightarrow> if a = name then Inr i else attribute_index arr n name (i + 1))
      else Inr n)"
  by pat_completeness auto
termination
  by (relation "measure (\<lambda>(arr, n, name, i). n - i)") auto

declare attribute_index.simps [simp del]

definition find_attribute :: "mxml_node \<Rightarrow> string \<Rightarrow> nat res" where
  "find_attribute t name = attribute_index (attributes (info t)) (n_attributes (info t)) name 0"

definition mxml_get_attribute :: "mxml_node \<Rightarrow> string \<Rightarrow> string option res" where
  "mxml_get_attribute t name =
     bind_res (find_attribute t name) (\<lambda>i.
       if i = n_attributes (info t) then Inr None
       else Inr (map_option snd (attributes (info t) ! i)))"

definition mxml_replace_attribute_name :: "mxml_node \<Rightarrow> string \<Rightarrow> string \<Rightarrow> (bool \<times> mxml_node) res" where
  "mxml_replace_attribute_name t old_name new_name =
     bind_res (find_attribute t old_name) (\<lambda>i.
       if i = n_attributes (info t) then Inr (False, t)
       else Inr (True, map_info (\<lambda>f. f\<lparr>attributes := (attributes f)
              [i := map_option (\<lambda>(_, v). (strlcpy_str MXML_NAME_LENGTH new_name, v)) (attributes f ! i)]\<rparr>) t))"

definition mxml_replace_attribute_value :: "mxml_node \<Rightarrow> string \<Rightarrow> string \<Rightarrow> (bool \<times> mxml_node) res" where
  "mxml_replace_attribute_value t attrib_name attrib_value =
     bind_res (find_attribute t attrib_name) (\<lambda>i.
       if i = n_attributes (info t) then Inr (False, t)
       else Inr (True, map_info (\<lambda>f. f\<lparr>attributes := (attributes f)
              [i := map_option (\<lambda>(a, _). (a, attrib_value)) (attributes f ! i)]\<rparr>) t))"

text \<open>
  The entries behind the deleted one move down and the arrays shrink by one slot; the
  source leaves \<^verbatim>\<open>n_attributes\<close> as it was.
\<close>

definition mxml_delete_attribute :: "mxml_node \<Rightarrow> string \<Rightarrow> (bool \<times> mxml_node) res" where
  "mxml_delete_attribute t attrib_name =
     bind_res (find_attribute t attrib_name) (\<lambda>i.
       if i = n_attributes (info t) then Inr (False, t)
       else Inr (True, map_info (\<lambda>f. f\<lparr>attributes :=
              take i (attributes f) @ drop (i + 1) (attributes f)\<rparr>) t))"

section \<open>Queries and replacements\<close>

definition mxml_get_number_of_children :: "mxml_node \<Rightarrow> nat" where
  "mxml_get_number_of_children t = n_children t"

definition mxml_subnode :: "mxml_node \<Rightarrow> nat \<Rightarrow> mxml_node option" where
  "mxml_subnode t idx = (if idx < n_children t then Some (child t ! idx) else None)"

definition mxml_get_parent :: "mxml_node \<Rightarrow> addr option" where
  "mxml_get_parent t = parent (info t)"

definition mxml_get_name :: "mxml_node \<Rightarrow> string" where
  "mxml_get_name t = nname (info t)"

definition mxml_get_value :: "mxml_node \<Rightarrow> string option" where
  "mxml_get_value t = nvalue (info t)"

definition mxml_get_line_number_start :: "mxml_node \<Rightarrow> nat" where
  "mxml_get_line_number_start t = line_number_start (info t)"

definition mxml_get_line_number_end :: "mxml_node \<Rightarrow> nat" where
  "mxml_get_line_number_end t = line_number_end (info t)"

definition mxml_replace_node_name :: "mxml_node \<Rightarrow> string \<Rightarrow> mxml_node" where
  "mxml_replace_node_name t name = map_info (\<lambda>i. i\<lparr>nname := strlcpy_str MXML_NAME_LENGTH name\<rparr>) t"

text \<open>\<^verbatim>\<open>strlen (NULL)\<close> when a node with a value gets none.\<close>

definition mxml_replace_node_value :: "mxml_node \<Rightarrow> string option \<Rightarrow> mxml_node res" where
  "mxml_replace_node_value t val =
     (case (nvalue (info t), val) of
        (Some _, None) \<Rightarrow> Inl Null_pointer
      | (None, None) \<Rightarrow> Inr (map_info (\<lambda>i. i\<lparr>nvalue := None\<rparr>) t)
      | (_, Some v) \<Rightarrow> Inr (map_info (\<lambda>i. i\<lparr>nvalue := Some v\<rparr>) t))"

fun child_index :: "mxml_node list \<Rightarrow> string \<Rightarrow> nat" where
  "child_index [] name = 0"
| "child_index (c # cs) name = (if nname (info c) = name then 0 else Suc (child_index cs name))"

definition mxml_replace_subvalue :: "mxml_node \<Rightarrow> string \<Rightarrow> string option \<Rightarrow> (bool \<times> mxml_node) res" where
  "mxml_replace_subvalue t name val =
     (let i = child_index (child t) name in
      if i = n_children t then Inr (False, t)
      else bind_res (mxml_replace_node_value (child t ! i) val) (\<lambda>c.
             Inr (True, MXML_NODE (info t) ((child t)[i := c]))))"

text \<open>
  The child arrays that are freed, in order; the attribute values are freed through the
  array of pointers.
\<close>

fun free_attributes :: "nat \<Rightarrow> (string \<times> string) option list \<Rightarrow> unit res" where
  "free_attributes 0 arr = Inr ()"
| "free_attributes (Suc n) [] = Inl Out_of_bounds"
| "free_attributes (Suc n) (None # arr) = Inl Uninitialised"
| "free_attributes (Suc n) (Some a # arr) = free_attributes n arr"

fun mxml_free_tree :: "mxml_node \<Rightarrow> nat list res"
  and free_children :: "mxml_node list \<Rightarrow> nat list res" where
  "mxml_free_tree (MXML_NODE i cs) =
     (case free_children cs of
        Inl e \<Rightarrow> Inl e
      | Inr bs \<Rightarrow> bind_res (free_attributes (n_attributes i) (attributes i)) (\<lambda>_.
          Inr (bs @ (if cs \<noteq> [] then [child_block i] else []))))"
| "free_children [] = Inr []"
| "free_children (c # cs) =
     (case mxml_free_tree c of
        Inl e \<Rightarrow> Inl e
      | Inr bs \<Rightarrow> bind_res (free_children cs) (\<lambda>bs'. Inr (bs @ bs')))"

text \<open>
  \<^verbatim>\<open>mxml_delete_node\<close> for a node with a parent (one without is just freed): \<open>a\<close> is the address of
  the node and \<open>t\<close> what lies there, \<open>nb\<close> the block that \<^verbatim>\<open>realloc\<close> returns for the shrunk child
  array.  The result holds the blocks that are freed, in order.
\<close>

definition mxml_delete_node :: "nat \<Rightarrow> mxml_node \<Rightarrow> addr \<Rightarrow> mxml_node \<Rightarrow> (mxml_node \<times> nat list) res" where
  "mxml_delete_node nb par a t =
     (let n = n_children par;
          i = (if fst a = child_block (info par) \<and> snd a < n then snd a else n)
      in bind_res (mxml_free_tree t) (\<lambda>freed.
           if i < n then
             (let cs = take i (child par) @ drop (i + 1) (child par) in
              if n - 1 \<noteq> 0 then Inr (MXML_NODE ((info par)\<lparr>child_block := nb\<rparr>) cs, freed)
              else Inr (MXML_NODE (info par) cs, freed @ [child_block (info par)]))
           else Inr (par, freed)))"

text \<open>The first node, in document order, that starts on a given line; its path.\<close>

fun mxml_get_node_at_line :: "mxml_node \<Rightarrow> nat \<Rightarrow> nat list option"
  and node_at_line_children :: "mxml_node list \<Rightarrow> nat \<Rightarrow> nat \<Rightarrow> nat list option" where
  "mxml_get_node_at_line (MXML_NODE i cs) ln =
     (if line_number_start i = ln then Some [] else node_at_line_children cs 0 ln)"
| "node_at_line_children [] k ln = None"
| "node_at_line_children (c # cs) k ln =
     (case mxml_get_node_at_line c ln of
        Some p \<Rightarrow> Some (k # p)
      | None \<Rightarrow> node_at_line_children cs (Suc k) ln)"

section \<open>Cloning\<close>

text \<open>
  \<^verbatim>\<open>memcpy\<close> copies the counter \<^verbatim>\<open>n_attributes\<close>, then the attribute pointers are cleared and
  every attribute is added.  \<open>k\<close> numbers the blocks that \<^verbatim>\<open>calloc\<close>, \<^verbatim>\<open>malloc\<close> and
  \<^verbatim>\<open>realloc\<close> return: the clone is at \<open>(k, 0)\<close>.
\<close>

fun clone_attributes :: "mxml_node \<Rightarrow> (string \<times> string) option list \<Rightarrow> mxml_node res" where
  "clone_attributes t [] = Inr t"
| "clone_attributes t (None # as) = Inl Uninitialised"
| "clone_attributes t (Some (a, v) # as) = clone_attributes (mxml_add_attribute t a v) as"

definition clone_info :: "node_info \<Rightarrow> mxml_node res" where
  "clone_info i =
     (if length (attributes i) < n_attributes i then Inl Out_of_bounds
      else clone_attributes (MXML_NODE (i\<lparr>attributes := [], child_block := 0\<rparr>) [])
             (take (n_attributes i) (attributes i)))"

fun mxml_clone_tree :: "nat \<Rightarrow> mxml_node \<Rightarrow> (mxml_node \<times> nat) res"
  and clone_children :: "addr \<Rightarrow> mxml_node \<Rightarrow> nat \<Rightarrow> mxml_node list \<Rightarrow> (mxml_node \<times> nat) res" where
  "mxml_clone_tree k (MXML_NODE i cs) =
     (case clone_info i of
        Inl e \<Rightarrow> Inl e
      | Inr c \<Rightarrow> clone_children (k, 0) c (Suc k) cs)"
| "clone_children a c k [] = Inr (c, k)"
| "clone_children a c k (t # ts) =
     (case mxml_clone_tree k t of
        Inl e \<Rightarrow> Inl e
      | Inr (t', k1) \<Rightarrow>
          (case mxml_add_tree k1 a c t' of
             Inl e \<Rightarrow> Inl e
           | Inr c' \<Rightarrow> clone_children a c' (Suc k1) ts))"

end
