(* ===== verification/Mxml_Tree_Props.thy ===== *)
theory Mxml_Tree_Props
  imports Mxml_Tree
begin

text \<open>
  Correctness of the tree functions of \<open>Mxml_Tree\<close>: what each does to the list of
  children and to the attributes, which of them keep the parent pointers right, and the
  round trip of adding and reading an attribute.
\<close>

section \<open>Parent pointers\<close>

lemma size_child [simp]: "k < length cs \<Longrightarrow> size (cs ! k :: mxml_node) < Suc (size_list size cs)"
  by (metis less_Suc_eq_le nth_mem order_refl size_list_estimation')

function parents_ok :: "addr \<Rightarrow> mxml_node \<Rightarrow> bool" where
  "parents_ok a (MXML_NODE i cs) =
     list_all (\<lambda>k. parent (info (cs ! k)) = Some a \<and> parents_ok (child_block i, k) (cs ! k))
       [0..<length cs]"
  by pat_completeness auto
termination
  by (relation "measure (\<lambda>(a, t). size t)") auto

declare parents_ok.simps [simp del]

lemma parents_ok_iff:
  "parents_ok a t \<longleftrightarrow> (\<forall>k < n_children t. parent (info (child t ! k)) = Some a \<and>
     parents_ok (child_block (info t), k) (child t ! k))"
  by (cases t) (auto simp: parents_ok.simps list_all_iff n_children_def)

text \<open>The pointers below the children do not depend on where the node itself lies.\<close>

definition inner_ok :: "mxml_node \<Rightarrow> bool" where
  "inner_ok t \<longleftrightarrow> (\<forall>k < n_children t. parents_ok (child_block (info t), k) (child t ! k))"

lemma parents_ok_inner:
  "parents_ok a t \<longleftrightarrow> inner_ok t \<and> (\<forall>k < n_children t. parent (info (child t ! k)) = Some a)"
  by (subst parents_ok_iff) (auto simp: inner_ok_def)

lemma parents_ok_set_parent [simp]: "parents_ok a (set_parent b t) = parents_ok a t"
  unfolding parents_ok_iff [of a "set_parent b t"] parents_ok_iff [of a t]
  by (simp add: set_parent_def n_children_def)

lemma parents_ok_info:
  "child_block i = child_block j \<Longrightarrow> parents_ok a (MXML_NODE i cs) = parents_ok a (MXML_NODE j cs)"
  by (simp add: parents_ok.simps)

lemma info_set_parent [simp]: "parent (info (set_parent a t)) = Some a" "child (set_parent a t) = child t"
  by (simp_all add: set_parent_def)

lemma fix_parents_sel [simp]:
  "info (fix_parents a t) = info t" "n_children (fix_parents a t) = n_children t"
  "child (fix_parents a t) = [] \<longleftrightarrow> child t = []"
  by (simp_all add: fix_parents_def n_children_def)

lemma inner_ok_fix [simp]: "inner_ok (fix_parents a t) = inner_ok t"
  by (simp add: inner_ok_def fix_parents_def n_children_def)

lemma fix_parents_twice [simp]: "fix_parents a (fix_parents b t) = fix_parents a t"
  by (simp add: fix_parents_def set_parent_def map_info_def)

lemma parents_ok_fix: "parents_ok a (fix_parents b t) \<longleftrightarrow> inner_ok t \<and> (b = a \<or> child t = [])"
  by (auto simp: parents_ok_inner) (auto simp: fix_parents_def n_children_def)

lemma parents_ok_moved:
  "parents_ok a t \<Longrightarrow> a \<noteq> b \<Longrightarrow> parents_ok b t \<longleftrightarrow> child t = []"
  by (auto simp: parents_ok_inner n_children_def)

section \<open>The loop that corrects the pointers\<close>

lemma length_fix_slot [simp]: "length (fix_slot nb mv idx i cs) = length cs"
  by (simp add: fix_slot_def Let_def)

lemma length_fold_fix_slot [simp]: "length (fold (fix_slot nb mv idx) is cs) = length cs"
  by (induction "is" arbitrary: cs) simp_all

lemma fold_fix_slot_nth:
  assumes "m \<le> length cs" and "p < length cs" and "mv \<Longrightarrow> Suc idx < length cs"
  shows "fold (fix_slot nb mv idx) [0..<m] cs ! p =
    (if p < m then fix_parents (nb, p) (cs ! p)
     else if mv \<and> p = Suc idx \<and> idx < m then fix_parents (nb, idx) (cs ! p)
     else cs ! p)"
  using assms
proof (induction m arbitrary: p)
  case 0
  then show ?case by simp
next
  case (Suc m)
  let ?c = "fold (fix_slot nb mv idx) [0..<m] cs"
  have IH: "?c ! q = (if q < m then fix_parents (nb, q) (cs ! q)
     else if mv \<and> q = Suc idx \<and> idx < m then fix_parents (nb, idx) (cs ! q) else cs ! q)"
    if "q < length cs" for q
    using Suc that by simp
  have "fold (fix_slot nb mv idx) [0..<Suc m] cs = fix_slot nb mv idx m ?c" by simp
  moreover have "fix_slot nb mv idx m ?c ! p =
    (if p < Suc m then fix_parents (nb, p) (cs ! p)
     else if mv \<and> p = Suc idx \<and> idx < Suc m then fix_parents (nb, idx) (cs ! p) else cs ! p)"
    using Suc.prems IH [of m] IH [of p] IH [of "Suc idx"]
    by (auto simp: fix_slot_def Let_def nth_list_update)
  ultimately show ?case by simp
qed

lemma fold_fix_slot_all: "fold (fix_slot nb False idx) [0..<length cs] cs = fix_all nb cs"
  by (rule nth_equalityI) (simp_all add: fix_all_def fold_fix_slot_nth)

lemma fix_all_nth [simp]: "p < length cs \<Longrightarrow> fix_all nb cs ! p = fix_parents (nb, p) (cs ! p)"
  by (simp add: fix_all_def)

lemma length_fix_all [simp]: "length (fix_all nb cs) = length cs"
  by (simp add: fix_all_def)

section \<open>Adding nodes\<close>

lemma add_special_node_append:
  "mxml_add_special_node nb pa par kind name val =
     Inr (MXML_NODE ((info par)\<lparr>child_block := nb\<rparr>) (fix_all nb (child par) @ [new_node pa kind name val]))"
  by (simp add: mxml_add_special_node_def mxml_add_special_node_at_def Let_def n_children_def
      fold_fix_slot_all)

lemma new_node_sel [simp]:
  "child (new_node pa kind name val) = []" "parent (info (new_node pa kind name val)) = Some pa"
  by (simp_all add: new_node_def)

lemma parents_ok_leaf: "child t = [] \<Longrightarrow> parents_ok a t"
  by (subst parents_ok_iff) (simp add: n_children_def)

text \<open>The slots of the child array after an insertion in front of an existing child.\<close>

lemma insert_slots:
  fixes cs :: "mxml_node list"
  assumes "idx < length cs"
  defines "arr \<equiv> take idx cs @ [cs ! idx] @ drop idx cs"
  shows "length arr = Suc (length cs)"
    and "p < Suc (length cs) \<Longrightarrow> arr ! p = (if p \<le> idx then cs ! p else cs ! (p - 1))"
  using assms by (auto simp: arr_def nth_append nth_Cons' min_def)

lemma insert_result_nth:
  assumes "idx < length cs" and "p \<le> length cs" and "p \<noteq> idx"
  shows "fold (fix_slot nb True idx) [0..<length cs] (take idx cs @ [cs ! idx] @ drop idx cs) ! p =
    (let c = cs ! (if p < idx then p else p - 1) in
     if p < length cs then fix_parents (nb, p) c
     else if Suc idx = length cs then fix_parents (nb, idx) c
     else c)"
proof -
  define arr where "arr = take idx cs @ [cs ! idx] @ drop idx cs"
  have len: "length arr = Suc (length cs)"
    unfolding arr_def by (rule insert_slots(1) [OF assms(1)])
  have nth: "arr ! p = cs ! (if p < idx then p else p - 1)"
    using insert_slots(2) [OF assms(1), of p] assms(2,3) by (auto simp: arr_def)
  have "fold (fix_slot nb True idx) [0..<length cs] arr ! p =
    (if p < length cs then fix_parents (nb, p) (arr ! p)
     else if True \<and> p = Suc idx \<and> idx < length cs then fix_parents (nb, idx) (arr ! p)
     else arr ! p)"
    by (rule fold_fix_slot_nth) (use assms len in auto)
  then show ?thesis
    unfolding arr_def [symmetric] Let_def nth [symmetric] using assms(1,2) by auto
qed

section \<open>The tree without its addresses\<close>

datatype xtree = XT (xname: string) (xkind: node_kind) (xvalue: "string option")
  (xattrs: "nat \<times> (string \<times> string) option list") (xchildren: "xtree list")

fun erase :: "mxml_node \<Rightarrow> xtree" where
  "erase (MXML_NODE i cs) =
     XT (nname i) (node_type i) (nvalue i) (n_attributes i, attributes i) (map erase cs)"

lemma erase_simp: "erase t = XT (nname (info t)) (node_type (info t)) (nvalue (info t))
    (n_attributes (info t), attributes (info t)) (map erase (child t))"
  by (cases t) simp

lemma erase_set_parent [simp]: "erase (set_parent a t) = erase t"
  by (cases t) (simp add: set_parent_def map_info_def)

lemma erase_fix_parents [simp]: "erase (fix_parents a t) = erase t"
  by (cases t) (simp add: fix_parents_def)

lemma map_erase_fix_all [simp]: "map erase (fix_all nb cs) = map erase cs"
  by (rule nth_equalityI) simp_all

text \<open>Inserting a new node at any position up to the number of children succeeds and
  changes the list of children exactly by putting the new node there; the payload of the
  parent and of all other nodes is unchanged.  A position behind the end of the child
  array is a write out of bounds.\<close>

theorem add_node_at_inserts:
  "(idx \<le> n_children par \<longrightarrow>
     (\<exists>cs. mxml_add_special_node_at nb pa par kind name val idx =
         Inr (MXML_NODE ((info par)\<lparr>child_block := nb\<rparr>) cs) \<and>
       map erase cs = take idx (map erase (child par)) @ [erase (new_node pa kind name val)] @
         drop idx (map erase (child par)))) \<and>
   (n_children par < idx \<longrightarrow>
     mxml_add_special_node_at nb pa par kind name val idx = Inl Out_of_bounds)"
proof (cases "idx < n_children par")
  case True
  let ?cs = "child par" and ?new = "new_node pa kind name val"
  from True have idx: "idx < length ?cs" by (simp add: n_children_def)
  define arr1 where "arr1 = fold (fix_slot nb True idx) [0..<length ?cs]
      (take idx ?cs @ [?cs ! idx] @ drop idx ?cs)"
  have len: "length arr1 = Suc (length ?cs)"
    unfolding arr1_def using insert_slots(1) [OF idx] by simp
  have "map erase (arr1[idx := ?new]) =
      take idx (map erase ?cs) @ [erase ?new] @ drop idx (map erase ?cs)" (is "?l = ?r")
  proof (rule nth_equalityI)
    show "length ?l = length ?r" using len idx by simp
    fix p assume "p < length ?l"
    then have p: "p \<le> length ?cs" using len by simp
    have "erase (arr1 ! p) = erase (?cs ! (if p < idx then p else p - 1))" if "p \<noteq> idx"
      unfolding arr1_def insert_result_nth [OF idx p that] Let_def
      by (simp only: erase_fix_parents if_cancel split: if_split) simp
    then show "?l ! p = ?r ! p"
      using p len idx by (auto simp: nth_list_update nth_append nth_Cons' min_def)
  qed
  moreover have "mxml_add_special_node_at nb pa par kind name val idx =
      Inr (MXML_NODE ((info par)\<lparr>child_block := nb\<rparr>) (arr1[idx := ?new]))"
    using True by (simp add: mxml_add_special_node_at_def Let_def arr1_def n_children_def)
  ultimately show ?thesis using True by auto
next
  case False
  then show ?thesis
    by (auto simp: mxml_add_special_node_at_def Let_def fold_fix_slot_all n_children_def)
qed

theorem add_node_at_inserts_witness:
  "\<exists>cs. mxml_add_special_node_at 1 (0, 0) mxml_create_root_node ELEMENT_NODE ''a'' None 0 =
      Inr (MXML_NODE ((info mxml_create_root_node)\<lparr>child_block := 1\<rparr>) cs) \<and>
    map erase cs = [erase (new_node (0, 0) ELEMENT_NODE ''a'' None)]"
  using add_node_at_inserts [of 0 mxml_create_root_node 1 "(0, 0)" ELEMENT_NODE "''a''" None]
  by (simp add: n_children_def mxml_create_root_node_def)

text \<open>If all parent pointers of a tree are right before a node is added, they are right
  afterwards when the node goes to the end, wherever the child array is moved to.  When it
  is inserted before an existing child they are right exactly if the last child has no
  children of its own: the correcting loop does not reach the slot the last child was moved
  to.\<close>

theorem add_node_at_parents:
  assumes "parents_ok pa par" and "idx \<le> n_children par"
    and "mxml_add_special_node_at nb pa par kind name val idx = Inr par'"
  shows "parents_ok pa par' \<longleftrightarrow> idx = n_children par \<or> child (last (child par)) = []"
proof (cases "idx < n_children par")
  case False
  with assms(2) have "idx = n_children par" by simp
  with assms(3) have par': "par' = MXML_NODE ((info par)\<lparr>child_block := nb\<rparr>)
      (fix_all nb (child par) @ [new_node pa kind name val])"
    using add_special_node_append [of nb pa par kind name val]
    by (simp add: mxml_add_special_node_def)
  have "parents_ok pa par'"
    unfolding parents_ok_iff [of pa par']
    using assms(1) by (auto simp: par' n_children_def nth_append less_Suc_eq parents_ok_leaf
        parents_ok_fix parents_ok_inner [of _ "child par ! _"] parents_ok_iff [of pa par])
  with \<open>idx = n_children par\<close> show ?thesis by simp
next
  case True
  let ?cs = "child par" and ?new = "new_node pa kind name val" and ?n = "length (child par)"
  from True have idx: "idx < ?n" by (simp add: n_children_def)
  define arr1 where "arr1 = fold (fix_slot nb True idx) [0..<?n]
      (take idx ?cs @ [?cs ! idx] @ drop idx ?cs)"
  have len: "length arr1 = Suc ?n"
    unfolding arr1_def using insert_slots(1) [OF idx] by simp
  have par': "par' = MXML_NODE ((info par)\<lparr>child_block := nb\<rparr>) (arr1[idx := ?new])"
    using assms(3) True by (simp add: mxml_add_special_node_at_def Let_def arr1_def n_children_def)
  have old: "parent (info (?cs ! q)) = Some pa" "inner_ok (?cs ! q)"
      "parents_ok (child_block (info par), q) (?cs ! q)" if "q < ?n" for q
    using assms(1) that by (auto simp: parents_ok_iff [of pa par] n_children_def parents_ok_inner [of _ "child par ! q"])
  define ok where "ok p \<longleftrightarrow> parent (info (arr1[idx := ?new] ! p)) = Some pa \<and>
      parents_ok (nb, p) (arr1[idx := ?new] ! p)" for p
  have "ok p" if "p < ?n" for p
  proof (cases "p = idx")
    case True
    with len idx show ?thesis by (simp add: ok_def parents_ok_leaf)
  next
    case False
    have "arr1 ! p = fix_parents (nb, p) (?cs ! (if p < idx then p else p - 1))"
      using insert_result_nth [OF idx _ False, of nb] that by (simp add: arr1_def Let_def)
    with False that old show ?thesis by (simp add: ok_def parents_ok_fix)
  qed
  moreover have "ok ?n \<longleftrightarrow> child (last ?cs) = []"
  proof -
    have lst: "?cs ! (?n - 1) = last ?cs" using idx by (cases "?cs = []") (auto simp: last_conv_nth)
    have "arr1 ! ?n = (if Suc idx = ?n then fix_parents (nb, idx) (last ?cs) else last ?cs)"
      using insert_result_nth [OF idx, of ?n nb] idx lst by (simp add: arr1_def Let_def)
    moreover have "parents_ok (child_block (info par), ?n - 1) (last ?cs)" "inner_ok (last ?cs)"
      "parent (info (last ?cs)) = Some pa"
      using old [of "?n - 1"] idx lst by simp_all
    ultimately show ?thesis
      using idx by (auto simp: ok_def parents_ok_fix dest: parents_ok_moved [of _ _ "(nb, ?n)"])
  qed
  moreover have "parents_ok pa par' \<longleftrightarrow> (\<forall>p < Suc ?n. ok p)"
    unfolding parents_ok_iff [of pa par'] using len by (simp add: par' n_children_def ok_def)
  ultimately show ?thesis
    using idx by (auto simp: less_Suc_eq n_children_def)
qed

text \<open>A document with two children at block 1, the second with a child of its own at block 2.\<close>

definition demo_leaf :: "addr \<Rightarrow> string \<Rightarrow> mxml_node" where
  "demo_leaf pa name = new_node pa ELEMENT_NODE name None"

definition demo_tree :: mxml_node where
  "demo_tree = MXML_NODE (empty_info\<lparr>nname := ''root'', child_block := 1\<rparr>)
     [demo_leaf (0, 0) ''a'',
      MXML_NODE (empty_info\<lparr>nname := ''b'', parent := Some (0, 0), child_block := 2\<rparr>)
        [demo_leaf (1, 1) ''c'']]"

lemma demo_tree_ok: "parents_ok (0, 0) demo_tree"
  by (simp add: demo_tree_def demo_leaf_def parents_ok.simps parents_ok_leaf upt_rec)

lemma demo_tree_sel:
  "n_children demo_tree = 2" "child (last (child demo_tree)) \<noteq> []" "child_block (info demo_tree) = 1"
  by (simp_all add: demo_tree_def n_children_def)

theorem add_node_at_parents_witness:
  "\<exists>par'. mxml_add_special_node_at 1 (0, 0) demo_tree ELEMENT_NODE ''x'' None 0 = Inr par' \<and>
     \<not> parents_ok (0, 0) par'"
proof -
  obtain cs where cs: "mxml_add_special_node_at 1 (0, 0) demo_tree ELEMENT_NODE ''x'' None 0 =
      Inr (MXML_NODE ((info demo_tree)\<lparr>child_block := 1\<rparr>) cs)"
    by (simp add: mxml_add_special_node_at_def Let_def)
  from add_node_at_parents [OF demo_tree_ok _ cs] cs demo_tree_sel show ?thesis by auto
qed

lemma fix_all_ok:
  assumes "\<forall>c \<in> set cs. inner_ok c \<and> parent (info c) = Some pa"
  shows "parents_ok pa (MXML_NODE (i\<lparr>child_block := nb\<rparr>) (fix_all nb cs))"
  using assms by (subst parents_ok_iff) (simp add: n_children_def parents_ok_fix)

text \<open>C25: Adding a whole tree at any position up to the number of children inserts it there and
  leaves every parent pointer right, also those inside the added tree, wherever the child
  array is moved to.\<close>

theorem add_tree_at_correct:
  assumes "parents_ok pa par" and "parents_ok ta tree" and "idx \<le> n_children par"
  shows "\<exists>par'. mxml_add_tree_at nb pa par tree idx = Inr par' \<and> parents_ok pa par' \<and>
    map erase (child par') = take idx (map erase (child par)) @ [erase tree] @ drop idx (map erase (child par))"
proof -
  let ?cs = "take idx (child par) @ [set_parent pa tree] @ drop idx (child par)"
  have "\<forall>c \<in> set (child par). inner_ok c \<and> parent (info c) = Some pa"
    using assms(1) by (auto simp: parents_ok_iff [of pa par] parents_ok_inner [of _ "child par ! _"]
        n_children_def in_set_conv_nth)
  moreover have "inner_ok (set_parent pa tree)"
    using assms(2) parents_ok_set_parent [of ta pa tree] by (simp add: parents_ok_inner)
  ultimately have "\<forall>c \<in> set ?cs. inner_ok c \<and> parent (info c) = Some pa"
    by (auto dest: in_set_takeD in_set_dropD)
  from fix_all_ok [OF this, of nb "info par"]
  have "parents_ok pa (MXML_NODE ((info par)\<lparr>child_block := nb\<rparr>) (fix_all nb ?cs))" .
  moreover have "map erase (fix_all nb ?cs) =
      take idx (map erase (child par)) @ [erase tree] @ drop idx (map erase (child par))"
    by (simp add: take_map drop_map)
  ultimately show ?thesis
    using assms(3) by (simp add: mxml_add_tree_at_def Let_def)
qed

theorem add_tree_at_correct_witness:
  "\<exists>par'. mxml_add_tree_at 7 (0, 0) demo_tree demo_tree 1 = Inr par' \<and> parents_ok (0, 0) par' \<and>
    map erase (child par') = take 1 (map erase (child demo_tree)) @ [erase demo_tree] @
      drop 1 (map erase (child demo_tree))"
  using add_tree_at_correct [OF demo_tree_ok demo_tree_ok, of 1 7] demo_tree_sel by simp

section \<open>Freeing and deleting\<close>

text \<open>The blocks that hold the child arrays of a tree.\<close>

fun tree_blocks :: "mxml_node \<Rightarrow> nat list" where
  "tree_blocks (MXML_NODE i cs) = concat (map tree_blocks cs) @ (if cs \<noteq> [] then [child_block i] else [])"

lemma free_attributes_ok: "None \<notin> set arr \<Longrightarrow> free_attributes (length arr) arr = Inr ()"
proof (induction arr)
  case (Cons a arr)
  then show ?case by (cases a) auto
qed simp

lemma free_attributes_none: "None \<in> set (take n arr) \<Longrightarrow> free_attributes n arr = Inl Uninitialised"
  by (induction n arr rule: free_attributes.induct) auto

lemma free_attributes_short:
  "length arr < n \<Longrightarrow> None \<notin> set arr \<Longrightarrow> free_attributes n arr = Inl Out_of_bounds"
  by (induction n arr rule: free_attributes.induct) auto

text \<open>Every attribute slot that the counter includes was written.\<close>

definition slots_ok :: "node_info \<Rightarrow> bool" where
  "slots_ok i \<longleftrightarrow> n_attributes i = length (attributes i) \<and> None \<notin> set (attributes i)"

fun all_slots :: "mxml_node \<Rightarrow> bool" where
  "all_slots (MXML_NODE i cs) \<longleftrightarrow> slots_ok i \<and> list_all all_slots cs"

lemma free_tree_blocks:
  "all_slots t \<Longrightarrow> mxml_free_tree t = Inr (tree_blocks t)"
  "list_all all_slots cs \<Longrightarrow> free_children cs = Inr (concat (map tree_blocks cs))"
proof (induction t and cs rule: mxml_free_tree_free_children.induct)
  case (1 i cs)
  then have "free_children cs = Inr (concat (map tree_blocks cs))" by simp
  moreover have "free_attributes (n_attributes i) (attributes i) = Inr ()"
    using "1.prems" by (simp add: slots_ok_def free_attributes_ok)
  ultimately show ?case by simp
next
  case (3 c cs)
  then have "mxml_free_tree c = Inr (tree_blocks c)" by simp
  with 3 show ?case by simp
qed simp

lemma all_drop_conv: "(\<forall>c \<in> set (drop i xs). Q c) \<longleftrightarrow> (\<forall>k < length xs. k < i \<or> Q (xs ! k))"
proof (intro iffI allI impI ballI)
  fix k assume "\<forall>c \<in> set (drop i xs). Q c" "k < length xs"
  moreover have "k < i \<or> xs ! k \<in> set (drop i xs)" using \<open>k < length xs\<close>
    by (auto simp: in_set_conv_nth intro!: exI [of _ "k - i"])
  ultimately show "k < i \<or> Q (xs ! k)" by blast
next
  fix c assume *: "\<forall>k < length xs. k < i \<or> Q (xs ! k)" "c \<in> set (drop i xs)"
  then obtain j where "j < length xs - i" "c = xs ! (i + j)" by (auto simp: in_set_conv_nth)
  with *(1) [rule_format, of "i + j"] show "Q c" by simp
qed



section \<open>Attributes\<close>

definition attrs_ok :: "mxml_node \<Rightarrow> bool" where
  "attrs_ok t \<longleftrightarrow> n_attributes (info t) = length (attributes (info t)) \<and> None \<notin> set (attributes (info t))"

lemma attribute_index_ok:
  assumes "n \<le> length arr" and "None \<notin> set arr" and "i \<le> n"
  shows "\<exists>j. attribute_index arr n name i = Inr j \<and> i \<le> j \<and> j \<le> n \<and>
    (j < n \<longrightarrow> (\<exists>v. arr ! j = Some (name, v))) \<and> (\<forall>k. i \<le> k \<and> k < j \<longrightarrow> fst (the (arr ! k)) \<noteq> name)"
  using assms
proof (induction arr n name i rule: attribute_index.induct)
  case (1 arr n name i)
  show ?case
  proof (cases "i < n")
    case False
    then have "attribute_index arr n name i = Inr n"
      by (simp add: attribute_index.simps [of arr n name i])
    with False "1.prems" show ?thesis by auto
  next
    case True
    with "1.prems" have i: "\<not> length arr \<le> i" "arr ! i \<noteq> None"
      by (auto simp: in_set_conv_nth)
    then obtain a v where av: "arr ! i = Some (a, v)" by auto
    show ?thesis
    proof (cases "a = name")
      case True
      with av i \<open>i < n\<close> show ?thesis by (auto simp: attribute_index.simps [of arr n name i])
    next
      case False
      obtain j where j: "attribute_index arr n name (i + 1) = Inr j" "i + 1 \<le> j" "j \<le> n"
        "j < n \<longrightarrow> (\<exists>v. arr ! j = Some (name, v))"
        "\<forall>k. i + 1 \<le> k \<and> k < j \<longrightarrow> fst (the (arr ! k)) \<noteq> name"
        using "1.IH" [OF True i(1) av refl False] "1.prems" True by auto
      have "attribute_index arr n name i = Inr j"
        using True i av False j(1) by (simp add: attribute_index.simps [of arr n name i])
      moreover have "fst (the (arr ! k)) \<noteq> name" if "i \<le> k" "k < j" for k
        using that j(5) av False by (cases "k = i") auto
      ultimately show ?thesis using j by (intro exI [of _ j]) auto
    qed
  qed
qed

text \<open>The stored pairs, and that a lookup is the lookup in that association list.\<close>

definition attr_pairs :: "mxml_node \<Rightarrow> (string \<times> string) list" where
  "attr_pairs t = map the (attributes (info t))"

lemma map_of_first:
  "j < length xs \<Longrightarrow> fst (xs ! j) = name \<Longrightarrow> (\<forall>k < j. fst (xs ! k) \<noteq> name) \<Longrightarrow>
   map_of xs name = Some (snd (xs ! j))"
proof (induction xs arbitrary: j)
  case Nil
  then show ?case by simp
next
  case (Cons x xs)
  show ?case
  proof (cases j)
    case 0
    with Cons.prems show ?thesis by (cases x) auto
  next
    case (Suc m)
    with Cons.prems have "fst x \<noteq> name" by auto
    with Suc Cons.prems Cons.IH [of m] show ?thesis by (cases x) force
  qed
qed

lemma get_attribute_map_of:
  assumes "attrs_ok t"
  shows "mxml_get_attribute t name = Inr (map_of (attr_pairs t) name)"
proof -
  let ?arr = "attributes (info t)" and ?n = "n_attributes (info t)"
  from assms have n: "?n = length ?arr" "None \<notin> set ?arr" by (simp_all add: attrs_ok_def)
  obtain j where j: "find_attribute t name = Inr j" "j \<le> ?n"
    "j < ?n \<longrightarrow> (\<exists>v. ?arr ! j = Some (name, v))" "\<forall>k < j. fst (the (?arr ! k)) \<noteq> name"
    using attribute_index_ok [of ?n ?arr 0 name] n by (auto simp: find_attribute_def)
  show ?thesis
  proof (cases "j < ?n")
    case True
    with j obtain v where v: "?arr ! j = Some (name, v)" by auto
    have "map_of (attr_pairs t) name = Some (snd (attr_pairs t ! j))"
      by (rule map_of_first) (use True n v j(4) in \<open>auto simp: attr_pairs_def\<close>)
    with True v n j(1) show ?thesis by (simp add: mxml_get_attribute_def attr_pairs_def)
  next
    case False
    with j have "j = ?n" by simp
    moreover have "map_of (attr_pairs t) name = None"
      using j(4) \<open>j = ?n\<close> n by (auto simp: map_of_eq_None_iff attr_pairs_def in_set_conv_nth)
    ultimately show ?thesis using j(1) by (simp add: mxml_get_attribute_def)
  qed
qed

lemma add_attribute_pairs:
  assumes "attrs_ok t"
  shows "attrs_ok (mxml_add_attribute t a v)"
    and "attr_pairs (mxml_add_attribute t a v) = attr_pairs t @ [(strlcpy_str MXML_NAME_LENGTH a, v)]"
  using assms by (auto simp: attrs_ok_def mxml_add_attribute_def Let_def attr_pairs_def
      list_update_append take_Cons')

definition short_name :: "string \<Rightarrow> bool" where
  "short_name a \<longleftrightarrow> length a < MXML_NAME_LENGTH"

interpretation attr: keyed_store mxml_add_attribute mxml_get_attribute attrs_ok short_name
proof
  show "attrs_ok (mxml_add_attribute t a v)" if "attrs_ok t" for t a v
    using that by (rule add_attribute_pairs)
  show "\<exists>r. mxml_get_attribute t a = Inr r" if "attrs_ok t" for t a
    using that by (simp add: get_attribute_map_of)
  show "mxml_get_attribute (mxml_add_attribute t a v) b =
      (if mxml_get_attribute t b = Inr None \<and> b = a then Inr (Some v) else mxml_get_attribute t b)"
    if "attrs_ok t" "short_name a" for t a v b
    using that by (auto simp: get_attribute_map_of add_attribute_pairs strlcpy_str_id short_name_def
        map_add_def split: option.splits)
qed

text \<open>C27: After any number of attributes with names of fewer than 64 characters has been added
  to a node, reading an attribute gives the value it had before, or otherwise the value of
  the first added pair with that name; no lookup leaves the arrays.\<close>

theorem add_get_attributes:
  assumes "attrs_ok t" and "list_all (\<lambda>(a, v). short_name a) avs"
  shows "mxml_get_attribute (fold (\<lambda>(a, v) t. mxml_add_attribute t a v) avs t) name =
    (if mxml_get_attribute t name = Inr None then Inr (map_of avs name) else mxml_get_attribute t name)"
  using attr.get_puts [OF assms] by blast

theorem add_get_attributes_witness:
  "mxml_get_attribute (fold (\<lambda>(a, v) t. mxml_add_attribute t a v) [(''x'', ''1''), (''y'', ''2''), (''x'', ''3'')]
      mxml_create_root_node) ''x'' = Inr (Some ''1'')"
proof -
  have "attrs_ok mxml_create_root_node"
    by (simp add: attrs_ok_def mxml_create_root_node_def empty_info_def)
  moreover have "mxml_get_attribute mxml_create_root_node ''x'' = Inr None"
    using \<open>attrs_ok mxml_create_root_node\<close>
    by (simp add: get_attribute_map_of attr_pairs_def mxml_create_root_node_def empty_info_def)
  ultimately show ?thesis
    using add_get_attributes [of mxml_create_root_node "[(''x'', ''1''), (''y'', ''2''), (''x'', ''3'')]" "''x''"]
    by (simp add: short_name_def MXML_NAME_LENGTH_def)
qed


text \<open>A lookup of an absent name runs over all \<open>n\<close> slots the counter announces.\<close>

lemma attribute_index_beyond:
  assumes "length arr < n" and "\<forall>k < length arr. \<exists>a v. arr ! k = Some (a, v) \<and> a \<noteq> name" and "i \<le> length arr"
  shows "attribute_index arr n name i = Inl Out_of_bounds"
  using assms
proof (induction arr n name i rule: attribute_index.induct)
  case (1 arr n name i)
  show ?case
  proof (cases "i = length arr")
    case True
    with "1.prems" show ?thesis by (simp add: attribute_index.simps [of arr n name "length arr"])
  next
    case False
    with "1.prems"(3) have "i < length arr" by simp
    then obtain a v where av: "arr ! i = Some (a, v)" "a \<noteq> name" using "1.prems"(2) by blast
    with False "1.prems" "1.IH" [of "(a, v)" a v] show ?thesis
      by (simp add: attribute_index.simps [of arr n name i])
  qed
qed

lemma find_attribute_present:
  assumes "attrs_ok t" and "map_of (attr_pairs t) name \<noteq> None"
  obtains j where "find_attribute t name = Inr j" "j < length (attributes (info t))"
    "fst (attr_pairs t ! j) = name"
proof -
  let ?arr = "attributes (info t)" and ?n = "n_attributes (info t)"
  from assms have n: "?n = length ?arr" "None \<notin> set ?arr" by (simp_all add: attrs_ok_def)
  obtain j where j: "find_attribute t name = Inr j" "j \<le> ?n"
    "j < ?n \<longrightarrow> (\<exists>v. ?arr ! j = Some (name, v))" "\<forall>k < j. fst (the (?arr ! k)) \<noteq> name"
    using attribute_index_ok [of ?n ?arr 0 name] n by (auto simp: find_attribute_def)
  have "j \<noteq> ?n"
    using j(4) assms(2) n by (auto simp: map_of_eq_None_iff attr_pairs_def in_set_conv_nth)
  with j n show thesis by (intro that [of j]) (auto simp: attr_pairs_def)
qed

text \<open>Deleting an attribute that a node has removes its entry from the arrays, but the
  counter keeps its old value: every later lookup of a name that the node does not have
  reads behind the end of the array.\<close>

theorem delete_attribute_counter:
  assumes "attrs_ok t" and "mxml_get_attribute t name = Inr (Some v)"
  shows "\<exists>t'. mxml_delete_attribute t name = Inr (True, t') \<and>
    n_attributes (info t') = Suc (length (attributes (info t'))) \<and>
    (\<forall>q. q \<notin> fst ` set (attr_pairs t) \<longrightarrow> mxml_get_attribute t' q = Inl Out_of_bounds)"
proof -
  let ?arr = "attributes (info t)" and ?n = "n_attributes (info t)"
  from assms(1) have n: "?n = length ?arr" "None \<notin> set ?arr" by (simp_all add: attrs_ok_def)
  from assms have "map_of (attr_pairs t) name \<noteq> None" by (simp add: get_attribute_map_of)
  with assms(1) obtain j where j: "find_attribute t name = Inr j" "j < length ?arr"
    by (rule find_attribute_present)
  define arr' where "arr' = take j ?arr @ drop (j + 1) ?arr"
  define t' where "t' = map_info (\<lambda>f. f\<lparr>attributes := take j (attributes f) @ drop (j + 1) (attributes f)\<rparr>) t"
  have t': "mxml_delete_attribute t name = Inr (True, t')"
    using j n by (simp add: mxml_delete_attribute_def t'_def)
  have sel: "attributes (info t') = arr'" "n_attributes (info t') = ?n"
    by (simp_all add: t'_def arr'_def)
  have len: "Suc (length arr') = ?n" using j n by (simp add: arr'_def)
  have "mxml_get_attribute t' q = Inl Out_of_bounds" if "q \<notin> fst ` set (attr_pairs t)" for q
  proof -
    have "\<exists>a v. x = Some (a, v) \<and> a \<noteq> q" if "x \<in> set arr'" for x
    proof -
      have "x \<in> set ?arr" using that by (auto simp: arr'_def dest: in_set_takeD in_set_dropD)
      with n(2) obtain a v where "x = Some (a, v)" "(a, v) \<in> set (attr_pairs t)"
        by (cases x) (force simp: attr_pairs_def)+
      with \<open>q \<notin> fst ` set (attr_pairs t)\<close> show ?thesis by force
    qed
    then have "attribute_index arr' ?n q 0 = Inl Out_of_bounds"
      using len by (intro attribute_index_beyond) (auto dest: nth_mem)
    then show ?thesis by (simp add: mxml_get_attribute_def find_attribute_def sel)
  qed
  with t' sel len show ?thesis by auto
qed

definition demo_attr :: mxml_node where
  "demo_attr = mxml_add_attribute mxml_create_root_node ''x'' ''1''"

lemma demo_attr_ok: "attrs_ok demo_attr" "attr_pairs demo_attr = [(''x'', ''1'')]"
proof -
  have "attrs_ok mxml_create_root_node" "attr_pairs mxml_create_root_node = []"
    by (simp_all add: attrs_ok_def attr_pairs_def mxml_create_root_node_def empty_info_def)
  then show "attrs_ok demo_attr" "attr_pairs demo_attr = [(''x'', ''1'')]"
    by (simp_all add: demo_attr_def add_attribute_pairs strlcpy_str_id MXML_NAME_LENGTH_def)
qed

theorem delete_attribute_counter_witness:
  "\<exists>t'. mxml_delete_attribute demo_attr ''x'' = Inr (True, t') \<and>
     mxml_get_attribute t' ''y'' = Inl Out_of_bounds"
  using delete_attribute_counter [OF demo_attr_ok(1), of "''x''" "''1''"]
  by (auto simp: get_attribute_map_of demo_attr_ok)

section \<open>Clones\<close>

fun no_attributes :: "mxml_node \<Rightarrow> bool" where
  "no_attributes (MXML_NODE i cs) \<longleftrightarrow> n_attributes i = 0 \<and> attributes i = [] \<and> list_all no_attributes cs"

lemma clone_info_none:
  "n_attributes i = 0 \<Longrightarrow> attributes i = [] \<Longrightarrow>
   clone_info i = Inr (MXML_NODE (i\<lparr>attributes := [], child_block := 0\<rparr>) [])"
  by (simp add: clone_info_def)

lemma add_tree_ok:
  assumes "parents_ok a c" and "parents_ok ta t"
  obtains c' where "mxml_add_tree nb a c t = Inr c'" "parents_ok a c'"
    "erase c' = XT (nname (info c)) (node_type (info c)) (nvalue (info c))
       (n_attributes (info c), attributes (info c)) (map erase (child c) @ [erase t])"
    "\<exists>b. info c' = (info c)\<lparr>child_block := b\<rparr>"
proof -
  let ?c = "MXML_NODE ((info c)\<lparr>child_block := nb\<rparr>) (fix_all nb (child c @ [set_parent a t]))"
  have "\<forall>x \<in> set (child c). inner_ok x \<and> parent (info x) = Some a"
    using assms(1) by (auto simp: parents_ok_iff [of a c] parents_ok_inner [of _ "child c ! _"]
        n_children_def in_set_conv_nth)
  moreover have "inner_ok (set_parent a t)"
    using assms(2) parents_ok_set_parent [of ta a t] by (simp add: parents_ok_inner)
  ultimately have "parents_ok a ?c" by (intro fix_all_ok) auto
  moreover have "mxml_add_tree nb a c t = Inr ?c"
    by (simp add: mxml_add_tree_def mxml_add_tree_at_def n_children_def Let_def)
  ultimately show thesis by (intro that [of ?c]) auto
qed

lemma clone_tree_erase:
  "no_attributes t \<Longrightarrow> \<exists>t' k'. mxml_clone_tree k t = Inr (t', k') \<and> k < k' \<and> erase t' = erase t \<and>
     parents_ok (k, 0) t'"
  "list_all no_attributes ts \<Longrightarrow> parents_ok a c \<Longrightarrow>
     \<exists>c' k'. clone_children a c k ts = Inr (c', k') \<and> k \<le> k' \<and> parents_ok a c' \<and>
       erase c' = XT (nname (info c)) (node_type (info c)) (nvalue (info c))
         (n_attributes (info c), attributes (info c)) (map erase (child c) @ map erase ts)"
proof (induction k t and a c k ts rule: mxml_clone_tree_clone_children.induct)
  case (1 k i cs)
  let ?c = "MXML_NODE (i\<lparr>attributes := [], child_block := 0\<rparr>) []"
  from "1.prems" have i: "clone_info i = Inr ?c" by (simp add: clone_info_none)
  have "\<exists>c' k'. clone_children (k, 0) ?c (Suc k) cs = Inr (c', k') \<and> Suc k \<le> k' \<and> parents_ok (k, 0) c' \<and>
       erase c' = XT (nname (info ?c)) (node_type (info ?c)) (nvalue (info ?c))
         (n_attributes (info ?c), attributes (info ?c)) (map erase (child ?c) @ map erase cs)"
    using "1.IH" [OF i] "1.prems" by (simp add: parents_ok_leaf)
  with i "1.prems" show ?case by auto
next
  case (2 a c k)
  then show ?case by (simp add: erase_simp)
next
  case (3 a c k t ts)
  from "3.prems" "3.IH"(1) obtain t' k1 where t': "mxml_clone_tree k t = Inr (t', k1)" "k < k1"
    "erase t' = erase t" "parents_ok (k, 0) t'" by auto
  obtain c' where c': "mxml_add_tree k1 a c t' = Inr c'" "parents_ok a c'"
    "erase c' = XT (nname (info c)) (node_type (info c)) (nvalue (info c))
       (n_attributes (info c), attributes (info c)) (map erase (child c) @ [erase t'])"
    using add_tree_ok [OF "3.prems"(2) t'(4)] by blast
  from "3.IH"(2) [OF t'(1) refl c'(1)] "3.prems" c'(2) obtain c'' k'' where
    "clone_children a c' (Suc k1) ts = Inr (c'', k'')" "Suc k1 \<le> k''" "parents_ok a c''"
    "erase c'' = XT (nname (info c')) (node_type (info c')) (nvalue (info c'))
         (n_attributes (info c'), attributes (info c')) (map erase (child c') @ map erase ts)"
    by auto
  with t' c' show ?case by (auto simp: erase_simp [of c'])
qed

text \<open>Cloning a tree without attributes always succeeds and gives a tree with the same
  names, types, values and structure whose parent pointers are all right, the clone lying
  at a new place.\<close>

theorem clone_tree_correct:
  assumes "no_attributes t"
  shows "\<exists>t' k'. mxml_clone_tree k t = Inr (t', k') \<and> erase t' = erase t \<and> parents_ok (k, 0) t'"
  using clone_tree_erase(1) [OF assms] by blast

theorem clone_tree_correct_witness:
  "\<exists>t' k'. mxml_clone_tree 9 demo_tree = Inr (t', k') \<and> erase t' = erase demo_tree \<and> parents_ok (9, 0) t'"
  by (rule clone_tree_correct)
    (simp add: demo_tree_def demo_leaf_def new_node_def empty_info_def)

lemma clone_children_info:
  "mxml_clone_tree k t = Inr r \<Longrightarrow> True"
  "clone_children a c k ts = Inr (c', k') \<Longrightarrow> n_attributes (info c') = n_attributes (info c) \<and>
     attributes (info c') = attributes (info c)"
proof (induction k t and a c k ts arbitrary: r and c' k' rule: mxml_clone_tree_clone_children.induct)
  case (3 a c k t ts)
  from "3.prems" obtain t' k1 c1 where *: "mxml_clone_tree k t = Inr (t', k1)"
    "mxml_add_tree k1 a c t' = Inr c1" "clone_children a c1 (Suc k1) ts = Inr (c', k')"
    by (auto split: sum.splits)
  have "\<exists>b. info c1 = (info c)\<lparr>child_block := b\<rparr>"
    using *(2) by (auto simp: mxml_add_tree_def mxml_add_tree_at_def Let_def split: if_splits)
  with "3.IH"(2) [OF *(1) refl *(2) *(3)] show ?case by auto
qed auto

lemma clone_attributes_start:
  "clone_attributes t as = Inr c \<Longrightarrow> as \<noteq> [] \<Longrightarrow> attributes (info t) = [] \<Longrightarrow> 0 < n_attributes (info t) \<Longrightarrow>
   0 < n_attributes (info c) \<and> attributes (info c) \<noteq> [] \<and> attributes (info c) ! 0 = None"
proof -
  have *: "clone_attributes t as = Inr c \<Longrightarrow> 0 < n_attributes (info t) \<Longrightarrow> attributes (info t) \<noteq> [] \<Longrightarrow>
      attributes (info t) ! 0 = None \<Longrightarrow>
      0 < n_attributes (info c) \<and> attributes (info c) \<noteq> [] \<and> attributes (info c) ! 0 = None" for t as
    by (induction t as rule: clone_attributes.induct)
      (auto simp: mxml_add_attribute_def Let_def nth_append nth_list_update)
  assume t: "clone_attributes t as = Inr c" "as \<noteq> []" "attributes (info t) = []" "0 < n_attributes (info t)"
  then obtain a v as' where as: "as = Some (a, v) # as'" by (auto elim: clone_attributes.elims)
  let ?t = "mxml_add_attribute t a v"
  have "0 < n_attributes (info ?t)" "attributes (info ?t) \<noteq> []" "attributes (info ?t) ! 0 = None"
    using t(3,4) by (auto simp: mxml_add_attribute_def Let_def nth_list_update split: nat.splits)
  with t(1) as * [of ?t as'] show ?thesis by simp
qed

text \<open>The clone of a node that has attributes cannot be asked for any attribute: its
  counter is doubled and the first slots of its arrays were never written, so every lookup
  reads uninitialised memory.\<close>

theorem clone_attributes_lost:
  assumes "attrs_ok t" and "attributes (info t) \<noteq> []" and "mxml_clone_tree k t = Inr (t', k')"
  shows "mxml_get_attribute t' name = Inl Uninitialised"
proof -
  obtain i cs where t: "t = MXML_NODE i cs" by (cases t)
  from assms(3) t obtain c where c: "clone_info i = Inr c" "clone_children (k, 0) c (Suc k) cs = Inr (t', k')"
    by (auto split: sum.splits)
  have "0 < n_attributes (info c) \<and> attributes (info c) \<noteq> [] \<and> attributes (info c) ! 0 = None"
    using c(1) assms(1,2) t
    by (intro clone_attributes_start [of "MXML_NODE (i\<lparr>attributes := [], child_block := 0\<rparr>) []"
          "take (n_attributes i) (attributes i)"])
      (auto simp: clone_info_def attrs_ok_def split: if_splits)
  with clone_children_info(2) [OF c(2)] show ?thesis
    by (simp add: mxml_get_attribute_def find_attribute_def attribute_index.simps [of _ _ _ 0])
qed

theorem clone_attributes_lost_witness:
  "\<exists>t' k'. mxml_clone_tree 9 demo_attr = Inr (t', k') \<and> mxml_get_attribute t' ''x'' = Inl Uninitialised"
proof -
  have "\<exists>r. mxml_clone_tree 9 demo_attr = Inr r" and ne: "attributes (info demo_attr) \<noteq> []"
    by (simp_all add: demo_attr_def mxml_create_root_node_def empty_info_def mxml_add_attribute_def
        map_info_def clone_info_def)
  then obtain t' k' where "mxml_clone_tree 9 demo_attr = Inr (t', k')" by auto
  with clone_attributes_lost [OF demo_attr_ok(1) ne this] show ?thesis by blast
qed

end
