(* ===== verification/Mxml_Parser.thy ===== *)
theory Mxml_Parser
  imports Mxml_Codec Mxml_Tree_Props
begin

text \<open>
  The XML parser of \<^verbatim>\<open>src/mxml/mxml.c\<close> (\<open>mxml_parse_buffer\<close> and \<open>read_error\<close>).

  The parser's local variables are the record \<open>parser\<close>: the rest of the buffer at \<^verbatim>\<open>p\<close>,
  the line number, the tree under \<^verbatim>\<open>root\<close> and the node \<^verbatim>\<open>ptree\<close> that is open, as the path
  of child indices that leads to it (\<open>None\<close> once it is NULL).  The root node lies at
  address \<open>(0, 0)\<close>.  \<open>al n\<close> is the block that the \<open>n\<close>-th allocation of a child array
  returns, so the theorems hold for every allocator.  Each branch of the big loop is a
  definition; the loop itself, \<open>parse_loop\<close>, is shown to terminate on every buffer.
\<close>

section \<open>Errors\<close>

datatype parse_error =
    Fault c_fault
  | Read_error nat string

definition lift_fault :: "'a res \<Rightarrow> parse_error + 'a" where
  "lift_fault r = (case r of Inl e \<Rightarrow> Inl (Fault e) | Inr x \<Rightarrow> Inr x)"

lemma lift_fault_simps [simp]: "lift_fault (Inl e) = Inl (Fault e)" "lift_fault (Inr x) = Inr x"
  by (simp_all add: lift_fault_def)

text \<open>
  The text that \<^verbatim>\<open>read_error\<close> leaves in \<^verbatim>\<open>error\<close>; both \<^verbatim>\<open>sprintf\<close> calls write to
  \<^verbatim>\<open>str[1000]\<close>.
\<close>

definition read_error_head :: "string option \<Rightarrow> nat \<Rightarrow> string" where
  "read_error_head file_name line_number =
     (case file_name of
        Some f \<Rightarrow> if f \<noteq> [] then ''XML read error in file '' @ [DQUOTE] @ f @ [DQUOTE] @ '', line '' @
            show_nat line_number @ '': ''
          else ''XML read error, line '' @ show_nat line_number @ '': ''
      | None \<Rightarrow> ''XML read error, line '' @ show_nat line_number @ '': '')"

definition read_error :: "string option \<Rightarrow> nat \<Rightarrow> nat \<Rightarrow> string \<Rightarrow> string res" where
  "read_error file_name line_number error_size msg =
     (let h = read_error_head file_name line_number in
      if 1000 \<le> length h \<or> 1000 \<le> length msg then Inl Buffer_overflow
      else Inr (strlcat_str error_size (strlcpy_str error_size h) msg))"

section \<open>Positions in the tree\<close>

fun node_at :: "mxml_node \<Rightarrow> nat list \<Rightarrow> mxml_node" where
  "node_at t [] = t"
| "node_at t (k # ks) = node_at (child t ! k) ks"

fun update_at :: "nat list \<Rightarrow> (mxml_node \<Rightarrow> mxml_node) \<Rightarrow> mxml_node \<Rightarrow> mxml_node" where
  "update_at [] f t = f t"
| "update_at (k # ks) f t = MXML_NODE (info t) ((child t)[k := update_at ks f (child t ! k)])"

fun addr_at :: "addr \<Rightarrow> mxml_node \<Rightarrow> nat list \<Rightarrow> addr" where
  "addr_at a t [] = a"
| "addr_at a t (k # ks) = addr_at (child_block (info t), k) (child t ! k) ks"

fun valid_path :: "mxml_node \<Rightarrow> nat list \<Rightarrow> bool" where
  "valid_path t [] = True"
| "valid_path t (k # ks) \<longleftrightarrow> k < n_children t \<and> valid_path (child t ! k) ks"

section \<open>Scanning\<close>

record parser =
  pos :: string
  line_number :: nat
  root :: mxml_node
  ptree :: "nat list option"
  n_alloc :: nat

text \<open>
  \<^verbatim>\<open>while (*p && isspace((unsigned char)*p)) ...\<close> with the check for the end of the buffer
  that follows it everywhere.
\<close>

definition skip_ws :: "string \<Rightarrow> nat \<Rightarrow> parse_error + string \<times> nat" where
  "skip_ws p ln =
     (let q = dropWhile is_space p; ln' = ln + count_nl (takeWhile is_space p) in
      if q = [] then Inl (Read_error ln' ''Unexpected end of file'') else Inr (q, ln'))"

text \<open>The part of \<open>p\<close> before its suffix \<open>q\<close>.\<close>

definition before :: "string \<Rightarrow> string \<Rightarrow> string" where
  "before p q = take (length p - length q) p"

text \<open>
  \<open>adv\<close>: the scan moves from one position to a later one and counts at most the newlines
  in between.
\<close>

definition adv :: "string \<times> nat \<Rightarrow> string \<times> nat \<Rightarrow> bool" where
  "adv a b \<longleftrightarrow> (\<exists>r. fst a = r @ fst b \<and> snd a \<le> snd b \<and> snd b \<le> snd a + count_nl r)"

lemma adv_refl [simp, intro]: "adv a a"
  by (simp add: adv_def)

lemma adv_trans [trans]:
  assumes "adv a b" and "adv b c" shows "adv a c"
proof -
  from assms obtain r r' where "fst a = r @ fst b" "snd a \<le> snd b" "snd b \<le> snd a + count_nl r"
    "fst b = r' @ fst c" "snd b \<le> snd c" "snd c \<le> snd b + count_nl r'"
    by (auto simp: adv_def)
  then show ?thesis unfolding adv_def by (intro exI [of _ "r @ r'"]) auto
qed

lemma adv_length: "adv (p, ln) (q, ln') \<Longrightarrow> length q \<le> length p"
  by (auto simp: adv_def)

lemma adv_tl [simp, intro]: "adv (p, ln) (tl p, ln)"
  by (cases p) (auto simp: adv_def)

lemma adv_drop [simp, intro]: "adv (p, ln) (drop n p, ln)"
  unfolding adv_def by (metis append_take_drop_id fst_conv le_add1 order_refl snd_conv)

lemma adv_dropWhile: "adv (p, ln) (dropWhile P p, ln + count_nl (takeWhile P p))"
  unfolding adv_def by (metis fst_conv le_add1 order_refl snd_conv takeWhile_dropWhile_id)

lemma adv_dropWhile_same: "adv (p, ln) (dropWhile P p, ln)"
  unfolding adv_def by (metis fst_conv le_add1 order_refl snd_conv takeWhile_dropWhile_id)

lemma c_strstr_split: "c_strstr lit p = Some q \<Longrightarrow> p = before p q @ q"
proof (induction p)
  case Nil
  then show ?case by (simp add: before_def split: if_splits)
next
  case (Cons x p)
  show ?case
  proof (cases "starts_with lit (x # p)")
    case True
    with Cons.prems show ?thesis by (simp add: before_def)
  next
    case False
    with Cons have "p = before p q @ q" "length q \<le> length p" by (auto dest: c_strstr_Some)
    then show ?thesis by (simp add: before_def Suc_diff_le)
  qed
qed

lemma adv_strstr: "c_strstr lit p = Some q \<Longrightarrow> adv (p, ln) (q, ln + count_nl (before p q))"
  unfolding adv_def using c_strstr_split by fastforce

text \<open>
  What every scanning function keeps: on success it has moved on to the position \<open>sel x\<close>; an
  error names a line of the scanned part and its message is short; the only fault is an
  overflow of \<^verbatim>\<open>node_name\<close> by 256 or more name characters in a row.
\<close>

definition in_node_name :: "char \<Rightarrow> bool" where
  "in_node_name c \<longleftrightarrow> \<not> is_space c \<and> c \<noteq> CHR ''/'' \<and> c \<noteq> CHR ''>'' \<and> c \<noteq> CHR ''<''"

definition long_run :: "string \<Rightarrow> bool" where
  "long_run p \<longleftrightarrow> (\<exists>x b y. p = x @ b @ y \<and> list_all in_node_name b \<and> 256 \<le> length b)"

definition scan_ok :: "string \<times> nat \<Rightarrow> ('a \<Rightarrow> string \<times> nat) \<Rightarrow> parse_error + 'a \<Rightarrow> bool" where
  "scan_ok a sel r =
     (case r of
        Inr x \<Rightarrow> adv a (sel x)
      | Inl (Read_error l m) \<Rightarrow> snd a \<le> l \<and> l \<le> snd a + count_nl (fst a) \<and> length m < 500
      | Inl (Fault e) \<Rightarrow> e = Buffer_overflow \<and> long_run (fst a))"

lemma scan_ok_simps [simp]:
  "scan_ok a sel (Inr x) = adv a (sel x)"
  "scan_ok a sel (Inl (Read_error l m)) \<longleftrightarrow>
     snd a \<le> l \<and> l \<le> snd a + count_nl (fst a) \<and> length m < 500"
  "scan_ok a sel (Inl (Fault e)) \<longleftrightarrow> e = Buffer_overflow \<and> long_run (fst a)"
  by (simp_all add: scan_ok_def)

lemma long_run_prefix: "long_run q \<Longrightarrow> long_run (r @ q)"
  unfolding long_run_def by (metis append.assoc)

lemma scan_ok_adv: "adv a b \<Longrightarrow> scan_ok b sel r \<Longrightarrow> scan_ok a sel r"
  by (auto simp: scan_ok_def adv_def long_run_prefix split: sum.splits parse_error.splits elim: order_trans)

lemma scan_ok_bind:
  assumes "scan_ok a sel r" and "\<And>x. r = Inr x \<Longrightarrow> scan_ok (sel x) sel' (f x)"
  shows "scan_ok a sel' (bind_res r f)"
proof (cases r)
  case (Inl e)
  with assms(1) show ?thesis by (simp add: scan_ok_def split: parse_error.splits)
next
  case (Inr x)
  with assms scan_ok_adv [of a "sel x"] show ?thesis by simp
qed

lemma scan_ok_skip_ws [simp, intro]: "scan_ok (p, ln) id (skip_ws p ln)"
proof (cases "dropWhile is_space p = []")
  case True
  then have "count_nl (takeWhile is_space p) = count_nl p"
    by (metis takeWhile_dropWhile_id append_Nil2)
  with True show ?thesis by (simp add: skip_ws_def)
next
  case False
  with adv_dropWhile [of p ln is_space] show ?thesis
    by (simp add: skip_ws_def Let_def del: dropWhile_eq_Nil_conv)
qed

text \<open>A new child at the end of the children of \<^verbatim>\<open>ptree\<close>; the path of \<^verbatim>\<open>ptree\<close> and \<^verbatim>\<open>pnew\<close>.\<close>

definition add_child ::
  "(nat \<Rightarrow> nat) \<Rightarrow> parser \<Rightarrow> nat list \<Rightarrow> node_kind \<Rightarrow> string \<Rightarrow> parse_error + mxml_node \<times> mxml_node" where
  "add_child al st path kind name =
     (let par = node_at (root st) path in
      bind_res (lift_fault (mxml_add_special_node (al (n_alloc st)) (addr_at (0, 0) (root st) path)
                  par kind name None)) (\<lambda>par'.
        Inr (par', child par' ! n_children par)))"

definition store_child :: "parser \<Rightarrow> nat list \<Rightarrow> mxml_node \<Rightarrow> mxml_node \<Rightarrow> parser" where
  "store_child st path par' pnew =
     st\<lparr>root := update_at path (\<lambda>_. MXML_NODE (info par') ((child par')[n_children par' - 1 := pnew])) (root st),
        n_alloc := n_alloc st + 1\<rparr>"

definition set_text :: "string \<Rightarrow> nat \<Rightarrow> nat \<Rightarrow> mxml_node \<Rightarrow> mxml_node" where
  "set_text val l1 l2 = map_info (\<lambda>i. i\<lparr>nvalue := Some (mxml_decode val),
     line_number_start := l1, line_number_end := l2\<rparr>)"

section \<open>Comments, processing instructions and DOCTYPE\<close>

definition parse_comment :: "(nat \<Rightarrow> nat) \<Rightarrow> parser \<Rightarrow> parse_error + parser" where
  "parse_comment al st =
     (case ptree st of
        None \<Rightarrow> Inl (Fault Null_pointer)
      | Some path \<Rightarrow>
          bind_res (add_child al st path COMMENT_NODE ''Comment'') (\<lambda>(par', pnew).
            let p = drop 3 (pos st); pv = dropWhile (\<lambda>c. c = CHR '' '') p; ln = line_number st in
            (case c_strstr ''-->'' p of
               None \<Rightarrow> Inl (Read_error ln ''Unterminated comment'')
             | Some q \<Rightarrow>
                 let ln' = ln + count_nl (before p q) in
                 Inr ((store_child st path par' (set_text (before pv q) ln ln' pnew))
                        \<lparr>pos := drop 3 q, line_number := ln'\<rparr>))))"

definition parse_pi :: "(nat \<Rightarrow> nat) \<Rightarrow> parser \<Rightarrow> parse_error + parser" where
  "parse_pi al st =
     (case ptree st of
        None \<Rightarrow> Inl (Fault Null_pointer)
      | Some path \<Rightarrow>
          bind_res (add_child al st path PROCESSING_INSTRUCTION_NODE ''PI'') (\<lambda>(par', pnew).
            let p = drop 1 (pos st); ln = line_number st in
            (case c_strstr ''?>'' p of
               None \<Rightarrow> Inl (Read_error ln ''Unterminated ?...? element'')
             | Some q \<Rightarrow>
                 let ln' = ln + count_nl (before p q) in
                 Inr ((store_child st path par' (set_text (before p q) ln ln' pnew))
                        \<lparr>pos := drop 2 q, line_number := ln'\<rparr>))))"

fun skip_doctype :: "nat \<Rightarrow> string \<Rightarrow> nat \<Rightarrow> string \<times> nat" where
  "skip_doctype j [] ln = ([], ln)"
| "skip_doctype j (c # p) ln =
     (if c \<noteq> CHR ''>'' \<or> 0 < j then
        (if c = LF then skip_doctype j p (ln + 1)
         else if c = CHR ''<'' then skip_doctype (j + 1) p ln
         else if c = CHR ''>'' then skip_doctype (j - 1) p ln
         else skip_doctype j p ln)
      else (c # p, ln))"

definition parse_doctype :: "parser \<Rightarrow> parse_error + parser" where
  "parse_doctype st =
     (let p = drop 8 (pos st) in
      if c_strstr ''>'' p = None then Inl (Read_error (line_number st) ''Unterminated !DOCTYPE element'')
      else case skip_doctype 0 p (line_number st) of
        (q, ln) \<Rightarrow>
          if q = [] then Inl (Read_error ln ''Unexpected end of file'')
          else Inr (st\<lparr>pos := tl q, line_number := ln\<rparr>))"

section \<open>Elements\<close>

text \<open>The node name is copied to \<^verbatim>\<open>node_name[256]\<close> without a check.\<close>

definition parse_node_name :: "string \<Rightarrow> nat \<Rightarrow> parse_error + string \<times> string" where
  "parse_node_name p ln =
     (let name = takeWhile in_node_name p; q = dropWhile in_node_name p in
      if 256 \<le> length name then Inl (Fault Buffer_overflow)
      else if q = [] then Inl (Read_error ln ''Unexpected end of file'')
      else if peek q = CHR ''<'' then
        Inl (Read_error ln (''Unexpected '' @ [SQUOTE] @ ''<'' @ [SQUOTE] @ '' inside element '' @
               [DQUOTE] @ name @ [DQUOTE]))
      else Inr (mxml_decode name, q))"

definition parse_end_tag :: "parser \<Rightarrow> string \<Rightarrow> parse_error + parser" where
  "parse_end_tag st name =
     (case ptree st of
        None \<Rightarrow> Inl (Read_error (line_number st) (''Found unexpected </'' @ name @ ''>''))
      | Some path \<Rightarrow>
          let t = node_at (root st) path in
          if nname (info t) \<noteq> name then
            Inl (Read_error (line_number st)
                   (''Found </'' @ name @ ''>, expected </'' @ nname (info t) @ ''>''))
          else
            let root' = update_at path (map_info (\<lambda>i. i\<lparr>line_number_end := line_number st\<rparr>)) (root st) in
            (case parent (info t) of
               None \<Rightarrow> Inr (st\<lparr>root := root', ptree := None\<rparr>)
             | Some a \<Rightarrow>
                 if path \<noteq> [] \<and> addr_at (0, 0) (root st) (butlast path) = a
                 then Inr (st\<lparr>root := root', ptree := Some (butlast path)\<rparr>)
                 else Inl (Fault Dangling_pointer)))"

text \<open>
  One attribute: its name (cut at 255 characters) and value (cut at 999), and where the
  scan stops.
\<close>

definition in_attrib_name :: "char \<Rightarrow> bool" where
  "in_attrib_name c \<longleftrightarrow> \<not> is_space c \<and> c \<noteq> CHR ''='' \<and> c \<noteq> CHR ''<'' \<and> c \<noteq> CHR ''>''"

definition parse_attribute :: "string \<Rightarrow> string \<Rightarrow> nat \<Rightarrow> parse_error + string \<times> string \<times> string \<times> nat" where
  "parse_attribute node_name p ln =
     (let pv = dropWhile in_attrib_name p in
      if pv = [] then Inl (Read_error ln ''Unexpected end of file'')
      else if peek pv = CHR ''<'' \<or> peek pv = CHR ''>'' then
        Inl (Read_error ln (''Unexpected '' @ [SQUOTE, peek pv, SQUOTE] @ '' inside element '' @
               [DQUOTE] @ node_name @ [DQUOTE]))
      else
        let attrib_name = mxml_decode (take 255 (takeWhile in_attrib_name p)) in
        bind_res (skip_ws pv ln) (\<lambda>(p1, ln1).
          if peek p1 \<noteq> CHR ''='' then
            Inl (Read_error ln1 (''Expect '' @ [DQUOTE] @ ''='' @ [DQUOTE] @ '' here''))
          else
            bind_res (skip_ws (tl p1) ln1) (\<lambda>(p2, ln2).
              if peek p2 \<noteq> DQUOTE \<and> peek p2 \<noteq> SQUOTE then
                Inl (Read_error ln2 (''Expect '' @ [DQUOTE] @ '' or '' @ [SQUOTE] @ '' here''))
              else
                let quote = peek p2; p3 = tl p2; in_value = (\<lambda>c. c \<noteq> quote); pv3 = dropWhile in_value p3 in
                if pv3 = [] then Inl (Read_error ln2 ''Unexpected end of file'')
                else
                  let attrib_value = mxml_decode (take 999 (takeWhile in_value p3)) in
                  bind_res (skip_ws (tl pv3) ln2) (\<lambda>(p4, ln4).
                    Inr (attrib_name, attrib_value, p4, ln4)))))"

lemma skip_ws_length: "skip_ws p ln = Inr (q, ln') \<Longrightarrow> length q \<le> length p \<and> q \<noteq> []"
  by (auto simp: skip_ws_def Let_def length_dropWhile_le split: if_splits)

lemma length_tl_less: "q \<noteq> [] \<Longrightarrow> length q \<le> n \<Longrightarrow> length (tl q) < n"
  by (cases q) auto

lemma parse_attribute_scan:
  assumes "length nm < 256"
  shows "scan_ok (p, ln) (\<lambda>(a, v, q, ln'). (q, ln')) (parse_attribute nm p ln)"
proof -
  define pv where "pv = dropWhile in_attrib_name p"
  have pv: "adv (p, ln) (pv, ln)" by (simp add: pv_def adv_dropWhile_same)
  have val: "adv (p2, l2) (tl (dropWhile P (tl p2)), l2)" for p2 :: string and l2 P
    by (rule adv_trans [OF adv_tl adv_trans [OF adv_dropWhile_same adv_tl]])
  have "scan_ok (pv, ln) (\<lambda>(a, v, q, ln'). (q, ln')) (parse_attribute nm p ln)"
    unfolding parse_attribute_def Let_def pv_def [symmetric] using assms
    by (auto intro!: scan_ok_bind [OF scan_ok_skip_ws] scan_ok_bind [OF scan_ok_adv [OF adv_tl scan_ok_skip_ws]]
        scan_ok_bind [OF scan_ok_adv [OF val scan_ok_skip_ws]])
  with pv show ?thesis by (rule scan_ok_adv)
qed

lemma parse_attribute_shorter:
  assumes "parse_attribute nm p ln = Inr (a, v, q, ln')"
  shows "length q < length p \<and> q \<noteq> []"
proof -
  define pv where "pv = dropWhile in_attrib_name p"
  have pv: "length pv \<le> length p" by (simp add: pv_def length_dropWhile_le)
  from assms obtain p1 l1 p2 l2 where p12: "skip_ws pv ln = Inr (p1, l1)"
    "skip_ws (tl p1) l1 = Inr (p2, l2)"
    "skip_ws (tl (dropWhile (\<lambda>c. c \<noteq> peek p2) (tl p2))) l2 = Inr (q, ln')"
    by (auto simp: parse_attribute_def Let_def bind_res_eq_Inr pv_def simp del: dropWhile_eq_Nil_conv
        split: if_splits prod.splits)
  define pv3 where "pv3 = dropWhile (\<lambda>c. c \<noteq> peek p2) (tl p2)"
  have "length pv3 \<le> length (tl p2)" unfolding pv3_def by (rule length_dropWhile_le)
  note * = pv p12(1,2) this p12(3) [folded pv3_def]
  from *(2,3,5) have "length p1 \<le> length pv" "p1 \<noteq> []" "length p2 \<le> length (tl p1)"
    "length q \<le> length (tl pv3)" "q \<noteq> []"
    by (auto dest: skip_ws_length)
  with *(1,4) length_tl_less [of p1 "length p1"] show ?thesis by (simp, linarith)
qed

function parse_attributes :: "string \<Rightarrow> string \<Rightarrow> nat \<Rightarrow> mxml_node \<Rightarrow> parse_error + string \<times> nat \<times> mxml_node" where
  "parse_attributes node_name p ln pnew =
     (if peek p = CHR ''>'' \<or> peek p = CHR ''/'' then Inr (p, ln, pnew)
      else case parse_attribute node_name p ln of
        Inl e \<Rightarrow> Inl e
      | Inr (a, v, p', ln') \<Rightarrow> parse_attributes node_name p' ln' (mxml_add_attribute pnew a v))"
  by pat_completeness auto
termination
  by (relation "measure (\<lambda>(nm, p, ln, pnew). length p)") (auto dest: parse_attribute_shorter)

declare parse_attributes.simps [simp del]

text \<open>\<^verbatim>\<open>/ >\<close> of an empty element.\<close>

definition parse_empty_close :: "string \<Rightarrow> nat \<Rightarrow> parse_error + string \<times> nat" where
  "parse_empty_close p ln =
     (if peek p = CHR ''/'' then
        bind_res (skip_ws (tl p) ln) (\<lambda>(p1, ln1).
          if peek p1 \<noteq> CHR ''>'' then
            Inl (Read_error ln1 (''Expected '' @ [DQUOTE] @ ''>'' @ [DQUOTE] @ '' after '' @ [DQUOTE] @ ''/'' @ [DQUOTE]))
          else Inr (tl p1, ln1))
      else Inr (p, ln))"

text \<open>What follows the closing bracket: a subtree, or a value up to the next \<^verbatim>\<open><\<close>.\<close>

definition parse_content :: "string \<Rightarrow> nat \<Rightarrow> mxml_node \<Rightarrow> parse_error + string \<times> nat \<times> mxml_node" where
  "parse_content p ln pnew =
     bind_res (skip_ws p ln) (\<lambda>(pv, ln1).
       if peek pv = CHR ''<'' \<and> peek (tl pv) \<noteq> CHR ''/'' then Inr (pv, ln1, pnew)
       else
         let q = dropWhile (\<lambda>c. c \<noteq> CHR ''<'') pv;
             ln2 = ln1 + count_nl (takeWhile (\<lambda>c. c \<noteq> CHR ''<'') pv) in
         if q = [] then Inl (Read_error ln2 ''Unexpected end of file'')
         else Inr (q, ln2, map_info (\<lambda>i. i\<lparr>nvalue := Some (mxml_decode (before p q))\<rparr>) pnew))"

text \<open>
  From the end of the attributes on: the new node is linked into the tree, with the value
  that was found, and becomes the open node unless its tag was \<^verbatim>\<open><node/>\<close>.
\<close>

definition parse_tag_end ::
  "parser \<Rightarrow> nat list \<Rightarrow> mxml_node \<Rightarrow> mxml_node \<Rightarrow> string \<Rightarrow> nat \<Rightarrow> parse_error + parser" where
  "parse_tag_end st path par' pnew p2 ln2 =
     bind_res (parse_empty_close p2 ln2) (\<lambda>(p3, ln3).
       if peek p3 = CHR ''>'' then
         bind_res (parse_content (tl p3) ln3 pnew) (\<lambda>(p4, ln4, pnew4).
           Inr ((store_child st path par' pnew4)
                  \<lparr>pos := p4, line_number := ln4, ptree := Some (path @ [n_children par' - 1])\<rparr>))
       else Inr ((store_child st path par' pnew)\<lparr>pos := p3, line_number := ln3\<rparr>))"

definition parse_start_tag :: "(nat \<Rightarrow> nat) \<Rightarrow> parser \<Rightarrow> string \<Rightarrow> parse_error + parser" where
  "parse_start_tag al st name =
     (case ptree st of
        None \<Rightarrow> Inl (Read_error (line_number st) ''Unexpected second top level node'')
      | Some path \<Rightarrow>
          bind_res (add_child al st path ELEMENT_NODE name) (\<lambda>(par', pnew0).
            let ln = line_number st;
                pnew = map_info (\<lambda>i. i\<lparr>line_number_start := ln, line_number_end := ln\<rparr>) pnew0 in
            bind_res (skip_ws (pos st) ln) (\<lambda>(p1, ln1).
            bind_res (parse_attributes name p1 ln1 pnew) (\<lambda>(p2, ln2, pnew2).
              parse_tag_end st path par' pnew2 p2 ln2))))"

definition parse_element :: "(nat \<Rightarrow> nat) \<Rightarrow> parser \<Rightarrow> parse_error + parser" where
  "parse_element al st =
     (if peek (pos st) = CHR ''/'' then
        bind_res (skip_ws (tl (pos st)) (line_number st)) (\<lambda>(p, ln).
        bind_res (parse_node_name p ln) (\<lambda>(name, q).
          parse_end_tag (st\<lparr>pos := q, line_number := ln\<rparr>) name))
      else
        bind_res (parse_node_name (pos st) (line_number st)) (\<lambda>(name, q).
          parse_start_tag al (st\<lparr>pos := q\<rparr>) name))"

section \<open>The main loop\<close>

text \<open>
  The blanks in front of a tag are skipped with \<^verbatim>\<open>isspace(*p)\<close>, everywhere else the code has
  \<^verbatim>\<open>isspace((unsigned char)*p)\<close>.  The standard leaves the first open for bytes above 127 when
  \<^verbatim>\<open>char\<close> is signed; the model has what the C library of the system does, whose table begins at -128
  and has no blanks there in the locale of a program that sets none.
\<close>

definition parse_markup :: "(nat \<Rightarrow> nat) \<Rightarrow> parser \<Rightarrow> parse_error + parser" where
  "parse_markup al st =
     (if peek (pos st) = CHR ''<'' then
        bind_res (skip_ws (tl (pos st)) (line_number st)) (\<lambda>(p, ln).
          let st1 = st\<lparr>pos := p, line_number := ln\<rparr> in
          if starts_with ''!--'' p then parse_comment al st1
          else if peek p = CHR ''?'' then parse_pi al st1
          else if starts_with ''!DOCTYPE'' p then parse_doctype st1
          else parse_element al st1)
      else Inr st)"

text \<open>\<^verbatim>\<open>go to next element\<close>\<close>

definition skip_to_tag :: "parser \<Rightarrow> parser" where
  "skip_to_tag st =
     st\<lparr>pos := dropWhile (\<lambda>c. c \<noteq> CHR ''<'') (pos st),
        line_number := line_number st + count_nl (takeWhile (\<lambda>c. c \<noteq> CHR ''<'') (pos st))\<rparr>"

definition parse_step :: "(nat \<Rightarrow> nat) \<Rightarrow> parser \<Rightarrow> parse_error + parser" where
  "parse_step al st = bind_res (parse_markup al st) (\<lambda>st1. Inr (skip_to_tag st1))"


lemma parse_attributes_length:
  "parse_attributes nm p ln t = Inr (q, ln', t') \<Longrightarrow> length q \<le> length p"
proof (induction nm p ln t rule: parse_attributes.induct)
  case (1 nm p ln t)
  then show ?case
    by (subst (asm) (2) parse_attributes.simps)
      (fastforce split: if_splits sum.splits prod.splits dest: parse_attribute_shorter)
qed

lemma parse_element_length:
  assumes "parse_element al st = Inr st'"
  shows "length (pos st') \<le> length (pos st)"
proof -
  have nn: "parse_node_name p ln = Inr (nm, q) \<Longrightarrow> length q \<le> length p" for p ln nm q
    by (auto simp: parse_node_name_def Let_def length_dropWhile_le split: if_splits)
  have en: "parse_end_tag s nm = Inr st' \<Longrightarrow> pos st' = pos s" for s nm
    by (auto simp: parse_end_tag_def Let_def split: option.splits if_splits)
  have ec: "parse_empty_close p ln = Inr (q, ln') \<Longrightarrow> length q \<le> length p" for p ln q ln'
    by (fastforce simp: parse_empty_close_def res_simps split: if_splits dest: skip_ws_length)
  have ct: "parse_content p ln t = Inr (q, ln', t') \<Longrightarrow> length q \<le> length p" for p ln t q ln' t'
    by (fastforce simp: parse_content_def res_simps Let_def split: if_splits dest: skip_ws_length
        intro: order_trans [OF length_dropWhile_le])
  have stt: "length (pos st') \<le> length (pos s)" if "parse_start_tag al s nm = Inr st'" for s nm
    using that
    by (fastforce simp: parse_start_tag_def parse_tag_end_def res_simps Let_def split: option.splits if_splits
        dest!: skip_ws_length parse_attributes_length ec ct)
  show ?thesis
  proof (cases "peek (pos st) = CHR ''/''")
    case True
    with assms obtain p ln nm q where "skip_ws (tl (pos st)) (line_number st) = Inr (p, ln)"
      "parse_node_name p ln = Inr (nm, q)" "parse_end_tag (st\<lparr>pos := q, line_number := ln\<rparr>) nm = Inr st'"
      by (auto simp: parse_element_def res_simps)
    then show ?thesis using en nn [of p ln nm q] skip_ws_length [of "tl (pos st)"] by fastforce
  next
    case False
    with assms obtain nm q where "parse_node_name (pos st) (line_number st) = Inr (nm, q)"
      "parse_start_tag al (st\<lparr>pos := q\<rparr>) nm = Inr st'"
      by (auto simp: parse_element_def res_simps)
    then show ?thesis using stt nn by fastforce
  qed
qed

lemma skip_doctype_length: "skip_doctype j p ln = (q, ln') \<Longrightarrow> length q \<le> length p"
  by (induction j p ln rule: skip_doctype.induct) (auto split: if_splits)

lemma parse_markup_length:
  assumes "parse_markup al st = Inr st'" and "peek (pos st) = CHR ''<''"
  shows "length (pos st') < length (pos st)"
proof -
  from assms(2) have ne: "pos st \<noteq> []" by auto
  from assms obtain p ln where p: "skip_ws (tl (pos st)) (line_number st) = Inr (p, ln)"
    by (auto simp: parse_markup_def res_simps)
  then have len: "length p < length (pos st)"
    using skip_ws_length [OF p] ne by (cases "pos st") auto
  let ?st = "st\<lparr>pos := p, line_number := ln\<rparr>"
  have cm: "parse_comment al ?st = Inr st' \<Longrightarrow> length (pos st') \<le> length p"
    by (fastforce simp: parse_comment_def res_simps Let_def split: option.splits dest: c_strstr_Some)
  have pi: "parse_pi al ?st = Inr st' \<Longrightarrow> length (pos st') \<le> length p"
    by (fastforce simp: parse_pi_def res_simps Let_def split: option.splits dest: c_strstr_Some)
  have dt: "parse_doctype ?st = Inr st' \<Longrightarrow> length (pos st') \<le> length p"
    by (fastforce simp: parse_doctype_def Let_def split: if_splits prod.splits dest: skip_doctype_length)
  have "length (pos st') \<le> length p"
    using assms p cm pi dt parse_element_length [of al ?st st']
    by (auto simp: parse_markup_def Let_def split: if_splits)
  with len show ?thesis by simp
qed

lemma parse_step_shorter:
  assumes "parse_step al st = Inr st'" and "pos st' \<noteq> []"
  shows "length (pos st') < length (pos st)"
proof (cases "peek (pos st) = CHR ''<''")
  case True
  with assms parse_markup_length show ?thesis
    by (fastforce simp: parse_step_def res_simps skip_to_tag_def
        intro: le_less_trans [OF length_dropWhile_le])
next
  case False
  with assms have "pos st' = dropWhile (\<lambda>c. c \<noteq> CHR ''<'') (pos st)"
    by (auto simp: parse_step_def parse_markup_def skip_to_tag_def)
  with False assms(2) show ?thesis
    by (cases "pos st") (auto simp: length_dropWhile_less le_imp_less_Suc length_dropWhile_le)
qed

text \<open>\<^verbatim>\<open>do { ... } while (*p);\<close>\<close>

function parse_loop :: "(nat \<Rightarrow> nat) \<Rightarrow> parser \<Rightarrow> parse_error + parser" where
  "parse_loop al st =
     (case parse_step al st of
        Inl e \<Rightarrow> Inl e
      | Inr st' \<Rightarrow> if pos st' \<noteq> [] then parse_loop al st' else Inr st')"
  by pat_completeness auto
termination
  by (relation "measure (\<lambda>(al, st). length (pos st))") (auto dest: parse_step_shorter)

declare parse_loop.simps [simp del]

definition parser_init :: "string \<Rightarrow> parser" where
  "parser_init buf = \<lparr>pos = buf, line_number = 1, root = mxml_create_root_node, ptree = Some [], n_alloc = 1\<rparr>"

text \<open>
  The result: the tree, or NULL with the error text cut to \<^verbatim>\<open>error_size\<close> and the line.
\<close>

definition mxml_parse_buffer :: "(nat \<Rightarrow> nat) \<Rightarrow> string \<Rightarrow> nat \<Rightarrow> (string \<times> nat + mxml_node) res" where
  "mxml_parse_buffer al buf error_size =
     (case parse_loop al (parser_init buf) of
        Inr st \<Rightarrow> Inr (Inr (root st))
      | Inl (Fault e) \<Rightarrow> Inl e
      | Inl (Read_error ln msg) \<Rightarrow>
          bind_res (read_error None ln error_size msg) (\<lambda>txt. Inr (Inl (txt, ln))))"

end
