(* ===== verification/Mxml_Parser_Props.thy ===== *)
theory Mxml_Parser_Props
  imports Mxml_Parser
begin

text \<open>
  What the parser of \<open>Mxml_Parser\<close> guarantees on every buffer: the tree it returns has right
  parent pointers and intact attribute arrays, going up the tree never follows a stale
  pointer although every added node may move an array, an error carries a line of the
  buffer, and the only two ways to leave the defined behaviour are a tag name that does
  not fit its array and markup behind the end of the document.
\<close>

section \<open>Changing one node of the tree\<close>

lemma node_at_append: "node_at t (p @ q) = node_at (node_at t p) q"
  by (induction p arbitrary: t) auto

lemma valid_path_append: "valid_path t (p @ q) \<longleftrightarrow> valid_path t p \<and> valid_path (node_at t p) q"
  by (induction p arbitrary: t) auto

lemma addr_at_append: "addr_at a t (p @ q) = addr_at (addr_at a t p) (node_at t p) q"
  by (induction p arbitrary: a t) auto

lemma info_update_at: "p \<noteq> [] \<Longrightarrow> info (update_at p f t) = info t"
  by (cases p) auto

lemma node_at_update [simp]: "valid_path t p \<Longrightarrow> node_at (update_at p f t) p = f (node_at t p)"
  by (induction p arbitrary: t) (auto simp: n_children_def)

lemma valid_path_update:
  "valid_path t p \<Longrightarrow> valid_path (update_at p f t) (p @ q) \<longleftrightarrow> valid_path (f (node_at t p)) q"
  by (induction p arbitrary: t) (auto simp: n_children_def)

lemma parents_ok_update:
  assumes "parents_ok a t" and "valid_path t p"
    and "parent (info (f (node_at t p))) = parent (info (node_at t p))"
    and "parents_ok (addr_at a t p) (node_at t p) \<Longrightarrow> parents_ok (addr_at a t p) (f (node_at t p))"
  shows "parents_ok a (update_at p f t) \<and> parents_ok (addr_at a t p) (node_at t p)"
  using assms
proof (induction p arbitrary: a t)
  case Nil
  then show ?case by simp
next
  case (Cons k p)
  let ?c = "child t ! k" and ?b = "child_block (info t)"
  from Cons.prems(1) have all: "\<forall>j < n_children t. parent (info (child t ! j)) = Some a \<and>
      parents_ok (?b, j) (child t ! j)" by (simp add: parents_ok_iff [of a t])
  with Cons.prems(2) have c: "parents_ok (?b, k) ?c" "parent (info ?c) = Some a" by auto
  have "parents_ok (?b, k) (update_at p f ?c) \<and> parents_ok (addr_at (?b, k) ?c p) (node_at ?c p)"
    using Cons.IH [OF c(1)] Cons.prems by simp
  moreover have "parent (info (update_at p f ?c)) = Some a"
    using c(2) Cons.prems(3) by (cases "p = []") (auto simp: info_update_at)
  ultimately show ?case
    using all Cons.prems(2)
    by (auto simp: parents_ok_iff [of a "MXML_NODE _ _"] n_children_def nth_list_update)
qed

lemma parent_at:
  assumes "parents_ok a t" and "valid_path t (p @ [k])"
  shows "parent (info (node_at t (p @ [k]))) = Some (addr_at a t p)"
  using assms
proof (induction p arbitrary: a t)
  case Nil
  then show ?case by (auto simp: parents_ok_iff [of a t])
next
  case (Cons j p)
  then show ?case by (auto simp: parents_ok_iff [of a t])
qed

section \<open>Well-formed trees\<close>

definition info_wf :: "node_info \<Rightarrow> bool" where
  "info_wf i \<longleftrightarrow> n_attributes i = length (attributes i) \<and> None \<notin> set (attributes i) \<and>
     length (nname i) < MXML_NAME_LENGTH"

definition inner_kind :: "node_kind \<Rightarrow> bool" where
  "inner_kind k \<longleftrightarrow> k = ELEMENT_NODE \<or> k = DOCUMENT_NODE"

text \<open>
  Intact attributes and terminated names everywhere; comments and processing instructions
  have a value and no children.
\<close>

fun tree_wf :: "mxml_node \<Rightarrow> bool" where
  "tree_wf (MXML_NODE i cs) \<longleftrightarrow> info_wf i \<and>
     (inner_kind (node_type i) \<or> cs = [] \<and> nvalue i \<noteq> None) \<and> list_all tree_wf cs"

lemma tree_wf_iff:
  "tree_wf t \<longleftrightarrow> info_wf (info t) \<and>
     (inner_kind (node_type (info t)) \<or> child t = [] \<and> nvalue (info t) \<noteq> None) \<and>
     list_all tree_wf (child t)"
  by (cases t) simp

lemma tree_wf_attrs_ok: "tree_wf t \<Longrightarrow> attrs_ok t"
  by (simp add: tree_wf_iff [of t] info_wf_def attrs_ok_def)

lemma tree_wf_fix_parents [simp]: "tree_wf (fix_parents a t) = tree_wf t"
proof -
  have "tree_wf (set_parent a c) = tree_wf c" for c
    by (cases c) (simp add: set_parent_def map_info_def info_wf_def)
  then show ?thesis by (cases t) (auto simp: fix_parents_def list_all_iff)
qed

lemma tree_wf_fix_all: "list_all tree_wf cs \<Longrightarrow> list_all tree_wf (fix_all nb cs)"
  by (simp add: list_all_length)

lemma tree_wf_node_at: "tree_wf t \<Longrightarrow> valid_path t p \<Longrightarrow> tree_wf (node_at t p)"
proof (induction p arbitrary: t)
  case (Cons k p)
  then have "tree_wf (child t ! k)"
    by (auto simp: tree_wf_iff [of t] list_all_length n_children_def)
  with Cons show ?case by simp
qed simp

lemma tree_wf_update:
  "tree_wf t \<Longrightarrow> valid_path t p \<Longrightarrow> tree_wf (f (node_at t p)) \<Longrightarrow> tree_wf (update_at p f t)"
proof (induction p arbitrary: t)
  case (Cons k p)
  then have "tree_wf (child t ! k)"
    by (auto simp: tree_wf_iff [of t] list_all_length n_children_def)
  with Cons have "tree_wf (update_at p f (child t ! k))" by simp
  with Cons.prems show ?case
    by (auto simp: tree_wf_iff [of t] list_all_length n_children_def nth_list_update)
qed simp

lemma inner_kind_prefix:
  "tree_wf t \<Longrightarrow> valid_path t (p @ [k]) \<Longrightarrow> inner_kind (node_type (info (node_at t p)))"
  using tree_wf_node_at [of t p]
  by (auto simp: valid_path_append n_children_def tree_wf_iff [of "node_at t p"])

section \<open>The invariant\<close>

definition root_ok :: "node_info \<Rightarrow> bool" where
  "root_ok i \<longleftrightarrow> parent i = None \<and> nname i = ''root''"

definition parser_ok :: "parser \<Rightarrow> bool" where
  "parser_ok st \<longleftrightarrow> parents_ok (0, 0) (root st) \<and> tree_wf (root st) \<and> root_ok (info (root st)) \<and>
     (\<forall>path. ptree st = Some path \<longrightarrow> valid_path (root st) path \<and>
        inner_kind (node_type (info (node_at (root st) path))))"

lemma parser_ok_init [simp, inv_intros]: "parser_ok (parser_init buf)"
  by (simp add: parser_ok_def root_ok_def parser_init_def mxml_create_root_node_def empty_info_def info_wf_def
      inner_kind_def MXML_NAME_LENGTH_def parents_ok_leaf)

lemma parser_ok_pos [simp]:
  "parser_ok (st\<lparr>pos := p\<rparr>) = parser_ok st" "parser_ok (st\<lparr>line_number := ln\<rparr>) = parser_ok st"
  by (simp_all add: parser_ok_def)

text \<open>Adding a node below \<^verbatim>\<open>ptree\<close> and filling it in.\<close>

lemma add_child_result:
  "add_child al st path kind name =
     (let par = node_at (root st) path; nb = al (n_alloc st); a = addr_at (0, 0) (root st) path;
          new = new_node a kind name None in
      Inr (MXML_NODE ((info par)\<lparr>child_block := nb\<rparr>) (fix_all nb (child par) @ [new]), new))"
  by (simp add: add_child_def Let_def add_special_node_append n_children_def nth_append)

definition same_shape :: "mxml_node \<Rightarrow> mxml_node \<Rightarrow> bool" where
  "same_shape t t' \<longleftrightarrow> child t' = child t \<and> parent (info t') = parent (info t) \<and>
     node_type (info t') = node_type (info t)"

lemma same_shape_refl [simp]: "same_shape t t"
  by (simp add: same_shape_def)

lemma same_shape_trans: "same_shape a b \<Longrightarrow> same_shape b c \<Longrightarrow> same_shape a c"
  by (simp add: same_shape_def)

lemma store_child_ok:
  assumes "parser_ok st" and "ptree st = Some path" and "add_child al st path kind name = Inr (par', new)"
    and "same_shape new pnew" and "tree_wf pnew"
  shows "parser_ok (store_child st path par' pnew)"
    and "inner_kind kind \<Longrightarrow> parser_ok ((store_child st path par' pnew)\<lparr>ptree := Some (path @ [n_children par' - 1])\<rparr>)"
proof -
  let ?par = "node_at (root st) path" and ?a = "addr_at (0, 0) (root st) path" and ?nb = "al (n_alloc st)"
  let ?par2 = "MXML_NODE ((info ?par)\<lparr>child_block := ?nb\<rparr>) (fix_all ?nb (child ?par) @ [pnew])"
  from assms(1,2) have ok: "parents_ok (0, 0) (root st)" "tree_wf (root st)" "root_ok (info (root st))"
    "valid_path (root st) path" "inner_kind (node_type (info ?par))"
    by (auto simp: parser_ok_def)
  from assms(3) have par': "par' = MXML_NODE ((info ?par)\<lparr>child_block := ?nb\<rparr>) (fix_all ?nb (child ?par) @ [new])"
    and new: "new = new_node ?a kind name None"
    by (auto simp: add_child_result Let_def)
  have root': "root (store_child st path par' pnew) = update_at path (\<lambda>_. ?par2) (root st)"
    by (simp add: store_child_def par' n_children_def list_update_append)
  have "parents_ok ?a ?par2" if "parents_ok ?a ?par"
    unfolding parents_ok_iff [of _ ?par2] using that assms(4) new
    by (auto simp: n_children_def nth_append less_Suc_eq parents_ok_leaf parents_ok_fix same_shape_def
        parents_ok_inner [of _ "child ?par ! _"] parents_ok_iff [of _ ?par])
  then have p: "parents_ok (0, 0) (update_at path (\<lambda>_. ?par2) (root st))"
    using parents_ok_update [OF ok(1,4), of "\<lambda>_. ?par2"] by simp
  have "tree_wf ?par2"
    using tree_wf_node_at [OF ok(2,4)] ok(5) assms(5)
    by (simp add: tree_wf_iff [of ?par] tree_wf_fix_all info_wf_def)
  then have w: "tree_wf (update_at path (\<lambda>_. ?par2) (root st))" using ok(2,4) by (simp add: tree_wf_update)
  have r: "root_ok (info (update_at path (\<lambda>_. ?par2) (root st)))"
    using ok(3) by (cases "path = []") (auto simp: info_update_at root_ok_def)
  have v: "valid_path (update_at path (\<lambda>_. ?par2) (root st)) path"
    using valid_path_update [OF ok(4), of "\<lambda>_. ?par2" "[]"] by simp
  have pt: "ptree (store_child st path par' pnew) = Some path" using assms(2) by (simp add: store_child_def)
  show "parser_ok (store_child st path par' pnew)"
    using p w r v pt ok(4,5) by (simp add: parser_ok_def root')
  let ?k = "n_children par' - 1"
  have k: "?k < n_children ?par2" "child ?par2 ! ?k = pnew"
    by (simp_all add: par' n_children_def nth_append)
  have "valid_path (update_at path (\<lambda>_. ?par2) (root st)) (path @ [?k])"
    using valid_path_update [OF ok(4), of "\<lambda>_. ?par2" "[?k]"] k by simp
  moreover have "node_at (update_at path (\<lambda>_. ?par2) (root st)) (path @ [?k]) = pnew"
    using ok(4) k by (simp add: node_at_append)
  moreover assume "inner_kind kind"
  ultimately show "parser_ok ((store_child st path par' pnew)\<lparr>ptree := Some (path @ [?k])\<rparr>)"
    using p w r assms(4) new by (simp add: parser_ok_def root' same_shape_def new_node_def)
qed


section \<open>Every branch keeps the invariant\<close>

abbreviation at :: "parser \<Rightarrow> string \<times> nat" where
  "at st \<equiv> (pos st, line_number st)"

definition step_ok :: "parser \<Rightarrow> parse_error + parser \<Rightarrow> bool" where
  "step_ok st r \<longleftrightarrow> (scan_ok (at st) at r \<or> r = Inl (Fault Null_pointer) \<and> ptree st = None) \<and>
     (\<forall>st'. r = Inr st' \<longrightarrow> parser_ok st')"

lemma step_ok_Inr [simp]: "step_ok st (Inr st') \<longleftrightarrow> adv (at st) (at st') \<and> parser_ok st'"
  by (simp add: step_ok_def)

lemma step_ok_Inl [simp]:
  "step_ok st (Inl (Read_error l m)) \<longleftrightarrow>
     line_number st \<le> l \<and> l \<le> line_number st + count_nl (pos st) \<and> length m < 500"
  "step_ok st (Inl (Fault e)) \<longleftrightarrow> e = Null_pointer \<and> ptree st = None \<or> e = Buffer_overflow \<and> long_run (pos st)"
  by (auto simp: step_ok_def)

lemma step_ok_bind:
  assumes "scan_ok (at st) sel r" and "\<And>x. r = Inr x \<Longrightarrow> step_ok (st\<lparr>pos := fst (sel x), line_number := snd (sel x)\<rparr>) (f x)"
  shows "step_ok st (bind_res r f)"
proof (cases r)
  case (Inl e)
  with scan_ok_bind [OF assms(1), of at f] show ?thesis by (simp add: step_ok_def)
next
  case (Inr x)
  from assms(1) Inr have a: "adv (at st) (sel x)" by simp
  from assms(2) [OF Inr] show ?thesis
    using scan_ok_adv [OF a, of at "f x"] Inr by (auto simp: step_ok_def)
qed

lemma step_ok_bind_at:
  assumes "scan_ok (p, ln) sel r"
    and "\<And>x. r = Inr x \<Longrightarrow> step_ok (st\<lparr>pos := fst (sel x), line_number := snd (sel x)\<rparr>) (f x)"
  shows "step_ok (st\<lparr>pos := p, line_number := ln\<rparr>) (bind_res r f)"
  by (rule step_ok_bind [where sel = sel]) (use assms in simp_all)

lemma set_text_shape [simp]: "same_shape t (set_text v l1 l2 t)"
  by (simp add: set_text_def same_shape_def)

lemma tree_wf_set_text:
  "child t = [] \<Longrightarrow> info_wf (info t) \<Longrightarrow> tree_wf (set_text v l1 l2 t)"
  by (simp add: set_text_def map_info_def info_wf_def)

lemma info_wf_new_node [simp]: "info_wf (info (new_node a kind name v))"
  by (simp add: new_node_def info_wf_def empty_info_def MXML_NAME_LENGTH_def)

lemma add_child_new:
  "add_child al st path kind name = Inr (par', new) \<Longrightarrow> \<exists>a. new = new_node a kind name None"
  by (auto simp: add_child_result Let_def simp del: split_paired_Ex)

lemma add_child_cases:
  obtains par' new where "add_child al st path kind name = Inr (par', new)"
  by (simp add: add_child_result Let_def)

lemma adv_delimited:
  "c_strstr lit (drop n p) = Some q \<Longrightarrow> adv (p, ln) (drop m q, ln + count_nl (before (drop n p) q))"
  by (rule adv_trans [OF adv_drop adv_trans [OF adv_strstr adv_drop]])

lemma parse_comment_ok:
  assumes "parser_ok st" shows "step_ok st (parse_comment al st)"
proof (cases "ptree st")
  case None
  then show ?thesis by (simp add: parse_comment_def)
next
  case (Some path)
  obtain par' new where add: "add_child al st path COMMENT_NODE ''Comment'' = Inr (par', new)"
    by (rule add_child_cases)
  then obtain a where "new = new_node a COMMENT_NODE ''Comment'' None" using add_child_new by blast
  then have "parser_ok (store_child st path par' (set_text v l1 l2 new))" for v l1 l2
    using store_child_ok(1) [OF assms Some add] by (simp add: tree_wf_set_text)
  with Some add show ?thesis
    by (auto simp: parse_comment_def Let_def intro: adv_delimited split: option.splits)
qed

lemma parse_pi_ok:
  assumes "parser_ok st" shows "step_ok st (parse_pi al st)"
proof (cases "ptree st")
  case None
  then show ?thesis by (simp add: parse_pi_def)
next
  case (Some path)
  obtain par' new where add: "add_child al st path PROCESSING_INSTRUCTION_NODE ''PI'' = Inr (par', new)"
    by (rule add_child_cases)
  then obtain a where "new = new_node a PROCESSING_INSTRUCTION_NODE ''PI'' None" using add_child_new by blast
  then have "parser_ok (store_child st path par' (set_text v l1 l2 new))" for v l1 l2
    using store_child_ok(1) [OF assms Some add] by (simp add: tree_wf_set_text)
  with Some add show ?thesis
    by (auto simp: parse_pi_def Let_def intro: adv_delimited split: option.splits)
qed

lemma skip_doctype_adv: "adv (p, ln) (skip_doctype j p ln)"
proof (induction j p ln rule: skip_doctype.induct)
  case (2 j c p ln)
  have step: "adv (c # p, ln) (p, if c = LF then ln + 1 else ln)" by (auto simp: adv_def)
  show ?case
  proof (cases "c \<noteq> CHR ''>'' \<or> 0 < j")
    case True
    with "2.IH" step show ?thesis by (auto intro: adv_trans)
  next
    case False
    then show ?thesis by simp
  qed
qed simp

lemma parse_doctype_ok:
  assumes "parser_ok st" shows "step_ok st (parse_doctype st)"
proof -
  obtain q ln where q: "skip_doctype 0 (drop 8 (pos st)) (line_number st) = (q, ln)" by fastforce
  have "adv (at st) (q, ln)"
    using adv_trans [OF adv_drop [of "pos st" "line_number st" 8] skip_doctype_adv [of _ _ 0]] q by simp
  moreover from this have "adv (at st) (tl q, ln)" by (rule adv_trans) simp
  ultimately show ?thesis
    using assms q by (auto simp: parse_doctype_def Let_def adv_def)
qed

lemma node_name_scan:
  "scan_ok (p, ln) (\<lambda>(nm, q). (q, ln)) (parse_node_name p ln)"
proof (cases "256 \<le> length (takeWhile in_node_name p)")
  case True
  moreover have "p = [] @ takeWhile in_node_name p @ dropWhile in_node_name p" by simp
  moreover have "list_all in_node_name (takeWhile in_node_name p)"
    by (auto simp: list_all_iff dest: set_takeWhileD)
  ultimately have "long_run p" unfolding long_run_def by blast
  with True show ?thesis by (simp add: parse_node_name_def)
next
  case False
  with adv_dropWhile_same [of p ln in_node_name] show ?thesis by (auto simp: parse_node_name_def Let_def)
qed

lemma decode_ref_length: "length (decode_ref s) \<le> length s"
proof (induction "length s" arbitrary: s rule: less_induct)
  case less
  show ?case
  proof (cases s)
    case (Cons c p)
    have "length (decode_ref (drop n p)) \<le> length p" for n
    proof -
      have "length (drop n p) < length s" using Cons by simp
      from less [OF this] show ?thesis by simp
    qed
    from this this [of 0] Cons show ?thesis by simp
  qed simp
qed

lemma node_name_length: "parse_node_name p ln = Inr (nm, q) \<Longrightarrow> length nm < 256"
  using decode_ref_length [of "takeWhile in_node_name p"]
  by (auto simp: parse_node_name_def Let_def mxml_decode_ref split: if_splits)

lemma parse_end_tag_ok:
  assumes "parser_ok st" and "length nm < 256"
  shows "step_ok st (parse_end_tag st nm)"
proof (cases "ptree st")
  case None
  with assms show ?thesis by (simp add: parse_end_tag_def)
next
  case (Some path)
  let ?t = "node_at (root st) path" and ?f = "map_info (\<lambda>i. i\<lparr>line_number_end := line_number st\<rparr>)"
  from assms(1) Some have ok: "parents_ok (0, 0) (root st)" "tree_wf (root st)"
    "root_ok (info (root st))" "valid_path (root st) path" "inner_kind (node_type (info ?t))"
    by (auto simp: parser_ok_def)
  have wt: "tree_wf ?t" using ok(2,4) by (rule tree_wf_node_at)
  then have len: "length (nname (info ?t)) < 64"
    by (simp add: tree_wf_iff [of ?t] info_wf_def MXML_NAME_LENGTH_def)
  have "parents_ok a (?f t) = parents_ok a t" for a t
    by (simp add: parents_ok_iff [of a "?f t"] parents_ok_iff [of a t] n_children_def)
  then have r1: "parents_ok (0, 0) (update_at path ?f (root st))"
    using parents_ok_update [OF ok(1,4), of ?f] by simp
  have "tree_wf (?f t) = tree_wf t" for t by (cases t) (simp add: map_info_def info_wf_def)
  then have r2: "tree_wf (update_at path ?f (root st))" using tree_wf_update [OF ok(2,4)] wt by simp
  have r3: "root_ok (info (update_at path ?f (root st)))"
    using ok(3) by (cases "path = []") (simp_all add: info_update_at root_ok_def)
  show ?thesis
  proof (cases path rule: rev_cases)
    case Nil
    with Some ok(3) assms len r1 r2 r3 show ?thesis
      by (simp add: parse_end_tag_def Let_def parser_ok_def root_ok_def)
  next
    case (snoc p k)
    have "parent (info ?t) = Some (addr_at (0, 0) (root st) p)"
      using parent_at [OF ok(1)] ok(4) snoc by simp
    moreover have v: "valid_path (update_at path ?f (root st)) path"
      using valid_path_update [OF ok(4), of ?f "[]"] by simp
    then have "valid_path (update_at path ?f (root st)) p" "inner_kind (node_type (info (node_at (update_at path ?f (root st)) p)))"
      using snoc inner_kind_prefix [OF r2, of p k] by (simp_all add: valid_path_append)
    ultimately show ?thesis
      using Some assms len r1 r2 r3 snoc by (simp add: parse_end_tag_def Let_def parser_ok_def)
  qed
qed


lemma parse_attributes_scan:
  assumes "length nm < 256"
  shows "scan_ok (p, ln) (\<lambda>(q, ln', t). (q, ln')) (parse_attributes nm p ln t)"
  using assms
proof (induction nm p ln t rule: parse_attributes.induct)
  case (1 nm p ln t)
  let ?sel = "\<lambda>(a, v, q, ln'). (q, ln')"
  have sc: "scan_ok (p, ln) ?sel (parse_attribute nm p ln)" using "1.prems" by (rule parse_attribute_scan)
  show ?case
  proof (cases "peek p = CHR ''>'' \<or> peek p = CHR ''/''")
    case True
    then show ?thesis by (simp add: parse_attributes.simps [of nm p ln t])
  next
    case False
    then have "parse_attributes nm p ln t = bind_res (parse_attribute nm p ln)
        (\<lambda>(a, v, p', ln'). parse_attributes nm p' ln' (mxml_add_attribute t a v))"
      by (subst parse_attributes.simps) (auto simp: bind_res_def split: sum.splits)
    moreover have "scan_ok (p, ln) (\<lambda>(q, ln', t). (q, ln')) \<dots>"
      by (rule scan_ok_bind [OF sc]) (use "1.IH" "1.prems" False in auto)
    ultimately show ?thesis by simp
  qed
qed

lemma same_shape_attribute: "same_shape t (mxml_add_attribute t a v)"
  by (simp add: mxml_add_attribute_def same_shape_def Let_def)

lemma info_wf_attribute: "info_wf (info t) \<Longrightarrow> info_wf (info (mxml_add_attribute t a v))"
  using add_attribute_pairs(1) [of t a v]
  by (auto simp: info_wf_def attrs_ok_def) (simp add: mxml_add_attribute_def Let_def)

lemma parse_attributes_node:
  "parse_attributes nm p ln t = Inr (q, ln', t') \<Longrightarrow> same_shape t t' \<and> (info_wf (info t) \<longrightarrow> info_wf (info t'))"
proof (induction nm p ln t rule: parse_attributes.induct)
  case (1 nm p ln t)
  show ?case
  proof (cases "peek p = CHR ''>'' \<or> peek p = CHR ''/''")
    case True
    with "1.prems" show ?thesis by (simp add: parse_attributes.simps [of nm p ln t])
  next
    case False
    with "1.prems" obtain a v p1 l1 where at: "parse_attribute nm p ln = Inr (a, v, p1, l1)"
      "parse_attributes nm p1 l1 (mxml_add_attribute t a v) = Inr (q, ln', t')"
      by (subst (asm) parse_attributes.simps) (auto split: sum.splits)
    from "1.IH" [OF False at(1) refl refl refl at(2)] show ?thesis
      using same_shape_attribute info_wf_attribute same_shape_trans by blast
  qed
qed

lemma empty_close_scan: "scan_ok (p, ln) id (parse_empty_close p ln)"
  unfolding parse_empty_close_def
  by (auto intro!: scan_ok_bind [OF scan_ok_adv [OF adv_tl scan_ok_skip_ws]])

lemma content_scan: "scan_ok (p, ln) (\<lambda>(q, ln', t). (q, ln')) (parse_content p ln t)"
  unfolding parse_content_def
proof (rule scan_ok_bind [OF scan_ok_skip_ws], clarsimp simp: Let_def, intro conjI impI)
  fix pv l
  show "adv (pv, l) (dropWhile (\<lambda>c. c \<noteq> CHR ''<'') pv, l + count_nl (takeWhile (\<lambda>c. c \<noteq> CHR ''<'') pv))"
    by (rule adv_dropWhile)
  show "count_nl (takeWhile (\<lambda>c. c \<noteq> CHR ''<'') pv) \<le> count_nl pv"
    by (rule count_nl_takeWhile)
qed

lemma content_node:
  "parse_content p ln t = Inr (q, ln', t') \<Longrightarrow> same_shape t t' \<and> (info_wf (info t) \<longrightarrow> info_wf (info t'))"
  by (auto simp: parse_content_def res_simps Let_def same_shape_def info_wf_def split: if_splits)


lemma parse_start_tag_ok:
  assumes "parser_ok st" and "length nm < 256"
  shows "step_ok st (parse_start_tag al st nm)"
proof (cases "ptree st")
  case None
  then show ?thesis by (simp add: parse_start_tag_def)
next
  case (Some path)
  obtain par' new where add: "add_child al st path ELEMENT_NODE nm = Inr (par', new)"
    by (rule add_child_cases)
  then obtain a where new: "new = new_node a ELEMENT_NODE nm None" using add_child_new by blast
  let ?t = "map_info (\<lambda>i. i\<lparr>line_number_start := line_number st, line_number_end := line_number st\<rparr>) new"
  have t: "same_shape new ?t" "info_wf (info ?t)" "child new = []" "inner_kind (node_type (info new))"
    using new info_wf_new_node [of a ELEMENT_NODE nm None]
    by (simp_all add: same_shape_def info_wf_def inner_kind_def new_node_def)
  have stored: "parser_ok (store_child st path par' t2)"
      "parser_ok ((store_child st path par' t2)\<lparr>ptree := Some (path @ [n_children par' - Suc 0])\<rparr>)"
    if "same_shape ?t t2" "info_wf (info t2)" for t2
  proof -
    have sh: "same_shape new t2" using t(1) that(1) by (rule same_shape_trans)
    moreover have "tree_wf t2"
      using sh t(3,4) that(2) by (simp add: tree_wf_iff [of t2] same_shape_def)
    ultimately show "parser_ok (store_child st path par' t2)"
      "parser_ok ((store_child st path par' t2)\<lparr>ptree := Some (path @ [n_children par' - Suc 0])\<rparr>)"
      using store_child_ok [OF assms(1) Some add] by (simp_all add: inner_kind_def)
  qed
  have tag_end: "step_ok (st\<lparr>pos := p2, line_number := l2\<rparr>) (parse_tag_end st path par' t2 p2 l2)"
    if sh: "same_shape ?t t2" "info_wf (info t2)" for p2 l2 t2
    unfolding parse_tag_end_def
  proof (rule step_ok_bind_at [OF empty_close_scan], clarsimp, intro conjI impI)
    fix p3 l3
    have content: "parser_ok ((store_child st path par' t4)
        \<lparr>pos := p4, line_number := l4, ptree := Some (path @ [n_children par' - Suc 0])\<rparr>)"
      if "parse_content (tl p3) l3 t2 = Inr (p4, l4, t4)" for p4 l4 t4
    proof -
      have "same_shape ?t t4" "info_wf (info t4)"
        using content_node [OF that] sh by (auto intro: same_shape_trans)
      from stored(2) [OF this] show ?thesis by (simp add: parser_ok_def)
    qed
    show "step_ok (st\<lparr>pos := p3, line_number := l3\<rparr>)
        (bind_res (parse_content (tl p3) l3 t2) (\<lambda>(p4, ln4, pnew4).
           Inr ((store_child st path par' pnew4)
             \<lparr>pos := p4, line_number := ln4, ptree := Some (path @ [n_children par' - Suc 0])\<rparr>)))"
      by (rule step_ok_bind_at [OF scan_ok_adv [OF adv_tl content_scan]])
        (use content in auto)
    show "parser_ok (store_child st path par' t2)" using stored(1) [OF sh] .
  qed
  have attrs: "step_ok (st\<lparr>pos := p1, line_number := l1\<rparr>)
      (bind_res (parse_attributes nm p1 l1 ?t) (\<lambda>(p2, ln2, pnew2). parse_tag_end st path par' pnew2 p2 ln2))"
    for p1 l1
  proof (rule step_ok_bind_at [OF parse_attributes_scan [OF assms(2)]], clarsimp)
    fix p2 l2 t2
    assume "parse_attributes nm p1 l1 ?t = Inr (p2, l2, t2)"
    from parse_attributes_node [OF this] t
    show "step_ok (st\<lparr>pos := p2, line_number := l2\<rparr>) (parse_tag_end st path par' t2 p2 l2)"
      by (intro tag_end) simp_all
  qed
  have "step_ok st (bind_res (skip_ws (pos st) (line_number st)) (\<lambda>(p1, ln1).
      bind_res (parse_attributes nm p1 ln1 ?t) (\<lambda>(p2, ln2, pnew2). parse_tag_end st path par' pnew2 p2 ln2)))"
    by (rule step_ok_bind [OF scan_ok_skip_ws]) (use attrs in auto)
  then show ?thesis using Some add by (simp add: parse_start_tag_def Let_def)
qed


lemma parse_element_ok:
  assumes "parser_ok st" shows "step_ok st (parse_element al st)"
proof (cases "peek (pos st) = CHR ''/''")
  case True
  have "step_ok (st\<lparr>pos := p, line_number := ln\<rparr>) (bind_res (parse_node_name p ln) (\<lambda>(name, q).
      parse_end_tag (st\<lparr>pos := q, line_number := ln\<rparr>) name))" for p ln
    by (rule step_ok_bind_at [OF node_name_scan])
      (use assms node_name_length parse_end_tag_ok in auto)
  then have "step_ok st (bind_res (skip_ws (tl (pos st)) (line_number st)) (\<lambda>(p, ln).
      bind_res (parse_node_name p ln) (\<lambda>(name, q). parse_end_tag (st\<lparr>pos := q, line_number := ln\<rparr>) name)))"
    by (intro step_ok_bind [OF scan_ok_adv [OF adv_tl scan_ok_skip_ws]]) auto
  with True show ?thesis by (simp add: parse_element_def)
next
  case False
  have "step_ok (st\<lparr>pos := q, line_number := line_number st\<rparr>) r = step_ok (st\<lparr>pos := q\<rparr>) r" for q r
    by (simp add: step_ok_def)
  with assms have "step_ok (st\<lparr>pos := pos st, line_number := line_number st\<rparr>)
      (bind_res (parse_node_name (pos st) (line_number st)) (\<lambda>(name, q). parse_start_tag al (st\<lparr>pos := q\<rparr>) name))"
    by (intro step_ok_bind_at [OF node_name_scan]) (auto intro!: parse_start_tag_ok dest: node_name_length)
  with False show ?thesis by (simp add: parse_element_def)
qed

lemma parse_markup_ok:
  assumes "parser_ok st" shows "step_ok st (parse_markup al st)"
proof (cases "peek (pos st) = CHR ''<''")
  case True
  have "step_ok st (bind_res (skip_ws (tl (pos st)) (line_number st)) (\<lambda>(p, ln).
      let st1 = st\<lparr>pos := p, line_number := ln\<rparr> in
      if starts_with ''!--'' p then parse_comment al st1
      else if peek p = CHR ''?'' then parse_pi al st1
      else if starts_with ''!DOCTYPE'' p then parse_doctype st1
      else parse_element al st1))"
    by (rule step_ok_bind [OF scan_ok_adv [OF adv_tl scan_ok_skip_ws]])
      (use assms parse_comment_ok parse_pi_ok parse_doctype_ok parse_element_ok in \<open>auto simp: Let_def\<close>)
  with True show ?thesis by (simp add: parse_markup_def)
next
  case False
  with assms show ?thesis by (simp add: parse_markup_def)
qed

lemma skip_to_tag_adv: "adv (at st) (at (skip_to_tag st))"
  by (simp add: skip_to_tag_def adv_dropWhile)

lemma parse_step_ok:
  assumes "parser_ok st" shows "step_ok st (parse_step al st)"
  using parse_markup_ok [OF assms, of al] skip_to_tag_adv
  by (auto simp: parse_step_def step_ok_def bind_res_def scan_ok_def skip_to_tag_def parser_ok_def
      split: sum.splits parse_error.splits intro: adv_trans)

section \<open>The end of the document\<close>

definition has_root :: "string \<Rightarrow> bool" where
  "has_root p \<longleftrightarrow> (\<exists>x y. p = x @ ''root'' @ y)"

lemma has_root_prefix: "has_root q \<Longrightarrow> has_root (r @ q)"
  unfolding has_root_def by (metis append.assoc)

lemma has_root_adv: "adv (p, ln) (q, ln') \<Longrightarrow> has_root q \<Longrightarrow> has_root p"
  by (auto simp: adv_def has_root_prefix)

lemma decode_ref_plain:
  "CHR ''<'' \<notin> set (decode_ref s) \<Longrightarrow> CHR ''>'' \<notin> set (decode_ref s) \<Longrightarrow> CHR ''&'' \<notin> set (decode_ref s) \<Longrightarrow>
   DQUOTE \<notin> set (decode_ref s) \<Longrightarrow> SQUOTE \<notin> set (decode_ref s) \<Longrightarrow> decode_ref s = s"
  by (induction s) (auto split: if_splits)

lemma ptree_kept:
  "parse_comment al st = Inr st' \<Longrightarrow> ptree st' = ptree st"
  "parse_pi al st = Inr st' \<Longrightarrow> ptree st' = ptree st"
  "parse_doctype st = Inr st' \<Longrightarrow> ptree st' = ptree st"
  "parse_start_tag al st nm = Inr st' \<Longrightarrow> ptree st' \<noteq> None"
  by (auto simp: parse_comment_def parse_pi_def parse_doctype_def parse_start_tag_def parse_tag_end_def
      store_child_def Let_def res_simps split: if_splits option.splits prod.splits)

lemma end_tag_root:
  assumes "parser_ok st" and "parse_end_tag st nm = Inr st'" and "ptree st' = None"
  shows "nm = ''root''"
proof -
  from assms(2,3) obtain path where path: "ptree st = Some path"
    and t: "nname (info (node_at (root st) path)) = nm" "parent (info (node_at (root st) path)) = None"
    by (auto simp: parse_end_tag_def Let_def split: option.splits if_splits)
  have "path = []"
    using assms(1) path t(2) parent_at [of "(0, 0)" "root st" "butlast path" "last path"]
    by (cases "path = []") (auto simp: parser_ok_def)
  with assms(1) t(1) show ?thesis by (simp add: parser_ok_def root_ok_def)
qed

lemma markup_ptree:
  assumes "parser_ok st" and "ptree st \<noteq> None" and "parse_markup al st = Inr st'" and "ptree st' = None"
  shows "has_root (pos st)"
proof -
  from assms(2,3,4) obtain p ln where p: "skip_ws (tl (pos st)) (line_number st) = Inr (p, ln)"
    and el: "parse_element al (st\<lparr>pos := p, line_number := ln\<rparr>) = Inr st'"
    by (auto simp: parse_markup_def Let_def res_simps split: if_splits dest: ptree_kept)
  from el assms(4) obtain p1 ln1 nm q where
    *: "skip_ws (tl p) ln = Inr (p1, ln1)" "parse_node_name p1 ln1 = Inr (nm, q)"
      "parse_end_tag (st\<lparr>pos := q, line_number := ln1\<rparr>) nm = Inr st'"
    by (auto simp: parse_element_def res_simps split: if_splits dest: ptree_kept(4))
  from end_tag_root [OF _ *(3) assms(4)] assms(1) have "nm = ''root''" by simp
  then have "takeWhile in_node_name p1 = ''root''"
    using *(2) decode_ref_plain [of "takeWhile in_node_name p1"]
    by (auto simp: parse_node_name_def Let_def mxml_decode_ref split: if_splits)
  then have "p1 = [] @ ''root'' @ dropWhile in_node_name p1" by (metis append_Nil takeWhile_dropWhile_id)
  then have "has_root p1" unfolding has_root_def by blast
  moreover have "adv (p, ln) (p1, ln1)" "adv (pos st, line_number st) (p, ln)"
    using scan_ok_adv [OF adv_tl scan_ok_skip_ws] p *(1) by (metis id_apply scan_ok_simps(1))+
  ultimately show ?thesis by (blast intro: has_root_adv)
qed


section \<open>Correctness of the parser\<close>

definition loop_ok :: "parser \<Rightarrow> parse_error + parser \<Rightarrow> bool" where
  "loop_ok st r \<longleftrightarrow>
     (scan_ok (at st) at r \<or> r = Inl (Fault Null_pointer) \<and> (ptree st = None \<or> has_root (pos st))) \<and>
     (\<forall>st'. r = Inr st' \<longrightarrow> parser_ok st')"

lemma step_ptree:
  "parser_ok st \<Longrightarrow> parse_step al st = Inr st' \<Longrightarrow> ptree st' = None \<Longrightarrow> ptree st = None \<or> has_root (pos st)"
  using markup_ptree [of st al] by (cases "ptree st") (force simp: parse_step_def res_simps skip_to_tag_def)+

lemma parse_loop_ok: "parser_ok st \<Longrightarrow> loop_ok st (parse_loop al st)"
proof (induction al st rule: parse_loop.induct)
  case (1 al st)
  show ?case
  proof (cases "parse_step al st")
    case (Inl e)
    with parse_step_ok [OF "1.prems", of al] show ?thesis
      by (auto simp: parse_loop.simps [of al st] step_ok_def loop_ok_def)
  next
    case (Inr st1)
    with parse_step_ok [OF "1.prems", of al] have s: "adv (at st) (at st1)" "parser_ok st1" by simp_all
    show ?thesis
    proof (cases "pos st1 = []")
      case True
      with Inr s show ?thesis by (simp add: parse_loop.simps [of al st] loop_ok_def)
    next
      case False
      with Inr have eq: "parse_loop al st = parse_loop al st1" by (simp add: parse_loop.simps [of al st])
      from "1.IH" [OF Inr False s(2)] have IH: "loop_ok st1 (parse_loop al st1)" .
      show ?thesis
        using IH scan_ok_adv [OF s(1)] step_ptree [OF "1.prems" Inr] has_root_adv [OF s(1)]
        unfolding eq loop_ok_def by blast
    qed
  qed
qed

lemma read_error_ok:
  assumes "ln < 10 ^ 10" and "length m < 500" and "0 < n"
  shows "\<exists>t. read_error None ln n m = Inr t \<and> length t < n"
proof -
  have "length (show_nat ln) \<le> 10" using assms(1) by (rule show_nat_length) simp
  with assms show ?thesis by (simp add: read_error_def read_error_head_def)
qed

text \<open>C2: On every buffer (shorter than an \<^verbatim>\<open>int\<close> can count) and with every allocator the parser
  terminates.  If it returns a tree, every parent pointer in it is right, every node has
  intact attribute arrays and a terminated name, and comments and processing instructions
  are leaves with a value; in particular going up by \<^verbatim>\<open>ptree->parent\<close> never follows a stale
  pointer.  If it reports an error, the text fits the caller's buffer and the line exists.
  It leaves the defined behaviour only by a run of 256 or more name characters, or by
  markup behind a closing tag \<^verbatim>\<open></root>\<close> of the document itself.\<close>

theorem parse_buffer_sound:
  assumes "length buf < 2 ^ 31 - 1" and "0 < n"
  shows "case mxml_parse_buffer al buf n of
      Inr (Inr t) \<Rightarrow> parents_ok (0, 0) t \<and> tree_wf t
    | Inr (Inl (txt, ln)) \<Rightarrow> length txt < n \<and> 1 \<le> ln \<and> ln \<le> 1 + count_nl buf
    | Inl e \<Rightarrow> e = Null_pointer \<and> has_root buf \<or> e = Buffer_overflow \<and> long_run buf"
proof -
  let ?st = "parser_init buf"
  have lp: "loop_ok ?st (parse_loop al ?st)" by (rule parse_loop_ok) simp
  have init: "pos ?st = buf" "line_number ?st = 1" "ptree ?st \<noteq> None" by (simp_all add: parser_init_def)
  have nl: "count_nl buf \<le> length buf" by (simp add: count_nl_def)
  show ?thesis
  proof (cases "parse_loop al ?st")
    case (Inr st')
    with lp show ?thesis by (simp add: mxml_parse_buffer_def loop_ok_def parser_ok_def)
  next
    case (Inl e)
    show ?thesis
    proof (cases e)
      case (Fault f)
      with lp Inl init show ?thesis by (auto simp: mxml_parse_buffer_def loop_ok_def)
    next
      case (Read_error ln m)
      with lp Inl init have *: "1 \<le> ln" "ln \<le> 1 + count_nl buf" "length m < 500"
        by (auto simp: loop_ok_def)
      with nl assms(1) have "ln < 10 ^ 10" by simp
      from read_error_ok [OF this *(3) assms(2)] * Inl Read_error show ?thesis
        by (auto simp: mxml_parse_buffer_def)
    qed
  qed
qed

lemma no_long_run: "length p < 256 \<Longrightarrow> \<not> long_run p"
  by (auto simp: long_run_def)

theorem parse_buffer_sound_witness:
  "case mxml_parse_buffer id ''<a><b x=\"1\">hi</b></a>'' 100 of
      Inr (Inr t) \<Rightarrow> parents_ok (0, 0) t \<and> tree_wf t
    | Inr (Inl (txt, ln)) \<Rightarrow> length txt < 100 \<and> ln = 1
    | Inl e \<Rightarrow> e = Null_pointer"
proof -
  let ?b = "''<a><b x=\"1\">hi</b></a>''"
  have "count_nl ?b = 0" "\<not> long_run ?b" by (simp, rule no_long_run, simp)
  with parse_buffer_sound [of ?b 100 id] show ?thesis by (auto split: sum.splits)
qed

lemmas parser_eval = mxml_parse_buffer_def parse_loop.simps parser_init_def parse_step_def parse_markup_def
  parse_comment_def parse_pi_def parse_doctype_def parse_element_def parse_start_tag_def parse_end_tag_def
  parse_node_name_def parse_tag_end_def parse_attributes.simps parse_attribute_def parse_empty_close_def
  parse_content_def add_child_result store_child_def skip_ws_def skip_to_tag_def before_def set_text_def
  in_node_name_def in_attrib_name_def is_space_def mxml_create_root_node_def empty_info_def starts_with_def
  mxml_decode_ref n_children_def Let_def new_node_def map_info_def

text \<open>A comment behind the closing tag of the document crashes the parser: the node that
  is open is NULL by then and the branch for comments does not check it.\<close>

theorem parse_comment_after_document:
  "mxml_parse_buffer al ''<a/></root><!--x-->'' n = Inl Null_pointer"
  by (simp add: parser_eval)

end
