(* ===== verification/Mxml_Subtree.thy ===== *)
theory Mxml_Subtree
  imports Mxml_Printer Mxml_Parser_Props
begin

text \<open>
  Writing and freeing whole trees (\<open>mxml_write_subtree\<close>, \<open>mxml_write_tree\<close> and
  \<open>mxml_free_tree\<close> of \<^verbatim>\<open>src/mxml/mxml.c\<close>).  \<open>node_text\<close> is the text an element is meant to
  have; the functions are shown to produce it, for trees whose strings fit the fixed
  buffers of the writer.
\<close>

section \<open>Writing\<close>

fun write_attributes :: "os_write \<Rightarrow> wstate \<Rightarrow> nat \<Rightarrow> (string \<times> string) option list \<Rightarrow> (bool \<times> wstate) res" where
  "write_attributes os s 0 arr = Inr (True, s)"
| "write_attributes os s (Suc n) [] = Inl Out_of_bounds"
| "write_attributes os s (Suc n) (None # arr) = Inl Uninitialised"
| "write_attributes os s (Suc n) (Some (a, v) # arr) =
     (case mxml_write_attribute os s a v of
        Inl e \<Rightarrow> Inl e
      | Inr (ok, s1) \<Rightarrow> if \<not> ok then Inr (False, s1) else write_attributes os s1 n arr)"

definition write_node_value :: "os_write \<Rightarrow> wstate \<Rightarrow> string option \<Rightarrow> (bool \<times> wstate) res" where
  "write_node_value os s val =
     (case val of Some v \<Rightarrow> mxml_write_value os s v | None \<Rightarrow> Inr (True, s))"

fun mxml_write_subtree :: "os_write \<Rightarrow> wstate \<Rightarrow> mxml_node \<Rightarrow> bool \<Rightarrow> (bool \<times> wstate) res"
  and write_children :: "os_write \<Rightarrow> wstate \<Rightarrow> mxml_node list \<Rightarrow> bool \<Rightarrow> (bool \<times> wstate) res" where
  "mxml_write_subtree os s (MXML_NODE i cs) indent =
     (case mxml_start_element1 os s (nname i) indent of
        Inl e \<Rightarrow> Inl e
      | Inr (_, s1) \<Rightarrow>
          (case write_attributes os s1 (n_attributes i) (attributes i) of
             Inl e \<Rightarrow> Inl e
           | Inr (False, s2) \<Rightarrow> Inr (False, s2)
           | Inr (True, s2) \<Rightarrow>
               (case write_node_value os s2 (nvalue i) of
                  Inl e \<Rightarrow> Inl e
                | Inr (False, s3) \<Rightarrow> Inr (False, s3)
                | Inr (True, s3) \<Rightarrow>
                    (case write_children os s3 cs (nvalue i = None) of
                       Inl e \<Rightarrow> Inl e
                     | Inr (False, s4) \<Rightarrow> Inr (False, s4)
                     | Inr (True, s4) \<Rightarrow>
                         bind_res (mxml_end_element os (snd s4)) (\<lambda>(ok, w). Inr (ok, fst s4, w))))))"
| "write_children os s [] indent = Inr (True, s)"
| "write_children os s (c # cs) indent =
     (case mxml_write_subtree os s c indent of
        Inl e \<Rightarrow> Inl e
      | Inr (False, s1) \<Rightarrow> Inr (False, s1)
      | Inr (True, s1) \<Rightarrow> write_children os s1 cs True)"

fun write_toplevel :: "os_write \<Rightarrow> wstate \<Rightarrow> mxml_node list \<Rightarrow> (bool \<times> wstate) res" where
  "write_toplevel os s [] = Inr (True, s)"
| "write_toplevel os s (c # cs) =
     (if node_type (info c) = ELEMENT_NODE then
        bind_res (mxml_write_subtree os s c True) (\<lambda>(ok, s1).
          if \<not> ok then Inr (False, s1) else write_toplevel os s1 cs)
      else write_toplevel os s cs)"

text \<open>The result flag, the statics, and the contents of the file (\<open>None\<close> if it cannot be opened).\<close>

definition mxml_write_tree ::
  "os_write \<Rightarrow> mxml_static \<Rightarrow> string \<Rightarrow> bool \<Rightarrow> string \<Rightarrow> mxml_node \<Rightarrow> (bool \<times> mxml_static \<times> string option) res" where
  "mxml_write_tree os st file_name opened date tree =
     bind_res (mxml_open_file os st file_name opened date) (\<lambda>r.
       case r of
         None \<Rightarrow> Inr (False, st, None)
       | Some w \<Rightarrow>
           bind_res (write_toplevel os (st, w) (child tree)) (\<lambda>(ok, s1).
             if \<not> ok then Inr (False, fst s1, Some (file_text (snd s1)))
             else bind_res (mxml_close_file os (snd s1)) (\<lambda>(ok2, w2). Inr (ok2, fst s1, Some (file_text w2)))))"

section \<open>Freeing\<close>

lemma tree_wf_slots: "tree_wf t \<Longrightarrow> all_slots t"
  by (induction t rule: tree_wf.induct) (auto simp: info_wf_def slots_ok_def list_all_iff)

text \<open>Freeing a well-formed tree, as the parser returns it, frees every child array of the
  tree exactly as often as it occurs, children first.\<close>

theorem free_tree_complete:
  assumes "tree_wf t"
  shows "mxml_free_tree t = Inr (tree_blocks t)"
  by (rule free_tree_blocks(1) [OF tree_wf_slots [OF assms]])

lemma demo_tree_wf: "tree_wf demo_tree"
  by (simp add: demo_tree_def demo_leaf_def new_node_def empty_info_def info_wf_def inner_kind_def
      MXML_NAME_LENGTH_def strlcpy_str_def)

theorem free_tree_complete_witness: "mxml_free_tree demo_tree = Inr [2, 1]"
  using free_tree_complete [OF demo_tree_wf] by (simp add: demo_tree_def demo_leaf_def new_node_def)

text \<open>A node from which an attribute was deleted cannot be freed any more: the counter still
  includes the deleted attribute, so a pointer behind the array is passed to \<^verbatim>\<open>free\<close>.\<close>

theorem free_after_delete_attribute:
  assumes "attrs_ok t" and "child t = []" and "mxml_delete_attribute t name = Inr (True, t')"
  shows "mxml_free_tree t' = Inl Out_of_bounds"
proof -
  let ?arr = "attributes (info t)"
  from assms(3) obtain i where i: "find_attribute t name = Inr i" "i \<noteq> n_attributes (info t)"
    and t': "t' = map_info (\<lambda>f. f\<lparr>attributes := take i (attributes f) @ drop (i + 1) (attributes f)\<rparr>) t"
    by (auto simp: mxml_delete_attribute_def res_simps split: if_splits)
  have n: "n_attributes (info t) = length ?arr" "None \<notin> set ?arr" using assms(1) by (simp_all add: attrs_ok_def)
  obtain j where "attribute_index ?arr (length ?arr) name 0 = Inr j" "j \<le> length ?arr"
    using attribute_index_ok [of "length ?arr" ?arr 0 name] n(2) by auto
  with i n have "i < length ?arr" by (simp add: find_attribute_def)
  then have "length (take i ?arr @ drop (i + 1) ?arr) < n_attributes (info t)" using n by simp
  moreover have "None \<notin> set (take i ?arr @ drop (i + 1) ?arr)"
    using n(2) by (auto dest: in_set_takeD in_set_dropD)
  ultimately have "free_attributes (n_attributes (info t)) (take i ?arr @ drop (i + 1) ?arr) = Inl Out_of_bounds"
    by (rule free_attributes_short)
  with assms(2) t' show ?thesis by (simp add: map_info_def)
qed

theorem free_after_delete_attribute_witness:
  "\<exists>t'. mxml_delete_attribute demo_attr ''x'' = Inr (True, t') \<and> mxml_free_tree t' = Inl Out_of_bounds"
proof -
  have "\<exists>t'. mxml_delete_attribute demo_attr ''x'' = Inr (True, t')" and ch: "child demo_attr = []"
    by (simp_all add: mxml_delete_attribute_def find_attribute_def attribute_index.simps demo_attr_def
        mxml_add_attribute_def mxml_create_root_node_def empty_info_def map_info_def strlcpy_str_def MXML_NAME_LENGTH_def)
  then obtain t' where "mxml_delete_attribute demo_attr ''x'' = Inr (True, t')" by blast
  with free_after_delete_attribute [OF demo_attr_ok(1) ch this] show ?thesis by blast
qed


section \<open>The text of a tree\<close>

definition attr_text :: "string \<times> string \<Rightarrow> string" where
  "attr_text av = '' '' @ encode_full True (fst av) @ ''='' @ [DQUOTE] @ encode_full True (snd av) @ [DQUOTE]"

definition end_tag :: "string \<Rightarrow> string" where
  "end_tag nm = ''</'' @ encode_full True nm @ ''>'' @ [LF]"

text \<open>
  What follows the indentation of an element at nesting depth \<open>lvl\<close>: an empty element, an
  element with a value, with children, or with a value and children, the first child then
  directly behind the value.
\<close>

fun node_text :: "nat \<Rightarrow> mxml_node \<Rightarrow> string" where
  "node_text lvl (MXML_NODE i cs) =
     ''<'' @ encode_full True (nname i) @ concat (map (\<lambda>a. attr_text (the a)) (attributes i)) @
     (case (nvalue i, map (node_text (lvl + 1)) cs) of
        (None, []) \<Rightarrow> ''/>'' @ [LF]
      | (Some v, []) \<Rightarrow> ''>'' @ encode_full True v @ end_tag (nname i)
      | (None, xs) \<Rightarrow> ''>'' @ [LF] @ concat (map (\<lambda>x. indent_of (lvl + 1) @ x) xs) @
          indent_of lvl @ end_tag (nname i)
      | (Some v, x # xs) \<Rightarrow> ''>'' @ encode_full True v @ x @ concat (map (\<lambda>x. indent_of (lvl + 1) @ x) xs) @
          indent_of lvl @ end_tag (nname i))"

text \<open>When all strings of a tree fit the buffers of the writer.\<close>

definition info_fits :: "nat \<Rightarrow> node_info \<Rightarrow> bool" where
  "info_fits lvl i \<longleftrightarrow> 2 * lvl + length (encode_full True (nname i)) + 20 < 1000 \<and>
     n_attributes i = length (attributes i) \<and>
     list_all (\<lambda>a. case a of None \<Rightarrow> False | Some (n, v) \<Rightarrow>
       length (encode_full True n) + 10 < 4096 \<and> length (encode_full True v) + 10 < 4096) (attributes i) \<and>
     (case nvalue i of None \<Rightarrow> True | Some v \<Rightarrow> length (encode_full True v) + 10 < 1000)"

fun tree_fits :: "nat \<Rightarrow> mxml_node \<Rightarrow> bool" where
  "tree_fits lvl (MXML_NODE i cs) \<longleftrightarrow> info_fits lvl i \<and> list_all (tree_fits (lvl + 1)) cs"

definition wok :: "os_write \<Rightarrow> wstate \<Rightarrow> bool" where
  "wok os s \<longleftrightarrow> good os s \<and> translate (snd s) \<and> data_size (fst s) \<le> 2998"

lemma wok_split: "wok os (st, w) \<longleftrightarrow> good os (st, w) \<and> translate w \<and> data_size st \<le> 2998"
  by (simp add: wok_def)

lemma start_element_wok:
  assumes "wok os s" and "level (snd s) = lvl" and "2 * lvl + length (encode_full True nm) + 20 < 1000"
  obtains s' where "mxml_start_element1 os s nm ind = Inr (True, s')" "wok os s'"
    "view (snd s') = out_start True nm ind (view (snd s))"
proof -
  obtain st w where s: "s = (st, w)" by (cases s)
  with assms have g: "good os (st, w)" "translate w" "data_size st \<le> 2998" by (simp_all add: wok_split)
  have "name_fits w nm" using assms s g by (simp add: name_fits_def)
  moreover obtain st' w' where "mxml_start_element1 os (st, w) nm ind = Inr (True, st', w')"
    "good os (st', w')" "data_size st' = data_size st" "translate w' = translate w"
    "name_fits w nm \<longrightarrow> view w' = out_start (translate w) nm ind (view w)"
    by (rule start_element_mem [OF g(1), of nm ind])
  ultimately show thesis using g s by (intro that [of "(st', w')"]) (simp_all add: wok_split)
qed

lemma attributes_wok:
  assumes "wok os s" and "element_is_open (snd s)"
    and "list_all (\<lambda>a. case a of None \<Rightarrow> False | Some (n, v) \<Rightarrow>
       length (encode_full True n) + 10 < 4096 \<and> length (encode_full True v) + 10 < 4096) arr"
  shows "\<exists>s'. write_attributes os s (length arr) arr = Inr (True, s') \<and> wok os s' \<and>
    view (snd s') = (view (snd s))\<lparr>otext := otext (view (snd s)) @ concat (map (\<lambda>a. attr_text (the a)) arr)\<rparr>"
  using assms
proof (induction arr arbitrary: s)
  case Nil
  then show ?case by (cases "view (snd s)") auto
next
  case (Cons a arr)
  obtain st w where s: "s = (st, w)" by (cases s)
  obtain n v where a: "a = Some (n, v)" using Cons.prems(3) by (cases a) auto
  from Cons.prems s have g: "good os (st, w)" "translate w" "data_size st \<le> 2998" by (simp_all add: wok_split)
  from Cons.prems a have len: "length (encode_full True n) + 10 < 4096" "length (encode_full True v) + 10 < 4096"
    by simp_all
  with length_encode_full [of n True] length_encode_full [of v True] have "length n < 4096" "length v < 4096"
    by linarith+
  then obtain st1 w1 where w1: "mxml_write_attribute os (st, w) n v = Inr (element_is_open w, st1, w1)"
    "good os (st1, w1)" "data_size st1 = data_size st" "translate w1 = translate w"
    "element_is_open w \<and> attr_fits w n \<and> attr_fits w v \<longrightarrow> view w1 = out_attribute (translate w) n v (view w)"
    by (rule write_attribute_mem [OF g(1)])
  have vw: "view w1 = (view w)\<lparr>otext := otext (view w) @ attr_text (n, v)\<rparr>"
    using w1(5) len g(2) Cons.prems(2) s by (simp add: attr_fits_def out_attribute_def attr_text_def)
  then have "pending (view w1) = pending (view w)" by simp
  then have "element_is_open w1" using Cons.prems(2) s by simp
  with w1 g Cons.prems(3) a Cons.IH [of "(st1, w1)"] obtain s' where
    "write_attributes os (st1, w1) (length arr) arr = Inr (True, s')" "wok os s'"
    "view (snd s') = (view w1)\<lparr>otext := otext (view w1) @ concat (map (\<lambda>a. attr_text (the a)) arr)\<rparr>"
    by (auto simp: wok_split)
  with w1(1) vw a s Cons.prems(2) show ?case by simp
qed

lemma value_wok:
  assumes "wok os s" and "element_is_open (snd s)" and "length (encode_full True v) + 10 < 1000"
  obtains s' where "mxml_write_value os s v = Inr (True, s')" "wok os s'"
    "view (snd s') = out_value True v (view (snd s))"
proof -
  obtain st w where s: "s = (st, w)" by (cases s)
  from assms s have g: "good os (st, w)" "translate w" "data_size st \<le> 2998" by (simp_all add: wok_split)
  have len: "length v < 990" using assms(3) length_encode_full [of v True] by linarith
  have dok: "data_ok st" using goodD [OF g(1)] by simp
  have room: "data_room st v" using data_room_short [OF dok] len by simp
  have size: "data_size (grow_data_enc st v) \<le> 2998" "1000 \<le> data_size (grow_data_enc st v)"
    using g(3) len grow_data_enc_ok [OF dok] by (auto simp: grow_data_enc_def)
  have "data_fits st w v" using assms(3) size g(2) by (simp add: data_fits_def)
  moreover obtain st' w' where "mxml_write_value os (st, w) v = Inr (True, st', w')"
    "good os (st', w')" "data_size st' = data_size (grow_data_enc st v)" "translate w' = translate w"
    "data_fits st w v \<longrightarrow> view w' = out_value (translate w) v (view w)"
    by (rule write_value_mem [OF g(1), of v]) (use s assms(2) room size in auto)
  ultimately show thesis using g s size by (intro that [of "(st', w')"]) (simp_all add: wok_split)
qed


lemma end_element_wok:
  assumes "wok os s" and "level (snd s) = Suc lvl"
    and "element_is_open (snd s) \<or> 2 * lvl + length (last (stack (snd s))) + 10 < 1000"
  obtains w' where "mxml_end_element os (snd s) = Inr (True, w')" "wok os (fst s, w')"
    "view w' = out_end (view (snd s))"
proof -
  obtain st w where s: "s = (st, w)" by (cases s)
  from assms s have g: "good os (st, w)" "translate w" "data_size st \<le> 2998" by (simp_all add: wok_split)
  have ok: "encode_ok st" "data_ok st" "writer_ok os w" using goodD [OF g(1)] by simp_all
  obtain w' where "mxml_end_element os w = Inr (level w \<noteq> 0, w')" "writer_ok os w'" "translate w' = translate w"
    "level w = 0 \<or> element_is_open w \<or> 2 * level w + length (last (stack w)) + 4 < 1000 \<longrightarrow>
      view w' = out_end (view w)"
    by (rule end_element_mem [OF ok(3)])
  with s g ok assms(2,3) show thesis
    by (intro that [of w']) (auto simp: wok_split intro: goodI)
qed

section \<open>The functions write the text\<close>

text \<open>The printer after an element has been written completely.\<close>

definition after :: "xml_out \<Rightarrow> string \<Rightarrow> xml_out" where
  "after x txt = x\<lparr>otext := otext x @ close_pending x @ txt, pending := False, inline := False\<rparr>"

lemma after_after: "after (after x a) b = after x (a @ b)"
  by (simp add: after_def close_pending_def)

lemma level_view: "wok os s \<Longrightarrow> level (snd s) = length (tags (view (snd s)))"
  by (cases s) (auto simp: wok_split good_def dest: writer_okD)

text \<open>
  The children, with and without indentation of the first; without children nothing
  changes.
\<close>

definition children_text :: "nat \<Rightarrow> bool \<Rightarrow> mxml_node list \<Rightarrow> string" where
  "children_text lvl ind cs =
     (case map (node_text lvl) cs of
        [] \<Rightarrow> []
      | x # xs \<Rightarrow> (if ind then indent_of lvl else []) @ x @ concat (map (\<lambda>x. indent_of lvl @ x) xs))"

lemma children_text_simps [simp]:
  "children_text lvl ind [] = []"
  "children_text lvl ind (c # cs) = (if ind then indent_of lvl else []) @ node_text lvl c @ children_text lvl True cs"
  by (cases cs; simp add: children_text_def)+

lemma node_text_children:
  "node_text lvl (MXML_NODE i cs) =
     ''<'' @ encode_full True (nname i) @ concat (map (\<lambda>a. attr_text (the a)) (attributes i)) @
     (case nvalue i of
        None \<Rightarrow> if cs = [] then ''/>'' @ [LF]
          else ''>'' @ [LF] @ children_text (lvl + 1) True cs @ indent_of lvl @ end_tag (nname i)
      | Some v \<Rightarrow> ''>'' @ encode_full True v @ children_text (lvl + 1) False cs @
          (if cs = [] then [] else indent_of lvl) @ end_tag (nname i))"
  by (cases cs) (auto simp: children_text_def split: option.splits)

lemma out_node:
  fixes x :: xml_out and i :: node_info and cs :: "mxml_node list" and ind :: bool
  assumes "length (tags x) = lvl"
  defines "x1 \<equiv> out_start True (nname i) ind x"
  defines "x2 \<equiv> x1\<lparr>otext := otext x1 @ concat (map (\<lambda>a. attr_text (the a)) (attributes i))\<rparr>"
  defines "x3 \<equiv> (case nvalue i of None \<Rightarrow> x2 | Some v \<Rightarrow> out_value True v x2)"
  shows "out_end (if cs = [] then x3 else after x3 (children_text (lvl + 1) (nvalue i = None) cs)) =
    after x ((if ind then indent_of lvl else []) @ node_text lvl (MXML_NODE i cs))"
proof -
  obtain t tg p il where x: "x = \<lparr>otext = t, tags = tg, pending = p, inline = il\<rparr>" by (cases x)
  with assms(1) have tg: "length tg = lvl" by simp
  show ?thesis
  proof (cases "nvalue i")
    case None
    then show ?thesis
      unfolding x3_def x2_def x1_def node_text_children
      by (cases "cs = []") (simp_all add: x tg out_end_def out_start_def after_def close_pending_def end_tag_def)
  next
    case (Some v)
    then show ?thesis
      unfolding x3_def x2_def x1_def node_text_children
      by (cases "cs = []")
        (simp_all add: x tg out_end_def out_start_def out_value_def after_def close_pending_def end_tag_def)
  qed
qed

lemma write_subtree_text:
  "wok os s \<Longrightarrow> level (snd s) = lvl \<Longrightarrow> tree_fits lvl t \<Longrightarrow>
   \<exists>s'. mxml_write_subtree os s t ind = Inr (True, s') \<and> wok os s' \<and>
     view (snd s') = after (view (snd s)) ((if ind then indent_of lvl else []) @ node_text lvl t)"
  "wok os s \<Longrightarrow> level (snd s) = lvl \<Longrightarrow> list_all (tree_fits lvl) cs \<Longrightarrow>
   \<exists>s'. write_children os s cs ind = Inr (True, s') \<and> wok os s' \<and>
     view (snd s') = (if cs = [] then view (snd s) else after (view (snd s)) (children_text lvl ind cs))"
proof (induction os s t ind and os s cs ind arbitrary: lvl and lvl rule: mxml_write_subtree_write_children.induct)
  case (1 os s i cs ind)
  let ?nm = "encode_full True (nname i)" and ?x = "view (snd s)"
  from "1.prems" have fits: "info_fits lvl i" "list_all (tree_fits (lvl + 1)) cs" by simp_all
  obtain s1 where s1: "mxml_start_element1 os s (nname i) ind = Inr (True, s1)" "wok os s1"
    "view (snd s1) = out_start True (nname i) ind ?x"
    by (rule start_element_wok [OF "1.prems"(1,2)]) (use fits in \<open>auto simp: info_fits_def\<close>)
  have tg: "tags ?x = stack (snd s)" "length (tags ?x) = lvl" using "1.prems" level_view by auto
  have o1: "element_is_open (snd s1)" "stack (snd s1) = stack (snd s) @ [?nm]"
    using arg_cong [OF s1(3), of pending] arg_cong [OF s1(3), of tags] by (simp_all add: out_start_def)
  obtain s2 where s2: "write_attributes os s1 (n_attributes i) (attributes i) = Inr (True, s2)" "wok os s2"
    "view (snd s2) = (view (snd s1))\<lparr>otext := otext (view (snd s1)) @ concat (map (\<lambda>a. attr_text (the a)) (attributes i))\<rparr>"
    using attributes_wok [OF s1(2) o1(1), of "attributes i"] fits(1) by (auto simp: info_fits_def)
  have o2: "element_is_open (snd s2)" "stack (snd s2) = stack (snd s) @ [?nm]"
    using arg_cong [OF s2(3), of pending] arg_cong [OF s2(3), of tags] o1 by simp_all
  obtain s3 where s3: "write_node_value os s2 (nvalue i) = Inr (True, s3)" "wok os s3"
    "view (snd s3) = (case nvalue i of None \<Rightarrow> view (snd s2) | Some v \<Rightarrow> out_value True v (view (snd s2)))"
  proof (cases "nvalue i")
    case None
    with s2 show thesis by (intro that [of s2]) (simp_all add: write_node_value_def)
  next
    case (Some v)
    with fits(1) have "length (encode_full True v) + 10 < 1000" by (simp add: info_fits_def)
    with s2(2) o2(1) obtain s3 where "mxml_write_value os s2 v = Inr (True, s3)" "wok os s3"
      "view (snd s3) = out_value True v (view (snd s2))" by (rule value_wok)
    with Some show thesis by (intro that [of s3]) (simp_all add: write_node_value_def)
  qed
  have t3: "stack (snd s3) = stack (snd s) @ [?nm]"
    using arg_cong [OF s3(3), of tags] o2 by (simp add: out_value_def split: option.splits)
  have l3: "level (snd s3) = lvl + 1" using level_view [OF s3(2)] t3 tg by simp
  obtain s4 where s4: "write_children os s3 cs (nvalue i = None) = Inr (True, s4)" "wok os s4"
    "view (snd s4) = (if cs = [] then view (snd s3) else after (view (snd s3)) (children_text (lvl + 1) (nvalue i = None) cs))"
    using "1.IH" [OF s1(1) refl s2(1) refl refl s3(1) refl refl s3(2) l3 fits(2)] by blast
  have t4: "stack (snd s4) = stack (snd s) @ [?nm]"
    using arg_cong [OF s4(3), of tags] t3 by (simp add: after_def split: if_splits)
  have l4: "level (snd s4) = Suc lvl" using level_view [OF s4(2)] t4 tg by simp
  obtain w' where w': "mxml_end_element os (snd s4) = Inr (True, w')" "wok os (fst s4, w')"
    "view w' = out_end (view (snd s4))"
    by (rule end_element_wok [OF s4(2) l4]) (use t4 fits(1) in \<open>auto simp: info_fits_def\<close>)
  have "view w' = after ?x ((if ind then indent_of lvl else []) @ node_text lvl (MXML_NODE i cs))"
    unfolding w'(3) s4(3) s3(3) s2(3) s1(3) by (rule out_node [OF tg(2)])
  with s1(1) s2(1) s3(1) s4(1) w' show ?case by simp
next
  case (2 os s ind)
  then show ?case by simp
next
  case (3 os s c cs ind)
  from "3.prems"(3) have "tree_fits lvl c" by simp
  from "3.IH"(1) [OF "3.prems"(1,2) this] obtain s1 where
    s1: "mxml_write_subtree os s c ind = Inr (True, s1)" "wok os s1"
    "view (snd s1) = after (view (snd s)) ((if ind then indent_of lvl else []) @ node_text lvl c)"
    by blast
  have l1: "level (snd s1) = lvl"
    using level_view [OF s1(2)] arg_cong [OF s1(3), of tags] level_view [OF "3.prems"(1)] "3.prems"(2)
    by (simp add: after_def)
  from "3.IH"(2) [OF s1(1) refl refl s1(2) l1] "3.prems"(3) obtain s2 where
    s2: "write_children os s1 cs True = Inr (True, s2)" "wok os s2"
      "view (snd s2) = (if cs = [] then view (snd s1) else after (view (snd s1)) (children_text lvl True cs))"
    by auto
  have "view (snd s2) = after (view (snd s)) (children_text lvl ind (c # cs))"
    unfolding s2(3) s1(3) by (simp add: after_after)
  with s1(1) s2 show ?case by simp
qed


text \<open>A writer stays in the mode it was opened in.\<close>

definition to_file :: "mxml_writer \<Rightarrow> bool" where
  "to_file w \<longleftrightarrow> buffer w = None"

lemma to_file_updates [simp]:
  "to_file (w\<lparr>element_is_open := a\<rparr>) = to_file w" "to_file (w\<lparr>data_was_written := a\<rparr>) = to_file w"
  "to_file (w\<lparr>stack := ns\<rparr>) = to_file w" "to_file (w\<lparr>level := n\<rparr>) = to_file w"
  by (simp_all add: to_file_def)

lemma write_line_mode: "mxml_write_line os w line = Inr (n, w') \<Longrightarrow> to_file w' = to_file w"
  by (auto simp: mxml_write_line_def Let_def to_file_def split: option.splits if_splits)

lemma finish_open_tag_mode: "finish_open_tag os w = Inr w' \<Longrightarrow> to_file w' = to_file w"
  by (auto simp: finish_open_tag_def res_simps split: if_splits dest!: write_line_mode)

lemma start_element_mode: "mxml_start_element1 os s nm ind = Inr (ok, s') \<Longrightarrow> to_file (snd s') = to_file (snd s)"
  by (cases s) (auto simp: mxml_start_element1_def Let_def res_simps dest!: write_line_mode finish_open_tag_mode)

lemma write_attribute_mode: "mxml_write_attribute os s n v = Inr (ok, s') \<Longrightarrow> to_file (snd s') = to_file (snd s)"
  by (cases s) (auto simp: mxml_write_attribute_def Let_def res_simps split: if_splits dest!: write_line_mode)

lemma write_value_mode: "mxml_write_value os s v = Inr (ok, s') \<Longrightarrow> to_file (snd s') = to_file (snd s)"
  by (cases s) (auto simp: mxml_write_value_def Let_def res_simps split: if_splits option.splits dest!: write_line_mode)

lemma end_element_mode: "mxml_end_element os w = Inr (ok, w') \<Longrightarrow> to_file w' = to_file w"
  by (auto simp: mxml_end_element_def Let_def res_simps split: if_splits dest!: write_line_mode)

lemma write_attributes_mode:
  "write_attributes os s n arr = Inr (ok, s') \<Longrightarrow> to_file (snd s') = to_file (snd s)"
proof (induction os s n arr rule: write_attributes.induct)
  case (4 os s n a v arr)
  then obtain b s1 where b: "mxml_write_attribute os s a v = Inr (b, s1)"
    by (cases "mxml_write_attribute os s a v") auto
  with 4 write_attribute_mode [OF b] show ?case by (cases b) auto
qed auto

lemma write_subtree_mode:
  "mxml_write_subtree os s t ind = Inr (ok, s') \<Longrightarrow> to_file (snd s') = to_file (snd s)"
  "write_children os s cs ind = Inr (ok, s') \<Longrightarrow> to_file (snd s') = to_file (snd s)"
proof (induction os s t ind and os s cs ind arbitrary: ok s' and ok s'
    rule: mxml_write_subtree_write_children.induct)
  case (1 os s i cs ind)
  have val: "write_node_value os a v = Inr (b, a') \<Longrightarrow> to_file (snd a') = to_file (snd a)" for a v b a'
    by (auto simp: write_node_value_def split: option.splits dest: write_value_mode)
  from "1.prems" obtain b1 s1 where s1: "mxml_start_element1 os s (nname i) ind = Inr (b1, s1)"
    by (cases "mxml_start_element1 os s (nname i) ind") auto
  with "1.prems" obtain b2 s2 where s2: "write_attributes os s1 (n_attributes i) (attributes i) = Inr (b2, s2)"
    by (cases "write_attributes os s1 (n_attributes i) (attributes i)") auto
  note m = start_element_mode [OF s1] write_attributes_mode [OF s2]
  show ?case
  proof (cases b2)
    case False
    with "1.prems" s1 s2 m show ?thesis by simp
  next
    case b2: True
    with "1.prems" s1 s2 obtain b3 s3 where s3: "write_node_value os s2 (nvalue i) = Inr (b3, s3)"
      by (cases "write_node_value os s2 (nvalue i)") auto
    show ?thesis
    proof (cases b3)
      case False
      with "1.prems" s1 s2 s3 b2 m val [OF s3] show ?thesis by simp
    next
      case b3: True
      with "1.prems" s1 s2 s3 b2 obtain b4 s4 where s4: "write_children os s3 cs (nvalue i = None) = Inr (b4, s4)"
        by (cases "write_children os s3 cs (nvalue i = None)") auto
      have "to_file (snd s4) = to_file (snd s3)"
        using "1.IH" [OF s1 refl s2 refl _ s3 refl _ s4] b2 b3 by simp
      with "1.prems" s1 s2 s3 s4 b2 b3 m val [OF s3] show ?thesis
        by (cases b4) (auto simp: res_simps dest!: end_element_mode)
    qed
  qed
next
  case (3 os s c cs ind)
  from "3.prems" obtain b s1 where s1: "mxml_write_subtree os s c ind = Inr (b, s1)"
    by (cases "mxml_write_subtree os s c ind") auto
  show ?case
  proof (cases b)
    case True
    with "3.prems" s1 have "write_children os s1 cs True = Inr (ok, s')" by simp
    from "3.IH"(2) [OF s1 refl _ this] True "3.IH"(1) [OF s1] show ?thesis by simp
  next
    case False
    with "3.prems" s1 "3.IH"(1) [OF s1] show ?thesis by simp
  qed
qed simp

lemma write_toplevel_mode:
  "write_toplevel os s cs = Inr (ok, s') \<Longrightarrow> to_file (snd s') = to_file (snd s)"
proof (induction cs arbitrary: s)
  case (Cons c cs)
  show ?case
  proof (cases "node_type (info c) = ELEMENT_NODE")
    case True
    with Cons.prems obtain b s1 where s1: "mxml_write_subtree os s c True = Inr (b, s1)"
      by (auto simp: res_simps)
    with Cons True write_subtree_mode(1) [OF s1] show ?thesis by (cases b) auto
  next
    case False
    with Cons show ?thesis by simp
  qed
qed simp

definition element_children :: "mxml_node \<Rightarrow> mxml_node list" where
  "element_children t = filter (\<lambda>c. node_type (info c) = ELEMENT_NODE) (child t)"

definition file_header :: "mxml_static \<Rightarrow> string \<Rightarrow> string" where
  "file_header st date = xml_header @ (if suppress_date_flag st then [] else date_comment (take 24 date))"

lemma write_toplevel_text:
  assumes "wok os s" and "level (snd s) = 0" and "\<not> element_is_open (snd s)" and "\<not> data_was_written (snd s)"
    and "list_all (tree_fits 0) (filter (\<lambda>c. node_type (info c) = ELEMENT_NODE) cs)"
  shows "\<exists>s'. write_toplevel os s cs = Inr (True, s') \<and> wok os s' \<and> view (snd s') = (view (snd s))\<lparr>otext :=
    otext (view (snd s)) @ concat (map (node_text 0) (filter (\<lambda>c. node_type (info c) = ELEMENT_NODE) cs))\<rparr>"
  using assms
proof (induction cs arbitrary: s)
  case Nil
  then show ?case by (cases "view (snd s)") auto
next
  case (Cons c cs)
  show ?case
  proof (cases "node_type (info c) = ELEMENT_NODE")
    case False
    with Cons show ?thesis by simp
  next
    case True
    with Cons.prems write_subtree_text(1) [of os s 0 c True] obtain s1 where
      s1: "mxml_write_subtree os s c True = Inr (True, s1)" "wok os s1"
        "view (snd s1) = after (view (snd s)) (node_text 0 c)"
      by (auto simp: indent_of_def)
    have vw: "view (snd s1) = (view (snd s))\<lparr>otext := otext (view (snd s)) @ node_text 0 c\<rparr>"
      using Cons.prems(3,4) s1(3) by (simp add: after_def close_pending_def view_def)
    have "level (snd s1) = 0" "\<not> element_is_open (snd s1)" "\<not> data_was_written (snd s1)"
      using level_view [OF s1(2)] level_view [OF Cons.prems(1)] Cons.prems(2-4) arg_cong [OF vw, of tags]
        arg_cong [OF vw, of pending] arg_cong [OF vw, of inline] by simp_all
    with Cons.IH [OF s1(2)] Cons.prems(5) True obtain s2 where
      "write_toplevel os s1 cs = Inr (True, s2)" "wok os s2" "view (snd s2) = (view (snd s1))\<lparr>otext :=
        otext (view (snd s1)) @ concat (map (node_text 0) (filter (\<lambda>c. node_type (info c) = ELEMENT_NODE) cs))\<rparr>"
      by auto
    with s1(1) vw True show ?thesis by simp
  qed
qed

lemma write_tree_ok:
  assumes "writes_all os" and "encode_ok st" and "data_ok st" and "data_size st \<le> 2998"
    and "list_all (tree_fits 0) (element_children tree)"
  shows "\<exists>st'. mxml_write_tree os st file_name True date tree =
    Inr (True, st', Some (file_header st date @ concat (map (node_text 0) (element_children tree))))"
proof -
  obtain w where w: "mxml_open_file os st file_name True date = Inr (Some w)" "writer_ok os w" "level w = 0" "translate w"
    "buffer w = None" "view w = \<lparr>otext = file_header st date, tags = [], pending = False, inline = False\<rparr>"
    using open_file_ok [OF assms(1), of st file_name date] unfolding file_header_def by blast
  have "\<not> element_is_open w" "\<not> data_was_written w" using w(6) by (simp_all add: view_def)
  moreover have "wok os (st, w)" using assms w by (simp add: wok_split goodI)
  ultimately obtain s' where s': "write_toplevel os (st, w) (child tree) = Inr (True, s')" "wok os s'"
    "view (snd s') = (view w)\<lparr>otext := otext (view w) @ concat (map (node_text 0) (element_children tree))\<rparr>"
    using write_toplevel_text [of os "(st, w)" "child tree"] w(3) assms(5) by (auto simp: element_children_def)
  obtain st' w' where sw: "s' = (st', w')" by (cases s')
  have open_w': "\<not> element_is_open w'" "level w' = 0" "written w' = file_header st date @ concat (map (node_text 0) (element_children tree))"
    using s'(3) level_view [OF s'(2)] sw w(6) by (simp_all add: view_def)
  have "buffer w' = None"
    using write_toplevel_mode [OF s'(1)] w(5) sw by (simp add: to_file_def)
  with open_w' s'(1) w(1) sw show ?thesis
    by (simp add: mxml_write_tree_def mxml_close_file_def close_levels.simps written_def)
qed

text \<open>C4: If the operating system takes every line and the strings of the tree fit the writer's
  buffers, \<^verbatim>\<open>mxml_write_tree\<close> succeeds and the file holds the header followed by the text of
  each element: correctly nested, indented and escaped, with attributes and values.\<close>

theorem write_tree_text:
  assumes "writes_all os" and "encode_ok st" and "data_ok st" and "data_size st \<le> 2998"
    and "list_all (tree_fits 0) (element_children tree)"
  shows "\<exists>st'. mxml_write_tree os st file_name True date tree =
    Inr (True, st', Some (file_header st date @ concat (map (node_text 0) (element_children tree))))"
  by (rule write_tree_ok [OF assms])

definition demo_os :: os_write where
  "demo_os t line = int (length line)"

definition demo_document :: mxml_node where
  "demo_document = MXML_NODE (empty_info\<lparr>nname := ''root''\<rparr>)
     [MXML_NODE (empty_info\<lparr>nname := ''a'', n_attributes := 1, attributes := [Some (''k'', ''1'')]\<rparr>)
       [MXML_NODE (empty_info\<lparr>nname := ''b'', nvalue := Some ''x<y''\<rparr>) []]]"

lemma demo_document_fits: "list_all (tree_fits 0) (element_children demo_document)"
  by (simp add: demo_document_def element_children_def empty_info_def info_fits_def encode_char_def)

theorem write_tree_text_witness:
  "\<exists>st'. mxml_write_tree demo_os mxml_static_init ''f.xml'' True ''today'' demo_document = Inr (True, st', Some
    (file_header mxml_static_init ''today'' @ ''<a k=\"1\">'' @ [LF] @ ''  <b>x&lt;y</b>'' @ [LF] @ ''</a>'' @ [LF]))"
proof -
  have "concat (map (node_text 0) (element_children demo_document)) =
      ''<a k=\"1\">'' @ [LF] @ ''  <b>x&lt;y</b>'' @ [LF] @ ''</a>'' @ [LF]"
    by (simp add: demo_document_def element_children_def empty_info_def encode_char_def attr_text_def
        end_tag_def indent_of_def numeral_2_eq_2)
  moreover have "writes_all demo_os" by (simp add: writes_all_def demo_os_def)
  ultimately show ?thesis
    using write_tree_text [OF _ encode_ok_init data_ok_init _ demo_document_fits, of demo_os "''f.xml''" "''today''"]
    by simp
qed

end
