(* ===== verification/Mxml_Roundtrip.thy ===== *)
theory Mxml_Roundtrip
  imports Mxml_Subtree
begin

text \<open>
  Reading back what was written: the parser of \<open>Mxml_Parser\<close> applied to the text that
  \<open>mxml_write_tree\<close> produces gives a document with the same elements, names, attributes
  and values.  The proof follows the parser through the text of one element
  (\<open>parse_node_text\<close>); \<open>eappend\<close> is the effect of that on the tree without addresses.
\<close>

section \<open>Trees that survive\<close>

definition tag_name_ok :: "string \<Rightarrow> bool" where
  "tag_name_ok nm \<longleftrightarrow> nm \<noteq> [] \<and> length nm < MXML_NAME_LENGTH \<and> length (encode_full True nm) < 256 \<and>
     list_all (\<lambda>c. \<not> is_space c \<and> c \<noteq> CHR ''/'') nm \<and> hd nm \<noteq> CHR ''!'' \<and> hd nm \<noteq> CHR ''?''"

definition attrib_ok :: "string \<times> string \<Rightarrow> bool" where
  "attrib_ok av \<longleftrightarrow> length (fst av) < MXML_NAME_LENGTH \<and> length (encode_full True (fst av)) < 256 \<and>
     list_all (\<lambda>c. \<not> is_space c \<and> c \<noteq> CHR ''='') (fst av) \<and> peek (fst av) \<noteq> CHR ''/'' \<and>
     length (encode_full True (snd av)) < 1000"

text \<open>
  An element with both a value and children needs a value that is more than white space.  The
  writer's limits are those of the arrays: a name has less than 64 characters and an escaped name less
  than 256, an escaped attribute value less than 1000.
\<close>

fun printable :: "mxml_node \<Rightarrow> bool" where
  "printable (MXML_NODE i cs) \<longleftrightarrow> tag_name_ok (nname i) \<and>
     n_attributes i = length (attributes i) \<and>
     list_all (\<lambda>a. case a of None \<Rightarrow> False | Some av \<Rightarrow> attrib_ok av) (attributes i) \<and>
     (case nvalue i of None \<Rightarrow> True | Some v \<Rightarrow> cs = [] \<or> \<not> list_all is_space v) \<and>
     list_all printable cs"

text \<open>
  What \<^verbatim>\<open>mxml_write_subtree\<close> makes of a node: it does not look at the type, so that comments and
  processing instructions below an element are written as elements.
\<close>

fun as_written :: "mxml_node \<Rightarrow> xtree" where
  "as_written (MXML_NODE i cs) =
     XT (nname i) ELEMENT_NODE (nvalue i) (n_attributes i, attributes i) (map as_written cs)"

fun only_elements :: "mxml_node \<Rightarrow> bool" where
  "only_elements (MXML_NODE i cs) \<longleftrightarrow> node_type i = ELEMENT_NODE \<and> list_all only_elements cs"

lemma as_written_erase: "only_elements t \<Longrightarrow> as_written t = erase t"
  by (induction t rule: only_elements.induct) (simp add: list_all_iff)

section \<open>Escaped text and the scanners\<close>

lemma encode_char_cases:
  obtains "encode_char True c = [c]" "c \<noteq> CHR ''<''" "c \<noteq> CHR ''>''" "c \<noteq> CHR ''&''" "c \<noteq> DQUOTE" "c \<noteq> SQUOTE"
  | e where "encode_char True c = CHR ''&'' # e" "list_all (\<lambda>x. x \<notin> {CHR ''<'', CHR ''>'', CHR ''&'', CHR ''/'', CHR ''='', DQUOTE, SQUOTE} \<and> \<not> is_space x) e"
    "c \<in> {CHR ''<'', CHR ''>'', CHR ''&'', DQUOTE, SQUOTE}"
proof (cases "c \<in> {CHR ''<'', CHR ''>'', CHR ''&'', DQUOTE, SQUOTE}")
  case True
  then have "\<exists>e. encode_char True c = CHR ''&'' # e \<and> list_all (\<lambda>x. x \<notin> {CHR ''<'', CHR ''>'', CHR ''&'', CHR ''/'', CHR ''='', DQUOTE, SQUOTE} \<and> \<not> is_space x) e"
    by (elim insertE emptyE) (simp_all add: encode_char_def is_space_def)
  with True that(2) show thesis by blast
next
  case False
  then show thesis by (intro that(1)) (auto simp: encode_char_def)
qed

lemma encode_full_all:
  assumes "\<And>c. c \<in> set s \<Longrightarrow> c \<notin> {CHR ''<'', CHR ''>'', CHR ''&'', DQUOTE, SQUOTE} \<Longrightarrow> P c"
    and "P (CHR ''&'')" and "\<And>x. x \<notin> {CHR ''<'', CHR ''>'', CHR ''&'', CHR ''/'', CHR ''='', DQUOTE, SQUOTE} \<Longrightarrow> \<not> is_space x \<Longrightarrow> P x"
  shows "list_all P (encode_full True s)"
  using assms(1)
proof (induction s)
  case (Cons c s)
  have "list_all P (encode_char True c)"
    by (rule encode_char_cases [of c]) (use Cons.prems [of c] assms(2,3) in \<open>auto simp: list_all_iff\<close>)
  with Cons show ?case by simp
qed simp

lemma encode_in_node_name:
  "list_all (\<lambda>c. \<not> is_space c \<and> c \<noteq> CHR ''/'') nm \<Longrightarrow> list_all in_node_name (encode_full True nm)"
  by (rule encode_full_all) (auto simp: in_node_name_def list_all_iff is_space_def)

lemma encode_in_attrib_name:
  "list_all (\<lambda>c. \<not> is_space c \<and> c \<noteq> CHR ''='') nm \<Longrightarrow> list_all in_attrib_name (encode_full True nm)"
  by (rule encode_full_all) (auto simp: in_attrib_name_def list_all_iff is_space_def)

lemma encode_no_quote: "DQUOTE \<notin> set (encode_full True v)"
  using encode_full_all [of v "\<lambda>c. c \<noteq> DQUOTE"] by (auto simp: list_all_iff)

lemma encode_no_tag: "CHR ''<'' \<notin> set (encode_full True v)"
  using encode_full_all [of v "\<lambda>c. c \<noteq> CHR ''<''"] by (auto simp: list_all_iff)

lemma encode_hd:
  "s \<noteq> [] \<Longrightarrow> \<exists>r. encode_full True s = (if hd s \<in> {CHR ''<'', CHR ''>'', CHR ''&'', DQUOTE, SQUOTE} then CHR ''&'' else hd s) # r"
  by (cases s) (auto simp: encode_char_def)

lemma encode_space: "list_all is_space (encode_full True v) \<longleftrightarrow> list_all is_space v"
proof (induction v)
  case (Cons c v)
  have "list_all is_space (encode_char True c) \<longleftrightarrow> is_space c"
    by (rule encode_char_cases [of c]) (auto simp: is_space_def)
  with Cons show ?case by simp
qed simp

lemma run_append:
  assumes "list_all P a" and "b \<noteq> []" and "\<not> P (hd b)"
  shows "takeWhile P (a @ b) = a" "dropWhile P (a @ b) = b"
  using assms by (induction a; cases b; simp)+

lemma skip_ws_run:
  "list_all is_space e \<Longrightarrow> b \<noteq> [] \<Longrightarrow> \<not> is_space (hd b) \<Longrightarrow> \<exists>ln'. skip_ws (e @ b) ln = Inr (b, ln')"
  by (simp add: skip_ws_def run_append Let_def)

lemma skip_ws_none: "p \<noteq> [] \<Longrightarrow> \<not> is_space (hd p) \<Longrightarrow> skip_ws p ln = Inr (p, ln)"
  using run_append [of is_space "[]" p] by (simp add: skip_ws_def)

lemma node_name_text:
  assumes "tag_name_ok nm" and "q \<noteq> []" and "\<not> in_node_name (hd q)" and "hd q \<noteq> CHR ''<''"
  shows "parse_node_name (encode_full True nm @ q) ln = Inr (nm, q)"
proof -
  have "list_all in_node_name (encode_full True nm)"
    using assms(1) by (intro encode_in_node_name) (simp add: tag_name_ok_def)
  note r = run_append [OF this assms(2,3)]
  have "peek q \<noteq> CHR ''<''" using assms(2,4) by (cases q) auto
  with r assms show ?thesis
    by (simp add: parse_node_name_def Let_def tag_name_ok_def)
qed


section \<open>Attributes\<close>

fun attrs_body :: "(string \<times> string) list \<Rightarrow> string \<Rightarrow> string" where
  "attrs_body [] q = q"
| "attrs_body (av # avs) q = encode_full True (fst av) @ CHR ''='' # DQUOTE # encode_full True (snd av) @
     DQUOTE # concat (map attr_text avs) @ q"

lemma attr_text_body:
  "concat (map attr_text avs) @ q = (if avs = [] then q else CHR '' '' # attrs_body avs q)"
  by (cases avs) (simp_all add: attr_text_def)

lemma attrs_body_start:
  assumes "list_all attrib_ok avs" and "hd q = CHR ''/'' \<or> hd q = CHR ''>''" and "q \<noteq> []"
  shows "attrs_body avs q \<noteq> []" "\<not> is_space (hd (attrs_body avs q))"
    "avs \<noteq> [] \<Longrightarrow> peek (attrs_body avs q) \<noteq> CHR ''>'' \<and> peek (attrs_body avs q) \<noteq> CHR ''/''"
proof -
  have "attrs_body avs q \<noteq> [] \<and> \<not> is_space (hd (attrs_body avs q)) \<and>
    (avs \<noteq> [] \<longrightarrow> peek (attrs_body avs q) \<noteq> CHR ''>'' \<and> peek (attrs_body avs q) \<noteq> CHR ''/'')"
  proof (cases avs)
    case Nil
    with assms show ?thesis by (auto simp: is_space_def)
  next
    case (Cons av avs')
    show ?thesis
    proof (cases "fst av")
      case Nil
      with Cons show ?thesis by (simp add: is_space_def)
    next
      case a: (Cons c a)
      have c: "\<not> is_space c" "c \<noteq> CHR ''/''" using assms(1) Cons a by (simp_all add: attrib_ok_def)
      show ?thesis by (rule encode_char_cases [of c]) (use Cons a c in \<open>simp_all add: is_space_def\<close>)
    qed
  qed
  then show "attrs_body avs q \<noteq> []" "\<not> is_space (hd (attrs_body avs q))"
    "avs \<noteq> [] \<Longrightarrow> peek (attrs_body avs q) \<noteq> CHR ''>'' \<and> peek (attrs_body avs q) \<noteq> CHR ''/''" by simp_all
qed

lemma parse_attribute_text:
  assumes "attrib_ok (a, v)" and "list_all is_space e" and "r \<noteq> []" and "\<not> is_space (hd r)"
  shows "\<exists>ln'. parse_attribute nm (encode_full True a @ CHR ''='' # DQUOTE # encode_full True v @ DQUOTE # e @ r) ln =
    Inr (a, v, r, ln')"
proof -
  let ?q = "CHR ''='' # DQUOTE # encode_full True v @ DQUOTE # e @ r"
  have "list_all in_attrib_name (encode_full True a)"
    using assms(1) by (intro encode_in_attrib_name) (simp add: attrib_ok_def)
  note nm = run_append [OF this, of ?q, simplified in_attrib_name_def, simplified, folded in_attrib_name_def]
  have q1: "skip_ws ?q ln = Inr (?q, ln)" by (rule skip_ws_none) (simp_all add: is_space_def)
  have q2: "skip_ws (DQUOTE # encode_full True v @ DQUOTE # e @ r) ln = Inr (DQUOTE # encode_full True v @ DQUOTE # e @ r, ln)"
    by (rule skip_ws_none) (simp_all add: is_space_def)
  have "list_all (\<lambda>c. c \<noteq> DQUOTE) (encode_full True v)" using encode_no_quote [of v] by (auto simp: list_all_iff)
  note vl = run_append [OF this, of "DQUOTE # e @ r", simplified]
  obtain ln' where q3: "skip_ws (e @ r) ln = Inr (r, ln')" using skip_ws_run [OF assms(2-4)] by blast
  have len: "length (encode_full True a) \<le> 255" "length (encode_full True v) \<le> 999"
    using assms(1) by (simp_all add: attrib_ok_def)
  show ?thesis
    unfolding parse_attribute_def Let_def
    using nm q1 q2 q3 vl len by (simp del: takeWhile_append dropWhile_append dropWhile_eq_Nil_conv)
qed

lemma parse_attributes_text:
  assumes "list_all attrib_ok avs" and "hd q = CHR ''/'' \<or> hd q = CHR ''>''" and "q \<noteq> []"
  shows "\<exists>ln'. parse_attributes nm (attrs_body avs q) ln t =
    Inr (q, ln', fold (\<lambda>(a, v) t. mxml_add_attribute t a v) avs t)"
  using assms(1)
proof (induction avs arbitrary: t ln)
  case Nil
  have "peek q = CHR ''>'' \<or> peek q = CHR ''/''" using assms(2,3) by (cases q) auto
  then show ?case by (simp add: parse_attributes.simps [of nm q])
next
  case (Cons av avs)
  obtain a v where av: "av = (a, v)" by (cases av)
  let ?e = "if avs = [] then [] else '' ''"
  have body: "attrs_body (av # avs) q =
      encode_full True a @ CHR ''='' # DQUOTE # encode_full True v @ DQUOTE # ?e @ attrs_body avs q"
    using attr_text_body [of avs q] by (simp add: av)
  have st: "attrs_body avs q \<noteq> []" "\<not> is_space (hd (attrs_body avs q))"
    using attrs_body_start [of avs q] Cons.prems assms(2,3) by simp_all
  have "list_all is_space ?e" by (simp add: is_space_def)
  with Cons.prems st av obtain l1 where "parse_attribute nm (attrs_body (av # avs) q) ln = Inr (a, v, attrs_body avs q, l1)"
    unfolding body using parse_attribute_text [of a v ?e "attrs_body avs q" nm ln] by auto
  moreover have "\<not> (peek (attrs_body (av # avs) q) = CHR ''>'' \<or> peek (attrs_body (av # avs) q) = CHR ''/'')"
    using attrs_body_start(3) [OF Cons.prems assms(2,3)] by blast
  ultimately have "parse_attributes nm (attrs_body (av # avs) q) ln t =
      parse_attributes nm (attrs_body avs q) l1 (mxml_add_attribute t a v)"
    by (subst parse_attributes.simps) simp
  with Cons.IH [of l1 "mxml_add_attribute t a v"] Cons.prems av show ?case by simp
qed

section \<open>Contents\<close>

lemma before_append [simp]: "before (a @ b) b = a"
  by (simp add: before_def)

lemma parse_content_value:
  assumes "CHR ''<'' \<notin> set e" and "\<not> list_all is_space e \<or> peek q = CHR ''/''"
  shows "\<exists>ln'. parse_content (e @ CHR ''<'' # q) ln t =
    Inr (CHR ''<'' # q, ln', map_info (\<lambda>i. i\<lparr>nvalue := Some (mxml_decode e)\<rparr>) t)"
proof -
  define e1 e2 where "e1 = takeWhile is_space e" and "e2 = dropWhile is_space e"
  have e: "e = e1 @ e2" "list_all is_space e1" by (auto simp: e1_def e2_def list_all_iff dest: set_takeWhileD)
  have e2: "e2 \<noteq> [] \<Longrightarrow> \<not> is_space (hd e2)" by (metis e2_def hd_dropWhile)
  have "\<exists>ln'. skip_ws (e1 @ (e2 @ CHR ''<'' # q)) ln = Inr (e2 @ CHR ''<'' # q, ln')"
    by (rule skip_ws_run [OF e(2)]) (use e2 in \<open>cases e2; auto simp: is_space_def\<close>)+
  then obtain ln' where ws: "skip_ws (e @ CHR ''<'' # q) ln = Inr (e2 @ CHR ''<'' # q, ln')" using e(1) by auto
  have no: "list_all (\<lambda>c. c \<noteq> CHR ''<'') e2" using assms(1) e(1) by (auto simp: list_all_iff)
  have dw: "dropWhile (\<lambda>c. c \<noteq> CHR ''<'') (e2 @ CHR ''<'' # q) = CHR ''<'' # q"
    using run_append(2) [OF no, of "CHR ''<'' # q"] by simp
  have "\<not> (peek (e2 @ CHR ''<'' # q) = CHR ''<'' \<and> peek (tl (e2 @ CHR ''<'' # q)) \<noteq> CHR ''/'')"
  proof (cases e2)
    case Nil
    then have "list_all is_space e" using e by simp
    with assms(2) Nil show ?thesis by simp
  next
    case (Cons c e3)
    with no show ?thesis by simp
  qed
  with ws dw show ?thesis
    by (auto simp: parse_content_def Let_def simp del: dropWhile_append dropWhile_eq_Nil_conv)
qed

lemma parse_content_children:
  assumes "list_all is_space e" and "peek q \<noteq> CHR ''/''"
  shows "\<exists>ln'. parse_content (e @ CHR ''<'' # q) ln t = Inr (CHR ''<'' # q, ln', t)"
proof -
  obtain ln' where "skip_ws (e @ CHR ''<'' # q) ln = Inr (CHR ''<'' # q, ln')"
    using skip_ws_run [OF assms(1), of "CHR ''<'' # q" ln] by (auto simp: is_space_def)
  with assms(2) show ?thesis by (simp add: parse_content_def)
qed


section \<open>The tree without addresses\<close>

fun eappend :: "nat list \<Rightarrow> xtree \<Rightarrow> xtree \<Rightarrow> xtree" where
  "eappend [] x (XT n k v a cs) = XT n k v a (cs @ [x])"
| "eappend (j # p) x (XT n k v a cs) = XT n k v a (cs[j := eappend p x (cs ! j)])"

lemma erase_update:
  "valid_path t p \<Longrightarrow> erase (f (node_at t p)) = eappend [] x (erase (node_at t p)) \<Longrightarrow>
   erase (update_at p f t) = eappend p x (erase t)"
proof (induction p arbitrary: t)
  case (Cons j p)
  obtain i cs where t: "t = MXML_NODE i cs" by (cases t)
  from Cons t show ?case by (simp add: n_children_def map_update)
qed simp

lemma erase_update_same:
  "valid_path t p \<Longrightarrow> (\<And>u. erase (f u) = erase u) \<Longrightarrow> erase (update_at p f t) = erase t"
proof (induction p arbitrary: t)
  case (Cons j p)
  obtain i cs where t: "t = MXML_NODE i cs" by (cases t)
  from Cons t show ?case by (simp add: n_children_def map_update list_update_same_conv)
qed simp

lemma eappend_nested:
  "valid_path t p \<Longrightarrow> k = n_children (node_at t p) \<Longrightarrow>
   eappend (p @ [k]) y (eappend p (XT n kd v a ys) (erase t)) = eappend p (XT n kd v a (ys @ [y])) (erase t)"
proof (induction p arbitrary: t)
  case Nil
  obtain i cs where t: "t = MXML_NODE i cs" by (cases t)
  with Nil show ?case by (simp add: n_children_def nth_append list_update_append)
next
  case (Cons j p)
  obtain i cs where t: "t = MXML_NODE i cs" by (cases t)
  from Cons t show ?case by (simp add: n_children_def)
qed

lemma store_child_erase:
  assumes "parser_ok st" and "ptree st = Some path" and "add_child al st path kind name = Inr (par', new)"
  shows "erase (root (store_child st path par' pnew)) = eappend path (erase pnew) (erase (root st))"
    and "n_children par' - 1 = n_children (node_at (root st) path)"
proof -
  let ?par = "node_at (root st) path" and ?nb = "al (n_alloc st)"
  from assms(3) have par': "par' = MXML_NODE ((info ?par)\<lparr>child_block := ?nb\<rparr>) (fix_all ?nb (child ?par) @ [new])"
    by (auto simp: add_child_result Let_def)
  show "n_children par' - 1 = n_children ?par" by (simp add: par' n_children_def)
  have "valid_path (root st) path" using assms(1,2) by (simp add: parser_ok_def)
  then show "erase (root (store_child st path par' pnew)) = eappend path (erase pnew) (erase (root st))"
    unfolding store_child_def by (simp, intro erase_update)
      (simp_all add: par' n_children_def list_update_append erase_simp [of ?par])
qed

section \<open>The steps of the parser on printed text\<close>

definition to_tag :: "string \<Rightarrow> string" where
  "to_tag q = dropWhile (\<lambda>c. c \<noteq> CHR ''<'') q"

definition continue :: "(nat \<Rightarrow> nat) \<Rightarrow> parser \<Rightarrow> parse_error + parser" where
  "continue al st = (if pos st \<noteq> [] then parse_loop al st else Inr st)"

lemma parse_loop_step: "parse_step al st = Inr st' \<Longrightarrow> parse_loop al st = continue al st'"
  by (simp add: parse_loop.simps [of al st] continue_def)

text \<open>Any markup that starts with a name is a start tag.\<close>

lemma markup_start_tag:
  assumes "tag_name_ok nm" and "pos st = CHR ''<'' # encode_full True nm @ q" and "q \<noteq> []"
    and "\<not> in_node_name (hd q)" and "hd q \<noteq> CHR ''<''"
  shows "parse_markup al st = parse_start_tag al (st\<lparr>pos := q\<rparr>) nm"
proof -
  obtain c nm' where nm: "nm = c # nm'" using assms(1) by (cases nm) (auto simp: tag_name_ok_def)
  have c: "\<not> is_space c" "c \<noteq> CHR ''/''" "c \<noteq> CHR ''!''" "c \<noteq> CHR ''?''"
    using assms(1) nm by (auto simp: tag_name_ok_def)
  let ?p = "encode_full True nm @ q"
  obtain d r where dr: "?p = d # r" "\<not> is_space d" "d \<noteq> CHR ''/''" "d \<noteq> CHR ''!''" "d \<noteq> CHR ''?''"
    by (rule encode_char_cases [of c]) (use nm c in \<open>auto simp: is_space_def\<close>)
  have "skip_ws ?p (line_number st) = Inr (?p, line_number st)"
    by (rule skip_ws_none) (use dr in simp_all)
  moreover have "parse_element al (st\<lparr>pos := ?p, line_number := line_number st\<rparr>) =
      parse_start_tag al (st\<lparr>pos := q\<rparr>) nm"
    using dr node_name_text [OF assms(1,3-5), of "line_number st"]
    by (simp add: parse_element_def del: encode_full_simps)
  ultimately show ?thesis
    using dr assms(2) by (simp add: parse_markup_def Let_def starts_with_def del: encode_full_simps)
qed

lemma fold_attributes:
  assumes "child t = []" and "attributes (info t) = map Some as" and "n_attributes (info t) = length as"
    and "list_all attrib_ok avs"
  shows "erase (fold (\<lambda>(a, v) t. mxml_add_attribute t a v) avs t) =
    XT (nname (info t)) (node_type (info t)) (nvalue (info t)) (length (as @ avs), map Some (as @ avs)) []"
  using assms
proof (induction avs arbitrary: t as)
  case Nil
  then show ?case by (simp add: erase_simp [of t])
next
  case (Cons av avs)
  obtain a v where av: "av = (a, v)" by (cases av)
  let ?t = "mxml_add_attribute t a v"
  have "strlcpy_str MXML_NAME_LENGTH a = a" using Cons.prems(4) av by (simp add: strlcpy_str_id attrib_ok_def)
  then have "attributes (info ?t) = map Some (as @ [av])" "n_attributes (info ?t) = length (as @ [av])" "child ?t = []"
    "nname (info ?t) = nname (info t)" "node_type (info ?t) = node_type (info t)" "nvalue (info ?t) = nvalue (info t)"
    using Cons.prems(1-3) av by (simp_all add: mxml_add_attribute_def Let_def list_update_append)
  with Cons.IH [of ?t "as @ [av]"] Cons.prems(4) av show ?case by simp
qed

text \<open>A start tag with its attributes, up to the closing bracket or slash.\<close>

lemma start_tag_text:
  assumes "parser_ok st" and "ptree st = Some path" and "tag_name_ok nm" and "list_all attrib_ok avs"
    and "pos st = CHR ''<'' # encode_full True nm @ concat (map attr_text avs) @ q"
    and "q \<noteq> []" and "hd q = CHR ''/'' \<or> hd q = CHR ''>''"
  obtains par' new pnew st1 ln where "parse_markup al st = parse_tag_end st1 path par' pnew q ln"
    and "root st1 = root st" "ptree st1 = ptree st" "n_alloc st1 = n_alloc st"
    and "add_child al st1 path ELEMENT_NODE nm = Inr (par', new)"
    and "erase pnew = XT nm ELEMENT_NODE None (length avs, map Some avs) []"
proof -
  let ?r = "concat (map attr_text avs) @ q"
  have r: "?r \<noteq> []" "\<not> in_node_name (hd ?r)" "hd ?r \<noteq> CHR ''<''"
    using assms(6,7) attr_text_body [of avs q] by (auto simp: in_node_name_def is_space_def)
  define st1 where "st1 = st\<lparr>pos := ?r\<rparr>"
  have mk: "parse_markup al st = parse_start_tag al st1 nm"
    unfolding st1_def by (rule markup_start_tag) (use assms(3,5) r in auto)
  obtain par' new where add: "add_child al st1 path ELEMENT_NODE nm = Inr (par', new)" by (rule add_child_cases)
  then obtain a where new: "new = new_node a ELEMENT_NODE nm None" using add_child_new by blast
  define pnew where "pnew = map_info (\<lambda>i. i\<lparr>line_number_start := line_number st1, line_number_end := line_number st1\<rparr>) new"
  have "list_all is_space (if avs = [] then [] else '' '')" by (simp add: is_space_def)
  from skip_ws_run [OF this, of "attrs_body avs q"] attrs_body_start [OF assms(4,7,6)]
  obtain l1 where ws: "skip_ws ?r (line_number st1) = Inr (attrs_body avs q, l1)"
    using attr_text_body [of avs q] by (auto split: if_splits)
  obtain l2 where at: "parse_attributes nm (attrs_body avs q) l1 pnew =
      Inr (q, l2, fold (\<lambda>(a, v) t. mxml_add_attribute t a v) avs pnew)"
    using parse_attributes_text [OF assms(4,7,6)] by blast
  have nm: "strlcpy_str MXML_NAME_LENGTH nm = nm" using assms(3) by (simp add: tag_name_ok_def strlcpy_str_id)
  have "erase (fold (\<lambda>(a, v) t. mxml_add_attribute t a v) avs pnew) =
      XT nm ELEMENT_NODE None (length avs, map Some avs) []"
    using fold_attributes [of pnew "[]" avs] assms(4)
    by (simp add: pnew_def new new_node_def empty_info_def nm)
  moreover have "parse_start_tag al st1 nm = parse_tag_end st1 path par' (fold (\<lambda>(a, v) t. mxml_add_attribute t a v) avs pnew) q l2"
    using assms(2) add ws at by (simp add: parse_start_tag_def st1_def Let_def pnew_def)
  ultimately show thesis
    using mk add by (intro that [of st1 par' "fold (\<lambda>(a, v) t. mxml_add_attribute t a v) avs pnew" l2 new])
      (simp_all add: st1_def)
qed


text \<open>
  What one element, or a list of children, does to the parser: the open node is the same
  as before, the scan has reached the next tag and the tree has new children at the end of
  the open node.
\<close>

definition appended :: "parser \<Rightarrow> nat list \<Rightarrow> string \<Rightarrow> xtree list \<Rightarrow> parser \<Rightarrow> bool" where
  "appended st path q xs st' \<longleftrightarrow> parser_ok st' \<and> ptree st' = Some path \<and> pos st' = to_tag q \<and>
     erase (root st') = fold (eappend path) xs (erase (root st))"

lemma empty_element_text:
  assumes "parser_ok st" and "ptree st = Some path" and "tag_name_ok nm" and "list_all attrib_ok avs"
    and "pos st = CHR ''<'' # encode_full True nm @ concat (map attr_text avs) @ ''/>'' @ LF # q"
  obtains st' where "parse_step al st = Inr st'"
    "appended st path q [XT nm ELEMENT_NODE None (length avs, map Some avs) []] st'"
proof -
  obtain par' new pnew st1 ln where mk: "parse_markup al st = parse_tag_end st1 path par' pnew (''/>'' @ LF # q) ln"
    and st1: "root st1 = root st" "ptree st1 = ptree st" "n_alloc st1 = n_alloc st"
    and add: "add_child al st1 path ELEMENT_NODE nm = Inr (par', new)"
    and er: "erase pnew = XT nm ELEMENT_NODE None (length avs, map Some avs) []"
    by (rule start_tag_text [OF assms(1-4), where q = "''/>'' @ LF # q" and al = al]) (use assms(5) in auto)
  have "parse_empty_close (''/>'' @ LF # q) ln = Inr (LF # q, ln)"
    using skip_ws_none [of "CHR ''>'' # LF # q" ln] by (simp add: parse_empty_close_def is_space_def)
  then have mk2: "parse_markup al st = Inr ((store_child st1 path par' pnew)\<lparr>pos := LF # q, line_number := ln\<rparr>)"
    using mk by (simp add: parse_tag_end_def)
  let ?st = "skip_to_tag ((store_child st1 path par' pnew)\<lparr>pos := LF # q, line_number := ln\<rparr>)"
  have step: "parse_step al st = Inr ?st" using mk2 by (simp add: parse_step_def)
  have ok1: "parser_ok st1" using assms(1) st1 by (simp add: parser_ok_def)
  have "parser_ok ?st" using parse_step_ok [OF assms(1), of al] step by simp
  moreover have "ptree ?st = Some path" "pos ?st = to_tag q"
    using st1 assms(2) by (simp_all add: skip_to_tag_def store_child_def to_tag_def)
  moreover have "erase (root ?st) = eappend path (XT nm ELEMENT_NODE None (length avs, map Some avs) []) (erase (root st))"
    using store_child_erase(1) [OF ok1 _ add, of pnew] st1 assms(2) er by (simp add: skip_to_tag_def)
  ultimately show thesis using step by (intro that [of ?st]) (simp_all add: appended_def)
qed

text \<open>A start tag whose contents follow: the new node becomes the open one.\<close>

lemma open_element_text:
  assumes "parser_ok st" and "ptree st = Some path" and "tag_name_ok nm" and "list_all attrib_ok avs"
    and "pos st = CHR ''<'' # encode_full True nm @ concat (map attr_text avs) @ CHR ''>'' # e @ CHR ''<'' # q"
    and "(case val of Some v \<Rightarrow> e = encode_full True v \<and> (\<not> list_all is_space v \<or> peek q = CHR ''/'')
          | None \<Rightarrow> list_all is_space e \<and> peek q \<noteq> CHR ''/'')"
  obtains st' where "parse_step al st = Inr st'" "parser_ok st'"
    "ptree st' = Some (path @ [n_children (node_at (root st) path)])" "pos st' = CHR ''<'' # q"
    "erase (root st') = eappend path (XT nm ELEMENT_NODE val (length avs, map Some avs) []) (erase (root st))"
    "nname (info (node_at (root st') (path @ [n_children (node_at (root st) path)]))) = nm"
proof -
  let ?q = "CHR ''>'' # e @ CHR ''<'' # q"
  obtain par' new pnew st1 ln where mk: "parse_markup al st = parse_tag_end st1 path par' pnew ?q ln"
    and st1: "root st1 = root st" "ptree st1 = ptree st" "n_alloc st1 = n_alloc st"
    and add: "add_child al st1 path ELEMENT_NODE nm = Inr (par', new)"
    and er: "erase pnew = XT nm ELEMENT_NODE None (length avs, map Some avs) []"
    by (rule start_tag_text [OF assms(1-4), where q = ?q and al = al]) (use assms(5) in auto)
  have ec: "parse_empty_close ?q ln = Inr (?q, ln)" by (simp add: parse_empty_close_def)
  define pnew2 where "pnew2 = (case val of None \<Rightarrow> pnew | Some v \<Rightarrow> map_info (\<lambda>i. i\<lparr>nvalue := Some v\<rparr>) pnew)"
  have "\<exists>l2. parse_content (e @ CHR ''<'' # q) ln pnew = Inr (CHR ''<'' # q, l2, pnew2)"
  proof (cases val)
    case None
    with assms(6) parse_content_children [of e q ln pnew] show ?thesis by (simp add: pnew2_def)
  next
    case (Some v)
    with assms(6) have "e = encode_full True v" "\<not> list_all is_space e \<or> peek q = CHR ''/''"
      by (auto simp: encode_space)
    with parse_content_value [of e q ln pnew] encode_no_tag [of v] Some show ?thesis by (simp add: pnew2_def)
  qed
  then obtain l2 where ct: "parse_content (e @ CHR ''<'' # q) ln pnew = Inr (CHR ''<'' # q, l2, pnew2)" ..
  have er2: "erase pnew2 = XT nm ELEMENT_NODE val (length avs, map Some avs) []"
    using er by (cases pnew) (auto simp: pnew2_def map_info_def split: option.splits)
  let ?s0 = "store_child st1 path par' pnew2"
  let ?k = "n_children (node_at (root st) path)"
  have ok1: "parser_ok st1" using assms(1) st1 by (simp add: parser_ok_def)
  have pt1: "ptree st1 = Some path" using st1 assms(2) by simp
  have k: "n_children par' - 1 = ?k" using store_child_erase(2) [OF ok1 pt1 add] st1 by simp
  let ?st = "skip_to_tag (?s0\<lparr>pos := CHR ''<'' # q, line_number := l2, ptree := Some (path @ [?k])\<rparr>)"
  have step: "parse_step al st = Inr ?st"
    using mk ec ct k by (simp add: parse_step_def parse_tag_end_def)
  have ok: "parser_ok ?st" using parse_step_ok [OF assms(1), of al] step by simp
  have nd: "node_at (root ?st) (path @ [?k]) = pnew2"
  proof -
    from add have par': "par' = MXML_NODE ((info (node_at (root st1) path))\<lparr>child_block := al (n_alloc st1)\<rparr>)
        (fix_all (al (n_alloc st1)) (child (node_at (root st1) path)) @ [new])"
      by (auto simp: add_child_result Let_def)
    have "valid_path (root st1) path" using ok1 pt1 by (simp add: parser_ok_def)
    then show ?thesis
      using k st1 by (simp add: skip_to_tag_def store_child_def node_at_append)
        (simp add: par' n_children_def list_update_append nth_append)
  qed
  show thesis
  proof (rule that [OF step ok])
    show "ptree ?st = Some (path @ [?k])" "pos ?st = CHR ''<'' # q" by (simp_all add: skip_to_tag_def)
    show "erase (root ?st) = eappend path (XT nm ELEMENT_NODE val (length avs, map Some avs) []) (erase (root st))"
      using store_child_erase(1) [OF ok1 pt1 add, of pnew2] st1 er2 by (simp add: skip_to_tag_def)
    show "nname (info (node_at (root ?st) (path @ [?k]))) = nm"
      unfolding nd using er2 by (cases pnew2) simp
  qed
qed

lemma end_tag_text:
  assumes "parser_ok st" and "ptree st = Some (path @ [k])" and "tag_name_ok nm"
    and "nname (info (node_at (root st) (path @ [k]))) = nm" and "pos st = end_tag nm @ q"
  obtains st' where "parse_step al st = Inr st'" "appended st path q [] st'"
proof -
  let ?p = "path @ [k]"
  from assms(1,2) have ok: "parents_ok (0, 0) (root st)" "valid_path (root st) ?p" by (auto simp: parser_ok_def)
  let ?r = "CHR ''>'' # LF # q"
  let ?n = "encode_full True nm @ ?r"
  have ne: "?n \<noteq> [] \<and> \<not> is_space (hd ?n)"
  proof -
    obtain c nm' where nm: "nm = c # nm'" using assms(3) by (cases nm) (auto simp: tag_name_ok_def)
    then have "\<not> is_space c" using assms(3) by (simp add: tag_name_ok_def)
    then show ?thesis by (rule_tac c = c in encode_char_cases) (auto simp: nm is_space_def)
  qed
  have ws: "skip_ws (CHR ''/'' # ?n) l = Inr (CHR ''/'' # ?n, l)" "skip_ws ?n l = Inr (?n, l)" for l
    by (rule skip_ws_none; use ne in \<open>simp add: is_space_def\<close>)+
  have nn: "parse_node_name ?n l = Inr (nm, ?r)" for l
    by (rule node_name_text [OF assms(3)]) (simp_all add: in_node_name_def)
  let ?f = "map_info (\<lambda>i. i\<lparr>line_number_end := line_number st\<rparr>)"
  let ?s = "st\<lparr>pos := ?r, root := update_at ?p ?f (root st), ptree := Some path\<rparr>"
  have "parse_end_tag (st\<lparr>pos := ?r, line_number := line_number st\<rparr>) nm = Inr ?s"
    using assms(2,4) parent_at [OF ok] by (simp add: parse_end_tag_def Let_def)
  then have mk: "parse_markup al st = Inr ?s"
    using assms(5) ws nn by (simp add: parse_markup_def parse_element_def end_tag_def starts_with_def Let_def)
  then have step: "parse_step al st = Inr (skip_to_tag ?s)" by (simp add: parse_step_def)
  have "parser_ok (skip_to_tag ?s)" using parse_step_ok [OF assms(1), of al] step by simp
  moreover have "erase (update_at ?p ?f (root st)) = erase (root st)"
    by (rule erase_update_same [OF ok(2)]) (simp add: erase_simp)
  moreover have "ptree (skip_to_tag ?s) = Some path" "pos (skip_to_tag ?s) = to_tag q"
    "root (skip_to_tag ?s) = update_at ?p ?f (root st)"
    by (simp_all add: skip_to_tag_def to_tag_def)
  ultimately show thesis using step by (intro that [of "skip_to_tag ?s"]) (simp_all add: appended_def)
qed


section \<open>Elements\<close>

lemma indent_space: "list_all is_space (indent_of n)"
  by (auto simp: indent_of_def list_all_iff is_space_def)

lemma to_tag_skip: "CHR ''<'' \<notin> set e \<Longrightarrow> to_tag (e @ q) = to_tag q"
  by (induction e) (auto simp: to_tag_def)

lemma space_no_tag: "list_all is_space e \<Longrightarrow> CHR ''<'' \<notin> set e"
proof
  assume "list_all is_space e" and "CHR ''<'' \<in> set e"
  then have "is_space CHR ''<''" unfolding list_all_iff by blast
  then show False by (simp add: is_space_def)
qed

lemma to_tag_here [simp]: "to_tag (CHR ''<'' # q) = CHR ''<'' # q"
  by (simp add: to_tag_def)

lemma node_text_start: "\<exists>r. node_text lvl t = CHR ''<'' # r \<and> (printable t \<longrightarrow> peek (r @ q) \<noteq> CHR ''/'')"
proof -
  obtain i cs where t: "t = MXML_NODE i cs" by (cases t)
  obtain r where r: "node_text lvl t = CHR ''<'' # encode_full True (nname i) @ r"
    unfolding t node_text_children by auto
  have "peek ((encode_full True (nname i) @ r) @ q) \<noteq> CHR ''/''" if "printable t"
  proof -
    obtain c nm where nm: "nname i = c # nm" "c \<noteq> CHR ''/''"
      using \<open>printable t\<close> t by (cases "nname i") (auto simp: tag_name_ok_def)
    show ?thesis by (rule encode_char_cases [of c]) (use nm in auto)
  qed
  with r show ?thesis by blast
qed

lemma end_tag_start: "\<exists>r. end_tag nm = CHR ''<'' # CHR ''/'' # r"
  by (simp add: end_tag_def)

lemma printable_attrs:
  assumes "printable (MXML_NODE i cs)"
  obtains avs where "attributes i = map Some avs" "n_attributes i = length avs" "list_all attrib_ok avs"
    "concat (map (\<lambda>a. attr_text (the a)) (attributes i)) = concat (map attr_text avs)"
proof -
  let ?avs = "map the (attributes i)"
  have all: "\<And>a. a \<in> set (attributes i) \<Longrightarrow> \<exists>av. a = Some av \<and> attrib_ok av"
    using assms by (auto simp: list_all_iff split: option.splits)
  then have "map (Some \<circ> the) (attributes i) = attributes i" by (intro map_idI) fastforce
  then have "attributes i = map Some ?avs" by simp
  moreover have "list_all attrib_ok ?avs" using all by (fastforce simp: list_all_iff)
  ultimately show thesis
    using assms by (intro that [of ?avs]) (simp_all add: comp_def)
qed

lemma appended_trans:
  "appended st path q xs st1 \<Longrightarrow> appended st1 path q' ys st2 \<Longrightarrow> appended st path q' (xs @ ys) st2"
  by (simp add: appended_def)

lemma fold_eappend_nested:
  "valid_path t p \<Longrightarrow> k = n_children (node_at t p) \<Longrightarrow>
   fold (eappend (p @ [k])) ys (eappend p (XT n kd v a xs) (erase t)) = eappend p (XT n kd v a (xs @ ys)) (erase t)"
  by (induction ys arbitrary: xs) (simp_all add: eappend_nested)

text \<open>The parser reads one element, and a list of children, up to the tag that follows.\<close>

definition reads_children :: "(nat \<Rightarrow> nat) \<Rightarrow> nat \<Rightarrow> mxml_node list \<Rightarrow> bool" where
  "reads_children al lvl cs \<longleftrightarrow> (\<forall>ind st path q. parser_ok st \<longrightarrow> ptree st = Some path \<longrightarrow>
     pos st = to_tag (children_text lvl ind cs @ q) \<longrightarrow> pos st \<noteq> [] \<longrightarrow>
     (\<exists>st'. continue al st = continue al st' \<and> appended st path q (map as_written cs) st'))"

definition reads_node :: "(nat \<Rightarrow> nat) \<Rightarrow> nat \<Rightarrow> mxml_node \<Rightarrow> bool" where
  "reads_node al lvl t \<longleftrightarrow> (\<forall>st path q. parser_ok st \<longrightarrow> ptree st = Some path \<longrightarrow>
     pos st = node_text lvl t @ q \<longrightarrow>
     (\<exists>st'. parse_loop al st = continue al st' \<and> appended st path q [as_written t] st'))"

lemma reads_children_Nil: "reads_children al lvl []"
  by (auto simp: reads_children_def appended_def)

lemma reads_children_Cons:
  assumes "reads_node al lvl c" and "reads_children al lvl cs"
  shows "reads_children al lvl (c # cs)"
  unfolding reads_children_def
proof (intro allI impI)
  fix ind st path q
  assume st: "parser_ok st" "ptree st = Some path" "pos st = to_tag (children_text lvl ind (c # cs) @ q)" "pos st \<noteq> []"
  let ?q = "children_text lvl True cs @ q"
  obtain r where r: "node_text lvl c = CHR ''<'' # r" using node_text_start by blast
  have "to_tag (children_text lvl ind (c # cs) @ q) = node_text lvl c @ ?q"
    using space_no_tag [OF indent_space, of lvl] r by (auto simp: to_tag_skip)
  with assms(1) st obtain st1 where st1: "parse_loop al st = continue al st1" "appended st path ?q [as_written c] st1"
    unfolding reads_node_def by (metis (no_types, lifting))
  show "\<exists>st'. continue al st = continue al st' \<and> appended st path q (map as_written (c # cs)) st'"
  proof (cases "pos st1 = []")
    case True
    have "cs = []"
    proof (rule ccontr)
      assume "cs \<noteq> []"
      then obtain d ds where "cs = d # ds" by (cases cs) auto
      moreover obtain r where "node_text lvl d = CHR ''<'' # r" using node_text_start by blast
      ultimately have "pos st1 \<noteq> []"
        using st1(2) space_no_tag [OF indent_space, of lvl] by (simp add: appended_def to_tag_skip)
      with True show False by simp
    qed
    with st1 st(4) show ?thesis by (auto simp: continue_def)
  next
    case False
    obtain st2 where "continue al st1 = continue al st2" "appended st1 path q (map as_written cs) st2"
      using assms(2) [unfolded reads_children_def, rule_format, of st1 path True q] st1(2) False
      by (auto simp: appended_def)
    with st1 st(4) appended_trans [OF st1(2)] show ?thesis by (auto simp: continue_def)
  qed
qed

lemma name_eappend:
  "valid_path t0 p \<Longrightarrow> erase t = eappend p (XT nm kd v a xs) (erase t0) \<Longrightarrow>
   nname (info (node_at t (p @ [n_children (node_at t0 p)]))) = nm"
proof (induction p arbitrary: t t0)
  case Nil
  obtain i cs i0 cs0 where t: "t = MXML_NODE i cs" "t0 = MXML_NODE i0 cs0" by (cases t, cases t0)
  from Nil t have *: "map erase cs = map erase cs0 @ [XT nm kd v a xs]" by simp
  then have "length cs = Suc (length cs0)" by (metis length_map length_append_singleton)
  then have "erase (cs ! length cs0) = map erase cs ! length cs0" by simp
  also have "\<dots> = XT nm kd v a xs" unfolding * by (simp add: nth_append)
  finally show ?case using t by (simp add: n_children_def erase_simp [of "cs ! length cs0"])
next
  case (Cons j p)
  obtain i cs i0 cs0 where t: "t = MXML_NODE i cs" "t0 = MXML_NODE i0 cs0" by (cases t, cases t0)
  from Cons.prems t have j: "j < length cs0" "valid_path (cs0 ! j) p"
    and *: "map erase cs = (map erase cs0)[j := eappend p (XT nm kd v a xs) (erase (cs0 ! j))]"
    by (auto simp: n_children_def)
  then have "length cs = length cs0" by (metis length_map length_list_update)
  then have "erase (cs ! j) = map erase cs ! j" using j by simp
  also have "\<dots> = eappend p (XT nm kd v a xs) (erase (cs0 ! j))" unfolding * using j by simp
  finally have e: "erase (cs ! j) = eappend p (XT nm kd v a xs) (erase (cs0 ! j))" .
  from Cons.IH [OF j(2) e] t show ?case by simp
qed

lemma spaces_tag: "list_all is_space w \<Longrightarrow> to_tag (w @ CHR ''<'' # q) = CHR ''<'' # q"
  by (simp add: to_tag_skip space_no_tag)

text \<open>An element with a value or with children, when the children are read.\<close>

lemma reads_open:
  assumes "reads_children al lvl cs" and "tag_name_ok nm" and "list_all attrib_ok avs"
    and "case val of Some v \<Rightarrow> e = encode_full True v \<and> (cs = [] \<or> \<not> list_all is_space v)
           | None \<Rightarrow> list_all is_space e \<and> cs \<noteq> []"
    and "list_all is_space w" and "cs = [] \<Longrightarrow> w = []" and "list_all printable cs"
    and ok: "parser_ok st" and path: "ptree st = Some path"
    and pos: "pos st = CHR ''<'' # encode_full True nm @ concat (map attr_text avs) @ CHR ''>'' # e @
        children_text lvl False cs @ w @ end_tag nm @ q"
  shows "\<exists>st'. parse_loop al st = continue al st' \<and>
    appended st path q [XT nm ELEMENT_NODE val (length avs, map Some avs) (map as_written cs)] st'"
proof -
  let ?ct = "children_text lvl False cs @ w @ end_tag nm @ q"
  obtain r where r: "?ct = CHR ''<'' # r" "cs = [] \<Longrightarrow> peek r = CHR ''/''" "cs \<noteq> [] \<Longrightarrow> peek r \<noteq> CHR ''/''"
  proof (cases cs)
    case Nil
    with assms(6) that show thesis by (simp add: end_tag_def)
  next
    case (Cons c ds)
    with assms(7) obtain r where "node_text lvl c = CHR ''<'' # r"
      "peek (r @ children_text lvl True ds @ w @ end_tag nm @ q) \<noteq> CHR ''/''"
      using node_text_start [of lvl c "children_text lvl True ds @ w @ end_tag nm @ q"] by auto
    with Cons that show thesis by simp
  qed
  let ?k = "n_children (node_at (root st) path)"
  let ?x = "XT nm ELEMENT_NODE val (length avs, map Some avs)"
  have vp: "valid_path (root st) path" using ok path by (simp add: parser_ok_def)
  obtain st1 where s1: "parse_step al st = Inr st1" "parser_ok st1" "ptree st1 = Some (path @ [?k])"
    "pos st1 = CHR ''<'' # r" "erase (root st1) = eappend path (?x []) (erase (root st))"
    by (rule open_element_text [OF ok path assms(2,3), of e r val]) (use pos r assms(4) in \<open>auto split: option.splits\<close>)
  have "pos st1 = to_tag (children_text lvl False cs @ (w @ end_tag nm @ q))" "pos st1 \<noteq> []"
    using s1(4) r(1) by simp_all
  from assms(1) [unfolded reads_children_def, rule_format, OF s1(2,3) this] obtain st2 where s2: "continue al st1 = continue al st2"
    "appended st1 (path @ [?k]) (w @ end_tag nm @ q) (map as_written cs) st2"
    by blast
  have ok2: "parser_ok st2" "ptree st2 = Some (path @ [?k])" using s2(2) by (simp_all add: appended_def)
  have pos2: "pos st2 = end_tag nm @ q"
    using s2(2) spaces_tag [OF assms(5)] by (simp add: appended_def end_tag_def)
  have er2: "erase (root st2) = eappend path (?x (map as_written cs)) (erase (root st))"
    using s2(2) s1(5) fold_eappend_nested [OF vp refl, of "map as_written cs" nm ELEMENT_NODE val _ "[]"]
    by (simp add: appended_def)
  obtain st3 where s3: "parse_step al st2 = Inr st3" "appended st2 path q [] st3"
    by (rule end_tag_text [OF ok2 assms(2) name_eappend [OF vp er2] pos2])
  have "parse_loop al st = continue al st1" using parse_loop_step [OF s1(1)] .
  moreover have "continue al st2 = continue al st3" using pos2 parse_loop_step [OF s3(1)] by (simp add: continue_def end_tag_def)
  ultimately have "parse_loop al st = continue al st3" using s2(1) by simp
  moreover have "appended st path q [?x (map as_written cs)] st3" using s3(2) er2 by (simp add: appended_def)
  ultimately show ?thesis by blast
qed

lemma reads_printable: "printable t \<Longrightarrow> reads_node al lvl t"
proof (induction t arbitrary: lvl rule: printable.induct)
  case (1 i cs)
  obtain avs where avs: "attributes i = map Some avs" "n_attributes i = length avs" "list_all attrib_ok avs"
    "concat (map (\<lambda>a. attr_text (the a)) (attributes i)) = concat (map attr_text avs)"
    by (rule printable_attrs [OF "1.prems"])
  have cs: "list_all printable cs" and nm: "tag_name_ok (nname i)"
    using "1.prems" by simp_all
  have "reads_children al lvl' ds" if "set ds \<subseteq> set cs" for lvl' ds
    using that
  proof (induction ds)
    case Nil
    show ?case by (rule reads_children_Nil)
  next
    case (Cons d ds)
    with "1.IH" [of d] cs show ?case by (intro reads_children_Cons) (auto simp: list_all_iff)
  qed
  then have rc: "reads_children al lvl' cs" for lvl' by simp
  show ?case unfolding reads_node_def
  proof (intro allI impI)
    fix st path q
    assume st: "parser_ok st" "ptree st = Some path" "pos st = node_text lvl (MXML_NODE i cs) @ q"
    show "\<exists>st'. parse_loop al st = continue al st' \<and> appended st path q [as_written (MXML_NODE i cs)] st'"
    proof (cases "nvalue i = None \<and> cs = []")
      case True
      then have "pos st = CHR ''<'' # encode_full True (nname i) @ concat (map attr_text avs) @ ''/>'' @ LF # q"
        using st(3) avs(4) by (simp only: node_text_children) simp
      then obtain st' where "parse_step al st = Inr st'"
        "appended st path q [XT (nname i) ELEMENT_NODE None (length avs, map Some avs) []] st'"
        by (rule empty_element_text [OF st(1,2) nm avs(3)])
      with True avs show ?thesis by (auto simp: parse_loop_step)
    next
      case False
      define e where "e = (case nvalue i of None \<Rightarrow> LF # indent_of (lvl + 1) | Some v \<Rightarrow> encode_full True v)"
      define w where "w = (if cs = [] then [] else indent_of lvl)"
      have "pos st = CHR ''<'' # encode_full True (nname i) @ concat (map attr_text avs) @ CHR ''>'' # e @
          children_text (lvl + 1) False cs @ w @ end_tag (nname i) @ q"
        using st(3) avs(4) False unfolding node_text_children e_def w_def
        by (cases cs) (auto split: option.splits)
      moreover have "case nvalue i of Some v \<Rightarrow> e = encode_full True v \<and> (cs = [] \<or> \<not> list_all is_space v)
           | None \<Rightarrow> list_all is_space e \<and> cs \<noteq> []"
        using "1.prems" False indent_space [of "lvl + 1"] by (auto simp: e_def is_space_def split: option.splits)
      moreover have "list_all is_space w" by (simp add: w_def indent_space)
      ultimately show ?thesis
        using reads_open [OF rc nm avs(3) _ _ _ cs st(1,2)] avs by (auto simp: w_def)
    qed
  qed
qed

section \<open>Whole documents\<close>

lemma c_strstr_at: "n = c # n' \<Longrightarrow> c \<notin> set m \<Longrightarrow> c_strstr n (m @ n @ q) = Some (n @ q)"
proof (induction m)
  case Nil
  have "starts_with n (n @ q)" by (simp add: starts_with_def)
  with Nil show ?case by simp
next
  case (Cons a m)
  then have "\<not> starts_with n (a # m @ n @ q)" by (auto simp: starts_with_def)
  with Cons show ?case by simp
qed

text \<open>A processing instruction and a comment become nodes that are not elements.\<close>

lemma leaf_text:
  assumes "parser_ok st" and st1: "parser_ok st1" "ptree st1 = Some path" "root st1 = root st"
    and add: "add_child al st1 path kind name = Inr (par', new)" and "kind \<noteq> ELEMENT_NODE"
    and mk: "parse_markup al st =
      Inr ((store_child st1 path par' (set_text txt l1 l2 new))\<lparr>pos := q, line_number := l3\<rparr>)"
  shows "\<exists>st' x. parse_loop al st = continue al st' \<and> appended st path q [x] st' \<and> xkind x \<noteq> ELEMENT_NODE"
proof -
  let ?s = "skip_to_tag ((store_child st1 path par' (set_text txt l1 l2 new))\<lparr>pos := q, line_number := l3\<rparr>)"
  have step: "parse_step al st = Inr ?s" using mk by (simp add: parse_step_def)
  let ?x = "erase (set_text txt l1 l2 new)"
  have "parser_ok ?s" using parse_step_ok [OF assms(1), of al] step by simp
  then have "appended st path q [?x] ?s"
    using store_child_erase(1) [OF st1(1,2) add, of "set_text txt l1 l2 new"] st1
    by (simp add: appended_def skip_to_tag_def to_tag_def store_child_def)
  moreover have "xkind ?x \<noteq> ELEMENT_NODE"
    using add_child_new [OF add] assms(6) by (auto simp: set_text_def map_info_def new_node_def)
  ultimately show ?thesis using parse_loop_step [OF step] by blast
qed

lemma pi_text:
  assumes "parser_ok st" and "ptree st = Some path" and "CHR ''?'' \<notin> set m"
    and "pos st = ''<?'' @ m @ ''?>'' @ q"
  shows "\<exists>st' x. parse_loop al st = continue al st' \<and> appended st path q [x] st' \<and> xkind x \<noteq> ELEMENT_NODE"
proof -
  let ?p = "''?'' @ m @ ''?>'' @ q"
  define st1 where "st1 = st\<lparr>pos := ?p\<rparr>"
  have st1: "parser_ok st1" "ptree st1 = Some path" "root st1 = root st" using assms by (simp_all add: st1_def)
  obtain par' new where add: "add_child al st1 path PROCESSING_INSTRUCTION_NODE ''PI'' = Inr (par', new)"
    by (rule add_child_cases)
  have s: "c_strstr ''?>'' (m @ ''?>'' @ q) = Some (''?>'' @ q)" by (rule c_strstr_at) (use assms(3) in auto)
  have ws: "skip_ws ?p l = Inr (?p, l)" for l by (rule skip_ws_none) (simp_all add: is_space_def)
  show ?thesis
    by (rule leaf_text [OF assms(1) st1 add])
      (use assms(4) ws s add st1 in \<open>simp_all add: parse_markup_def parse_pi_def st1_def starts_with_def Let_def\<close>)
qed

lemma comment_text:
  assumes "parser_ok st" and "ptree st = Some path" and "CHR ''-'' \<notin> set m"
    and "pos st = ''<!--'' @ m @ ''-->'' @ q"
  shows "\<exists>st' x. parse_loop al st = continue al st' \<and> appended st path q [x] st' \<and> xkind x \<noteq> ELEMENT_NODE"
proof -
  let ?p = "''!--'' @ m @ ''-->'' @ q"
  define st1 where "st1 = st\<lparr>pos := ?p\<rparr>"
  have st1: "parser_ok st1" "ptree st1 = Some path" "root st1 = root st" using assms by (simp_all add: st1_def)
  obtain par' new where add: "add_child al st1 path COMMENT_NODE ''Comment'' = Inr (par', new)"
    by (rule add_child_cases)
  have s: "c_strstr ''-->'' (m @ ''-->'' @ q) = Some (''-->'' @ q)" by (rule c_strstr_at) (use assms(3) in auto)
  have ws: "skip_ws ?p l = Inr (?p, l)" for l by (rule skip_ws_none) (simp_all add: is_space_def)
  show ?thesis
    by (rule leaf_text [OF assms(1) st1 add])
      (use assms(4) ws s add st1 in \<open>simp_all add: parse_markup_def parse_comment_def st1_def starts_with_def Let_def\<close>)
qed

lemma fold_eappend_root: "fold (eappend []) ys (XT n k v a xs) = XT n k v a (xs @ ys)"
  by (induction ys arbitrary: xs) simp_all

lemma children_text_root: "children_text 0 True cs = concat (map (node_text 0) cs)"
  by (induction cs) (simp_all add: indent_of_def)

text \<open>The header of a file becomes one or two nodes in front of the elements.\<close>

lemma header_text:
  assumes "CHR ''-'' \<notin> set date"
  shows "\<exists>st' hs. parse_loop al (parser_init (file_header st date @ q)) = continue al st' \<and>
    appended (parser_init (file_header st date @ q)) [] q hs st' \<and> list_all (\<lambda>x. xkind x \<noteq> ELEMENT_NODE) hs"
proof -
  define m where "m = ''xml version='' @ [DQUOTE] @ ''1.0'' @ [DQUOTE] @ '' encoding='' @ [DQUOTE] @ ''ISO-8859-1'' @ [DQUOTE]"
  have m: "CHR ''?'' \<notin> set m" "xml_header = ''<?'' @ m @ ''?>'' @ [LF]" by (simp_all add: m_def xml_header_def)
  let ?c = "if suppress_date_flag st then [] else date_comment (take 24 date)"
  let ?st0 = "parser_init (file_header st date @ q)"
  have "pos ?st0 = ''<?'' @ m @ ''?>'' @ (LF # ?c @ q)"
    by (simp add: parser_init_def file_header_def m(2))
  moreover have "ptree ?st0 = Some []" by (simp add: parser_init_def)
  ultimately obtain st1 x where s1: "parse_loop al ?st0 = continue al st1"
    "appended ?st0 [] (LF # ?c @ q) [x] st1" "xkind x \<noteq> ELEMENT_NODE"
    using pi_text [OF parser_ok_init _ m(1), of _ "[]"] by blast
  show ?thesis
  proof (cases "suppress_date_flag st")
    case True
    with s1 have "appended ?st0 [] q [x] st1" by (simp add: appended_def to_tag_def)
    with s1(1,3) show ?thesis by (intro exI [of _ st1] exI [of _ "[x]"]) simp
  next
    case False
    let ?m = "'' created by MXML on '' @ take 24 date @ '' ''"
    have "CHR ''-'' \<notin> set ?m" using assms by (auto dest: in_set_takeD)
    moreover have "pos st1 = ''<!--'' @ ?m @ ''-->'' @ LF # q"
      using s1(2) False by (simp add: appended_def to_tag_def date_comment_def)
    moreover have "parser_ok st1" "ptree st1 = Some []" using s1(2) by (simp_all add: appended_def)
    ultimately obtain st2 y where s2: "parse_loop al st1 = continue al st2" "appended st1 [] (LF # q) [y] st2"
      "xkind y \<noteq> ELEMENT_NODE"
      using comment_text by blast
    have "continue al st1 = continue al st2" using s2(1) \<open>pos st1 = _\<close> by (simp add: continue_def)
    moreover have "appended ?st0 [] q [x, y] st2"
      using appended_trans [OF s1(2) s2(2)] by (simp add: appended_def to_tag_def)
    ultimately show ?thesis using s1 s2(3) by (intro exI [of _ st2] exI [of _ "[x, y]"]) simp
  qed
qed

lemma erase_element_children:
  "map erase (element_children t) = filter (\<lambda>x. xkind x = ELEMENT_NODE) (xchildren (erase t))"
  by (cases t) (simp add: element_children_def filter_map comp_def erase_simp)

lemma as_written_kind: "xkind (as_written t) = ELEMENT_NODE"
  by (cases t) simp

lemma document_text:
  assumes "list_all printable cs" and "CHR ''-'' \<notin> set date"
  shows "\<exists>t'. mxml_parse_buffer al (file_header st date @ concat (map (node_text 0) cs)) n = Inr (Inr t') \<and>
    map erase (element_children t') = map as_written cs"
proof -
  let ?q = "children_text 0 True cs"
  let ?st0 = "parser_init (file_header st date @ ?q)"
  obtain st1 hs where s1: "parse_loop al ?st0 = continue al st1" "appended ?st0 [] ?q hs st1"
    "list_all (\<lambda>x. xkind x \<noteq> ELEMENT_NODE) hs"
    using header_text [OF assms(2)] by blast
  have rc: "reads_children al 0 ds" if "list_all printable ds" for ds
    using that by (induction ds) (simp_all add: reads_children_Nil reads_children_Cons reads_printable)
  have "\<exists>st2. continue al st1 = Inr st2 \<and> appended st1 [] [] (map as_written cs) st2"
  proof (cases "pos st1 = []")
    case True
    have "cs = []"
    proof (rule ccontr)
      assume "cs \<noteq> []"
      then obtain d ds where d: "cs = d # ds" by (cases cs) auto
      obtain r where "node_text 0 d = CHR ''<'' # r" using node_text_start by blast
      with True s1(2) d show False by (simp add: appended_def indent_of_def)
    qed
    with True s1(2) show ?thesis by (auto simp: continue_def appended_def to_tag_def)
  next
    case False
    have "pos st1 = to_tag (children_text 0 True cs @ [])" "parser_ok st1" "ptree st1 = Some []"
      using s1(2) by (simp_all add: appended_def)
    from rc [OF assms(1), unfolded reads_children_def, rule_format, OF this(2,3,1) False]
    obtain st2 where "continue al st1 = continue al st2" "appended st1 [] [] (map as_written cs) st2" by blast
    then show ?thesis by (auto simp: continue_def appended_def to_tag_def)
  qed
  then obtain st2 where s2: "continue al st1 = Inr st2" "appended st1 [] [] (map as_written cs) st2" by blast
  have "erase (root st2) = fold (eappend []) (hs @ map as_written cs) (erase mxml_create_root_node)"
    using appended_trans [OF s1(2) s2(2)] by (simp add: appended_def parser_init_def)
  then have "xchildren (erase (root st2)) = hs @ map as_written cs"
    by (simp add: mxml_create_root_node_def fold_eappend_root)
  moreover have "filter (\<lambda>x. xkind x = ELEMENT_NODE) hs = []"
    using s1(3) by (simp add: filter_empty_conv list_all_iff)
  moreover have "filter (\<lambda>x. xkind x = ELEMENT_NODE) (map as_written cs) = map as_written cs"
    using assms(1) by (auto simp: filter_id_conv list_all_iff as_written_kind)
  ultimately have "map erase (element_children (root st2)) = map as_written cs"
    by (simp add: erase_element_children)
  then show ?thesis
    using s1(1) s2(1) by (simp add: mxml_parse_buffer_def children_text_root)
qed

text \<open>C3: For every tree whose strings fit the writer's arrays and the parser's name arrays (see
  \<^const>\<open>tree_fits\<close> and \<^const>\<open>printable\<close>), the text that \<^verbatim>\<open>mxml_write_tree\<close> leaves in the file is
  accepted by the parser, and the elements of the tree it returns have the names, attributes, values
  and children of the original, where every node below an element has become an element itself: the
  writer does not look at the type of a node.  A tree of elements comes back as it was.\<close>

theorem tree_file_roundtrip:
  assumes "writes_all os" and "encode_ok st" and "data_ok st" and "data_size st \<le> 2998"
    and "list_all (tree_fits 0) (element_children tree)" and "list_all printable (element_children tree)"
    and "CHR ''-'' \<notin> set date"
  shows "\<exists>st' txt t'. mxml_write_tree os st file_name True date tree = Inr (True, st', Some txt) \<and>
    mxml_parse_buffer al txt n = Inr (Inr t') \<and>
    map erase (element_children t') = map as_written (element_children tree) \<and>
    (list_all only_elements (element_children tree) \<longrightarrow>
      map erase (element_children t') = map erase (element_children tree))"
proof -
  have "list_all only_elements cs \<Longrightarrow> map as_written cs = map erase cs" for cs
    by (induction cs) (simp_all add: as_written_erase)
  then show ?thesis
    using write_tree_ok [OF assms(1-5), of file_name date] document_text [OF assms(6,7), of al st n] by metis
qed

theorem tree_file_roundtrip_witness:
  "\<exists>st' txt t'. mxml_write_tree demo_os mxml_static_init ''f.xml'' True ''today'' demo_document = Inr (True, st', Some txt) \<and>
    mxml_parse_buffer id txt 100 = Inr (Inr t') \<and>
    map erase (element_children t') = map as_written (element_children demo_document)"
proof -
  have "list_all printable (element_children demo_document)"
    by (simp add: demo_document_def element_children_def empty_info_def tag_name_ok_def attrib_ok_def
        encode_char_def is_space_def MXML_NAME_LENGTH_def)
  with demo_document_fits tree_file_roundtrip [of demo_os mxml_static_init demo_document "''today''" "''f.xml''" id 100]
  show ?thesis by (simp add: writes_all_def demo_os_def data_ok_init) blast
qed

end
