(* ===== verification/Mxml_Entity.thy ===== *)
theory Mxml_Entity
  imports Mxml_Parser_Props
begin

text \<open>
  Reading XML files (\<open>mxml_parse_entity\<close>, \<open>mxml_parse_file\<close>, \<open>mxml_basename\<close> and
  \<open>mxml_dirname\<close> of \<^verbatim>\<open>src/mxml/mxml.c\<close>).

  The file system is a parameter \<open>fs\<close> from file names to contents, and the heap is one
  number per request: \<open>room n\<close> is the number of bytes that may be used in the block
  \<^verbatim>\<open>malloc(n)\<close> returns (\<open>n \<le> room n\<close>; \<open>room n = n\<close> is what the C standard promises).
  Entities may name other files, whose entities are resolved recursively; a file that
  includes itself makes the code recurse for ever, so the model has a fuel argument and
  returns \<open>None\<close> when it runs out.
\<close>

section \<open>Path names\<close>

definition FILENAME_MAX :: nat where
  "FILENAME_MAX = 4096"

fun basename_loop :: "string \<Rightarrow> string \<Rightarrow> string" where
  "basename_loop name [] = name"
| "basename_loop name (c # p) = basename_loop (if c = CHR ''/'' then p else name) p"

definition mxml_basename :: "string \<Rightarrow> string res" where
  "mxml_basename path =
     (if FILENAME_MAX \<le> length path then Inl Buffer_overflow else Inr (basename_loop path path))"

text \<open>\<^verbatim>\<open>strrchr\<close>, as the index of the last occurrence.\<close>

definition c_strrchr :: "char \<Rightarrow> string \<Rightarrow> nat option" where
  "c_strrchr c s =
     (let n = length (takeWhile (\<lambda>x. x \<noteq> c) (rev s)) in
      if n = length s then None else Some (length s - n - 1))"

definition mxml_dirname :: "string \<Rightarrow> string" where
  "mxml_dirname path =
     (if path = [] then path
      else case c_strrchr (CHR ''/'') path of
        None \<Rightarrow> ''.''
      | Some 0 \<Rightarrow> ''/''
      | Some i \<Rightarrow> take i path)"

section \<open>Entity declarations\<close>

definition MXML_MAX_ENTITY :: nat where
  "MXML_MAX_ENTITY = 500"

record entity =
  entity_name :: string
  entity_external :: bool
  entity_reference_name :: string
  entity_value :: string
  entity_line_number :: nat

definition in_entity :: "string \<Rightarrow> string \<Rightarrow> string" where
  "in_entity c name = ''Unexpected '' @ [SQUOTE] @ c @ [SQUOTE] @ '' inside entity '' @ [DQUOTE] @ name @ [DQUOTE]"

text \<open>
  The name of an entity, from behind \<^verbatim>\<open>!ENTITY\<close>: at most 252 characters between \<^verbatim>\<open>&\<close>
  and \<^verbatim>\<open>;\<close>.  The message for a bracket inside the name prints the still unwritten
  \<^verbatim>\<open>entity_name[nentity]\<close>.
\<close>

definition entity_decl_name :: "string \<Rightarrow> nat \<Rightarrow> parse_error + string \<times> string \<times> nat" where
  "entity_decl_name p ln =
     bind_res (skip_ws (dropWhile (\<lambda>c. c = CHR '' '') p) ln) (\<lambda>(p1, ln1).
       if peek p1 = CHR ''<'' \<or> peek p1 = CHR ''>'' then
         Inl (Read_error ln1 (''Unexpected '' @ [SQUOTE, peek p1, SQUOTE] @ '' inside !ENTITY''))
       else
         let pv = dropWhile (\<lambda>c. \<not> is_space c \<and> c \<noteq> CHR ''<'' \<and> c \<noteq> CHR ''>'') p1 in
         if pv = [] then Inl (Read_error ln1 ''Unexpected end of file'')
         else if peek pv = CHR ''<'' \<or> peek pv = CHR ''>'' then Inl (Fault Uninitialised)
         else
           let nm = take 252 (takeWhile in_node_name p1); p2 = drop (length nm) p1 in
           if p2 = [] then Inl (Read_error ln1 ''Unexpected end of file'')
           else if peek p2 = CHR ''<'' then Inl (Read_error ln1 (in_entity ''<'' (nm @ '';'')))
           else Inr (nm @ '';'', p2, ln1))"

text \<open>The quoted replacement, or \<^verbatim>\<open>SYSTEM\<close> and a quoted file name.\<close>

definition entity_decl_value :: "string \<Rightarrow> string \<Rightarrow> nat \<Rightarrow> parse_error + bool \<times> string \<times> string \<times> nat" where
  "entity_decl_value nm p ln =
     bind_res (skip_ws p ln) (\<lambda>(p3, ln3).
       if peek p3 = CHR ''>'' then Inl (Read_error ln3 (in_entity ''>'' nm))
       else
         let ext = starts_with ''SYSTEM'' p3 in
         bind_res (skip_ws (if ext then drop 6 p3 else p3) ln3) (\<lambda>(p5, ln5).
           if peek p5 = CHR ''>'' then Inl (Read_error ln5 (in_entity ''>'' nm))
           else if peek p5 \<noteq> DQUOTE \<and> peek p5 \<noteq> SQUOTE then
             Inl (Read_error ln5 (''Replacement was not found for entity '' @ [DQUOTE] @ nm @ [DQUOTE]))
           else if tl p5 = [] then Inl (Read_error ln5 ''Unexpected end of file'')
           else
             let delimiter = peek p5; pv = dropWhile (\<lambda>c. c \<noteq> delimiter) (tl p5) in
             if pv = [] then Inl (Read_error ln5 ''Unexpected end of file'')
             else Inr (ext, mxml_decode (takeWhile (\<lambda>c. c \<noteq> delimiter) (tl p5)), pv, ln5)))"

text \<open>
  The whole declaration at \<^verbatim>\<open>!ENTITY\<close>.  A file name goes to an array of 256 bytes
  unchecked; the block for a value is one byte shorter than the string with its NUL.
\<close>

definition entity_decl ::
  "(nat \<Rightarrow> nat) \<Rightarrow> string \<Rightarrow> nat \<Rightarrow> entity list \<Rightarrow> parse_error + entity list \<times> string \<times> nat" where
  "entity_decl room p ln ents =
     (if MXML_MAX_ENTITY \<le> length ents then Inl (Read_error ln ''Too much entities'')
      else
        bind_res (entity_decl_name (drop 7 p) ln) (\<lambda>(nm, p2, ln2).
        bind_res (entity_decl_value nm p2 ln2) (\<lambda>(ext, repl, pv, ln5).
          if ext \<and> 256 \<le> length repl then Inl (Fault Buffer_overflow)
          else if \<not> ext \<and> room (length repl) < length repl + 1 then Inl (Fault Buffer_overflow)
          else
            bind_res (skip_ws pv ln5) (\<lambda>(p6, ln6).
              Inr (ents @ [\<lparr>entity_name = CHR ''&'' # nm, entity_external = ext,
                            entity_reference_name = (if ext then repl else []),
                            entity_value = (if ext then [] else repl), entity_line_number = ln\<rparr>],
                   p6, ln6)))))"

text \<open>
  One round of the loop over the document type and, since only a \<^verbatim>\<open>]\<close> right behind the
  opening bracket ends it, the rest of the buffer.
\<close>

definition entity_step ::
  "(nat \<Rightarrow> nat) \<Rightarrow> string \<Rightarrow> nat \<Rightarrow> entity list \<Rightarrow> parse_error + entity list \<times> string \<times> nat" where
  "entity_step room p ln ents =
     bind_res
       (if peek p = CHR ''<'' then
          bind_res (skip_ws (tl p) ln) (\<lambda>(p1, ln1).
            if starts_with ''!--'' p1 then
              (case c_strstr ''-->'' (drop 3 p1) of
                 None \<Rightarrow> Inl (Read_error ln1 ''Unterminated comment'')
               | Some q \<Rightarrow> Inr (ents, drop 3 q, ln1 + count_nl (before (drop 3 p1) q)))
            else if starts_with ''!ENTITY'' p1 then entity_decl room p1 ln1 ents
            else Inr (ents, p1, ln1))
        else Inr (ents, p, ln))
       (\<lambda>(ents', q, ln'). Inr (ents', dropWhile (\<lambda>c. c \<noteq> CHR ''<'') q,
                                ln' + count_nl (takeWhile (\<lambda>c. c \<noteq> CHR ''<'') q)))"

lemma entity_decl_name_length: "entity_decl_name p ln = Inr (nm, q, ln') \<Longrightarrow> length q \<le> length p"
proof -
  assume "entity_decl_name p ln = Inr (nm, q, ln')"
  then obtain p1 l1 where "skip_ws (dropWhile (\<lambda>c. c = CHR '' '') p) ln = Inr (p1, l1)" "length q \<le> length p1"
    by (auto simp: entity_decl_name_def res_simps Let_def simp del: dropWhile_eq_Nil_conv split: if_splits)
  then show ?thesis
    using skip_ws_length length_dropWhile_le [of "\<lambda>c. c = CHR '' ''" p] by fastforce
qed

lemma entity_decl_value_length: "entity_decl_value nm p ln = Inr (ext, r, q, ln') \<Longrightarrow> length q \<le> length p"
proof -
  assume "entity_decl_value nm p ln = Inr (ext, r, q, ln')"
  then obtain p3 l3 p5 l5 where *: "skip_ws p ln = Inr (p3, l3)"
    "skip_ws (if ext then drop 6 p3 else p3) l3 = Inr (p5, l5)"
    "q = dropWhile (\<lambda>c. c \<noteq> peek p5) (tl p5)"
    by (auto simp: entity_decl_value_def res_simps Let_def simp del: dropWhile_eq_Nil_conv split: if_splits)
  have "length q \<le> length (tl p5)" unfolding *(3) by (rule length_dropWhile_le)
  also have "\<dots> \<le> length p5" by simp
  also have "\<dots> \<le> length p3" using skip_ws_length [OF *(2)] by (auto split: if_splits)
  also have "\<dots> \<le> length p" using skip_ws_length [OF *(1)] by simp
  finally show ?thesis .
qed

lemma entity_decl_length: "entity_decl room p ln ents = Inr (ents', q, ln') \<Longrightarrow> length q \<le> length p"
  by (fastforce simp: entity_decl_def res_simps split: if_splits
      dest!: entity_decl_name_length entity_decl_value_length skip_ws_length)

lemma entity_step_shorter:
  assumes "entity_step room p ln ents = Inr (ents', q, ln')" and "q \<noteq> []"
  shows "length q < length p"
proof (cases "peek p = CHR ''<''")
  case True
  then obtain p0 where p: "p = CHR ''<'' # p0" by (cases p) auto
  from assms(1) True obtain p1 l1 r where r: "skip_ws p0 ln = Inr (p1, l1)"
    "q = dropWhile (\<lambda>c. c \<noteq> CHR ''<'') r" "length r \<le> length p1"
    by (fastforce simp: entity_step_def p res_simps split: if_splits option.splits
        dest: entity_decl_length c_strstr_Some)
  with skip_ws_length [OF r(1)] length_dropWhile_le [of "\<lambda>c. c \<noteq> CHR ''<''" r] p show ?thesis by simp
next
  case False
  with assms have "q = dropWhile (\<lambda>c. c \<noteq> CHR ''<'') p" by (auto simp: entity_step_def)
  with False assms(2) show ?thesis
    by (cases p) (auto simp: le_imp_less_Suc length_dropWhile_le)
qed

function entity_loop ::
  "(nat \<Rightarrow> nat) \<Rightarrow> string \<Rightarrow> nat \<Rightarrow> entity list \<Rightarrow> parse_error + entity list \<times> nat" where
  "entity_loop room p ln ents =
     (if peek p = CHR '']'' then Inr (ents, ln)
      else case entity_step room p ln ents of
        Inl e \<Rightarrow> Inl e
      | Inr (ents', q, ln') \<Rightarrow> if q \<noteq> [] then entity_loop room q ln' ents' else Inr (ents', ln'))"
  by pat_completeness auto
termination
  by (relation "measure (\<lambda>(room, p, ln, ents). length p)") (auto dest: entity_step_shorter)

declare entity_loop.simps [simp del]


section \<open>Replacing the references\<close>

text \<open>
  The number of positions at which a reference occurs (the source searches with \<^verbatim>\<open>strstr\<close>
  and goes on one character behind each hit), and the length of the output it computes.
\<close>

fun count_occ :: "string \<Rightarrow> string \<Rightarrow> nat" where
  "count_occ nm [] = 0"
| "count_occ nm (c # p) = (if starts_with nm (c # p) then 1 else 0) + count_occ nm p"

definition output_length :: "(string \<times> string) list \<Rightarrow> string \<Rightarrow> int" where
  "output_length evs buffer = int (length buffer) +
     sum_list (map (\<lambda>(n, v). (int (length v) - int (length n)) * int (count_occ n buffer)) evs)"

fun find_entity :: "(string \<times> string) list \<Rightarrow> string \<Rightarrow> (string \<times> string) option" where
  "find_entity [] p = None"
| "find_entity ((n, v) # evs) p = (if starts_with n p then Some (n, v) else find_entity evs p)"

text \<open>
  The copying loop, in a block of \<open>cap\<close> bytes.  Behind a replaced reference one character is
  copied without looking at it; at the end of the buffer that is its NUL, and the test of
  the loop then reads behind the buffer.
\<close>

function replace_loop :: "(string \<times> string) list \<Rightarrow> nat \<Rightarrow> string \<Rightarrow> string \<Rightarrow> string res" where
  "replace_loop evs cap p pv =
     (case (case (if peek p = CHR ''&'' then find_entity evs p else None) of
              Some (n, v) \<Rightarrow> (drop (length n) p, pv @ v)
            | None \<Rightarrow> (p, pv)) of
        (p1, pv1) \<Rightarrow>
          if cap < length pv1 + 1 then Inl Buffer_overflow
          else if p1 = [] then Inl Out_of_bounds
          else if tl p1 = [] then (if cap < length pv1 + 2 then Inl Buffer_overflow else Inr (pv1 @ [hd p1]))
          else replace_loop evs cap (tl p1) (pv1 @ [hd p1]))"
  by pat_completeness auto
termination
proof (relation "measure (\<lambda>(evs, cap, p, pv). length p)", goal_cases)
  case (2 evs cap p pv p1 pv1)
  then have "length p1 \<le> length p" by (auto split: option.splits if_splits)
  with 2 show ?case by (cases p1) auto
qed simp

declare replace_loop.simps [simp del]

datatype entity_error =
    Ent_fault c_fault
  | Ent_error string nat string
  | Ent_silent

definition replace_entities ::
  "(nat \<Rightarrow> nat) \<Rightarrow> string \<Rightarrow> nat \<Rightarrow> (string \<times> string) list \<Rightarrow> string \<Rightarrow> entity_error + string" where
  "replace_entities room file_name ln evs buffer =
     (let len = output_length evs buffer in
      if len + 1 \<le> 0 then Inl (Ent_error file_name ln ''Cannot allocate memory.'')
      else case replace_loop evs (room (nat (len + 1))) buffer [] of
        Inl e \<Rightarrow> Inl (Ent_fault e)
      | Inr out \<Rightarrow> Inr out)"

section \<open>External entities and files\<close>

text \<open>
  The loop that reads the external files; \<open>rec\<close> is the recursive call.  The last byte of a
  file is overwritten by the NUL.
\<close>

fun load_entities ::
  "(string \<Rightarrow> string \<Rightarrow> (entity_error + string) option) \<Rightarrow> (string \<Rightarrow> string option) \<Rightarrow> string \<Rightarrow>
   entity list \<Rightarrow> (string \<times> string) list \<Rightarrow> (entity_error + (string \<times> string) list) option" where
  "load_entities rec fs file_name [] evs = Some (Inr evs)"
| "load_entities rec fs file_name (e # es) evs =
     (if \<not> entity_external e then load_entities rec fs file_name es (evs @ [(entity_name e, entity_value e)])
      else
        let filename = (if peek (entity_reference_name e) = CHR ''/'' then entity_reference_name e
                        else mxml_dirname file_name @ ''/'' @ entity_reference_name e)
        in
        if FILENAME_MAX \<le> length filename then Some (Inl (Ent_fault Buffer_overflow))
        else case fs filename of
          None \<Rightarrow> Some (Inl (Ent_error file_name (entity_line_number e) (entity_reference_name e @ '' is missing'')))
        | Some content \<Rightarrow>
            if content = [] then load_entities rec fs file_name es (evs @ [(entity_name e, [])])
            else case rec (butlast content) filename of
              None \<Rightarrow> None
            | Some (Inl err) \<Rightarrow> Some (Inl err)
            | Some (Inr v) \<Rightarrow> load_entities rec fs file_name es (evs @ [(entity_name e, v)]))"

text \<open>
  \<open>Inr\<close> is status 0 with the new contents of \<^verbatim>\<open>*buf\<close>; \<open>Ent_silent\<close> is status 1 without an
  error text.
\<close>

fun mxml_parse_entity ::
  "nat \<Rightarrow> (nat \<Rightarrow> nat) \<Rightarrow> (string \<Rightarrow> string option) \<Rightarrow> string \<Rightarrow> string \<Rightarrow> (entity_error + string) option" where
  "mxml_parse_entity 0 room fs buf file_name = None"
| "mxml_parse_entity (Suc fuel) room fs buf file_name =
     (if buf = [] then Some (Inr buf)
      else if FILENAME_MAX \<le> length file_name then Some (Inl (Ent_fault Buffer_overflow))
      else case c_strstr ''!DOCTYPE'' buf of
        None \<Rightarrow> Some (Inr buf)
      | Some p \<Rightarrow>
          (case c_strstr ''['' p of
             None \<Rightarrow> Some (Inl Ent_silent)
           | Some pv \<Rightarrow>
               (case entity_loop room (tl pv) 1 [] of
                  Inl (Fault e) \<Rightarrow> Some (Inl (Ent_fault e))
                | Inl (Read_error ln msg) \<Rightarrow> Some (Inl (Ent_error file_name ln msg))
                | Inr (ents, ln) \<Rightarrow>
                    (case load_entities (\<lambda>b f. mxml_parse_entity fuel room fs b f) fs file_name ents [] of
                       None \<Rightarrow> None
                     | Some (Inl err) \<Rightarrow> Some (Inl err)
                     | Some (Inr evs) \<Rightarrow> Some (replace_entities room file_name ln evs buf)))))"

text \<open>
  \<^verbatim>\<open>mxml_parse_file\<close>: \<open>strerror\<close> is the text of the system for a file that cannot be opened.
  The result is the tree, or NULL with the error text (empty after a silent error) and the
  line where one is set.
\<close>

definition mxml_parse_file ::
  "nat \<Rightarrow> (nat \<Rightarrow> nat) \<Rightarrow> (nat \<Rightarrow> nat) \<Rightarrow> (string \<Rightarrow> string option) \<Rightarrow> string \<Rightarrow> string \<Rightarrow> nat \<Rightarrow>
   (string \<times> nat option + mxml_node) res option" where
  "mxml_parse_file fuel room al fs strerror file_name error_size =
     (case fs file_name of
        None \<Rightarrow>
          let line = ''Unable to open file '' @ [DQUOTE] @ file_name @ [DQUOTE] @ '': '' in
          if 1000 \<le> length line then Some (Inl Buffer_overflow)
          else Some (Inr (Inl (strlcpy_str error_size (strlcat_str 1000 line strerror), None)))
      | Some content \<Rightarrow>
          (case mxml_parse_entity fuel room fs content file_name of
             None \<Rightarrow> None
           | Some (Inl (Ent_fault e)) \<Rightarrow> Some (Inl e)
           | Some (Inl Ent_silent) \<Rightarrow> Some (Inr (Inl ([], None)))
           | Some (Inl (Ent_error f ln msg)) \<Rightarrow>
               Some (bind_res (read_error (Some f) ln error_size msg) (\<lambda>txt. Inr (Inl (txt, Some ln))))
           | Some (Inr buf) \<Rightarrow>
               Some (bind_res (mxml_parse_buffer al buf error_size) (\<lambda>r.
                 Inr (case r of Inl (txt, ln) \<Rightarrow> Inl (txt, Some ln) | Inr t \<Rightarrow> Inr t)))))"

section \<open>Path names: properties\<close>

lemma basename_loop_rev: "basename_loop name p = (if CHR ''/'' \<in> set p then rev (takeWhile (\<lambda>c. c \<noteq> CHR ''/'') (rev p)) else name)"
proof (induction p arbitrary: name)
  case (Cons c p)
  show ?case
  proof (cases "CHR ''/'' \<in> set p")
    case True
    then have "takeWhile (\<lambda>c. c \<noteq> CHR ''/'') (rev p @ [c]) = takeWhile (\<lambda>c. c \<noteq> CHR ''/'') (rev p)"
      by (intro takeWhile_append1 [of "CHR ''/''"]) auto
    with True Cons show ?thesis by simp
  next
    case False
    then have "takeWhile (\<lambda>c. c \<noteq> CHR ''/'') (rev p) = rev p"
      by (simp add: takeWhile_eq_all_conv) metis
    with False Cons show ?thesis by (auto simp: takeWhile_append)
  qed
qed simp

lemma strrchr_split:
  assumes "CHR ''/'' \<in> set path"
  obtains a b where "path = a @ CHR ''/'' # b" "CHR ''/'' \<notin> set b"
    "c_strrchr (CHR ''/'') path = Some (length a)" "rev (takeWhile (\<lambda>c. c \<noteq> CHR ''/'') (rev path)) = b"
proof -
  from split_list_last [OF assms] obtain a b where ab: "path = a @ CHR ''/'' # b" "CHR ''/'' \<notin> set b" by blast
  then have "takeWhile (\<lambda>c. c \<noteq> CHR ''/'') (rev path) = rev b"
    using takeWhile_neq_append [of "CHR ''/''" "rev b" "rev a"] by simp
  with ab show thesis by (intro that [of a b]) (simp_all add: c_strrchr_def)
qed

text \<open>Directory and file name of a path fit together: behind the last slash is the base
  name, which contains no slash, and in front of it the directory (\<^verbatim>\<open>/\<close> for files in the
  root directory); a path without a slash is its own base name, in directory \<^verbatim>\<open>.\<close>\<close>

theorem dirname_basename:
  assumes "path \<noteq> []" and "length path < FILENAME_MAX"
  shows "\<exists>b. mxml_basename path = Inr b \<and> CHR ''/'' \<notin> set b \<and>
    (if CHR ''/'' \<notin> set path then b = path \<and> mxml_dirname path = ''.''
     else if hd path = CHR ''/'' \<and> CHR ''/'' \<notin> set (tl path) then path = ''/'' @ b \<and> mxml_dirname path = ''/''
     else path = mxml_dirname path @ ''/'' @ b)"
proof (cases "CHR ''/'' \<in> set path")
  case False
  then have "takeWhile (\<lambda>c. c \<noteq> CHR ''/'') (rev path) = rev path"
    unfolding takeWhile_eq_all_conv by auto
  then have "length (takeWhile (\<lambda>c. c \<noteq> CHR ''/'') (rev path)) = length path"
    by (simp only: length_rev)
  then have "c_strrchr (CHR ''/'') path = None" by (simp add: c_strrchr_def)
  with False assms show ?thesis
    by (simp add: mxml_basename_def basename_loop_rev mxml_dirname_def)
next
  case True
  then obtain a b where ab: "path = a @ CHR ''/'' # b" "CHR ''/'' \<notin> set b"
    "c_strrchr (CHR ''/'') path = Some (length a)" "rev (takeWhile (\<lambda>c. c \<noteq> CHR ''/'') (rev path)) = b"
    by (rule strrchr_split)
  have base: "mxml_basename path = Inr b"
    using True assms(2) ab(4) by (simp add: mxml_basename_def basename_loop_rev)
  show ?thesis
  proof (cases "a = []")
    case True
    with ab base assms show ?thesis by (simp add: mxml_dirname_def)
  next
    case False
    then obtain n where n: "length a = Suc n" by (cases a) auto
    have "mxml_dirname path = a" using assms(1) ab(3) n by (simp add: mxml_dirname_def) (simp add: ab(1) n)
    moreover have "\<not> (hd path = CHR ''/'' \<and> CHR ''/'' \<notin> set (tl path))"
      using False ab(1) by (cases a) auto
    ultimately show ?thesis using base ab True by auto
  qed
qed

theorem dirname_basename_witness:
  "mxml_basename ''path/to/test.txt'' = Inr ''test.txt'' \<and> mxml_dirname ''path/to/test.txt'' = ''path/to'' \<and>
   ''path/to/test.txt'' = mxml_dirname ''path/to/test.txt'' @ ''/'' @ ''test.txt''"
  using dirname_basename [of "''path/to/test.txt''"]
  by (simp add: FILENAME_MAX_def mxml_basename_def mxml_dirname_def c_strrchr_def)


section \<open>Replacement: properties\<close>

text \<open>The substitution that is meant: references are replaced from left to right.\<close>

function expand :: "(string \<times> string) list \<Rightarrow> string \<Rightarrow> string" where
  "expand evs p =
     (case p of
        [] \<Rightarrow> []
      | c # q \<Rightarrow>
          (case (if c = CHR ''&'' then find_entity evs p else None) of
             Some (n, v) \<Rightarrow> v @ expand evs (drop (length n - 1) q)
           | None \<Rightarrow> c # expand evs q))"
  by pat_completeness auto
termination
  by (relation "measure (\<lambda>(evs, p). length p)") (auto simp: le_imp_less_Suc)

declare expand.simps [simp del]

lemma expand_Nil [simp]: "expand evs [] = []"
  by (simp add: expand.simps)

lemma expand_Cons:
  "expand evs (c # q) =
     (case (if c = CHR ''&'' then find_entity evs (c # q) else None) of
        Some (n, v) \<Rightarrow> v @ expand evs (drop (length n - 1) q)
      | None \<Rightarrow> c # expand evs q)"
  by (subst expand.simps) simp

text \<open>
  Names as \<^verbatim>\<open>entity_decl\<close> builds them from identifiers; and that no reference stands at the
  end of the buffer or right in front of another one.
\<close>

definition ref_name :: "string \<Rightarrow> bool" where
  "ref_name n \<longleftrightarrow> (\<exists>m. n = CHR ''&'' # m @ '';'' \<and> CHR ''&'' \<notin> set m \<and> CHR '';'' \<notin> set m)"

definition is_ref :: "(string \<times> string) list \<Rightarrow> string \<Rightarrow> bool" where
  "is_ref evs p \<longleftrightarrow> peek p = CHR ''&'' \<and> find_entity evs p \<noteq> None"

definition isolated :: "(string \<times> string) list \<Rightarrow> string \<Rightarrow> bool" where
  "isolated evs p \<longleftrightarrow> (\<forall>a q n v. p = a @ q \<longrightarrow> peek q = CHR ''&'' \<longrightarrow> find_entity evs q = Some (n, v) \<longrightarrow>
     drop (length n) q \<noteq> [] \<and> \<not> is_ref evs (drop (length n) q))"

lemma isolated_suffix: "isolated evs (a @ p) \<Longrightarrow> isolated evs p"
  unfolding isolated_def by (metis append.assoc)

lemma isolated_tl: "isolated evs p \<Longrightarrow> isolated evs (tl p)"
  by (cases p) (auto intro: isolated_suffix [of _ "[_]"])

lemma isolated_drop: "isolated evs p \<Longrightarrow> isolated evs (drop k p)"
  by (metis append_take_drop_id isolated_suffix)

lemma find_entity_Some: "find_entity evs p = Some (n, v) \<Longrightarrow> (n, v) \<in> set evs \<and> starts_with n p"
  by (induction evs p rule: find_entity.induct) (auto split: if_splits)

lemma expand_plain: "p \<noteq> [] \<Longrightarrow> \<not> is_ref evs p \<Longrightarrow> expand evs p = hd p # expand evs (tl p)"
  by (cases p) (auto simp: expand_Cons is_ref_def split: option.splits)

lemma expand_ref:
  assumes "peek p = CHR ''&''" and "find_entity evs p = Some (n, v)" and "list_all (\<lambda>(n, v). n \<noteq> []) evs"
  shows "expand evs p = v @ expand evs (drop (length n) p)"
proof -
  obtain q where p: "p = CHR ''&'' # q" using assms(1) by (cases p) auto
  have "n \<noteq> []" using find_entity_Some [OF assms(2)] assms(3) by (auto simp: list_all_iff)
  then obtain k where "length n = Suc k" by (cases n) auto
  with p assms(2) show ?thesis by (simp add: expand_Cons)
qed

lemma replace_loop_expand:
  assumes "p \<noteq> []" and "isolated evs p" and "list_all (\<lambda>(n, v). n \<noteq> []) evs"
    and "length pv + length (expand evs p) < cap"
  shows "replace_loop evs cap p pv = Inr (pv @ expand evs p)"
  using assms
proof (induction evs cap p pv rule: replace_loop.induct)
  case (1 evs cap p pv)
  obtain p1 pv1 where r: "(case (if peek p = CHR ''&'' then find_entity evs p else None) of
      Some (n, v) \<Rightarrow> (drop (length n) p, pv @ v) | None \<Rightarrow> (p, pv)) = (p1, pv1)" by fastforce
  have p1: "p1 \<noteq> []" "\<not> is_ref evs p1" "pv @ expand evs p = pv1 @ expand evs p1" "isolated evs p1"
  proof -
    have "p1 \<noteq> [] \<and> \<not> is_ref evs p1 \<and> pv @ expand evs p = pv1 @ expand evs p1 \<and> isolated evs p1"
    proof (cases "is_ref evs p")
      case True
      then obtain n v where nv: "peek p = CHR ''&''" "find_entity evs p = Some (n, v)" by (auto simp: is_ref_def)
      moreover from this "1.prems"(2) have "drop (length n) p \<noteq> [] \<and> \<not> is_ref evs (drop (length n) p)"
        unfolding isolated_def by (metis append_Nil)
      ultimately show ?thesis
        using r expand_ref [OF nv "1.prems"(3)] isolated_drop [OF "1.prems"(2)] by auto
    next
      case False
      then have "p1 = p" "pv1 = pv" using r by (auto simp: is_ref_def split: if_splits option.splits)
      with False "1.prems" show ?thesis by simp
    qed
    then show "p1 \<noteq> []" "\<not> is_ref evs p1" "pv @ expand evs p = pv1 @ expand evs p1" "isolated evs p1" by simp_all
  qed
  have ex: "expand evs p1 = hd p1 # expand evs (tl p1)" using p1(1,2) by (rule expand_plain)
  have len: "length pv + length (expand evs p) = length pv1 + Suc (length (expand evs (tl p1)))"
    using p1(3) ex by (metis length_append length_Cons)
  show ?case
  proof (cases "tl p1 = []")
    case True
    then have "expand evs (tl p1) = []" by simp
    with True r p1 ex len "1.prems"(4) show ?thesis by (subst replace_loop.simps) simp
  next
    case False
    have "replace_loop evs cap (tl p1) (pv1 @ [hd p1]) = Inr ((pv1 @ [hd p1]) @ expand evs (tl p1))"
      using "1.IH" [OF r [symmetric] _ p1(1) False False isolated_tl [OF p1(4)] "1.prems"(3)] len "1.prems"(4)
      by simp
    with False r p1 ex len "1.prems"(4) show ?thesis by (subst replace_loop.simps) simp
  qed
qed


text \<open>The output length that is computed beforehand is that of the substitution.\<close>

definition refs_ok :: "(string \<times> string) list \<Rightarrow> bool" where
  "refs_ok evs \<longleftrightarrow> distinct (map fst evs) \<and> list_all (\<lambda>(n, v). ref_name n) evs"

lemma ref_name_unique:
  assumes "ref_name n" and "ref_name n'" and "starts_with n p" and "starts_with n' p"
  shows "n = n'"
proof -
  obtain m m' where m: "n = CHR ''&'' # m @ '';''" "CHR '';'' \<notin> set m"
    "n' = CHR ''&'' # m' @ '';''" "CHR '';'' \<notin> set m'"
    using assms(1,2) by (auto simp: ref_name_def)
  from assms(3,4) obtain r r' where "p = n @ r" "p = n' @ r'" by (metis starts_with_drop)
  then have "m @ CHR '';'' # r = m' @ CHR '';'' # r'" using m by simp
  with m(2,4) takeWhile_neq_append [of "CHR '';''" m r] takeWhile_neq_append [of "CHR '';''" m' r']
  have "m = m'" by metis
  with m show ?thesis by simp
qed

lemma count_occ_skip:
  assumes "ref_name n" and "CHR ''&'' \<notin> set a"
  shows "count_occ n (a @ p) = count_occ n p"
  using assms(2) by (induction a) (use assms(1) in \<open>auto simp: ref_name_def starts_with_Cons\<close>)

lemma find_entity_None: "find_entity evs p = None \<Longrightarrow> (n, v) \<in> set evs \<Longrightarrow> \<not> starts_with n p"
  by (induction evs p rule: find_entity.induct) (auto split: if_splits)

lemma sum_single:
  "distinct (map fst evs) \<Longrightarrow> (n, v) \<in> set evs \<Longrightarrow>
   sum_list (map (\<lambda>(n', v'). f n' v' * (if n' = n then 1 else 0)) evs) = (f n v :: int)"
proof (induction evs)
  case (Cons e evs)
  have "sum_list (map (\<lambda>(n', v'). f n' v' * (if n' = n then 1 else 0)) es) = 0" if "n \<notin> fst ` set es" for es
    using that by (induction es) auto
  with Cons show ?case by (cases e) (force split: if_splits)
qed simp

lemma sum_split:
  "sum_list (map (\<lambda>(n, v). f n v + g n v) es) =
     sum_list (map (\<lambda>(n, v). f n v) es) + (sum_list (map (\<lambda>(n, v). g n v) es) :: int)"
  by (induction es) auto

lemma output_length_ref:
  assumes "refs_ok evs" and "peek p = CHR ''&''" and "find_entity evs p = Some (n, v)"
  shows "output_length evs p = int (length v) + output_length evs (drop (length n) p)"
proof -
  let ?r = "drop (length n) p"
  from find_entity_Some [OF assms(3)] have nv: "(n, v) \<in> set evs" "starts_with n p" by simp_all
  with assms(1) have rn: "ref_name n" by (auto simp: refs_ok_def list_all_iff)
  then obtain m where m: "n = CHR ''&'' # m @ '';''" "CHR ''&'' \<notin> set m" by (auto simp: ref_name_def)
  have p: "p = CHR ''&'' # (m @ '';'') @ ?r" using starts_with_drop [OF nv(2)] m(1) by simp
  have occ: "count_occ n' p = (if n' = n then 1 else 0) + count_occ n' ?r" if "(n', v') \<in> set evs" for n' v'
  proof -
    have rn': "ref_name n'" using assms(1) that by (auto simp: refs_ok_def list_all_iff)
    have "count_occ n' ((m @ '';'') @ ?r) = count_occ n' ?r"
      using m(2) by (intro count_occ_skip rn') auto
    moreover have "starts_with n' p \<longleftrightarrow> n' = n" using ref_name_unique [OF rn rn'] nv(2) by blast
    ultimately show ?thesis by (subst p, subst count_occ.simps) (use p in simp)
  qed
  have "sum_list (map (\<lambda>(n', v'). (int (length v') - int (length n')) * int (count_occ n' p)) evs) =
    sum_list (map (\<lambda>(n', v'). (int (length v') - int (length n')) * (if n' = n then 1 else 0) +
      (int (length v') - int (length n')) * int (count_occ n' ?r)) evs)"
    by (intro arg_cong [of _ _ sum_list] map_cong) (auto simp: occ algebra_simps)
  also have "\<dots> = (int (length v) - int (length n)) +
      sum_list (map (\<lambda>(n', v'). (int (length v') - int (length n')) * int (count_occ n' ?r)) evs)"
    using sum_single [OF _ nv(1), of "\<lambda>n v. int (length v) - int (length n)"] assms(1)
    by (simp add: sum_split refs_ok_def)
  finally have *: "sum_list (map (\<lambda>(n', v'). (int (length v') - int (length n')) * int (count_occ n' p)) evs) =
      (int (length v) - int (length n)) +
      sum_list (map (\<lambda>(n', v'). (int (length v') - int (length n')) * int (count_occ n' ?r)) evs)" .
  have "length n \<le> length p" using arg_cong [OF nv(2) [unfolded starts_with_def], of length] by simp
  with * show ?thesis by (simp add: output_length_def of_nat_diff)
qed

lemma output_length_plain:
  assumes "refs_ok evs" and "\<not> is_ref evs (c # q)"
  shows "output_length evs (c # q) = 1 + output_length evs q"
proof -
  have "count_occ n (c # q) = count_occ n q" if "(n, v) \<in> set evs" for n v
  proof -
    have "ref_name n" using assms(1) that by (auto simp: refs_ok_def list_all_iff)
    with assms(2) that find_entity_None [of evs "c # q" n v] show ?thesis
      by (cases "find_entity evs (c # q)") (auto simp: is_ref_def ref_name_def starts_with_Cons)
  qed
  then have "sum_list (map (\<lambda>(n, v). (int (length v) - int (length n)) * int (count_occ n (c # q))) evs) =
      sum_list (map (\<lambda>(n, v). (int (length v) - int (length n)) * int (count_occ n q)) evs)"
    by (intro arg_cong [of _ _ sum_list] map_cong) auto
  then show ?thesis by (simp add: output_length_def)
qed

lemma expand_length:
  assumes "refs_ok evs"
  shows "int (length (expand evs p)) = output_length evs p"
proof (induction "length p" arbitrary: p rule: less_induct)
  case less
  have ne: "list_all (\<lambda>(n, v). n \<noteq> []) evs"
    using assms by (auto simp: refs_ok_def list_all_iff ref_name_def)
  show ?case
  proof (cases "is_ref evs p")
    case True
    then obtain n v where nv: "peek p = CHR ''&''" "find_entity evs p = Some (n, v)" by (auto simp: is_ref_def)
    have "n \<noteq> []" "p \<noteq> []" using find_entity_Some [OF nv(2)] ne nv(1) by (auto simp: list_all_iff)
    then have "length (drop (length n) p) < length p" by simp
    from less [OF this] show ?thesis
      using expand_ref [OF nv ne] output_length_ref [OF assms nv] by simp
  next
    case False
    show ?thesis
    proof (cases p)
      case Nil
      have "sum_list (map (\<lambda>(n, v). 0 :: int) es) = 0" for es :: "(string \<times> string) list"
        by (induction es) auto
      with Nil show ?thesis by (simp add: output_length_def)
    next
      case (Cons c q)
      with less [of q] False expand_plain [OF _ False] output_length_plain [OF assms, of c q]
      show ?thesis by simp
    qed
  qed
qed




text \<open>A reference at the very end of the buffer makes the loop read behind it.\<close>

theorem reference_at_end:
  assumes "CHR ''&'' \<notin> set a" and "refs_ok evs" and "(n, v) \<in> set evs" and "\<forall>k. k \<le> room k"
  shows "replace_entities room file_name ln evs (a @ n) = Inl (Ent_fault Out_of_bounds)"
proof -
  from assms(2,3) obtain m where m: "n = CHR ''&'' # m @ '';''" "ref_name n"
    by (auto simp: refs_ok_def list_all_iff ref_name_def)
  have nv: "find_entity evs n = Some (n, v)"
    using assms(2,3)
  proof (induction evs)
    case (Cons e es)
    obtain n' v' where e: "e = (n', v')" by (cases e)
    have "starts_with n' n \<Longrightarrow> n' = n"
      using Cons.prems(1) m(2) ref_name_unique [of n' n n] e by (simp add: refs_ok_def starts_with_def)
    with Cons e show ?case by (auto simp: refs_ok_def starts_with_def image_iff)
  qed simp
  have len: "output_length evs (a @ n) = int (length a) + int (length v)"
    using assms(1)
  proof (induction a)
    case Nil
    have "output_length evs n = int (length v) + output_length evs (drop (length n) n)"
      using m(1) nv by (intro output_length_ref [OF assms(2)]) simp_all
    moreover have "output_length evs [] = 0"
      using expand_length [OF assms(2), of "[]"] by simp
    ultimately show ?case by simp
  next
    case (Cons c a)
    then have "\<not> is_ref evs (c # a @ n)" by (auto simp: is_ref_def)
    with Cons show ?case using output_length_plain [OF assms(2), of c "a @ n"] by simp
  qed
  have "replace_loop evs cap (a @ n) pv = Inl Out_of_bounds" if "length pv + length a + length v < cap" for cap pv
    using assms(1) that
  proof (induction a arbitrary: pv)
    case Nil
    with m(1) nv show ?case by (subst replace_loop.simps) simp
  next
    case (Cons c a)
    have "a @ n \<noteq> []" "c \<noteq> CHR ''&''" using m(1) Cons.prems(1) by auto
    with Cons show ?case by (subst replace_loop.simps) simp
  qed
  moreover have "length a + length v < room (Suc (length a + length v))"
    using assms(4) Suc_le_lessD by blast
  ultimately show ?thesis
    using len by (simp add: replace_entities_def nat_add_distrib)
qed

theorem reference_at_end_witness:
  "replace_entities id ''f'' 1 [(''&a;'', ''xyz'')] (''text'' @ ''&a;'') = Inl (Ent_fault Out_of_bounds)"
  by (rule reference_at_end [where v = "''xyz''"]) (auto simp: refs_ok_def ref_name_def)

text \<open>Of two references in a row the second is not replaced; when the replacement is shorter
  than the reference the result does not fit the block that was computed for it.\<close>

theorem adjacent_references_overflow:
  "replace_entities id file_name ln [(''&a;'', [])] ''&a;&a;x'' = Inl (Ent_fault Buffer_overflow)"
  by (simp add: replace_entities_def output_length_def starts_with_def replace_loop.simps)

section \<open>Whole files\<close>

text \<open>A file without a document type is passed on unchanged; a file whose document type has
  no internal subset is refused, without any error text.\<close>

theorem parse_entity_no_subset:
  assumes "buf \<noteq> []" and "length file_name < FILENAME_MAX"
  shows "(c_strstr ''!DOCTYPE'' buf = None \<longrightarrow>
      mxml_parse_entity (Suc fuel) room fs buf file_name = Some (Inr buf)) \<and>
    (\<forall>p. c_strstr ''!DOCTYPE'' buf = Some p \<longrightarrow> CHR ''['' \<notin> set p \<longrightarrow>
      mxml_parse_entity (Suc fuel) room fs buf file_name = Some (Inl Ent_silent))"
proof -
  have "c_strstr ''['' p = None" if "CHR ''['' \<notin> set p" for p
    using that by (induction p) (auto simp: starts_with_Cons)
  with assms show ?thesis by auto
qed

theorem parse_entity_no_subset_witness:
  "mxml_parse_entity 1 id (\<lambda>_. None) ''<a>1</a>'' ''f.xml'' = Some (Inr ''<a>1</a>'') \<and>
   mxml_parse_entity 1 id (\<lambda>_. None) ''<!DOCTYPE a><a/>'' ''f.xml'' = Some (Inl Ent_silent)"
  using parse_entity_no_subset [of "''<a>1</a>''" "''f.xml''" 0 id "\<lambda>_. None"]
    parse_entity_no_subset [of "''<!DOCTYPE a><a/>''" "''f.xml''" 0 id "\<lambda>_. None"]
  by (simp add: FILENAME_MAX_def starts_with_def)

definition entity_doc :: "string \<Rightarrow> string" where
  "entity_doc v = ''<!DOCTYPE d [<!ENTITY n '' @ [DQUOTE] @ v @ [DQUOTE] @ ''>]>''"

text \<open>With a heap that gives exactly the bytes that were asked for, the declaration of any
  internal entity overruns its block: room for the value is allocated without its NUL.\<close>

theorem internal_entity_overflow:
  assumes "DQUOTE \<notin> set v" and "room (length (mxml_decode v)) = length (mxml_decode v)"
  shows "mxml_parse_entity (Suc fuel) room fs (entity_doc v) ''f.xml'' = Some (Inl (Ent_fault Buffer_overflow))"
proof -
  let ?q = "DQUOTE # v @ [DQUOTE] @ ''>]>''"
  have val: "entity_decl_value ''n;'' (CHR '' '' # ?q) 1 = Inr (False, mxml_decode v, [DQUOTE] @ ''>]>'', 1)"
    using takeWhile_neq_append [OF assms(1), of "''>]>''"] dropWhile_neq_append [OF assms(1), of "''>]>''"]
    by (simp add: entity_decl_value_def skip_ws_def is_space_def starts_with_def Let_def del: dropWhile_eq_Nil_conv)
  have name: "entity_decl_name ('' n '' @ ?q) 1 = Inr (''n;'', CHR '' '' # ?q, 1)"
    by (simp add: entity_decl_name_def skip_ws_def is_space_def in_node_name_def Let_def del: dropWhile_eq_Nil_conv)
  have "entity_step room (''<!ENTITY n '' @ ?q) 1 [] = Inl (Fault Buffer_overflow)"
    using name val assms(2)
    by (simp add: entity_step_def entity_decl_def MXML_MAX_ENTITY_def skip_ws_def is_space_def starts_with_def Let_def)
  moreover have "c_strstr ''!DOCTYPE'' (entity_doc v) = Some (''!DOCTYPE d [<!ENTITY n '' @ ?q)"
    "c_strstr ''['' (''!DOCTYPE d [<!ENTITY n '' @ ?q) = Some (''[<!ENTITY n '' @ ?q)"
    by (simp_all add: entity_doc_def starts_with_def)
  ultimately show ?thesis
    by (simp add: entity_loop.simps FILENAME_MAX_def entity_doc_def)
qed

theorem internal_entity_overflow_witness:
  "mxml_parse_entity 1 id (\<lambda>_. None) (entity_doc ''abc'') ''f.xml'' = Some (Inl (Ent_fault Buffer_overflow))"
  using internal_entity_overflow [of "''abc''" id 0 "\<lambda>_. None"] by simp

definition self_fs :: "string \<Rightarrow> string option" where
  "self_fs f = (if f = ''./f'' \<or> f = ''f'' then Some ''<!DOCTYPE d [<!ENTITY n SYSTEM \"f\">]>.'' else None)"

text \<open>A file that declares itself as an external entity is never read to the end: the
  recursion does not stop for any amount of fuel.\<close>

theorem self_inclusion_diverges:
  "mxml_parse_entity fuel room self_fs ''<!DOCTYPE d [<!ENTITY n SYSTEM \"f\">]>'' ''./f'' = None"
proof (induction fuel)
  case (Suc fuel)
  have "entity_loop room ''<!ENTITY n SYSTEM \"f\">]>'' 1 [] =
      Inr ([\<lparr>entity_name = ''&n;'', entity_external = True, entity_reference_name = ''f'',
             entity_value = [], entity_line_number = 1\<rparr>], 1)"
    by (simp add: entity_loop.simps entity_step_def entity_decl_def entity_decl_name_def entity_decl_value_def
        MXML_MAX_ENTITY_def skip_ws_def is_space_def starts_with_def in_node_name_def mxml_decode_ref Let_def)
  moreover have "mxml_dirname ''./f'' = ''.''" by (simp add: mxml_dirname_def c_strrchr_def)
  moreover have "self_fs ''./f'' = Some ''<!DOCTYPE d [<!ENTITY n SYSTEM \"f\">]>.''" by (simp add: self_fs_def)
  ultimately show ?case
    using Suc by (simp add: FILENAME_MAX_def starts_with_def)
qed simp

end
