(* ===== verification/Mxml_Find.thy ===== *)
theory Mxml_Find
  imports Mxml_Parser_Props
begin

text \<open>
  Searching the tree with a path expression (\<open>mxml_find_nodes1\<close>, \<open>mxml_add_resultnode\<close>,
  \<open>mxml_find_nodes\<close> and \<open>mxml_find_node\<close> of \<^verbatim>\<open>src/mxml/mxml.c\<close>).  A found node is the
  path of child indices that leads to it; \<open>None\<close> is the return value 0 (a malformed
  expression), and the list that is threaded through is \<^verbatim>\<open>*nodelist\<close>, with \<^verbatim>\<open>*found\<close> as
  its length.
\<close>

section \<open>Conditions\<close>

definition MXML_MAX_CONDITION :: nat where
  "MXML_MAX_CONDITION = 10"

record find_cond =
  cond_type :: bool
  cond_name :: string
  cond_value :: string

text \<open>\<^verbatim>\<open>while (s[0] && isspace(s[strlen(s)-1])) s[strlen(s)-1] = 0;\<close>\<close>

definition rtrim :: "string \<Rightarrow> string" where
  "rtrim s = rev (dropWhile is_space (rev s))"

definition drop_quote :: "char \<Rightarrow> string \<Rightarrow> string" where
  "drop_quote c s = (if s \<noteq> [] \<and> last s = c then butlast s else s)"

text \<open>
  One condition from behind its opening bracket: \<open>None\<close> without a closing bracket within
  the 255 characters of \<^verbatim>\<open>condition\<close>; a condition without \<^verbatim>\<open>=\<close> is skipped.
\<close>

definition parse_condition :: "string \<Rightarrow> (find_cond option \<times> string) option" where
  "parse_condition p =
     (let p2 = dropWhile is_space p; cond = strlcpy_str 256 p2 in
      if CHR '']'' \<notin> set cond then None
      else
        let cond1 = takeWhile (\<lambda>c. c \<noteq> CHR '']'') cond; rest = tl (dropWhile (\<lambda>c. c \<noteq> CHR '']'') p2) in
        (case c_strchr (CHR ''='') cond1 of
           None \<Rightarrow> Some (None, rest)
         | Some p3 \<Rightarrow>
             let is_attr = (peek cond1 = CHR ''@'');
                 name = strlcpy_str 256 (if is_attr then tl cond1 else cond1);
                 v = dropWhile is_space (tl p3);
                 val = (if peek v = DQUOTE then drop_quote DQUOTE (rtrim (strlcpy_str 256 (tl v)))
                        else if peek v = SQUOTE then drop_quote SQUOTE (rtrim (strlcpy_str 256 (tl v)))
                        else rtrim (strlcpy_str 256 v))
             in Some (Some \<lparr>cond_type = is_attr, cond_name = rtrim (takeWhile (\<lambda>c. c \<noteq> CHR ''='') name),
                            cond_value = val\<rparr>, rest)))"

lemma parse_condition_length: "parse_condition p = Some (c, q) \<Longrightarrow> length q < Suc (length p)"
proof -
  assume "parse_condition p = Some (c, q)"
  then have "q = tl (dropWhile (\<lambda>c. c \<noteq> CHR '']'') (dropWhile is_space p))"
    by (auto simp: parse_condition_def Let_def split: if_splits option.splits)
  then have "length q \<le> length (dropWhile (\<lambda>c. c \<noteq> CHR '']'') (dropWhile is_space p))" by simp
  also have "\<dots> \<le> length p" by (intro order_trans [OF length_dropWhile_le] length_dropWhile_le)
  finally show ?thesis by simp
qed

text \<open>
  The loop over the bracketed parts: the rest of the expression, the index (0 for none)
  and the conditions.  Every bracket first clears the entry \<^verbatim>\<open>num_cond\<close> of the arrays, so one
  more bracket behind ten conditions writes out of bounds.
\<close>

function parse_brackets :: "string \<Rightarrow> nat \<Rightarrow> find_cond list \<Rightarrow> (string \<times> nat \<times> find_cond list) option res" where
  "parse_brackets p2 idx conds =
     (if peek p2 \<noteq> CHR ''['' then Inr (Some (p2, idx, conds))
      else if MXML_MAX_CONDITION \<le> length conds then Inl Buffer_overflow
      else if is_digit (peek (tl p2)) then
        (case c_strchr (CHR '']'') (tl p2) of
           None \<Rightarrow> Inr None
         | Some q \<Rightarrow> parse_brackets (tl q) (c_atoi (tl p2)) conds)
      else
        (case parse_condition (tl p2) of
           None \<Rightarrow> Inr None
         | Some (c, q) \<Rightarrow> parse_brackets q idx (conds @ (case c of None \<Rightarrow> [] | Some x \<Rightarrow> [x]))))"
  by pat_completeness auto
termination
proof (relation "measure (\<lambda>(p, idx, conds). length p)", goal_cases)
  case (2 p2 idx conds q)
  then have "p2 \<noteq> []" by auto
  with 2(4) c_strchr_length [OF 2(4)] show ?case by (cases p2) auto
next
  case (3 p2 idx conds x c q)
  then have "p2 \<noteq> []" by auto
  with 3 parse_condition_length [of "tl p2" c q] show ?case by (cases p2) auto
qed simp

declare parse_brackets.simps [simp del]

section \<open>Matching\<close>

text \<open>
  \<^verbatim>\<open>cond_satisfied\<close>: a subnode condition counts every matching subnode, and compares the
  value of a subnode without checking that it has one.
\<close>

fun count_subnodes :: "find_cond \<Rightarrow> mxml_node list \<Rightarrow> nat \<Rightarrow> nat res" where
  "count_subnodes c [] n = Inr n"
| "count_subnodes c (s # ss) n =
     (if nname (info s) = cond_name c then
        (case nvalue (info s) of
           None \<Rightarrow> Inl Null_pointer
         | Some v \<Rightarrow> count_subnodes c ss (if v = cond_value c then n + 1 else n))
      else count_subnodes c ss n)"

fun count_conditions :: "string \<Rightarrow> mxml_node \<Rightarrow> find_cond list \<Rightarrow> nat \<Rightarrow> nat res" where
  "count_conditions node_name t [] n = Inr n"
| "count_conditions node_name t (c # cs) n =
     (if cond_type c then
        (if nname (info t) = node_name then
           bind_res (mxml_get_attribute t (cond_name c)) (\<lambda>v.
             count_conditions node_name t cs (if v = Some (cond_value c) then n + 1 else n))
         else count_conditions node_name t cs n)
      else bind_res (count_subnodes c (child t) n) (count_conditions node_name t cs))"

text \<open>
  Whether the current child is a result candidate, and the counter (\<^verbatim>\<open>cond_index\<close> or \<^verbatim>\<open>j\<close>)
  after it.
\<close>

definition match_child :: "string \<Rightarrow> find_cond list \<Rightarrow> mxml_node \<Rightarrow> bool res" where
  "match_child node_name conds t =
     (if conds \<noteq> [] then
        bind_res (count_conditions node_name t conds 0) (\<lambda>n. Inr (n = length conds))
      else Inr (nname (info t) = node_name))"

section \<open>The search\<close>

definition split_name :: "string \<Rightarrow> string \<times> string" where
  "split_name xml_path =
     (let p1 = (if peek xml_path = CHR ''/'' then tl xml_path else xml_path);
          stop = (\<lambda>c. c \<noteq> CHR ''/'' \<and> c \<noteq> CHR ''['')
      in (takeWhile stop p1, dropWhile stop p1))"

lemma split_name_length: "split_name p = (nm, q) \<Longrightarrow> length q \<le> length p"
  by (auto simp: split_name_def Let_def intro: order_trans [OF length_dropWhile_le])

lemma parse_brackets_length: "parse_brackets p i cs = Inr (Some (q, i', cs')) \<Longrightarrow> length q \<le> length p"
proof (induction p i cs rule: parse_brackets.induct)
  case (1 p2 idx conds)
  show ?case
  proof (cases "peek p2 = CHR ''[''")
    case False
    with "1.prems" show ?thesis by (simp add: parse_brackets.simps [of p2])
  next
    case True
    then obtain p where p: "p2 = CHR ''['' # p" by (cases p2) auto
    show ?thesis
    proof (cases "is_digit (peek p)")
      case dig: True
      with "1.prems" True obtain r where r: "c_strchr (CHR '']'') p = Some r"
        "parse_brackets (tl r) (c_atoi p) conds = Inr (Some (q, i', cs'))" "\<not> MXML_MAX_CONDITION \<le> length conds"
        by (subst (asm) parse_brackets.simps) (auto simp: p split: if_splits option.splits)
      then have "length q \<le> length (tl r)" using "1.IH"(1) True dig p by simp
      with c_strchr_length [OF r(1)] p show ?thesis by (simp, linarith)
    next
      case dig: False
      with "1.prems" True obtain c r where r: "parse_condition p = Some (c, r)"
        "parse_brackets r idx (conds @ (case c of None \<Rightarrow> [] | Some x \<Rightarrow> [x])) = Inr (Some (q, i', cs'))"
        "\<not> MXML_MAX_CONDITION \<le> length conds"
        by (subst (asm) parse_brackets.simps) (auto simp: p split: if_splits option.splits)
      then have "length q \<le> length r" using "1.IH"(2) True dig p by simp
      with parse_condition_length [OF r(1)] p show ?thesis by simp
    qed
  qed
qed


lemma rest_shorter:
  assumes "(nm, p2) = split_name xp" and "parse_brackets p2 0 [] = Inr (Some (p3, idx, conds))"
  shows "2 * length p3 < Suc (2 * length xp)"
  using split_name_length [of xp nm p2] parse_brackets_length [OF assms(2)] assms(1) by simp

function (sequential)
      mxml_find_nodes1 :: "mxml_node \<Rightarrow> nat list \<Rightarrow> string \<Rightarrow> nat list list \<Rightarrow> nat list list option res"
  and find_children :: "string \<Rightarrow> nat \<Rightarrow> find_cond list \<Rightarrow> string \<Rightarrow> nat list \<Rightarrow> mxml_node list \<Rightarrow> nat \<Rightarrow> nat \<Rightarrow>
        nat list list \<Rightarrow> nat list list option res"
  and mxml_add_resultnode :: "mxml_node \<Rightarrow> nat list \<Rightarrow> string \<Rightarrow> nat list list \<Rightarrow> nat list list option res" where
  "mxml_find_nodes1 tree pre xml_path nodelist =
     (case split_name xml_path of (node_name, p2) \<Rightarrow>
        if 256 \<le> length node_name then Inr None
        else case parse_brackets p2 0 [] of
          Inl e \<Rightarrow> Inl e
        | Inr None \<Rightarrow> Inr None
        | Inr (Some (p3, idx, conds)) \<Rightarrow>
            find_children node_name idx conds p3 pre (child tree) 0 0 nodelist)"
| "find_children node_name idx conds p pre [] i cnt nodelist = Inr (Some nodelist)"
| "find_children node_name idx conds p pre (c # cs) i cnt nodelist =
     (case match_child node_name conds c of
        Inl e \<Rightarrow> Inl e
      | Inr False \<Rightarrow> find_children node_name idx conds p pre cs (i + 1) cnt nodelist
      | Inr True \<Rightarrow>
          if idx = 0 \<or> cnt + 1 = idx then
            (case mxml_add_resultnode c (pre @ [i]) p nodelist of
               Inl e \<Rightarrow> Inl e
             | Inr None \<Rightarrow> Inr None
             | Inr (Some nodelist') \<Rightarrow> find_children node_name idx conds p pre cs (i + 1) (cnt + 1) nodelist')
          else find_children node_name idx conds p pre cs (i + 1) (cnt + 1) nodelist)"
| "mxml_add_resultnode node pre xml_path nodelist =
     (if xml_path = [] then Inr (Some (nodelist @ [pre]))
      else mxml_find_nodes1 node pre (tl xml_path) nodelist)"
  by pat_completeness auto
termination
  by (relation "inv_image (less_than <*lex*> less_than) (\<lambda>x. case x of
        Inl (t, a, p, l) \<Rightarrow> (2 * length p + 1, 0)
      | Inr (Inl (nm, idx, conds, p, a, cs, i, cnt, l)) \<Rightarrow> (2 * length p, length cs + 1)
      | Inr (Inr (t, a, p, l)) \<Rightarrow> (2 * length p, 0))")
    (auto simp: neq_Nil_conv dest: rest_shorter)

declare mxml_find_nodes1.simps [simp del] find_children.simps(2) [simp del] mxml_add_resultnode.simps [simp del]

text \<open>The number found, -1 for an error (here: the list itself or \<open>None\<close>), and the first.\<close>

definition mxml_find_nodes :: "mxml_node \<Rightarrow> string \<Rightarrow> nat list list option res" where
  "mxml_find_nodes tree xml_path = mxml_find_nodes1 tree [] xml_path []"

definition mxml_find_node :: "mxml_node \<Rightarrow> string \<Rightarrow> nat list option res" where
  "mxml_find_node tree xml_path =
     bind_res (mxml_find_nodes tree xml_path) (\<lambda>r.
       Inr (case r of Some (p # _) \<Rightarrow> Some p | _ \<Rightarrow> None))"


section \<open>What a search returns\<close>

definition below :: "mxml_node list \<Rightarrow> nat \<Rightarrow> nat list \<Rightarrow> bool" where
  "below cs i p \<longleftrightarrow> (\<exists>k q. p = (i + k) # q \<and> k < length cs \<and> valid_path (cs ! k) q)"

lemma below_Cons: "below cs (i + 1) p \<Longrightarrow> below (c # cs) i p"
  unfolding below_def by (metis add.assoc add.commute length_Cons not_less_eq nth_Cons_Suc plus_1_eq_Suc)

lemma below_head: "valid_path c q \<Longrightarrow> below (c # cs) i (i # q)"
  unfolding below_def by (intro exI [of _ 0]) auto

lemma below_hd: "below cs (i + 1) p \<Longrightarrow> hd p \<noteq> i"
  by (auto simp: below_def)

lemma below_valid: "below (child t) 0 p \<Longrightarrow> valid_path t p"
  by (auto simp: below_def n_children_def)

lemma found_below:
  "mxml_find_nodes1 t pre xp acc = Inr (Some r) \<Longrightarrow>
     \<exists>ns. r = acc @ map ((@) pre) ns \<and> list_all (valid_path t) ns \<and> distinct ns"
  "find_children nm idx conds xp pre cs i cnt acc = Inr (Some r) \<Longrightarrow>
     \<exists>ns. r = acc @ map ((@) pre) ns \<and> list_all (below cs i) ns \<and> distinct ns"
  "mxml_add_resultnode t pre xp acc = Inr (Some r) \<Longrightarrow>
     \<exists>ns. r = acc @ map ((@) pre) ns \<and> list_all (valid_path t) ns \<and> distinct ns"
proof (induction t pre xp acc and nm idx conds xp pre cs i cnt acc and t pre xp acc arbitrary: r and r and r
    rule: mxml_find_nodes1_find_children_mxml_add_resultnode.induct)
  case (1 t pre xp acc)
  obtain nm p2 where sp: "split_name xp = (nm, p2)" by fastforce
  from "1.prems" sp obtain p3 idx conds where *: "parse_brackets p2 0 [] = Inr (Some (p3, idx, conds))"
    "find_children nm idx conds p3 pre (child t) 0 0 acc = Inr (Some r)" "\<not> 256 \<le> length nm"
    by (subst (asm) mxml_find_nodes1.simps) (auto split: if_splits sum.splits option.splits)
  from "1.IH" [OF sp [symmetric] *(3,1) refl refl refl *(2)] show ?case
    by (metis below_valid list.pred_mono_strong)
next
  case (2 nm idx conds xp pre i cnt acc)
  then show ?case by simp
next
  case (3 nm idx conds xp pre c cs i cnt acc)
  have skip: "\<exists>ns. r = acc @ map ((@) pre) ns \<and> list_all (below (c # cs) i) ns \<and> distinct ns"
    if "\<exists>ns. r = acc @ map ((@) pre) ns \<and> list_all (below cs (i + 1)) ns \<and> distinct ns" for acc
    using that by (metis below_Cons list.pred_mono_strong)
  obtain b where b: "match_child nm conds c = Inr b"
    using "3.prems" by (cases "match_child nm conds c") (simp_all add: find_children.simps(2))
  show ?case
  proof (cases "b \<and> (idx = 0 \<or> cnt + 1 = idx)")
    case False
    show ?thesis
    proof (cases b)
      case True
      with False b "3.prems" have "find_children nm idx conds xp pre cs (i + 1) (cnt + 1) acc = Inr (Some r)"
        by (simp add: find_children.simps(2) [of nm idx conds xp pre c])
      from "3.IH"(3) [OF b _ _ this] True False show ?thesis by (intro skip) simp
    next
      case b': False
      with b "3.prems" have "find_children nm idx conds xp pre cs (i + 1) cnt acc = Inr (Some r)"
        by (simp add: find_children.simps(2) [of nm idx conds xp pre c])
      from "3.IH"(4) [OF b _ this] b' show ?thesis by (intro skip) simp
    qed
  next
    case True
    with "3.prems" b obtain acc' where a: "mxml_add_resultnode c (pre @ [i]) xp acc = Inr (Some acc')"
      "find_children nm idx conds xp pre cs (i + 1) (cnt + 1) acc' = Inr (Some r)"
      by (auto simp: find_children.simps(2) [of nm idx conds xp pre c] split: sum.splits option.splits)
    from "3.IH"(1) [OF b _ _ a(1)] True obtain ns1 where n1: "acc' = acc @ map ((@) (pre @ [i])) ns1"
      "list_all (valid_path c) ns1" "distinct ns1" by blast
    from "3.IH"(2) [OF b _ _ a(1) refl a(2)] True obtain ns2 where n2: "r = acc' @ map ((@) pre) ns2"
      "list_all (below cs (i + 1)) ns2" "distinct ns2" by blast
    let ?ns = "map ((#) i) ns1 @ ns2"
    have "r = acc @ map ((@) pre) ?ns" using n1(1) n2(1) by simp
    moreover have "list_all (below (c # cs) i) ?ns"
      using n1(2) n2(2) by (auto simp: list_all_iff below_head below_Cons)
    moreover have "distinct ?ns"
      using n1(3) n2(2,3) below_hd by (auto simp: distinct_map inj_on_def list_all_iff) fastforce
    ultimately show ?thesis by blast
  qed
next
  case (4 t pre xp acc)
  show ?case
  proof (cases "xp = []")
    case True
    with "4.prems" show ?thesis
      by (intro exI [of _ "[[]]"]) (simp add: mxml_add_resultnode.simps)
  next
    case False
    with 4 show ?thesis by (simp add: mxml_add_resultnode.simps [of t pre xp])
  qed
qed

text \<open>C29: A search that succeeds returns nodes of the tree that was searched, each of them once.\<close>

theorem find_nodes_valid:
  assumes "mxml_find_nodes t xp = Inr (Some r)"
  shows "list_all (valid_path t) r \<and> distinct r"
  using found_below(1) [OF assms [unfolded mxml_find_nodes_def]] by (auto simp: map_idI)


section \<open>Plain paths\<close>

definition plain :: "string \<Rightarrow> bool" where
  "plain n \<longleftrightarrow> n \<noteq> [] \<and> CHR ''/'' \<notin> set n \<and> CHR ''['' \<notin> set n \<and> length n < 256"

definition path_text :: "string list \<Rightarrow> string" where
  "path_text ns = concat (map (\<lambda>n. CHR ''/'' # n) ns)"

lemma path_text_simps [simp]: "path_text [] = []" "path_text (n # ns) = CHR ''/'' # n @ path_text ns"
  by (simp_all add: path_text_def)

text \<open>All nodes that a chain of names leads to, in document order.\<close>

fun find_ref :: "mxml_node \<Rightarrow> string list \<Rightarrow> nat list list" where
  "find_ref t [] = [[]]"
| "find_ref t (n # ns) = concat (map (\<lambda>i. if nname (info (child t ! i)) = n
     then map ((#) i) (find_ref (child t ! i) ns) else []) [0..<n_children t])"

lemma takeWhile_stop: "list_all P a \<Longrightarrow> \<not> P (peek b) \<Longrightarrow> b \<noteq> [] \<Longrightarrow> takeWhile P (a @ b) = a \<and> dropWhile P (a @ b) = b"
  by (cases b) (induction a; auto)+

lemma split_name_plain:
  assumes "plain n" and "q = [] \<or> peek q = CHR ''/'' \<or> peek q = CHR ''[''"
  shows "split_name (CHR ''/'' # n @ q) = (n, q)" "split_name (n @ q) = (n, q)"
proof -
  let ?P = "\<lambda>c. c \<noteq> CHR ''/'' \<and> c \<noteq> CHR ''[''"
  have all: "list_all ?P n" using assms(1) by (auto simp: plain_def list_all_iff)
  have tw: "takeWhile ?P (n @ q) = n \<and> dropWhile ?P (n @ q) = q"
  proof (cases "q = []")
    case True
    with all show ?thesis by (simp add: list_all_iff)
  next
    case False
    with all assms(2) show ?thesis by (intro takeWhile_stop) auto
  qed
  then show "split_name (CHR ''/'' # n @ q) = (n, q)" by (simp add: split_name_def)
  from assms(1) have "peek (n @ q) \<noteq> CHR ''/''" by (cases n) (auto simp: plain_def)
  with tw show "split_name (n @ q) = (n, q)" by (simp add: split_name_def)
qed

lemma path_text_start: "path_text ns = [] \<or> peek (path_text ns) = CHR ''/'' \<or> peek (path_text ns) = CHR ''[''"
  by (cases ns) simp_all

lemma find_children_plain:
  assumes "\<And>c pre acc. c \<in> set cs \<Longrightarrow> mxml_add_resultnode c pre xp acc = Inr (Some (acc @ map ((@) pre) (f c)))"
  shows "find_children n 0 [] xp pre cs i cnt acc = Inr (Some (acc @ map ((@) pre)
    (concat (map (\<lambda>j. if nname (info (cs ! j)) = n then map ((#) (i + j)) (f (cs ! j)) else []) [0..<length cs]))))"
  using assms
proof (induction cs arbitrary: i cnt acc)
  case Nil
  then show ?case by simp
next
  case (Cons c cs)
  have shift: "map (\<lambda>j. if nname (info ((c # cs) ! j)) = n then map ((#) (i + j)) (f ((c # cs) ! j)) else [])
      [0..<length (c # cs)] =
    (if nname (info c) = n then map ((#) i) (f c) else []) #
    map (\<lambda>j. if nname (info (cs ! j)) = n then map ((#) (i + 1 + j)) (f (cs ! j)) else []) [0..<length cs]"
    by (simp add: upt_conv_Cons map_Suc_upt [symmetric] del: upt_Suc)
  have "match_child n [] c = Inr (nname (info c) = n)" by (simp add: match_child_def)
  with Cons.IH [of "i + 1"] Cons.prems show ?case
    unfolding shift by (simp add: find_children.simps(2) split: bool.splits)
qed

lemma find_plain:
  assumes "plain n" and "list_all plain ns" and "xp = path_text (n # ns) \<or> xp = tl (path_text (n # ns))"
  shows "mxml_find_nodes1 t pre xp acc = Inr (Some (acc @ map ((@) pre) (find_ref t (n # ns))))"
  using assms
proof (induction ns arbitrary: n t pre xp acc)
  case Nil
  then have sp: "split_name xp = (n, [])" "length n < 256"
    using split_name_plain [of n "[]"] by (auto simp: plain_def)
  have "mxml_add_resultnode c pre [] acc = Inr (Some (acc @ map ((@) pre) (find_ref c [])))" for c pre acc
    by (simp add: mxml_add_resultnode.simps)
  from find_children_plain [of "child t" "[]" "\<lambda>c. find_ref c []" _ _ 0, OF this, unfolded add_0] sp
  show ?case by (simp add: mxml_find_nodes1.simps [of t] parse_brackets.simps n_children_def)
next
  case (Cons m ns)
  let ?q = "path_text (m # ns)"
  from Cons.prems have sp: "split_name xp = (n, ?q)" "length n < 256"
    using split_name_plain [of n ?q] by (auto simp: plain_def)
  have "mxml_add_resultnode c pre ?q acc = Inr (Some (acc @ map ((@) pre) (find_ref c (m # ns))))" for c pre acc
    using Cons.IH [of m "tl ?q" c pre acc] Cons.prems by (simp add: mxml_add_resultnode.simps)
  from find_children_plain [of "child t" ?q "\<lambda>c. find_ref c (m # ns)" _ _ 0, OF this, unfolded add_0] sp
  show ?case by (simp add: mxml_find_nodes1.simps [of t] parse_brackets.simps n_children_def)
qed

text \<open>C28: Searching for \<^verbatim>\<open>/n1/n2/.../nk\<close> returns, in document order, exactly the nodes that
  the chain of names leads to.\<close>

theorem find_nodes_plain:
  assumes "ns \<noteq> []" and "list_all plain ns"
  shows "mxml_find_nodes t (path_text ns) = Inr (Some (find_ref t ns))"
proof (cases ns)
  case Nil
  with assms show ?thesis by simp
next
  case (Cons n ms)
  with assms find_plain [of n ms "path_text ns" t "[]" "[]"] show ?thesis
    by (simp add: mxml_find_nodes_def map_idI)
qed


definition demo_doc :: mxml_node where
  "demo_doc = MXML_NODE (empty_info\<lparr>nname := ''root'', child_block := 1\<rparr>)
     [demo_leaf (0, 0) ''a'',
      MXML_NODE (empty_info\<lparr>nname := ''a'', parent := Some (0, 0), child_block := 2\<rparr>)
        [demo_leaf (1, 1) ''c''],
      demo_leaf (0, 0) ''d'']"

theorem find_nodes_plain_witness:
  "mxml_find_nodes demo_doc ''/a/c'' = Inr (Some [[1, 0]])"
proof -
  have "find_ref demo_doc [''a'', ''c''] = [[1, 0]]"
    by (simp add: demo_doc_def demo_leaf_def new_node_def n_children_def empty_info_def upt_rec
        strlcpy_str_id MXML_NAME_LENGTH_def)
  with find_nodes_plain [of "[''a'', ''c'']" demo_doc] show ?thesis
    by (simp add: plain_def)
qed

theorem find_nodes_valid_witness:
  "list_all (valid_path demo_doc) [[1, 0]] \<and> distinct [[1, 0 :: nat]]"
proof -
  have "mxml_find_nodes demo_doc ''/a/c'' = Inr (Some [[1, 0]])"
    by (simp add: mxml_find_nodes_def mxml_find_nodes1.simps find_children.simps mxml_add_resultnode.simps
        split_name_def parse_brackets.simps match_child_def demo_doc_def demo_leaf_def new_node_def empty_info_def
        strlcpy_str_id MXML_NAME_LENGTH_def)
  from find_nodes_valid [OF this] show ?thesis .
qed

section \<open>Index and conditions\<close>

lemma atoi_acc_digits:
  "list_all is_digit ds \<Longrightarrow> atoi_acc n (ds @ r) = atoi_acc (foldl (\<lambda>n c. 10 * n + digit_val c) n ds) r"
  by (induction ds arbitrary: n) auto

lemma atoi_show_nat: "\<not> is_digit (peek r) \<Longrightarrow> c_atoi (show_nat n @ r) = n"
  using show_nat_digits [of n] atoi_acc_digits [of "show_nat n" 0 r] by (cases r) (simp_all add: c_atoi_def)

lemma parse_brackets_index:
  "parse_brackets (CHR ''['' # show_nat k @ '']'') 0 [] = Inr (Some ([], k, []))"
proof -
  have "is_digit (peek (show_nat k @ '']''))" "CHR '']'' \<notin> set (show_nat k)"
    using show_nat_digits [of k] by (cases "show_nat k"; force simp: list_all_iff is_digit_def)+
  then show ?thesis
    by (simp add: parse_brackets.simps MXML_MAX_CONDITION_def c_strchr_append atoi_show_nat is_digit_def)
qed

lemma find_children_index:
  assumes "0 < k"
  shows "find_children n k [] [] pre cs i cnt acc = Inr (Some (acc @
     (let m = filter (\<lambda>j. nname (info (cs ! j)) = n) [0..<length cs] in
      if cnt < k \<and> k \<le> cnt + length m then [pre @ [i + m ! (k - cnt - 1)]] else [])))"
proof (induction cs arbitrary: i cnt acc)
  case Nil
  then show ?case by simp
next
  case (Cons c cs)
  define m where "m = filter (\<lambda>j. nname (info (cs ! j)) = n) [0..<length cs]"
  have m': "filter (\<lambda>j. nname (info ((c # cs) ! j)) = n) [0..<length (c # cs)] =
      (if nname (info c) = n then [0] else []) @ map Suc m"
    by (simp add: upt_conv_Cons map_Suc_upt [symmetric] filter_map comp_def m_def del: upt_Suc)
  have mc: "match_child n [] c = Inr (nname (info c) = n)" by (simp add: match_child_def)
  show ?case
    unfolding m' Let_def
    using assms by (cases "nname (info c) = n")
      (auto simp: find_children.simps(2) mc Cons.IH m_def [symmetric] Let_def mxml_add_resultnode.simps nth_Cons'
        nth_append)
qed

text \<open>\<^verbatim>\<open>/name[k]\<close> finds the \<open>k\<close>-th child with that name, counted from 1, and nothing if
  there are fewer.\<close>

theorem find_nodes_index:
  assumes "plain n" and "0 < k"
  shows "mxml_find_nodes t (CHR ''/'' # n @ CHR ''['' # show_nat k @ '']'') = Inr (Some (
    let m = filter (\<lambda>j. nname (info (child t ! j)) = n) [0..<n_children t] in
    if k \<le> length m then [[m ! (k - 1)]] else []))"
proof -
  have "split_name (CHR ''/'' # n @ CHR ''['' # show_nat k @ '']'') = (n, CHR ''['' # show_nat k @ '']'')"
    by (rule split_name_plain(1) [OF assms(1)]) simp
  moreover have "length n < 256" using assms(1) by (simp add: plain_def)
  ultimately show ?thesis
    using find_children_index [OF assms(2), of n "[]" "child t" 0 0 "[]"] assms(2)
    by (simp add: mxml_find_nodes_def mxml_find_nodes1.simps parse_brackets_index n_children_def Let_def)
qed

theorem find_nodes_index_witness:
  "mxml_find_nodes demo_doc (CHR ''/'' # ''a'' @ CHR ''['' # show_nat 2 @ '']'') = Inr (Some [[1]])"
proof -
  have "filter (\<lambda>j. nname (info (child demo_doc ! j)) = ''a'') [0..<n_children demo_doc] = [0, 1]"
    by (simp add: demo_doc_def demo_leaf_def new_node_def n_children_def empty_info_def upt_rec
        strlcpy_str_id MXML_NAME_LENGTH_def)
  then show ?thesis
    using find_nodes_index [of "''a''" 2 demo_doc] by (simp add: plain_def)
qed


lemma match_child_subnode:
  assumes "conds \<noteq> []" and "list_all (\<lambda>c. \<not> cond_type c) conds"
  shows "match_child n1 conds t = match_child n2 conds t"
proof -
  have "count_conditions n1 t conds k = count_conditions n2 t conds k" for k
    using assms(2) by (induction conds arbitrary: k) (auto simp: bind_res_def split: sum.splits)
  with assms(1) show ?thesis by (simp add: match_child_def)
qed

lemma find_children_subnode:
  assumes "conds \<noteq> []" and "list_all (\<lambda>c. \<not> cond_type c) conds"
  shows "find_children n1 idx conds p pre cs i cnt acc = find_children n2 idx conds p pre cs i cnt acc"
proof (induction cs arbitrary: i cnt acc)
  case (Cons c cs)
  then show ?case
    using match_child_subnode [OF assms, of n1 c n2]
    by (auto simp: find_children.simps(2) split: sum.splits bool.splits option.splits)
qed simp

text \<open>In front of conditions on subnodes the node name of the expression is ignored: any
  other name gives the same result, although the documentation describes
  \<^verbatim>\<open>/<node>[<subnode>=<value>]\<close> as finding a \<^verbatim>\<open><node>\<close> with that subnode.\<close>

theorem find_subnode_ignores_name:
  assumes "plain n1" and "plain n2" and "peek q = CHR ''[''"
    and "parse_brackets q 0 [] = Inr (Some (p, idx, conds))"
    and "conds \<noteq> []" and "list_all (\<lambda>c. \<not> cond_type c) conds"
  shows "mxml_find_nodes t (CHR ''/'' # n1 @ q) = mxml_find_nodes t (CHR ''/'' # n2 @ q)"
proof -
  have "split_name (CHR ''/'' # n1 @ q) = (n1, q)" "split_name (CHR ''/'' # n2 @ q) = (n2, q)"
    using split_name_plain(1) assms(1-3) by blast+
  moreover have "length n1 < 256" "length n2 < 256" using assms(1,2) by (simp_all add: plain_def)
  ultimately show ?thesis
    using find_children_subnode [OF assms(5,6), of n1 idx p "[]" "child t" 0 0 "[]" n2]
    by (simp add: mxml_find_nodes_def mxml_find_nodes1.simps assms(4))
qed

lemmas find_eval = mxml_find_nodes_def mxml_find_nodes1.simps find_children.simps mxml_add_resultnode.simps
  split_name_def parse_brackets.simps parse_condition_def match_child_def rtrim_def drop_quote_def
  MXML_MAX_CONDITION_def strlcpy_str_def is_space_def is_digit_def Let_def

definition demo_subnode :: "string option \<Rightarrow> mxml_node" where
  "demo_subnode v = MXML_NODE (empty_info\<lparr>nname := ''root''\<rparr>)
     [MXML_NODE (empty_info\<lparr>nname := ''b''\<rparr>) [MXML_NODE (empty_info\<lparr>nname := ''x'', nvalue := v\<rparr>) []]]"

theorem find_subnode_ignores_name_witness:
  "mxml_find_nodes (demo_subnode (Some ''1'')) ''/a[x=1]'' = Inr (Some [[0]])"
proof -
  let ?t = "demo_subnode (Some ''1'')"
  have "parse_brackets ''[x=1]'' 0 [] = Inr (Some ([], 0, [\<lparr>cond_type = False, cond_name = ''x'', cond_value = ''1''\<rparr>]))"
    by (simp add: find_eval)
  moreover have "mxml_find_nodes ?t (CHR ''/'' # ''b'' @ ''[x=1]'') = Inr (Some [[0]])"
    by (simp add: find_eval demo_subnode_def empty_info_def)
  ultimately show ?thesis
    using find_subnode_ignores_name [of "''a''" "''b''" "''[x=1]''" "[]" 0 _ ?t] by (simp add: plain_def)
qed

text \<open>A subnode condition on an element that has no value dereferences a NULL pointer.\<close>

theorem find_subnode_without_value:
  "mxml_find_nodes (demo_subnode None) ''/b[x=1]'' = Inl Null_pointer"
  by (simp add: find_eval demo_subnode_def empty_info_def)

end
