(* ===== verification/Telnet.thy ===== *)
theory Telnet
  imports C_Prelude "HOL-Library.Word"
begin

text \<open>
  The telnet layer of ser2net (\<^verbatim>\<open>src/ser2net/telnet.c\<close>): extraction of telnet commands
  from the received bytes, option negotiation, and the buffer of outgoing commands.
  \<^verbatim>\<open>unsigned char\<close> is \<^typ>\<open>8 word\<close>, the two arrays of \<open>telnet_data_s\<close> are lists of their
  cells and every store into them is checked.  The functions that \<open>telnet_data_s\<close> and
  \<open>telnet_cmd\<close> point to belong to the user of this layer: they are the record
  \<open>callbacks\<close>, an argument of the definitions; they work on the whole state and may fault.
\<close>

section \<open>State\<close>

type_synonym byte = "8 word"

definition TN_WILL :: byte where "TN_WILL = 251"
definition TN_WONT :: byte where "TN_WONT = 252"
definition TN_DO :: byte where "TN_DO = 253"
definition TN_DONT :: byte where "TN_DONT = 254"
definition TN_IAC :: byte where "TN_IAC = 255"

lemmas tn_codes = TN_WILL_def TN_WONT_def TN_DO_def TN_DONT_def TN_IAC_def

definition MAX_TELNET_CMD_SIZE :: nat where "MAX_TELNET_CMD_SIZE = 31"
definition MAX_TELNET_CMD_XMIT_BUF :: nat where "MAX_TELNET_CMD_XMIT_BUF = 256"

text \<open>For the two function pointers of an option the table says whether they are set.\<close>

record telnet_cmd =
  opt :: byte
  i_will :: bool
  i_do :: bool
  sent_will :: bool
  sent_do :: bool
  rem_will :: bool
  rem_do :: bool
  option_handler :: bool
  will_handler :: bool

record 'c telnet_data =
  telnet_cmd :: "byte list"
  telnet_cmd_pos :: nat
  suboption_iac :: bool
  out_telnet_cmd :: "byte list"
  out_telnet_cmd_size :: nat
  error :: bool
  cb_data :: 'c
  cmds :: "telnet_cmd list"

text \<open>
  \<open>call_option cb o\<close> is the option handler of option \<open>o\<close>; it gets the array
  \<^verbatim>\<open>telnet_cmd + 2\<close> and the length.
\<close>

record 'c callbacks =
  output_ready :: "'c telnet_data \<Rightarrow> 'c telnet_data res"
  cmd_handler :: "'c telnet_data \<Rightarrow> byte \<Rightarrow> 'c telnet_data res"
  call_option :: "byte \<Rightarrow> 'c telnet_data \<Rightarrow> byte list \<Rightarrow> nat \<Rightarrow> 'c telnet_data res"
  call_will :: "byte \<Rightarrow> 'c telnet_data \<Rightarrow> (bool \<times> 'c telnet_data) res"

section \<open>Commands\<close>

text \<open>The table ends with option 255.\<close>

fun find_cmd_from :: "nat \<Rightarrow> telnet_cmd list \<Rightarrow> byte \<Rightarrow> nat option res" where
  "find_cmd_from i [] option = Inl Out_of_bounds"
| "find_cmd_from i (c # cs) option =
     (if opt c = 255 then Inr None
      else if opt c = option then Inr (Some i)
      else find_cmd_from (i + 1) cs option)"

definition find_cmd :: "telnet_cmd list \<Rightarrow> byte \<Rightarrow> nat option res" where
  "find_cmd array option = find_cmd_from 0 array option"

definition telnet_cmd_send :: "'c callbacks \<Rightarrow> 'c telnet_data \<Rightarrow> byte list \<Rightarrow> 'c telnet_data res" where
  "telnet_cmd_send cb td cmd =
     (let ps = out_telnet_cmd_size td; left = int MAX_TELNET_CMD_XMIT_BUF - int ps in
      if left < int (length cmd) then Inr (td\<lparr>error := True\<rparr>)
      else
        bind_res (write_at ps cmd (out_telnet_cmd td)) (\<lambda>a.
        output_ready cb (td\<lparr>out_telnet_cmd := a, out_telnet_cmd_size := ps + length cmd\<rparr>)))"

definition send_i :: "'c callbacks \<Rightarrow> 'c telnet_data \<Rightarrow> byte \<Rightarrow> byte \<Rightarrow> 'c telnet_data res" where
  "send_i cb td type option = telnet_cmd_send cb td [TN_IAC, type, option]"

text \<open>Assignments through the pointer \<^verbatim>\<open>cmd\<close>, which is NULL for an unknown option.\<close>

definition set_cmd :: "nat option \<Rightarrow> (telnet_cmd \<Rightarrow> telnet_cmd) \<Rightarrow> 'c telnet_data \<Rightarrow> 'c telnet_data" where
  "set_cmd cmd f td = (case cmd of None \<Rightarrow> td | Some i \<Rightarrow> td\<lparr>cmds := (cmds td)[i := f (cmds td ! i)]\<rparr>)"

definition handle_will :: "'c callbacks \<Rightarrow> 'c telnet_data \<Rightarrow> byte \<Rightarrow> 'c telnet_data res" where
  "handle_will cb td option =
     bind_res (find_cmd (cmds td) option) (\<lambda>cmd.
     bind_res
       (case cmd of
          None \<Rightarrow> send_i cb td TN_DONT option
        | Some i \<Rightarrow>
            let c = cmds td ! i in
            if \<not> sent_do c then
              (if \<not> i_will c then send_i cb td TN_DONT option
               else
                 bind_res (if will_handler c then call_will cb option td else Inr (True, td)) (\<lambda>(rv, td1).
                 if rv then send_i cb td1 TN_DO option else send_i cb td1 TN_DONT option))
            else Inr (set_cmd cmd (\<lambda>c. c\<lparr>sent_do := False\<rparr>) td))
       (\<lambda>td'. Inr (set_cmd cmd (\<lambda>c. c\<lparr>rem_will := True\<rparr>) td')))"

definition handle_wont :: "'c callbacks \<Rightarrow> 'c telnet_data \<Rightarrow> byte \<Rightarrow> 'c telnet_data res" where
  "handle_wont cb td option =
     bind_res (find_cmd (cmds td) option) (\<lambda>cmd.
     bind_res
       (if (case cmd of None \<Rightarrow> True | Some i \<Rightarrow> \<not> sent_do (cmds td ! i)) then send_i cb td TN_DONT option
        else Inr (set_cmd cmd (\<lambda>c. c\<lparr>sent_do := False\<rparr>) td))
       (\<lambda>td'. Inr (set_cmd cmd (\<lambda>c. c\<lparr>rem_will := False\<rparr>) td')))"

definition handle_do :: "'c callbacks \<Rightarrow> 'c telnet_data \<Rightarrow> byte \<Rightarrow> 'c telnet_data res" where
  "handle_do cb td option =
     bind_res (find_cmd (cmds td) option) (\<lambda>cmd.
     bind_res
       (case cmd of
          None \<Rightarrow> send_i cb td TN_WONT option
        | Some i \<Rightarrow>
            if \<not> sent_will (cmds td ! i) then
              (if \<not> i_do (cmds td ! i) then send_i cb td TN_WONT option else send_i cb td TN_WILL option)
            else Inr (set_cmd cmd (\<lambda>c. c\<lparr>sent_will := False\<rparr>) td))
       (\<lambda>td'. Inr (set_cmd cmd (\<lambda>c. c\<lparr>rem_do := True\<rparr>) td')))"

definition handle_dont :: "'c callbacks \<Rightarrow> 'c telnet_data \<Rightarrow> byte \<Rightarrow> 'c telnet_data res" where
  "handle_dont cb td option =
     bind_res (find_cmd (cmds td) option) (\<lambda>cmd.
     bind_res
       (if (case cmd of None \<Rightarrow> True | Some i \<Rightarrow> \<not> sent_will (cmds td ! i)) then send_i cb td TN_WONT option
        else Inr (set_cmd cmd (\<lambda>c. c\<lparr>sent_will := False\<rparr>) td))
       (\<lambda>td'. Inr (set_cmd cmd (\<lambda>c. c\<lparr>rem_do := False\<rparr>) td')))"

definition handle_telnet_cmd :: "'c callbacks \<Rightarrow> 'c telnet_data \<Rightarrow> 'c telnet_data res" where
  "handle_telnet_cmd cb td =
     (let siz = telnet_cmd_pos td; cmd_str = telnet_cmd td in
      if siz < 2 then Inr td
      else if cmd_str ! 1 < 250 then cmd_handler cb td (cmd_str ! 1)
      else if cmd_str ! 1 = 250 then
        bind_res (find_cmd (cmds td) (cmd_str ! 2)) (\<lambda>cmd.
          case cmd of
            None \<Rightarrow> Inr td
          | Some i \<Rightarrow>
              if \<not> option_handler (cmds td ! i) then Inl Null_pointer
              else call_option cb (opt (cmds td ! i)) td (drop 2 cmd_str) (siz - 2))
      else if cmd_str ! 1 = 251 then handle_will cb td (cmd_str ! 2)
      else if cmd_str ! 1 = 252 then handle_wont cb td (cmd_str ! 2)
      else if cmd_str ! 1 = 253 then handle_do cb td (cmd_str ! 2)
      else if cmd_str ! 1 = 254 then handle_dont cb td (cmd_str ! 2)
      else Inr td)"

text \<open>The loop that copies an option and doubles every 255.\<close>

fun copy_option :: "byte list \<Rightarrow> nat \<Rightarrow> byte list \<Rightarrow> (byte list \<times> nat) res" where
  "copy_option a ps [] = Inr (a, ps)"
| "copy_option a ps (b # bs) =
     bind_res (write_at ps [b] a) (\<lambda>a1.
       if b = 255 then bind_res (write_at (ps + 1) [b] a1) (\<lambda>a2. copy_option a2 (ps + 2) bs)
       else copy_option a1 (ps + 1) bs)"

definition real_len :: "byte list \<Rightarrow> nat" where
  "real_len option = length option + length (filter (\<lambda>b. b = 255) option) + 4"

text \<open>Of the callbacks only \<^verbatim>\<open>td->output_ready\<close> is used here; it is the first argument.\<close>

definition telnet_send_option ::
  "('c telnet_data \<Rightarrow> 'c telnet_data res) \<Rightarrow> 'c telnet_data \<Rightarrow> byte list \<Rightarrow> 'c telnet_data res" where
  "telnet_send_option ready td option =
     (let ps = out_telnet_cmd_size td; left = int MAX_TELNET_CMD_XMIT_BUF - int ps in
      if left < int (real_len option) then Inr (td\<lparr>error := True\<rparr>)
      else
        bind_res (write_at ps [255, 250] (out_telnet_cmd td)) (\<lambda>a.
        bind_res (copy_option a (ps + 2) option) (\<lambda>(a', ps').
        bind_res (write_at ps' [255, 240] a') (\<lambda>a''.
        ready (td\<lparr>out_telnet_cmd := a'', out_telnet_cmd_size := ps' + 2\<rparr>)))))"

section \<open>Received data\<close>

definition store_cmd :: "'c telnet_data \<Rightarrow> byte \<Rightarrow> 'c telnet_data res" where
  "store_cmd td b =
     bind_res (write_at (telnet_cmd_pos td) [b] (telnet_cmd td)) (\<lambda>a.
     Inr (td\<lparr>telnet_cmd := a, telnet_cmd_pos := telnet_cmd_pos td + 1\<rparr>))"

text \<open>A byte that belongs to a command, after it was deleted from the data.\<close>

definition finish_cmd :: "'c callbacks \<Rightarrow> 'c telnet_data \<Rightarrow> 'c telnet_data res" where
  "finish_cmd cb td = bind_res (handle_telnet_cmd cb td) (\<lambda>td'. Inr (td'\<lparr>telnet_cmd_pos := 0\<rparr>))"

definition command_byte :: "'c callbacks \<Rightarrow> 'c telnet_data \<Rightarrow> byte \<Rightarrow> 'c telnet_data res" where
  "command_byte cb td tn_byte =
     (if telnet_cmd_pos td = 1 then
        bind_res (store_cmd td tn_byte) (\<lambda>td1. if tn_byte < 250 then finish_cmd cb td1 else Inr td1)
      else if telnet_cmd_pos td = 2 then
        bind_res (store_cmd td tn_byte) (\<lambda>td1. if telnet_cmd td1 ! 1 \<noteq> 250 then finish_cmd cb td1 else Inr td1)
      else if suboption_iac td then
        bind_res
          (if tn_byte = 240 then finish_cmd cb (td\<lparr>telnet_cmd_pos := telnet_cmd_pos td - 1\<rparr>)
           else if tn_byte = 255 then Inr td
           else Inr (td\<lparr>telnet_cmd_pos := telnet_cmd_pos td - 1\<rparr>))
          (\<lambda>td1. Inr (td1\<lparr>suboption_iac := False\<rparr>))
      else
        bind_res
          (store_cmd
            (if MAX_TELNET_CMD_SIZE < telnet_cmd_pos td then td\<lparr>telnet_cmd_pos := MAX_TELNET_CMD_SIZE\<rparr> else td)
            tn_byte)
          (\<lambda>td1. Inr (if tn_byte = 255 then td1\<lparr>suboption_iac := True\<rparr> else td1)))"

text \<open>\<^verbatim>\<open>for (i=pos; i<len-1; i++) data[i] = data[i+1];\<close>\<close>

definition delete_char :: "byte list \<Rightarrow> nat \<Rightarrow> nat \<Rightarrow> byte list \<times> nat" where
  "delete_char data i len =
     (fold (\<lambda>k d. d[k := d ! (k + 1)]) [i..<len - 1] data, len - 1)"

function telnet_loop ::
  "'c callbacks \<Rightarrow> byte list \<Rightarrow> nat \<Rightarrow> nat \<Rightarrow> 'c telnet_data \<Rightarrow> (byte list \<times> nat \<times> 'c telnet_data) res" where
  "telnet_loop cb data i len td =
     (if len \<le> i then Inr (data, len, td)
      else if telnet_cmd_pos td \<noteq> 0 then
        (let tn_byte = data ! i in
         if telnet_cmd_pos td = 1 \<and> tn_byte = 255 then
           telnet_loop cb data (i + 1) len (td\<lparr>telnet_cmd_pos := 0\<rparr>)
         else
           bind_res (command_byte cb td tn_byte) (\<lambda>td'.
             telnet_loop cb (fst (delete_char data i len)) i (len - 1) td'))
      else if data ! i = 255 then
        bind_res (store_cmd td 255) (\<lambda>td'.
          telnet_loop cb (fst (delete_char data i len)) i (len - 1) (td'\<lparr>suboption_iac := False\<rparr>))
      else telnet_loop cb data (i + 1) len td)"
  by pat_completeness auto
termination
  by (relation "measure (\<lambda>(cb, data, i, len, td). len - i)") auto

declare telnet_loop.simps [simp del]

definition process_telnet_data ::
  "'c callbacks \<Rightarrow> byte list \<Rightarrow> nat \<Rightarrow> 'c telnet_data \<Rightarrow> (byte list \<times> nat \<times> 'c telnet_data) res" where
  "process_telnet_data cb data len td =
     (if length data < len then Inl Out_of_bounds else telnet_loop cb data 0 len td)"

definition telnet_init ::
  "'c callbacks \<Rightarrow> 'c telnet_data \<Rightarrow> 'c \<Rightarrow> telnet_cmd list \<Rightarrow> byte list \<Rightarrow> 'c telnet_data res" where
  "telnet_init cb td data cs init_seq =
     bind_res (write_at 0 init_seq (out_telnet_cmd td)) (\<lambda>a.
     output_ready cb (td\<lparr>telnet_cmd_pos := 0, error := False, cb_data := data, cmds := cs,
        out_telnet_cmd := a, out_telnet_cmd_size := length init_seq\<rparr>))"

end
