(* ===== verification/Telnet_Props.thy ===== *)
theory Telnet_Props
  imports Telnet
begin

text \<open>
  Properties of the telnet layer.  \<open>tn_step\<close> is the specification of the receiver: a
  transducer that handles one byte and passes on at most one.  \<open>process_telnet_data\<close>,
  which edits its buffer in place, computes the same as running the transducer over the
  bytes; from this follow the independence of how the stream is cut into reads, and the
  round trips with an escaping sender.
\<close>

section \<open>Deleting from the buffer\<close>

lemma shift_nth:
  "m < length a \<Longrightarrow> i \<le> m \<Longrightarrow> length (fold (\<lambda>k d. d[k := d ! (k + 1)]) [i..<m] a) = length a \<and>
   (\<forall>j < length a. fold (\<lambda>k d. d[k := d ! (k + 1)]) [i..<m] a ! j = (if i \<le> j \<and> j < m then a ! (j + 1) else a ! j))"
proof (induction m)
  case (Suc m)
  show ?case
  proof (cases "i \<le> m")
    case True
    with Suc show ?thesis by (auto simp: nth_list_update less_Suc_eq)
  next
    case False
    with Suc.prems show ?thesis by auto
  qed
qed simp

lemma delete_char:
  assumes "i < len" and "len \<le> length data"
  shows "length (fst (delete_char data i len)) = length data"
    and "take i (fst (delete_char data i len)) = take i data"
    and "take (len - 1 - i) (drop i (fst (delete_char data i len))) = take (len - 1 - i) (drop (i + 1) data)"
proof -
  let ?d = "fst (delete_char data i len)"
  have *: "length ?d = length data" "\<And>j. j < length data \<Longrightarrow> ?d ! j = (if i \<le> j \<and> j < len - 1 then data ! (j + 1) else data ! j)"
    using shift_nth [of "len - 1" data i] assms by (simp_all add: delete_char_def)
  show "length ?d = length data" by (rule *(1))
  show "take i ?d = take i data" by (rule nth_equalityI) (use assms * in auto)
  show "take (len - 1 - i) (drop i ?d) = take (len - 1 - i) (drop (i + 1) data)"
    by (rule nth_equalityI) (use assms * in auto)
qed

section \<open>The receiver as a transducer\<close>

definition tn_step :: "'c callbacks \<Rightarrow> 'c telnet_data \<times> byte list \<Rightarrow> byte \<Rightarrow> ('c telnet_data \<times> byte list) res" where
  "tn_step cb s b =
     (let (td, out) = s in
      if telnet_cmd_pos td \<noteq> 0 then
        (if telnet_cmd_pos td = 1 \<and> b = 255 then Inr (td\<lparr>telnet_cmd_pos := 0\<rparr>, out @ [b])
         else bind_res (command_byte cb td b) (\<lambda>td'. Inr (td', out)))
      else if b = 255 then
        bind_res (store_cmd td 255) (\<lambda>td'. Inr (td'\<lparr>suboption_iac := False\<rparr>, out))
      else Inr (td, out @ [b]))"

lemma tn_step_pair:
  "tn_step cb (td, out) b =
     (if telnet_cmd_pos td \<noteq> 0 then
        (if telnet_cmd_pos td = 1 \<and> b = 255 then Inr (td\<lparr>telnet_cmd_pos := 0\<rparr>, out @ [b])
         else bind_res (command_byte cb td b) (\<lambda>td'. Inr (td', out)))
      else if b = 255 then
        bind_res (store_cmd td 255) (\<lambda>td'. Inr (td'\<lparr>suboption_iac := False\<rparr>, out))
      else Inr (td, out @ [b]))"
  by (simp add: tn_step_def)

definition result :: "byte list \<times> nat \<times> 'c telnet_data \<Rightarrow> 'c telnet_data \<times> byte list" where
  "result r = (case r of (data, len, td) \<Rightarrow> (td, take len data))"

lemma take_drop_Cons: "i < len \<Longrightarrow> len \<le> length xs \<Longrightarrow>
  take (len - i) (drop i xs) = xs ! i # take (len - 1 - i) (drop (i + 1) xs)"
  by (simp add: Cons_nth_drop_Suc [symmetric] take_Cons' del: drop_Suc)

lemma telnet_loop_stream:
  "i \<le> len \<Longrightarrow> len \<le> length data \<Longrightarrow>
   bind_res (telnet_loop cb data i len td) (\<lambda>r. Inr (result r)) =
   run_steps (tn_step cb) (td, take i data) (take (len - i) (drop i data))"
proof (induction cb data i len td rule: telnet_loop.induct)
  case (1 cb data i len td)
  show ?case
  proof (cases "len \<le> i")
    case True
    then have "telnet_loop cb data i len td = Inr (data, len, td)" by (subst telnet_loop.simps) simp
    with True "1.prems" show ?thesis by (simp add: result_def)
  next
    case False
    then have i: "i < len" "len \<le> length data" using "1.prems" by simp_all
    note td = take_drop_Cons [OF i]
    let ?d = "fst (delete_char data i len)" and ?b = "data ! i"
    have keep: "take (Suc i) data = take i data @ [?b]" using i by (simp add: take_Suc_conv_app_nth)
    have len': "len - (i + 1) = len - 1 - i" by simp
    note unf = telnet_loop.simps [of cb data i] td tn_step_pair
    consider (literal) "telnet_cmd_pos td = 1" "?b = 255" | (command) "telnet_cmd_pos td \<noteq> 0" "\<not> (telnet_cmd_pos td = 1 \<and> ?b = 255)"
      | (iac) "telnet_cmd_pos td = 0" "?b = 255" | (plain) "telnet_cmd_pos td = 0" "?b \<noteq> 255" by auto
    then show ?thesis
    proof cases
      case literal
      with i "1.IH"(1) [OF _ _ refl] show ?thesis
        unfolding len' [symmetric] by (simp add: unf keep)
    next
      case command
      show ?thesis
      proof (cases "command_byte cb td ?b")
        case (Inl e)
        with command i show ?thesis by (auto simp: unf Let_def)
      next
        case (Inr td')
        with command i "1.IH"(2) [OF _ _ refl, of td'] delete_char [OF i] show ?thesis
          by (auto simp: unf)
      qed
    next
      case iac
      show ?thesis
      proof (cases "store_cmd td 255")
        case (Inl e)
        with iac i show ?thesis by (simp add: unf)
      next
        case (Inr td')
        with iac i "1.IH"(3) [of td'] delete_char [OF i] show ?thesis
          by (auto simp: unf)
      qed
    next
      case plain
      with i "1.IH"(4) show ?thesis
        unfolding len' [symmetric] by (simp add: unf keep)
    qed
  qed
qed

lemma telnet_loop_length:
  "i \<le> len \<Longrightarrow> len \<le> length data \<Longrightarrow> telnet_loop cb data i len td = Inr (data', len', td') \<Longrightarrow>
   length data' = length data \<and> len' \<le> len"
proof (induction cb data i len td rule: telnet_loop.induct)
  case (1 cb data i len td)
  show ?case
  proof (cases "len \<le> i")
    case True
    then have "telnet_loop cb data i len td = Inr (data, len, td)" by (subst telnet_loop.simps) simp
    with "1.prems" show ?thesis by simp
  next
    case False
    then have i: "i < len" "len \<le> length data" using "1.prems" by simp_all
    have d: "length (fst (delete_char data i len)) = length data" by (rule delete_char [OF i])
    have i': "i \<le> len - Suc 0" "len - Suc 0 \<le> length data" "\<And>k. k \<le> len - Suc 0 \<Longrightarrow> k \<le> len" using i by simp_all
    note eq = "1.prems"(3) [unfolded telnet_loop.simps [of cb data i len td] Let_def]
    consider (literal) "telnet_cmd_pos td = 1" "data ! i = 255" | (command) "telnet_cmd_pos td \<noteq> 0" "\<not> (telnet_cmd_pos td = 1 \<and> data ! i = 255)"
      | (iac) "telnet_cmd_pos td = 0" "data ! i = 255" | (plain) "telnet_cmd_pos td = 0" "data ! i \<noteq> 255" by auto
    then show ?thesis
    proof cases
      case literal
      with eq i "1.IH"(1) [OF _ _ refl] show ?thesis by simp
    next
      case command
      with eq i obtain td1 where "telnet_loop cb (fst (delete_char data i len)) i (len - 1) td1 = Inr (data', len', td')"
        "command_byte cb td (data ! i) = Inr td1" by (auto simp: res_simps)
      with command i i' d "1.IH"(2) [OF _ _ refl, of td1] show ?thesis by auto
    next
      case iac
      with eq i obtain td1 where "telnet_loop cb (fst (delete_char data i len)) i (len - 1) (td1\<lparr>suboption_iac := False\<rparr>) = Inr (data', len', td')"
        by (auto simp: res_simps)
      with iac i i' d "1.IH"(3) [of td1] show ?thesis by auto
    next
      case plain
      with eq i "1.IH"(4) show ?thesis by simp
    qed
  qed
qed


section \<open>The invariant\<close>

definition shape :: "telnet_cmd list \<Rightarrow> (byte \<times> bool) list" where
  "shape cs = map (\<lambda>c. (opt c, option_handler c)) cs"

definition out_ok :: "('c \<Rightarrow> bool) \<Rightarrow> 'c telnet_data \<Rightarrow> bool" where
  "out_ok I td \<longleftrightarrow> length (out_telnet_cmd td) = MAX_TELNET_CMD_XMIT_BUF \<and>
     out_telnet_cmd_size td \<le> MAX_TELNET_CMD_XMIT_BUF \<and> I (cb_data td)"

definition td_ok :: "('c \<Rightarrow> bool) \<Rightarrow> 'c telnet_data \<Rightarrow> bool" where
  "td_ok I td \<longleftrightarrow> length (telnet_cmd td) = MAX_TELNET_CMD_SIZE + 1 \<and>
     telnet_cmd_pos td \<le> MAX_TELNET_CMD_SIZE + 1 \<and>
     out_ok I td \<and> 255 \<in> fst ` set (shape (cmds td))"

text \<open>The user of the layer has an invariant \<open>I\<close> of its own data.  What the callbacks may
  change: the output side and the user's data, within \<open>I\<close>, not the command that is being
  received and not the layout of the option table.\<close>

definition keeps :: "('c \<Rightarrow> bool) \<Rightarrow> 'c telnet_data \<Rightarrow> 'c telnet_data \<Rightarrow> bool" where
  "keeps I td td' \<longleftrightarrow> telnet_cmd td' = telnet_cmd td \<and> telnet_cmd_pos td' = telnet_cmd_pos td \<and>
     suboption_iac td' = suboption_iac td \<and> shape (cmds td') = shape (cmds td) \<and> (out_ok I td \<longrightarrow> out_ok I td')"

text \<open>\<open>done_ok\<close>: a computation that succeeds and keeps the receiver's side.\<close>

definition done_ok :: "('c \<Rightarrow> bool) \<Rightarrow> 'c telnet_data \<Rightarrow> 'c telnet_data res \<Rightarrow> bool" where
  "done_ok I td r \<longleftrightarrow> (\<exists>td'. r = Inr td' \<and> keeps I td td')"

lemma done_ok_Inr [simp]: "done_ok I td (Inr td') \<longleftrightarrow> keeps I td td'"
  by (auto simp: done_ok_def)

definition callbacks_ok :: "('c \<Rightarrow> bool) \<Rightarrow> 'c callbacks \<Rightarrow> bool" where
  "callbacks_ok I cb \<longleftrightarrow> (\<forall>td. out_ok I td \<longrightarrow> done_ok I td (output_ready cb td) \<and>
     (\<forall>b. done_ok I td (cmd_handler cb td b)) \<and> (\<forall>o' a n. done_ok I td (call_option cb o' td a n)) \<and>
     (\<forall>o'. \<exists>rv td'. call_will cb o' td = Inr (rv, td') \<and> keeps I td td'))"

text \<open>Every option of the table has a handler for suboptions.\<close>

definition handlers_set :: "telnet_cmd list \<Rightarrow> bool" where
  "handlers_set cs \<longleftrightarrow> (\<forall>(o', h) \<in> set (takeWhile (\<lambda>(o', h). o' \<noteq> 255) (shape cs)). h)"

lemma keeps_refl [simp]: "keeps I td td"
  by (simp add: keeps_def)

lemma keeps_trans [trans]: "keeps I a b \<Longrightarrow> keeps I b c \<Longrightarrow> keeps I a c"
  by (simp add: keeps_def)

lemma keeps_ok: "keeps I td td' \<Longrightarrow> td_ok I td \<Longrightarrow> td_ok I td'"
  by (simp add: keeps_def td_ok_def)

lemma keeps_handlers: "keeps I td td' \<Longrightarrow> handlers_set (cmds td') = handlers_set (cmds td)"
  by (simp add: keeps_def handlers_set_def)

lemma write_at_length: "write_at k bs a = Inr a' \<Longrightarrow> length a' = length a"
  by (auto simp: write_at_def split: if_splits)

lemma write_at_fits [simp]: "k + length bs \<le> length a \<Longrightarrow>
  write_at k bs a = Inr (take k a @ bs @ drop (k + length bs) a)"
  by (simp add: write_at_def)

lemma shape_update: "i < length cs \<Longrightarrow> (\<And>c. opt (f c) = opt c \<and> option_handler (f c) = option_handler c) \<Longrightarrow>
  shape (cs[i := f (cs ! i)]) = shape cs"
  by (simp add: shape_def map_update) (metis (no_types, lifting) length_map list_update_id nth_map)

lemma set_cmd_keeps [simp]:
  assumes "\<And>c. opt (f c) = opt c \<and> option_handler (f c) = option_handler c"
  shows "keeps I td (set_cmd cmd f td)"
proof (cases cmd)
  case (Some i)
  have "shape ((cmds td)[i := f (cmds td ! i)]) = shape (cmds td)"
    by (cases "i < length (cmds td)") (simp_all add: shape_update [OF _ assms] list_update_beyond)
  with Some show ?thesis by (simp add: keeps_def set_cmd_def out_ok_def)
qed (simp add: set_cmd_def)

lemma find_cmd_from_total:
  "255 \<in> fst ` set (shape cs) \<Longrightarrow> \<exists>r. find_cmd_from i cs option = Inr r \<and>
     (\<forall>j. r = Some j \<longrightarrow> i \<le> j \<and> j < i + length cs \<and> opt (cs ! (j - i)) = option \<and> option \<noteq> 255 \<and>
        (handlers_set cs \<longrightarrow> option_handler (cs ! (j - i))))"
proof (induction cs arbitrary: i)
  case (Cons c cs)
  show ?case
  proof (cases "opt c = 255 \<or> opt c = option")
    case True
    then show ?thesis by (auto simp: handlers_set_def shape_def)
  next
    case False
    with Cons.prems have "255 \<in> fst ` set (shape cs)" by (auto simp: shape_def)
    with Cons.IH [of "i + 1"] obtain r where r: "find_cmd_from (i + 1) cs option = Inr r"
      "\<And>j. r = Some j \<Longrightarrow> i + 1 \<le> j \<and> j < i + 1 + length cs \<and> opt (cs ! (j - (i + 1))) = option \<and> option \<noteq> 255 \<and>
        (handlers_set cs \<longrightarrow> option_handler (cs ! (j - (i + 1))))" by blast
    have "handlers_set (c # cs) \<longrightarrow> handlers_set cs" using False by (auto simp: handlers_set_def shape_def)
    with r(2) have "r = Some j \<Longrightarrow> i \<le> j \<and> j < i + length (c # cs) \<and> opt ((c # cs) ! (j - i)) = option \<and> option \<noteq> 255 \<and>
        (handlers_set (c # cs) \<longrightarrow> option_handler ((c # cs) ! (j - i)))" for j
      by (auto simp: nth_Cons' dest: r(2))
    with r(1) False show ?thesis by simp
  qed
qed (simp add: shape_def)

lemma find_cmd_total:
  assumes "td_ok I td"
  obtains r where "find_cmd (cmds td) option = Inr r"
    "\<And>j. r = Some j \<Longrightarrow> j < length (cmds td) \<and> opt (cmds td ! j) = option \<and> option \<noteq> 255 \<and>
      (handlers_set (cmds td) \<longrightarrow> option_handler (cmds td ! j))"
  using assms find_cmd_from_total [of "cmds td" 0 option] by (auto simp: td_ok_def find_cmd_def)

lemma telnet_cmd_send_ok:
  assumes "callbacks_ok I cb" and "out_ok I td"
  obtains td' where "telnet_cmd_send cb td cmd = Inr td'" "keeps I td td'"
proof (cases "int MAX_TELNET_CMD_XMIT_BUF - int (out_telnet_cmd_size td) < int (length cmd)")
  case True
  then show thesis by (intro that [of "td\<lparr>error := True\<rparr>"]) (simp_all add: telnet_cmd_send_def keeps_def out_ok_def)
next
  case False
  let ?k = "out_telnet_cmd_size td" and ?a = "out_telnet_cmd td"
  let ?td = "td\<lparr>out_telnet_cmd := take ?k ?a @ cmd @ drop (?k + length cmd) ?a, out_telnet_cmd_size := ?k + length cmd\<rparr>"
  have fit: "?k + length cmd \<le> length ?a" using False assms(2) by (simp add: out_ok_def)
  then have "keeps I td ?td" using assms(2) by (simp add: keeps_def out_ok_def)
  then have out: "out_ok I ?td" using assms(2) by (simp add: keeps_def)
  then obtain td' where td': "output_ready cb ?td = Inr td'" "keeps I ?td td'"
    using assms(1) unfolding callbacks_ok_def done_ok_def by blast
  with keeps_trans [OF \<open>keeps I td ?td\<close>] show thesis using False fit
    by (intro that [of td']) (simp_all add: telnet_cmd_send_def Let_def)
qed


lemma done_ok_set:
  assumes "done_ok I td r" and "\<And>c. opt (f c) = opt c \<and> option_handler (f c) = option_handler c"
  shows "done_ok I td (bind_res r (\<lambda>td'. Inr (set_cmd cmd f td')))"
  using assms keeps_trans [OF _ set_cmd_keeps [OF assms(2)]] by (auto simp: done_ok_def)

lemma send_i_ok: "callbacks_ok I cb \<Longrightarrow> out_ok I td \<Longrightarrow> done_ok I td (send_i cb td ty option)"
  unfolding send_i_def done_ok_def by (rule telnet_cmd_send_ok [of I cb td]) auto

lemma call_will_ok:
  assumes "callbacks_ok I cb" and "out_ok I td" and "call_will cb option td = Inr (rv, td1)"
  shows "done_ok I td (send_i cb td1 ty option)"
proof -
  have k: "keeps I td td1" using assms unfolding callbacks_ok_def by (metis Inr_inject Pair_inject)
  with assms(2) have "done_ok I td1 (send_i cb td1 ty option)" by (intro send_i_ok [OF assms(1)]) (simp add: keeps_def)
  with k show ?thesis by (auto simp: done_ok_def intro: keeps_trans)
qed

lemma call_will_total: "callbacks_ok I cb \<Longrightarrow> out_ok I td \<Longrightarrow> \<exists>rv td'. call_will cb o' td = Inr (rv, td')"
  unfolding callbacks_ok_def by blast

text \<open>The only fault is the call of an option handler that is NULL.\<close>

definition done_or_null :: "('c \<Rightarrow> bool) \<Rightarrow> 'c telnet_data \<Rightarrow> 'c telnet_data res \<Rightarrow> bool" where
  "done_or_null I td r \<longleftrightarrow> done_ok I td r \<or> \<not> handlers_set (cmds td) \<and> r = Inl Null_pointer"

lemma handle_telnet_cmd_cases:
  assumes "callbacks_ok I cb" and "td_ok I td"
  shows "done_or_null I td (handle_telnet_cmd cb td)"
proof -
  have out: "out_ok I td" using assms(2) by (simp add: td_ok_def)
  note send = send_i_ok [OF assms(1) out]
  have will: "done_ok I td (handle_will cb td option)" for option
  proof (rule find_cmd_total [OF assms(2), of option])
    fix r assume r: "find_cmd (cmds td) option = Inr r"
    show ?thesis
      unfolding handle_will_def r bind_res_Inr
      by (rule done_ok_set)
        (use call_will_total [OF assms(1) out, of option] in
          \<open>auto simp: Let_def send split: option.splits intro: call_will_ok [OF assms(1) out]\<close>)
  qed
  have wont: "done_ok I td (handle_wont cb td option)" and dont: "done_ok I td (handle_dont cb td option)"
    and do': "done_ok I td (handle_do cb td option)" for option
    by (rule find_cmd_total [OF assms(2), of option], unfold handle_wont_def handle_dont_def handle_do_def,
        simp only: bind_res_Inr, rule done_ok_set; auto simp: send split: option.splits)+
  have opt: "done_or_null I td (bind_res (find_cmd (cmds td) (telnet_cmd td ! 2)) (\<lambda>cmd. case cmd of None \<Rightarrow> Inr td
       | Some i \<Rightarrow> if \<not> option_handler (cmds td ! i) then Inl Null_pointer
           else call_option cb (opt (cmds td ! i)) td (drop 2 (telnet_cmd td)) n))" for n
  proof (rule find_cmd_total [OF assms(2), of "telnet_cmd td ! 2"])
    fix r assume "find_cmd (cmds td) (telnet_cmd td ! 2) = Inr r"
      "\<And>j. r = Some j \<Longrightarrow> j < length (cmds td) \<and> opt (cmds td ! j) = telnet_cmd td ! 2 \<and> telnet_cmd td ! 2 \<noteq> 255 \<and>
        (handlers_set (cmds td) \<longrightarrow> option_handler (cmds td ! j))"
    with assms(1) out show ?thesis by (auto simp: callbacks_ok_def done_or_null_def split: option.splits)
  qed
  have "done_ok I td (cmd_handler cb td b)" for b using assms(1) out by (simp add: callbacks_ok_def)
  with will wont do' dont opt show ?thesis
    by (auto simp: handle_telnet_cmd_def Let_def done_or_null_def)
qed

text \<open>The receiver's invariant, with whether every option has a handler.\<close>

definition tn_safe :: "('c \<Rightarrow> bool) \<Rightarrow> 'c callbacks \<Rightarrow> bool \<Rightarrow> 'c telnet_data \<Rightarrow> bool" where
  "tn_safe I cb h td \<longleftrightarrow> callbacks_ok I cb \<and> td_ok I td \<and> handlers_set (cmds td) = h"

abbreviation tn_ok :: "('c \<Rightarrow> bool) \<Rightarrow> 'c callbacks \<Rightarrow> 'c telnet_data \<Rightarrow> bool" where
  "tn_ok I cb td \<equiv> tn_safe I cb True td"

lemmas tn_ok_def = tn_safe_def

lemma store_cmd_fits:
  assumes "td_ok I td" and "telnet_cmd_pos td \<le> MAX_TELNET_CMD_SIZE"
  shows "store_cmd td b = Inr (td\<lparr>telnet_cmd := (telnet_cmd td)[telnet_cmd_pos td := b],
    telnet_cmd_pos := telnet_cmd_pos td + 1\<rparr>)"
  using assms by (simp add: store_cmd_def td_ok_def upd_conv_take_nth_drop)

lemma finish_cmd_cases:
  assumes "callbacks_ok I cb" and "td_ok I td"
  shows "finish_cmd cb td = Inl Null_pointer \<and> \<not> handlers_set (cmds td) \<or>
    (\<exists>td'. finish_cmd cb td = Inr td' \<and> td_ok I td' \<and> handlers_set (cmds td') = handlers_set (cmds td) \<and>
       telnet_cmd_pos td' = 0 \<and> suboption_iac td' = suboption_iac td)"
proof -
  consider "handle_telnet_cmd cb td = Inl Null_pointer" "\<not> handlers_set (cmds td)"
    | td1 where "handle_telnet_cmd cb td = Inr td1" "keeps I td td1"
    using handle_telnet_cmd_cases [OF assms] by (auto simp: done_or_null_def done_ok_def)
  then show ?thesis
  proof cases
    case 2
    have "td_ok I (td1\<lparr>telnet_cmd_pos := 0\<rparr>)" using keeps_ok [OF 2(2) assms(2)] by (simp add: td_ok_def out_ok_def)
    moreover have "handlers_set (cmds td1) = handlers_set (cmds td)" by (rule keeps_handlers [OF 2(2)])
    moreover have "suboption_iac td1 = suboption_iac td" using 2(2) by (simp add: keeps_def)
    ultimately show ?thesis using 2(1) by (simp add: finish_cmd_def)
  qed (simp add: finish_cmd_def)
qed

text \<open>\<open>done_safe\<close>: a step that keeps the invariant, or calls a NULL handler of the table.\<close>

definition done_safe :: "('c \<Rightarrow> bool) \<Rightarrow> 'c callbacks \<Rightarrow> bool \<Rightarrow> 'c telnet_data res \<Rightarrow> bool" where
  "done_safe I cb h r \<longleftrightarrow> r = Inl Null_pointer \<and> \<not> h \<or> (\<exists>td'. r = Inr td' \<and> tn_safe I cb h td')"

lemma tn_safe_iac [simp]: "tn_safe I cb h (td\<lparr>suboption_iac := i\<rparr>) = tn_safe I cb h td"
  by (simp add: tn_safe_def td_ok_def out_ok_def)

lemma tn_safe_pos: "tn_safe I cb h td \<Longrightarrow> k \<le> MAX_TELNET_CMD_SIZE + 1 \<Longrightarrow> tn_safe I cb h (td\<lparr>telnet_cmd_pos := k\<rparr>)"
  by (simp add: tn_safe_def td_ok_def out_ok_def)

lemma store_cmd_ok:
  assumes "tn_safe I cb h td" and "telnet_cmd_pos td \<le> MAX_TELNET_CMD_SIZE"
  obtains td' where "store_cmd td b = Inr td'" "tn_safe I cb h td'"
proof -
  have td: "td_ok I td" using assms(1) by (simp add: tn_safe_def)
  then have "length (telnet_cmd td) = MAX_TELNET_CMD_SIZE + 1" by (simp add: td_ok_def)
  then have "tn_safe I cb h (td\<lparr>telnet_cmd := (telnet_cmd td)[telnet_cmd_pos td := b], telnet_cmd_pos := telnet_cmd_pos td + 1\<rparr>)"
    using assms by (simp add: tn_safe_def td_ok_def out_ok_def)
  with store_cmd_fits [OF td assms(2)] show thesis using that by simp
qed

lemma finish_cmd_safe:
  assumes "tn_safe I cb h td"
  shows "done_safe I cb h (finish_cmd cb td)"
    and "done_safe I cb h (bind_res (finish_cmd cb td) (\<lambda>t. Inr (t\<lparr>suboption_iac := False\<rparr>)))"
proof -
  have td: "callbacks_ok I cb" "td_ok I td" "handlers_set (cmds td) = h" using assms by (simp_all add: tn_safe_def)
  have r: "done_safe I cb h (finish_cmd cb td)"
    using finish_cmd_cases [OF td(1,2)] td by (auto simp: done_safe_def tn_safe_def)
  then show "done_safe I cb h (finish_cmd cb td)" .
  from r show "done_safe I cb h (bind_res (finish_cmd cb td) (\<lambda>t. Inr (t\<lparr>suboption_iac := False\<rparr>)))"
    by (auto simp: done_safe_def)
qed

lemma command_byte_safe:
  assumes "tn_safe I cb h td"
  shows "done_safe I cb h (command_byte cb td b)"
proof -
  let ?k = "telnet_cmd_pos td"
  have k: "?k \<le> MAX_TELNET_CMD_SIZE + 1" using assms by (simp add: tn_safe_def td_ok_def)
  consider (short) "?k = 1 \<or> ?k = 2" | (iac) "?k \<noteq> 1" "?k \<noteq> 2" "suboption_iac td" | (sub) "?k \<noteq> 1" "?k \<noteq> 2" "\<not> suboption_iac td"
    by blast
  then show ?thesis
  proof cases
    case short
    then have "?k \<le> MAX_TELNET_CMD_SIZE" by (auto simp: MAX_TELNET_CMD_SIZE_def)
    then obtain td1 where td1: "store_cmd td b = Inr td1" "tn_safe I cb h td1" by (rule store_cmd_ok [OF assms])
    with short finish_cmd_safe(1) [OF td1(2)] show ?thesis by (auto simp: command_byte_def done_safe_def)
  next
    case iac
    have td0: "tn_safe I cb h (td\<lparr>telnet_cmd_pos := ?k - 1\<rparr>)" by (rule tn_safe_pos [OF assms]) (use k in simp)
    with iac assms finish_cmd_safe [OF td0] show ?thesis by (auto simp: command_byte_def done_safe_def)
  next
    case sub
    let ?td0 = "if MAX_TELNET_CMD_SIZE < ?k then td\<lparr>telnet_cmd_pos := MAX_TELNET_CMD_SIZE\<rparr> else td"
    have "tn_safe I cb h ?td0" using assms by (simp add: tn_safe_pos)
    then obtain td1 where "store_cmd ?td0 b = Inr td1" "tn_safe I cb h td1" by (rule store_cmd_ok) auto
    with sub show ?thesis by (simp add: command_byte_def done_safe_def)
  qed
qed

lemma tn_step_safe:
  assumes "tn_safe I cb h td"
  shows "tn_step cb (td, out) b = Inl Null_pointer \<and> \<not> h \<or>
    (\<exists>td' out'. tn_step cb (td, out) b = Inr (td', out') \<and> tn_safe I cb h td')"
proof -
  have "\<exists>td'. store_cmd td 255 = Inr td' \<and> tn_safe I cb h td'" if "telnet_cmd_pos td = 0"
    using store_cmd_ok [OF assms, of 255] that by (metis le0)
  with command_byte_safe [OF assms, of b] assms show ?thesis
    by (auto simp: tn_step_pair tn_safe_pos done_safe_def)
qed

lemma run_received:
  "tn_safe I cb h td \<Longrightarrow> run_steps (tn_step cb) (td, out) bs = Inl Null_pointer \<and> \<not> h \<or>
    (\<exists>td' out'. run_steps (tn_step cb) (td, out) bs = Inr (td', out') \<and> tn_safe I cb h td')"
proof (induction bs arbitrary: td out)
  case (Cons b bs)
  show ?case using tn_step_safe [OF Cons.prems, of out b]
  proof (elim disjE exE conjE)
    fix td1 out1 assume "tn_step cb (td, out) b = Inr (td1, out1)" "tn_safe I cb h td1"
    with Cons.IH [of td1 out1] show ?thesis by simp
  qed simp
qed simp

text \<open>With a handler for every option the receiver is a safe component for every input.\<close>

interpretation tn: safe_stepping "tn_step cb" "\<lambda>s. tn_ok I cb (fst s)" "\<lambda>_. True" for I cb
proof
  fix s :: "'a telnet_data \<times> byte list" and b
  assume "tn_ok I cb (fst s)"
  then have ex: "\<exists>s'. tn_step cb s b = Inr s' \<and> tn_ok I cb (fst s')"
    using tn_step_safe [of I cb True "fst s" "snd s" b] by auto
  then show "\<exists>s'. tn_step cb s b = Inr s'" by blast
  show "tn_step cb s b = Inr s' \<Longrightarrow> tn_ok I cb (fst s')" for s' using ex by auto
qed

section \<open>Properties of the receiver\<close>

text \<open>C34: The in-place loop over the receive buffer is the byte-at-a-time transducer: it leaves
  in the first bytes of the buffer exactly what the transducer passes on, in order, and ends in
  the same state, or runs into the same fault.\<close>

theorem process_is_transducer:
  assumes "len \<le> length data"
  shows "bind_res (process_telnet_data cb data len td) (\<lambda>(data', len', td'). Inr (td', take len' data')) =
    run_steps (tn_step cb) (td, []) (take len data)"
  using telnet_loop_stream [of 0 len data cb td] assms
  by (simp add: process_telnet_data_def result_def case_prod_unfold)

definition demo_callbacks :: "unit callbacks" where
  "demo_callbacks = \<lparr>output_ready = (\<lambda>td. Inr td), cmd_handler = (\<lambda>td b. Inr td),
     call_option = (\<lambda>o' td a n. Inr (td\<lparr>error := True\<rparr>)), call_will = (\<lambda>o' td. Inr (True, td))\<rparr>"

definition demo_cmd :: "byte \<Rightarrow> telnet_cmd" where
  "demo_cmd o' = \<lparr>opt = o', i_will = True, i_do = True, sent_will = False, sent_do = False,
     rem_will = False, rem_do = False, option_handler = True, will_handler = False\<rparr>"

definition demo_td :: "unit telnet_data" where
  "demo_td = \<lparr>telnet_cmd = replicate 32 0, telnet_cmd_pos = 0, suboption_iac = False,
     out_telnet_cmd = replicate 256 0, out_telnet_cmd_size = 0, error = False, cb_data = (),
     cmds = [demo_cmd 44, demo_cmd 255]\<rparr>"

lemma demo_callbacks_ok: "callbacks_ok (\<lambda>_. True) demo_callbacks"
  unfolding callbacks_ok_def by (auto simp: demo_callbacks_def keeps_def out_ok_def)

lemma demo_td_ok: "tn_ok (\<lambda>_. True) demo_callbacks demo_td"
  by (simp add: tn_ok_def demo_callbacks_ok td_ok_def demo_td_def out_ok_def shape_def handlers_set_def demo_cmd_def
      MAX_TELNET_CMD_SIZE_def MAX_TELNET_CMD_XMIT_BUF_def)

text \<open>A table with an option that has no handler, as both tables of the program have.\<close>

definition demo_bare :: "unit telnet_data" where
  "demo_bare = demo_td\<lparr>cmds := [demo_cmd 44, (demo_cmd 3)\<lparr>option_handler := False\<rparr>, demo_cmd 255]\<rparr>"

theorem process_is_transducer_witness:
  "bind_res (process_telnet_data demo_callbacks [65, 255, 255, 66] 3 demo_td) (\<lambda>(data', len', td'). Inr (td', take len' data')) =
    run_steps (tn_step demo_callbacks) (demo_td, []) [65, 255, 255]"
  using process_is_transducer [of 3 "[65, 255, 255, 66]" demo_callbacks demo_td] by simp

lemma process_run:
  assumes "len \<le> length data"
  shows "(\<exists>data' len'. process_telnet_data cb data len td = Inr (data', len', td') \<and> take len' data' = out) \<longleftrightarrow>
    run_steps (tn_step cb) (td, []) (take len data) = Inr (td', out)"
  using telnet_loop_stream [of 0 len data cb td] assms
  by (auto simp: process_telnet_data_def result_def res_simps split: prod.splits)

lemma run_out:
  "run_steps (tn_step cb) (td, out) bs =
     bind_res (run_steps (tn_step cb) (td, []) bs) (\<lambda>(td', o'). Inr (td', out @ o'))"
proof (induction bs arbitrary: td out)
  case (Cons b bs)
  have step: "tn_step cb (td, out) b = bind_res (tn_step cb (td, []) b) (\<lambda>(td', o'). Inr (td', out @ o'))"
    by (cases "command_byte cb td b"; cases "store_cmd td 255") (auto simp: tn_step_pair)
  show ?case
  proof (cases "tn_step cb (td, []) b")
    case (Inr r)
    then obtain td1 o1 where r: "tn_step cb (td, []) b = Inr (td1, o1)" by (cases r) auto
    with step Cons.IH [of td1 "out @ o1"] Cons.IH [of td1 o1] show ?thesis
      by (cases "run_steps (tn_step cb) (td1, []) bs") auto
  qed (simp add: step)
qed simp

text \<open>C35: For every stream of bytes, whatever it contains, and for every table of options, the
  receiver stays inside its two buffers and its table and keeps its invariant, and what it passes on
  is not longer than what it received; the callbacks leave the receiver's own state alone.  The one
  thing that can go wrong is a jump through a NULL pointer, and only if an option of the table has
  no handler for suboptions; both tables of the program have such options.\<close>

theorem telnet_receive_safe:
  assumes "callbacks_ok I cb" and "td_ok I td" and "len \<le> length data"
  shows "process_telnet_data cb data len td = Inl Null_pointer \<and> \<not> handlers_set (cmds td) \<or>
    (\<exists>data' len' td'. process_telnet_data cb data len td = Inr (data', len', td') \<and>
       td_ok I td' \<and> handlers_set (cmds td') = handlers_set (cmds td) \<and> len' \<le> len \<and> length data' = length data)"
proof -
  have "tn_safe I cb (handlers_set (cmds td)) td" using assms(1,2) by (simp add: tn_safe_def)
  from run_received [OF this, of "[]" "take len data"] show ?thesis
  proof (elim disjE exE conjE)
    assume "run_steps (tn_step cb) (td, []) (take len data) = Inl Null_pointer" "\<not> handlers_set (cmds td)"
    with telnet_loop_stream [of 0 len data cb td] assms(3) show ?thesis by (auto simp: process_telnet_data_def res_simps)
  next
    fix td' out assume s': "run_steps (tn_step cb) (td, []) (take len data) = Inr (td', out)"
      "tn_safe I cb (handlers_set (cmds td)) td'"
    then obtain data' len' where p: "process_telnet_data cb data len td = Inr (data', len', td')"
      using process_run [OF assms(3), of cb td td' out] by auto
    then have "length data' = length data \<and> len' \<le> len"
      using telnet_loop_length [of 0 len data cb td] assms(3) by (auto simp: process_telnet_data_def split: if_splits)
    with p s'(2) show ?thesis by (auto simp: tn_safe_def)
  qed
qed

theorem telnet_receive_safe_witness:
  "process_telnet_data demo_callbacks (replicate 1000 255) 1000 demo_bare = Inl Null_pointer \<or>
    (\<exists>data' len' td'. process_telnet_data demo_callbacks (replicate 1000 255) 1000 demo_bare = Inr (data', len', td') \<and>
       td_ok (\<lambda>_. True) td' \<and> len' \<le> 1000 \<and> length data' = 1000)"
proof -
  have "td_ok (\<lambda>_. True) demo_bare" using demo_td_ok by (simp add: tn_ok_def td_ok_def out_ok_def shape_def demo_bare_def demo_cmd_def)
  from telnet_receive_safe [OF demo_callbacks_ok this, of 1000 "replicate 1000 255"] show ?thesis by auto
qed

text \<open>How the network cuts the stream into reads makes no difference: processing two
  pieces one after the other passes on the same bytes and ends in the same state as processing
  them in one piece, wherever a command is cut in two.\<close>

theorem telnet_chunks:
  assumes "process_telnet_data cb d1 (length d1) td = Inr (e1, n1, td1)"
    and "process_telnet_data cb d2 (length d2) td1 = Inr (e2, n2, td2)"
  shows "\<exists>e n. process_telnet_data cb (d1 @ d2) (length (d1 @ d2)) td = Inr (e, n, td2) \<and>
    take n e = take n1 e1 @ take n2 e2"
proof -
  have "run_steps (tn_step cb) (td, []) d1 = Inr (td1, take n1 e1)"
    "run_steps (tn_step cb) (td1, []) d2 = Inr (td2, take n2 e2)"
    using process_run [of "length d1" d1 cb td td1 "take n1 e1"] process_run [of "length d2" d2 cb td1 td2 "take n2 e2"] assms
    by auto
  then have "run_steps (tn_step cb) (td, []) (d1 @ d2) = Inr (td2, take n1 e1 @ take n2 e2)"
    by (simp add: run_steps_append run_out [of cb td1 "take n1 e1"])
  then show ?thesis using process_run [of "length (d1 @ d2)" "d1 @ d2" cb td td2] by simp
qed

lemmas telnet_eval = process_telnet_data_def telnet_loop.simps command_byte_def store_cmd_def write_at_def
  delete_char_def upt_rec Let_def

theorem telnet_chunks_witness:
  "\<exists>e n td2. process_telnet_data demo_callbacks ([65, 255] @ [255, 66]) (length ([65, 255] @ [255, 66 :: byte])) demo_td =
    Inr (e, n, td2) \<and> take n e = [65, 255, 66]"
proof -
  let ?td1 = "demo_td\<lparr>telnet_cmd := 255 # replicate 31 0, telnet_cmd_pos := 1\<rparr>"
  have 1: "process_telnet_data demo_callbacks [65, 255] (length [65, 255 :: byte]) demo_td = Inr ([65, 255], 1, ?td1)"
    by (simp add: telnet_eval demo_td_def drop_Cons' replicate_app_Cons_same flip: replicate_Suc)
  have 2: "process_telnet_data demo_callbacks [255, 66] (length [255, 66 :: byte]) ?td1 =
      Inr ([255, 66], 2, ?td1\<lparr>telnet_cmd_pos := 0\<rparr>)"
    by (simp add: telnet_eval demo_td_def)
  show ?thesis using telnet_chunks [OF 1 2] by fastforce
qed


section \<open>Round trips\<close>

text \<open>Doubling of the escape byte, as a sender does it.\<close>

definition iac_escape :: "byte list \<Rightarrow> byte list" where
  "iac_escape bs = concat (map (\<lambda>b. if b = 255 then [255, 255] else [b]) bs)"

lemma iac_escape_simps [simp]:
  "iac_escape [] = []"
  "iac_escape (b # bs) = (if b = 255 then [255, 255] else [b]) @ iac_escape bs"
  by (simp_all add: iac_escape_def)

lemma length_iac_escape: "length (iac_escape bs) = length bs + length (filter (\<lambda>b. b = 255) bs)"
  by (induction bs) auto

lemma run_escaped_data:
  "tn_ok I cb td \<Longrightarrow> telnet_cmd_pos td = 0 \<Longrightarrow>
   \<exists>td'. run_steps (tn_step cb) (td, []) (iac_escape bs) = Inr (td', bs) \<and> tn_ok I cb td' \<and> telnet_cmd_pos td' = 0"
proof (induction bs arbitrary: td)
  case (Cons b bs)
  show ?case
  proof (cases "b = 255")
    case True
    obtain td1 where td1: "store_cmd td 255 = Inr td1" "tn_ok I cb td1" by (rule store_cmd_ok [OF Cons.prems(1)]) (simp add: Cons.prems)
    then have "telnet_cmd_pos td1 = 1" using Cons.prems(2) by (auto simp: store_cmd_def res_simps)
    moreover have "tn_ok I cb (td1\<lparr>suboption_iac := False, telnet_cmd_pos := 0\<rparr>)" using td1 by (simp add: tn_safe_pos)
    ultimately show ?thesis
      using Cons.IH [of "td1\<lparr>suboption_iac := False, telnet_cmd_pos := 0\<rparr>"] True Cons.prems td1
      by (simp add: tn_step_pair run_out [of cb _ "[255]"]) auto
  next
    case False
    with Cons.IH [OF Cons.prems] Cons.prems show ?thesis by (auto simp: tn_step_pair run_out [of cb td "[b]"])
  qed
qed auto

text \<open>Data that a sender escapes by doubling every 255 goes through the receiver unchanged:
  all bytes arrive, once and in order, and no command is left open.\<close>

theorem escaped_data_received:
  assumes "tn_ok I cb td" and "telnet_cmd_pos td = 0"
  shows "\<exists>e n td'. process_telnet_data cb (iac_escape bs) (length (iac_escape bs)) td = Inr (e, n, td') \<and>
    take n e = bs \<and> telnet_cmd_pos td' = 0"
  using run_escaped_data [OF assms, of bs] process_run [of "length (iac_escape bs)" "iac_escape bs" cb td _ bs]
  by fastforce

lemma demo_td_idle: "telnet_cmd_pos demo_td = 0"
  by (simp add: demo_td_def)

theorem escaped_data_received_witness:
  "\<exists>e n td'. process_telnet_data demo_callbacks [1, 255, 255, 2] (length [1, 255, 255, 2 :: byte]) demo_td = Inr (e, n, td') \<and>
    take n e = [1, 255, 2] \<and> telnet_cmd_pos td' = 0"
proof -
  have e: "iac_escape [1, 255, 2] = [1, 255, 255, 2]" by simp
  show ?thesis using escaped_data_received [OF demo_td_ok demo_td_idle, of "[1, 255, 2]"] unfolding e .
qed

text \<open>What \<^verbatim>\<open>telnet_send_option\<close> puts into the output buffer.\<close>

definition option_message :: "byte list \<Rightarrow> byte list" where
  "option_message option = [255, 250] @ iac_escape option @ [255, 240]"

lemma length_option_message: "length (option_message option) = real_len option"
  by (simp add: option_message_def real_len_def length_iac_escape)

lemma copy_option_escape:
  "ps + length (iac_escape bs) \<le> length a \<Longrightarrow>
   copy_option a ps bs = Inr (take ps a @ iac_escape bs @ drop (ps + length (iac_escape bs)) a, ps + length (iac_escape bs))"
proof (induction a ps bs rule: copy_option.induct)
  case (2 a ps b bs)
  show ?case
  proof (cases "b = 255")
    case True
    with 2 show ?thesis by (simp add: add_ac)
  next
    case False
    with 2 show ?thesis by (simp add: add_ac)
  qed
qed simp

lemma write_at_append: "k = length x \<Longrightarrow> length bs \<le> length y \<Longrightarrow>
  write_at k bs (x @ y) = Inr (x @ bs @ drop (length bs) y)"
  by (simp add: write_at_def)

lemma send_option_result:
  assumes "out_ok I td"
  shows "telnet_send_option ready td option =
    (if out_telnet_cmd_size td + real_len option \<le> MAX_TELNET_CMD_XMIT_BUF
     then ready (td\<lparr>
        out_telnet_cmd := take (out_telnet_cmd_size td) (out_telnet_cmd td) @ option_message option @
          drop (out_telnet_cmd_size td + real_len option) (out_telnet_cmd td),
        out_telnet_cmd_size := out_telnet_cmd_size td + real_len option\<rparr>)
     else Inr (td\<lparr>error := True\<rparr>))"
proof -
  let ?k = "out_telnet_cmd_size td" and ?a = "out_telnet_cmd td"
  have len: "length ?a = MAX_TELNET_CMD_XMIT_BUF" using assms by (simp add: out_ok_def)
  show ?thesis
  proof (cases "?k + real_len option \<le> MAX_TELNET_CMD_XMIT_BUF")
    case True
    then have fits: "?k + (length (iac_escape option) + 4) \<le> length ?a"
      using len by (simp add: real_len_def length_iac_escape)
    let ?a1 = "take ?k ?a @ [255, 250] @ drop (?k + 2) ?a"
    have "write_at ?k [255, 250] ?a = Inr ?a1" using fits by simp
    moreover have "copy_option ?a1 (?k + 2) option =
        Inr (take ?k ?a @ [255, 250] @ iac_escape option @ drop (?k + 2 + length (iac_escape option)) ?a, ?k + 2 + length (iac_escape option))"
      using fits by (subst copy_option_escape) (simp_all add: add.commute min_def)
    moreover have "write_at (?k + 2 + length (iac_escape option)) [255, 240]
         (take ?k ?a @ [255, 250] @ iac_escape option @ drop (?k + 2 + length (iac_escape option)) ?a) =
       Inr (take ?k ?a @ [255, 250] @ iac_escape option @ [255, 240] @ drop (?k + 4 + length (iac_escape option)) ?a)"
    proof -
      let ?x = "take ?k ?a @ [255, 250] @ iac_escape option" and ?y = "drop (?k + 2 + length (iac_escape option)) ?a"
      have "write_at (?k + 2 + length (iac_escape option)) [255, 240] (?x @ ?y) =
          Inr (?x @ [255, 240] @ drop (length [255, 240 :: byte]) ?y)"
        by (rule write_at_append) (use fits in \<open>simp_all add: min_def\<close>)
      moreover have "drop (length [255, 240 :: byte]) ?y = drop (?k + 4 + length (iac_escape option)) ?a"
        by (simp add: add_ac eval_nat_numeral)
      ultimately show ?thesis by simp
    qed
    ultimately show ?thesis
      using True by (simp add: telnet_send_option_def Let_def option_message_def real_len_def length_iac_escape add_ac eval_nat_numeral)
  qed (simp add: telnet_send_option_def Let_def)
qed


lemma store_step:
  assumes "td_ok I td" and "telnet_cmd_pos td \<le> MAX_TELNET_CMD_SIZE"
  shows "store_cmd td b = Inr (td\<lparr>telnet_cmd := take (telnet_cmd_pos td) (telnet_cmd td) @ b # drop (telnet_cmd_pos td + 1) (telnet_cmd td),
    telnet_cmd_pos := telnet_cmd_pos td + 1\<rparr>)"
  using assms by (simp add: store_cmd_def td_ok_def)

text \<open>Inside a suboption the bytes are collected, the doubled 255 once.\<close>

definition received :: "'c telnet_data \<Rightarrow> byte list \<Rightarrow> 'c telnet_data" where
  "received td bs = td\<lparr>telnet_cmd := take (telnet_cmd_pos td) (telnet_cmd td) @ bs @
     drop (telnet_cmd_pos td + length bs) (telnet_cmd td), telnet_cmd_pos := telnet_cmd_pos td + length bs\<rparr>"

lemma received_ok: "td_ok I td \<Longrightarrow> telnet_cmd_pos td + length bs \<le> MAX_TELNET_CMD_SIZE + 1 \<Longrightarrow> td_ok I (received td bs)"
  by (simp add: td_ok_def received_def out_ok_def)

lemma received_pos [simp]: "telnet_cmd_pos (received td bs) = telnet_cmd_pos td + length bs"
  "suboption_iac (received td bs) = suboption_iac td" "cmds (received td bs) = cmds td"
  by (simp_all add: received_def)

lemma received_Nil: "td_ok I td \<Longrightarrow> received td [] = td"
  by (simp add: received_def)

lemma received_append: "td_ok I td \<Longrightarrow> telnet_cmd_pos td + length (as @ bs) \<le> MAX_TELNET_CMD_SIZE + 1 \<Longrightarrow>
  received (received td as) bs = received td (as @ bs)"
  by (auto simp: td_ok_def received_def min_def add_ac simp flip: length_greater_0_conv)

lemma store_received: "td_ok I td \<Longrightarrow> telnet_cmd_pos td \<le> MAX_TELNET_CMD_SIZE \<Longrightarrow> store_cmd td b = Inr (received td [b])"
  using store_step [of I td b] by (simp add: received_def)

lemma run_suboption:
  "td_ok I td \<Longrightarrow> 3 \<le> telnet_cmd_pos td \<Longrightarrow> \<not> suboption_iac td \<Longrightarrow>
   telnet_cmd_pos td + length bs \<le> MAX_TELNET_CMD_SIZE + 1 \<Longrightarrow>
   run_steps (tn_step cb) (td, out) (iac_escape bs) = Inr ((received td bs)\<lparr>suboption_iac := False\<rparr>, out)"
proof (induction bs arbitrary: td)
  case Nil
  then show ?case by (simp add: received_Nil)
next
  case (Cons b bs)
  let ?td = "received td [b]"
  have fit: "telnet_cmd_pos td + length [b] \<le> MAX_TELNET_CMD_SIZE + 1" using Cons.prems by simp
  have st: "store_cmd td b = Inr ?td" by (rule store_received) (use Cons.prems in auto)
  have cb: "command_byte cb td b = Inr (if b = 255 then ?td\<lparr>suboption_iac := True\<rparr> else ?td)"
    using Cons.prems st by (auto simp: command_byte_def)
  have ok: "td_ok I ?td" by (rule received_ok [OF Cons.prems(1) fit])
  have app: "received ?td bs = received td (b # bs)" using received_append [OF Cons.prems(1), of "[b]" bs] Cons.prems(4) by simp
  show ?case
  proof (cases "b = 255")
    case True
    have "command_byte cb (?td\<lparr>suboption_iac := True\<rparr>) 255 = Inr (?td\<lparr>suboption_iac := False\<rparr>)"
      using Cons.prems(2) by (simp add: command_byte_def)
    moreover have "td_ok I (?td\<lparr>suboption_iac := False\<rparr>)" using ok by (simp add: td_ok_def out_ok_def)
    moreover have "received (?td\<lparr>suboption_iac := False\<rparr>) bs = (received td (b # bs))\<lparr>suboption_iac := False\<rparr>"
      unfolding app [symmetric] by (simp add: received_def)
    ultimately show ?thesis
      using Cons.IH [of "?td\<lparr>suboption_iac := False\<rparr>"] Cons.prems cb True by (simp add: tn_step_pair)
  next
    case False
    with Cons.IH [OF ok] Cons.prems cb app show ?thesis by (simp add: tn_step_pair)
  qed
qed


lemma received_array:
  assumes "td_ok I td" and "telnet_cmd_pos td = 0"
  shows "telnet_cmd (received td bs) = bs @ drop (length bs) (telnet_cmd td)"
  using assms by (simp add: received_def)

lemma option_delivered:
  assumes "tn_ok I cb td" and "telnet_cmd_pos td = 0" and "o' \<noteq> 255" and "length os \<le> 28"
    and "find_cmd (cmds td) o' = Inr (Some i)"
  shows "\<exists>td2 td3. call_option cb o' td2 (drop 2 (telnet_cmd td2)) (length (o' # os)) = Inr td3 \<and>
    run_steps (tn_step cb) (td, []) (option_message (o' # os)) = Inr (td3\<lparr>telnet_cmd_pos := 0, suboption_iac := False\<rparr>, []) \<and>
    take (length (o' # os)) (drop 2 (telnet_cmd td2)) = o' # os"
proof -
  have ok: "td_ok I td" and h: "handlers_set (cmds td)" using assms(1) by (simp_all add: tn_ok_def)
  let ?t0 = "td\<lparr>suboption_iac := False\<rparr>"
  let ?r = "\<lambda>bs. received ?t0 bs"
  have ok0: "td_ok I ?t0" and pos0: "telnet_cmd_pos ?t0 = 0" using ok assms(2) by (simp_all add: td_ok_def out_ok_def)
  have okr: "td_ok I (?r bs)" if "length bs \<le> 32" for bs
    using received_ok [OF ok0] that pos0 by (simp add: MAX_TELNET_CMD_SIZE_def)
  have st: "store_cmd (?r bs) b = Inr (?r (bs @ [b]))" if "length bs \<le> 31" for bs b
    using store_received [OF okr, of bs b] received_append [OF ok0, of bs "[b]"] that pos0
    by (simp add: MAX_TELNET_CMD_SIZE_def)
  have "store_cmd td 255 = Inr (received td [255])" by (rule store_received [OF ok]) (use assms(2) in simp)
  moreover have "(received td [255])\<lparr>suboption_iac := False\<rparr> = ?r [255]" by (simp add: received_def)
  ultimately have 1: "tn_step cb (td, []) 255 = Inr (?r [255], [])" using assms(2) by (simp add: tn_step_pair)
  have 2: "tn_step cb (?r [255], []) 250 = Inr (?r [255, 250], [])"
    using st [of "[255]" 250] pos0 by (simp add: tn_step_pair command_byte_def)
  have 3: "tn_step cb (?r [255, 250], []) o' = Inr (?r [255, 250, o'], [])"
    using st [of "[255, 250]" o'] pos0 received_array [OF ok0 pos0] by (simp add: tn_step_pair command_byte_def)
  let ?m = "[255, 250, o'] @ os"
  have 4: "run_steps (tn_step cb) (?r [255, 250, o'], []) (iac_escape os) = Inr (?r ?m, [])"
    using run_suboption [OF okr, of "[255, 250, o']" os cb "[]"] received_append [OF ok0, of "[255, 250, o']" os] pos0 assms(4)
    by (simp add: MAX_TELNET_CMD_SIZE_def)
  have 5: "tn_step cb (?r ?m, []) 255 = Inr ((?r (?m @ [255]))\<lparr>suboption_iac := True\<rparr>, [])"
    using st [of ?m 255] pos0 assms(4) by (simp add: tn_step_pair command_byte_def MAX_TELNET_CMD_SIZE_def)
  let ?t2 = "(?r (?m @ [255]))\<lparr>suboption_iac := True, telnet_cmd_pos := length os + 3\<rparr>"
  have arr: "telnet_cmd ?t2 = [255, 250, o'] @ os @ [255] @ drop (length os + 4) (telnet_cmd td)"
    using received_array [OF ok0 pos0, of "?m @ [255]"] by (simp add: eval_nat_numeral)
  have find: "find_cmd (cmds ?t2) o' = Inr (Some i)" using assms(5) by simp
  obtain r where "find_cmd (cmds td) o' = Inr r" "\<And>j. r = Some j \<Longrightarrow> j < length (cmds td) \<and> opt (cmds td ! j) = o' \<and>
      o' \<noteq> 255 \<and> (handlers_set (cmds td) \<longrightarrow> option_handler (cmds td ! j))" using find_cmd_total [OF ok, of o'] by blast
  with assms(5) h have i: "opt (cmds ?t2 ! i) = o'" "option_handler (cmds ?t2 ! i)" by simp_all
  have "out_ok I ?t2" using ok0 by (simp add: td_ok_def received_def out_ok_def)
  then have "done_ok I ?t2 (call_option cb o' ?t2 (drop 2 (telnet_cmd ?t2)) (length os + 1))"
    using assms(1) unfolding tn_ok_def callbacks_ok_def by blast
  then obtain td3 where td3: "call_option cb o' ?t2 (drop 2 (telnet_cmd ?t2)) (length os + 1) = Inr td3"
    unfolding done_ok_def by blast
  have "handle_telnet_cmd cb ?t2 = Inr td3"
    using arr find i td3 by (simp add: handle_telnet_cmd_def Let_def del: received_pos)
  then have 6: "tn_step cb ((?r (?m @ [255]))\<lparr>suboption_iac := True\<rparr>, []) 240 =
      Inr (td3\<lparr>telnet_cmd_pos := 0, suboption_iac := False\<rparr>, [])"
    using pos0 by (simp add: tn_step_pair command_byte_def finish_cmd_def eval_nat_numeral)
  have "run_steps (tn_step cb) (td, []) (option_message (o' # os)) =
      Inr (td3\<lparr>telnet_cmd_pos := 0, suboption_iac := False\<rparr>, [])"
    using 1 2 3 4 5 6 assms(3) by (simp add: option_message_def run_steps_append)
  moreover have "take (length (o' # os)) (drop 2 (telnet_cmd ?t2)) = o' # os" unfolding arr by simp
  moreover have "call_option cb o' ?t2 (drop 2 (telnet_cmd ?t2)) (length (o' # os)) = Inr td3" using td3 by simp
  ultimately show ?thesis by blast
qed


text \<open>An option that one side sends arrives at the other: \<^verbatim>\<open>telnet_send_option\<close> puts it
  behind the pending output, and a receiver that is between commands and is fed these bytes
  calls the handler of the option with exactly the bytes and the length that were sent (doubled
  255s removed), passes on no data and is between commands again.  Sender and receiver agree on
  options of up to 29 bytes whose first byte, the option code, is in the receiver's table.\<close>

theorem option_roundtrip:
  assumes "out_ok I td" and "out_telnet_cmd_size td + real_len (o' # os) \<le> MAX_TELNET_CMD_XMIT_BUF"
    and "tn_ok I cb' td'" and "telnet_cmd_pos td' = 0" and "o' \<noteq> 255" and "length os \<le> 28"
    and "find_cmd (cmds td') o' = Inr (Some i)"
  shows "\<exists>td1 e td2 td3. telnet_send_option ready td (o' # os) = ready td1 \<and>
    (let wire = drop (out_telnet_cmd_size td) (take (out_telnet_cmd_size td1) (out_telnet_cmd td1)) in
     process_telnet_data cb' wire (length wire) td' = Inr (e, 0, td3\<lparr>telnet_cmd_pos := 0, suboption_iac := False\<rparr>)) \<and>
    call_option cb' o' td2 (drop 2 (telnet_cmd td2)) (length (o' # os)) = Inr td3 \<and>
    take (length (o' # os)) (drop 2 (telnet_cmd td2)) = o' # os"
proof -
  let ?m = "option_message (o' # os)"
  define td1 where "td1 = td\<lparr>out_telnet_cmd := take (out_telnet_cmd_size td) (out_telnet_cmd td) @ ?m @
     drop (out_telnet_cmd_size td + real_len (o' # os)) (out_telnet_cmd td),
     out_telnet_cmd_size := out_telnet_cmd_size td + real_len (o' # os)\<rparr>"
  have send: "telnet_send_option ready td (o' # os) = ready td1"
    using send_option_result [OF assms(1)] assms(2) by (simp add: td1_def)
  have wire: "drop (out_telnet_cmd_size td) (take (out_telnet_cmd_size td1) (out_telnet_cmd td1)) = ?m"
    using assms(1,2) length_option_message [of "o' # os"] by (simp add: td1_def out_ok_def)
  obtain td2 td3 where td2: "call_option cb' o' td2 (drop 2 (telnet_cmd td2)) (length (o' # os)) = Inr td3"
    "run_steps (tn_step cb') (td', []) ?m = Inr (td3\<lparr>telnet_cmd_pos := 0, suboption_iac := False\<rparr>, [])"
    "take (length (o' # os)) (drop 2 (telnet_cmd td2)) = o' # os"
    using option_delivered [OF assms(3-7)] by blast
  have "\<exists>e n. process_telnet_data cb' ?m (length ?m) td' = Inr (e, n, td3\<lparr>telnet_cmd_pos := 0, suboption_iac := False\<rparr>) \<and>
      take n e = []"
    unfolding process_run [OF order_refl] using td2(2) by simp
  then obtain e n where p: "process_telnet_data cb' ?m (length ?m) td' =
      Inr (e, n, td3\<lparr>telnet_cmd_pos := 0, suboption_iac := False\<rparr>)" "take n e = []" by blast
  then have "n = 0"
    using telnet_loop_length [of 0 "length ?m" ?m cb' td' e n] by (auto simp: process_telnet_data_def option_message_def)
  with send p(1) td2(1,3) show ?thesis
    unfolding Let_def by (intro exI [of _ td1] exI [of _ e] exI [of _ td2] exI [of _ td3]) (simp only: wire)
qed

theorem option_roundtrip_witness:
  "\<exists>td1 e td2 td3. telnet_send_option Inr demo_td [44, 1, 255] = Inr td1 \<and>
    (let wire = drop (out_telnet_cmd_size demo_td) (take (out_telnet_cmd_size td1) (out_telnet_cmd td1)) in
     process_telnet_data demo_callbacks wire (length wire) demo_td = Inr (e, 0, td3\<lparr>telnet_cmd_pos := 0, suboption_iac := False\<rparr>)) \<and>
    call_option demo_callbacks 44 td2 (drop 2 (telnet_cmd td2)) (length [44, 1, 255 :: byte]) = Inr td3 \<and>
    take (length [44, 1, 255 :: byte]) (drop 2 (telnet_cmd td2)) = [44, 1, 255]"
proof (rule option_roundtrip [OF _ _ demo_td_ok demo_td_idle])
  show "out_ok (\<lambda>_. True) demo_td" using demo_td_ok by (simp add: tn_ok_def td_ok_def)
  show "find_cmd (cmds demo_td) 44 = Inr (Some 0)" by (simp add: find_cmd_def demo_td_def demo_cmd_def)
qed (simp_all add: demo_td_def real_len_def MAX_TELNET_CMD_XMIT_BUF_def)

section \<open>Negotiation\<close>

text \<open>Two sides that only flush their replies to each other: what \<open>td\<close> answers to a message,
  and a dialogue of \<open>n\<close> messages after the first.\<close>

definition answer :: "'c callbacks \<Rightarrow> 'c telnet_data \<Rightarrow> byte list \<Rightarrow> (byte list \<times> 'c telnet_data) res" where
  "answer cb td msg = bind_res (process_telnet_data cb msg (length msg) td) (\<lambda>(data, len, td').
     Inr (take (out_telnet_cmd_size td') (out_telnet_cmd td'), td'\<lparr>out_telnet_cmd_size := 0\<rparr>))"

fun dialogue :: "'c callbacks \<Rightarrow> nat \<Rightarrow> 'c telnet_data \<Rightarrow> 'c telnet_data \<Rightarrow> byte list \<Rightarrow> byte list res" where
  "dialogue cb 0 a b msg = Inr msg"
| "dialogue cb (Suc n) a b msg = bind_res (answer cb a msg) (\<lambda>(msg', a'). dialogue cb n b a' msg')"

definition idle :: "byte \<Rightarrow> 'c telnet_data \<Rightarrow> bool" where
  "idle option td \<longleftrightarrow> td_ok (\<lambda>_. True) td \<and> telnet_cmd_pos td = 0 \<and> out_telnet_cmd_size td = 0 \<and>
     find_cmd (cmds td) option = Inr None"

lemma refusal_answered:
  assumes "idle option td" and "\<And>td. output_ready cb td = Inr td" and "ty = TN_WONT \<and> ty' = TN_DONT \<or> ty = TN_DONT \<and> ty' = TN_WONT"
  shows "\<exists>td'. answer cb td [TN_IAC, ty, option] = Inr ([TN_IAC, ty', option], td') \<and> idle option td'"
proof -
  have ok: "td_ok (\<lambda>_. True) td" and pos: "telnet_cmd_pos td = 0" and out: "out_telnet_cmd_size td = 0"
    and find: "find_cmd (cmds td) option = Inr None" using assms(1) by (simp_all add: idle_def)
  let ?r = "\<lambda>bs. (received td bs)\<lparr>suboption_iac := False\<rparr>"
  have okr: "td_ok (\<lambda>_. True) (?r bs)" if "length bs \<le> 3" for bs
    using received_ok [OF ok, of bs] that pos by (simp add: MAX_TELNET_CMD_SIZE_def td_ok_def out_ok_def)
  have st: "store_cmd (?r bs) b = Inr (?r (bs @ [b]))" if "length bs \<le> 2" for bs b
    using store_received [OF okr, of bs b] received_append [OF ok, of bs "[b]"] that pos
    by (simp add: MAX_TELNET_CMD_SIZE_def) (simp add: received_def)
  have "store_cmd td 255 = Inr (received td [255])" by (rule store_received [OF ok]) (use pos in simp)
  then have 1: "tn_step cb (td, []) 255 = Inr (?r [255], [])" using pos by (simp add: tn_step_pair)
  have ty: "ty = 252 \<and> ty' = 254 \<or> ty = 254 \<and> ty' = 252" using assms(3) by (simp add: tn_codes)
  then have 2: "tn_step cb (?r [255], []) ty = Inr (?r [255, ty], [])"
    using st [of "[255]" ty] pos by (auto simp: tn_step_pair command_byte_def)
  let ?t = "?r [255, ty, option]"
  have arr: "telnet_cmd ?t = [255, ty, option] @ drop 3 (telnet_cmd td)" using received_array [OF ok pos] by (simp add: eval_nat_numeral)
  let ?t' = "?t\<lparr>out_telnet_cmd := [255, ty', option] @ drop 3 (out_telnet_cmd td), out_telnet_cmd_size := 3\<rparr>"
  have len: "length (out_telnet_cmd td) = 256" using ok by (simp add: td_ok_def out_ok_def MAX_TELNET_CMD_XMIT_BUF_def)
  then have "send_i cb ?t ty' option = Inr ?t'"
    using out assms(2) by (simp add: send_i_def telnet_cmd_send_def received_def TN_IAC_def MAX_TELNET_CMD_XMIT_BUF_def numeral_3_eq_3)
  then have h: "handle_telnet_cmd cb ?t = Inr ?t'"
    using arr find ty pos by (auto simp: handle_telnet_cmd_def handle_wont_def handle_dont_def set_cmd_def tn_codes Let_def)
  have 3: "tn_step cb (?r [255, ty], []) option = Inr (?t'\<lparr>telnet_cmd_pos := 0\<rparr>, [])"
  proof -
    have "store_cmd (?r [255, ty]) option = Inr ?t" using st [of "[255, ty]" option] by simp
    moreover have "telnet_cmd ?t ! 1 \<noteq> 250" using arr ty by auto
    ultimately show ?thesis using pos h by (simp add: tn_step_pair command_byte_def finish_cmd_def)
  qed
  have "run_steps (tn_step cb) (td, []) [255, ty, option] = Inr (?t'\<lparr>telnet_cmd_pos := 0\<rparr>, [])"
    using 1 2 3 by simp
  then have "answer cb td [255, ty, option] = Inr ([255, ty', option], ?t'\<lparr>telnet_cmd_pos := 0, out_telnet_cmd_size := 0\<rparr>)"
    using process_run [of 3 "[255, ty, option]" cb td "?t'\<lparr>telnet_cmd_pos := 0\<rparr>" "[]"]
    by (auto simp: answer_def numeral_3_eq_3)
  moreover have "idle option (?t'\<lparr>telnet_cmd_pos := 0, out_telnet_cmd_size := 0\<rparr>)"
    using okr [of "[255, ty, option]"] find len
    by (simp add: idle_def td_ok_def out_ok_def MAX_TELNET_CMD_XMIT_BUF_def)
  ultimately show ?thesis by (auto simp: TN_IAC_def)
qed

text \<open>C36: The refusal of an option that neither side knows is answered forever: the receiver
  of a WONT replies DONT and the receiver of that replies WONT, so that two instances that talk
  to each other exchange refusals without end, whatever number of messages is considered.\<close>

theorem refusal_loop:
  assumes "idle option a" and "idle option b" and "\<And>td. output_ready cb td = Inr td"
  shows "dialogue cb n a b [TN_IAC, TN_WONT, option] =
    Inr [TN_IAC, if even n then TN_WONT else TN_DONT, option]"
proof -
  have "dialogue cb n a b [TN_IAC, ty, option] = Inr [TN_IAC, if even n then ty else ty', option]"
    if "ty = TN_WONT \<and> ty' = TN_DONT \<or> ty = TN_DONT \<and> ty' = TN_WONT" for ty ty'
    using assms(1,2) that
  proof (induction n arbitrary: a b ty ty')
    case (Suc n)
    obtain a' where "answer cb a [TN_IAC, ty, option] = Inr ([TN_IAC, ty', option], a')" "idle option a'"
      using refusal_answered [OF Suc.prems(1) assms(3) Suc.prems(3)] by blast
    with Suc.IH [OF Suc.prems(2), of a' ty' ty] Suc.prems(3) show ?case by auto
  qed simp
  then show ?thesis by blast
qed

theorem refusal_loop_witness:
  "dialogue demo_callbacks 1000 demo_td demo_td [TN_IAC, TN_WONT, 99] = Inr [TN_IAC, TN_WONT, 99]"
proof -
  have "idle 99 demo_td"
    using demo_td_ok by (simp add: idle_def tn_ok_def) (simp add: demo_td_def find_cmd_def demo_cmd_def)
  from refusal_loop [OF this this, of demo_callbacks 1000] show ?thesis by (simp add: demo_callbacks_def)
qed

end
