(* ===== verification/Selector.thy ===== *)
theory Selector
  imports C_Prelude
begin

text \<open>
  The event loop of ser2net (\<^verbatim>\<open>src/ser2net/selector.c\<close>).  Timers live in a heap of
  records linked by \<open>left\<close>, \<open>right\<close> and \<open>up\<close>; the record \<open>heap\<close> is the memory of all
  timers together with the pointers to its root and to its last element.  The loops that
  follow pointers are partial functions, as nothing but the shape of the heap ends them:
  \<open>None\<close> is a loop that does not end.  Handlers are identified by values of the types
  \<open>'h\<close> (timers) and \<open>'f\<close> (file descriptors); what they do is an argument of the event loop.
\<close>

section \<open>Times\<close>

datatype timeval = Timeval (tv_sec: int) (tv_usec: int)

definition cmp_timeval :: "timeval \<Rightarrow> timeval \<Rightarrow> int" where
  "cmp_timeval tv1 tv2 =
     (if tv_sec tv1 < tv_sec tv2 then -1
      else if tv_sec tv2 < tv_sec tv1 then 1
      else if tv_usec tv1 < tv_usec tv2 then -1
      else if tv_usec tv2 < tv_usec tv1 then 1
      else 0)"

function borrow :: "int \<Rightarrow> int \<Rightarrow> timeval" where
  "borrow s us = (if us < 0 then borrow (s - 1) (us + 1000000) else Timeval s us)"
  by pat_completeness auto
termination
  by (relation "measure (\<lambda>(s, us). nat (- us))") auto

declare borrow.simps [simp del]

definition diff_timeval :: "timeval \<Rightarrow> timeval \<Rightarrow> timeval" where
  "diff_timeval l r =
     (if tv_sec l < tv_sec r \<or> tv_sec l = tv_sec r \<and> tv_usec l < tv_usec r then Timeval 0 0
      else borrow (tv_sec l - tv_sec r) (tv_usec l - tv_usec r))"

section \<open>The timer heap\<close>

type_synonym ptr = nat

record ('h, 'd) sel_timer =
  handler :: 'h
  user_data :: 'd
  timeout :: timeval
  in_heap :: bool
  left :: "ptr option"
  right :: "ptr option"
  up :: "ptr option"

record ('h, 'd) heap =
  timers :: "ptr \<Rightarrow> ('h, 'd) sel_timer"
  timer_top :: "ptr option"
  timer_last :: "ptr option"

type_synonym ('h, 'd, 'x) hp = "('h, 'd, 'x) heap_scheme"

definition upd :: "ptr \<Rightarrow> (('h, 'd) sel_timer \<Rightarrow> ('h, 'd) sel_timer) \<Rightarrow> ('h, 'd, 'x) hp \<Rightarrow> ('h, 'd, 'x) hp" where
  "upd t f h = h\<lparr>timers := (timers h)(t := f (timers h t))\<rparr>"

text \<open>\<^verbatim>\<open>if (p) p->up = v\<close>\<close>

definition set_up :: "ptr option \<Rightarrow> ptr \<Rightarrow> ('h, 'd, 'x) hp \<Rightarrow> ('h, 'd, 'x) hp" where
  "set_up p v h = (case p of None \<Rightarrow> h | Some t \<Rightarrow> upd t (\<lambda>r. r\<lparr>up := Some v\<rparr>) h)"

text \<open>\<^verbatim>\<open>if (up) { if (up->left == old) up->left = new; else up->right = new; } else *top = new;\<close>\<close>

definition replace_child :: "ptr option \<Rightarrow> ptr \<Rightarrow> ptr \<Rightarrow> ('h, 'd, 'x) hp \<Rightarrow> ('h, 'd, 'x) hp" where
  "replace_child u old new h =
     (case u of
        None \<Rightarrow> h\<lparr>timer_top := Some new\<rparr>
      | Some p \<Rightarrow>
          if left (timers h p) = Some old then upd p (\<lambda>r. r\<lparr>left := Some new\<rparr>) h
          else upd p (\<lambda>r. r\<lparr>right := Some new\<rparr>) h)"

definition replace_last :: "ptr \<Rightarrow> ptr \<Rightarrow> ('h, 'd, 'x) hp \<Rightarrow> ('h, 'd, 'x) hp" where
  "replace_last old new h = (if timer_last h = Some old then h\<lparr>timer_last := Some new\<rparr> else h)"

definition dec_unsigned :: "nat \<Rightarrow> nat" where
  "dec_unsigned n = (if n = 0 then 2 ^ 32 - 1 else n - 1)"

text \<open>The four walking loops of \<^verbatim>\<open>find_next_pos\<close> and \<^verbatim>\<open>find_prev_elem\<close>.\<close>

definition is_left :: "('h, 'd, 'x) hp \<Rightarrow> ptr \<Rightarrow> bool" where
  "is_left h cur = (case up (timers h cur) of None \<Rightarrow> False | Some p \<Rightarrow> left (timers h p) = Some cur)"

definition is_right :: "('h, 'd, 'x) hp \<Rightarrow> ptr \<Rightarrow> bool" where
  "is_right h cur = (case up (timers h cur) of None \<Rightarrow> False | Some p \<Rightarrow> right (timers h p) = Some cur)"

partial_function (option) climb ::
  "(('h, 'd, 'x) hp \<Rightarrow> ptr \<Rightarrow> bool) \<Rightarrow> ('h, 'd, 'x) hp \<Rightarrow> ptr \<Rightarrow> nat \<Rightarrow> (ptr \<times> nat) option" where
  "climb side h cur upcount =
     (if side h cur then
        (case up (timers h cur) of None \<Rightarrow> Some (cur, upcount)
         | Some p \<Rightarrow> climb side h p ((upcount + 1) mod 2 ^ 32))
      else Some (cur, upcount))"

fun descend :: "(('h, 'd) sel_timer \<Rightarrow> ptr option) \<Rightarrow> ('h, 'd, 'x) hp \<Rightarrow> ptr option \<Rightarrow> nat \<Rightarrow> ptr option res" where
  "descend go h cur 0 = Inr cur"
| "descend go h None (Suc n) = Inl Null_pointer"
| "descend go h (Some t) (Suc n) = descend go h (go (timers h t)) n"

text \<open>\<open>True\<close> stands for \<^verbatim>\<open>&parent->left\<close>, \<open>False\<close> for \<^verbatim>\<open>&parent->right\<close>.\<close>

definition find_next_pos :: "('h, 'd, 'x) hp \<Rightarrow> ptr \<Rightarrow> (ptr \<times> bool) res option" where
  "find_next_pos h cur =
     (if is_left h cur then
        (case up (timers h cur) of None \<Rightarrow> Some (Inl Null_pointer) | Some p \<Rightarrow> Some (Inr (p, False)))
      else
        (case climb is_right h cur 0 of
           None \<Rightarrow> None
         | Some (c, upcount) \<Rightarrow>
             Some (bind_res
               (case up (timers h c) of
                  Some p \<Rightarrow> descend left h (right (timers h p)) (dec_unsigned upcount)
                | None \<Rightarrow> descend left h (Some c) upcount)
               (\<lambda>r. case r of None \<Rightarrow> Inl Null_pointer | Some t \<Rightarrow> Inr (t, True)))))"

definition find_prev_elem :: "('h, 'd, 'x) hp \<Rightarrow> ptr \<Rightarrow> ptr option res option" where
  "find_prev_elem h cur =
     (if is_right h cur then
        (case up (timers h cur) of None \<Rightarrow> Some (Inl Null_pointer) | Some p \<Rightarrow> Some (Inr (left (timers h p))))
      else
        (case climb is_left h cur 0 of
           None \<Rightarrow> None
         | Some (c, upcount) \<Rightarrow>
             Some
               (case up (timers h c) of
                  Some p \<Rightarrow> descend right h (left (timers h p)) upcount
                | None \<Rightarrow> descend right h (Some c) (dec_unsigned upcount))))"

text \<open>One round of the loop of \<^verbatim>\<open>send_up\<close>: \<open>elem\<close> changes places with its parent.\<close>

definition swap_up :: "('h, 'd, 'x) hp \<Rightarrow> ptr \<Rightarrow> ptr \<Rightarrow> ('h, 'd, 'x) hp" where
  "swap_up h elem parent =
     (let tmp1 = left (timers h elem); tmp2 = right (timers h elem);
          h1 = (if left (timers h parent) = Some elem then
                  let h0 = upd elem (\<lambda>r. r\<lparr>left := Some parent, right := right (timers h parent)\<rparr>) h in
                  set_up (right (timers h0 elem)) elem h0
                else
                  let h0 = upd elem (\<lambda>r. r\<lparr>right := Some parent, left := left (timers h parent)\<rparr>) h in
                  set_up (left (timers h0 elem)) elem h0);
          h2 = upd elem (\<lambda>r. r\<lparr>up := up (timers h1 parent)\<rparr>) h1;
          h3 = replace_child (up (timers h2 parent)) parent elem h2;
          h4 = upd parent (\<lambda>r. r\<lparr>up := Some elem, left := tmp1\<rparr>) h3;
          h5 = set_up (left (timers h4 parent)) parent h4;
          h6 = upd parent (\<lambda>r. r\<lparr>right := tmp2\<rparr>) h5;
          h7 = set_up (right (timers h6 parent)) parent h6
      in replace_last elem parent h7)"

partial_function (option) send_up :: "('h, 'd, 'x) hp \<Rightarrow> ptr \<Rightarrow> ('h, 'd, 'x) hp option" where
  "send_up h elem =
     (case up (timers h elem) of
        None \<Rightarrow> Some h
      | Some parent \<Rightarrow>
          if cmp_timeval (timeout (timers h elem)) (timeout (timers h parent)) < 0
          then send_up (swap_up h elem parent) elem
          else Some h)"

text \<open>One round of the loop of \<^verbatim>\<open>send_down\<close>: \<open>elem\<close> changes places with its right or left child.\<close>

definition swap_down_right :: "('h, 'd, 'x) hp \<Rightarrow> ptr \<Rightarrow> ptr \<Rightarrow> ('h, 'd, 'x) hp" where
  "swap_down_right h elem r =
     (let tmp1 = left (timers h r); tmp2 = right (timers h r);
          h1 = replace_child (up (timers h elem)) elem r h;
          h2 = upd r (\<lambda>t. t\<lparr>up := up (timers h1 elem)\<rparr>) h1;
          h3 = upd elem (\<lambda>t. t\<lparr>up := Some r\<rparr>) h2;
          h4 = upd r (\<lambda>t. t\<lparr>left := left (timers h3 elem), right := Some elem\<rparr>) h3;
          h5 = upd elem (\<lambda>t. t\<lparr>left := tmp1, right := tmp2\<rparr>) h4;
          h6 = set_up (left (timers h5 r)) r h5;
          h7 = set_up (left (timers h6 elem)) elem h6;
          h8 = set_up (right (timers h7 elem)) elem h7
      in replace_last r elem h8)"

definition swap_down_left :: "('h, 'd, 'x) hp \<Rightarrow> ptr \<Rightarrow> ptr \<Rightarrow> ('h, 'd, 'x) hp" where
  "swap_down_left h elem l =
     (let tmp1 = left (timers h l); tmp2 = right (timers h l);
          h1 = replace_child (up (timers h elem)) elem l h;
          h2 = upd l (\<lambda>t. t\<lparr>up := up (timers h1 elem)\<rparr>) h1;
          h3 = upd elem (\<lambda>t. t\<lparr>up := Some l\<rparr>) h2;
          h4 = upd l (\<lambda>t. t\<lparr>left := Some elem, right := right (timers h3 elem)\<rparr>) h3;
          h5 = upd elem (\<lambda>t. t\<lparr>left := tmp1, right := tmp2\<rparr>) h4;
          h6 = set_up (right (timers h5 l)) l h5;
          h7 = set_up (left (timers h6 elem)) elem h6;
          h8 = set_up (right (timers h7 elem)) elem h7
      in replace_last l elem h8)"

partial_function (option) send_down :: "('h, 'd, 'x) hp \<Rightarrow> ptr \<Rightarrow> ('h, 'd, 'x) hp option" where
  "send_down h elem =
     (case left (timers h elem) of
        None \<Rightarrow> Some h
      | Some l \<Rightarrow>
          let time = (\<lambda>t. timeout (timers h t)) in
          (case right (timers h elem) of
             Some r \<Rightarrow>
               if cmp_timeval (time l) (time r) > 0 then
                 (if cmp_timeval (time elem) (time r) > 0 then send_down (swap_down_right h elem r) elem
                  else Some h)
               else if cmp_timeval (time elem) (time l) > 0 then send_down (swap_down_left h elem l) elem
               else Some h
           | None \<Rightarrow>
               if cmp_timeval (time elem) (time l) > 0 then send_down (swap_down_left h elem l) elem
               else Some h))"

definition add_to_heap :: "('h, 'd, 'x) hp \<Rightarrow> ptr \<Rightarrow> ('h, 'd, 'x) hp res option" where
  "add_to_heap h elem =
     (let h0 = upd elem (\<lambda>r. r\<lparr>left := None, right := None, up := None\<rparr>) h in
      case timer_top h0 of
        None \<Rightarrow> Some (Inr (h0\<lparr>timer_top := Some elem, timer_last := Some elem\<rparr>))
      | Some _ \<Rightarrow>
          (case timer_last h0 of
             None \<Rightarrow> Some (Inl Null_pointer)
           | Some lst \<Rightarrow>
               (case find_next_pos h0 lst of
                  None \<Rightarrow> None
                | Some (Inl e) \<Rightarrow> Some (Inl e)
                | Some (Inr (parent, side)) \<Rightarrow>
                    let h1 = upd parent (\<lambda>r. if side then r\<lparr>left := Some elem\<rparr> else r\<lparr>right := Some elem\<rparr>) h0;
                        h2 = (upd elem (\<lambda>r. r\<lparr>up := Some parent\<rparr>) h1)\<lparr>timer_last := Some elem\<rparr> in
                    if cmp_timeval (timeout (timers h2 elem)) (timeout (timers h2 parent)) < 0
                    then map_option Inr (send_up h2 elem)
                    else Some (Inr h2))))"

text \<open>The last element takes the place of the removed one and is moved to where it belongs.\<close>

definition put_in_place :: "('h, 'd, 'x) hp \<Rightarrow> ptr \<Rightarrow> ptr \<Rightarrow> ('h, 'd, 'x) hp" where
  "put_in_place h elem to_insert =
     (let h1 = replace_child (up (timers h elem)) elem to_insert h;
          h2 = upd to_insert (\<lambda>r. r\<lparr>up := up (timers h1 elem)\<rparr>) h1;
          h3 = set_up (left (timers h2 elem)) to_insert h2;
          h4 = set_up (right (timers h3 elem)) to_insert h3;
          h5 = upd to_insert (\<lambda>r. r\<lparr>left := left (timers h4 elem), right := right (timers h4 elem)\<rparr>) h4
      in replace_last elem to_insert h5)"

definition send_up_or_down :: "('h, 'd, 'x) hp \<Rightarrow> ptr \<Rightarrow> ('h, 'd, 'x) hp option" where
  "send_up_or_down h elem =
     (if (case up (timers h elem) of None \<Rightarrow> False
          | Some u \<Rightarrow> cmp_timeval (timeout (timers h elem)) (timeout (timers h u)) < 0)
      then send_up h elem else send_down h elem)"

definition remove_from_heap :: "('h, 'd, 'x) hp \<Rightarrow> ptr \<Rightarrow> ('h, 'd, 'x) hp res option" where
  "remove_from_heap h elem =
     (case timer_last h of
        None \<Rightarrow> Some (Inl Null_pointer)
      | Some to_insert \<Rightarrow>
          (case up (timers h to_insert) of
             None \<Rightarrow> Some (Inr (h\<lparr>timer_top := None, timer_last := None\<rparr>))
           | Some u \<Rightarrow>
               (case find_prev_elem h to_insert of
                  None \<Rightarrow> None
                | Some (Inl e) \<Rightarrow> Some (Inl e)
                | Some (Inr prev) \<Rightarrow>
                    let h1 = (upd u (\<lambda>r. if left r = Some to_insert then r\<lparr>left := None\<rparr> else r\<lparr>right := None\<rparr>) h)
                               \<lparr>timer_last := prev\<rparr> in
                    if elem = to_insert then Some (Inr h1)
                    else map_option Inr (send_up_or_down (put_in_place h1 elem to_insert) to_insert))))"

section \<open>The selector\<close>

record ('h, 'd) fd_control =
  in_use :: bool
  data :: "'d option"
  handle_read :: "'h option"
  handle_write :: "'h option"
  handle_except :: "'h option"

record ('h, 'd) selector = "('h, 'd) heap" +
  fds :: "('h, 'd) fd_control list"
  read_set :: "nat set"
  write_set :: "nat set"
  except_set :: "nat set"
  maxfd :: int
  user_sighup_handler :: "'h option"
  got_sighup :: bool

definition FD_SETSIZE :: nat where "FD_SETSIZE = 1024"

definition init_fd :: "('h, 'd) fd_control" where
  "init_fd = \<lparr>in_use = False, data = None, handle_read = None, handle_write = None, handle_except = None\<rparr>"

text \<open>The descriptors index arrays and bit sets of \<^verbatim>\<open>FD_SETSIZE\<close> entries.\<close>

definition fd_ok :: "int \<Rightarrow> bool" where
  "fd_ok fd \<longleftrightarrow> 0 \<le> fd \<and> fd < int FD_SETSIZE"

definition sel_set_fd_handlers ::
  "('h, 'd) selector \<Rightarrow> int \<Rightarrow> 'd option \<Rightarrow> 'h option \<Rightarrow> 'h option \<Rightarrow> 'h option \<Rightarrow> ('h, 'd) selector res" where
  "sel_set_fd_handlers sel fd d r w e =
     (if \<not> fd_ok fd then Inl Out_of_bounds
      else
        let sel1 = sel\<lparr>fds := (fds sel)[nat fd := \<lparr>in_use = True, data = d, handle_read = r, handle_write = w, handle_except = e\<rparr>]\<rparr>
        in Inr (if maxfd sel1 < fd then sel1\<lparr>maxfd := fd\<rparr> else sel1))"

text \<open>\<^verbatim>\<open>while ((sel->maxfd >= 0) && (! sel->fds[sel->maxfd].in_use)) sel->maxfd--;\<close>\<close>

function lower_maxfd :: "('h, 'd) fd_control list \<Rightarrow> int \<Rightarrow> int" where
  "lower_maxfd f m = (if 0 \<le> m \<and> \<not> in_use (f ! nat m) then lower_maxfd f (m - 1) else m)"
  by pat_completeness auto
termination
  by (relation "measure (\<lambda>(f, m). nat (m + 1))") auto

declare lower_maxfd.simps [simp del]

definition sel_clear_fd_handlers :: "('h, 'd) selector \<Rightarrow> int \<Rightarrow> ('h, 'd) selector res" where
  "sel_clear_fd_handlers sel fd =
     (if \<not> fd_ok fd then Inl Out_of_bounds
      else
        let sel1 = sel\<lparr>fds := (fds sel)[nat fd := init_fd], read_set := read_set sel - {nat fd},
                     write_set := write_set sel - {nat fd}, except_set := except_set sel - {nat fd}\<rparr>
        in Inr (if fd = maxfd sel1 then sel1\<lparr>maxfd := lower_maxfd (fds sel1) (maxfd sel1)\<rparr> else sel1))"

text \<open>\<open>Some True\<close>: \<^verbatim>\<open>SEL_FD_HANDLER_ENABLED\<close>, \<open>Some False\<close>: \<^verbatim>\<open>SEL_FD_HANDLER_DISABLED\<close>; any
  other state is ignored.\<close>

definition change_set :: "bool option \<Rightarrow> nat \<Rightarrow> nat set \<Rightarrow> nat set" where
  "change_set state fd st = (case state of Some True \<Rightarrow> insert fd st | Some False \<Rightarrow> st - {fd} | None \<Rightarrow> st)"

definition sel_set_fd_read_handler :: "('h, 'd) selector \<Rightarrow> int \<Rightarrow> bool option \<Rightarrow> ('h, 'd) selector res" where
  "sel_set_fd_read_handler sel fd state =
     (if \<not> fd_ok fd then Inl Out_of_bounds else Inr (sel\<lparr>read_set := change_set state (nat fd) (read_set sel)\<rparr>))"

definition sel_set_fd_write_handler :: "('h, 'd) selector \<Rightarrow> int \<Rightarrow> bool option \<Rightarrow> ('h, 'd) selector res" where
  "sel_set_fd_write_handler sel fd state =
     (if \<not> fd_ok fd then Inl Out_of_bounds else Inr (sel\<lparr>write_set := change_set state (nat fd) (write_set sel)\<rparr>))"

definition sel_set_fd_except_handler :: "('h, 'd) selector \<Rightarrow> int \<Rightarrow> bool option \<Rightarrow> ('h, 'd) selector res" where
  "sel_set_fd_except_handler sel fd state =
     (if \<not> fd_ok fd then Inl Out_of_bounds else Inr (sel\<lparr>except_set := change_set state (nat fd) (except_set sel)\<rparr>))"

text \<open>The block that \<^verbatim>\<open>malloc\<close> returns holds \<open>garbage\<close>; \<^verbatim>\<open>maxfd\<close> is not initialised.\<close>

definition sel_alloc_selector :: "('h, 'd) selector option \<Rightarrow> ('h, 'd) selector option" where
  "sel_alloc_selector garbage =
     map_option (\<lambda>sel. sel\<lparr>read_set := {}, write_set := {}, except_set := {}, fds := replicate FD_SETSIZE init_fd,
        timer_top := None, timer_last := None\<rparr>) garbage"

section \<open>Timers\<close>

text \<open>\<open>block\<close> is what \<^verbatim>\<open>malloc\<close> returns.\<close>

definition sel_alloc_timer ::
  "('h, 'd, 'x) hp \<Rightarrow> ptr option \<Rightarrow> 'h \<Rightarrow> 'd \<Rightarrow> (ptr \<times> ('h, 'd, 'x) hp) option" where
  "sel_alloc_timer sel block hn ud =
     map_option (\<lambda>t. (t, upd t (\<lambda>r. r\<lparr>handler := hn, user_data := ud, in_heap := False\<rparr>) sel)) block"

text \<open>\<open>Inr (Inl e)\<close> returns the error code \<open>e\<close>.\<close>

datatype errno = EBUSY | ETIMEDOUT

definition sel_start_timer :: "('h, 'd, 'x) hp \<Rightarrow> ptr \<Rightarrow> timeval \<Rightarrow> (errno + ('h, 'd, 'x) hp) res option" where
  "sel_start_timer sel timer tmo =
     (if in_heap (timers sel timer) then Some (Inr (Inl EBUSY))
      else
        map_option (\<lambda>r. bind_res r (\<lambda>h. Inr (Inr (upd timer (\<lambda>t. t\<lparr>in_heap := True\<rparr>) h))))
          (add_to_heap (upd timer (\<lambda>t. t\<lparr>timeout := tmo\<rparr>) sel) timer))"

definition sel_stop_timer :: "('h, 'd, 'x) hp \<Rightarrow> ptr \<Rightarrow> (errno + ('h, 'd, 'x) hp) res option" where
  "sel_stop_timer sel timer =
     (if \<not> in_heap (timers sel timer) then Some (Inr (Inl ETIMEDOUT))
      else
        map_option (\<lambda>r. bind_res r (\<lambda>h. Inr (Inr (upd timer (\<lambda>t. t\<lparr>in_heap := False\<rparr>) h))))
          (remove_from_heap sel timer))"

text \<open>\<^verbatim>\<open>free\<close> gives the record back; what is in the freed memory plays no role.\<close>

definition sel_free_timer :: "('h, 'd, 'x) hp \<Rightarrow> ptr \<Rightarrow> (errno + ('h, 'd, 'x) hp) res option" where
  "sel_free_timer sel timer =
     (if in_heap (timers sel timer) then sel_stop_timer sel timer else Some (Inr (Inr sel)))"

text \<open>The blocks that freeing a tree of timers releases.\<close>

partial_function (option) free_heap_element :: "('h, 'd, 'x) hp \<Rightarrow> ptr option \<Rightarrow> ptr list option" where
  "free_heap_element h elem =
     (case elem of
        None \<Rightarrow> Some []
      | Some t \<Rightarrow>
          Option.bind (free_heap_element h (left (timers h t))) (\<lambda>a.
          Option.bind (free_heap_element h (right (timers h t))) (\<lambda>b. Some (a @ b @ [t]))))"

definition sel_free_selector :: "('h, 'd) selector \<Rightarrow> ptr list option" where
  "sel_free_selector sel = free_heap_element sel (timer_top sel)"

section \<open>The event loop\<close>

text \<open>
  \<open>call_timer hn s t ud\<close> is what the timer handler \<open>hn\<close> does.  \<open>nows\<close> are the results of the
  successive calls of \<^verbatim>\<open>gettimeofday\<close>; the list of the timers that were fired is kept along.
  The result holds the time to wait, if a timer is left.
\<close>

type_synonym ('h, 'd) timer_call = "'h \<Rightarrow> ('h, 'd) selector \<Rightarrow> ptr \<Rightarrow> 'd \<Rightarrow> ('h, 'd) selector"

fun fire_timers ::
  "('h, 'd) timer_call \<Rightarrow> ('h, 'd) selector \<Rightarrow> timeval list \<Rightarrow>
   (ptr list \<times> timeval option \<times> ('h, 'd) selector) res option" where
  "fire_timers call sel [] = None"
| "fire_timers call sel (now # nows) =
     (case timer_top sel of
        None \<Rightarrow> Some (Inr ([], None, sel))
      | Some timer \<Rightarrow>
          if cmp_timeval now (timeout (timers sel timer)) \<ge> 0 then
            (case remove_from_heap sel timer of
               None \<Rightarrow> None
             | Some (Inl e) \<Rightarrow> Some (Inl e)
             | Some (Inr sel1) \<Rightarrow>
                 let sel2 = upd timer (\<lambda>t. t\<lparr>in_heap := False\<rparr>) sel1;
                     sel3 = call (handler (timers sel2 timer)) sel2 timer (user_data (timers sel2 timer)) in
                 map_option (\<lambda>r. bind_res r (\<lambda>(fired, wait, s). Inr (timer # fired, wait, s)))
                   (fire_timers call sel3 nows))
          else Some (Inr ([], Some (diff_timeval (timeout (timers sel timer)) now), sel)))"

definition sel_timers ::
  "('h, 'd) timer_call \<Rightarrow> ('h, 'd) selector \<Rightarrow> timeval list \<Rightarrow>
   (ptr list \<times> timeval option \<times> ('h, 'd) selector) res option" where
  "sel_timers call sel nows =
     (case timer_top sel of None \<Rightarrow> Some (Inr ([], None, sel)) | Some _ \<Rightarrow> fire_timers call sel nows)"

text \<open>\<open>call_fd hn s i d\<close> is what the handler \<open>hn\<close> of descriptor \<open>i\<close> does.\<close>

type_synonym ('h, 'd) fd_call = "'h \<Rightarrow> ('h, 'd) selector \<Rightarrow> nat \<Rightarrow> 'd option \<Rightarrow> ('h, 'd) selector"

definition dispatch_read :: "('h, 'd) fd_call \<Rightarrow> nat set \<Rightarrow> nat \<Rightarrow> ('h, 'd) selector \<Rightarrow> ('h, 'd) selector res" where
  "dispatch_read call st i sel =
     (if i \<notin> st then Inr sel
      else case handle_read (fds sel ! i) of
          None \<Rightarrow> sel_set_fd_read_handler sel (int i) (Some False)
        | Some f \<Rightarrow> Inr (call f sel i (data (fds sel ! i))))"

definition dispatch_write :: "('h, 'd) fd_call \<Rightarrow> nat set \<Rightarrow> nat \<Rightarrow> ('h, 'd) selector \<Rightarrow> ('h, 'd) selector res" where
  "dispatch_write call st i sel =
     (if i \<notin> st then Inr sel
      else case handle_write (fds sel ! i) of
          None \<Rightarrow> sel_set_fd_write_handler sel (int i) (Some False)
        | Some f \<Rightarrow> Inr (call f sel i (data (fds sel ! i))))"

definition dispatch_except :: "('h, 'd) fd_call \<Rightarrow> nat set \<Rightarrow> nat \<Rightarrow> ('h, 'd) selector \<Rightarrow> ('h, 'd) selector res" where
  "dispatch_except call st i sel =
     (if i \<notin> st then Inr sel
      else case handle_except (fds sel ! i) of
          None \<Rightarrow> sel_set_fd_except_handler sel (int i) (Some False)
        | Some f \<Rightarrow> Inr (call f sel i (data (fds sel ! i))))"

text \<open>The handlers may change \<^verbatim>\<open>maxfd\<close>, which is read in every round.\<close>

function dispatch ::
  "('h, 'd) fd_call \<Rightarrow> nat set \<Rightarrow> nat set \<Rightarrow> nat set \<Rightarrow> nat \<Rightarrow> ('h, 'd) selector \<Rightarrow> ('h, 'd) selector res" where
  "dispatch call r w e i sel =
     (if maxfd sel < int i then Inr sel
      else if FD_SETSIZE \<le> i then Inl Out_of_bounds
      else
        bind_res (dispatch_read call r i sel) (\<lambda>s1.
        bind_res (dispatch_write call w i s1) (\<lambda>s2.
        bind_res (dispatch_except call e i s2) (\<lambda>s3. dispatch call r w e (i + 1) s3))))"
  by pat_completeness auto
termination
  by (relation "measure (\<lambda>(call, r, w, e, i, sel). FD_SETSIZE - i)") auto

declare dispatch.simps [simp del]

text \<open>\<^verbatim>\<open>select\<close> is called with the sets, \<^verbatim>\<open>maxfd + 1\<close> and the time to wait.  \<open>None\<close> is
  the end of the program.\<close>

datatype select_result = Timed_out | Interrupted | Select_failed | Ready "nat set" "nat set" "nat set"

definition sel_select_step ::
  "('h, 'd) timer_call \<Rightarrow> ('h, 'd) fd_call \<Rightarrow> ('h \<Rightarrow> ('h, 'd) selector \<Rightarrow> ('h, 'd) selector) \<Rightarrow>
   (int \<Rightarrow> nat set \<Rightarrow> nat set \<Rightarrow> nat set \<Rightarrow> timeval option \<Rightarrow> select_result) \<Rightarrow> timeval list \<Rightarrow>
   ('h, 'd) selector \<Rightarrow> ('h, 'd) selector option res option" where
  "sel_select_step call_timer call_fd call_hup select nows sel =
     (case sel_timers call_timer sel nows of
        None \<Rightarrow> None
      | Some r \<Rightarrow> Some (bind_res r (\<lambda>(fired, wait, s1).
          let res = select (maxfd s1 + 1) (read_set s1) (write_set s1) (except_set s1) wait in
          bind_res
            (case res of
               Select_failed \<Rightarrow> Inr None
             | Ready rd wr ex \<Rightarrow> bind_res (dispatch call_fd rd wr ex 0 s1) (\<lambda>s. Inr (Some s))
             | _ \<Rightarrow> Inr (Some s1))
            (\<lambda>so. Inr (map_option (\<lambda>s2.
               if got_sighup s2 then
                 let s3 = s2\<lparr>got_sighup := False\<rparr> in
                 (case user_sighup_handler s3 of None \<Rightarrow> s3 | Some f \<Rightarrow> call_hup f s3)
               else s2) so)))))"

definition set_sighup_handler :: "('h, 'd) selector \<Rightarrow> 'h option \<Rightarrow> ('h, 'd) selector" where
  "set_sighup_handler sel hn = sel\<lparr>user_sighup_handler := hn\<rparr>"

definition sighup_handler :: "('h, 'd) selector \<Rightarrow> ('h, 'd) selector" where
  "sighup_handler sel = sel\<lparr>got_sighup := True\<rparr>"

end
