(* ===== verification/Selector_Heap.thy ===== *)
theory Selector_Heap
  imports Selector "HOL-Library.Multiset"
begin

text \<open>
  The timer heap of the event loop as a priority queue.  \<open>shaped h xs\<close>: the linked records
  form the complete binary tree whose timers in level order are the list \<open>xs\<close>; the
  operations on the pointers are shown to be the textbook operations on that list.
\<close>

section \<open>Exchanging parent and child\<close>

definition sw_left :: "('h, 'd, 'x) hp \<Rightarrow> ptr \<Rightarrow> ptr \<Rightarrow> ptr \<Rightarrow> ptr option" where
  "sw_left h e q x =
     (if x = e then (if left (timers h q) = Some e then Some q else left (timers h q))
      else if x = q then left (timers h e)
      else if up (timers h q) = Some x \<and> left (timers h x) = Some q then Some e
      else left (timers h x))"

definition sw_right :: "('h, 'd, 'x) hp \<Rightarrow> ptr \<Rightarrow> ptr \<Rightarrow> ptr \<Rightarrow> ptr option" where
  "sw_right h e q x =
     (if x = e then (if left (timers h q) = Some e then right (timers h q) else Some q)
      else if x = q then right (timers h e)
      else if up (timers h q) = Some x \<and> left (timers h x) \<noteq> Some q then Some e
      else right (timers h x))"

definition sw_up :: "('h, 'd, 'x) hp \<Rightarrow> ptr \<Rightarrow> ptr \<Rightarrow> ptr \<Rightarrow> ptr option" where
  "sw_up h e q x =
     (if x = e then up (timers h q)
      else if x = q then Some e
      else if left (timers h e) = Some x \<or> right (timers h e) = Some x then Some q
      else if left (timers h q) = Some x \<or> right (timers h q) = Some x then Some e
      else up (timers h x))"

text \<open>The heap after \<open>e\<close> has changed places with its parent \<open>q\<close>.\<close>

definition relink :: "('h, 'd, 'x) hp \<Rightarrow> ptr \<Rightarrow> ptr \<Rightarrow> ('h, 'd, 'x) hp" where
  "relink h e q = h\<lparr>timers := (\<lambda>x. (timers h x)\<lparr>left := sw_left h e q x, right := sw_right h e q x, up := sw_up h e q x\<rparr>),
     timer_top := (if up (timers h q) = None then Some e else timer_top h),
     timer_last := (if timer_last h = Some e then Some q else timer_last h)\<rparr>"

definition linked :: "('h, 'd, 'x) hp \<Rightarrow> ptr \<Rightarrow> ptr \<Rightarrow> bool" where
  "linked h e q \<longleftrightarrow> e \<noteq> q \<and> up (timers h q) \<notin> {Some e, Some q} \<and>
     left (timers h e) \<notin> {Some e, Some q} \<and> right (timers h e) \<notin> {Some e, Some q} \<and>
     (left (timers h q) = Some e \<and> right (timers h q) \<noteq> Some e \<or> left (timers h q) \<noteq> Some e \<and> right (timers h q) = Some e) \<and>
     left (timers h q) \<noteq> Some q \<and> right (timers h q) \<noteq> Some q \<and> up (timers h e) = Some q"

lemma upd_sel [simp]:
  "timers (upd t f h) x = (if x = t then f (timers h t) else timers h x)"
  "timer_top (upd t f h) = timer_top h" "timer_last (upd t f h) = timer_last h" "heap.more (upd t f h) = heap.more h"
  by (simp_all add: upd_def)

lemma set_up_sel [simp]:
  "left (timers (set_up p v h) x) = left (timers h x)" "right (timers (set_up p v h) x) = right (timers h x)"
  "up (timers (set_up p v h) x) = (if p = Some x then Some v else up (timers h x))"
  "timeout (timers (set_up p v h) x) = timeout (timers h x)" "handler (timers (set_up p v h) x) = handler (timers h x)"
  "user_data (timers (set_up p v h) x) = user_data (timers h x)" "in_heap (timers (set_up p v h) x) = in_heap (timers h x)"
  "sel_timer.more (timers (set_up p v h) x) = sel_timer.more (timers h x)"
  "timer_top (set_up p v h) = timer_top h" "timer_last (set_up p v h) = timer_last h" "heap.more (set_up p v h) = heap.more h"
  by (simp_all add: set_up_def split: option.split)

lemma replace_child_sel [simp]:
  "left (timers (replace_child u old new h) x) =
     (if u = Some x \<and> left (timers h x) = Some old then Some new else left (timers h x))"
  "right (timers (replace_child u old new h) x) =
     (if u = Some x \<and> left (timers h x) \<noteq> Some old then Some new else right (timers h x))"
  "up (timers (replace_child u old new h) x) = up (timers h x)"
  "timeout (timers (replace_child u old new h) x) = timeout (timers h x)"
  "handler (timers (replace_child u old new h) x) = handler (timers h x)"
  "user_data (timers (replace_child u old new h) x) = user_data (timers h x)"
  "in_heap (timers (replace_child u old new h) x) = in_heap (timers h x)"
  "sel_timer.more (timers (replace_child u old new h) x) = sel_timer.more (timers h x)"
  "timer_top (replace_child u old new h) = (if u = None then Some new else timer_top h)"
  "timer_last (replace_child u old new h) = timer_last h" "heap.more (replace_child u old new h) = heap.more h"
  by (auto simp: replace_child_def split: option.split)

lemma replace_last_sel [simp]:
  "timers (replace_last old new h) = timers h" "timer_top (replace_last old new h) = timer_top h"
  "timer_last (replace_last old new h) = (if timer_last h = Some old then Some new else timer_last h)"
  "heap.more (replace_last old new h) = heap.more h"
  by (simp_all add: replace_last_def)

lemma relink_sel [simp]:
  "timers (relink h e q) x = (timers h x)\<lparr>left := sw_left h e q x, right := sw_right h e q x, up := sw_up h e q x\<rparr>"
  "timer_top (relink h e q) = (if up (timers h q) = None then Some e else timer_top h)"
  "timer_last (relink h e q) = (if timer_last h = Some e then Some q else timer_last h)"
  "heap.more (relink h e q) = heap.more h"
  by (simp_all add: relink_def)

text \<open>Two heaps are the same when all fields of all timers are.\<close>

lemma heap_eqI:
  assumes "\<And>x. left (timers h x) = left (timers h' x)" and "\<And>x. right (timers h x) = right (timers h' x)"
    and "\<And>x. up (timers h x) = up (timers h' x)" and "\<And>x. timeout (timers h x) = timeout (timers h' x)"
    and "\<And>x. handler (timers h x) = handler (timers h' x)" and "\<And>x. user_data (timers h x) = user_data (timers h' x)"
    and "\<And>x. in_heap (timers h x) = in_heap (timers h' x)"
    and "timer_top h = timer_top h'" and "timer_last h = timer_last h'" and "heap.more h = heap.more h'"
  shows "h = h'"
  by (rule heap.equality, rule ext, rule sel_timer.equality) (simp_all add: assms)

lemma swap_up_relink:
  assumes "linked h e q"
  shows "swap_up h e q = relink h e q"
proof -
  from assms have l: "e \<noteq> q" "q \<noteq> e" "up (timers h q) \<noteq> Some e" "up (timers h q) \<noteq> Some q"
    "left (timers h e) \<noteq> Some e" "left (timers h e) \<noteq> Some q" "right (timers h e) \<noteq> Some e" "right (timers h e) \<noteq> Some q"
    "left (timers h q) \<noteq> Some q" "right (timers h q) \<noteq> Some q"
    by (auto simp: linked_def)
  have c: "left (timers h q) = Some e \<and> right (timers h q) \<noteq> Some e \<or> left (timers h q) \<noteq> Some e \<and> right (timers h q) = Some e"
    using assms by (simp add: linked_def)
  show ?thesis
  proof (cases "left (timers h q) = Some e")
    case True
    with c have r: "right (timers h q) \<noteq> Some e" by simp
    show ?thesis
      by (rule heap_eqI) (simp_all add: l True r swap_up_def Let_def sw_left_def sw_right_def sw_up_def)
  next
    case False
    with c have r: "right (timers h q) = Some e" by simp
    show ?thesis
      by (rule heap_eqI) (simp_all add: l False r swap_up_def Let_def sw_left_def sw_right_def sw_up_def)
  qed
qed

lemma linkedD:
  assumes "linked h e q"
  shows "e \<noteq> q" "q \<noteq> e" "up (timers h q) \<noteq> Some e" "up (timers h q) \<noteq> Some q"
    "left (timers h e) \<noteq> Some e" "left (timers h e) \<noteq> Some q" "right (timers h e) \<noteq> Some e" "right (timers h e) \<noteq> Some q"
    "left (timers h q) \<noteq> Some q" "right (timers h q) \<noteq> Some q"
  using assms by (auto simp: linked_def)

lemma swap_down_right_relink:
  assumes "linked h e q" and "right (timers h q) = Some e"
  shows "swap_down_right h q e = relink h e q"
proof -
  have "left (timers h q) \<noteq> Some e" using assms by (auto simp: linked_def)
  then show ?thesis
    by (intro heap_eqI) (auto simp: linkedD [OF assms(1)] assms(2) swap_down_right_def Let_def sw_left_def sw_right_def sw_up_def)
qed

lemma swap_down_left_relink:
  assumes "linked h e q" and "left (timers h q) = Some e"
  shows "swap_down_left h q e = relink h e q"
proof -
  have "right (timers h q) \<noteq> Some e" using assms by (auto simp: linked_def)
  then show ?thesis
    by (intro heap_eqI) (auto simp: linkedD [OF assms(1)] assms(2) swap_down_left_def Let_def sw_left_def sw_right_def sw_up_def)
qed

section \<open>The shape of the heap\<close>

definition nth_ptr :: "ptr list \<Rightarrow> nat \<Rightarrow> ptr option" where
  "nth_ptr xs k = (if k < length xs then Some (xs ! k) else None)"

definition shaped :: "('h, 'd, 'x) hp \<Rightarrow> ptr list \<Rightarrow> bool" where
  "shaped h xs \<longleftrightarrow> distinct xs \<and> timer_top h = nth_ptr xs 0 \<and>
     timer_last h = (if xs = [] then None else Some (last xs)) \<and>
     (\<forall>k < length xs. left (timers h (xs ! k)) = nth_ptr xs (2 * k + 1) \<and>
        right (timers h (xs ! k)) = nth_ptr xs (2 * k + 2) \<and>
        up (timers h (xs ! k)) = (if k = 0 then None else Some (xs ! ((k - 1) div 2))))"

lemma shapedD:
  assumes "shaped h xs" and "k < length xs"
  shows "left (timers h (xs ! k)) = nth_ptr xs (2 * k + 1)" "right (timers h (xs ! k)) = nth_ptr xs (2 * k + 2)"
    "up (timers h (xs ! k)) = (if k = 0 then None else Some (xs ! ((k - 1) div 2)))"
  using assms by (simp_all add: shaped_def)

lemma nth_ptr_eq: "distinct xs \<Longrightarrow> k < length xs \<Longrightarrow> nth_ptr xs a = Some (xs ! k) \<longleftrightarrow> a = k"
  by (auto simp: nth_ptr_def nth_eq_iff_index_eq)

definition swap :: "nat \<Rightarrow> nat \<Rightarrow> 'a list \<Rightarrow> 'a list" where
  "swap i j xs = xs[i := xs ! j, j := xs ! i]"

lemma length_swap [simp]: "length (swap i j xs) = length xs"
  by (simp add: swap_def)

lemma nth_swap: "i < length xs \<Longrightarrow> j < length xs \<Longrightarrow> k < length xs \<Longrightarrow>
  swap i j xs ! k = (if k = j then xs ! i else if k = i then xs ! j else xs ! k)"
  by (simp add: swap_def nth_list_update)

lemma mset_swap [simp]: "i < length xs \<Longrightarrow> j < length xs \<Longrightarrow> mset (swap i j xs) = mset xs"
  by (simp add: swap_def Multiset.mset_swap)

lemma set_swap [simp]: "i < length xs \<Longrightarrow> j < length xs \<Longrightarrow> set (swap i j xs) = set xs"
  by (metis mset_eq_setD mset_swap)

lemma distinct_swap [simp]: "i < length xs \<Longrightarrow> j < length xs \<Longrightarrow> distinct (swap i j xs) = distinct xs"
  by (simp add: swap_def)

lemma nth_ptr_swap: "i < length xs \<Longrightarrow> j < length xs \<Longrightarrow>
  nth_ptr (swap i j xs) k = (if k = j then Some (xs ! i) else if k = i then Some (xs ! j) else nth_ptr xs k)"
  by (simp add: nth_ptr_def nth_swap)

lemma shaped_linked:
  assumes "shaped h xs" and "0 < i" and "i < length xs" and "p = (i - 1) div 2"
  shows "linked h (xs ! i) (xs ! p)"
proof -
  have d: "distinct xs" using assms(1) by (simp add: shaped_def)
  have p: "p < i" "p < length xs" "i = 2 * p + 1 \<or> i = 2 * p + 2" using assms by auto
  have "(p - 1) div 2 < i" "p \<noteq> 0 \<Longrightarrow> (p - 1) div 2 < p" using p by auto
  then show ?thesis
    using shapedD [OF assms(1,3)] shapedD [OF assms(1) p(2)] p assms(2-4) d
    by (auto simp: linked_def nth_ptr_eq nth_eq_iff_index_eq)
qed

lemma shaped_relink:
  assumes sh: "shaped h xs" and i: "0 < i" "i < length xs" and p_def: "p = (i - 1) div 2"
  shows "shaped (relink h (xs ! i) (xs ! p)) (swap p i xs)"
proof -
  have d: "distinct xs" using sh by (simp add: shaped_def)
  have p: "p < i" "p < length xs" "i = 2 * p + 1 \<or> i = 2 * p + 2" using i p_def by auto
  let ?h = "relink h (xs ! i) (xs ! p)" and ?ys = "swap p i xs"
  note e = shapedD [OF sh i(2)] and q = shapedD [OF sh p(2)]
  have "left (timers ?h (?ys ! k)) = nth_ptr ?ys (2 * k + 1) \<and>
        right (timers ?h (?ys ! k)) = nth_ptr ?ys (2 * k + 2) \<and>
        up (timers ?h (?ys ! k)) = (if k = 0 then None else Some (?ys ! ((k - 1) div 2)))" if k: "k < length xs" for k
  proof -
    note kk = shapedD [OF sh k]
    have upq: "up (timers h (xs ! p)) = Some (xs ! k) \<longleftrightarrow> p \<noteq> 0 \<and> (p - 1) div 2 = k"
      using q p k by (auto simp: nth_eq_iff_index_eq [OF d])
    have ne: "xs ! p \<noteq> xs ! i" "xs ! i \<noteq> xs ! p" using p i by (auto simp: nth_eq_iff_index_eq [OF d])
    note np = nth_ptr_eq [OF d k] nth_ptr_eq [OF d i(2)] nth_ptr_eq [OF d p(2)]
    note sw = sw_left_def sw_right_def sw_up_def
    note sel = e q kk ne np nth_ptr_swap [OF p(2) i(2)] nth_swap [OF p(2) i(2)]
    consider "k = p" | "k = i" | "k \<noteq> p" "k \<noteq> i" by blast
    then show ?thesis
    proof cases
      case 1
      have y: "?ys ! p = xs ! i" using p i by (simp add: nth_swap)
      have ar: "2 * p + 1 \<noteq> p" "2 * p + 2 \<noteq> p" "2 * p + 1 = i \<longleftrightarrow> 2 * p + 2 \<noteq> i" "(p - 1) div 2 \<noteq> i" "p \<noteq> 0 \<Longrightarrow> (p - 1) div 2 \<noteq> p"
        using p by auto
      have pl: "(p - 1) div 2 < length xs" using p by auto
      show ?thesis unfolding 1 y
        by (simp add: sw sel ar pl del: One_nat_def)
    next
      case 2
      have y: "?ys ! i = xs ! p" using p i by (simp add: nth_swap)
      have ar: "2 * i + 1 \<noteq> p" "2 * i + 2 \<noteq> p" "2 * i + 1 \<noteq> i" "2 * i + 2 \<noteq> i" "i \<noteq> 0"
        using p(1) by simp_all
      have yp: "?ys ! ((i - 1) div 2) = xs ! i"
        using p(1) unfolding p_def [symmetric] by (simp add: nth_swap [OF p(2) i(2) p(2)])
      show ?thesis unfolding 2 y
        using ar by (simp add: sw sel yp del: One_nat_def)
    next
      case 3
      have y: "?ys ! k = xs ! k" using 3 p i k by (simp add: nth_swap)
      have ne': "xs ! k \<noteq> xs ! i" "xs ! k \<noteq> xs ! p" using 3 p i k by (simp_all add: nth_eq_iff_index_eq [OF d])
      have l: "nth_ptr ?ys (2 * k + 1) = (if p \<noteq> 0 \<and> (p - 1) div 2 = k \<and> 2 * k + 1 = p then Some (xs ! i) else nth_ptr xs (2 * k + 1))"
        using 3 p by (auto simp: nth_ptr_swap [OF p(2) i(2)])
      have r: "nth_ptr ?ys (2 * k + 2) = (if p \<noteq> 0 \<and> (p - 1) div 2 = k \<and> 2 * k + 1 \<noteq> p then Some (xs ! i) else nth_ptr xs (2 * k + 2))"
        using 3 p by (auto simp: nth_ptr_swap [OF p(2) i(2)])
      have u: "(if k = 0 then None else Some (?ys ! ((k - 1) div 2))) =
          (if 2 * i + 1 = k \<or> 2 * i + 2 = k then Some (xs ! p)
           else if 2 * p + 1 = k \<or> 2 * p + 2 = k then Some (xs ! i)
           else if k = 0 then None else Some (xs ! ((k - 1) div 2)))"
      proof (cases "k = 0")
        case False
        then have "(k - 1) div 2 < length xs" "(k - 1) div 2 = i \<longleftrightarrow> 2 * i + 1 = k \<or> 2 * i + 2 = k"
          "(k - 1) div 2 = p \<longleftrightarrow> 2 * p + 1 = k \<or> 2 * p + 2 = k" using k by auto
        with False p show ?thesis by (auto simp: nth_swap [OF p(2) i(2)])
      qed auto
      have up': "up (timers h (xs ! p)) = Some (xs ! k) \<longleftrightarrow> p \<noteq> 0 \<and> (p - 1) div 2 = k" by (rule upq)
      show ?thesis unfolding y l r u
        by (simp add: sw kk ne' np up' e(1,2) q(1,2) del: One_nat_def q(3))
    qed
  qed
  moreover have "timer_top ?h = nth_ptr ?ys 0"
    using sh i p q by (auto simp: shaped_def nth_ptr_def nth_swap)
  moreover have "timer_last ?h = (if ?ys = [] then None else Some (last ?ys))"
  proof -
    have "xs \<noteq> []" "?ys \<noteq> []" using i by (auto simp: swap_def)
    moreover have "last xs = xs ! i \<longleftrightarrow> i = length xs - 1" using d i \<open>xs \<noteq> []\<close> by (auto simp: last_conv_nth nth_eq_iff_index_eq)
    ultimately show ?thesis using sh i p by (auto simp: shaped_def last_conv_nth nth_swap)
  qed
  ultimately show ?thesis using d i p by (simp add: shaped_def)
qed

section \<open>Walking to the next and the previous position\<close>

lemma shaped_side:
  assumes "shaped h xs" and "i < length xs"
  shows "is_left h (xs ! i) \<longleftrightarrow> odd i" and "is_right h (xs ! i) \<longleftrightarrow> 0 < i \<and> even i"
proof -
  have d: "distinct xs" using assms(1) by (simp add: shaped_def)
  have p: "(i - 1) div 2 < length xs" using assms(2) by simp
  have *: "0 < i \<Longrightarrow> 2 * ((i - 1) div 2) + 1 = i \<longleftrightarrow> odd i" "0 < i \<Longrightarrow> 2 * ((i - 1) div 2) + 2 = i \<longleftrightarrow> even i"
    by presburger+
  show "is_left h (xs ! i) \<longleftrightarrow> odd i"
    using * shapedD [OF assms] shapedD [OF assms(1) p] nth_ptr_eq [OF d assms(2)] by (auto simp: is_left_def split: if_splits)
  show "is_right h (xs ! i) \<longleftrightarrow> 0 < i \<and> even i"
    using * shapedD [OF assms] shapedD [OF assms(1) p] nth_ptr_eq [OF d assms(2)] by (auto simp: is_right_def split: if_splits)
qed

lemma climb_right:
  "shaped h xs \<Longrightarrow> i < length xs \<Longrightarrow> u + i < 2 ^ 32 \<Longrightarrow>
   \<exists>c t. climb is_right h (xs ! i) u = Some (xs ! c, u + t) \<and> i + 2 = 2 ^ t * (c + 2) \<and> (c = 0 \<or> odd c) \<and> c \<le> i"
proof (induction i arbitrary: u rule: less_induct)
  case (less i)
  show ?case
  proof (cases "0 < i \<and> even i")
    case True
    define p where "p = (i - 1) div 2"
    have p: "i = 2 * p + 2" "p < i" "p < length xs" "(u + 1) + p < 2 ^ 32" using True less.prems(2,3) by (auto simp: p_def elim: evenE)
    from less.IH [OF p(2) less.prems(1) p(3,4)] obtain c t where
      c: "climb is_right h (xs ! p) (u + 1) = Some (xs ! c, u + 1 + t)" "p + 2 = 2 ^ t * (c + 2)" "c = 0 \<or> odd c" "c \<le> p" by blast
    have "climb is_right h (xs ! i) u = climb is_right h (xs ! p) (u + 1)"
      using True less.prems shapedD(3) [OF less.prems(1,2)] shaped_side(2) [OF less.prems(1,2)]
      by (simp add: climb.simps [of is_right h "xs ! i"] p_def)
    with c p show ?thesis by (intro exI [of _ c] exI [of _ "Suc t"]) simp
  next
    case False
    then have "climb is_right h (xs ! i) u = Some (xs ! i, u)"
      using shaped_side(2) [OF less.prems(1,2)] by (auto simp: climb.simps [of is_right h "xs ! i"])
    with False show ?thesis by (intro exI [of _ i] exI [of _ 0]) auto
  qed
qed

lemma climb_left:
  "shaped h xs \<Longrightarrow> i < length xs \<Longrightarrow> u + i < 2 ^ 32 \<Longrightarrow>
   \<exists>c t. climb is_left h (xs ! i) u = Some (xs ! c, u + t) \<and> i + 1 = 2 ^ t * (c + 1) \<and> even c \<and> c \<le> i"
proof (induction i arbitrary: u rule: less_induct)
  case (less i)
  show ?case
  proof (cases "odd i")
    case True
    define p where "p = (i - 1) div 2"
    have p: "i = 2 * p + 1" "p < i" "p < length xs" "(u + 1) + p < 2 ^ 32" using True less.prems(2,3) by (auto simp: p_def elim: oddE)
    from less.IH [OF p(2) less.prems(1) p(3,4)] obtain c t where
      c: "climb is_left h (xs ! p) (u + 1) = Some (xs ! c, u + 1 + t)" "p + 1 = 2 ^ t * (c + 1)" "even c" "c \<le> p" by blast
    have "climb is_left h (xs ! i) u = climb is_left h (xs ! p) (u + 1)"
      using True less.prems shapedD(3) [OF less.prems(1,2)] shaped_side(1) [OF less.prems(1,2)]
      by (simp add: climb.simps [of is_left h "xs ! i"] p_def) (auto elim: oddE)
    with c p show ?thesis by (intro exI [of _ c] exI [of _ "Suc t"]) simp
  next
    case False
    then have "climb is_left h (xs ! i) u = Some (xs ! i, u)"
      using shaped_side(1) [OF less.prems(1,2)] by (simp add: climb.simps [of is_left h "xs ! i"])
    with False show ?thesis by (intro exI [of _ i] exI [of _ 0]) auto
  qed
qed

lemma descend_left:
  "shaped h xs \<Longrightarrow> (c + 1) * 2 ^ n - 1 < length xs \<Longrightarrow>
   descend left h (Some (xs ! c)) n = Inr (Some (xs ! ((c + 1) * 2 ^ n - 1)))"
proof (induction n arbitrary: c)
  case (Suc n)
  have e: "(2 * c + 1 + 1) * 2 ^ n = (c + 1) * 2 ^ Suc n" by simp
  have "1 \<le> (2 :: nat) ^ n" by simp
  then have "2 * c + 1 + 1 \<le> (2 * c + 1 + 1) * 2 ^ n" by (metis mult.right_neutral mult_le_mono2)
  then have "2 * c + 1 < length xs" using Suc.prems(2) unfolding e by linarith
  with Suc.IH [OF Suc.prems(1), of "2 * c + 1"] Suc.prems shapedD(1) [OF Suc.prems(1), of c] show ?case
    unfolding e by (simp add: nth_ptr_def)
qed simp

lemma descend_right:
  "shaped h xs \<Longrightarrow> (c + 2) * 2 ^ n - 2 < length xs \<Longrightarrow>
   descend right h (Some (xs ! c)) n = Inr (Some (xs ! ((c + 2) * 2 ^ n - 2)))"
proof (induction n arbitrary: c)
  case (Suc n)
  have e: "(2 * c + 2 + 2) * 2 ^ n = (c + 2) * 2 ^ Suc n" by simp
  have "1 \<le> (2 :: nat) ^ n" by simp
  then have "2 * c + 2 + 2 \<le> (2 * c + 2 + 2) * 2 ^ n" by (metis mult.right_neutral mult_le_mono2)
  then have "2 * c + 2 < length xs" using Suc.prems(2) unfolding e by linarith
  with Suc.IH [OF Suc.prems(1), of "2 * c + 2"] Suc.prems shapedD(2) [OF Suc.prems(1), of c] show ?case
    unfolding e by (simp add: nth_ptr_def)
qed simp

lemma find_next_pos_shaped:
  assumes sh: "shaped h xs" and "xs \<noteq> []" and "length xs < 2 ^ 32"
  shows "find_next_pos h (last xs) = Some (Inr (xs ! ((length xs - 1) div 2), odd (length xs)))"
proof -
  let ?n = "length xs" and ?i = "length xs - 1"
  have i: "?i < ?n" "last xs = xs ! ?i" using assms(2) by (simp_all add: last_conv_nth)
  show ?thesis
  proof (cases "odd ?i")
    case True
    then have "even ?n" using assms(2) by simp
    moreover have "(?i - 1) div 2 = ?i div 2" "0 < ?i" using True by presburger+
    ultimately show ?thesis
      using True i shaped_side(1) [OF sh i(1)] shapedD(3) [OF sh i(1)] by (auto simp: find_next_pos_def)
  next
    case False
    then have n: "odd ?n" using assms(2) by simp
    have u: "0 + ?i < 2 ^ 32" using assms(3) i(1) by linarith
    obtain c t where c: "climb is_right h (xs ! ?i) 0 = Some (xs ! c, 0 + t)" "?i + 2 = 2 ^ t * (c + 2)" "c = 0 \<or> odd c" "c \<le> ?i"
      using climb_right [OF sh i(1) u] by blast
    have cl: "c < ?n" using c(4) i(1) by linarith
    have half: "?i div 2 < ?n" using i(1) by simp
    have "\<exists>r. bind_res
        (case up (timers h (xs ! c)) of
           Some p \<Rightarrow> descend left h (right (timers h p)) (dec_unsigned t) | None \<Rightarrow> descend left h (Some (xs ! c)) t)
        (\<lambda>r. case r of None \<Rightarrow> Inl Null_pointer | Some t \<Rightarrow> Inr (t, True)) = Inr (xs ! (?i div 2), True)"
    proof (cases "c = 0")
      case True
      then have e: "(c + 1) * 2 ^ t - 1 = ?i div 2" using c(2) by simp
      have "descend left h (Some (xs ! c)) t = Inr (Some (xs ! (?i div 2)))"
        using descend_left [OF sh, of c t] half unfolding e by blast
      with True shapedD(3) [OF sh cl] show ?thesis by simp
    next
      case c0: False
      with c(3) have odd: "odd c" by simp
      have "t \<noteq> 0"
      proof
        assume "t = 0"
        then have "?i = c" using c(2) by simp
        with odd have "odd ?i" by metis
        with False show False ..
      qed
      then obtain t' where t: "t = Suc t'" by (cases t) auto
      have x: "?i + 2 = 2 * ((c + 1 + 1) * 2 ^ t')" using c(2) t by (simp add: mult.commute)
      then have e: "(c + 1 + 1) * 2 ^ t' - 1 = ?i div 2" by presburger
      have "1 \<le> (2 :: nat) ^ t'" by simp
      then have "c + 2 \<le> (c + 2) * 2 ^ t'" by (metis mult.right_neutral mult_le_mono2)
      then have c1: "c + 1 < ?n" using x by simp
      let ?p = "(c - 1) div 2"
      have p: "?p < ?n" "2 * ?p + 2 = c + 1" using cl odd by (auto elim: oddE)
      have "right (timers h (xs ! ?p)) = Some (xs ! (c + 1))"
        using shapedD(2) [OF sh p(1)] c1 unfolding p(2) by (simp add: nth_ptr_def)
      moreover have "descend left h (Some (xs ! (c + 1))) t' = Inr (Some (xs ! (?i div 2)))"
        using descend_left [OF sh, of "c + 1" t'] half unfolding e by blast
      ultimately show ?thesis using c0 shapedD(3) [OF sh cl] t by (simp add: dec_unsigned_def)
    qed
    with False c(1) n i shaped_side(1) [OF sh i(1)] show ?thesis by (simp add: find_next_pos_def)
  qed
qed

lemma find_prev_elem_shaped:
  assumes sh: "shaped h xs" and "2 \<le> length xs" and "length xs < 2 ^ 32"
  shows "find_prev_elem h (last xs) = Some (Inr (Some (xs ! (length xs - 2))))"
proof -
  let ?n = "length xs" and ?i = "length xs - 1"
  have "xs \<noteq> []" using assms(2) by auto
  then have i: "?i < ?n" "last xs = xs ! ?i" "0 < ?i" using assms(2) by (auto simp: last_conv_nth)
  show ?thesis
  proof (cases "odd ?i")
    case False
    have p: "(?i - 1) div 2 < ?n" using i by simp
    have p2: "2 * ((?i - 1) div 2) + 1 = ?n - 2" using False i(3) by presburger
    have "left (timers h (xs ! ((?i - 1) div 2))) = Some (xs ! (?n - 2))"
      using shapedD(1) [OF sh p] i unfolding p2 by (simp add: nth_ptr_def)
    with False i shaped_side(2) [OF sh i(1)] shapedD(3) [OF sh i(1)] show ?thesis by (simp add: find_prev_elem_def)
  next
    case True
    have u: "0 + ?i < 2 ^ 32" using assms(3) i(1) by linarith
    obtain c t where c: "climb is_left h (xs ! ?i) 0 = Some (xs ! c, 0 + t)" "?i + 1 = 2 ^ t * (c + 1)" "even c" "c \<le> ?i"
      using climb_left [OF sh i(1) u] by blast
    have cl: "c < ?n" using c(4) i(1) by linarith
    have le: "?n - 2 < ?n" using i by simp
    have "(case up (timers h (xs ! c)) of
           Some p \<Rightarrow> descend right h (left (timers h p)) t | None \<Rightarrow> descend right h (Some (xs ! c)) (dec_unsigned t)) =
        Inr (Some (xs ! (?n - 2)))"
    proof (cases "c = 0")
      case c0: True
      then have "t \<noteq> 0" using c(2) i(3) by (cases t) auto
      then obtain t' where t: "t = Suc t'" by (cases t) auto
      have e: "(c + 2) * 2 ^ t' - 2 = ?n - 2" using c(2) c0 t i by simp
      have "descend right h (Some (xs ! c)) t' = Inr (Some (xs ! (?n - 2)))"
        using descend_right [OF sh, of c t'] le unfolding e by blast
      with c0 shapedD(3) [OF sh cl] t show ?thesis by (simp add: dec_unsigned_def)
    next
      case c0: False
      let ?p = "(c - 1) div 2"
      have p: "?p < ?n" "2 * ?p + 1 = c - 1" using cl c0 c(3) by (auto elim!: evenE)
      have e: "(c - 1 + 2) * 2 ^ t - 2 = ?n - 2" using c(2) c0 i by (simp add: mult.commute)
      have "left (timers h (xs ! ?p)) = Some (xs ! (c - 1))"
        using shapedD(1) [OF sh p(1)] cl unfolding p(2) by (simp add: nth_ptr_def)
      moreover have "descend right h (Some (xs ! (c - 1))) t = Inr (Some (xs ! (?n - 2)))"
        using descend_right [OF sh, of "c - 1" t] le unfolding e by blast
      ultimately show ?thesis using c0 shapedD(3) [OF sh cl] by simp
    qed
    with True c(1) i shaped_side(2) [OF sh i(1)] show ?thesis by (simp add: find_prev_elem_def)
  qed
qed

end
