(* ===== verification/Selector_Queue.thy ===== *)
theory Selector_Queue
  imports Selector_Heap
begin

text \<open>
  The timer heap as a priority queue: the order of times, the two loops that move a timer to
  its place as functions on the level order (\<open>sift_up\<close>, \<open>sift_down\<close>), and the contract of
  \<open>add_to_heap\<close> and \<open>remove_from_heap\<close>.  The contract is the locale \<open>priority_queue\<close>;
  what follows from it about timers that are due is proved there and used for the event
  loop in \<open>Selector_Loop\<close>.
\<close>

section \<open>The order of times\<close>

instantiation timeval :: linorder
begin

definition less_timeval :: "timeval \<Rightarrow> timeval \<Rightarrow> bool" where
  "less_timeval a b \<longleftrightarrow> tv_sec a < tv_sec b \<or> tv_sec a = tv_sec b \<and> tv_usec a < tv_usec b"

definition less_eq_timeval :: "timeval \<Rightarrow> timeval \<Rightarrow> bool" where
  "less_eq_timeval a b \<longleftrightarrow> tv_sec a < tv_sec b \<or> tv_sec a = tv_sec b \<and> tv_usec a \<le> tv_usec b"

instance
  by standard (auto simp: less_timeval_def less_eq_timeval_def timeval.expand)

end

lemma cmp_timeval [simp]:
  "cmp_timeval a b < 0 \<longleftrightarrow> a < b" "cmp_timeval a b > 0 \<longleftrightarrow> b < a" "cmp_timeval a b \<ge> 0 \<longleftrightarrow> b \<le> a"
  by (auto simp: cmp_timeval_def less_timeval_def less_eq_timeval_def)

section \<open>Moving a timer to its place\<close>

fun sift_up :: "(ptr \<Rightarrow> timeval) \<Rightarrow> ptr list \<Rightarrow> nat \<Rightarrow> ptr list" where
  "sift_up key xs i =
     (if i = 0 then xs
      else if key (xs ! i) < key (xs ! ((i - 1) div 2)) then sift_up key (swap ((i - 1) div 2) i xs) ((i - 1) div 2)
      else xs)"

function sift_down :: "(ptr \<Rightarrow> timeval) \<Rightarrow> ptr list \<Rightarrow> nat \<Rightarrow> ptr list" where
  "sift_down key xs i =
     (let l = 2 * i + 1; r = 2 * i + 2; n = length xs in
      if n \<le> l then xs
      else if r < n \<and> key (xs ! r) < key (xs ! l) then
        (if key (xs ! r) < key (xs ! i) then sift_down key (swap i r xs) r else xs)
      else if key (xs ! l) < key (xs ! i) then sift_down key (swap i l xs) l
      else xs)"
  by pat_completeness auto
termination
  by (relation "measure (\<lambda>(key, xs, i). length xs - i)") auto

declare sift_up.simps [simp del] sift_down.simps [simp del]

text \<open>The operations change links only.\<close>

definition same_data :: "('h, 'd, 'x) hp \<Rightarrow> ('h, 'd, 'x) hp \<Rightarrow> bool" where
  "same_data h h' \<longleftrightarrow> (\<forall>x. timeout (timers h' x) = timeout (timers h x) \<and> handler (timers h' x) = handler (timers h x) \<and>
     user_data (timers h' x) = user_data (timers h x) \<and> in_heap (timers h' x) = in_heap (timers h x)) \<and>
     heap.more h' = heap.more h"

abbreviation key :: "('h, 'd, 'x) hp \<Rightarrow> ptr \<Rightarrow> timeval" where
  "key h x \<equiv> timeout (timers h x)"

lemma same_data_refl [simp]: "same_data h h"
  by (simp add: same_data_def)

lemma same_data_trans [trans]: "same_data h h' \<Longrightarrow> same_data h' h'' \<Longrightarrow> same_data h h''"
  by (simp add: same_data_def)

lemma same_data_relink [simp]: "same_data h (relink h e q)"
  by (simp add: same_data_def)

lemma same_data_key: "same_data h h' \<Longrightarrow> key h' = key h"
  by (rule ext) (simp add: same_data_def)

lemma send_up_sift:
  "shaped h xs \<Longrightarrow> i < length xs \<Longrightarrow>
   \<exists>h'. send_up h (xs ! i) = Some h' \<and> shaped h' (sift_up (key h) xs i) \<and> same_data h h'"
proof (induction i arbitrary: h xs rule: less_induct)
  case (less i)
  let ?p = "(i - 1) div 2"
  note u = shapedD(3) [OF less.prems]
  show ?case
  proof (cases "i \<noteq> 0 \<and> key h (xs ! i) < key h (xs ! ?p)")
    case True
    then have p: "?p < i" "?p < length xs" "0 < i" using less.prems(2) by auto
    let ?h = "relink h (xs ! i) (xs ! ?p)" and ?ys = "swap ?p i xs"
    have link: "swap_up h (xs ! i) (xs ! ?p) = ?h"
      by (rule swap_up_relink [OF shaped_linked [OF less.prems(1) p(3) less.prems(2) refl]])
    have sh: "shaped ?h ?ys" by (rule shaped_relink [OF less.prems(1) p(3) less.prems(2) refl])
    have y: "?ys ! ?p = xs ! i" using p less.prems(2) by (simp add: nth_swap)
    obtain h' where h': "send_up ?h (?ys ! ?p) = Some h'" "shaped h' (sift_up (key ?h) ?ys ?p)" "same_data ?h h'"
      using less.IH [OF p(1) sh] p by auto
    have "send_up h (xs ! i) = Some h'"
      using u True link h'(1) y by (simp add: send_up.simps [of h "xs ! i"])
    moreover have "sift_up (key ?h) ?ys ?p = sift_up (key h) xs i"
      using True by (simp add: sift_up.simps [of _ xs i])
    moreover have "same_data h h'" using same_data_trans [OF same_data_relink h'(3)] .
    ultimately show ?thesis using h'(2) by auto
  next
    case False
    then have "send_up h (xs ! i) = Some h" using u by (auto simp: send_up.simps [of h "xs ! i"])
    with False less.prems show ?thesis by (auto simp: sift_up.simps [of _ xs i])
  qed
qed

lemma send_down_sift:
  "shaped h xs \<Longrightarrow> i < length xs \<Longrightarrow>
   \<exists>h'. send_down h (xs ! i) = Some h' \<and> shaped h' (sift_down (key h) xs i) \<and> same_data h h'"
proof (induction "length xs - i" arbitrary: h xs i rule: less_induct)
  case less
  let ?l = "2 * i + 1" and ?r = "2 * i + 2" and ?n = "length xs"
  note lr = shapedD(1,2) [OF less.prems]
  have step: "\<exists>h'. send_down (relink h (xs ! c) (xs ! i)) (xs ! i) = Some h' \<and>
      shaped h' (sift_down (key h) (swap i c xs) c) \<and> same_data h h'"
    if c: "c = ?l \<or> c = ?r" "c < ?n" for c
  proof -
    have ci: "0 < c" "i < c" "i = (c - 1) div 2" using c(1) by auto
    let ?h = "relink h (xs ! c) (xs ! i)"
    have sh: "shaped ?h (swap i c xs)" by (rule shaped_relink [OF less.prems(1) ci(1) c(2) ci(3)])
    have y: "swap i c xs ! c = xs ! i" using c ci less.prems(2) by (simp add: nth_swap)
    have "length (swap i c xs) - c < length xs - i" using c(2) ci(2) less.prems(2) by simp
    from less.hyps [OF this sh] c(2) obtain h' where "send_down ?h (xs ! i) = Some h'"
      "shaped h' (sift_down (key ?h) (swap i c xs) c)" "same_data ?h h'" unfolding y by auto
    then show ?thesis using same_data_trans [OF same_data_relink] by (auto simp: same_data_key)
  qed
  have link: "linked h (xs ! c) (xs ! i)" if c: "c = ?l \<or> c = ?r" "c < ?n" for c
    by (rule shaped_linked [OF less.prems(1)]) (use c in auto)
  show ?case
  proof (cases "?n \<le> ?l")
    case True
    then have "send_down h (xs ! i) = Some h" using lr by (simp add: send_down.simps [of h "xs ! i"] nth_ptr_def)
    with True less.prems show ?thesis by (simp add: sift_down.simps [of _ xs i] Let_def)
  next
    case False
    then have l: "left (timers h (xs ! i)) = Some (xs ! ?l)" using lr by (simp add: nth_ptr_def)
    note unf = send_down.simps [of h "xs ! i"] sift_down.simps [of _ xs i] Let_def
    show ?thesis
    proof (cases "?r < ?n \<and> key h (xs ! ?r) < key h (xs ! ?l)")
      case True
      then have r: "right (timers h (xs ! i)) = Some (xs ! ?r)" using lr by (simp add: nth_ptr_def)
      then show ?thesis
        using step [of ?r] swap_down_right_relink [OF link [of ?r]] True False l less.prems by (simp add: unf)
    next
      case r: False
      have "send_down h (xs ! i) = (if key h (xs ! ?l) < key h (xs ! i) then send_down (swap_down_left h (xs ! i) (xs ! ?l)) (xs ! i) else Some h)"
        using r l lr by (auto simp: send_down.simps [of h "xs ! i"] nth_ptr_def Let_def split: option.splits)
      moreover have "sift_down (key h) xs i = (if key h (xs ! ?l) < key h (xs ! i) then sift_down (key h) (swap i ?l xs) ?l else xs)"
        using False r by (auto simp: sift_down.simps [of _ xs i] Let_def)
      ultimately show ?thesis
        using step [of ?l] swap_down_left_relink [OF link [of ?l]] False l less.prems by simp
    qed
  qed
qed

section \<open>The order of the heap\<close>

definition heap_ord :: "(ptr \<Rightarrow> timeval) \<Rightarrow> ptr list \<Rightarrow> bool" where
  "heap_ord ky xs \<longleftrightarrow> (\<forall>j. 0 < j \<and> j < length xs \<longrightarrow> ky (xs ! ((j - 1) div 2)) \<le> ky (xs ! j))"

text \<open>All in order except between \<open>i\<close> and its parent, or its children.\<close>

definition ord_but_up :: "(ptr \<Rightarrow> timeval) \<Rightarrow> ptr list \<Rightarrow> nat \<Rightarrow> bool" where
  "ord_but_up ky xs i \<longleftrightarrow>
     (\<forall>j. 0 < j \<and> j < length xs \<and> j \<noteq> i \<longrightarrow> ky (xs ! ((j - 1) div 2)) \<le> ky (xs ! j)) \<and>
     (\<forall>j. 0 < i \<and> 0 < j \<and> j < length xs \<and> (j - 1) div 2 = i \<longrightarrow> ky (xs ! ((i - 1) div 2)) \<le> ky (xs ! j))"

definition ord_but_down :: "(ptr \<Rightarrow> timeval) \<Rightarrow> ptr list \<Rightarrow> nat \<Rightarrow> bool" where
  "ord_but_down ky xs i \<longleftrightarrow>
     (\<forall>j. 0 < j \<and> j < length xs \<and> (j - 1) div 2 \<noteq> i \<longrightarrow> ky (xs ! ((j - 1) div 2)) \<le> ky (xs ! j)) \<and>
     (\<forall>j. 0 < i \<and> 0 < j \<and> j < length xs \<and> (j - 1) div 2 = i \<longrightarrow> ky (xs ! ((i - 1) div 2)) \<le> ky (xs ! j))"

lemma sift_up_ord:
  "i < length xs \<Longrightarrow> ord_but_up ky xs i \<Longrightarrow> heap_ord ky (sift_up ky xs i) \<and> mset (sift_up ky xs i) = mset xs"
proof (induction ky xs i rule: sift_up.induct)
  case (1 ky xs i)
  let ?p = "(i - 1) div 2"
  show ?case
  proof (cases "i \<noteq> 0 \<and> ky (xs ! i) < ky (xs ! ?p)")
    case True
    let ?ys = "swap ?p i xs"
    have p: "?p < i" "?p < length xs" using True "1.prems"(1) by auto
    have y: "?ys ! k = (if k = i then xs ! ?p else if k = ?p then xs ! i else xs ! k)" if "k < length xs" for k
      using that p "1.prems"(1) by (simp add: nth_swap)
    have ord: "ky (xs ! ((j - 1) div 2)) \<le> ky (xs ! j)" if "0 < j" "j < length xs" "j \<noteq> i" for j
      using "1.prems"(2) that by (simp add: ord_but_up_def)
    have ch: "ky (xs ! ?p) \<le> ky (xs ! j)" if "0 < j" "j < length xs" "(j - 1) div 2 = i" for j
      using "1.prems"(2) that True by (simp add: ord_but_up_def)
    have "ky (?ys ! ((j - 1) div 2)) \<le> ky (?ys ! j)" if j: "0 < j" "j < length xs" "j \<noteq> ?p" for j
    proof -
      have pj: "(j - 1) div 2 < length xs" "(j - 1) div 2 < j" using j by auto
      consider "j = i" | "(j - 1) div 2 = i" "j \<noteq> i" | "(j - 1) div 2 = ?p" "j \<noteq> i" | "(j - 1) div 2 \<noteq> i" "(j - 1) div 2 \<noteq> ?p" "j \<noteq> i" by blast
      then show ?thesis
      proof cases
        case 1
        then show ?thesis using True p \<open>i < length xs\<close> by (simp add: y less_imp_le del: One_nat_def)
      next
        case 2
        then show ?thesis using ch [OF j(1,2)] j y [OF j(2)] y [OF pj(1)] by simp
      next
        case 3
        then show ?thesis using ord [OF j(1,2)] True j y [OF j(2)] y [OF pj(1)] p by auto
      next
        case 4
        then show ?thesis using ord [OF j(1,2)] j y [OF j(2)] y [OF pj(1)] by simp
      qed
    qed
    moreover have "ky (?ys ! ((?p - 1) div 2)) \<le> ky (?ys ! j)" if j: "0 < ?p" "0 < j" "j < length xs" "(j - 1) div 2 = ?p" for j
    proof -
      have pp: "(?p - 1) div 2 < ?p" using j(1) by auto
      have "ky (xs ! ((?p - 1) div 2)) \<le> ky (xs ! ?p)" using ord [of ?p] j(1) p by auto
      moreover have "ky (xs ! ?p) \<le> ky (xs ! j)" if "j \<noteq> i" using ord [OF j(2,3) that] j(4) by simp
      moreover have "j \<noteq> ?p" using j(2,4) by auto
      ultimately show ?thesis using y [of "(?p - 1) div 2"] y [OF j(3)] pp p by (auto intro: order_trans)
    qed
    ultimately have "ord_but_up ky ?ys ?p" by (simp add: ord_but_up_def)
    then have "heap_ord ky (sift_up ky ?ys ?p) \<and> mset (sift_up ky ?ys ?p) = mset ?ys"
      using "1.IH" True p by simp
    moreover have "sift_up ky xs i = sift_up ky ?ys ?p" using True by (simp add: sift_up.simps [of ky xs i])
    ultimately show ?thesis using p "1.prems"(1) by simp
  next
    case False
    then have "sift_up ky xs i = xs" by (auto simp: sift_up.simps [of ky xs i])
    moreover have "heap_ord ky xs"
      unfolding heap_ord_def
    proof (intro allI impI)
      fix j assume "0 < j \<and> j < length xs"
      with False "1.prems"(2) show "ky (xs ! ((j - 1) div 2)) \<le> ky (xs ! j)"
        by (cases "j = i") (auto simp: ord_but_up_def not_less)
    qed
    ultimately show ?thesis by simp
  qed
qed

lemma sift_down_swap:
  assumes ord: "ord_but_down ky xs i" and c: "c = 2 * i + 1 \<or> c = 2 * i + 2" "c < length xs"
    and lt: "ky (xs ! c) < ky (xs ! i)"
    and mn: "\<And>d. 0 < d \<Longrightarrow> d < length xs \<Longrightarrow> (d - 1) div 2 = i \<Longrightarrow> ky (xs ! c) \<le> ky (xs ! d)"
  shows "ord_but_down ky (swap i c xs) c"
proof -
  let ?ys = "swap i c xs"
  have ic: "i < c" "i < length xs" "(c - 1) div 2 = i" "0 < c" using c by auto
  have y: "?ys ! k = (if k = c then xs ! i else if k = i then xs ! c else xs ! k)" if "k < length xs" for k
    using that ic c(2) by (simp add: nth_swap)
  have ok: "ky (xs ! ((j - 1) div 2)) \<le> ky (xs ! j)" if "0 < j" "j < length xs" "(j - 1) div 2 \<noteq> i" for j
    using ord that by (simp add: ord_but_down_def)
  have "ky (?ys ! ((j - 1) div 2)) \<le> ky (?ys ! j)" if j: "0 < j" "j < length xs" "(j - 1) div 2 \<noteq> c" for j
  proof -
    have pj: "(j - 1) div 2 < length xs" "(j - 1) div 2 < j" using j by auto
    consider "j = c" | "(j - 1) div 2 = i" "j \<noteq> c" | "j = i" | "(j - 1) div 2 \<noteq> i" "j \<noteq> i" "j \<noteq> c" using ic by blast
    then show ?thesis
    proof cases
      case 1
      then show ?thesis using lt ic c(2) y [OF j(2)] y [OF ic(2)] by simp
    next
      case 2
      then show ?thesis using mn [OF j(1,2)] y [OF j(2)] y [OF pj(1)] j ic by auto
    next
      case 3
      then have "ky (xs ! ((i - 1) div 2)) \<le> ky (xs ! c)" using ord j ic c(2) by (auto simp: ord_but_down_def)
      with 3 show ?thesis using y [OF j(2)] y [OF pj(1)] pj j ic by auto
    next
      case 4
      then show ?thesis using ok [OF j(1,2)] j y [OF j(2)] y [OF pj(1)] by simp
    qed
  qed
  moreover have "ky (?ys ! ((c - 1) div 2)) \<le> ky (?ys ! j)" if j: "0 < j" "j < length xs" "(j - 1) div 2 = c" for j
  proof -
    have "j \<noteq> c" "j \<noteq> i" "c \<noteq> i" using j ic by auto
    then show ?thesis using ok [OF j(1,2)] j(3) y [OF j(2)] y [OF ic(2)] unfolding ic(3) by simp
  qed
  ultimately show ?thesis by (simp add: ord_but_down_def)
qed

lemma sift_down_ord:
  "i < length xs \<Longrightarrow> ord_but_down ky xs i \<Longrightarrow> heap_ord ky (sift_down ky xs i) \<and> mset (sift_down ky xs i) = mset xs"
proof (induction ky xs i rule: sift_down.induct)
  case (1 ky xs i)
  let ?l = "2 * i + 1" and ?r = "2 * i + 2" and ?n = "length xs"
  have dc: "d = ?l \<or> d = ?r" if "0 < d" "(d - 1) div 2 = i" for d using that by presburger
  have stop: ?case if st: "sift_down ky xs i = xs" and le: "\<And>d. d < ?n \<Longrightarrow> d = ?l \<or> d = ?r \<Longrightarrow> ky (xs ! i) \<le> ky (xs ! d)"
  proof -
    have "ky (xs ! i) \<le> ky (xs ! d)" if "0 < d" "d < ?n" "(d - 1) div 2 = i" for d
      using le [OF that(2) dc [OF that(1,3)]] .
    with st show ?thesis using "1.prems"(2) by (auto simp: heap_ord_def ord_but_down_def simp del: One_nat_def)
  qed
  have go: ?case if c: "c = ?l \<or> c = ?r" "c < ?n" "ky (xs ! c) < ky (xs ! i)"
      "\<And>d. d < ?n \<Longrightarrow> d = ?l \<or> d = ?r \<Longrightarrow> ky (xs ! c) \<le> ky (xs ! d)"
      and eq: "sift_down ky xs i = sift_down ky (swap i c xs) c"
      and IH: "c < length (swap i c xs) \<Longrightarrow> ord_but_down ky (swap i c xs) c \<Longrightarrow>
        heap_ord ky (sift_down ky (swap i c xs) c) \<and> mset (sift_down ky (swap i c xs) c) = mset (swap i c xs)" for c
  proof -
    have "ord_but_down ky (swap i c xs) c"
      by (rule sift_down_swap [OF "1.prems"(2) c(1-3)]) (use c(4) dc in blast)
    with IH c(2) "1.prems"(1) show ?thesis by (simp add: eq)
  qed
  note unf = sift_down.simps [of ky xs i] Let_def
  consider (leaf) "?n \<le> ?l" | (r) "?l < ?n" "?r < ?n" "ky (xs ! ?r) < ky (xs ! ?l)" | (l) "?l < ?n" "\<not> (?r < ?n \<and> ky (xs ! ?r) < ky (xs ! ?l))"
    by linarith
  then show ?case
  proof cases
    case leaf
    then show ?thesis by (intro stop) (auto simp: unf)
  next
    case r
    show ?thesis
    proof (cases "ky (xs ! ?r) < ky (xs ! i)")
      case True
      show ?thesis
        by (rule go [of ?r]) (use r True "1.IH"(1) [OF refl refl refl] in \<open>auto simp: unf less_imp_le\<close>)
    next
      case False
      with r show ?thesis by (intro stop) (auto simp: unf)
    qed
  next
    case l
    show ?thesis
    proof (cases "ky (xs ! ?l) < ky (xs ! i)")
      case True
      show ?thesis
        by (rule go [of ?l]) (use l True "1.IH"(2) [OF refl refl refl] in \<open>auto simp: unf less_imp_le\<close>)
    next
      case False
      with l show ?thesis by (intro stop) (auto simp: unf)
    qed
  qed
qed

section \<open>Adding and removing\<close>

lemma shaped_same:
  assumes "shaped h xs" and "\<And>x. x \<in> set xs \<Longrightarrow> left (timers h' x) = left (timers h x) \<and>
      right (timers h' x) = right (timers h x) \<and> up (timers h' x) = up (timers h x)"
    and "timer_top h' = timer_top h" and "timer_last h' = timer_last h"
  shows "shaped h' xs"
  using assms by (simp add: shaped_def)

lemma shaped_append:
  assumes sh: "shaped h xs" and e: "e \<notin> set xs" "left (timers h e) = None" "right (timers h e) = None" and ne: "xs \<noteq> []"
    and p: "parent = xs ! ((length xs - 1) div 2)"
  shows "shaped ((upd e (\<lambda>r. r\<lparr>up := Some parent\<rparr>) (upd parent (\<lambda>r. if odd (length xs) then r\<lparr>left := Some e\<rparr>
    else r\<lparr>right := Some e\<rparr>) h))\<lparr>timer_last := Some e\<rparr>) (xs @ [e])" (is "shaped ?h _")
proof -
  let ?n = "length xs"
  have d: "distinct xs" using sh by (simp add: shaped_def)
  have pn: "(?n - 1) div 2 < ?n" using ne by (cases xs) auto
  then have pe: "parent \<noteq> e" using e(1) p by (metis nth_mem)
  have n: "0 < ?n" using ne by simp
  have "left (timers ?h ((xs @ [e]) ! k)) = nth_ptr (xs @ [e]) (2 * k + 1) \<and>
        right (timers ?h ((xs @ [e]) ! k)) = nth_ptr (xs @ [e]) (2 * k + 2) \<and>
        up (timers ?h ((xs @ [e]) ! k)) = (if k = 0 then None else Some ((xs @ [e]) ! ((k - 1) div 2)))"
    if k: "k < Suc ?n" for k
  proof (cases "k = ?n")
    case True
    with e pe n p pn show ?thesis by (auto simp: nth_append nth_ptr_def)
  next
    case False
    with k have k': "k < ?n" by simp
    have xe: "xs ! k \<noteq> e" using e(1) k' by (metis nth_mem)
    have xp: "xs ! k = parent \<longleftrightarrow> k = (?n - 1) div 2" using p pn k' d by (simp add: nth_eq_iff_index_eq)
    have ar: "odd ?n \<Longrightarrow> k = (?n - 1) div 2 \<longleftrightarrow> 2 * k + 1 = ?n" "even ?n \<Longrightarrow> k = (?n - 1) div 2 \<longleftrightarrow> 2 * k + 2 = ?n"
      "even ?n \<Longrightarrow> 2 * k + 1 \<noteq> ?n" "odd ?n \<Longrightarrow> 2 * k + 2 \<noteq> ?n" using n by presburger+
    have l: "nth_ptr (xs @ [e]) j = (if j = ?n then Some e else nth_ptr xs j)" for j
      by (auto simp: nth_ptr_def nth_append)
    have "(k - 1) div 2 < ?n" using k' by simp
    then have u: "(xs @ [e]) ! ((k - 1) div 2) = xs ! ((k - 1) div 2)" by (simp add: nth_append)
    note sd = shapedD [OF sh k']
    have x: "(xs @ [e]) ! k = xs ! k" using k' by (simp add: nth_append)
    consider (left) "odd ?n" "2 * k + 1 = ?n" | (right) "even ?n" "2 * k + 2 = ?n" | (other) "2 * k + 1 \<noteq> ?n" "2 * k + 2 \<noteq> ?n" "xs ! k \<noteq> parent"
      using ar xp by (cases "odd ?n") blast+
    then show ?thesis
    proof cases
      case left
      then have "xs ! k = parent" using ar xp by blast
      with left show ?thesis unfolding x u using sd xe by (simp add: l del: One_nat_def)
    next
      case right
      then have "xs ! k = parent" using ar xp by blast
      with right show ?thesis unfolding x u using sd xe by (simp add: l del: One_nat_def)
    next
      case other
      then show ?thesis unfolding x u using sd xe by (simp add: l del: One_nat_def)
    qed
  qed
  moreover have "timer_top ?h = nth_ptr (xs @ [e]) 0" using sh ne by (simp add: shaped_def nth_ptr_def nth_append)
  ultimately show ?thesis using d e(1) by (simp add: shaped_def)
qed

lemma shaped_butlast:
  assumes sh: "shaped h xs" and n: "2 \<le> length xs" and u: "u = xs ! ((length xs - 2) div 2)"
  shows "shaped ((upd u (\<lambda>r. if left r = Some (last xs) then r\<lparr>left := None\<rparr> else r\<lparr>right := None\<rparr>) h)
    \<lparr>timer_last := Some (xs ! (length xs - 2))\<rparr>) (butlast xs)" (is "shaped ?h _")
proof -
  let ?n = "length xs"
  have d: "distinct xs" using sh by (simp add: shaped_def)
  have ne: "xs \<noteq> []" using n by auto
  have un: "(?n - 2) div 2 < ?n" using n by auto
  have lst: "last xs = xs ! (?n - 1)" using ne by (simp add: last_conv_nth)
  have "left (timers ?h (butlast xs ! k)) = nth_ptr (butlast xs) (2 * k + 1) \<and>
        right (timers ?h (butlast xs ! k)) = nth_ptr (butlast xs) (2 * k + 2) \<and>
        up (timers ?h (butlast xs ! k)) = (if k = 0 then None else Some (butlast xs ! ((k - 1) div 2)))"
    if k: "k < ?n - 1" for k
  proof -
    have k': "k < ?n" using k by simp
    have xu: "xs ! k = u \<longleftrightarrow> k = (?n - 2) div 2" using u un k' d by (simp add: nth_eq_iff_index_eq)
    have nb: "nth_ptr (butlast xs) j = (if j = ?n - 1 then None else nth_ptr xs j)" for j
      by (auto simp: nth_ptr_def nth_butlast)
    have el: "nth_ptr xs j = Some (last xs) \<longleftrightarrow> j = ?n - 1" for j
      using nth_ptr_eq [OF d, of "?n - 1" j] n lst by simp
    have ar: "k = (?n - 2) div 2 \<longleftrightarrow> 2 * k + 1 = ?n - 1 \<or> 2 * k + 2 = ?n - 1" using n by presburger
    have b: "butlast xs ! k = xs ! k" "butlast xs ! ((k - 1) div 2) = xs ! ((k - 1) div 2)" using k by (simp_all add: nth_butlast)
    note sd = shapedD [OF sh k']
    consider (l) "2 * k + 1 = ?n - 1" | (r) "2 * k + 2 = ?n - 1" | (other) "2 * k + 1 \<noteq> ?n - 1" "2 * k + 2 \<noteq> ?n - 1" by blast
    then show ?thesis
    proof cases
      case l
      then have "xs ! k = u" "left (timers h u) = Some (last xs)" "2 * k + 2 \<noteq> ?n - 1" using ar xu sd el by auto
      with l show ?thesis unfolding b using sd by (simp add: nb del: One_nat_def)
    next
      case r
      then have "xs ! k = u" "left (timers h u) \<noteq> Some (last xs)" "2 * k + 1 \<noteq> ?n - 1" using ar xu sd el by auto
      with r show ?thesis unfolding b using sd by (simp add: nb del: One_nat_def)
    next
      case other
      then have "xs ! k \<noteq> u" using ar xu by simp
      with other show ?thesis unfolding b using sd by (simp add: nb del: One_nat_def)
    qed
  qed
  moreover have "timer_top ?h = nth_ptr (butlast xs) 0" using sh n ne by (simp add: shaped_def nth_ptr_def nth_butlast)
  moreover have "last (butlast xs) = xs ! (?n - 2)" "butlast xs \<noteq> []"
  proof -
    show b: "butlast xs \<noteq> []" using n by (cases xs rule: rev_cases) auto
    then show "last (butlast xs) = xs ! (?n - 2)" using n by (simp add: last_conv_nth nth_butlast numeral_2_eq_2)
  qed
  ultimately show ?thesis using d by (simp add: shaped_def distinct_butlast)
qed

lemma shaped_put:
  assumes sh: "shaped h ys" and i: "i < length ys" and t: "t \<notin> set ys"
  shows "shaped (put_in_place h (ys ! i) t) (ys[i := t])" (is "shaped ?h ?zs")
proof -
  let ?e = "ys ! i" and ?n = "length ys"
  have d: "distinct ys" using sh by (simp add: shaped_def)
  note e = shapedD [OF sh i]
  have te: "t \<noteq> ?e" "?e \<noteq> t" using t i by (metis nth_mem)+
  have nt: "nth_ptr ys j \<noteq> Some t" for j using t by (auto simp: nth_ptr_def)
  have ue: "up (timers h ?e) \<noteq> Some t" "up (timers h ?e) \<noteq> Some ?e"
  proof -
    have pi: "i \<noteq> 0 \<Longrightarrow> (i - 1) div 2 < i" by auto
    show "up (timers h ?e) \<noteq> Some t" using e(3) t pi i by (auto dest: nth_mem)
    show "up (timers h ?e) \<noteq> Some ?e" using e(3) pi i d by (auto simp: nth_eq_iff_index_eq)
  qed
  have le: "left (timers h ?e) \<noteq> Some ?e" "right (timers h ?e) \<noteq> Some ?e"
    using e(1,2) nth_ptr_eq [OF d i] by auto
  have zs: "nth_ptr ?zs j = (if j = i then Some t else nth_ptr ys j)" for j
    using i by (simp add: nth_ptr_def nth_list_update)
  have lf: "left (timers ?h x) = (if x = t then left (timers h ?e)
      else if up (timers h ?e) = Some x \<and> left (timers h x) = Some ?e then Some t else left (timers h x))" for x
    using te ue by (simp add: put_in_place_def Let_def)
  have rt: "right (timers ?h x) = (if x = t then right (timers h ?e)
      else if up (timers h ?e) = Some x \<and> left (timers h x) \<noteq> Some ?e then Some t else right (timers h x))" for x
    using te ue by (simp add: put_in_place_def Let_def)
  have ut: "up (timers ?h x) = (if x = t then up (timers h ?e)
      else if left (timers h ?e) = Some x \<or> right (timers h ?e) = Some x then Some t else up (timers h x))" for x
    using te ue nt e(1,2) le by (auto simp: put_in_place_def Let_def)
  have "left (timers ?h (?zs ! k)) = nth_ptr ?zs (2 * k + 1) \<and>
        right (timers ?h (?zs ! k)) = nth_ptr ?zs (2 * k + 2) \<and>
        up (timers ?h (?zs ! k)) = (if k = 0 then None else Some (?zs ! ((k - 1) div 2)))" if k: "k < ?n" for k
  proof (cases "k = i")
    case True
    have "i \<noteq> 0 \<Longrightarrow> (i - 1) div 2 \<noteq> i" by auto
    with True i e show ?thesis by (simp add: lf rt ut zs del: One_nat_def)
  next
    case False
    then have x: "?zs ! k = ys ! k" by simp
    have xt: "ys ! k \<noteq> t" using t k by (metis nth_mem)
    have up': "up (timers h ?e) = Some (ys ! k) \<longleftrightarrow> i \<noteq> 0 \<and> (i - 1) div 2 = k"
      using e(3) k i by (auto simp: nth_eq_iff_index_eq [OF d])
    have ar: "i \<noteq> 0 \<and> (i - 1) div 2 = k \<longleftrightarrow> 2 * k + 1 = i \<or> 2 * k + 2 = i"
      "k \<noteq> 0 \<and> (k - 1) div 2 = i \<longleftrightarrow> 2 * i + 1 = k \<or> 2 * i + 2 = k" by presburger+
    have kp: "?zs ! ((k - 1) div 2) = (if (k - 1) div 2 = i then t else ys ! ((k - 1) div 2))"
      using i by (simp add: nth_list_update)
    note sd = shapedD [OF sh k] and np = nth_ptr_eq [OF d i] nth_ptr_eq [OF d k]
    have l: "left (timers ?h (ys ! k)) = nth_ptr ?zs (2 * k + 1)"
      using xt sd np up' ar by (auto simp: lf zs simp del: One_nat_def)
    have r: "right (timers ?h (ys ! k)) = nth_ptr ?zs (2 * k + 2)"
    proof -
      have "2 * k + 1 = i \<Longrightarrow> 2 * k + 2 \<noteq> i" by simp
      then show ?thesis using xt sd np up' ar by (auto simp: rt zs simp del: One_nat_def)
    qed
    have u: "up (timers ?h (ys ! k)) = (if k = 0 then None else Some (?zs ! ((k - 1) div 2)))"
    proof -
      have "left (timers h ?e) = Some (ys ! k) \<or> right (timers h ?e) = Some (ys ! k) \<longleftrightarrow> k \<noteq> 0 \<and> (k - 1) div 2 = i"
        unfolding e np ar(2) ..
      then show ?thesis unfolding kp using xt sd(3) by (cases "k = 0") (simp_all add: ut del: One_nat_def)
    qed
    show ?thesis unfolding x using l r u by blast
  qed
  moreover have "timer_top ?h = nth_ptr ?zs 0"
    using sh i e by (auto simp: put_in_place_def Let_def shaped_def zs)
  moreover have "timer_last ?h = (if ?zs = [] then None else Some (last ?zs))"
  proof -
    have ne: "ys \<noteq> []" using i by auto
    then have "last ys = ?e \<longleftrightarrow> i = ?n - 1" using d i by (auto simp: last_conv_nth nth_eq_iff_index_eq)
    then show ?thesis using sh ne i te by (auto simp: put_in_place_def Let_def shaped_def last_list_update)
  qed
  moreover have "distinct ?zs" using d t by (simp add: distinct_list_update)
  ultimately show ?thesis by (simp add: shaped_def)
qed

section \<open>The contract of the heap\<close>

definition queue :: "('h, 'd, 'x) hp \<Rightarrow> ptr list \<Rightarrow> bool" where
  "queue h xs \<longleftrightarrow> shaped h xs \<and> heap_ord (key h) xs \<and> length xs < 2 ^ 32"

lemma same_data_upd:
  "(\<And>r. timeout (f r) = timeout r \<and> handler (f r) = handler r \<and> user_data (f r) = user_data r \<and> in_heap (f r) = in_heap r)
   \<Longrightarrow> same_data h (upd t f h)"
  by (simp add: same_data_def)

lemma same_data_pointers [simp]:
  "same_data h (h'\<lparr>timer_top := tp\<rparr>) = same_data h h'" "same_data h (h'\<lparr>timer_last := lp\<rparr>) = same_data h h'"
  by (simp_all add: same_data_def)

lemma add_to_heap_queue:
  assumes q: "queue h xs" and e: "e \<notin> set xs" and n: "length xs + 1 < 2 ^ 32"
  shows "\<exists>h' ys. add_to_heap h e = Some (Inr h') \<and> queue h' ys \<and> mset ys = add_mset e (mset xs) \<and> same_data h h'"
proof -
  have sh: "shaped h xs" and ord: "heap_ord (key h) xs" using q by (simp_all add: queue_def)
  define h0 where "h0 = upd e (\<lambda>r. r\<lparr>left := None, right := None, up := None\<rparr>) h"
  have sd0: "same_data h h0" unfolding h0_def by (rule same_data_upd) simp
  have sh0: "shaped h0 xs" by (rule shaped_same [OF sh]) (use e in \<open>auto simp: h0_def\<close>)
  have e0: "left (timers h0 e) = None" "right (timers h0 e) = None" "up (timers h0 e) = None" by (simp_all add: h0_def)
  show ?thesis
  proof (cases "xs = []")
    case True
    let ?h = "h0\<lparr>timer_top := Some e, timer_last := Some e\<rparr>"
    have "add_to_heap h e = Some (Inr ?h)"
      using sh True by (simp add: add_to_heap_def h0_def [symmetric] Let_def shaped_def nth_ptr_def) (simp add: h0_def)
    moreover have "queue ?h [e]" using e0 by (simp add: queue_def shaped_def nth_ptr_def heap_ord_def)
    ultimately show ?thesis using True sd0 by (intro exI [of _ ?h] exI [of _ "[e]"]) simp
  next
    case False
    let ?n = "length xs" and ?p = "xs ! ((length xs - 1) div 2)"
    define h1 where "h1 = (upd e (\<lambda>r. r\<lparr>up := Some ?p\<rparr>) (upd ?p (\<lambda>r. if odd ?n then r\<lparr>left := Some e\<rparr> else r\<lparr>right := Some e\<rparr>) h0))\<lparr>timer_last := Some e\<rparr>"
    have sh1: "shaped h1 (xs @ [e])" unfolding h1_def by (rule shaped_append [OF sh0 e e0(1,2) False refl])
    have "same_data h0 h1" by (simp add: same_data_def h1_def)
    with sd0 have sd1: "same_data h h1" by (rule same_data_trans)
    have pe: "?p \<noteq> e" using e False by (metis One_nat_def diff_less div_less_dividend le_less_trans div_le_dividend length_greater_0_conv nth_mem zero_less_one)
    have "timer_top h0 = Some (xs ! 0)" "timer_last h0 = Some (last xs)" using sh0 False by (simp_all add: shaped_def nth_ptr_def)
    moreover have "find_next_pos h0 (last xs) = Some (Inr (?p, odd ?n))"
      by (rule find_next_pos_shaped [OF sh0 False]) (use n in simp)
    ultimately have add: "add_to_heap h e = (if key h1 e < key h1 ?p then map_option Inr (send_up h1 e) else Some (Inr h1))"
      by (simp add: add_to_heap_def h0_def [symmetric] Let_def h1_def)
    have en: "(xs @ [e]) ! ?n = e" "(xs @ [e]) ! ((?n - 1) div 2) = ?p" "?n < length (xs @ [e])" using False
      by (simp_all add: nth_append) (auto simp: neq_Nil_conv)
    obtain h' where h': "send_up h1 e = Some h'" "shaped h' (sift_up (key h1) (xs @ [e]) ?n)" "same_data h1 h'"
      using send_up_sift [OF sh1 en(3)] unfolding en(1) by blast
    have "ord_but_up (key h) (xs @ [e]) ?n"
      unfolding ord_but_up_def
    proof (intro conjI allI impI)
      fix j assume "0 < j \<and> j < length (xs @ [e]) \<and> j \<noteq> ?n"
      moreover from this have "(j - 1) div 2 < ?n" by auto
      ultimately show "key h ((xs @ [e]) ! ((j - 1) div 2)) \<le> key h ((xs @ [e]) ! j)"
        using ord by (simp add: nth_append heap_ord_def)
    next
      fix j assume "0 < ?n \<and> 0 < j \<and> j < length (xs @ [e]) \<and> (j - 1) div 2 = ?n"
      then show "key h ((xs @ [e]) ! ((?n - 1) div 2)) \<le> key h ((xs @ [e]) ! j)" by auto
    qed
    then have so: "heap_ord (key h) (sift_up (key h) (xs @ [e]) ?n)" "mset (sift_up (key h) (xs @ [e]) ?n) = mset (xs @ [e])"
      using sift_up_ord [OF en(3)] by blast+
    have len: "length (sift_up (key h) (xs @ [e]) ?n) < 2 ^ 32" using mset_eq_length [OF so(2)] n by simp
    have k1: "key h1 = key h" by (rule same_data_key [OF sd1])
    show ?thesis
    proof (cases "key h1 e < key h1 ?p")
      case True
      have "same_data h h'" by (rule same_data_trans [OF sd1 h'(3)])
      with add True h' so len sd1 show ?thesis
        by (intro exI [of _ h'] exI [of _ "sift_up (key h) (xs @ [e]) ?n"]) (simp add: queue_def same_data_key [OF sd1] same_data_key [OF \<open>same_data h h'\<close>])
    next
      case stay: False
      then have "sift_up (key h) (xs @ [e]) ?n = xs @ [e]"
        using False en fun_cong [OF k1] by (subst sift_up.simps) simp
      with so have "queue h1 (xs @ [e])" using sh1 len same_data_key [OF sd1] by (simp add: queue_def)
      with add stay sd1 show ?thesis by (intro exI [of _ h1] exI [of _ "xs @ [e]"]) simp
    qed
  qed
qed

lemma heap_ord_butlast: "heap_ord ky xs \<Longrightarrow> heap_ord ky (butlast xs)"
  unfolding heap_ord_def by (auto simp: nth_butlast)

lemma last_not_butlast: "distinct xs \<Longrightarrow> xs \<noteq> [] \<Longrightarrow> last xs \<notin> set (butlast xs)"
  by (cases xs rule: rev_cases) auto

text \<open>Replacing the timer at one position leaves the order right everywhere else.\<close>

lemma replaced_ord:
  assumes ord: "heap_ord ky ys" and i: "i < length ys"
  shows "0 < i \<and> ky t < ky (ys ! ((i - 1) div 2)) \<Longrightarrow> ord_but_up ky (ys[i := t]) i"
    and "\<not> (0 < i \<and> ky t < ky (ys ! ((i - 1) div 2))) \<Longrightarrow> ord_but_down ky (ys[i := t]) i"
proof -
  have o: "ky (ys ! ((j - 1) div 2)) \<le> ky (ys ! j)" if "0 < j" "j < length ys" for j
    using ord that by (simp add: heap_ord_def)
  have pi: "0 < i \<Longrightarrow> (i - 1) div 2 \<noteq> i" by auto
  have gp: "ky (ys ! ((i - 1) div 2)) \<le> ky (ys ! j)" if "0 < i" "0 < j" "j < length ys" "(j - 1) div 2 = i" for j
    using o [OF that(2,3)] o [OF that(1) i] that(4) by auto
  have ij: "(j - 1) div 2 = i \<Longrightarrow> 0 < j \<Longrightarrow> j \<noteq> i" for j by auto
  show "ord_but_up ky (ys[i := t]) i" if c: "0 < i \<and> ky t < ky (ys ! ((i - 1) div 2))"
    unfolding ord_but_up_def
  proof (intro conjI allI impI)
    fix j assume j: "0 < j \<and> j < length (ys[i := t]) \<and> j \<noteq> i"
    then have "(j - 1) div 2 = i \<Longrightarrow> ky t \<le> ky (ys ! j)" using gp [of j] c by auto
    with j o [of j] i show "ky (ys[i := t] ! ((j - 1) div 2)) \<le> ky (ys[i := t] ! j)" by (auto simp: nth_list_update)
  next
    fix j assume "0 < i \<and> 0 < j \<and> j < length (ys[i := t]) \<and> (j - 1) div 2 = i"
    with gp [of j] ij [of j] pi i show "ky (ys[i := t] ! ((i - 1) div 2)) \<le> ky (ys[i := t] ! j)" by (simp add: nth_list_update)
  qed
  show "ord_but_down ky (ys[i := t]) i" if c: "\<not> (0 < i \<and> ky t < ky (ys ! ((i - 1) div 2)))"
    unfolding ord_but_down_def
  proof (intro conjI allI impI)
    fix j assume j: "0 < j \<and> j < length (ys[i := t]) \<and> (j - 1) div 2 \<noteq> i"
    with c o [of j] i show "ky (ys[i := t] ! ((j - 1) div 2)) \<le> ky (ys[i := t] ! j)" by (auto simp: nth_list_update)
  next
    fix j assume "0 < i \<and> 0 < j \<and> j < length (ys[i := t]) \<and> (j - 1) div 2 = i"
    with gp [of j] ij [of j] pi i show "ky (ys[i := t] ! ((i - 1) div 2)) \<le> ky (ys[i := t] ! j)" by (simp add: nth_list_update)
  qed
qed

lemma send_up_or_down_queue:
  assumes sh: "shaped h (ys[i := t])" and ord: "heap_ord (key h) ys" and i: "i < length ys"
  shows "\<exists>h' zs. send_up_or_down h t = Some h' \<and> shaped h' zs \<and> heap_ord (key h) zs \<and> mset zs = mset (ys[i := t]) \<and> same_data h h'"
proof -
  let ?zs = "ys[i := t]"
  have iz: "i < length ?zs" and t: "?zs ! i = t" using i by simp_all
  have u: "up (timers h t) = (if i = 0 then None else Some (ys ! ((i - 1) div 2)))"
  proof -
    have "0 < i \<Longrightarrow> (i - 1) div 2 \<noteq> i" by auto
    then show ?thesis using shapedD(3) [OF sh iz] unfolding t by simp
  qed
  show ?thesis
  proof (cases "0 < i \<and> key h t < key h (ys ! ((i - 1) div 2))")
    case True
    have so: "heap_ord (key h) (sift_up (key h) ?zs i) \<and> mset (sift_up (key h) ?zs i) = mset ?zs"
      by (rule sift_up_ord [OF iz replaced_ord(1) [OF ord i True]])
    obtain h' where h': "send_up h t = Some h'" "shaped h' (sift_up (key h) ?zs i)" "same_data h h'"
      using send_up_sift [OF sh iz] unfolding t by blast
    have "send_up_or_down h t = send_up h t" using True u by (simp add: send_up_or_down_def)
    with h' so show ?thesis by (intro exI [of _ h'] exI [of _ "sift_up (key h) ?zs i"]) simp
  next
    case False
    have so: "heap_ord (key h) (sift_down (key h) ?zs i) \<and> mset (sift_down (key h) ?zs i) = mset ?zs"
      by (rule sift_down_ord [OF iz replaced_ord(2) [OF ord i False]])
    obtain h' where h': "send_down h t = Some h'" "shaped h' (sift_down (key h) ?zs i)" "same_data h h'"
      using send_down_sift [OF sh iz] unfolding t by blast
    have "send_up_or_down h t = send_down h t" using False u by (auto simp: send_up_or_down_def)
    with h' so show ?thesis by (intro exI [of _ h'] exI [of _ "sift_down (key h) ?zs i"]) simp
  qed
qed

lemma same_data_put: "same_data h (put_in_place h e t)"
  by (simp add: same_data_def put_in_place_def Let_def)

lemma remove_from_heap_queue:
  assumes q: "queue h xs" and e: "e \<in> set xs"
  shows "\<exists>h' ys. remove_from_heap h e = Some (Inr h') \<and> queue h' ys \<and> mset ys = mset xs - {#e#} \<and> same_data h h'"
proof -
  have sh: "shaped h xs" and ord: "heap_ord (key h) xs" and n: "length xs < 2 ^ 32" using q by (simp_all add: queue_def)
  have ne: "xs \<noteq> []" and d: "distinct xs" using e sh by (auto simp: shaped_def)
  let ?t = "last xs" and ?n = "length xs"
  have lst: "?t = xs ! (?n - 1)" "?n - 1 < ?n" using ne by (simp_all add: last_conv_nth)
  have tl: "timer_last h = Some ?t" using sh ne by (simp add: shaped_def)
  have up: "up (timers h ?t) = (if ?n = 1 then None else Some (xs ! ((?n - 2) div 2)))"
    using shapedD(3) [OF sh lst(2)] lst ne by (auto simp: numeral_2_eq_2 le_Suc_eq)
  show ?thesis
  proof (cases "?n = 1")
    case True
    let ?h = "h\<lparr>timer_top := None, timer_last := None\<rparr>"
    have "remove_from_heap h e = Some (Inr ?h)" using tl up True by (simp add: remove_from_heap_def)
    moreover have "mset xs = {#e#}" using True e by (cases xs) auto
    moreover have "queue ?h []" by (simp add: queue_def shaped_def nth_ptr_def heap_ord_def)
    ultimately show ?thesis by (intro exI [of _ ?h] exI [of _ "[]"]) simp
  next
    case False
    then have n2: "2 \<le> ?n" using ne by (cases xs) (auto simp: Suc_le_eq)
    let ?u = "xs ! ((?n - 2) div 2)" and ?ys = "butlast xs"
    define h1 where "h1 = (upd ?u (\<lambda>r. if left r = Some ?t then r\<lparr>left := None\<rparr> else r\<lparr>right := None\<rparr>) h)\<lparr>timer_last := Some (xs ! (?n - 2))\<rparr>"
    have sh1: "shaped h1 ?ys" unfolding h1_def by (rule shaped_butlast [OF sh n2 refl])
    have sd1: "same_data h h1" by (simp add: same_data_def h1_def)
    have k1: "key h1 = key h" by (rule same_data_key [OF sd1])
    have rm: "remove_from_heap h e = (if e = ?t then Some (Inr h1) else map_option Inr (send_up_or_down (put_in_place h1 e ?t) ?t))"
      using tl up False find_prev_elem_shaped [OF sh n2 n] by (simp add: remove_from_heap_def Let_def h1_def)
    have ms: "mset xs = add_mset ?t (mset ?ys)" using ne by (metis append_butlast_last_id mset_append mset_single_iff_right union_mset_add_mset_right add_mset_add_single)
    have oy: "heap_ord (key h) ?ys" by (rule heap_ord_butlast [OF ord])
    show ?thesis
    proof (cases "e = ?t")
      case True
      have "queue h1 ?ys" using sh1 oy k1 n by (simp add: queue_def)
      with rm True ms sd1 show ?thesis by (intro exI [of _ h1] exI [of _ ?ys]) simp
    next
      case ne': False
      then have "e \<in> set ?ys" using e ms by (metis insert_iff set_mset_add_mset_insert set_mset_mset)
      then obtain i where i: "i < length ?ys" "?ys ! i = e" by (auto simp: in_set_conv_nth)
      define h2 where "h2 = put_in_place h1 e ?t"
      have sh2: "shaped h2 (?ys[i := ?t])"
        using shaped_put [OF sh1 i(1) last_not_butlast [OF d ne]] i(2) by (simp add: h2_def)
      have sd2: "same_data h h2" unfolding h2_def by (rule same_data_trans [OF sd1 same_data_put])
      have k2: "key h2 = key h" by (rule same_data_key [OF sd2])
      obtain h' zs where h': "send_up_or_down h2 ?t = Some h'" "shaped h' zs" "heap_ord (key h) zs"
        "mset zs = mset (?ys[i := ?t])" "same_data h2 h'"
        using send_up_or_down_queue [OF sh2 _ i(1)] oy unfolding k2 by blast
      have sd: "same_data h h'" by (rule same_data_trans [OF sd2 h'(5)])
      have "mset (?ys[i := ?t]) = add_mset ?t (mset ?ys - {#e#})" using i by (simp add: mset_update)
      then have mz: "mset zs = mset xs - {#e#}" using h'(4) ms \<open>e \<in> set ?ys\<close> by (simp add: add_mset_diff_bothsides)
      have "length zs < 2 ^ 32" using mset_eq_length [OF h'(4)] n by simp
      then have "queue h' zs" using h'(2,3) same_data_key [OF sd] by (simp add: queue_def)
      with rm ne' h'(1) mz sd show ?thesis by (intro exI [of _ h'] exI [of _ zs]) (simp add: h2_def)
    qed
  qed
qed

lemma queue_top:
  assumes "queue h xs"
  shows "timer_top h = None \<longleftrightarrow> xs = []"
    and "timer_top h = Some t \<Longrightarrow> t \<in> set xs \<and> (\<forall>x \<in> set xs. key h t \<le> key h x)"
proof -
  show "timer_top h = None \<longleftrightarrow> xs = []" using assms by (simp add: queue_def shaped_def nth_ptr_def)
  assume t: "timer_top h = Some t"
  then have t': "xs \<noteq> []" "t = xs ! 0" using assms by (auto simp: queue_def shaped_def nth_ptr_def split: if_splits)
  have ord: "key h (xs ! ((j - 1) div 2)) \<le> key h (xs ! j)" if "0 < j" "j < length xs" for j
    using assms that by (simp add: queue_def heap_ord_def)
  have "key h (xs ! 0) \<le> key h (xs ! j)" if "j < length xs" for j
    using that
  proof (induction j rule: less_induct)
    case (less j)
    show ?case
    proof (cases "j = 0")
      case False
      then have "(j - 1) div 2 < j" by auto
      with less.IH [OF this] less.prems ord [of j] False show ?thesis by (auto intro: order_trans)
    qed simp
  qed
  with t' show "t \<in> set xs \<and> (\<forall>x \<in> set xs. key h t \<le> key h x)" by (auto simp: in_set_conv_nth)
qed

end
