(* ===== verification/Selector_Loop.thy ===== *)
theory Selector_Loop
  imports Selector_Queue
begin

text \<open>
  Properties of the selector: the timer operations as a client sees them, the order in which
  due timers are fired, and the bookkeeping of file descriptors.
\<close>

section \<open>Timers\<close>

text \<open>\<open>running s A T\<close>: of the allocated timers \<open>A\<close> the timers \<open>T\<close> are started; the
  links and flags are right.\<close>

definition running :: "('h, 'd, 'x) hp \<Rightarrow> ptr set \<Rightarrow> ptr set \<Rightarrow> bool" where
  "running s A T \<longleftrightarrow> (\<exists>xs. queue s xs \<and> set xs = T) \<and> T \<subseteq> A \<and> (\<forall>t \<in> A. in_heap (timers s t) \<longleftrightarrow> t \<in> T)"

lemma heap_ord_cong:
  assumes "\<And>x. x \<in> set xs \<Longrightarrow> ky' x = ky x" and "heap_ord ky xs"
  shows "heap_ord ky' xs"
  unfolding heap_ord_def
proof (intro allI impI)
  fix j assume j: "0 < j \<and> j < length xs"
  then have "(j - 1) div 2 < length xs" by auto
  with j assms show "ky' (xs ! ((j - 1) div 2)) \<le> ky' (xs ! j)" by (simp add: heap_ord_def)
qed

lemma queue_upd:
  assumes "queue h xs" and "\<And>r. left (f r) = left r \<and> right (f r) = right r \<and> up (f r) = up r"
    and "t \<in> set xs \<Longrightarrow> (\<And>r. timeout (f r) = timeout r)"
  shows "queue (upd t f h) xs"
proof -
  have "shaped h xs" using assms(1) by (simp add: queue_def)
  then have sh: "shaped (upd t f h) xs" by (rule shaped_same) (simp_all add: assms(2))
  have "key (upd t f h) x = key h x" if "x \<in> set xs" for x
    using assms(3) that by auto
  have "heap_ord (key h) xs" using assms(1) by (simp add: queue_def)
  with \<open>\<And>x. x \<in> set xs \<Longrightarrow> key (upd t f h) x = key h x\<close> have "heap_ord (key (upd t f h)) xs"
    by (rule heap_ord_cong)
  with sh show ?thesis using assms(1) by (simp add: queue_def)
qed

lemma queue_card: "queue h xs \<Longrightarrow> card (set xs) = length xs"
  by (simp add: queue_def shaped_def distinct_card)

lemma queue_distinct: "queue h xs \<Longrightarrow> distinct xs"
  by (simp add: queue_def shaped_def)

lemma start_timer_ok:
  assumes "running s A T" and "t \<in> A" and "card T + 1 < 2 ^ 32" and "t \<notin> T"
  shows "\<exists>s'. sel_start_timer s t tmo = Some (Inr (Inr s')) \<and> running s' A (insert t T) \<and>
      timeout (timers s' t) = tmo \<and> (\<forall>x. x \<noteq> t \<longrightarrow> timeout (timers s' x) = timeout (timers s x)) \<and>
      (\<forall>x. handler (timers s' x) = handler (timers s x) \<and> user_data (timers s' x) = user_data (timers s x)) \<and>
      heap.more s' = heap.more s"
proof -
  obtain xs where xs: "queue s xs" "set xs = T" and fl: "\<And>x. x \<in> A \<Longrightarrow> in_heap (timers s x) \<longleftrightarrow> x \<in> T"
    and TA: "T \<subseteq> A" using assms(1) by (auto simp: running_def)
  let ?s = "upd t (\<lambda>r. r\<lparr>timeout := tmo\<rparr>) s"
  have "queue ?s xs" by (rule queue_upd [OF xs(1)]) (use assms(4) xs(2) in auto)
  then obtain h' ys where h': "add_to_heap ?s t = Some (Inr h')" "queue h' ys" "mset ys = add_mset t (mset xs)" "same_data ?s h'"
    using add_to_heap_queue [of ?s xs t] assms(4) xs assms(3) queue_card [OF xs(1)] by auto
  let ?r = "upd t (\<lambda>r. r\<lparr>in_heap := True\<rparr>) h'"
  have "sel_start_timer s t tmo = Some (Inr (Inr ?r))" using assms(4) h'(1) by (simp add: sel_start_timer_def fl assms(2))
  moreover have "running ?r A (insert t T)"
  proof -
    have "set ys = insert t T" using mset_eq_setD [of ys "t # xs"] h'(3) xs(2) by simp
    moreover have "queue ?r ys" by (rule queue_upd [OF h'(2)]) simp_all
    moreover have "in_heap (timers h' x) = in_heap (timers s x)" for x using h'(4) by (simp add: same_data_def)
    ultimately show ?thesis using TA assms(2) by (auto simp: running_def fl)
  qed
  ultimately show ?thesis using assms(4) h'(4) by (auto simp: same_data_def)
qed

text \<open>C30: Starting an idle timer always succeeds without following a bad link: afterwards it is
  running with the given time, all others run as before, the heap is in order again and no
  other field of any timer has changed.  A timer that runs is refused and nothing changes.\<close>

theorem start_timer_correct:
  assumes "running s A T" and "t \<in> A" and "card T + 1 < 2 ^ 32"
  shows "if t \<in> T then sel_start_timer s t tmo = Some (Inr (Inl EBUSY))
    else \<exists>s'. sel_start_timer s t tmo = Some (Inr (Inr s')) \<and> running s' A (insert t T) \<and>
      timeout (timers s' t) = tmo \<and> (\<forall>x. x \<noteq> t \<longrightarrow> timeout (timers s' x) = timeout (timers s x)) \<and>
      (\<forall>x. handler (timers s' x) = handler (timers s x) \<and> user_data (timers s' x) = user_data (timers s x)) \<and>
      heap.more s' = heap.more s"
proof (cases "t \<in> T")
  case True
  then have "in_heap (timers s t)" using assms(1,2) by (simp add: running_def)
  with True show ?thesis by (simp add: sel_start_timer_def)
qed (use start_timer_ok [OF assms] in simp)

lemma stop_timer_ok:
  assumes "running s A T" and "t \<in> T"
  shows "\<exists>h'. remove_from_heap s t = Some (Inr h') \<and> running (upd t (\<lambda>r. r\<lparr>in_heap := False\<rparr>) h') A (T - {t}) \<and>
    (\<forall>x. key h' x = key s x) \<and> same_data s h'"
proof -
  obtain xs where xs: "queue s xs" "set xs = T" and fl: "\<And>x. x \<in> A \<Longrightarrow> in_heap (timers s x) \<longleftrightarrow> x \<in> T"
    and TA: "T \<subseteq> A" using assms(1) by (auto simp: running_def)
  obtain h' ys where h': "remove_from_heap s t = Some (Inr h')" "queue h' ys" "mset ys = mset xs - {#t#}" "same_data s h'"
    using remove_from_heap_queue [OF xs(1), of t] xs(2) assms(2) by auto
  let ?r = "upd t (\<lambda>r. r\<lparr>in_heap := False\<rparr>) h'"
  have "mset ys = mset (remove1 t xs)" using h'(3) by simp
  then have "set ys = T - {t}" using mset_eq_setD [of ys "remove1 t xs"] queue_distinct [OF xs(1)] xs(2) by simp
  moreover have "queue ?r ys" by (rule queue_upd [OF h'(2)]) simp_all
  moreover have "in_heap (timers h' x) = in_heap (timers s x)" "key h' x = key s x" for x using h'(4) by (simp_all add: same_data_def)
  ultimately show ?thesis using h' TA by (auto simp: running_def fl)
qed

lemma sel_stop_timer_ok:
  assumes "running s A T" and "t \<in> T"
  shows "\<exists>s'. sel_stop_timer s t = Some (Inr (Inr s')) \<and> running s' A (T - {t}) \<and>
      (\<forall>x. timeout (timers s' x) = timeout (timers s x) \<and> handler (timers s' x) = handler (timers s x) \<and>
         user_data (timers s' x) = user_data (timers s x)) \<and> heap.more s' = heap.more s"
proof -
  obtain h' where h': "remove_from_heap s t = Some (Inr h')" "running (upd t (\<lambda>r. r\<lparr>in_heap := False\<rparr>) h') A (T - {t})" "same_data s h'"
    using stop_timer_ok [OF assms] by blast
  moreover have "in_heap (timers s t)" using assms by (auto simp: running_def)
  ultimately show ?thesis by (auto simp: sel_stop_timer_def same_data_def)
qed

text \<open>C31: Stopping a running timer always succeeds: it is idle afterwards, all others run as
  before, and only links have changed.  For an idle timer the call returns an error.\<close>

theorem stop_timer_correct:
  assumes "running s A T" and "t \<in> A"
  shows "if t \<notin> T then sel_stop_timer s t = Some (Inr (Inl ETIMEDOUT))
    else \<exists>s'. sel_stop_timer s t = Some (Inr (Inr s')) \<and> running s' A (T - {t}) \<and>
      (\<forall>x. timeout (timers s' x) = timeout (timers s x) \<and> handler (timers s' x) = handler (timers s x) \<and>
         user_data (timers s' x) = user_data (timers s x)) \<and> heap.more s' = heap.more s"
proof (cases "t \<in> T")
  case False
  then show ?thesis using assms by (simp add: sel_stop_timer_def running_def)
qed (use sel_stop_timer_ok [OF assms(1)] in simp)

text \<open>The links and flags are those of the heap alone.\<close>

lemma running_cong:
  assumes "timers s' = timers s" and "timer_top s' = timer_top s" and "timer_last s' = timer_last s"
  shows "running s' A T = running s A T"
  using assms by (simp add: running_def queue_def shaped_def)

section \<open>Due timers\<close>

text \<open>Firing all timers that are due: \<open>first\<close> is the first timer, \<open>fire\<close> fires a timer, the list
  holds the successive readings of the clock.\<close>

fun drain :: "('s \<Rightarrow> ptr option) \<Rightarrow> ('s \<Rightarrow> ptr \<Rightarrow> 's res option) \<Rightarrow> ('s \<Rightarrow> ptr \<Rightarrow> timeval) \<Rightarrow> timeval list \<Rightarrow> 's \<Rightarrow>
    (ptr list \<times> 's) res option" where
  "drain first fire time [] s = None"
| "drain first fire time (now # nows) s =
     (case first s of
        None \<Rightarrow> Some (Inr ([], s))
      | Some t \<Rightarrow>
          if time s t \<le> now then
            (case fire s t of
               None \<Rightarrow> None
             | Some (Inl e) \<Rightarrow> Some (Inl e)
             | Some (Inr s1) \<Rightarrow>
                 map_option (\<lambda>r. bind_res r (\<lambda>(ts, s2). Inr (t # ts, s2))) (drain first fire time nows s1))
          else Some (Inr ([], s)))"

text \<open>What the event loop relies on: firing a timer takes it out of the queue, or leaves it there for
  a time behind the \<open>horizon\<close>, and does not touch the others.\<close>

locale timer_queue =
  fixes ok :: "'s \<Rightarrow> ptr set \<Rightarrow> bool"
    and first :: "'s \<Rightarrow> ptr option"
    and fire :: "'s \<Rightarrow> ptr \<Rightarrow> 's res option"
    and time :: "'s \<Rightarrow> ptr \<Rightarrow> timeval"
    and horizon :: timeval
  assumes ok_finite: "ok s T \<Longrightarrow> finite T"
    and top_empty: "ok s T \<Longrightarrow> first s = None \<longleftrightarrow> T = {}"
    and top_least: "ok s T \<Longrightarrow> first s = Some t \<Longrightarrow> t \<in> T \<and> (\<forall>x \<in> T. time s t \<le> time s x)"
    and fire_ok: "ok s T \<Longrightarrow> t \<in> T \<Longrightarrow>
      \<exists>s' T'. fire s t = Some (Inr s') \<and> ok s' T' \<and> (\<forall>x \<in> T - {t}. time s' x = time s x) \<and>
        (T' = T - {t} \<or> T' = T \<and> horizon < time s' t)"
begin

definition fired :: "timeval list \<Rightarrow> 's \<Rightarrow> ptr set \<Rightarrow> ptr list \<Rightarrow> 's \<Rightarrow> ptr set \<Rightarrow> bool" where
  "fired nows s T ts s' T' \<longleftrightarrow>
     distinct ts \<and> sorted (map (time s) ts) \<and>
     {t \<in> T. time s t \<le> hd nows} \<subseteq> set ts \<and> set ts \<subseteq> {t \<in> T. time s t \<le> last nows} \<and>
     ok s' T' \<and> T - set ts \<subseteq> T' \<and> T' \<subseteq> T \<and>
     (\<forall>t \<in> T - set ts. time s' t = time s t) \<and> (\<forall>t \<in> T' \<inter> set ts. horizon < time s' t)"

lemma fired_nothing:
  assumes "ok s T" and "\<And>x. x \<in> T \<Longrightarrow> \<not> time s x \<le> hd nows"
  shows "fired nows s T [] s T"
  using assms by (auto simp: fired_def)

lemma fired_step:
  assumes t: "t \<in> T" "\<And>x. x \<in> T \<Longrightarrow> time s t \<le> time s x" "time s t \<le> now"
    and s1: "\<And>x. x \<in> T - {t} \<Longrightarrow> time s1 x = time s x" "T1 = T - {t} \<or> T1 = T \<and> horizon < time s1 t"
    and nows: "nows \<noteq> []" "sorted (now # nows)" "\<And>n. n \<in> set nows \<Longrightarrow> n \<le> horizon"
    and ts: "fired nows s1 T1 ts s' T'"
  shows "fired (now # nows) s T (t # ts) s' T'"
proof -
  have last: "last nows \<le> horizon" and hd: "now \<le> hd nows" "now \<le> last nows"
    using nows by (auto intro: order_trans simp: neq_Nil_conv)
  have ts': "distinct ts" "sorted (map (time s1) ts)" "{x \<in> T1. time s1 x \<le> hd nows} \<subseteq> set ts"
    "\<And>x. x \<in> set ts \<Longrightarrow> x \<in> T1 \<and> time s1 x \<le> last nows" "ok s' T'" "T1 - set ts \<subseteq> T'" "T' \<subseteq> T1"
    "\<And>x. x \<in> T1 - set ts \<Longrightarrow> time s' x = time s1 x" "\<And>x. x \<in> T' \<Longrightarrow> x \<in> set ts \<Longrightarrow> horizon < time s' x"
    using ts by (auto simp: fired_def)
  have out: "t \<notin> set ts" using ts'(4) [of t] s1(2) last by auto
  have sub: "T - {t} \<subseteq> T1" "T1 \<subseteq> T" using s1(2) t(1) by auto
  have same: "time s1 x = time s x" if "x \<in> set ts" for x using that ts'(4) [OF that] out sub s1(1) by blast
  have m: "map (time s1) ts = map (time s) ts" using same by simp
  have "sorted (map (time s) (t # ts))"
    using ts'(2) t(2) ts'(4) sub unfolding m by auto
  moreover have "{x \<in> T. time s x \<le> now} \<subseteq> set (t # ts)"
  proof
    fix x assume x: "x \<in> {x \<in> T. time s x \<le> now}"
    show "x \<in> set (t # ts)"
    proof (cases "x = t")
      case False
      with x have "x \<in> T1" "time s1 x \<le> hd nows" using sub s1(1) hd(1) by (auto intro: order_trans)
      with ts'(3) show ?thesis by auto
    qed simp
  qed
  moreover have "set (t # ts) \<subseteq> {x \<in> T. time s x \<le> last nows}"
    using t(1,3) hd(2) ts'(4) same sub by (auto intro: order_trans)
  moreover have "T - set (t # ts) \<subseteq> T'" "T' \<subseteq> T" using ts'(6,7) sub by auto
  moreover have "time s' x = time s x" if "x \<in> T - set (t # ts)" for x
    using that ts'(8) [of x] s1(1) [of x] sub(1) by auto
  moreover have "horizon < time s' x" if "x \<in> T'" "x \<in> set (t # ts)" for x
  proof (cases "x = t")
    case True
    then have "t \<in> T1" using that(1) ts'(7) by auto
    with s1(2) have "horizon < time s1 t" by auto
    with ts'(8) [of t] \<open>t \<in> T1\<close> out True show ?thesis by simp
  next
    case False
    with that ts'(9) show ?thesis by simp
  qed
  ultimately show ?thesis using ts'(1,5) out nows(1) by (simp add: fired_def)
qed

lemma drain_due:
  "ok s T \<Longrightarrow> sorted nows \<Longrightarrow> (\<And>n. n \<in> set nows \<Longrightarrow> n \<le> horizon) \<Longrightarrow> card {t \<in> T. time s t \<le> horizon} < length nows \<Longrightarrow>
   \<exists>ts s' T'. drain first fire time nows s = Some (Inr (ts, s')) \<and> fired nows s T ts s' T'"
proof (induction nows arbitrary: s T)
  case (Cons now nows)
  show ?case
  proof (cases "first s")
    case None
    then have "T = {}" using top_empty [OF Cons.prems(1)] by simp
    with None Cons.prems(1) fired_nothing [of s T "now # nows"] show ?thesis by auto
  next
    case (Some t)
    with top_least [OF Cons.prems(1) Some] have t: "t \<in> T" "\<And>x. x \<in> T \<Longrightarrow> time s t \<le> time s x" by blast+
    show ?thesis
    proof (cases "time s t \<le> now")
      case False
      then have "\<And>x. x \<in> T \<Longrightarrow> \<not> time s x \<le> hd (now # nows)" using t(2) by (auto dest: order_trans)
      from fired_nothing [OF Cons.prems(1) this] False Some show ?thesis by auto
    next
      case True
      obtain s1 T1 where s1: "fire s t = Some (Inr s1)" "ok s1 T1" "\<And>x. x \<in> T - {t} \<Longrightarrow> time s1 x = time s x"
        "T1 = T - {t} \<or> T1 = T \<and> horizon < time s1 t"
        using fire_ok [OF Cons.prems(1) t(1)] by blast
      have fin: "finite {x \<in> T. time s x \<le> horizon}" using ok_finite [OF Cons.prems(1)] by simp
      have "now \<le> horizon" using Cons.prems(3) [of now] by simp
      then have due: "t \<in> {x \<in> T. time s x \<le> horizon}" using t(1) True by (auto intro: order_trans)
      have "x \<in> {x \<in> T. time s x \<le> horizon} - {t}" if "x \<in> T1" "time s1 x \<le> horizon" for x
      proof (cases "x = t")
        case True
        with that s1(4) show ?thesis by auto
      next
        case False
        with that s1(3) [of x] s1(4) show ?thesis by auto
      qed
      then have "{x \<in> T1. time s1 x \<le> horizon} \<subseteq> {x \<in> T. time s x \<le> horizon} - {t}" by blast
      then have "card {x \<in> T1. time s1 x \<le> horizon} \<le> card ({x \<in> T. time s x \<le> horizon} - {t})"
        using fin by (intro card_mono) simp_all
      then have less: "card {x \<in> T1. time s1 x \<le> horizon} < length nows"
        using card_Diff1_less [OF fin due] Cons.prems(4) by simp
      have ne: "nows \<noteq> []" using less by auto
      obtain ts s' T' where ts: "drain first fire time nows s1 = Some (Inr (ts, s'))" "fired nows s1 T1 ts s' T'"
        using Cons.IH [OF s1(2) _ _ less] Cons.prems(2,3) by auto
      have "fired (now # nows) s T (t # ts) s' T'"
        using fired_step [OF t True s1(3,4) ne Cons.prems(2) _ ts(2)] Cons.prems(3) by simp
      moreover have "drain first fire time (now # nows) s = Some (Inr (t # ts, s'))"
        using Some True s1(1) ts(1) by simp
      ultimately show ?thesis by blast
    qed
  qed
qed simp

end

text \<open>Handlers that leave all other timers alone, and start their own again, if at all, for a time
  behind the \<open>horizon\<close>; firing one timer.\<close>

definition patient :: "timeval \<Rightarrow> ptr set \<Rightarrow> ('h, 'd) timer_call \<Rightarrow> bool" where
  "patient horizon A call \<longleftrightarrow> (\<forall>hn s t ud T. running s A T \<longrightarrow> t \<in> A - T \<longrightarrow>
     (\<forall>x \<in> T. timeout (timers (call hn s t ud) x) = timeout (timers s x)) \<and>
     (running (call hn s t ud) A T \<or>
      running (call hn s t ud) A (insert t T) \<and> horizon < timeout (timers (call hn s t ud) t)))"

definition fire_one :: "('h, 'd) timer_call \<Rightarrow> ('h, 'd) selector \<Rightarrow> ptr \<Rightarrow> ('h, 'd) selector res option" where
  "fire_one call sel timer = map_option (\<lambda>r. bind_res r (\<lambda>sel1.
     let sel2 = upd timer (\<lambda>t. t\<lparr>in_heap := False\<rparr>) sel1 in
     Inr (call (handler (timers sel2 timer)) sel2 timer (user_data (timers sel2 timer))))) (remove_from_heap sel timer)"

interpretation timer: timer_queue "\<lambda>s T. patient h A call \<and> running s A T" timer_top "fire_one call" key h for call A h
proof
  fix s :: "('a, 'b) selector" and T
  assume s: "patient h A call \<and> running s A T"
  then obtain xs where xs: "queue s xs" "set xs = T" by (auto simp: running_def)
  show "finite T" using xs(2) by auto
  show "timer_top s = None \<longleftrightarrow> T = {}" using queue_top(1) [OF xs(1)] xs(2) by auto
  show "timer_top s = Some t \<Longrightarrow> t \<in> T \<and> (\<forall>x \<in> T. key s t \<le> key s x)" for t
    using queue_top(2) [OF xs(1)] xs(2) by blast
  show "\<exists>s' T'. fire_one call s t = Some (Inr s') \<and> (patient h A call \<and> running s' A T') \<and>
      (\<forall>x \<in> T - {t}. key s' x = key s x) \<and> (T' = T - {t} \<or> T' = T \<and> h < key s' t)" if t: "t \<in> T" for t
  proof -
    have "t \<in> A" and fl: "in_heap (timers s t)" using s t by (auto simp: running_def)
    with stop_timer_ok [of s A T t] s t obtain s1 where s1: "remove_from_heap s t = Some (Inr s1)"
      "running (upd t (\<lambda>r. r\<lparr>in_heap := False\<rparr>) s1) A (T - {t})" "\<And>x. key s1 x = key s x" by blast
    define s2 where "s2 = upd t (\<lambda>r. r\<lparr>in_heap := False\<rparr>) s1"
    define s' where "s' = call (handler (timers s2 t)) s2 t (user_data (timers s2 t))"
    have r2: "running s2 A (T - {t})" "t \<in> A - (T - {t})" using s1(2) \<open>t \<in> A\<close> by (auto simp: s2_def)
    have k2: "key s2 x = key s x" for x using s1(3) [of x] s1(3) [of t] by (simp add: s2_def)
    have p: "\<forall>x \<in> T - {t}. key s' x = key s2 x"
      "running s' A (T - {t}) \<or> running s' A (insert t (T - {t})) \<and> h < key s' t"
      using s r2 unfolding patient_def s'_def by blast+
    have eq: "insert t (T - {t}) = T" using t by auto
    have "fire_one call s t = Some (Inr s')" using s1(1) by (simp add: fire_one_def Let_def s'_def s2_def)
    with s p k2 show ?thesis unfolding eq by (metis (no_types, lifting))
  qed
qed

lemma fire_timers_drain:
  "map_option (\<lambda>r. bind_res r (\<lambda>(ts, wait, s'). Inr (ts, s'))) (fire_timers call s nows) =
    drain timer_top (fire_one call) key nows s"
proof (induction nows arbitrary: s)
  case (Cons now nows)
  show ?case
  proof (cases "timer_top s")
    case (Some t)
    show ?thesis
    proof (cases "remove_from_heap s t")
      case None
      with Some show ?thesis by (simp add: fire_one_def)
    next
      case r: (Some r)
      then show ?thesis
      proof (cases r)
        case (Inl e)
        with Some r show ?thesis by (simp add: fire_one_def)
      next
        case (Inr s1)
        define s3 where "s3 = (let s2 = upd t (\<lambda>t. t\<lparr>in_heap := False\<rparr>) s1
          in call (handler (timers s2 t)) s2 t (user_data (timers s2 t)))"
        have f: "fire_one call s t = Some (Inr s3)" using r Inr by (simp add: fire_one_def s3_def Let_def)
        have "fire_timers call s (now # nows) = (if key s t \<le> now then
            map_option (\<lambda>r. bind_res r (\<lambda>(ts, wait, s). Inr (t # ts, wait, s))) (fire_timers call s3 nows)
            else Some (Inr ([], Some (diff_timeval (key s t) now), s)))"
          using Some r Inr by (simp add: s3_def Let_def)
        moreover have "drain timer_top (fire_one call) key (now # nows) s = (if key s t \<le> now then
            map_option (\<lambda>r. bind_res r (\<lambda>(ts, s2). Inr (t # ts, s2))) (drain timer_top (fire_one call) key nows s3)
            else Some (Inr ([], s)))"
          using Some f by simp
        ultimately show ?thesis
          unfolding Cons.IH [of s3, symmetric]
          by (cases "fire_timers call s3 nows") (auto simp: bind_res_def split: sum.splits)
      qed
    qed
  qed simp
qed simp

text \<open>C32: One round of the event loop, with a clock that advances and handlers that may start their
  timer again, as \<^verbatim>\<open>got_timeout\<close> does: it ends, no timer is fired twice, they are fired in the order of
  their times, every timer that was due when the round began is fired and only timers that are due
  at the last reading are, all others run on with their times, and what runs again after it was
  fired runs for a time behind the horizon.  The round is over before the horizon: with timers that
  are started again for one second later it lasts less than a second.  There are more readings of
  the clock than timers that fall due.\<close>

theorem due_timers_fire_in_order:
  assumes "running s A T" and "patient horizon A call" and "sorted nows" and "\<forall>now \<in> set nows. now \<le> horizon"
    and "card {t \<in> T. timeout (timers s t) \<le> horizon} < length nows"
  shows "\<exists>ts wait s' T'. fire_timers call s nows = Some (Inr (ts, wait, s')) \<and>
    distinct ts \<and> sorted (map (\<lambda>t. timeout (timers s t)) ts) \<and>
    {t \<in> T. timeout (timers s t) \<le> hd nows} \<subseteq> set ts \<and> set ts \<subseteq> {t \<in> T. timeout (timers s t) \<le> last nows} \<and>
    running s' A T' \<and> T - set ts \<subseteq> T' \<and> T' \<subseteq> T \<and>
    (\<forall>t \<in> T - set ts. timeout (timers s' t) = timeout (timers s t)) \<and>
    (\<forall>t \<in> T' \<inter> set ts. horizon < timeout (timers s' t))"
proof -
  have ok: "patient horizon A call \<and> running s A T" using assms(1,2) by simp
  obtain ts s' T' where ts: "drain timer_top (fire_one call) key nows s = Some (Inr (ts, s'))"
    "timer.fired horizon A call nows s T ts s' T'"
    using timer.drain_due [OF ok assms(3) _ assms(5)] assms(4) by blast
  from ts(1) obtain wait where "fire_timers call s nows = Some (Inr (ts, wait, s'))"
    using fire_timers_drain [of call s nows] by (auto simp: res_simps split: prod.splits)
  with ts(2) show ?thesis unfolding timer.fired_def by blast
qed

text \<open>What \<^verbatim>\<open>got_timeout\<close> does to the timers: its timer is started again for one second after its own
  reading of the clock.\<close>

definition restart :: "timeval \<Rightarrow> ('h, 'd) timer_call" where
  "restart now hn s t ud =
     (case sel_start_timer s t (Timeval (tv_sec now + 1) (tv_usec now)) of Some (Inr (Inr s')) \<Rightarrow> s' | _ \<Rightarrow> s)"

lemma restart_patient:
  assumes "finite A" and "card A < 2 ^ 32" and "horizon < Timeval (tv_sec now + 1) (tv_usec now)"
  shows "patient horizon A (restart now)"
  unfolding patient_def
proof (intro allI impI)
  fix hn and s :: "('a, 'b) selector" and t ud T
  assume s: "running s A T" "t \<in> A - T"
  then have "T \<subset> A" by (auto simp: running_def)
  then have "card T < card A" by (rule psubset_card_mono [OF assms(1)])
  with assms(2) have c: "card T + 1 < 2 ^ 32" by linarith
  have t: "t \<in> A" "t \<notin> T" using s(2) by simp_all
  obtain s' where s': "sel_start_timer s t (Timeval (tv_sec now + 1) (tv_usec now)) = Some (Inr (Inr s'))" "running s' A (insert t T)"
    "timeout (timers s' t) = Timeval (tv_sec now + 1) (tv_usec now)" "\<forall>x. x \<noteq> t \<longrightarrow> timeout (timers s' x) = timeout (timers s x)"
    using start_timer_ok [OF s(1) t(1) c t(2), of "Timeval (tv_sec now + 1) (tv_usec now)"] by blast
  have r: "restart now hn s t ud = s'" using s'(1) by (simp add: restart_def)
  have "timeout (timers s' x) = timeout (timers s x)" if "x \<in> T" for x
    using s'(4)[rule_format, of x] that t(2) by (cases "x = t") simp_all
  then have "\<forall>x \<in> T. timeout (timers s' x) = timeout (timers s x)" by blast
  with s'(2,3) assms(3) show "(\<forall>x \<in> T. timeout (timers (restart now hn s t ud) x) = timeout (timers s x)) \<and>
     (running (restart now hn s t ud) A T \<or>
      running (restart now hn s t ud) A (insert t T) \<and> horizon < timeout (timers (restart now hn s t ud) t))"
    unfolding r by simp
qed

text \<open>Three timers, of which 7 and 5 run, for seconds 1 and 2.\<close>

definition demo_timer :: "int \<Rightarrow> bool \<Rightarrow> ptr option \<Rightarrow> ptr option \<Rightarrow> (unit, unit) sel_timer" where
  "demo_timer sec ih l u = \<lparr>handler = (), user_data = (), timeout = Timeval sec 0, in_heap = ih, left = l, right = None, up = u\<rparr>"

definition demo_sel :: "(unit, unit) selector" where
  "demo_sel = \<lparr>timers = (\<lambda>t. if t = 7 then demo_timer 1 True (Some 5) None else if t = 5 then demo_timer 2 True None (Some 7)
       else demo_timer 0 False None None),
     timer_top = Some 7, timer_last = Some 5, fds = replicate FD_SETSIZE init_fd, read_set = {}, write_set = {},
     except_set = {}, maxfd = -1, user_sighup_handler = None, got_sighup = False\<rparr>"

lemma demo_sel_running: "running demo_sel {5, 7, 9} {5, 7}"
proof -
  have k: "k < Suc (Suc 0) \<longleftrightarrow> k = 0 \<or> k = 1" for k by auto
  have "queue demo_sel [7, 5]"
    by (simp add: queue_def shaped_def heap_ord_def demo_sel_def demo_timer_def nth_ptr_def k less_eq_timeval_def all_conj_distrib)
      (auto simp: less_eq_timeval_def)
  then have "queue demo_sel [7, 5] \<and> set [7, 5] = {5, 7 :: nat}" by auto
  then have "\<exists>xs. queue demo_sel xs \<and> set xs = {5, 7}" by blast
  then show ?thesis by (simp add: running_def) (simp add: demo_sel_def demo_timer_def)
qed

theorem start_timer_correct_witness:
  "\<exists>s'. sel_start_timer demo_sel 9 (Timeval 0 5) = Some (Inr (Inr s')) \<and> running s' {5, 7, 9} {9, 5, 7}"
  using start_timer_correct [OF demo_sel_running, of 9 "Timeval 0 5"] by auto

theorem stop_timer_correct_witness:
  "\<exists>s'. sel_stop_timer demo_sel 7 = Some (Inr (Inr s')) \<and> running s' {5, 7, 9} {5}"
proof -
  have "{5, 7} - {7} = {5 :: ptr}" by auto
  then show ?thesis using stop_timer_correct [OF demo_sel_running, of 7] by auto
qed

theorem due_timers_fire_in_order_witness:
  "\<exists>ts wait s' T'. fire_timers (restart (Timeval 1 600000)) demo_sel [Timeval 1 500000, Timeval 1 700000, Timeval 1 800000] =
      Some (Inr (ts, wait, s')) \<and> set ts = {7} \<and> running s' {5, 7, 9} T' \<and> 5 \<in> T'"
proof -
  let ?h = "Timeval 1 900000" and ?nows = "[Timeval 1 500000, Timeval 1 700000, Timeval 1 800000]"
  have le: "Timeval a b \<le> Timeval c d \<longleftrightarrow> a < c \<or> a = c \<and> b \<le> d" for a b c d by (auto simp: less_eq_timeval_def)
  have due: "{t \<in> {5, 7}. timeout (timers demo_sel t) \<le> Timeval 1 x} = {7}" if "0 \<le> x" for x
    using that by (auto simp: demo_sel_def demo_timer_def le)
  have lt: "?h < Timeval (tv_sec (Timeval 1 600000) + 1) (tv_usec (Timeval 1 600000))" by (simp add: less_le le)
  have p: "patient ?h {5, 7, 9} (restart (Timeval 1 600000) :: (unit, unit) timer_call)"
    by (rule restart_patient [OF _ _ lt]) simp_all
  have nows: "sorted ?nows" "\<forall>now \<in> set ?nows. now \<le> ?h" by (simp_all add: le)
  have c: "card {t \<in> {5, 7}. timeout (timers demo_sel t) \<le> ?h} < length ?nows" 
    using arg_cong [OF due [of 900000], of card] by (simp del: insert_iff)
  obtain ts wait s' T' where r: "fire_timers (restart (Timeval 1 600000)) demo_sel ?nows = Some (Inr (ts, wait, s'))"
    "{t \<in> {5, 7}. timeout (timers demo_sel t) \<le> hd ?nows} \<subseteq> set ts" "set ts \<subseteq> {t \<in> {5, 7}. timeout (timers demo_sel t) \<le> last ?nows}"
    "running s' {5, 7, 9} T'" "{5, 7} - set ts \<subseteq> T'"
    using due_timers_fire_in_order [OF demo_sel_running p nows c] by (elim exE conjE) (rule that; assumption)
  have "{7} \<subseteq> set ts" by (rule subset_trans [OF _ r(2)]) (simp add: demo_sel_def demo_timer_def le)
  moreover have "set ts \<subseteq> {7}" by (rule subset_trans [OF r(3)]) (use due [of 800000] in simp)
  ultimately have "set ts = {7}" by blast
  moreover then have "5 \<in> T'" using r(5) by auto
  ultimately show ?thesis using r(1,4) by blast
qed

section \<open>File descriptors\<close>

text \<open>\<^verbatim>\<open>maxfd\<close> is the largest descriptor in use, -1 if there is none.\<close>

definition fds_ok :: "('h, 'd) selector \<Rightarrow> bool" where
  "fds_ok s \<longleftrightarrow> length (fds s) = FD_SETSIZE \<and> -1 \<le> maxfd s \<and> maxfd s < int FD_SETSIZE \<and>
     (0 \<le> maxfd s \<longrightarrow> in_use (fds s ! nat (maxfd s))) \<and>
     (\<forall>i < FD_SETSIZE. in_use (fds s ! i) \<longrightarrow> int i \<le> maxfd s)"

datatype ('h, 'd) fd_op =
    Set_handlers int "'d option" "'h option" "'h option" "'h option"
  | Clear_handlers int
  | Set_read int "bool option"
  | Set_write int "bool option"
  | Set_except int "bool option"

fun fd_step :: "('h, 'd) selector \<Rightarrow> ('h, 'd) fd_op \<Rightarrow> ('h, 'd) selector res" where
  "fd_step s (Set_handlers fd d r w e) = sel_set_fd_handlers s fd d r w e"
| "fd_step s (Clear_handlers fd) = sel_clear_fd_handlers s fd"
| "fd_step s (Set_read fd st) = sel_set_fd_read_handler s fd st"
| "fd_step s (Set_write fd st) = sel_set_fd_write_handler s fd st"
| "fd_step s (Set_except fd st) = sel_set_fd_except_handler s fd st"

fun fd_legal :: "('h, 'd) fd_op \<Rightarrow> bool" where
  "fd_legal (Set_handlers fd d r w e) = fd_ok fd"
| "fd_legal (Clear_handlers fd) = fd_ok fd"
| "fd_legal (Set_read fd st) = fd_ok fd"
| "fd_legal (Set_write fd st) = fd_ok fd"
| "fd_legal (Set_except fd st) = fd_ok fd"

lemma lower_maxfd:
  assumes "m < int FD_SETSIZE" and "-1 \<le> m" and "\<And>i. i < FD_SETSIZE \<Longrightarrow> in_use (f ! i) \<Longrightarrow> int i \<le> m"
  shows "-1 \<le> lower_maxfd f m \<and> lower_maxfd f m < int FD_SETSIZE \<and>
    (0 \<le> lower_maxfd f m \<longrightarrow> in_use (f ! nat (lower_maxfd f m))) \<and>
    (\<forall>i < FD_SETSIZE. in_use (f ! i) \<longrightarrow> int i \<le> lower_maxfd f m)"
  using assms
proof (induction f m rule: lower_maxfd.induct)
  case (1 f m)
  show ?case
  proof (cases "0 \<le> m \<and> \<not> in_use (f ! nat m)")
    case True
    have "int i \<le> m - 1" if "i < FD_SETSIZE" "in_use (f ! i)" for i
    proof -
      have "int i \<noteq> m" using True that(2) by auto
      with "1.prems"(3) [OF that] show ?thesis by simp
    qed
    with "1.IH" [OF True] "1.prems" True show ?thesis by (simp add: lower_maxfd.simps [of f m])
  next
    case False
    then have "lower_maxfd f m = m" by (auto simp: lower_maxfd.simps [of f m])
    with False "1.prems" show ?thesis by auto
  qed
qed

lemma set_handlers_ok:
  assumes "fds_ok s" and "fd_ok fd"
  shows "\<exists>s'. sel_set_fd_handlers s fd d r w e = Inr s' \<and> fds_ok s'"
proof -
  obtain i where i: "fd = int i" "i < FD_SETSIZE" using assms(2) by (auto simp: fd_ok_def dest: zero_le_imp_eq_int)
  have "fds_ok (if maxfd s < int i then s\<lparr>fds := (fds s)[i := c], maxfd := int i\<rparr> else s\<lparr>fds := (fds s)[i := c]\<rparr>)"
    if "in_use c" for c
    using assms(1) i(2) that by (auto simp: fds_ok_def nth_list_update)
  then show ?thesis using i assms(2) by (auto simp: sel_set_fd_handlers_def Let_def)
qed

lemma clear_handlers_ok:
  assumes "fds_ok s" and "fd_ok fd"
  shows "\<exists>s'. sel_clear_fd_handlers s fd = Inr s' \<and> fds_ok s'"
proof -
  obtain i where i: "fd = int i" "i < FD_SETSIZE" using assms(2) by (auto simp: fd_ok_def dest: zero_le_imp_eq_int)
  let ?f = "(fds s)[i := init_fd]"
  have f: "in_use (?f ! j) \<longleftrightarrow> j \<noteq> i \<and> in_use (fds s ! j)" if "j < FD_SETSIZE" for j
    using assms(1) i(2) that by (auto simp: fds_ok_def nth_list_update init_fd_def)
  have "\<And>j. j < FD_SETSIZE \<Longrightarrow> in_use (?f ! j) \<Longrightarrow> int j \<le> maxfd s" using f assms(1) by (simp add: fds_ok_def)
  from lower_maxfd [OF _ _ this] assms(1) have "int i = maxfd s \<Longrightarrow> fds_ok (s\<lparr>fds := ?f, maxfd := lower_maxfd ?f (maxfd s)\<rparr>)"
    by (simp add: fds_ok_def)
  moreover have "int i \<noteq> maxfd s \<Longrightarrow> fds_ok (s\<lparr>fds := ?f\<rparr>)"
    using f [of "nat (maxfd s)"] f assms(1) by (auto simp: fds_ok_def)
  ultimately show ?thesis using i assms(2) by (auto simp: sel_clear_fd_handlers_def Let_def fds_ok_def)
qed

interpretation fd: safe_stepping fd_step fds_ok fd_legal
proof
  fix s :: "('a, 'b) selector" and e :: "('a, 'b) fd_op"
  assume s: "fds_ok s" "fd_legal e"
  have ex: "\<exists>s'. fd_step s e = Inr s' \<and> fds_ok s'"
  proof -
    have same: "fds_ok (s\<lparr>read_set := st\<rparr>) \<and> fds_ok (s\<lparr>write_set := st\<rparr>) \<and> fds_ok (s\<lparr>except_set := st\<rparr>)" for st
      using s(1) by (simp add: fds_ok_def)
    show ?thesis
      using s(2) same set_handlers_ok [OF s(1)] clear_handlers_ok [OF s(1)]
      by (cases e) (simp_all add: sel_set_fd_read_handler_def sel_set_fd_write_handler_def sel_set_fd_except_handler_def)
  qed
  then show "\<exists>s'. fd_step s e = Inr s'" by blast
  show "fd_step s e = Inr s' \<Longrightarrow> fds_ok s'" for s' using ex by auto
qed

text \<open>From the selector that \<^verbatim>\<open>sel_alloc_selector\<close> makes: \<^verbatim>\<open>maxfd\<close> is not initialised, it holds \<open>m\<close>.\<close>

definition maxfd_from :: "int \<Rightarrow> ('h, 'd) selector \<Rightarrow> bool" where
  "maxfd_from m s \<longleftrightarrow> length (fds s) = FD_SETSIZE \<and> (\<forall>i < FD_SETSIZE. in_use (fds s ! i) \<longrightarrow> int i \<le> maxfd s) \<and>
     (maxfd s = m \<or> fds_ok s)"

lemma maxfd_from_step:
  assumes "maxfd_from m s" and "fd_legal e"
  shows "\<exists>s'. fd_step s e = Inr s' \<and> maxfd_from m s'"
proof (cases "fds_ok s")
  case True
  obtain s' where "fd_step s e = Inr s'" "fds_ok s'" using fd.step_safe [OF True assms(2)] fd.step_inv [OF True assms(2)] by blast
  then show ?thesis by (auto simp: maxfd_from_def fds_ok_def)
next
  case False
  then have s: "length (fds s) = FD_SETSIZE" "\<And>i. i < FD_SETSIZE \<Longrightarrow> in_use (fds s ! i) \<Longrightarrow> int i \<le> maxfd s" "maxfd s = m"
    using assms(1) by (auto simp: maxfd_from_def)
  have same: "maxfd_from m (s\<lparr>read_set := st\<rparr>) \<and> maxfd_from m (s\<lparr>write_set := st\<rparr>) \<and> maxfd_from m (s\<lparr>except_set := st\<rparr>)" for st
  proof -
    have "fds_ok (s\<lparr>read_set := st\<rparr>) = fds_ok s" "fds_ok (s\<lparr>write_set := st\<rparr>) = fds_ok s" "fds_ok (s\<lparr>except_set := st\<rparr>) = fds_ok s"
      by (simp_all add: fds_ok_def)
    with assms(1) show ?thesis by (simp add: maxfd_from_def)
  qed
  have set: "maxfd_from m (if maxfd s < int i then s\<lparr>fds := (fds s)[i := c], maxfd := int i\<rparr> else s\<lparr>fds := (fds s)[i := c]\<rparr>)"
    if "in_use c" "i < FD_SETSIZE" for i c
    using s that by (fastforce simp: maxfd_from_def fds_ok_def nth_list_update)
  have clear: "maxfd_from m (if int i = maxfd s then s\<lparr>fds := (fds s)[i := init_fd], maxfd := lower_maxfd ((fds s)[i := init_fd]) (maxfd s)\<rparr>
      else s\<lparr>fds := (fds s)[i := init_fd]\<rparr>)" if "i < FD_SETSIZE" for i
  proof -
    let ?f = "(fds s)[i := init_fd]"
    have f: "\<And>j. j < FD_SETSIZE \<Longrightarrow> in_use (?f ! j) \<Longrightarrow> int j \<le> maxfd s"
      using s(1,2) that by (auto simp: nth_list_update init_fd_def split: if_splits)
    have "maxfd_from m (s\<lparr>fds := ?f, maxfd := lower_maxfd ?f (maxfd s)\<rparr>)" if "int i = maxfd s"
      using lower_maxfd [OF _ _ f] \<open>i < FD_SETSIZE\<close> that s(1) by (auto simp: maxfd_from_def fds_ok_def)
    with f s(1,3) show ?thesis by (simp add: maxfd_from_def)
  qed
  show ?thesis
  proof (cases e)
    case (Set_handlers fd d r w x)
    then obtain i where "fd = int i" "i < FD_SETSIZE" using assms(2) by (auto simp: fd_ok_def dest: zero_le_imp_eq_int)
    with set [of _ i] Set_handlers assms(2) show ?thesis by (auto simp: sel_set_fd_handlers_def Let_def)
  next
    case (Clear_handlers fd)
    then obtain i where i: "fd = int i" "i < FD_SETSIZE" using assms(2) by (auto simp: fd_ok_def dest: zero_le_imp_eq_int)
    have "maxfd_from m (t\<lparr>read_set := a, write_set := b, except_set := c\<rparr>) = maxfd_from m t" for t :: "('a, 'b) selector" and a b c
      by (simp add: maxfd_from_def fds_ok_def)
    with clear [OF i(2)] i Clear_handlers assms(2) show ?thesis
      by (cases s) (auto simp: sel_clear_fd_handlers_def maxfd_from_def fds_ok_def Let_def split: if_splits)
  qed (use same assms(2) in \<open>simp_all add: sel_set_fd_read_handler_def sel_set_fd_write_handler_def sel_set_fd_except_handler_def\<close>)
qed

interpretation fresh_fd: safe_stepping fd_step "maxfd_from m" fd_legal for m
proof
  fix s :: "('a, 'b) selector" and e :: "('a, 'b) fd_op"
  assume s: "maxfd_from m s" "fd_legal e"
  note ex = maxfd_from_step [OF s]
  then show "\<exists>s'. fd_step s e = Inr s'" by blast
  show "fd_step s e = Inr s' \<Longrightarrow> maxfd_from m s'" for s' using ex by auto
qed

text \<open>C33: From the selector that \<^verbatim>\<open>sel_alloc_selector\<close> makes of a block with any content, every
  sequence of registrations, removals and enablings of descriptors from 0 to 1023 succeeds, and no
  registered descriptor is above \<^verbatim>\<open>maxfd\<close>, so that \<^verbatim>\<open>select\<close> looks at all of them.  \<^verbatim>\<open>maxfd\<close> is
  exactly the largest registered descriptor, or -1 if there is none, unless it still holds the value
  that it had in the block; it always is if that value was -1.\<close>

theorem fd_bookkeeping:
  assumes "sel_alloc_selector (Some garbage) = Some s" and "list_all fd_legal ops"
  shows "\<exists>s'. run_steps fd_step s ops = Inr s' \<and> length (fds s') = FD_SETSIZE \<and>
    (\<forall>i < FD_SETSIZE. in_use (fds s' ! i) \<longrightarrow> int i \<le> maxfd s') \<and>
    (maxfd s' \<noteq> maxfd garbage \<or> maxfd garbage = -1 \<longrightarrow> fds_ok s')"
proof -
  have s: "fds s = replicate FD_SETSIZE init_fd" "maxfd s = maxfd garbage" using assms(1) by (auto simp: sel_alloc_selector_def)
  then have "maxfd_from (maxfd garbage) s" by (simp add: maxfd_from_def init_fd_def)
  from fresh_fd.run_safe [OF this assms(2)] obtain s' where
    s': "run_steps fd_step s ops = Inr s'" "maxfd_from (maxfd garbage) s'" by blast
  have "fds_ok s'" if "maxfd garbage = -1"
  proof -
    have "fds_ok s" using s that by (simp add: fds_ok_def init_fd_def FD_SETSIZE_def)
    from fd.run_safe [OF this assms(2)] s'(1) show ?thesis by auto
  qed
  with s' show ?thesis by (auto simp: maxfd_from_def)
qed

theorem fd_bookkeeping_witness:
  "\<exists>s s'. sel_alloc_selector (Some (demo_sel\<lparr>maxfd := 4\<rparr>)) = Some s \<and>
    run_steps fd_step s [Set_handlers 5 None None None None, Set_handlers 3 None None None None, Clear_handlers 5] = Inr s' \<and>
    (maxfd s' \<noteq> 4 \<longrightarrow> fds_ok s')"
proof -
  obtain s where "sel_alloc_selector (Some (demo_sel\<lparr>maxfd := 4\<rparr>)) = Some s" by (simp add: sel_alloc_selector_def)
  with fd_bookkeeping [OF this, of "[Set_handlers 5 None None None None, Set_handlers 3 None None None None, Clear_handlers 5]"]
  show ?thesis by (auto simp: fd_ok_def FD_SETSIZE_def)
qed

text \<open>\<^verbatim>\<open>sel_alloc_selector\<close> does not set \<^verbatim>\<open>maxfd\<close>.  If the block it gets happens to hold a
  value beyond the tables, no valid registration or removal ever corrects it, and the first
  round in which \<^verbatim>\<open>select\<close> reports anything runs off the end of the tables.\<close>

lemma fd_step_garbage:
  assumes "int FD_SETSIZE \<le> maxfd s" and "fd_legal e" and "fd_step s e = Inr s'"
  shows "maxfd s' = maxfd s"
  using assms
  by (cases e) (auto simp: fd_ok_def sel_set_fd_handlers_def sel_clear_fd_handlers_def sel_set_fd_read_handler_def
      sel_set_fd_write_handler_def sel_set_fd_except_handler_def Let_def split: if_splits)

lemma dispatch_overrun:
  assumes "\<And>hn s i d. maxfd (call hn s i d) = maxfd s" and "int FD_SETSIZE \<le> maxfd s" and "i \<le> FD_SETSIZE"
  shows "dispatch call r w e i s = Inl Out_of_bounds"
  using assms
proof (induction call r w e i s rule: dispatch.induct)
  case (1 call r w e i s)
  show ?case
  proof (cases "FD_SETSIZE \<le> i")
    case True
    then have "\<not> maxfd s < int i" using "1.prems"(2,3) by simp
    with True show ?thesis by (subst dispatch.simps) simp
  next
    case False
    then have "fd_ok (int i)" by (simp add: fd_ok_def)
    then have rd: "\<exists>s1. dispatch_read call r i s = Inr s1 \<and> maxfd s1 = maxfd s"
      and wr: "\<exists>s1. dispatch_write call w i s = Inr s1 \<and> maxfd s1 = maxfd s"
      and ex: "\<exists>s1. dispatch_except call e i s = Inr s1 \<and> maxfd s1 = maxfd s" for s
      using "1.prems"(1)
      by (auto simp: dispatch_read_def dispatch_write_def dispatch_except_def sel_set_fd_read_handler_def
          sel_set_fd_write_handler_def sel_set_fd_except_handler_def split: option.split)
    obtain s1 where s1: "dispatch_read call r i s = Inr s1" "maxfd s1 = maxfd s" using rd by blast
    obtain s2 where s2: "dispatch_write call w i s1 = Inr s2" "maxfd s2 = maxfd s1" using wr by blast
    obtain s3 where s3: "dispatch_except call e i s2 = Inr s3" "maxfd s3 = maxfd s2" using ex by blast
    have m: "\<not> maxfd s < int i" using False "1.prems"(2) by linarith
    have "dispatch call r w e (i + 1) s3 = Inl Out_of_bounds"
      by (rule "1.IH" [OF m False]) (use s1 s2 s3 "1.prems" False in auto)
    with m False s1 s2 s3 show ?thesis by (simp add: dispatch.simps [of call r w e i s])
  qed
qed

text \<open>A selector whose \<^verbatim>\<open>maxfd\<close> came out of \<^verbatim>\<open>malloc\<close> with a value beyond the tables
  keeps it through every sequence of valid calls, and dispatching the first ready descriptors
  then reads behind the tables.\<close>

theorem uninitialised_maxfd:
  assumes "int FD_SETSIZE \<le> maxfd garbage" and "sel_alloc_selector (Some garbage) = Some s"
    and "list_all fd_legal ops" and "run_steps fd_step s ops = Inr s'"
    and "\<And>hn s i d. maxfd (call hn s i d) = maxfd s"
  shows "dispatch call r w e 0 s' = Inl Out_of_bounds"
proof -
  have "int FD_SETSIZE \<le> maxfd s" using assms(1,2) by (auto simp: sel_alloc_selector_def)
  with assms(3,4) have "int FD_SETSIZE \<le> maxfd s'"
  proof (induction ops arbitrary: s)
    case (Cons e ops)
    then obtain s1 where "fd_step s e = Inr s1" "run_steps fd_step s1 ops = Inr s'" by (auto simp: res_simps)
    with Cons fd_step_garbage [of s e s1] show ?case by auto
  qed simp
  then show ?thesis by (intro dispatch_overrun [OF assms(5)]) simp_all
qed

theorem uninitialised_maxfd_witness:
  "\<exists>s. sel_alloc_selector (Some (demo_sel\<lparr>maxfd := 100000\<rparr>)) = Some s \<and>
     dispatch (\<lambda>hn s i d. s) {} {} {} 0 s = Inl Out_of_bounds"
proof -
  obtain s where s: "sel_alloc_selector (Some (demo_sel\<lparr>maxfd := 100000\<rparr>)) = Some s" by (simp add: sel_alloc_selector_def)
  have "dispatch (\<lambda>hn s i d. s) {} {} {} 0 s = Inl Out_of_bounds"
    by (rule uninitialised_maxfd [OF _ s, of "[]"]) (simp_all add: FD_SETSIZE_def)
  with s show ?thesis by blast
qed

end
