(* ===== verification/Utils.thy ===== *)
theory Utils
  imports C_Prelude "HOL-Library.Word"
begin

text \<open>
  Scanning of numbers and addresses in ser2net (\<^verbatim>\<open>src/ser2net/utils.c\<close>), and the library
  function \<^verbatim>\<open>strtok_r\<close> that all configuration text is split with.  An \<^verbatim>\<open>int\<close> has 32 bits
  and its overflow is a fault.  Name lookup is an argument of the definitions.
\<close>

section \<open>Tokens\<close>

text \<open>The pointer that \<^verbatim>\<open>strtok_r\<close> keeps is the rest of the string; the result is the token
  and the new rest.\<close>

definition strtok_r :: "string \<Rightarrow> string \<Rightarrow> string option \<times> string" where
  "strtok_r delim s =
     (let t = dropWhile (\<lambda>c. c \<in> set delim) s in
      if t = [] then (None, [])
      else (Some (takeWhile (\<lambda>c. c \<notin> set delim) t), drop 1 (dropWhile (\<lambda>c. c \<notin> set delim) t)))"

lemma strtok_shorter: "strtok_r delim s = (Some tok, rest) \<Longrightarrow> length rest < length s"
proof -
  assume a: "strtok_r delim s = (Some tok, rest)"
  let ?t = "dropWhile (\<lambda>c. c \<in> set delim) s"
  have t: "?t \<noteq> []" and r: "rest = drop 1 (dropWhile (\<lambda>c. c \<notin> set delim) ?t)"
    using a by (auto simp: strtok_r_def Let_def split: if_splits)
  from t obtain c u where u: "?t = c # u" by (cases ?t) auto
  then have "c \<notin> set delim" using hd_dropWhile [of "\<lambda>c. c \<in> set delim" s] t by simp
  moreover have "length (dropWhile (\<lambda>c. c \<notin> set delim) u) \<le> length u" by (rule length_dropWhile_le)
  moreover have "length ?t \<le> length s" by (rule length_dropWhile_le)
  ultimately show ?thesis using r u by auto
qed

text \<open>A loop over all tokens of a string.\<close>

function tokens :: "string \<Rightarrow> string \<Rightarrow> string list" where
  "tokens delim s = (case strtok_r delim s of (None, _) \<Rightarrow> [] | (Some tok, rest) \<Rightarrow> tok # tokens delim rest)"
  by pat_completeness auto
termination
  by (relation "measure (\<lambda>(delim, s). length s)") (auto dest: strtok_shorter [OF sym])

declare tokens.simps [simp del]

section \<open>Numbers\<close>

definition INT_MAX :: int where "INT_MAX = 2147483647"

fun scan_digits :: "int \<Rightarrow> string \<Rightarrow> int res" where
  "scan_digits rv [] = Inr rv"
| "scan_digits rv (c # str) =
     (if is_digit c then
        (let rv' = rv * 10 + int (digit_val c) in
         if INT_MAX < rv' then Inl Int_overflow else scan_digits rv' str)
      else Inr (-1))"

definition scan_int :: "string \<Rightarrow> int res" where
  "scan_int str = (if str = [] then Inr (-1) else scan_digits 0 str)"

section \<open>TCP ports\<close>

definition INADDR_ANY :: "32 word" where "INADDR_ANY = 0"
definition INADDR_NONE :: "32 word" where "INADDR_NONE = 0xFFFFFFFF"

text \<open>\<open>gethostbyname\<close> yields for a known name whether it is an \<^verbatim>\<open>AF_INET\<close> address, and the
  address.  The result is \<open>None\<close> for the code -1 and otherwise the address and the port number,
  of which \<^verbatim>\<open>htons\<close> keeps 16 bits.\<close>

definition scan_tcp_port ::
  "(string \<Rightarrow> 32 word) \<Rightarrow> (string \<Rightarrow> (bool \<times> 32 word) option) \<Rightarrow> string \<Rightarrow> (32 word \<times> 16 word) option res" where
  "scan_tcp_port inet_addr gethostbyname str =
     (let (ip, rest) = strtok_r '','' str; (port, _) = strtok_r '''' rest;
          with_port = (\<lambda>addr p. bind_res (scan_int p) (\<lambda>port_num.
             Inr (if port_num = -1 then None else Some (addr, word_of_int port_num)))) in
      case port of
        None \<Rightarrow> (case ip of None \<Rightarrow> Inl Null_pointer | Some p \<Rightarrow> with_port INADDR_ANY p)
      | Some p \<Rightarrow>
          (case ip of
             None \<Rightarrow> Inl Null_pointer
           | Some name \<Rightarrow>
               if inet_addr name = INADDR_NONE then
                 (case gethostbyname name of
                    None \<Rightarrow> Inr None
                  | Some (inet, addr) \<Rightarrow> if inet then with_port addr p else Inr None)
               else with_port (inet_addr name) p))"

section \<open>Properties\<close>

text \<open>The value of a string of digits.\<close>

definition digits_value :: "string \<Rightarrow> int" where
  "digits_value str = foldl (\<lambda>v c. v * 10 + int (digit_val c)) 0 str"

lemma digits_from: "0 \<le> v \<Longrightarrow> v \<le> foldl (\<lambda>v c. v * 10 + int (digit_val c)) v str"
proof (induction str arbitrary: v)
  case (Cons c str)
  have "v \<le> v * 10 + int (digit_val c)" using Cons.prems by simp
  also have "\<dots> \<le> foldl (\<lambda>v c. v * 10 + int (digit_val c)) (v * 10 + int (digit_val c)) str"
    using Cons.prems by (intro Cons.IH) simp
  finally show ?case by simp
qed simp

lemma scan_digits_value:
  "list_all is_digit str \<Longrightarrow> 0 \<le> v \<Longrightarrow> v \<le> INT_MAX \<Longrightarrow>
   scan_digits v str = (let r = foldl (\<lambda>v c. v * 10 + int (digit_val c)) v str in if r \<le> INT_MAX then Inr r else Inl Int_overflow)"
proof (induction str arbitrary: v)
  case (Cons c str)
  let ?v = "v * 10 + int (digit_val c)"
  show ?case
  proof (cases "?v \<le> INT_MAX")
    case True
    with Cons.IH [of ?v] Cons.prems show ?thesis by (simp add: Let_def)
  next
    case False
    moreover have "?v \<le> foldl (\<lambda>v c. v * 10 + int (digit_val c)) ?v str" using Cons.prems by (intro digits_from) simp
    ultimately show ?thesis using Cons.prems by (simp add: Let_def)
  qed
qed (simp add: Let_def)

lemma scan_digits_bad: "0 \<le> v \<Longrightarrow> \<not> list_all is_digit str \<Longrightarrow> scan_digits v str = Inr (-1) \<or> scan_digits v str = Inl Int_overflow"
  by (induction str arbitrary: v) (auto simp: Let_def)

lemma digits_value_nat: "foldl (\<lambda>v c. v * 10 + int (digit_val c)) (int n) ds = int (foldl (\<lambda>n c. 10 * n + digit_val c) n ds)"
proof (induction ds arbitrary: n)
  case (Cons c ds)
  have "int n * 10 + int (digit_val c) = int (10 * n + digit_val c)" by simp
  with Cons.IH [of "10 * n + digit_val c"] show ?case by (simp only: foldl_Cons)
qed simp

lemma show_nat_value:
  "list_all is_digit (show_nat n) \<and> digits_value (show_nat n) = int n \<and> show_nat n \<noteq> []"
  using show_nat_digits [of n] digits_value_nat [of 0 "show_nat n"] by (simp add: digits_value_def)

text \<open>\<^verbatim>\<open>scan_int\<close> reads back every number that an \<^verbatim>\<open>int\<close> can hold from its decimal digits,
  overflows on every larger one, answers -1 for the empty string, and for a string with
  another character either answers -1 or has overflowed before it saw the character.\<close>

theorem scan_int_correct:
  "scan_int (show_nat n) = (if int n \<le> INT_MAX then Inr (int n) else Inl Int_overflow) \<and>
   scan_int [] = Inr (-1) \<and>
   (\<not> list_all is_digit str \<longrightarrow> scan_int str = Inr (-1) \<or> scan_int str = Inl Int_overflow)"
  using scan_digits_value [of "show_nat n" 0] show_nat_value [of n] scan_digits_bad [of 0 str]
  by (auto simp: scan_int_def digits_value_def INT_MAX_def Let_def)

theorem scan_int_correct_witness:
  "scan_int (show_nat 80) = Inr 80 \<and> (scan_int ''12x'' = Inr (-1) \<or> scan_int ''12x'' = Inl Int_overflow)"
  using scan_int_correct [of 80 "''12x''"] by (simp add: is_digit_def INT_MAX_def)

lemma scan_int_number: "scan_int (show_nat n) = (if int n \<le> INT_MAX then Inr (int n) else Inl Int_overflow)"
  using scan_digits_value [of "show_nat n" 0] show_nat_value [of n]
  by (simp add: scan_int_def digits_value_def INT_MAX_def Let_def)

lemma strtok_whole:
  assumes "s \<noteq> []" and "set s \<inter> set delim = {}"
  shows "strtok_r delim s = (Some s, [])"
proof -
  have no: "\<forall>c \<in> set s. c \<notin> set delim" using assms(2) by auto
  then have "takeWhile (\<lambda>c. c \<notin> set delim) s = s" "dropWhile (\<lambda>c. c \<notin> set delim) s = []"
    by (simp_all add: takeWhile_eq_all_conv)
  moreover have "dropWhile (\<lambda>c. c \<in> set delim) s = s" using assms(1) no by (cases s) auto
  ultimately show ?thesis using assms(1) by (simp add: strtok_r_def del: drop_eq_Nil dropWhile_eq_Nil_conv)
qed

lemma show_nat_no_comma: "CHR '','' \<notin> set (show_nat n)"
proof
  assume "CHR '','' \<in> set (show_nat n)"
  then have "is_digit (CHR '','')" using show_nat_digits [of n] unfolding list_all_iff by blast
  then show False by (simp add: is_digit_def)
qed

text \<open>A port specification that is a plain number is taken modulo 65536, so that 65536 is
  the port 0, which stands for the standard input; one that consists of commas only is read
  through a NULL pointer.\<close>

theorem scan_tcp_port_number:
  "scan_tcp_port ia gh (show_nat n) = (if int n \<le> INT_MAX then Inr (Some (INADDR_ANY, of_nat n)) else Inl Int_overflow) \<and>
   scan_tcp_port ia gh (show_nat 65536) = Inr (Some (INADDR_ANY, 0)) \<and>
   scan_tcp_port ia gh (replicate k (CHR '','')) = Inl Null_pointer"
proof -
  have num: "scan_tcp_port ia gh (show_nat n) = (if int n \<le> INT_MAX then Inr (Some (INADDR_ANY, of_nat n)) else Inl Int_overflow)" for n
    using strtok_whole [of "show_nat n" "'',''"] show_nat_no_comma [of n] show_nat_value [of n]
    by (auto simp: scan_tcp_port_def scan_int_number Let_def strtok_r_def [of "''''"])
  have "strtok_r '','' (replicate k (CHR '','')) = (None, [])"
    by (simp add: strtok_r_def Let_def)
  then have "scan_tcp_port ia gh (replicate k (CHR '','')) = Inl Null_pointer"
    by (simp add: scan_tcp_port_def strtok_r_def [of "''''"])
  with num [of n] num [of 65536] show ?thesis by (simp add: INT_MAX_def)
qed

end
