(* ===== verification/Devcfg.thy ===== *)
theory Devcfg
  imports Utils
begin

text \<open>
  Device configuration of ser2net (\<^verbatim>\<open>src/ser2net/devcfg.c\<close>): the settings of a serial port,
  their textual form in the configuration file and on the control port.  The flag words of
  \<^verbatim>\<open>struct termios\<close> are records of the flags that the program uses; the codes of the
  operating system for the baud rates (\<^verbatim>\<open>B300\<close>, ...) are a function \<open>B\<close> of the rate, an
  argument of the definitions.
\<close>

section \<open>Settings\<close>

datatype char_size = CS5 | CS6 | CS7 | CS8

record termios =
  c_ospeed :: int
  c_ispeed :: int
  c_size :: char_size
  cstopb :: bool
  parenb :: bool
  parodd :: bool
  clocal :: bool
  hupcl :: bool
  cread :: bool
  crtscts :: bool
  ixon :: bool
  ixoff :: bool
  ixany :: bool
  ignbrk :: bool
  vstart :: nat
  vstop :: nat

record trace_info =
  hexdump :: bool
  timestamp :: bool
  trace_file :: "string option"

record dev_info =
  termctl :: termios
  allow_2217 :: bool
  disablebreak :: bool
  banner :: "string option"
  trace_read :: trace_info
  trace_write :: trace_info
  trace_both :: trace_info

definition set_speed :: "int \<Rightarrow> termios \<Rightarrow> termios" where
  "set_speed code t = t\<lparr>c_ospeed := code, c_ispeed := code\<rparr>"

definition cfmakeraw :: "termios \<Rightarrow> termios" where
  "cfmakeraw t = t\<lparr>ignbrk := False, ixon := False, c_size := CS8, parenb := False\<rparr>"

definition devinit :: "(int \<Rightarrow> int) \<Rightarrow> termios \<Rightarrow> termios" where
  "devinit B t = (set_speed (B 9600) (cfmakeraw t))\<lparr>cstopb := False, c_size := CS8, parenb := False, clocal := False,
     hupcl := False, cread := True, crtscts := False, ixon := False, ixoff := False, ixany := False, ignbrk := True\<rparr>"

section \<open>Configuration strings\<close>

text \<open>The lists of banners and trace files of \<^verbatim>\<open>readconfig.c\<close> are searched from the front.\<close>

definition no_trace :: trace_info where
  "no_trace = \<lparr>hexdump = False, timestamp = False, trace_file = None\<rparr>"

abbreviation upd_termctl :: "(termios \<Rightarrow> termios) \<Rightarrow> dev_info \<Rightarrow> dev_info" where
  "upd_termctl f d \<equiv> d\<lparr>termctl := f (termctl d)\<rparr>"

abbreviation upd_traces :: "(trace_info \<Rightarrow> trace_info) \<Rightarrow> dev_info \<Rightarrow> dev_info" where
  "upd_traces f d \<equiv> d\<lparr>trace_read := f (trace_read d), trace_write := f (trace_write d), trace_both := f (trace_both d)\<rparr>"

text \<open>Setting an option of a trace; a leading minus switches it off.\<close>

definition set_hexdump :: "string \<Rightarrow> trace_info \<Rightarrow> trace_info" where
  "set_hexdump p t = t\<lparr>hexdump := peek p \<noteq> CHR ''-''\<rparr>"

definition set_timestamp :: "string \<Rightarrow> trace_info \<Rightarrow> trace_info" where
  "set_timestamp p t = t\<lparr>timestamp := peek p \<noteq> CHR ''-''\<rparr>"

definition speed_tokens :: "(string \<times> int) list" where
  "speed_tokens = [(''300'', 300), (''1200'', 1200), (''2400'', 2400), (''4800'', 4800), (''9600'', 9600),
     (''19200'', 19200), (''38400'', 38400), (''57600'', 57600), (''115200'', 115200)]"

definition termctl_tokens :: "(string \<times> (termios \<Rightarrow> termios)) list" where
  "termctl_tokens =
    [(''1STOPBIT'', \<lambda>t. t\<lparr>cstopb := False\<rparr>), (''2STOPBITS'', \<lambda>t. t\<lparr>cstopb := True\<rparr>),
     (''7DATABITS'', \<lambda>t. t\<lparr>c_size := CS7\<rparr>), (''8DATABITS'', \<lambda>t. t\<lparr>c_size := CS8\<rparr>),
     (''NONE'', \<lambda>t. t\<lparr>parenb := False\<rparr>), (''EVEN'', \<lambda>t. t\<lparr>parenb := True, parodd := False\<rparr>),
     (''ODD'', \<lambda>t. t\<lparr>parenb := True, parodd := True\<rparr>),
     (''XONXOFF'', \<lambda>t. t\<lparr>ixon := True, ixoff := True, ixany := True, vstart := 17, vstop := 19\<rparr>),
     (''-XONXOFF'', \<lambda>t. t\<lparr>ixon := False, ixoff := False, ixany := False\<rparr>),
     (''RTSCTS'', \<lambda>t. t\<lparr>crtscts := True\<rparr>), (''-RTSCTS'', \<lambda>t. t\<lparr>crtscts := False\<rparr>),
     (''LOCAL'', \<lambda>t. t\<lparr>clocal := True\<rparr>), (''-LOCAL'', \<lambda>t. t\<lparr>clocal := False\<rparr>),
     (''HANGUP_WHEN_DONE'', \<lambda>t. t\<lparr>hupcl := True\<rparr>), (''-HANGUP_WHEN_DONE'', \<lambda>t. t\<lparr>hupcl := False\<rparr>)]"

text \<open>The part of the chain of comparisons behind the settings of the line.\<close>

definition other_token ::
  "(string \<times> string) list \<Rightarrow> (string \<times> string) list \<Rightarrow> string \<Rightarrow> dev_info \<Rightarrow> dev_info option" where
  "other_token banners tracefiles p d =
     (if p = ''remctl'' then Some (d\<lparr>allow_2217 := True\<rparr>)
      else if p = ''NOBREAK'' then Some (d\<lparr>disablebreak := True\<rparr>)
      else if p = ''hexdump'' \<or> p = ''-hexdump'' then Some (upd_traces (set_hexdump p) d)
      else if p = ''timestamp'' \<or> p = ''-timestamp'' then Some (upd_traces (set_timestamp p) d)
      else if p = ''tr-hexdump'' \<or> p = ''-tr-hexdump'' then Some (d\<lparr>trace_read := set_hexdump p (trace_read d)\<rparr>)
      else if p = ''tr-timestamp'' \<or> p = ''-tr-timestamp'' then Some (d\<lparr>trace_read := set_timestamp p (trace_read d)\<rparr>)
      else if p = ''tw-hexdump'' \<or> p = ''-tw-hexdump'' then Some (d\<lparr>trace_write := set_hexdump p (trace_write d)\<rparr>)
      else if p = ''tw-timestamp'' \<or> p = ''-tw-timestamp'' then Some (d\<lparr>trace_write := set_timestamp p (trace_write d)\<rparr>)
      else if p = ''tb-hexdump'' \<or> p = ''-tb-hexdump'' then Some (d\<lparr>trace_both := set_hexdump p (trace_both d)\<rparr>)
      else if p = ''tb-timestamp'' \<or> p = ''-tb-timestamp'' then Some (d\<lparr>trace_both := set_timestamp p (trace_both d)\<rparr>)
      else if starts_with ''tr='' p then Some (d\<lparr>trace_read := (trace_read d)\<lparr>trace_file := map_of tracefiles (drop 3 p)\<rparr>\<rparr>)
      else if starts_with ''tw='' p then Some (d\<lparr>trace_write := (trace_write d)\<lparr>trace_file := map_of tracefiles (drop 3 p)\<rparr>\<rparr>)
      else if starts_with ''tb='' p then Some (d\<lparr>trace_both := (trace_both d)\<lparr>trace_file := map_of tracefiles (drop 3 p)\<rparr>\<rparr>)
      else (case map_of banners p of None \<Rightarrow> None | Some s \<Rightarrow> Some (d\<lparr>banner := Some s\<rparr>)))"

definition config_token ::
  "(int \<Rightarrow> int) \<Rightarrow> (string \<times> string) list \<Rightarrow> (string \<times> string) list \<Rightarrow> string \<Rightarrow> dev_info \<Rightarrow> dev_info option" where
  "config_token B banners tracefiles p d =
     (case map_of speed_tokens p of
        Some rate \<Rightarrow> Some (upd_termctl (set_speed (B rate)) d)
      | None \<Rightarrow>
          (case map_of termctl_tokens p of
             Some f \<Rightarrow> Some (upd_termctl f d)
           | None \<Rightarrow> other_token banners tracefiles p d))"

text \<open>An unknown token leaves the banner NULL and ends the loop with -1 (\<^const>\<open>False\<close>).\<close>

fun config_tokens ::
  "(int \<Rightarrow> int) \<Rightarrow> (string \<times> string) list \<Rightarrow> (string \<times> string) list \<Rightarrow> string list \<Rightarrow> dev_info \<Rightarrow> bool \<times> dev_info" where
  "config_tokens B banners tracefiles [] d = (True, d)"
| "config_tokens B banners tracefiles (p # ps) d =
     (case config_token B banners tracefiles p d of
        None \<Rightarrow> (False, d\<lparr>banner := None\<rparr>)
      | Some d' \<Rightarrow> config_tokens B banners tracefiles ps d')"

text \<open>\<open>mem\<close>: \<^verbatim>\<open>strdup\<close> gets its memory.\<close>

definition devconfig ::
  "bool \<Rightarrow> (int \<Rightarrow> int) \<Rightarrow> (string \<times> string) list \<Rightarrow> (string \<times> string) list \<Rightarrow> string \<Rightarrow> dev_info \<Rightarrow> bool \<times> dev_info" where
  "devconfig mem B banners tracefiles instr d =
     (if \<not> mem then (False, d)
      else config_tokens B banners tracefiles (tokens ('', '' @ [CHR 0x09]) instr)
        (d\<lparr>allow_2217 := False, disablebreak := False, banner := None,
           trace_read := no_trace, trace_write := no_trace, trace_both := no_trace\<rparr>))"

section \<open>Showing the settings\<close>

definition baud_string :: "(int \<Rightarrow> int) \<Rightarrow> int \<Rightarrow> string" where
  "baud_string B speed =
     (if speed = B 300 then ''300'' else if speed = B 1200 then ''1200'' else if speed = B 2400 then ''2400''
      else if speed = B 4800 then ''4800'' else if speed = B 9600 then ''9600'' else if speed = B 19200 then ''19200''
      else if speed = B 38400 then ''38400'' else if speed = B 57600 then ''57600''
      else if speed = B 115200 then ''115200'' else ''unknown speed'')"

definition serparm_to_str :: "(int \<Rightarrow> int) \<Rightarrow> nat \<Rightarrow> termios \<Rightarrow> string" where
  "serparm_to_str B len t =
     take (len - 1)
       (baud_string B (c_ospeed t) @ '' '' @
        [if parenb t then (if parodd t then CHR ''O'' else CHR ''E'') else CHR ''N'',
         case c_size t of CS7 \<Rightarrow> CHR ''7'' | CS8 \<Rightarrow> CHR ''8'' | _ \<Rightarrow> CHR ''?'',
         if cstopb t then CHR ''2'' else CHR ''1''])"

text \<open>What \<^verbatim>\<open>show_devcfg\<close> hands to \<^verbatim>\<open>controller_output\<close>, piece by piece.\<close>

definition show_devcfg :: "(int \<Rightarrow> int) \<Rightarrow> termios \<Rightarrow> string" where
  "show_devcfg B t =
     baud_string B (c_ospeed t) @ '' '' @
     (if ixon t \<and> ixoff t \<and> ixany t then ''XONXOFF '' else '''') @
     (if crtscts t then ''RTSCTS '' else '''') @
     (if clocal t then ''LOCAL '' else '''') @
     (if hupcl t then ''HANGUP_WHEN_DONE '' else '''') @
     (if cstopb t then ''2STOPBITS'' else ''1STOPBIT'') @ '' '' @
     (case c_size t of CS7 \<Rightarrow> ''7DATABITS'' | CS8 \<Rightarrow> ''8DATABITS'' | _ \<Rightarrow> ''unknown databits'') @ '' '' @
     (if parenb t then (if parodd t then ''ODD'' else ''EVEN'') else ''NONE'')"

section \<open>Showing and reading back\<close>

lemma tokens_word:
  assumes "w \<noteq> []" and "set w \<inter> set delim = {}" and "c \<in> set delim"
  shows "tokens delim (w @ c # s) = w # tokens delim s"
proof -
  have no: "\<forall>x \<in> set w. x \<notin> set delim" using assms(2) by auto
  have "dropWhile (\<lambda>x. x \<in> set delim) (w @ c # s) = w @ c # s" using assms(1) no by (cases w) auto
  moreover have "takeWhile (\<lambda>x. x \<notin> set delim) (w @ c # s) = w" "dropWhile (\<lambda>x. x \<notin> set delim) (w @ c # s) = c # s"
    using no assms(3) by (simp_all add: takeWhile_append2 dropWhile_append2)
  ultimately have "strtok_r delim (w @ c # s) = (Some w, s)" by (simp add: strtok_r_def)
  then show ?thesis by (simp add: tokens.simps [of delim "w @ c # s"])
qed

lemma tokens_last: "w \<noteq> [] \<Longrightarrow> set w \<inter> set delim = {} \<Longrightarrow> tokens delim w = [w]"
  by (simp add: tokens.simps [of delim w] strtok_whole) (simp add: tokens.simps strtok_r_def)

lemma config_tokens_append:
  "config_tokens B bs ts (xs @ ys) d =
     (case config_tokens B bs ts xs d of (True, d') \<Rightarrow> config_tokens B bs ts ys d' | (False, d') \<Rightarrow> (False, d'))"
  by (induction xs arbitrary: d) (auto split: option.splits)

definition shown_rates :: "int list" where
  "shown_rates = [300, 1200, 2400, 4800, 9600, 19200, 38400, 57600, 115200]"

text \<open>The words that are shown, each with its effect when it is read.\<close>

definition shown_words :: "(int \<Rightarrow> int) \<Rightarrow> termios \<Rightarrow> (string \<times> (termios \<Rightarrow> termios)) list" where
  "shown_words B t =
     [(baud_string B (c_ospeed t), set_speed (c_ospeed t))] @
     (if ixon t \<and> ixoff t \<and> ixany t
      then [(''XONXOFF'', \<lambda>t. t\<lparr>ixon := True, ixoff := True, ixany := True, vstart := 17, vstop := 19\<rparr>)] else []) @
     (if crtscts t then [(''RTSCTS'', \<lambda>t. t\<lparr>crtscts := True\<rparr>)] else []) @
     (if clocal t then [(''LOCAL'', \<lambda>t. t\<lparr>clocal := True\<rparr>)] else []) @
     (if hupcl t then [(''HANGUP_WHEN_DONE'', \<lambda>t. t\<lparr>hupcl := True\<rparr>)] else []) @
     [if cstopb t then (''2STOPBITS'', \<lambda>t. t\<lparr>cstopb := True\<rparr>) else (''1STOPBIT'', \<lambda>t. t\<lparr>cstopb := False\<rparr>),
      if c_size t = CS7 then (''7DATABITS'', \<lambda>t. t\<lparr>c_size := CS7\<rparr>) else (''8DATABITS'', \<lambda>t. t\<lparr>c_size := CS8\<rparr>),
      if parenb t then (if parodd t then (''ODD'', \<lambda>t. t\<lparr>parenb := True, parodd := True\<rparr>)
        else (''EVEN'', \<lambda>t. t\<lparr>parenb := True, parodd := False\<rparr>)) else (''NONE'', \<lambda>t. t\<lparr>parenb := False\<rparr>)]"

lemma baud_string_shown:
  assumes "inj_on B (set shown_rates)" and "r \<in> set shown_rates"
  shows "map_of speed_tokens (baud_string B (B r)) = Some r"
proof -
  have eq: "B x = B y \<longleftrightarrow> x = y" if "x \<in> set shown_rates" "y \<in> set shown_rates" for x y
    using assms(1) that by (auto dest: inj_onD)
  have "r = 300 \<or> r = 1200 \<or> r = 2400 \<or> r = 4800 \<or> r = 9600 \<or> r = 19200 \<or> r = 38400 \<or> r = 57600 \<or> r = 115200"
    using assms(2) by (simp add: shown_rates_def)
  then show ?thesis
    by (elim disjE) (simp_all add: baud_string_def eq shown_rates_def speed_tokens_def)
qed

definition readable :: "(int \<Rightarrow> int) \<Rightarrow> termios \<Rightarrow> bool" where
  "readable B t \<longleftrightarrow> inj_on B (set shown_rates) \<and> c_ospeed t \<in> B ` set shown_rates \<and> (c_size t = CS7 \<or> c_size t = CS8)"

lemma shown_words_tokens: "set (tl (shown_words B t)) \<subseteq> set termctl_tokens"
  by (auto simp: shown_words_def termctl_tokens_def split: if_splits)

lemma termctl_tokens_found:
  assumes "(w, f) \<in> set termctl_tokens"
  shows "map_of termctl_tokens w = Some f \<and> map_of speed_tokens w = None"
proof -
  have "\<forall>(w, f) \<in> set termctl_tokens. map_of termctl_tokens w = Some f \<and> map_of speed_tokens w = None"
    unfolding termctl_tokens_def speed_tokens_def by simp
  with assms show ?thesis by blast
qed

lemma shown_words_read:
  assumes "readable B t" and "(w, f) \<in> set (shown_words B t)"
  shows "config_token B bs ts w d = Some (upd_termctl f d)"
proof -
  obtain r where r: "c_ospeed t = B r" "r \<in> set shown_rates" using assms(1) by (auto simp: readable_def)
  have sp: "map_of speed_tokens (baud_string B (c_ospeed t)) = Some r"
    using baud_string_shown [of B r] assms(1) r by (simp add: readable_def)
  have "shown_words B t = (baud_string B (c_ospeed t), set_speed (c_ospeed t)) # tl (shown_words B t)"
    by (simp add: shown_words_def)
  with assms(2) consider "w = baud_string B (c_ospeed t)" "f = set_speed (c_ospeed t)" | "(w, f) \<in> set (tl (shown_words B t))"
    by (metis fst_conv set_ConsD snd_conv)
  then show ?thesis
  proof cases
    case 1
    with sp r show ?thesis by (simp add: config_token_def)
  next
    case 2
    with shown_words_tokens [of B t] have "(w, f) \<in> set termctl_tokens" by blast
    then show ?thesis using termctl_tokens_found by (simp add: config_token_def)
  qed
qed

lemma config_shown:
  assumes "\<And>w f d. (w, f) \<in> set ws \<Longrightarrow> config_token B bs ts w d = Some (upd_termctl f d)"
  shows "config_tokens B bs ts (map fst ws) d = (True, upd_termctl (fold snd ws) d)"
  using assms
proof (induction ws arbitrary: d)
  case (Cons x ws)
  obtain w f where x: "x = (w, f)" by (cases x)
  then have c: "config_token B bs ts w d = Some (upd_termctl f d)" by (simp add: Cons.prems)
  have "config_tokens B bs ts (map fst ws) (upd_termctl f d) = (True, upd_termctl (fold snd ws) (upd_termctl f d))"
    by (rule Cons.IH) (simp add: Cons.prems)
  then show ?case by (simp add: x c)
qed simp

lemma show_devcfg_words:
  assumes "readable B t"
  shows "tokens ('', '' @ [CHR 0x09]) (show_devcfg B t) = map fst (shown_words B t)"
proof -
  let ?D = "'', '' @ [CHR 0x09]"
  obtain r where r: "c_ospeed t = B r" "r \<in> set shown_rates" using assms by (auto simp: readable_def)
  have "map_of speed_tokens (baud_string B (c_ospeed t)) = Some r"
    using baud_string_shown [of B r] assms r by (simp add: readable_def)
  then have b: "baud_string B (c_ospeed t) \<noteq> []" "set (baud_string B (c_ospeed t)) \<inter> set ?D = {}"
    by (auto simp: speed_tokens_def split: if_splits)
  let ?stop = "if cstopb t then ''2STOPBITS'' else ''1STOPBIT''" and ?bits = "if c_size t = CS7 then ''7DATABITS'' else ''8DATABITS''"
    and ?par = "if parenb t then (if parodd t then ''ODD'' else ''EVEN'') else ''NONE''"
  have word: "tokens ?D (w @ '' '' @ s) = w # tokens ?D s" if "w \<noteq> []" "set w \<inter> set ?D = {}" for w s
    using tokens_word [OF that, of "CHR '' ''" s] by simp
  have opt: "tokens ?D ((if c then w @ '' '' else []) @ s) = (if c then [w] else []) @ tokens ?D s"
    if "w \<noteq> []" "set w \<inter> set ?D = {}" for c w s
    using word [OF that, of s] by simp
  have last: "tokens ?D ?par = [?par]" by (rule tokens_last) simp_all
  have stop: "tokens ?D (?stop @ '' '' @ s) = ?stop # tokens ?D s"
    and bits: "tokens ?D (?bits @ '' '' @ s) = ?bits # tokens ?D s" for s
    by (rule word; simp)+
  have shown: "show_devcfg B t = baud_string B (c_ospeed t) @ '' '' @
      (if ixon t \<and> ixoff t \<and> ixany t then ''XONXOFF'' @ '' '' else []) @ (if crtscts t then ''RTSCTS'' @ '' '' else []) @
      (if clocal t then ''LOCAL'' @ '' '' else []) @ (if hupcl t then ''HANGUP_WHEN_DONE'' @ '' '' else []) @
      ?stop @ '' '' @ ?bits @ '' '' @ ?par"
    using assms unfolding readable_def show_devcfg_def by auto
  have "tokens ?D (show_devcfg B t) = baud_string B (c_ospeed t) # (if ixon t \<and> ixoff t \<and> ixany t then [''XONXOFF''] else []) @
      (if crtscts t then [''RTSCTS''] else []) @ (if clocal t then [''LOCAL''] else []) @
      (if hupcl t then [''HANGUP_WHEN_DONE''] else []) @ [?stop, ?bits, ?par]"
    unfolding shown
    by (subst word [OF b], subst opt, simp, simp, subst opt, simp, simp, subst opt, simp, simp, subst opt, simp, simp,
        subst stop, subst bits, subst last, rule refl)
  also have "\<dots> = map fst (shown_words B t)" by (simp add: shown_words_def)
  finally show ?thesis .
qed

lemma fold_option: "fold snd (if c then [(w, f)] else []) t = (if c then f t else t)"
  "fold snd [if c then (w, f) else (v, g)] t = (if c then f t else g t)"
  "fold snd ((if c then (w, f) else (v, g)) # ws) t = fold snd ws (if c then f t else g t)"
  by simp_all

text \<open>Optional settings as unconditional updates.\<close>

lemma update_if:
  "(if c then t\<lparr>crtscts := True\<rparr> else t) = t\<lparr>crtscts := c \<or> crtscts t\<rparr>"
  "(if c then t\<lparr>clocal := True\<rparr> else t) = t\<lparr>clocal := c \<or> clocal t\<rparr>"
  "(if c then t\<lparr>hupcl := True\<rparr> else t) = t\<lparr>hupcl := c \<or> hupcl t\<rparr>"
  "(if c then t\<lparr>cstopb := True\<rparr> else t\<lparr>cstopb := False\<rparr>) = t\<lparr>cstopb := c\<rparr>"
  "(if c then t\<lparr>c_size := CS7\<rparr> else t\<lparr>c_size := CS8\<rparr>) = t\<lparr>c_size := if c then CS7 else CS8\<rparr>"
  "(if c then t\<lparr>ixon := True, ixoff := True, ixany := True, vstart := 17, vstop := 19\<rparr> else t) =
     t\<lparr>ixon := c \<or> ixon t, ixoff := c \<or> ixoff t, ixany := c \<or> ixany t, vstart := if c then 17 else vstart t,
       vstop := if c then 19 else vstop t\<rparr>"
  by (cases t; simp)+

lemma fold_parity:
  "fold snd [if p then (if q then (v, \<lambda>t. t\<lparr>parenb := True, parodd := True\<rparr>) else (w, \<lambda>t. t\<lparr>parenb := True, parodd := False\<rparr>))
     else (u, \<lambda>t. t\<lparr>parenb := False\<rparr>)] t = t\<lparr>parenb := p, parodd := if p then q else parodd t\<rparr>"
  by (cases t) simp

text \<open>C37: What \<^verbatim>\<open>show_devcfg\<close> prints is a valid configuration string: \<^verbatim>\<open>devconfig\<close> accepts it, and
  for a freshly initialised port it sets the line to exactly the settings that were shown, for
  all settings with a rate that has a name, 7 or 8 data bits and flow control characters used
  in both directions or not at all.\<close>

theorem devcfg_roundtrip:
  assumes "readable B t" and "ixon t = ixoff t" and "ixany t = ixoff t" and "termctl d = devinit B t0"
  shows "\<exists>d'. devconfig True B banners tracefiles (show_devcfg B t) d = (True, d') \<and>
    c_ospeed (termctl d') = c_ospeed t \<and> c_ispeed (termctl d') = c_ospeed t \<and> c_size (termctl d') = c_size t \<and>
    cstopb (termctl d') = cstopb t \<and> parenb (termctl d') = parenb t \<and> (parenb t \<longrightarrow> parodd (termctl d') = parodd t) \<and>
    crtscts (termctl d') = crtscts t \<and> clocal (termctl d') = clocal t \<and> hupcl (termctl d') = hupcl t \<and>
    ixon (termctl d') = ixon t \<and> ixoff (termctl d') = ixoff t \<and> ixany (termctl d') = ixany t"
proof -
  let ?d0 = "d\<lparr>allow_2217 := False, disablebreak := False, banner := None,
     trace_read := no_trace, trace_write := no_trace, trace_both := no_trace\<rparr>"
  let ?t' = "fold snd (shown_words B t) (devinit B t0)"
  have "config_tokens B banners tracefiles (map fst (shown_words B t)) ?d0 = (True, upd_termctl (fold snd (shown_words B t)) ?d0)"
    by (rule config_shown) (rule shown_words_read [OF assms(1)])
  then have "devconfig True B banners tracefiles (show_devcfg B t) d = (True, upd_termctl (fold snd (shown_words B t)) ?d0)"
    by (simp only: devconfig_def show_devcfg_words [OF assms(1)] not_True_eq_False if_False)
  moreover have "c_ospeed ?t' = c_ospeed t \<and> c_ispeed ?t' = c_ospeed t \<and> c_size ?t' = c_size t \<and> cstopb ?t' = cstopb t \<and>
    parenb ?t' = parenb t \<and> (parenb t \<longrightarrow> parodd ?t' = parodd t) \<and> crtscts ?t' = crtscts t \<and> clocal ?t' = clocal t \<and>
    hupcl ?t' = hupcl t \<and> ixon ?t' = ixon t \<and> ixoff ?t' = ixoff t \<and> ixany ?t' = ixany t"
    using assms(1-3)
    by (simp add: shown_words_def readable_def set_speed_def devinit_def cfmakeraw_def fold_option fold_parity update_if split del: if_split)
      auto
  ultimately show ?thesis using assms(4) by (intro exI [of _ "upd_termctl (fold snd (shown_words B t)) ?d0"]) simp
qed

definition demo_termios :: termios where
  "demo_termios = \<lparr>c_ospeed = 19200, c_ispeed = 19200, c_size = CS7, cstopb = True, parenb = True, parodd = True,
     clocal = True, hupcl = False, cread = True, crtscts = True, ixon = False, ixoff = False, ixany = False,
     ignbrk = True, vstart = 17, vstop = 19\<rparr>"

definition demo_dev_info :: dev_info where
  "demo_dev_info = \<lparr>termctl = devinit (\<lambda>r. r) demo_termios, allow_2217 = True, disablebreak = False, banner = None,
     trace_read = no_trace, trace_write = no_trace, trace_both = no_trace\<rparr>"

theorem devcfg_roundtrip_witness:
  "\<exists>d'. devconfig True (\<lambda>r. r) [] [] (show_devcfg (\<lambda>r. r) demo_termios) demo_dev_info = (True, d') \<and>
    c_size (termctl d') = CS7 \<and> c_ospeed (termctl d') = 19200 \<and> crtscts (termctl d')"
  using devcfg_roundtrip [of "\<lambda>r. r" demo_termios demo_dev_info demo_termios "[]" "[]"]
  by (auto simp: readable_def demo_termios_def demo_dev_info_def shown_rates_def)

end
