(* ===== verification/Port_State.thy ===== *)
theory Port_State
  imports Telnet Selector Devcfg
begin

text \<open>
  A port of ser2net (\<^verbatim>\<open>src/ser2net/dataxfer.c\<close>): one connection between a TCP client and a
  serial device.  In the source the telnet data are a field of \<^verbatim>\<open>port_info_t\<close> and point back
  to the port; here \<open>conn\<close> holds the other fields and is the user data of the telnet data, so
  that a port is a \<^typ>\<open>'c telnet_data\<close> whose \<open>cb_data\<close> is a \<open>conn\<close>.  The selector, which is
  a global variable of the program, and what the connection has done to the outside are kept
  along.  Trace files are not modelled: the ports are those without any, for which the tracing
  code does nothing.
\<close>

section \<open>State\<close>

datatype port_mode = PORT_DISABLED | PORT_RAW | PORT_RAWLP | PORT_TELNET
datatype port_state = PORT_UNCONNECTED | PORT_WAITING_INPUT | PORT_WAITING_OUTPUT_CLEAR

text \<open>The functions that are registered with the selector, those of the control port among them.\<close>

datatype registered =
    Handle_dev_fd_read | Handle_dev_fd_write | Handle_dev_fd_except
  | Handle_tcp_fd_read | Handle_tcp_fd_write | Handle_tcp_fd_except
  | Handle_accept_port_read | Got_timeout
  | Controller_accept_port_read | Controller_tcp_fd_read | Controller_tcp_fd_write | Controller_tcp_fd_except

definition PORT_BUFSIZE :: nat where "PORT_BUFSIZE = 1024"

definition TN_BREAK :: byte where "TN_BREAK = 243"
definition TN_OPT_BINARY_TRANSMISSION :: byte where "TN_OPT_BINARY_TRANSMISSION = 0"
definition TN_OPT_ECHO :: byte where "TN_OPT_ECHO = 1"
definition TN_OPT_SUPPRESS_GO_AHEAD :: byte where "TN_OPT_SUPPRESS_GO_AHEAD = 3"
definition TN_OPT_COM_PORT :: byte where "TN_OPT_COM_PORT = 44"

text \<open>What the TCP connection carries to the client, in the order of the calls of \<^verbatim>\<open>write\<close>: data
  and telnet commands are one stream for the client, the constructors only say which call a byte
  came from.\<close>

datatype sent_byte = Tcp_data byte | Tcp_command byte

fun data_sent :: "sent_byte list \<Rightarrow> byte list" where
  "data_sent [] = []"
| "data_sent (Tcp_data b # ws) = b # data_sent ws"
| "data_sent (Tcp_command b # ws) = data_sent ws"

fun commands_sent :: "sent_byte list \<Rightarrow> byte list" where
  "commands_sent [] = []"
| "commands_sent (Tcp_data b # ws) = commands_sent ws"
| "commands_sent (Tcp_command b # ws) = b # commands_sent ws"

fun sent_byte_value :: "sent_byte \<Rightarrow> byte" where
  "sent_byte_value (Tcp_data b) = b"
| "sent_byte_value (Tcp_command b) = b"

lemma data_sent_append [simp]: "data_sent (a @ b) = data_sent a @ data_sent b"
  by (induction a rule: data_sent.induct) simp_all

lemma commands_sent_append [simp]: "commands_sent (a @ b) = commands_sent a @ commands_sent b"
  by (induction a rule: commands_sent.induct) simp_all

lemma sent_data [simp]: "data_sent (map Tcp_data bs) = bs" "commands_sent (map Tcp_data bs) = []"
  by (induction bs) simp_all

lemma sent_command [simp]: "data_sent (map Tcp_command bs) = []" "commands_sent (map Tcp_command bs) = bs"
  by (induction bs) simp_all

text \<open>A pointer to the controller that monitors a port.  The one for the device is not assigned by
  \<^verbatim>\<open>init_port_data\<close>: until a monitor is started or stopped it holds what \<^verbatim>\<open>malloc\<close> left, which is
  \<open>Wild\<close> when it happens to be not null.\<close>

datatype monitor = No_monitor | Monitored_by nat | Wild

text \<open>The modem lines, and the outside of a connection: the settings and the modem lines of
  the device (\<^const>\<open>None\<close>: the calls that read them fail), the number of breaks sent, the bytes
  that were read from the two sides and those that the two sides have accepted, and the bytes
  offered to the monitors with the controller that they are for.\<close>

record modem_lines =
  m_cd :: bool
  m_ri :: bool
  m_dsr :: bool
  m_cts :: bool
  m_dtr :: bool
  m_rts :: bool

record outside =
  tty :: "termios option"
  modem :: "modem_lines option"
  breaks_sent :: nat
  flushed :: "nat list"
  flow_off :: bool
  dev_in :: "byte list"
  tcp_in :: "byte list"
  dev_out :: "byte list"
  wire :: "sent_byte list"
  mon_out :: "(nat \<times> byte list) list"

abbreviation tcp_out :: "outside \<Rightarrow> byte list" where
  "tcp_out o' \<equiv> data_sent (wire o')"

abbreviation cmd_out :: "outside \<Rightarrow> byte list" where
  "cmd_out o' \<equiv> commands_sent (wire o')"

text \<open>What \<^verbatim>\<open>shutdown_port\<close> leaves to do: leave the program (a port on the standard input),
  delete the port, or replace it by its new configuration.\<close>

datatype after_close = Nothing | Exit_program | Delete_port | Replace_port

record conn =
  self :: nat
  enabled :: port_mode
  port_timeout :: int
  timeout_left :: int
  timer :: ptr
  portname :: string
  tcpport :: "32 word \<times> 16 word"
  acceptfd :: int
  tcpfd :: int
  tcp_bytes_received :: "32 word"
  tcp_bytes_sent :: "32 word"
  devname :: string
  devfd :: int
  dev_bytes_received :: "32 word"
  dev_bytes_sent :: "32 word"
  tcp_to_dev_state :: port_state
  tcp_to_dev_buf :: "byte list"
  tcp_to_dev_buf_start :: nat
  tcp_to_dev_buf_count :: int
  tcp_monitor :: monitor
  dev_to_tcp_state :: port_state
  dev_to_tcp_buf :: "byte list"
  dev_to_tcp_buf_start :: nat
  dev_to_tcp_buf_count :: int
  dev_monitor :: monitor
  config_num :: int
  new_config :: "nat option"
  is_2217 :: bool
  break_set :: bool
  linestate_mask :: byte
  modemstate_mask :: byte
  last_modemstate :: byte
  dinfo :: dev_info
  sel :: "(registered, nat) selector"
  outs :: outside
  after_shutdown :: after_close

type_synonym port = "conn telnet_data"

abbreviation upd_conn :: "(conn \<Rightarrow> conn) \<Rightarrow> port \<Rightarrow> port" where
  "upd_conn f td \<equiv> td\<lparr>cb_data := f (cb_data td)\<rparr>"

abbreviation upd_outs :: "(outside \<Rightarrow> outside) \<Rightarrow> conn \<Rightarrow> conn" where
  "upd_outs f c \<equiv> c\<lparr>outs := f (outs c)\<rparr>"

section \<open>Calls of the selector\<close>

definition with_sel ::
  "((registered, nat) selector \<Rightarrow> (registered, nat) selector res) \<Rightarrow> conn \<Rightarrow> conn res" where
  "with_sel f c = bind_res (f (sel c)) (\<lambda>s. Inr (c\<lparr>sel := s\<rparr>))"

definition on_conn :: "(conn \<Rightarrow> conn res) \<Rightarrow> port \<Rightarrow> port res" where
  "on_conn f td = bind_res (f (cb_data td)) (\<lambda>c. Inr (td\<lparr>cb_data := c\<rparr>))"

text \<open>Switching one side off for reading and the other on for writing, and back.\<close>

definition block :: "(conn \<Rightarrow> int) \<Rightarrow> (conn \<Rightarrow> int) \<Rightarrow> conn \<Rightarrow> conn res" where
  "block rd wr c =
     bind_res (with_sel (\<lambda>s. sel_set_fd_read_handler s (rd c) (Some False)) c) (\<lambda>c.
     with_sel (\<lambda>s. sel_set_fd_write_handler s (wr c) (Some True)) c)"

definition unblock :: "(conn \<Rightarrow> int) \<Rightarrow> (conn \<Rightarrow> int) \<Rightarrow> conn \<Rightarrow> conn res" where
  "unblock rd wr c =
     bind_res (with_sel (\<lambda>s. sel_set_fd_read_handler s (rd c) (Some True)) c) (\<lambda>c.
     with_sel (\<lambda>s. sel_set_fd_write_handler s (wr c) (Some False)) c)"

section \<open>Callbacks of the telnet layer\<close>

definition telnet_output_ready :: "port \<Rightarrow> port res" where
  "telnet_output_ready td = on_conn (block devfd tcpfd) td"

definition telnet_cmd_handler :: "port \<Rightarrow> byte \<Rightarrow> port res" where
  "telnet_cmd_handler td cmd =
     Inr (if cmd = TN_BREAK then upd_conn (upd_outs (\<lambda>o'. o'\<lparr>breaks_sent := breaks_sent o' + 1\<rparr>)) td else td)"

text \<open>The init sequence and the table of options at the start of the program.  The option
  handler is set for the option 44 only.\<close>

definition telnet_init_seq :: "byte list" where
  "telnet_init_seq =
     [TN_IAC, TN_WILL, TN_OPT_SUPPRESS_GO_AHEAD,
      TN_IAC, TN_WILL, TN_OPT_ECHO,
      TN_IAC, TN_DONT, TN_OPT_ECHO,
      TN_IAC, TN_DO, TN_OPT_BINARY_TRANSMISSION]"

definition table_entry :: "byte \<Rightarrow> bool \<Rightarrow> bool \<Rightarrow> bool \<Rightarrow> bool \<Rightarrow> bool \<Rightarrow> telnet_cmd" where
  "table_entry o' iwill ido sentwill sentdo handlers =
     \<lparr>opt = o', i_will = iwill, i_do = ido, sent_will = sentwill, sent_do = sentdo, rem_will = False, rem_do = False,
      option_handler = handlers, will_handler = handlers\<rparr>"

definition telnet_cmds :: "telnet_cmd list" where
  "telnet_cmds =
     [table_entry TN_OPT_SUPPRESS_GO_AHEAD False True True False False,
      table_entry TN_OPT_ECHO False True True True False,
      table_entry TN_OPT_BINARY_TRANSMISSION True True False True False,
      table_entry TN_OPT_COM_PORT True False False False True,
      table_entry 255 False False False False False]"

section \<open>Banners\<close>

definition add_port_tcp_char :: "byte \<Rightarrow> conn \<Rightarrow> conn" where
  "add_port_tcp_char ch c =
     (let ps = int (dev_to_tcp_buf_start c) + dev_to_tcp_buf_count c in
      if int PORT_BUFSIZE \<le> ps then c
      else c\<lparr>dev_to_tcp_buf := (dev_to_tcp_buf c)[nat ps := ch], dev_to_tcp_buf_count := dev_to_tcp_buf_count c + 1\<rparr>)"

definition char_byte :: "char \<Rightarrow> byte" where
  "char_byte ch = of_char ch"

definition add_port_tcp_string :: "string \<Rightarrow> conn \<Rightarrow> conn" where
  "add_port_tcp_string s c = fold (\<lambda>ch. add_port_tcp_char (char_byte ch)) s c"

text \<open>The two assignments are as in the source: the value is 65 or 97 plus 10 for every letter.\<close>

definition from_hex_digit :: "char \<Rightarrow> int" where
  "from_hex_digit c =
     (let n = of_char c :: int in
      if 48 \<le> n \<and> n \<le> 57 then n - 48
      else if 65 \<le> n \<and> n \<le> 70 then 65 + 10
      else if 97 \<le> n \<and> n \<le> 102 then 97 + 10
      else 0)"

definition is_xdigit :: "char \<Rightarrow> bool" where
  "is_xdigit c = (let n = of_char c :: nat in is_digit c \<or> 65 \<le> n \<and> n \<le> 70 \<or> 97 \<le> n \<and> n \<le> 102)"

definition is_octal :: "char \<Rightarrow> bool" where
  "is_octal c = (let n = of_char c :: nat in 48 \<le> n \<and> n \<le> 55)"

text \<open>A single letter behind a backslash.\<close>

definition simple_escape :: "char \<Rightarrow> byte option" where
  "simple_escape c =
     map_of [(CHR ''a'', 7), (CHR ''b'', 8), (CHR ''f'', 12), (CHR ''n'', 10), (CHR ''r'', 13), (CHR ''t'', 9),
       (CHR ''v'', 11), (CHR 0x5C, 92), (CHR ''?'', 63), (CHR 0x27, 39), (CHR 0x22, 34)] c"

text \<open>\<open>B\<close> gives the codes of the baud rates, as for \<^const>\<open>serparm_to_str\<close>.\<close>

fun banner_loop :: "(int \<Rightarrow> int) \<Rightarrow> string \<Rightarrow> conn \<Rightarrow> conn" where
  "banner_loop B [] c = c"
| "banner_loop B (ch # s) c =
     (if ch \<noteq> CHR 0x5C then banner_loop B s (add_port_tcp_char (char_byte ch) c)
      else
        (case s of
           [] \<Rightarrow> c
         | e # s1 \<Rightarrow>
             (case simple_escape e of
                Some b \<Rightarrow> banner_loop B s1 (add_port_tcp_char b c)
              | None \<Rightarrow>
                  if e = CHR ''d'' then banner_loop B s1 (add_port_tcp_string (devname c) c)
                  else if e = CHR ''p'' then banner_loop B s1 (add_port_tcp_string (portname c) c)
                  else if e = CHR ''s'' then
                    banner_loop B s1 (add_port_tcp_string (serparm_to_str B 15 (termctl (dinfo c))) c)
                  else if is_octal e then
                    (let v = int (digit_val e) in
                     case s1 of
                       [] \<Rightarrow> add_port_tcp_char (word_of_int v) c
                     | d # s2 \<Rightarrow>
                         if \<not> is_digit d then banner_loop B (d # s2) c
                         else
                           (case s2 of
                              [] \<Rightarrow> add_port_tcp_char (word_of_int (v * 8 + int (digit_val d))) c
                            | d' # s3 \<Rightarrow> if \<not> is_digit d' then banner_loop B (d' # s3) c else banner_loop B s3 c))
                  else if e = CHR ''x'' then
                    (case s1 of
                       [] \<Rightarrow> c
                     | d # s2 \<Rightarrow>
                         if \<not> is_xdigit d then banner_loop B (d # s2) c
                         else
                           (case s2 of
                              [] \<Rightarrow> add_port_tcp_char (word_of_int (from_hex_digit d)) c
                            | d' # s3 \<Rightarrow> if \<not> is_digit d' then banner_loop B (d' # s3) c else banner_loop B s3 c))
                  else banner_loop B s1 (add_port_tcp_char (char_byte e) c))))"

definition display_banner :: "(int \<Rightarrow> int) \<Rightarrow> conn \<Rightarrow> conn" where
  "display_banner B c = (case banner (dinfo c) of None \<Rightarrow> c | Some s \<Rightarrow> banner_loop B s c)"

end
