(* ===== verification/Rfc2217.thy ===== *)
theory Rfc2217
  imports Port_State
begin

text \<open>
  The COM port option of telnet (RFC 2217) in \<^verbatim>\<open>src/ser2net/dataxfer.c\<close>: baud rates,
  \<^verbatim>\<open>com_port_will\<close> and \<^verbatim>\<open>com_port_handler\<close>.  The calls on the device are \<^verbatim>\<open>tcgetattr\<close>,
  \<^verbatim>\<open>tcsetattr\<close> and \<^verbatim>\<open>ioctl\<close>: the first yields the settings \<^const>\<open>tty\<close>, the second gives
  the device new ones by the argument \<open>tcset\<close> (a device may take over less than it is
  asked for), and the modem lines are \<^const>\<open>modem\<close>.
\<close>

text \<open>\<open>brk_ok\<close>: the break calls of the device succeed.\<close>

record os_env =
  speed_code :: "int \<Rightarrow> int"
  cisco_ios_baud_rates :: bool
  tcset :: "termios \<Rightarrow> termios \<Rightarrow> termios"
  brk_ok :: bool

section \<open>Baud rates\<close>

text \<open>The entries \<^verbatim>\<open>real_rate\<close> and \<^verbatim>\<open>cisco_ios_val\<close>; \<^verbatim>\<open>val\<close> is the code of the rate.\<close>

definition baud_rates :: "(int \<times> int) list" where
  "baud_rates =
     [(50, -1), (75, -1), (110, -1), (134, -1), (150, -1), (200, -1), (300, 3), (600, 4), (1200, 5), (1800, -1),
      (2400, 6), (4800, 7), (9600, 8), (19200, 10), (38400, 12), (57600, 13), (115200, 14), (230400, 15)]"

definition get_baud_rate :: "os_env \<Rightarrow> int \<Rightarrow> int option" where
  "get_baud_rate e rate =
     map_option (\<lambda>(real, cisco). speed_code e real)
       (find (\<lambda>(real, cisco). rate = (if cisco_ios_baud_rates e then cisco else real)) baud_rates)"

text \<open>A code that is not in the table leaves the variable as it was.\<close>

definition get_rate_from_baud_rate :: "os_env \<Rightarrow> int \<Rightarrow> int \<Rightarrow> int" where
  "get_rate_from_baud_rate e code val =
     (case find (\<lambda>(real, cisco). code = speed_code e real) baud_rates of
        None \<Rightarrow> val
      | Some (real, cisco) \<Rightarrow> if cisco_ios_baud_rates e then (if cisco < 0 then 0 else cisco) else real)"

section \<open>Modem state\<close>

unbundle bit_operations_syntax

definition modem_bits :: "modem_lines \<Rightarrow> byte" where
  "modem_bits m =
     (if m_cd m then 0x80 else 0) OR (if m_ri m then 0x40 else 0) OR (if m_dsr m then 0x20 else 0) OR
     (if m_cts m then 0x10 else 0)"

text \<open>The result is whether the option is accepted.\<close>

definition com_port_will :: "port \<Rightarrow> (bool \<times> port) res" where
  "com_port_will td =
     (let c = cb_data td in
      if \<not> allow_2217 (dinfo c) then Inr (False, td)
      else
        let c1 = c\<lparr>is_2217 := True, linestate_mask := 0, modemstate_mask := 255, last_modemstate := 0\<rparr>;
            bits = (case modem (outs c) of None \<Rightarrow> 0 | Some m \<Rightarrow> modem_bits m);
            c2 = (case modem (outs c) of None \<Rightarrow> c1 | Some m \<Rightarrow> c1\<lparr>last_modemstate := bits\<rparr>) in
        bind_res (telnet_send_option telnet_output_ready (td\<lparr>cb_data := c2\<rparr>) [TN_OPT_COM_PORT, 107, bits])
          (\<lambda>td'. Inr (True, td')))"

section \<open>Commands\<close>

text \<open>\<^verbatim>\<open>ntohl\<close> of four bytes as an \<^verbatim>\<open>int\<close>, and \<^verbatim>\<open>htonl\<close>.\<close>

definition ntohl :: "byte list \<Rightarrow> int" where
  "ntohl b = sint (word_of_int (((uint (b ! 0) * 256 + uint (b ! 1)) * 256 + uint (b ! 2)) * 256 + uint (b ! 3)) :: 32 word)"

definition htonl :: "int \<Rightarrow> byte list" where
  "htonl v = [word_of_int (v div 2 ^ 24), word_of_int (v div 2 ^ 16), word_of_int (v div 2 ^ 8), word_of_int v]"

definition get_tty :: "conn \<Rightarrow> termios option" where
  "get_tty c = tty (outs c)"

definition set_tty :: "os_env \<Rightarrow> termios \<Rightarrow> conn \<Rightarrow> conn" where
  "set_tty e t c = upd_outs (\<lambda>o'. o'\<lparr>tty := map_option (\<lambda>old. tcset e old t) (tty o')\<rparr>) c"

text \<open>Every command that is answered yields the bytes of its answer (\<^verbatim>\<open>outopt\<close>) and the
  changed connection.  \<open>option\<close> is the received option, starting with its code 44.\<close>

definition set_baudrate :: "os_env \<Rightarrow> conn \<Rightarrow> byte list \<Rightarrow> nat \<Rightarrow> byte list option \<times> conn" where
  "set_baudrate e c option len =
     (if len < (if cisco_ios_baud_rates e then 3 else 6) then (None, c)
      else
        let val = (if cisco_ios_baud_rates e then uint (option ! 2) else ntohl (drop 2 option));
            (code, c') =
              (case get_tty c of
                 None \<Rightarrow> (0, c)
               | Some t \<Rightarrow>
                   let c1 = (case (if val \<noteq> 0 then get_baud_rate e val else None) of
                               None \<Rightarrow> c
                             | Some v \<Rightarrow> set_tty e (set_speed v t) c) in
                   (case get_tty c1 of None \<Rightarrow> (c_ispeed t, c1) | Some t1 \<Rightarrow> (c_ispeed t1, c1)));
            val' = get_rate_from_baud_rate e code code in
        (Some (if cisco_ios_baud_rates e then [44, 101, word_of_int val'] else [44, 101] @ htonl val'), c'))"

definition set_datasize :: "os_env \<Rightarrow> conn \<Rightarrow> byte list \<Rightarrow> nat \<Rightarrow> byte list option \<times> conn" where
  "set_datasize e c option len =
     (if len < 3 then (None, c)
      else
        case get_tty c of
          None \<Rightarrow> (Some [44, 102, 0], c)
        | Some t \<Rightarrow>
            let (t1, c1) =
                  (if 5 \<le> option ! 2 \<and> option ! 2 \<le> 8 then
                     (let t1 = t\<lparr>c_size := if option ! 2 = 5 then CS5 else if option ! 2 = 6 then CS6
                                   else if option ! 2 = 7 then CS7 else CS8\<rparr> in (t1, set_tty e t1 c))
                   else (t, c)) in
            (Some [44, 102, case c_size t1 of CS5 \<Rightarrow> 5 | CS6 \<Rightarrow> 6 | CS7 \<Rightarrow> 7 | CS8 \<Rightarrow> 8], c1))"

definition set_parity :: "os_env \<Rightarrow> conn \<Rightarrow> byte list \<Rightarrow> nat \<Rightarrow> byte list option \<times> conn" where
  "set_parity e c option len =
     (if len < 3 then (None, c)
      else
        case get_tty c of
          None \<Rightarrow> (Some [44, 103, 0], c)
        | Some t \<Rightarrow>
            let (t1, c1) =
                  (if 1 \<le> option ! 2 \<and> option ! 2 \<le> 3 then
                     (let t1 = t\<lparr>parenb := option ! 2 \<noteq> 1, parodd := option ! 2 = 2\<rparr> in (t1, set_tty e t1 c))
                   else (t, c)) in
            (Some [44, 103, if parenb t1 then (if parodd t1 then 2 else 3) else 1], c1))"

definition set_stopsize :: "os_env \<Rightarrow> conn \<Rightarrow> byte list \<Rightarrow> nat \<Rightarrow> byte list option \<times> conn" where
  "set_stopsize e c option len =
     (if len < 3 then (None, c)
      else
        case get_tty c of
          None \<Rightarrow> (Some [44, 104, 0], c)
        | Some t \<Rightarrow>
            let (t1, c1) =
                  (if option ! 2 = 1 \<or> option ! 2 = 2 then
                     (let t1 = t\<lparr>cstopb := option ! 2 = 2\<rparr> in (t1, set_tty e t1 c))
                   else (t, c)) in
            (Some [44, 104, if cstopb t1 then 2 else 1], c1))"

text \<open>The codes of \<^verbatim>\<open>SET-CONTROL\<close>: flow control, break, DTR and RTS; each yields the value of
  the answer.\<close>

definition outbound_flow :: "os_env \<Rightarrow> byte \<Rightarrow> conn \<Rightarrow> byte \<times> conn" where
  "outbound_flow e code c =
     (case get_tty c of
        None \<Rightarrow> (0, c)
      | Some t \<Rightarrow>
          let (t1, c1) =
                (if code \<noteq> 0 then
                   (let t1 = t\<lparr>ixon := code = 2, ixoff := code = 2, crtscts := code = 3\<rparr> in (t1, set_tty e t1 c))
                 else (t, c)) in
          (if crtscts t1 then 3 else if ixon t1 then 2 else 1, c1))"

definition inbound_flow :: "os_env \<Rightarrow> byte \<Rightarrow> conn \<Rightarrow> byte \<times> conn" where
  "inbound_flow e code c =
     (case get_tty c of
        None \<Rightarrow> (0, c)
      | Some t \<Rightarrow>
          let (t1, c1) = (if code = 15 then (let t1 = t\<lparr>ixoff := True\<rparr> in (t1, set_tty e t1 c)) else (t, c)) in
          (if crtscts t1 then 16 else if ixoff t1 then 15 else 14, c1))"

definition break_control :: "os_env \<Rightarrow> byte \<Rightarrow> conn \<Rightarrow> byte \<times> conn" where
  "break_control e code c =
     (let c1 = (if code = 4 \<or> \<not> brk_ok e then c else c\<lparr>break_set := code = 5\<rparr>) in
      (if break_set c1 then 5 else 6, c1))"

definition dtr_control :: "byte \<Rightarrow> conn \<Rightarrow> byte \<times> conn" where
  "dtr_control code c =
     (let c1 = (if code = 7 then c
                else upd_outs (\<lambda>o'. o'\<lparr>modem := map_option (\<lambda>m. m\<lparr>m_dtr := code = 8\<rparr>) (modem o')\<rparr>) c) in
      (case modem (outs c1) of None \<Rightarrow> 7 | Some m \<Rightarrow> if m_dtr m then 8 else 9, c1))"

definition rts_control :: "byte \<Rightarrow> conn \<Rightarrow> byte \<times> conn" where
  "rts_control code c =
     (let c1 = (if code = 10 then c
                else upd_outs (\<lambda>o'. o'\<lparr>modem := map_option (\<lambda>m. m\<lparr>m_rts := code = 11\<rparr>) (modem o')\<rparr>) c) in
      (case modem (outs c1) of None \<Rightarrow> 10 | Some m \<Rightarrow> if m_rts m then 11 else 12, c1))"

definition set_control :: "os_env \<Rightarrow> conn \<Rightarrow> byte list \<Rightarrow> nat \<Rightarrow> byte list option \<times> conn" where
  "set_control e c option len =
     (if len < 3 then (None, c)
      else
        let code = option ! 2;
            (val, c1) =
              (if code \<le> 3 then outbound_flow e code c
               else if code \<le> 6 then break_control e code c
               else if code \<le> 9 then dtr_control code c
               else if code \<le> 12 then rts_control code c
               else if code \<le> 19 then inbound_flow e code c
               else (0, c)) in
        (Some [44, 105, val], c1))"

definition purge_data :: "conn \<Rightarrow> byte list \<Rightarrow> nat \<Rightarrow> byte list option \<times> conn" where
  "purge_data c option len =
     (if len < 3 \<or> \<not> (1 \<le> option ! 2 \<and> option ! 2 \<le> 3) then (None, c)
      else (Some [44, 112, option ! 2], upd_outs (\<lambda>o'. o'\<lparr>flushed := flushed o' @ [unat (option ! 2)]\<rparr>) c))"

definition com_port_reply :: "os_env \<Rightarrow> conn \<Rightarrow> byte list \<Rightarrow> nat \<Rightarrow> byte list option \<times> conn" where
  "com_port_reply e c option len =
     (if len < 2 then (None, c)
      else
        let cmd = option ! 1 in
        if cmd = 0 then (Some ([44, 100] @ map char_byte ''ser2net''), c)
        else if cmd = 1 then set_baudrate e c option len
        else if cmd = 2 then set_datasize e c option len
        else if cmd = 3 then set_parity e c option len
        else if cmd = 4 then set_stopsize e c option len
        else if cmd = 5 then set_control e c option len
        else if cmd = 8 then (Some [44, 108], upd_outs (\<lambda>o'. o'\<lparr>flow_off := True\<rparr>) c)
        else if cmd = 9 then (Some [44, 109], upd_outs (\<lambda>o'. o'\<lparr>flow_off := False\<rparr>) c)
        else if cmd = 10 then (if len < 3 then (None, c) else (Some [44, 110, option ! 2], c\<lparr>linestate_mask := option ! 2\<rparr>))
        else if cmd = 11 then (if len < 3 then (None, c) else (Some [44, 111, option ! 2], c\<lparr>modemstate_mask := option ! 2\<rparr>))
        else if cmd = 12 then purge_data c option len
        else (None, c))"

definition com_port_handler :: "os_env \<Rightarrow> port \<Rightarrow> byte list \<Rightarrow> nat \<Rightarrow> port res" where
  "com_port_handler e td option len =
     (case com_port_reply e (cb_data td) option len of
        (None, c) \<Rightarrow> Inr (td\<lparr>cb_data := c\<rparr>)
      | (Some outopt, c) \<Rightarrow> telnet_send_option telnet_output_ready (td\<lparr>cb_data := c\<rparr>) outopt)"

text \<open>The functions that a port gives to the telnet layer.\<close>

definition port_callbacks :: "os_env \<Rightarrow> conn callbacks" where
  "port_callbacks e =
     \<lparr>output_ready = telnet_output_ready, cmd_handler = telnet_cmd_handler,
      call_option = (\<lambda>o'. com_port_handler e), call_will = (\<lambda>o'. com_port_will)\<rparr>"

end
