(* ===== verification/Port.thy ===== *)
theory Port
  imports Rfc2217
begin

text \<open>
  The life of a connection in \<^verbatim>\<open>src/ser2net/dataxfer.c\<close>: accepting it, moving data in both
  directions with flow control, timeouts and closing it.  Reading and writing are system
  calls: what \<^verbatim>\<open>read\<close> and \<^verbatim>\<open>write\<close> return are arguments of the handlers, a list for the
  writes that are repeated after \<^verbatim>\<open>EINTR\<close>.  A handler that consumes the whole list without an
  answer has not returned.  The configuration without TCP wrappers and UUCP locks is modelled.
\<close>

unbundle bit_operations_syntax

section \<open>System calls\<close>

datatype read_result = Read_bytes "byte list" | Read_failed

datatype write_error = EINTR | EAGAIN | EPIPE | Other_error
datatype write_result = Written nat | Write_failed write_error

text \<open>\<^verbatim>\<open>read (fd, buf, n)\<close> stores at most \<open>n\<close> of the available bytes and yields their number or -1.\<close>

definition read_into :: "nat \<Rightarrow> byte list \<Rightarrow> read_result \<Rightarrow> byte list \<times> int" where
  "read_into n buf r =
     (case r of
        Read_failed \<Rightarrow> (buf, -1)
      | Read_bytes bs \<Rightarrow> let got = take n bs in (got @ drop (length got) buf, int (length got)))"

text \<open>The bytes that are offered to \<^verbatim>\<open>write\<close>; it accepts at most these.\<close>

definition from_buf :: "byte list \<Rightarrow> nat \<Rightarrow> int \<Rightarrow> byte list res" where
  "from_buf buf start count =
     (if 0 \<le> count \<and> start + nat count \<le> length buf then Inr (take (nat count) (drop start buf)) else Inl Out_of_bounds)"

text \<open>\<^verbatim>\<open>goto retry_write\<close>\<close>

fun write_retry :: "write_result list \<Rightarrow> write_result option" where
  "write_retry [] = None"
| "write_retry (w # ws) = (if w = Write_failed EINTR then write_retry ws else Some w)"

text \<open>\<^verbatim>\<open>write\<close> to the descriptor of the controller, with its result ignored: the history says what
  was offered, some or all of which may be lost.  The pointer is followed for the descriptor.\<close>

definition controller_write :: "nat \<Rightarrow> byte list \<Rightarrow> int \<Rightarrow> conn \<Rightarrow> conn res" where
  "controller_write k buf count c =
     bind_res (from_buf buf 0 count) (\<lambda>bs. Inr (upd_outs (\<lambda>o'. o'\<lparr>mon_out := mon_out o' @ [(k, bs)]\<rparr>) c))"

text \<open>\<^verbatim>\<open>if (port->dev_monitor != NULL) controller_write (port->dev_monitor, ...)\<close>\<close>

definition write_monitor :: "monitor \<Rightarrow> byte list \<Rightarrow> int \<Rightarrow> conn \<Rightarrow> conn res" where
  "write_monitor m buf count c =
     (case m of No_monitor \<Rightarrow> Inr c | Monitored_by k \<Rightarrow> controller_write k buf count c | Wild \<Rightarrow> Inl Dangling_pointer)"

definition reset_timer :: "conn \<Rightarrow> conn" where
  "reset_timer c = c\<lparr>timeout_left := port_timeout c\<rparr>"

section \<open>Closing\<close>

definition stop_timer :: "conn \<Rightarrow> conn run" where
  "stop_timer c =
     (case sel_stop_timer (sel c) (timer c) of
        None \<Rightarrow> None
      | Some (Inl f) \<Rightarrow> Some (Inl f)
      | Some (Inr (Inl err)) \<Rightarrow> Some (Inr c)
      | Some (Inr (Inr s)) \<Rightarrow> Some (Inr (c\<lparr>sel := s\<rparr>)))"

definition clear_fd :: "int \<Rightarrow> conn \<Rightarrow> conn res" where
  "clear_fd fd = with_sel (\<lambda>s. sel_clear_fd_handlers s fd)"

definition shutdown_port :: "port \<Rightarrow> port run" where
  "shutdown_port td =
     bind_run (stop_timer (cb_data td)) (\<lambda>c0.
     Some (bind_res (clear_fd (devfd c0) c0) (\<lambda>c1.
     bind_res (clear_fd (tcpfd c1) c1) (\<lambda>c2.
     Inr (td\<lparr>cb_data := c2\<lparr>
       tcp_to_dev_state := PORT_UNCONNECTED, tcp_to_dev_buf_start := 0, tcp_to_dev_buf_count := 0,
       tcp_bytes_received := 0, tcp_bytes_sent := 0,
       dev_to_tcp_state := PORT_UNCONNECTED, dev_to_tcp_buf_start := 0, dev_to_tcp_buf_count := 0,
       dev_bytes_received := 0, dev_bytes_sent := 0,
       outs := (outs c2)\<lparr>flushed := flushed (outs c2) @ [2]\<rparr>,
       after_shutdown := (if snd (tcpport c2) = 0 then Exit_program else if config_num c2 = -1 then Delete_port
                          else if new_config c2 \<noteq> None then Replace_port else Nothing)\<rparr>\<rparr>)))))"

section \<open>From the device to the client\<close>

text \<open>\<^verbatim>\<open>for (j=count; j>i; j--) buf[j+1] = buf[j];\<close>\<close>

fun shift_up :: "nat \<Rightarrow> nat \<Rightarrow> byte list \<Rightarrow> byte list res" where
  "shift_up i 0 buf = Inr buf"
| "shift_up i (Suc j) buf =
     (if Suc j \<le> i then Inr buf
      else if length buf \<le> Suc j + 1 then Inl Buffer_overflow
      else shift_up i j (buf[Suc j + 1 := buf ! Suc j]))"

function double_iacs :: "nat \<Rightarrow> nat \<Rightarrow> byte list \<Rightarrow> (byte list \<times> nat) res" where
  "double_iacs i count buf =
     (if count \<le> i then Inr (buf, count)
      else if buf ! i = 255 then
        bind_res (shift_up i count buf) (\<lambda>buf'. double_iacs (i + 2) (count + 1) (buf'[i + 1 := 255]))
      else double_iacs (i + 1) count buf)"
  by pat_completeness auto
termination
  by (relation "measure (\<lambda>(i, count, buf). count - i)") auto

declare double_iacs.simps [simp del]

text \<open>The part of the handler behind the reading: escaping, writing, and stopping the reader
  if not everything was written.\<close>

definition escape_buffer :: "conn \<Rightarrow> conn res" where
  "escape_buffer c =
     (if enabled c = PORT_TELNET then
        bind_res (double_iacs 0 (nat (dev_to_tcp_buf_count c)) (dev_to_tcp_buf c)) (\<lambda>(buf, n).
        Inr (c\<lparr>dev_to_tcp_buf := buf, dev_to_tcp_buf_count := int n\<rparr>))
      else Inr c)"

definition accept_tcp :: "byte list \<Rightarrow> conn \<Rightarrow> conn" where
  "accept_tcp bs c = upd_outs (\<lambda>o'. o'\<lparr>wire := wire o' @ map Tcp_data bs\<rparr>)
     (c\<lparr>tcp_bytes_sent := tcp_bytes_sent c + of_nat (length bs),
        dev_to_tcp_buf_count := dev_to_tcp_buf_count c - int (length bs)\<rparr>)"

definition send_to_tcp :: "write_result list \<Rightarrow> port \<Rightarrow> port run" where
  "send_to_tcp ws td =
     (let c = cb_data td in
      case from_buf (dev_to_tcp_buf c) 0 (dev_to_tcp_buf_count c) of
        Inl f \<Rightarrow> Some (Inl f)
      | Inr bs \<Rightarrow>
          (case write_retry ws of
             None \<Rightarrow> None
           | Some (Write_failed err) \<Rightarrow>
               if err = EAGAIN then
                 Some (bind_res (block devfd tcpfd c) (\<lambda>c1.
                   Inr (td\<lparr>cb_data := reset_timer (c1\<lparr>dev_to_tcp_state := PORT_WAITING_OUTPUT_CLEAR\<rparr>)\<rparr>)))
               else shutdown_port td
           | Some (Written n) \<Rightarrow>
               let sent = take n bs; c1 = accept_tcp sent c in
               Some (bind_res
                 (if dev_to_tcp_buf_count c1 \<noteq> 0 then
                    bind_res (block devfd tcpfd (c1\<lparr>dev_to_tcp_buf_start := dev_to_tcp_buf_start c1 + length sent\<rparr>)) (\<lambda>c2.
                    Inr (c2\<lparr>dev_to_tcp_state := PORT_WAITING_OUTPUT_CLEAR\<rparr>))
                  else Inr c1)
                 (\<lambda>c2. Inr (td\<lparr>cb_data := reset_timer c2\<rparr>)))))"

definition handle_dev_fd_read :: "read_result \<Rightarrow> write_result list \<Rightarrow> port \<Rightarrow> port run" where
  "handle_dev_fd_read r ws td =
     (let c = cb_data td;
          (buf, count) = read_into (if enabled c = PORT_TELNET then PORT_BUFSIZE div 2 else PORT_BUFSIZE) (dev_to_tcp_buf c) r;
          c1 = c\<lparr>dev_to_tcp_buf_start := 0, dev_to_tcp_buf := buf, dev_to_tcp_buf_count := count\<rparr> in
      bind_run (Some (write_monitor (dev_monitor c1) (dev_to_tcp_buf c1) (dev_to_tcp_buf_count c1) c1)) (\<lambda>c2.
      if dev_to_tcp_buf_count c2 < 0 then shutdown_port (td\<lparr>cb_data := c2\<rparr>)
      else if dev_to_tcp_buf_count c2 = 0 then shutdown_port (td\<lparr>cb_data := c2\<rparr>)
      else
        let got = take (nat count) (dev_to_tcp_buf c2);
            c3 = upd_outs (\<lambda>o'. o'\<lparr>dev_in := dev_in o' @ got\<rparr>)
                   (c2\<lparr>dev_bytes_received := dev_bytes_received c2 + of_int (dev_to_tcp_buf_count c2)\<rparr>) in
        bind_run (Some (escape_buffer c3)) (\<lambda>c4. send_to_tcp ws (td\<lparr>cb_data := c4\<rparr>))))"

text \<open>The client has room again: first the telnet commands, then the data.  \<open>w1\<close> and \<open>w2\<close>
  are the results of the two writes.\<close>

definition write_data :: "write_result \<Rightarrow> port \<Rightarrow> port run" where
  "write_data w td =
     (let c = cb_data td in
      case from_buf (dev_to_tcp_buf c) (dev_to_tcp_buf_start c) (dev_to_tcp_buf_count c) of
        Inl f \<Rightarrow> Some (Inl f)
      | Inr bs \<Rightarrow>
          (case w of
             Write_failed err \<Rightarrow>
               if err = EINTR then Some (Inr td)
               else if err = EAGAIN then Some (Inr (upd_conn reset_timer td))
               else shutdown_port td
           | Written n \<Rightarrow>
               let sent = take n bs; c1 = accept_tcp sent c in
               Some (bind_res
                 (if dev_to_tcp_buf_count c1 \<noteq> 0 then
                    Inr (c1\<lparr>dev_to_tcp_buf_start := dev_to_tcp_buf_start c1 + length sent\<rparr>)
                  else
                    bind_res (unblock devfd tcpfd c1) (\<lambda>c2. Inr (c2\<lparr>dev_to_tcp_state := PORT_WAITING_INPUT\<rparr>)))
                 (\<lambda>c2. Inr (td\<lparr>cb_data := reset_timer c2\<rparr>)))))"

text \<open>\<^verbatim>\<open>for (j=0, i=write_count; i<size; i++, j++) cmd[j] = cmd[i];\<close>\<close>

definition move_down :: "nat \<Rightarrow> nat \<Rightarrow> byte list \<Rightarrow> byte list" where
  "move_down k n buf = fold (\<lambda>j b. b[j := b ! (k + j)]) [0..<n - k] buf"

definition handle_tcp_fd_write :: "write_result \<Rightarrow> write_result \<Rightarrow> port \<Rightarrow> port run" where
  "handle_tcp_fd_write w1 w2 td =
     (if out_telnet_cmd_size td > 0 then
        (case from_buf (out_telnet_cmd td) 0 (int (out_telnet_cmd_size td)) of
           Inl f \<Rightarrow> Some (Inl f)
         | Inr bs \<Rightarrow>
             (case w1 of
                Write_failed err \<Rightarrow>
                  if err = EINTR then Some (Inr td)
                  else if err = EAGAIN then write_data w2 td
                  else shutdown_port td
              | Written n \<Rightarrow>
                  let sent = take n bs;
                      td1 = upd_conn (upd_outs (\<lambda>o'. o'\<lparr>wire := wire o' @ map Tcp_command sent\<rparr>))
                        (td\<lparr>out_telnet_cmd := move_down (length sent) (out_telnet_cmd_size td) (out_telnet_cmd td),
                            out_telnet_cmd_size := out_telnet_cmd_size td - length sent\<rparr>) in
                  if out_telnet_cmd_size td1 \<noteq> 0 then Some (Inr td1) else write_data w2 td1))
      else write_data w2 td)"

section \<open>From the client to the device\<close>

definition accept_dev :: "byte list \<Rightarrow> conn \<Rightarrow> conn" where
  "accept_dev bs c = upd_outs (\<lambda>o'. o'\<lparr>dev_out := dev_out o' @ bs\<rparr>)
     (c\<lparr>dev_bytes_sent := dev_bytes_sent c + of_nat (length bs),
        tcp_to_dev_buf_count := tcp_to_dev_buf_count c - int (length bs)\<rparr>)"

definition send_to_dev :: "write_result list \<Rightarrow> port \<Rightarrow> port run" where
  "send_to_dev ws td =
     (let c = cb_data td in
      case from_buf (tcp_to_dev_buf c) 0 (tcp_to_dev_buf_count c) of
        Inl f \<Rightarrow> Some (Inl f)
      | Inr bs \<Rightarrow>
          (case write_retry ws of
             None \<Rightarrow> None
           | Some (Write_failed err) \<Rightarrow>
               if err = EAGAIN then
                 Some (bind_res (block tcpfd devfd c) (\<lambda>c1.
                   Inr (td\<lparr>cb_data := reset_timer (c1\<lparr>tcp_to_dev_state := PORT_WAITING_OUTPUT_CLEAR\<rparr>)\<rparr>)))
               else shutdown_port td
           | Some (Written n) \<Rightarrow>
               let sent = take n bs; c1 = accept_dev sent c in
               Some (bind_res
                 (if tcp_to_dev_buf_count c1 \<noteq> 0 then
                    bind_res (block tcpfd devfd (c1\<lparr>tcp_to_dev_buf_start := tcp_to_dev_buf_start c1 + length sent\<rparr>)) (\<lambda>c2.
                    Inr (c2\<lparr>tcp_to_dev_state := PORT_WAITING_OUTPUT_CLEAR\<rparr>))
                  else Inr c1)
                 (\<lambda>c2. Inr (td\<lparr>cb_data := reset_timer c2\<rparr>)))))"

text \<open>Telnet commands are taken out of what was read; \<open>True\<close> stands for an early return.\<close>

definition strip_commands :: "os_env \<Rightarrow> port \<Rightarrow> (bool \<times> port) run" where
  "strip_commands e td =
     (let c = cb_data td in
      if enabled c \<noteq> PORT_TELNET then Some (Inr (False, td))
      else
        bind_run (Some (process_telnet_data (port_callbacks e) (tcp_to_dev_buf c) (nat (tcp_to_dev_buf_count c)) td))
          (\<lambda>(buf, len, td1).
          let td2 = upd_conn (\<lambda>c. c\<lparr>tcp_to_dev_buf := buf, tcp_to_dev_buf_count := int len\<rparr>) td1 in
          if error td2 then bind_run (shutdown_port td2) (\<lambda>td3. Some (Inr (True, td3)))
          else Some (Inr (len = 0, td2))))"

definition handle_tcp_fd_read :: "os_env \<Rightarrow> read_result \<Rightarrow> write_result list \<Rightarrow> port \<Rightarrow> port run" where
  "handle_tcp_fd_read e r ws td =
     (let c = cb_data td;
          (buf, count) = read_into PORT_BUFSIZE (tcp_to_dev_buf c) r;
          c1 = c\<lparr>tcp_to_dev_buf_start := 0, tcp_to_dev_buf := buf, tcp_to_dev_buf_count := count\<rparr> in
      if count < 0 then shutdown_port (td\<lparr>cb_data := c1\<rparr>)
      else if count = 0 then shutdown_port (td\<lparr>cb_data := c1\<rparr>)
      else
        let c2 = upd_outs (\<lambda>o'. o'\<lparr>tcp_in := tcp_in o' @ take (nat count) buf\<rparr>)
                   (c1\<lparr>tcp_bytes_received := tcp_bytes_received c1 + of_int count\<rparr>) in
        bind_run (strip_commands e (td\<lparr>cb_data := c2\<rparr>)) (\<lambda>(done, td1).
        if done then Some (Inr td1)
        else
          let c3 = cb_data td1 in
          bind_run (Some (write_monitor (tcp_monitor c3) (tcp_to_dev_buf c3) (tcp_to_dev_buf_count c3) c3)) (\<lambda>c4.
          send_to_dev ws (td1\<lparr>cb_data := c4\<rparr>))))"

definition handle_dev_fd_write :: "write_result \<Rightarrow> port \<Rightarrow> port run" where
  "handle_dev_fd_write w td =
     (let c = cb_data td in
      case from_buf (tcp_to_dev_buf c) (tcp_to_dev_buf_start c) (tcp_to_dev_buf_count c) of
        Inl f \<Rightarrow> Some (Inl f)
      | Inr bs \<Rightarrow>
          (case w of
             Write_failed err \<Rightarrow>
               if err = EINTR then Some (Inr td)
               else if err = EAGAIN then Some (Inr (upd_conn reset_timer td))
               else shutdown_port td
           | Written n \<Rightarrow>
               let sent = take n bs; c1 = accept_dev sent c in
               Some (bind_res
                 (if tcp_to_dev_buf_count c1 \<noteq> 0 then
                    Inr (c1\<lparr>tcp_to_dev_buf_start := tcp_to_dev_buf_start c1 + length sent\<rparr>)
                  else
                    bind_res (unblock tcpfd devfd c1) (\<lambda>c2. Inr (c2\<lparr>tcp_to_dev_state := PORT_WAITING_INPUT\<rparr>)))
                 (\<lambda>c2. Inr (td\<lparr>cb_data := reset_timer c2\<rparr>)))))"

definition handle_dev_fd_except :: "port \<Rightarrow> port run" where
  "handle_dev_fd_except td = shutdown_port td"

definition handle_tcp_fd_except :: "port \<Rightarrow> port run" where
  "handle_tcp_fd_except td = shutdown_port td"

section \<open>Connecting\<close>

text \<open>The results of the system calls of \<^verbatim>\<open>setup_tcp_port\<close>: \<open>dev_opened\<close> is the descriptor of
  the device or -1, \<open>usb_found\<close> whether \<^verbatim>\<open>usbFindSerial\<close> finds the device of a name that
  starts with ``usb'', \<open>now\<close> the time.\<close>

record connect_env =
  nonblock_ok :: bool
  nodelay_ok :: bool
  usb_found :: bool
  dev_opened :: int
  tcsetattr_ok :: bool
  now :: timeval

definition setup_handlers :: "conn \<Rightarrow> conn res" where
  "setup_handlers c =
     (let lp = (enabled c = PORT_RAWLP) in
      bind_res (with_sel (\<lambda>s. sel_set_fd_handlers s (devfd c) (Some (self c))
        (if lp then None else Some Handle_dev_fd_read) (Some Handle_dev_fd_write) (Some Handle_dev_fd_except)) c) (\<lambda>c.
      bind_res (with_sel (\<lambda>s. sel_set_fd_read_handler s (devfd c) (Some (\<not> lp))) c) (\<lambda>c.
      bind_res (with_sel (\<lambda>s. sel_set_fd_except_handler s (devfd c) (Some True)) c) (\<lambda>c.
      let c = c\<lparr>dev_to_tcp_state := PORT_WAITING_INPUT\<rparr> in
      bind_res (with_sel (\<lambda>s. sel_set_fd_handlers s (tcpfd c) (Some (self c))
        (Some Handle_tcp_fd_read) (Some Handle_tcp_fd_write) (Some Handle_tcp_fd_except)) c) (\<lambda>c.
      bind_res (with_sel (\<lambda>s. sel_set_fd_read_handler s (tcpfd c) (Some True)) c) (\<lambda>c.
      bind_res (with_sel (\<lambda>s. sel_set_fd_except_handler s (tcpfd c) (Some True)) c) (\<lambda>c.
      Inr (c\<lparr>tcp_to_dev_state := PORT_WAITING_INPUT\<rparr>))))))))"

definition start_timer :: "timeval \<Rightarrow> conn \<Rightarrow> conn run" where
  "start_timer t c =
     (case sel_start_timer (sel c) (timer c) (Timeval (tv_sec t + 1) (tv_usec t)) of
        None \<Rightarrow> None
      | Some (Inl f) \<Rightarrow> Some (Inl f)
      | Some (Inr (Inl err)) \<Rightarrow> Some (Inr c)
      | Some (Inr (Inr s)) \<Rightarrow> Some (Inr (c\<lparr>sel := s\<rparr>)))"

text \<open>\<open>cmds0\<close> is the table of options in its present state: it is one static array that all
  connections work on.  The first component of the result is \<^const>\<open>False\<close> for -1.\<close>

definition setup_tcp_port :: "os_env \<Rightarrow> connect_env \<Rightarrow> telnet_cmd list \<Rightarrow> port \<Rightarrow> (bool \<times> port) run" where
  "setup_tcp_port e n cmds0 td =
     (let c = cb_data td in
      if \<not> nonblock_ok n \<or> \<not> nodelay_ok n then Some (Inr (False, td))
      else if take 3 (devname c) = ''usb'' \<and> \<not> usb_found n then Some (Inr (False, td))
      else
        let c = c\<lparr>devfd := dev_opened n\<rparr> in
        if dev_opened n = -1 then Some (Inr (False, td\<lparr>cb_data := c\<rparr>))
        else if enabled c \<noteq> PORT_RAWLP \<and> \<not> disablebreak (dinfo c) \<and> \<not> tcsetattr_ok n
        then Some (Inr (False, td\<lparr>cb_data := c\<rparr>))
        else
          bind_run (Some (setup_handlers (c\<lparr>is_2217 := False, break_set := False\<rparr>))) (\<lambda>c.
          bind_run
            (Some
              (if enabled c = PORT_TELNET then
                 telnet_init (port_callbacks e) td c cmds0 telnet_init_seq
               else
                 bind_res (with_sel (\<lambda>s. sel_set_fd_read_handler s (devfd c) (Some True)) c) (\<lambda>c.
                 Inr (td\<lparr>cb_data := c\<rparr>))))
            (\<lambda>td1.
          bind_run (start_timer (now n) (display_banner (speed_code e) (cb_data td1))) (\<lambda>c.
          Some (Inr (True, td1\<lparr>cb_data := reset_timer c\<rparr>))))))"

text \<open>\<open>busy\<close> is what \<^verbatim>\<open>is_device_already_inuse\<close> finds among the other ports, \<open>new_fd\<close> what
  \<^verbatim>\<open>accept\<close> returns.\<close>

definition handle_accept_port_read :: "os_env \<Rightarrow> connect_env \<Rightarrow> telnet_cmd list \<Rightarrow> bool \<Rightarrow> int \<Rightarrow> port \<Rightarrow> port run" where
  "handle_accept_port_read e n cmds0 busy new_fd td =
     (if tcp_to_dev_state (cb_data td) \<noteq> PORT_UNCONNECTED \<or> busy then Some (Inr td)
      else
        let td1 = upd_conn (\<lambda>c. c\<lparr>tcpfd := new_fd\<rparr>) td in
        if new_fd = -1 then Some (Inr td1)
        else bind_run (setup_tcp_port e n cmds0 td1) (\<lambda>(ok, td2). Some (Inr td2)))"

section \<open>Timeouts\<close>

definition notify_modemstate :: "port \<Rightarrow> port res" where
  "notify_modemstate td =
     (let c = cb_data td in
      case (if is_2217 c then modem (outs c) else None) of
        None \<Rightarrow> Inr td
      | Some m \<Rightarrow>
          let modemstate = modem_bits m AND modemstate_mask c in
          if modemstate = last_modemstate c then Inr td
          else
            telnet_send_option telnet_output_ready (td\<lparr>cb_data := c\<lparr>last_modemstate := modemstate\<rparr>\<rparr>)
              [TN_OPT_COM_PORT, 107, modemstate])"

definition got_timeout :: "timeval \<Rightarrow> port \<Rightarrow> port run" where
  "got_timeout t td =
     (let c = cb_data td;
          c1 = (if port_timeout c \<noteq> 0 then c\<lparr>timeout_left := timeout_left c - 1\<rparr> else c) in
      if port_timeout c1 \<noteq> 0 \<and> timeout_left c1 < 0 then shutdown_port (td\<lparr>cb_data := c1\<rparr>)
      else
        bind_run (Some (notify_modemstate (td\<lparr>cb_data := c1\<rparr>))) (\<lambda>td1.
        bind_run (start_timer t (cb_data td1)) (\<lambda>c2. Some (Inr (td1\<lparr>cb_data := c2\<rparr>)))))"

end
