(* ===== verification/Telnet_Stream.thy ===== *)
theory Telnet_Stream
  imports Telnet_Props
begin

text \<open>
  The receiver of the telnet layer as an automaton over the received bytes alone: which bytes
  are data does not depend on the table of options, on the callbacks or on the content of the
  commands.  This holds for every table, also one with options that have no handler, up to
  the fault that such an option causes.
\<close>

section \<open>The automaton\<close>

datatype rx = Plain | After_iac | Negotiation | Sub_start | Sub_option | Sub_iac

fun rx_step :: "rx \<Rightarrow> byte \<Rightarrow> rx \<times> byte list" where
  "rx_step Plain b = (if b = 255 then (After_iac, []) else (Plain, [b]))"
| "rx_step After_iac b =
     (if b = 255 then (Plain, [255]) else if b < 250 then (Plain, []) else if b = 250 then (Sub_start, []) else (Negotiation, []))"
| "rx_step Negotiation b = (Plain, [])"
| "rx_step Sub_start b = (Sub_option, [])"
| "rx_step Sub_option b = (if b = 255 then Sub_iac else Sub_option, [])"
| "rx_step Sub_iac b = (if b = 240 then Plain else Sub_option, [])"

fun rx_run :: "rx \<Rightarrow> byte list \<Rightarrow> rx \<times> byte list" where
  "rx_run r [] = (r, [])"
| "rx_run r (b # bs) = (let (r1, d1) = rx_step r b; (r2, d2) = rx_run r1 bs in (r2, d1 @ d2))"

lemma rx_run_append: "rx_run r (as @ bs) = (let (r1, d1) = rx_run r as; (r2, d2) = rx_run r1 bs in (r2, d1 @ d2))"
  by (induction as arbitrary: r) (auto simp: Let_def split: prod.splits)

text \<open>The state of the automaton that the telnet data stand for.\<close>

definition rx_of :: "'c telnet_data \<Rightarrow> rx" where
  "rx_of td =
     (if telnet_cmd_pos td = 0 then Plain
      else if telnet_cmd_pos td = 1 then After_iac
      else if telnet_cmd_pos td = 2 then (if telnet_cmd td ! 1 = 250 then Sub_start else Negotiation)
      else if suboption_iac td then Sub_iac else Sub_option)"

definition rx_ok :: "'c telnet_data \<Rightarrow> bool" where
  "rx_ok td \<longleftrightarrow> (suboption_iac td \<and> telnet_cmd_pos td \<noteq> 0 \<longrightarrow> 4 \<le> telnet_cmd_pos td)"

text \<open>The invariant without the condition on the handlers.\<close>

definition tn_inv :: "('c \<Rightarrow> bool) \<Rightarrow> 'c callbacks \<Rightarrow> 'c telnet_data \<Rightarrow> bool" where
  "tn_inv I cb td \<longleftrightarrow> callbacks_ok I cb \<and> td_ok I td \<and> rx_ok td"

definition simulates :: "('c \<Rightarrow> bool) \<Rightarrow> 'c callbacks \<Rightarrow> rx \<times> byte list \<Rightarrow> byte list \<Rightarrow> ('c telnet_data \<times> byte list) res \<Rightarrow> bool" where
  "simulates I cb ro out r \<longleftrightarrow>
     r = Inl Null_pointer \<or> (\<exists>td'. r = Inr (td', out @ snd ro) \<and> tn_inv I cb td' \<and> rx_of td' = fst ro)"

lemma simulates_fault [simp]: "simulates I cb ro out (Inl Null_pointer)"
  by (simp add: simulates_def)

lemma simulates_Inr [simp]:
  "simulates I cb ro out (Inr (td', o')) \<longleftrightarrow> o' = out @ snd ro \<and> tn_inv I cb td' \<and> rx_of td' = fst ro"
  by (auto simp: simulates_def)

lemma finish_simulates:
  assumes "callbacks_ok I cb" and "td_ok I td" and "snd ro = []" and "fst ro = Plain"
  shows "simulates I cb ro out (bind_res (finish_cmd cb td) (\<lambda>t. Inr (t, out)))"
    and "simulates I cb ro out (bind_res (finish_cmd cb td) (\<lambda>t. Inr (t\<lparr>suboption_iac := False\<rparr>, out)))"
  using finish_cmd_cases [OF assms(1,2)] assms
  by (elim disjE exE conjE; simp add: tn_inv_def rx_ok_def rx_of_def td_ok_def out_ok_def)+

lemma tn_step_simulates:
  assumes "tn_inv I cb td"
  shows "simulates I cb (rx_step (rx_of td) b) out (tn_step cb (td, out) b)"
proof -
  let ?k = "telnet_cmd_pos td"
  have cb: "callbacks_ok I cb" and ok: "td_ok I td" and rx: "rx_ok td" using assms by (simp_all add: tn_inv_def)
  have len: "length (telnet_cmd td) = 32" and k: "?k \<le> 32" using ok by (simp_all add: td_ok_def MAX_TELNET_CMD_SIZE_def)
  have okc: "td_ok I (td\<lparr>telnet_cmd := a, telnet_cmd_pos := n\<rparr>)" "td_ok I (td\<lparr>telnet_cmd_pos := n\<rparr>)"
    if "length a = 32" "n \<le> 32" for a n
    using ok that by (simp_all add: td_ok_def out_ok_def MAX_TELNET_CMD_SIZE_def)
  have iac: "td_ok I (t\<lparr>suboption_iac := x\<rparr>) = td_ok I t" for t :: "'a telnet_data" and x
    by (simp add: td_ok_def out_ok_def)
  have st: "store_cmd td b' = Inr (td\<lparr>telnet_cmd := (telnet_cmd td)[?k := b'], telnet_cmd_pos := ?k + 1\<rparr>)" if "?k \<le> 31" for b'
    using store_cmd_fits [OF ok, of b'] that by (simp add: MAX_TELNET_CMD_SIZE_def)
  consider (plain) "?k = 0" | (one) "?k = 1" | (two) "?k = 2" | (more) "3 \<le> ?k" by linarith
  then show ?thesis
  proof cases
    case plain
    with st [of 255] okc [of "(telnet_cmd td)[0 := 255]" 1] len cb assms show ?thesis
      by (auto simp: tn_step_pair rx_of_def tn_inv_def rx_ok_def iac)
  next
    case one
    let ?td1 = "td\<lparr>telnet_cmd := (telnet_cmd td)[1 := b], telnet_cmd_pos := 2\<rparr>"
    have ok1: "td_ok I ?td1" by (rule okc) (simp_all add: len)
    have s1: "store_cmd td b = Inr ?td1" using st [of b] one by (simp add: numeral_2_eq_2)
    have r1: "\<not> suboption_iac td" using one rx by (simp add: rx_ok_def)
    consider "b = 255" | "b \<noteq> 255" "b < 250" | "b \<noteq> 255" "\<not> b < 250" by blast
    then show ?thesis
    proof cases
      case 1
      with one okc [of "telnet_cmd td" 0] len cb show ?thesis
        by (simp add: tn_step_pair rx_of_def tn_inv_def rx_ok_def)
    next
      case 2
      with one have "rx_of td = After_iac" by (simp add: rx_of_def)
      with finish_simulates(1) [OF cb ok1, of "rx_step (rx_of td) b" out] one 2 s1 show ?thesis
        by (simp add: tn_step_pair command_byte_def)
    next
      case 3
      with one s1 ok1 cb len r1 show ?thesis
        by (simp add: tn_step_pair rx_of_def tn_inv_def rx_ok_def command_byte_def)
    qed
  next
    case two
    let ?td1 = "td\<lparr>telnet_cmd := (telnet_cmd td)[2 := b], telnet_cmd_pos := 3\<rparr>"
    have ok1: "td_ok I ?td1" by (rule okc) (simp_all add: len)
    have s1: "store_cmd td b = Inr ?td1" using st [of b] two by simp
    have r1: "\<not> suboption_iac td" using two rx by (simp add: rx_ok_def)
    show ?thesis
    proof (cases "telnet_cmd td ! 1 = 250")
      case True
      with two s1 ok1 cb r1 show ?thesis
        by (simp add: tn_step_pair rx_of_def tn_inv_def rx_ok_def command_byte_def)
    next
      case False
      with two have "rx_of td = Negotiation" by (simp add: rx_of_def)
      with finish_simulates(1) [OF cb ok1, of "rx_step (rx_of td) b" out] two False s1 show ?thesis
        by (simp add: tn_step_pair command_byte_def)
    qed
  next
    case more
    show ?thesis
    proof (cases "suboption_iac td")
      case True
      with rx more have k4: "4 \<le> ?k" by (simp add: rx_ok_def)
      have ok1: "td_ok I (td\<lparr>telnet_cmd_pos := ?k - 1\<rparr>)" by (rule okc [OF len]) (use k in simp)
      have rxo: "rx_of td = Sub_iac" using more True by (simp add: rx_of_def)
      show ?thesis
      proof (cases "b = 240")
        case True
        with finish_simulates(2) [OF cb ok1, of "rx_step (rx_of td) b" out] more k4 rxo \<open>suboption_iac td\<close> show ?thesis
          by (simp add: tn_step_pair command_byte_def bind_res_assoc)
      next
        case False
        with more True k4 cb ok ok1 rxo show ?thesis
          by (auto simp: tn_step_pair tn_inv_def rx_ok_def rx_of_def command_byte_def iac)
      qed
    next
      case False
      let ?j = "min ?k 31"
      let ?td1 = "td\<lparr>telnet_cmd := (telnet_cmd td)[?j := b], telnet_cmd_pos := ?j + 1\<rparr>"
      have ok1: "td_ok I ?td1" by (rule okc) (simp_all add: len)
      have "store_cmd (if MAX_TELNET_CMD_SIZE < ?k then td\<lparr>telnet_cmd_pos := MAX_TELNET_CMD_SIZE\<rparr> else td) b = Inr ?td1"
        using store_cmd_fits [OF okc(2) [OF len, of 31], of b] st [of b]
        by (cases "?k \<le> 31") (simp_all add: MAX_TELNET_CMD_SIZE_def min_def)
      with more False ok1 cb show ?thesis
        by (auto simp: tn_step_pair rx_of_def tn_inv_def rx_ok_def command_byte_def iac min_def)
    qed
  qed
qed

lemma run_simulates:
  "tn_inv I cb td \<Longrightarrow> simulates I cb (rx_run (rx_of td) bs) out (run_steps (tn_step cb) (td, out) bs)"
proof (induction bs arbitrary: td out)
  case (Cons b bs)
  obtain r1 d1 where rx: "rx_step (rx_of td) b = (r1, d1)" by (cases "rx_step (rx_of td) b")
  consider "tn_step cb (td, out) b = Inl Null_pointer"
    | td1 where "tn_step cb (td, out) b = Inr (td1, out @ d1)" "tn_inv I cb td1" "rx_of td1 = r1"
    using tn_step_simulates [OF Cons.prems, of b out] rx by (auto simp: simulates_def)
  then show ?case
  proof cases
    case 2
    with Cons.IH [OF 2(2), of "out @ d1"] rx show ?thesis by (auto simp: simulates_def split: prod.splits)
  qed (simp add: simulates_def)
qed (simp add: simulates_def)

lemma process_refines:
  assumes "tn_inv I cb td" and "len \<le> length data"
  shows "process_telnet_data cb data len td = Inl Null_pointer \<or>
    (\<exists>data' len' td'. process_telnet_data cb data len td = Inr (data', len', td') \<and> tn_inv I cb td' \<and>
       (rx_of td', take len' data') = rx_run (rx_of td) (take len data))"
proof -
  let ?r = "run_steps (tn_step cb) (td, []) (take len data)"
  have eq: "bind_res (process_telnet_data cb data len td) (\<lambda>(data', len', td'). Inr (td', take len' data')) = ?r"
    using telnet_loop_stream [of 0 len data cb td] assms(2) by (simp add: process_telnet_data_def result_def case_prod_unfold)
  show ?thesis
  proof (cases "?r = Inl Null_pointer")
    case True
    with eq show ?thesis by (auto simp: res_simps)
  next
    case False
    with run_simulates [OF assms(1), of "take len data" "[]"] obtain td' where
      "?r = Inr (td', snd (rx_run (rx_of td) (take len data)))" "tn_inv I cb td'" "rx_of td' = fst (rx_run (rx_of td) (take len data))"
      by (auto simp: simulates_def)
    with eq show ?thesis by (auto simp: res_simps)
  qed
qed

text \<open>Which received bytes are data is decided by a six-state automaton alone, whatever
  the table of options and the callbacks are: the receiver passes on exactly the data bytes of
  the automaton and afterwards stands for the state of the automaton; the only other outcome is
  the call of a NULL handler.\<close>

theorem receiver_refines_automaton:
  assumes "tn_inv I cb td" and "len \<le> length data"
  shows "process_telnet_data cb data len td = Inl Null_pointer \<or>
    (\<exists>data' len' td'. process_telnet_data cb data len td = Inr (data', len', td') \<and> tn_inv I cb td' \<and>
       (rx_of td', take len' data') = rx_run (rx_of td) (take len data))"
  by (rule process_refines [OF assms])

lemma demo_td_inv: "tn_inv (\<lambda>_. True) demo_callbacks demo_td"
  using demo_td_ok by (simp add: tn_inv_def tn_ok_def) (simp add: rx_ok_def demo_td_def)

theorem receiver_refines_automaton_witness:
  "process_telnet_data demo_callbacks [65, 255, 251, 3, 66] 5 demo_td = Inl Null_pointer \<or>
    (\<exists>data' len' td'. process_telnet_data demo_callbacks [65, 255, 251, 3, 66] 5 demo_td = Inr (data', len', td') \<and>
       tn_inv (\<lambda>_. True) demo_callbacks td' \<and> (rx_of td', take len' data') = (Plain, [65, 66]))"
proof -
  have "rx_of demo_td = Plain" by (simp add: rx_of_def demo_td_def)
  then show ?thesis
    using receiver_refines_automaton [OF demo_td_inv, of 5 "[65, 255, 251, 3, 66]"] by simp
qed

end
