(* ===== verification/Port_Escape.thy ===== *)
theory Port_Escape
  imports Port Telnet_Stream
begin

text \<open>
  The doubling of 255 in the transfer buffer: where it is right, and the one case in which it
  writes behind the buffer.
\<close>

abbreviation count_iac :: "byte list \<Rightarrow> nat" where
  "count_iac bs \<equiv> length (filter (\<lambda>b. b = 255) bs)"

lemma shift_up_result:
  "i \<le> j \<Longrightarrow> j + 1 < length buf \<Longrightarrow>
   \<exists>buf'. shift_up i j buf = Inr buf' \<and> length buf' = length buf \<and>
     (\<forall>k < length buf. buf' ! k = (if i + 2 \<le> k \<and> k \<le> j + 1 then buf ! (k - 1) else buf ! k))"
proof (induction i j buf rule: shift_up.induct)
  case (2 i j buf)
  show ?case
  proof (cases "Suc j \<le> i")
    case True
    with "2.prems" show ?thesis by auto
  next
    case False
    let ?b = "buf[Suc j + 1 := buf ! Suc j]"
    from False "2.prems" "2.IH" obtain buf' where b: "shift_up i j ?b = Inr buf'" "length buf' = length buf"
      "\<And>k. k < length buf \<Longrightarrow> buf' ! k = (if i + 2 \<le> k \<and> k \<le> j + 1 then ?b ! (k - 1) else ?b ! k)"
      by auto
    have "buf' ! k = (if i + 2 \<le> k \<and> k \<le> Suc j + 1 then buf ! (k - 1) else buf ! k)" if "k < length buf" for k
      using b(3) [OF that] "2.prems" False by (auto simp: nth_list_update)
    with b False "2.prems" show ?thesis by simp
  qed
qed auto

lemma shift_up_overflow: "i < j \<Longrightarrow> length buf \<le> j + 1 \<Longrightarrow> shift_up i j buf = Inl Buffer_overflow"
  by (cases j) simp_all

lemma double_iacs_result:
  "i \<le> count \<Longrightarrow> count \<le> length buf \<Longrightarrow>
   (let rest = take (count - i) (drop i buf) in
    if count_iac rest = 0 \<or> count + count_iac rest < length buf then
      \<exists>buf'. double_iacs i count buf = Inr (buf', i + length (iac_escape rest)) \<and> length buf' = length buf \<and>
        take (i + length (iac_escape rest)) buf' = take i buf @ iac_escape rest
    else double_iacs i count buf = Inl Buffer_overflow)"
proof (induction i count buf rule: double_iacs.induct)
  case (1 i count buf)
  show ?case
  proof (cases "count \<le> i")
    case True
    then have "double_iacs i count buf = Inr (buf, count)" by (subst double_iacs.simps) simp
    with True "1.prems" show ?thesis by simp
  next
    case False
    then have i: "i < count" "i < length buf" using "1.prems" by simp_all
    let ?rest = "take (count - i) (drop i buf)" and ?rest1 = "take (count - Suc i) (drop (Suc i) buf)"
    have rest: "?rest = buf ! i # ?rest1"
      using i by (metis Cons_nth_drop_Suc Suc_diff_Suc take_Suc_Cons)
    show ?thesis
    proof (cases "buf ! i = 255")
      case False
      have step: "double_iacs i count buf = double_iacs (i + 1) count buf"
        using i False by (simp add: double_iacs.simps [of i count buf])
      have t: "take (Suc i) buf = take i buf @ [buf ! i]" by (rule take_Suc_conv_app_nth [OF i(2)])
      from "1.IH"(2) [OF _ False] i "1.prems" False show ?thesis
        unfolding rest step by (auto simp: Let_def t split: if_splits)
    next
      case True
      show ?thesis
      proof (cases "length buf \<le> count + 1")
        case over: True
        then have "double_iacs i count buf = Inl Buffer_overflow"
          using i True shift_up_overflow [of i count buf] by (simp add: double_iacs.simps [of i count buf])
        with over True "1.prems" show ?thesis unfolding rest by (simp add: Let_def)
      next
        case fits: False
        then obtain b where b: "shift_up i count buf = Inr b" "length b = length buf"
          "\<And>k. k < length buf \<Longrightarrow> b ! k = (if i + 2 \<le> k \<and> k \<le> count + 1 then buf ! (k - 1) else buf ! k)"
          using shift_up_result [of i count buf] i by auto
        let ?b = "b[i + 1 := 255]"
        have step: "double_iacs i count buf = double_iacs (i + 2) (count + 1) ?b"
          using i True b(1) by (simp add: double_iacs.simps [of i count buf])
        have rest': "take (count + 1 - (i + 2)) (drop (i + 2) ?b) = ?rest1"
          by (rule nth_equalityI) (use b i fits in \<open>auto simp: nth_list_update\<close>)
        have t: "take (i + 2) ?b = take i buf @ [255, 255]"
          by (rule nth_equalityI) (use b i fits True in \<open>auto simp: nth_list_update nth_append nth_Cons' less_Suc_eq\<close>)
        have "\<not> count \<le> i" "i + 2 \<le> count + 1" "count + 1 \<le> length ?b" using i fits b(2) by simp_all
        from "1.IH"(1) [OF this(1) True this(2,3), unfolded rest' t Let_def] fits b(2) True show ?thesis
          unfolding rest step Let_def by (auto split: if_splits)
      qed
    qed
  qed
qed

lemma doubling_result:
  assumes "length buf = PORT_BUFSIZE" and "length got \<le> PORT_BUFSIZE div 2" and "take (length got) buf = got"
  shows "if got = replicate (PORT_BUFSIZE div 2) 255 then double_iacs 0 (length got) buf = Inl Buffer_overflow
    else \<exists>buf'. double_iacs 0 (length got) buf = Inr (buf', length (iac_escape got)) \<and> length buf' = PORT_BUFSIZE \<and>
      take (length (iac_escape got)) buf' = iac_escape got"
proof -
  have le: "count_iac got \<le> length got" by (rule length_filter_le)
  have all: "got = replicate (length got) 255" if "count_iac got = length got"
    using that by (metis (mono_tags, lifting) filter_id_conv length_filter_less linorder_not_less order_refl replicate_eqI)
  have len: "length got \<le> 512" using assms(2) by (simp add: PORT_BUFSIZE_def)
  have "length got + count_iac got < length buf" if "got \<noteq> replicate (PORT_BUFSIZE div 2) 255"
  proof (rule ccontr)
    assume "\<not> length got + count_iac got < length buf"
    then have "\<not> length got + count_iac got < 1024" by (simp add: assms(1) PORT_BUFSIZE_def)
    with le len have "length got = 512" "count_iac got = length got" by linarith+
    with all that show False by (simp add: PORT_BUFSIZE_def)
  qed
  moreover have "\<not> length got + count_iac got < length buf" "count_iac got \<noteq> 0" if "got = replicate (PORT_BUFSIZE div 2) 255"
    unfolding that assms(1) by (simp_all add: PORT_BUFSIZE_def)
  moreover have "length got \<le> length buf" using len assms(1) by (simp add: PORT_BUFSIZE_def)
  ultimately show ?thesis
    using double_iacs_result [of 0 "length got" buf] assms(1,3) by (auto simp: Let_def)
qed

text \<open>C40: Reading at most half the buffer is meant to leave room for doubling every 255.  The
  loop leaves exactly the escaped bytes in the buffer, except when all 512 bytes that were
  read are 255: then it writes one byte behind the buffer.\<close>

theorem doubling_correct:
  assumes "length buf = PORT_BUFSIZE" and "length got \<le> PORT_BUFSIZE div 2" and "take (length got) buf = got"
  shows "if got = replicate (PORT_BUFSIZE div 2) 255 then double_iacs 0 (length got) buf = Inl Buffer_overflow
    else \<exists>buf'. double_iacs 0 (length got) buf = Inr (buf', length (iac_escape got)) \<and> length buf' = PORT_BUFSIZE \<and>
      take (length (iac_escape got)) buf' = iac_escape got"
  by (rule doubling_result [OF assms])

theorem doubling_correct_witness:
  "double_iacs 0 512 (replicate 1024 255) = Inl Buffer_overflow"
proof -
  have "take 512 (replicate 1024 (255 :: byte)) = replicate 512 255" by (simp add: min_def)
  then show ?thesis
    using doubling_correct [of "replicate 1024 255" "replicate 512 255"] by (simp add: PORT_BUFSIZE_def)
qed

end
