(* ===== verification/Port_Transfer.thy ===== *)
theory Port_Transfer
  imports Port_Escape Selector_Loop "HOL-Library.Sublist"
begin

text \<open>
  The state of a connection while it transfers data: what is in the buffers, which descriptors
  are watched, and the effects of the helpers of \<^verbatim>\<open>dataxfer.c\<close> on them.
\<close>

section \<open>The invariant\<close>

text \<open>\<open>src\<close> is what has to be delivered in one direction and \<open>dst\<close> what has been; the rest is
  in the buffer.\<close>

definition flow :: "byte list \<Rightarrow> nat \<Rightarrow> int \<Rightarrow> byte list \<Rightarrow> byte list \<Rightarrow> bool" where
  "flow buf st n src dst \<longleftrightarrow> length buf = PORT_BUFSIZE \<and> 0 \<le> n \<and> st + nat n \<le> PORT_BUFSIZE \<and>
     dst @ take (nat n) (drop st buf) = src"

lemma flow_prefix: "flow buf st n src dst \<Longrightarrow> prefix dst src"
  by (auto simp: flow_def)

lemma flow_from_buf:
  "flow buf st n src dst \<Longrightarrow> \<exists>bs. from_buf buf st n = Inr bs \<and> length bs = nat n \<and> dst @ bs = src"
  by (auto simp: flow_def from_buf_def)

lemma flow_sent:
  assumes "flow buf st n src dst" and "from_buf buf st n = Inr bs"
  shows "flow buf (st + length (take k bs)) (n - int (length (take k bs))) src (dst @ take k bs)"
    and "n = int (length (take k bs)) \<Longrightarrow> src = dst @ take k bs"
proof -
  let ?m = "length (take k bs)"
  have bs: "bs = take (nat n) (drop st buf)" "length bs = nat n" "0 \<le> n"
    using assms by (auto simp: flow_def from_buf_def split: if_splits)
  have m: "?m \<le> nat n" using bs(2) by simp
  have eq: "take (nat (n - int ?m)) (drop (st + ?m) buf) = drop ?m bs"
    using bs(3) by (subst bs(1)) (simp add: drop_take add.commute nat_diff_distrib' del: length_take)
  have td: "take k bs @ drop ?m bs = bs"
    by (metis append_take_drop_id length_take take_all_iff linorder_le_cases min.absorb1 min.absorb2 drop_all)
  from assms(1) m bs show "flow buf (st + ?m) (n - int ?m) src (dst @ take k bs)"
    unfolding flow_def eq append_assoc td by (auto simp: nat_diff_distrib)
  assume "n = int ?m"
  then have "length bs \<le> k" using bs(2) by (auto simp: min_def split: if_splits)
  then have "take k bs = bs" by simp
  moreover have "dst @ bs = src" using assms(1) bs(1) by (simp add: flow_def)
  ultimately show "src = dst @ take k bs" by simp
qed

lemma flow_empty: "length buf = PORT_BUFSIZE \<Longrightarrow> st \<le> PORT_BUFSIZE \<Longrightarrow> flow buf st 0 src src"
  by (simp add: flow_def)

definition connected :: "conn \<Rightarrow> bool" where
  "connected c \<longleftrightarrow> tcp_to_dev_state c \<noteq> PORT_UNCONNECTED"

definition encoded :: "port_mode \<Rightarrow> byte list \<Rightarrow> byte list" where
  "encoded m bs = (if m = PORT_TELNET then iac_escape bs else bs)"

definition decoded :: "port_mode \<Rightarrow> byte list \<Rightarrow> byte list" where
  "decoded m bs = (if m = PORT_TELNET then snd (rx_run Plain bs) else bs)"

text \<open>What is waiting to be sent to the client.  A port that does no telnet keeps reading from the
  device while its banner is in the buffer and never asks to be told that the client has room: the
  banner is overwritten by the first read, so it is not waiting for anything.\<close>

definition unsent :: "conn \<Rightarrow> bool" where
  "unsent c \<longleftrightarrow> enabled c = PORT_TELNET \<or> dev_to_tcp_state c \<noteq> PORT_WAITING_INPUT"

definition left_to_send :: "conn \<Rightarrow> int" where
  "left_to_send c = (if unsent c then dev_to_tcp_buf_count c else 0)"

lemma unsent_upd [simp]:
  "unsent (c\<lparr>self := x0\<rparr>) = unsent c" "unsent (c\<lparr>port_timeout := x1\<rparr>) = unsent c" "unsent (c\<lparr>timeout_left := x2\<rparr>) = unsent c"
  "unsent (c\<lparr>timer := x3\<rparr>) = unsent c" "unsent (c\<lparr>portname := x4\<rparr>) = unsent c" "unsent (c\<lparr>tcpport := x5\<rparr>) = unsent c"
  "unsent (c\<lparr>acceptfd := x6\<rparr>) = unsent c" "unsent (c\<lparr>tcpfd := x7\<rparr>) = unsent c" "unsent (c\<lparr>tcp_bytes_received := x8\<rparr>) = unsent c"
  "unsent (c\<lparr>tcp_bytes_sent := x9\<rparr>) = unsent c" "unsent (c\<lparr>devname := x10\<rparr>) = unsent c" "unsent (c\<lparr>devfd := x11\<rparr>) = unsent c"
  "unsent (c\<lparr>dev_bytes_received := x12\<rparr>) = unsent c" "unsent (c\<lparr>dev_bytes_sent := x13\<rparr>) = unsent c" "unsent (c\<lparr>tcp_to_dev_state := x14\<rparr>) = unsent c"
  "unsent (c\<lparr>tcp_to_dev_buf := x15\<rparr>) = unsent c" "unsent (c\<lparr>tcp_to_dev_buf_start := x16\<rparr>) = unsent c" "unsent (c\<lparr>tcp_to_dev_buf_count := x17\<rparr>) = unsent c"
  "unsent (c\<lparr>tcp_monitor := x18\<rparr>) = unsent c" "unsent (c\<lparr>dev_to_tcp_buf := x19\<rparr>) = unsent c" "unsent (c\<lparr>dev_to_tcp_buf_start := x20\<rparr>) = unsent c"
  "unsent (c\<lparr>dev_to_tcp_buf_count := x21\<rparr>) = unsent c" "unsent (c\<lparr>dev_monitor := x22\<rparr>) = unsent c" "unsent (c\<lparr>config_num := x23\<rparr>) = unsent c"
  "unsent (c\<lparr>new_config := x24\<rparr>) = unsent c" "unsent (c\<lparr>is_2217 := x25\<rparr>) = unsent c" "unsent (c\<lparr>break_set := x26\<rparr>) = unsent c"
  "unsent (c\<lparr>linestate_mask := x27\<rparr>) = unsent c" "unsent (c\<lparr>modemstate_mask := x28\<rparr>) = unsent c" "unsent (c\<lparr>last_modemstate := x29\<rparr>) = unsent c"
  "unsent (c\<lparr>dinfo := x30\<rparr>) = unsent c" "unsent (c\<lparr>sel := x31\<rparr>) = unsent c" "unsent (c\<lparr>outs := x32\<rparr>) = unsent c"
  "unsent (c\<lparr>after_shutdown := x33\<rparr>) = unsent c"
  by (simp_all add: unsent_def)

lemma left_to_send_upd [simp]:
  "left_to_send (c\<lparr>self := x0\<rparr>) = left_to_send c" "left_to_send (c\<lparr>port_timeout := x1\<rparr>) = left_to_send c" "left_to_send (c\<lparr>timeout_left := x2\<rparr>) = left_to_send c"
  "left_to_send (c\<lparr>timer := x3\<rparr>) = left_to_send c" "left_to_send (c\<lparr>portname := x4\<rparr>) = left_to_send c" "left_to_send (c\<lparr>tcpport := x5\<rparr>) = left_to_send c"
  "left_to_send (c\<lparr>acceptfd := x6\<rparr>) = left_to_send c" "left_to_send (c\<lparr>tcpfd := x7\<rparr>) = left_to_send c" "left_to_send (c\<lparr>tcp_bytes_received := x8\<rparr>) = left_to_send c"
  "left_to_send (c\<lparr>tcp_bytes_sent := x9\<rparr>) = left_to_send c" "left_to_send (c\<lparr>devname := x10\<rparr>) = left_to_send c" "left_to_send (c\<lparr>devfd := x11\<rparr>) = left_to_send c"
  "left_to_send (c\<lparr>dev_bytes_received := x12\<rparr>) = left_to_send c" "left_to_send (c\<lparr>dev_bytes_sent := x13\<rparr>) = left_to_send c" "left_to_send (c\<lparr>tcp_to_dev_state := x14\<rparr>) = left_to_send c"
  "left_to_send (c\<lparr>tcp_to_dev_buf := x15\<rparr>) = left_to_send c" "left_to_send (c\<lparr>tcp_to_dev_buf_start := x16\<rparr>) = left_to_send c" "left_to_send (c\<lparr>tcp_to_dev_buf_count := x17\<rparr>) = left_to_send c"
  "left_to_send (c\<lparr>tcp_monitor := x18\<rparr>) = left_to_send c" "left_to_send (c\<lparr>dev_to_tcp_buf := x19\<rparr>) = left_to_send c" "left_to_send (c\<lparr>dev_to_tcp_buf_start := x20\<rparr>) = left_to_send c"
  "left_to_send (c\<lparr>dev_monitor := x21\<rparr>) = left_to_send c" "left_to_send (c\<lparr>config_num := x22\<rparr>) = left_to_send c" "left_to_send (c\<lparr>new_config := x23\<rparr>) = left_to_send c"
  "left_to_send (c\<lparr>is_2217 := x24\<rparr>) = left_to_send c" "left_to_send (c\<lparr>break_set := x25\<rparr>) = left_to_send c" "left_to_send (c\<lparr>linestate_mask := x26\<rparr>) = left_to_send c"
  "left_to_send (c\<lparr>modemstate_mask := x27\<rparr>) = left_to_send c" "left_to_send (c\<lparr>last_modemstate := x28\<rparr>) = left_to_send c" "left_to_send (c\<lparr>dinfo := x29\<rparr>) = left_to_send c"
  "left_to_send (c\<lparr>sel := x30\<rparr>) = left_to_send c" "left_to_send (c\<lparr>outs := x31\<rparr>) = left_to_send c" "left_to_send (c\<lparr>after_shutdown := x32\<rparr>) = left_to_send c"
  by (simp_all add: left_to_send_def)

lemma unsent_states [simp]:
  "unsent (c\<lparr>dev_to_tcp_state := PORT_WAITING_OUTPUT_CLEAR\<rparr>)"
  "unsent (c\<lparr>dev_to_tcp_state := PORT_WAITING_INPUT\<rparr>) \<longleftrightarrow> enabled c = PORT_TELNET"
  by (simp_all add: unsent_def)

lemma left_to_send_states [simp]:
  "left_to_send (c\<lparr>dev_to_tcp_state := PORT_WAITING_OUTPUT_CLEAR\<rparr>) = dev_to_tcp_buf_count c"
  "left_to_send (c\<lparr>dev_to_tcp_state := PORT_WAITING_INPUT\<rparr>) = (if enabled c = PORT_TELNET then dev_to_tcp_buf_count c else 0)"
  "left_to_send (c\<lparr>dev_to_tcp_buf_count := n\<rparr>) = (if unsent c then n else 0)"
  by (simp_all add: left_to_send_def unsent_def)

text \<open>The descriptors and the timer of a connection; the monitor of the client's data, which
  \<^verbatim>\<open>init_port_data\<close> does assign, is a controller if there is one.\<close>

definition fds_fine :: "conn \<Rightarrow> bool" where
  "fds_fine c \<longleftrightarrow> fd_ok (devfd c) \<and> fd_ok (tcpfd c) \<and> devfd c \<noteq> tcpfd c \<and> length (fds (sel c)) = FD_SETSIZE \<and>
     tcp_monitor c \<noteq> Wild"

definition timer_fine :: "conn \<Rightarrow> bool" where
  "timer_fine c \<longleftrightarrow> (\<exists>A T. running (sel c) A T \<and> timer c \<in> A \<and> finite A \<and> card A < 2 ^ 32)"

text \<open>A side that is read from has an empty buffer, and the other side is not waited for.
  \<open>R\<close> and \<open>W\<close> are the sets of the selector, or what is left to do of the present round.\<close>

definition gate :: "int \<Rightarrow> int \<Rightarrow> int \<Rightarrow> nat set \<Rightarrow> nat set \<Rightarrow> bool" where
  "gate rd wr n R W \<longleftrightarrow> (nat rd \<in> R \<longrightarrow> n = 0 \<and> nat wr \<notin> W)"

definition gates :: "nat set \<Rightarrow> nat set \<Rightarrow> conn \<Rightarrow> bool" where
  "gates R W c \<longleftrightarrow> gate (devfd c) (tcpfd c) (left_to_send c) R W \<and>
     gate (tcpfd c) (devfd c) (tcp_to_dev_buf_count c) R W \<and> (\<not> unsent c \<longrightarrow> nat (tcpfd c) \<notin> W)"

text \<open>The telnet data of a port that does no telnet are never initialised: the invariant says nothing
  of them.\<close>

definition telnet_fine :: "port \<Rightarrow> bool" where
  "telnet_fine td \<longleftrightarrow>
     (if enabled (cb_data td) = PORT_TELNET
      then td_ok (\<lambda>_. True) td \<and> rx_ok td \<and> fst (rx_run Plain (tcp_in (outs (cb_data td)))) = rx_of td
      else \<not> is_2217 (cb_data td))"

definition flow_to_tcp :: "byte list \<Rightarrow> conn \<Rightarrow> bool" where
  "flow_to_tcp pre c \<longleftrightarrow> flow (dev_to_tcp_buf c) (dev_to_tcp_buf_start c) (left_to_send c)
     (pre @ encoded (enabled c) (dev_in (outs c))) (tcp_out (outs c))"

definition flow_to_dev :: "conn \<Rightarrow> bool" where
  "flow_to_dev c \<longleftrightarrow> flow (tcp_to_dev_buf c) (tcp_to_dev_buf_start c) (tcp_to_dev_buf_count c)
     (decoded (enabled c) (tcp_in (outs c))) (dev_out (outs c))"

text \<open>\<open>pre\<close> is what is sent ahead of the data: the banner of a telnet port, nothing for the others.\<close>

definition up_ok :: "byte list \<Rightarrow> nat set \<Rightarrow> nat set \<Rightarrow> port \<Rightarrow> bool" where
  "up_ok pre R W td \<longleftrightarrow>
     connected (cb_data td) \<and> fds_fine (cb_data td) \<and> timer_fine (cb_data td) \<and> gates R W (cb_data td) \<and>
     gates (read_set (sel (cb_data td))) (write_set (sel (cb_data td))) (cb_data td) \<and>
     telnet_fine td \<and> flow_to_tcp pre (cb_data td) \<and> flow_to_dev (cb_data td)"

definition delivered :: "byte list \<Rightarrow> conn \<Rightarrow> bool" where
  "delivered pre c \<longleftrightarrow> prefix (tcp_out (outs c)) (pre @ encoded (enabled c) (dev_in (outs c))) \<and>
     prefix (dev_out (outs c)) (decoded (enabled c) (tcp_in (outs c)))"

definition no_handlers :: "conn \<Rightarrow> int \<Rightarrow> bool" where
  "no_handlers c fd \<longleftrightarrow> handle_read (fds (sel c) ! nat fd) = None \<and> handle_write (fds (sel c) ! nat fd) = None \<and>
     handle_except (fds (sel c) ! nat fd) = None"

definition down_ok :: "byte list \<Rightarrow> port \<Rightarrow> bool" where
  "down_ok pre td \<longleftrightarrow> \<not> connected (cb_data td) \<and> delivered pre (cb_data td) \<and>
     no_handlers (cb_data td) (devfd (cb_data td)) \<and> no_handlers (cb_data td) (tcpfd (cb_data td)) \<and>
     \<not> in_heap (timers (sel (cb_data td)) (timer (cb_data td)))"

definition conn_ok :: "byte list \<Rightarrow> nat set \<Rightarrow> nat set \<Rightarrow> port \<Rightarrow> bool" where
  "conn_ok pre R W td \<longleftrightarrow> up_ok pre R W td \<or> down_ok pre td"

section \<open>Effects of the helpers\<close>

lemma nat_fds: "fds_fine c \<Longrightarrow> nat (devfd c) \<noteq> nat (tcpfd c) \<and> nat (devfd c) < FD_SETSIZE \<and> nat (tcpfd c) < FD_SETSIZE"
  by (auto simp: fds_fine_def fd_ok_def FD_SETSIZE_def)

lemma block_result: "fd_ok (rd c) \<Longrightarrow> fd_ok (wr c) \<Longrightarrow> (\<And>s. wr (c\<lparr>sel := s\<rparr>) = wr c) \<Longrightarrow> block rd wr c =
    Inr (c\<lparr>sel := (sel c)\<lparr>read_set := read_set (sel c) - {nat (rd c)}, write_set := insert (nat (wr c)) (write_set (sel c))\<rparr>\<rparr>)"
  by (simp add: block_def with_sel_def sel_set_fd_read_handler_def sel_set_fd_write_handler_def change_set_def)

lemma unblock_result: "fd_ok (rd c) \<Longrightarrow> fd_ok (wr c) \<Longrightarrow> (\<And>s. wr (c\<lparr>sel := s\<rparr>) = wr c) \<Longrightarrow> unblock rd wr c =
    Inr (c\<lparr>sel := (sel c)\<lparr>read_set := insert (nat (rd c)) (read_set (sel c)), write_set := write_set (sel c) - {nat (wr c)}\<rparr>\<rparr>)"
  by (simp add: unblock_def with_sel_def sel_set_fd_read_handler_def sel_set_fd_write_handler_def change_set_def)

lemma running_sets [simp]:
  "running (s\<lparr>read_set := r\<rparr>) = running s" "running (s\<lparr>write_set := r\<rparr>) = running s"
  by (simp_all add: fun_eq_iff running_cong [of "s\<lparr>read_set := r\<rparr>" s] running_cong [of "s\<lparr>write_set := r\<rparr>" s])

lemma selector_more: "heap.more s = heap.more s' \<Longrightarrow> fds s = fds s' \<and> read_set s = read_set s' \<and> write_set s = write_set s'"
  by (cases s; cases s') simp

lemma timer_stopped:
  assumes "timer_fine c"
  shows "\<exists>s A T. stop_timer c = Some (Inr (c\<lparr>sel := s\<rparr>)) \<and> heap.more s = heap.more (sel c) \<and>
    running s A T \<and> timer c \<in> A - T \<and> finite A \<and> card A < 2 ^ 32"
proof -
  obtain A T where a: "running (sel c) A T" "timer c \<in> A" "finite A" "card A < 2 ^ 32"
    using assms by (auto simp: timer_fine_def)
  show ?thesis
  proof (cases "timer c \<in> T")
    case True
    with sel_stop_timer_ok [OF a(1) True] obtain s where
      "sel_stop_timer (sel c) (timer c) = Some (Inr (Inr s))" "running s A (T - {timer c})" "heap.more s = heap.more (sel c)"
      by blast
    with a show ?thesis by (intro exI [of _ s] exI [of _ A] exI [of _ "T - {timer c}"]) (simp add: stop_timer_def)
  next
    case False
    with a have "stop_timer c = Some (Inr (c\<lparr>sel := sel c\<rparr>))" by (simp add: stop_timer_def sel_stop_timer_def running_def)
    with a False show ?thesis by (intro exI [of _ "sel c"] exI [of _ A] exI [of _ T]) simp
  qed
qed

lemma timer_started:
  assumes "timer_fine c"
  shows "\<exists>s. start_timer t c = Some (Inr (c\<lparr>sel := s\<rparr>)) \<and> heap.more s = heap.more (sel c) \<and> timer_fine (c\<lparr>sel := s\<rparr>)"
proof -
  obtain A T where a: "running (sel c) A T" "timer c \<in> A" "finite A" "card A < 2 ^ 32"
    using assms by (auto simp: timer_fine_def)
  show ?thesis
  proof (cases "timer c \<in> T")
    case True
    with a have "start_timer t c = Some (Inr (c\<lparr>sel := sel c\<rparr>))" by (simp add: start_timer_def sel_start_timer_def running_def)
    with assms show ?thesis by (intro exI [of _ "sel c"]) simp
  next
    case False
    with a have "card T < card A" by (intro psubset_card_mono) (auto simp: running_def)
    with a(4) have "card T + 1 < 2 ^ 32" by linarith
    with start_timer_ok [OF a(1,2) _ False] obtain s where
      "sel_start_timer (sel c) (timer c) (Timeval (tv_sec t + 1) (tv_usec t)) = Some (Inr (Inr s))"
      "running s A (insert (timer c) T)" "heap.more s = heap.more (sel c)" by blast
    with a show ?thesis by (intro exI [of _ s]) (auto simp: start_timer_def timer_fine_def)
  qed
qed


section \<open>Closing\<close>

lemma clear_fd_result:
  assumes "fd_ok fd"
  shows "\<exists>s. clear_fd fd c = Inr (c\<lparr>sel := s\<rparr>) \<and> fds s = (fds (sel c))[nat fd := init_fd] \<and>
    timers s = timers (sel c)"
proof -
  obtain s where "sel_clear_fd_handlers (sel c) fd = Inr s" "fds s = (fds (sel c))[nat fd := init_fd]" "timers s = timers (sel c)"
    using assms by (simp add: sel_clear_fd_handlers_def Let_def)
  then show ?thesis by (simp add: clear_fd_def with_sel_def) blast
qed

lemma shutdown_ok:
  assumes "fds_fine (cb_data td)" and "timer_fine (cb_data td)" and "delivered pre (cb_data td)"
  shows "run_ok False {} (down_ok pre) (shutdown_port td)"
proof -
  define c where "c = cb_data td"
  obtain s A T where s: "stop_timer c = Some (Inr (c\<lparr>sel := s\<rparr>))" "heap.more s = heap.more (sel c)"
    "running s A T" "timer c \<in> A - T"
    using timer_stopped [OF assms(2)] unfolding c_def by blast
  have idle: "\<not> in_heap (timers s (timer c))" using s(3,4) by (auto simp: running_def)
  have len: "length (fds s) = FD_SETSIZE" using assms(1) selector_more [OF s(2)] by (simp add: fds_fine_def c_def)
  have ok: "fd_ok (devfd c)" "fd_ok (tcpfd c)" using assms(1) by (simp_all add: fds_fine_def c_def)
  obtain s1 where s1: "clear_fd (devfd c) (c\<lparr>sel := s\<rparr>) = Inr (c\<lparr>sel := s1\<rparr>)"
    "fds s1 = (fds s)[nat (devfd c) := init_fd]" "timers s1 = timers s"
    using clear_fd_result [OF ok(1), of "c\<lparr>sel := s\<rparr>"] by (elim exE conjE) simp
  obtain s2 where s2: "clear_fd (tcpfd c) (c\<lparr>sel := s1\<rparr>) = Inr (c\<lparr>sel := s2\<rparr>)"
    "fds s2 = (fds s1)[nat (tcpfd c) := init_fd]" "timers s2 = timers s1"
    using clear_fd_result [OF ok(2), of "c\<lparr>sel := s1\<rparr>"] by (elim exE conjE) simp
  have n: "nat (devfd c) < FD_SETSIZE" "nat (tcpfd c) < FD_SETSIZE" using nat_fds [OF assms(1)] by (simp_all add: c_def)
  have gone: "fds s2 ! nat (devfd c) = init_fd" "fds s2 ! nat (tcpfd c) = init_fd"
    using s2(2) s1(2) len n by (simp_all add: nth_list_update)
  have "delivered pre c" using assms(3) by (simp add: c_def)
  then show ?thesis
    using s(1) s1(1) s2(1) gone idle s1(3) s2(3)
    by (simp add: shutdown_port_def c_def [symmetric] down_ok_def connected_def no_handlers_def init_fd_def delivered_def)
qed

lemma up_okD:
  assumes "up_ok pre R W td"
  shows "delivered pre (cb_data td)" and "fds_fine (cb_data td)" and "timer_fine (cb_data td)"
  using assms by (auto simp: up_ok_def delivered_def flow_to_tcp_def flow_to_dev_def dest: flow_prefix)

lemma conn_ok_shutdown:
  assumes "fds_fine (cb_data td)" and "timer_fine (cb_data td)" and "delivered pre (cb_data td)"
  shows "run_ok N F (conn_ok pre R W) (shutdown_port td)"
  using shutdown_ok [OF assms] by (auto simp: run_ok_def res_ok_def conn_ok_def split: option.splits sum.splits)

end
