(* ===== verification/Port_Lossless.thy ===== *)
theory Port_Lossless
  imports Port_Transfer
begin

text \<open>
  Every handler of a connection keeps the invariant of the transfer, whatever \<^verbatim>\<open>read\<close> and
  \<^verbatim>\<open>write\<close> return.
\<close>

section \<open>Sending\<close>

lemmas up_simps = up_ok_def reset_timer_def connected_def fds_fine_def timer_fine_def gates_def gate_def
  flow_to_tcp_def flow_to_dev_def accept_tcp_def accept_dev_def

lemma telnet_fine_conn [simp]:
  "enabled c = enabled (cb_data td) \<Longrightarrow> tcp_in (outs c) = tcp_in (outs (cb_data td)) \<Longrightarrow> is_2217 c = is_2217 (cb_data td) \<Longrightarrow>
   telnet_fine (td\<lparr>cb_data := c\<rparr>) = telnet_fine td"
  by (simp add: telnet_fine_def td_ok_def out_ok_def rx_ok_def rx_of_def)

text \<open>The client has just been read from.\<close>

definition sending :: "byte list \<Rightarrow> nat set \<Rightarrow> nat set \<Rightarrow> port \<Rightarrow> bool" where
  "sending pre R W td \<longleftrightarrow>
     connected (cb_data td) \<and> fds_fine (cb_data td) \<and> timer_fine (cb_data td) \<and> telnet_fine td \<and>
     flow_to_tcp pre (cb_data td) \<and> flow_to_dev (cb_data td)"

lemma sending_delivered: "sending pre R W td \<Longrightarrow> delivered pre (cb_data td)"
  by (auto simp: sending_def delivered_def flow_to_tcp_def flow_to_dev_def dest: flow_prefix)

text \<open>The device has just been read from: everything in the buffer has to be sent.\<close>

definition forwarding :: "byte list \<Rightarrow> port \<Rightarrow> bool" where
  "forwarding pre td \<longleftrightarrow>
     connected (cb_data td) \<and> fds_fine (cb_data td) \<and> timer_fine (cb_data td) \<and> telnet_fine td \<and>
     flow (dev_to_tcp_buf (cb_data td)) 0 (dev_to_tcp_buf_count (cb_data td))
       (pre @ encoded (enabled (cb_data td)) (dev_in (outs (cb_data td)))) (tcp_out (outs (cb_data td))) \<and>
     flow_to_dev (cb_data td)"

lemma forwarding_delivered: "forwarding pre td \<Longrightarrow> delivered pre (cb_data td)"
  by (auto simp: forwarding_def delivered_def flow_to_dev_def dest: flow_prefix)

lemma send_to_tcp_ok:
  assumes up: "forwarding pre td" and st: "dev_to_tcp_buf_start (cb_data td) = 0"
    and R: "nat (devfd (cb_data td)) \<notin> R"
    and g: "gate (tcpfd (cb_data td)) (devfd (cb_data td)) (tcp_to_dev_buf_count (cb_data td)) R W"
      "gate (tcpfd (cb_data td)) (devfd (cb_data td)) (tcp_to_dev_buf_count (cb_data td))
         (read_set (sel (cb_data td))) (write_set (sel (cb_data td)))"
      "gate (devfd (cb_data td)) (tcpfd (cb_data td)) 0 (read_set (sel (cb_data td))) (write_set (sel (cb_data td)))"
      "\<not> unsent (cb_data td) \<longrightarrow> nat (tcpfd (cb_data td)) \<notin> W \<and> nat (tcpfd (cb_data td)) \<notin> write_set (sel (cb_data td))"
  shows "run_ok (write_retry ws = None) {} (conn_ok pre R W) (send_to_tcp ws td)"
proof -
  define c where "c = cb_data td"
  note up' = up [unfolded forwarding_def, folded c_def] and g' = g [folded c_def] and R' = R [folded c_def] and st' = st [folded c_def]
  from up' have fine: "fds_fine c" "timer_fine c" "connected c" "telnet_fine td" "flow_to_dev c"
    and fl: "flow (dev_to_tcp_buf c) 0 (dev_to_tcp_buf_count c) (pre @ encoded (enabled c) (dev_in (outs c))) (tcp_out (outs c))"
    by simp_all
  obtain bs where bs: "from_buf (dev_to_tcp_buf c) 0 (dev_to_tcp_buf_count c) = Inr bs" using flow_from_buf [OF fl] by blast
  have blk: "block devfd tcpfd c' = Inr (c'\<lparr>sel := (sel c')\<lparr>read_set := read_set (sel c') - {nat (devfd c')},
      write_set := insert (nat (tcpfd c')) (write_set (sel c'))\<rparr>\<rparr>)" if "devfd c' = devfd c" "tcpfd c' = tcpfd c" for c'
    using fine(1) that by (intro block_result) (simp_all add: fds_fine_def)
  have ne: "nat (devfd c) \<noteq> nat (tcpfd c)" using nat_fds [OF fine(1)] by simp
  consider (never) "write_retry ws = None" | (again) "write_retry ws = Some (Write_failed EAGAIN)"
    | (err) err where "write_retry ws = Some (Write_failed err)" "err \<noteq> EAGAIN" | (sent) k where "write_retry ws = Some (Written k)"
    by (cases "write_retry ws"; cases "the (write_retry ws)") auto
  then show ?thesis
  proof cases
    case never
    then show ?thesis using bs by (simp add: send_to_tcp_def c_def [symmetric])
  next
    case again
    have "up_ok pre R W (td\<lparr>cb_data := reset_timer (c\<lparr>sel := (sel c)\<lparr>read_set := read_set (sel c) - {nat (devfd c)},
      write_set := insert (nat (tcpfd c)) (write_set (sel c))\<rparr>, dev_to_tcp_state := PORT_WAITING_OUTPUT_CLEAR\<rparr>)\<rparr>)"
      using fine fl g' R' ne st'
      by (simp add: up_simps c_def [symmetric])
    then show ?thesis using bs again by (simp add: send_to_tcp_def c_def [symmetric] blk conn_ok_def)
  next
    case err
    then show ?thesis
      using bs conn_ok_shutdown [of td pre] up forwarding_delivered [OF up]
      by (simp add: send_to_tcp_def c_def [symmetric] forwarding_def)
  next
    case (sent k)
    define n where "n = length (take k bs)"
    define c1 where "c1 = accept_tcp (take k bs) c"
    have sel: "devfd c1 = devfd c" "tcpfd c1 = tcpfd c" "sel c1 = sel c" "timer c1 = timer c"
      "dev_to_tcp_buf_count c1 = dev_to_tcp_buf_count c - int n" "dev_to_tcp_buf_start c1 = 0"
      by (simp_all add: c1_def accept_tcp_def n_def st' del: length_take)
    note fl' = flow_sent [OF fl bs, of k, folded n_def]
    have blk1: "block devfd tcpfd (c1\<lparr>dev_to_tcp_buf_start := n\<rparr>) = Inr (c1\<lparr>dev_to_tcp_buf_start := n,
        sel := (sel c)\<lparr>read_set := read_set (sel c) - {nat (devfd c)}, write_set := insert (nat (tcpfd c)) (write_set (sel c))\<rparr>\<rparr>)"
      using blk [of "c1\<lparr>dev_to_tcp_buf_start := n\<rparr>"] sel by simp
    show ?thesis
    proof (cases "dev_to_tcp_buf_count c1 = 0")
      case True
      then have "up_ok pre R W (td\<lparr>cb_data := reset_timer c1\<rparr>)"
        using fine fl' g' R' ne sel
        by (simp add: up_simps c_def [symmetric] c1_def flow_def)
      with True show ?thesis using bs sent by (simp add: send_to_tcp_def Let_def c_def [symmetric] c1_def [symmetric] conn_ok_def)
    next
      case False
      have "up_ok pre R W (td\<lparr>cb_data := reset_timer (c1\<lparr>dev_to_tcp_buf_start := n, sel := (sel c)\<lparr>
          read_set := read_set (sel c) - {nat (devfd c)}, write_set := insert (nat (tcpfd c)) (write_set (sel c))\<rparr>,
          dev_to_tcp_state := PORT_WAITING_OUTPUT_CLEAR\<rparr>)\<rparr>)"
        using fine fl' g' R' ne sel
        by (simp add: up_simps c_def [symmetric] c1_def)
      with False show ?thesis
        using bs sent sel(6) blk1
        by (simp add: send_to_tcp_def Let_def c_def [symmetric] c1_def [symmetric] n_def [symmetric] conn_ok_def del: length_take)
    qed
  qed
qed

lemma send_to_dev_ok:
  assumes up: "sending pre R W td" and st: "tcp_to_dev_buf_start (cb_data td) = 0"
    and R: "nat (tcpfd (cb_data td)) \<notin> R"
    and g: "gate (devfd (cb_data td)) (tcpfd (cb_data td)) (left_to_send (cb_data td)) R W"
      "gate (devfd (cb_data td)) (tcpfd (cb_data td)) (left_to_send (cb_data td))
         (read_set (sel (cb_data td))) (write_set (sel (cb_data td)))"
      "gate (tcpfd (cb_data td)) (devfd (cb_data td)) 0 (read_set (sel (cb_data td))) (write_set (sel (cb_data td)))"
      "\<not> unsent (cb_data td) \<longrightarrow> nat (tcpfd (cb_data td)) \<notin> W \<and> nat (tcpfd (cb_data td)) \<notin> write_set (sel (cb_data td))"
  shows "run_ok (write_retry ws = None) {} (conn_ok pre R W) (send_to_dev ws td)"
proof -
  define c where "c = cb_data td"
  note up' = up [unfolded sending_def, folded c_def] and g' = g [folded c_def] and R' = R [folded c_def] and st' = st [folded c_def]
  from up' have fine: "fds_fine c" "timer_fine c" "connected c" "telnet_fine td" "flow_to_tcp pre c"
    and fl: "flow (tcp_to_dev_buf c) 0 (tcp_to_dev_buf_count c) (decoded (enabled c) (tcp_in (outs c))) (dev_out (outs c))"
    by (simp_all add: flow_to_dev_def st')
  obtain bs where bs: "from_buf (tcp_to_dev_buf c) 0 (tcp_to_dev_buf_count c) = Inr bs" using flow_from_buf [OF fl] by blast
  have blk: "block tcpfd devfd c' = Inr (c'\<lparr>sel := (sel c')\<lparr>read_set := read_set (sel c') - {nat (tcpfd c')},
      write_set := insert (nat (devfd c')) (write_set (sel c'))\<rparr>\<rparr>)" if "tcpfd c' = tcpfd c" "devfd c' = devfd c" for c'
    using fine(1) that by (intro block_result) (simp_all add: fds_fine_def)
  have ne: "nat (tcpfd c) \<noteq> nat (devfd c)" using nat_fds [OF fine(1)] by simp
  consider (never) "write_retry ws = None" | (again) "write_retry ws = Some (Write_failed EAGAIN)"
    | (err) err where "write_retry ws = Some (Write_failed err)" "err \<noteq> EAGAIN" | (sent) k where "write_retry ws = Some (Written k)"
    by (cases "write_retry ws"; cases "the (write_retry ws)") auto
  then show ?thesis
  proof cases
    case never
    then show ?thesis using bs by (simp add: send_to_dev_def c_def [symmetric])
  next
    case again
    have "up_ok pre R W (td\<lparr>cb_data := reset_timer (c\<lparr>sel := (sel c)\<lparr>read_set := read_set (sel c) - {nat (tcpfd c)},
      write_set := insert (nat (devfd c)) (write_set (sel c))\<rparr>, tcp_to_dev_state := PORT_WAITING_OUTPUT_CLEAR\<rparr>)\<rparr>)"
      using fine fl g' R' ne st'
      by (simp add: up_simps c_def [symmetric])
    then show ?thesis using bs again by (simp add: send_to_dev_def c_def [symmetric] blk conn_ok_def)
  next
    case err
    then show ?thesis
      using bs conn_ok_shutdown [of td pre] up sending_delivered [OF up]
      by (simp add: send_to_dev_def c_def [symmetric] sending_def)
  next
    case (sent k)
    define n where "n = length (take k bs)"
    define c1 where "c1 = accept_dev (take k bs) c"
    have sel: "tcpfd c1 = tcpfd c" "devfd c1 = devfd c" "sel c1 = sel c" "timer c1 = timer c"
      "tcp_to_dev_buf_count c1 = tcp_to_dev_buf_count c - int n" "tcp_to_dev_buf_start c1 = 0"
      by (simp_all add: c1_def accept_dev_def n_def st' del: length_take)
    note fl' = flow_sent [OF fl bs, of k, folded n_def]
    have blk1: "block tcpfd devfd (c1\<lparr>tcp_to_dev_buf_start := n\<rparr>) = Inr (c1\<lparr>tcp_to_dev_buf_start := n,
        sel := (sel c)\<lparr>read_set := read_set (sel c) - {nat (tcpfd c)}, write_set := insert (nat (devfd c)) (write_set (sel c))\<rparr>\<rparr>)"
      using blk [of "c1\<lparr>tcp_to_dev_buf_start := n\<rparr>"] sel by simp
    show ?thesis
    proof (cases "tcp_to_dev_buf_count c1 = 0")
      case True
      then have "up_ok pre R W (td\<lparr>cb_data := reset_timer c1\<rparr>)"
        using fine fl' g' R' ne sel
        by (simp add: up_simps c_def [symmetric] c1_def flow_def)
      with True show ?thesis using bs sent by (simp add: send_to_dev_def Let_def c_def [symmetric] c1_def [symmetric] conn_ok_def)
    next
      case False
      have "up_ok pre R W (td\<lparr>cb_data := reset_timer (c1\<lparr>tcp_to_dev_buf_start := n, sel := (sel c)\<lparr>
          read_set := read_set (sel c) - {nat (tcpfd c)}, write_set := insert (nat (devfd c)) (write_set (sel c))\<rparr>,
          tcp_to_dev_state := PORT_WAITING_OUTPUT_CLEAR\<rparr>)\<rparr>)"
        using fine fl' g' R' ne sel
        by (simp add: up_simps c_def [symmetric] c1_def)
      with False show ?thesis
        using bs sent sel(6) blk1
        by (simp add: send_to_dev_def Let_def c_def [symmetric] c1_def [symmetric] n_def [symmetric] conn_ok_def del: length_take)
    qed
  qed
qed

section \<open>Sending the rest\<close>

lemma up_ok_delivered: "up_ok pre R W td \<Longrightarrow> delivered pre (cb_data td)"
  by (auto simp: up_ok_def delivered_def flow_to_tcp_def flow_to_dev_def dest: flow_prefix)

lemma up_ok_shutdown: "up_ok pre R W td \<Longrightarrow> run_ok N F (conn_ok pre R' W') (shutdown_port td)"
  by (rule conn_ok_shutdown) (auto simp: up_ok_delivered, simp_all add: up_ok_def)

lemma up_ok_timer: "up_ok pre R W td \<Longrightarrow> up_ok pre R W (upd_conn reset_timer td)"
  by (simp add: up_simps)

lemma write_data_ok:
  assumes up: "up_ok pre R W td" and R: "nat (devfd (cb_data td)) \<notin> R" and un: "unsent (cb_data td)"
    and idle: "nat (tcpfd (cb_data td)) \<notin> W"
  shows "run_ok False {} (conn_ok pre R W) (write_data w td)"
proof -
  define c where "c = cb_data td"
  note up' = up [unfolded up_ok_def, folded c_def] and R' = R [folded c_def] and un' = un [folded c_def] and idle' = idle [folded c_def]
  from up' un' have fine: "fds_fine c" "timer_fine c" "connected c" "telnet_fine td" "flow_to_dev c" "gates R W c"
      "gates (read_set (sel c)) (write_set (sel c)) c"
    and fl: "flow (dev_to_tcp_buf c) (dev_to_tcp_buf_start c) (dev_to_tcp_buf_count c)
      (pre @ encoded (enabled c) (dev_in (outs c))) (tcp_out (outs c))"
    by (simp_all add: flow_to_tcp_def left_to_send_def)
  have pd: "left_to_send c = dev_to_tcp_buf_count c" using un' by (simp add: left_to_send_def)
  obtain bs where bs: "from_buf (dev_to_tcp_buf c) (dev_to_tcp_buf_start c) (dev_to_tcp_buf_count c) = Inr bs"
    and len: "length bs = nat (dev_to_tcp_buf_count c)"
    using flow_from_buf [OF fl] by blast
  have ne: "nat (devfd c) \<noteq> nat (tcpfd c)" using nat_fds [OF fine(1)] by simp
  show ?thesis
  proof (cases w)
    case (Write_failed err)
    then show ?thesis
      using bs up_ok_shutdown [OF up] up_ok_timer [OF up] up
      by (auto simp: write_data_def c_def [symmetric] conn_ok_def)
  next
    case (Written k)
    define n where "n = length (take k bs)"
    define c1 where "c1 = accept_tcp (take k bs) c"
    have sel: "devfd c1 = devfd c" "tcpfd c1 = tcpfd c" "sel c1 = sel c" "timer c1 = timer c"
      "dev_to_tcp_buf_count c1 = dev_to_tcp_buf_count c - int n" "dev_to_tcp_buf_start c1 = dev_to_tcp_buf_start c"
      by (simp_all add: c1_def accept_tcp_def n_def del: length_take)
    have n0: "n = 0" if "dev_to_tcp_buf_count c = 0" using len that by (simp add: n_def)
    note fl' = flow_sent [OF fl bs, of k, folded n_def]
    have ublk: "unblock devfd tcpfd c1 = Inr (c1\<lparr>sel := (sel c)\<lparr>read_set := insert (nat (devfd c)) (read_set (sel c)),
        write_set := write_set (sel c) - {nat (tcpfd c)}\<rparr>\<rparr>)"
      using fine(1) sel by (subst unblock_result) (simp_all add: fds_fine_def)
    show ?thesis
    proof (cases "dev_to_tcp_buf_count c1 = 0")
      case True
      then have "up_ok pre R W (td\<lparr>cb_data := reset_timer (c1\<lparr>sel := (sel c)\<lparr>
          read_set := insert (nat (devfd c)) (read_set (sel c)), write_set := write_set (sel c) - {nat (tcpfd c)}\<rparr>,
          dev_to_tcp_state := PORT_WAITING_INPUT\<rparr>)\<rparr>)"
        using fine fl fl' R' ne sel idle' by (simp add: up_simps c_def [symmetric] c1_def flow_def)
      with True show ?thesis
        using bs Written ublk by (simp add: write_data_def Let_def c_def [symmetric] c1_def [symmetric] conn_ok_def)
    next
      case False
      have "up_ok pre R W (td\<lparr>cb_data := reset_timer (c1\<lparr>dev_to_tcp_buf_start := dev_to_tcp_buf_start c + n\<rparr>)\<rparr>)"
        using fine fl' R' ne sel False n0 un' idle' pd by (auto simp: up_simps c_def [symmetric] c1_def)
      with False show ?thesis
        using bs Written sel(6)
        by (simp add: write_data_def Let_def c_def [symmetric] c1_def [symmetric] n_def [symmetric] conn_ok_def del: length_take)
    qed
  qed
qed

lemma handle_dev_fd_write_ok:
  assumes up: "up_ok pre R W td" and R: "nat (tcpfd (cb_data td)) \<notin> R"
  shows "run_ok False {} (conn_ok pre R W) (handle_dev_fd_write w td)"
proof -
  define c where "c = cb_data td"
  note up' = up [unfolded up_ok_def, folded c_def] and R' = R [folded c_def]
  from up' have fine: "fds_fine c" "timer_fine c" "connected c" "telnet_fine td" "flow_to_tcp pre c" "gates R W c"
      "gates (read_set (sel c)) (write_set (sel c)) c"
    and fl: "flow (tcp_to_dev_buf c) (tcp_to_dev_buf_start c) (tcp_to_dev_buf_count c)
      (decoded (enabled c) (tcp_in (outs c))) (dev_out (outs c))"
    by (simp_all add: flow_to_dev_def)
  obtain bs where bs: "from_buf (tcp_to_dev_buf c) (tcp_to_dev_buf_start c) (tcp_to_dev_buf_count c) = Inr bs"
    and len: "length bs = nat (tcp_to_dev_buf_count c)"
    using flow_from_buf [OF fl] by blast
  have ne: "nat (tcpfd c) \<noteq> nat (devfd c)" using nat_fds [OF fine(1)] by simp
  show ?thesis
  proof (cases w)
    case (Write_failed err)
    then show ?thesis
      using bs up_ok_shutdown [OF up] up_ok_timer [OF up] up
      by (auto simp: handle_dev_fd_write_def c_def [symmetric] conn_ok_def)
  next
    case (Written k)
    define n where "n = length (take k bs)"
    define c1 where "c1 = accept_dev (take k bs) c"
    have sel: "tcpfd c1 = tcpfd c" "devfd c1 = devfd c" "sel c1 = sel c" "timer c1 = timer c"
      "tcp_to_dev_buf_count c1 = tcp_to_dev_buf_count c - int n" "tcp_to_dev_buf_start c1 = tcp_to_dev_buf_start c"
      by (simp_all add: c1_def accept_dev_def n_def del: length_take)
    have n0: "n = 0" if "tcp_to_dev_buf_count c = 0" using len that by (simp add: n_def)
    note fl' = flow_sent [OF fl bs, of k, folded n_def]
    have ublk: "unblock tcpfd devfd c1 = Inr (c1\<lparr>sel := (sel c)\<lparr>read_set := insert (nat (tcpfd c)) (read_set (sel c)),
        write_set := write_set (sel c) - {nat (devfd c)}\<rparr>\<rparr>)"
      using fine(1) sel by (subst unblock_result) (simp_all add: fds_fine_def)
    show ?thesis
    proof (cases "tcp_to_dev_buf_count c1 = 0")
      case True
      then have "up_ok pre R W (td\<lparr>cb_data := reset_timer (c1\<lparr>sel := (sel c)\<lparr>
          read_set := insert (nat (tcpfd c)) (read_set (sel c)), write_set := write_set (sel c) - {nat (devfd c)}\<rparr>,
          tcp_to_dev_state := PORT_WAITING_INPUT\<rparr>)\<rparr>)"
        using fine fl fl' R' ne sel by (simp add: up_simps c_def [symmetric] c1_def flow_def)
      with True show ?thesis
        using bs Written ublk by (simp add: handle_dev_fd_write_def Let_def c_def [symmetric] c1_def [symmetric] conn_ok_def)
    next
      case False
      have "up_ok pre R W (td\<lparr>cb_data := reset_timer (c1\<lparr>tcp_to_dev_buf_start := tcp_to_dev_buf_start c + n\<rparr>)\<rparr>)"
        using fine fl' R' ne sel False n0 by (auto simp: up_simps c_def [symmetric] c1_def)
      with False show ?thesis
        using bs Written sel(6)
        by (simp add: handle_dev_fd_write_def Let_def c_def [symmetric] c1_def [symmetric] n_def [symmetric] conn_ok_def del: length_take)
    qed
  qed
qed

lemma move_down_length: "length (move_down k n buf) = length buf"
proof -
  have "length (fold (\<lambda>j b. b[j := b ! (k + j)]) js buf) = length buf" for js
    by (induction js arbitrary: buf) simp_all
  then show ?thesis by (simp add: move_down_def)
qed

lemma telnet_fine_sent:
  assumes "telnet_fine td" and "0 < out_telnet_cmd_size td" and "length a = length (out_telnet_cmd td)" and "n \<le> out_telnet_cmd_size td"
  shows "telnet_fine (td\<lparr>out_telnet_cmd := a, out_telnet_cmd_size := n\<rparr>)"
  using assms by (auto simp: telnet_fine_def td_ok_def out_ok_def rx_ok_def rx_of_def split: if_splits)

text \<open>A port that does no telnet may hold any number of commands: it was never set.\<close>

definition tcp_write_faults :: "port \<Rightarrow> c_fault set" where
  "tcp_write_faults td =
     (if enabled (cb_data td) \<noteq> PORT_TELNET \<and> length (out_telnet_cmd td) < out_telnet_cmd_size td then {Out_of_bounds} else {})"

lemma handle_tcp_fd_write_ok:
  assumes up: "up_ok pre R W td" and R: "nat (devfd (cb_data td)) \<notin> R" and un: "unsent (cb_data td)"
    and idle: "nat (tcpfd (cb_data td)) \<notin> W"
  shows "run_ok False (tcp_write_faults td) (conn_ok pre R W) (handle_tcp_fd_write w1 w2 td)"
proof (cases "0 < out_telnet_cmd_size td")
  case False
  have "run_ok False (tcp_write_faults td) (conn_ok pre R W) (write_data w2 td)"
    by (rule run_ok_weaken [OF write_data_ok [OF up R un idle]]) simp_all
  with False show ?thesis by (simp add: handle_tcp_fd_write_def)
next
  case True
  have fine: "telnet_fine td" using up by (simp add: up_ok_def)
  show ?thesis
  proof (cases "length (out_telnet_cmd td) < out_telnet_cmd_size td")
    case long: True
    then have "enabled (cb_data td) \<noteq> PORT_TELNET"
      using fine by (auto simp: telnet_fine_def td_ok_def out_ok_def split: if_splits)
    with long show ?thesis by (simp add: handle_tcp_fd_write_def from_buf_def tcp_write_faults_def)
  next
    case fits: False
    then have bs: "from_buf (out_telnet_cmd td) 0 (int (out_telnet_cmd_size td)) = Inr (take (out_telnet_cmd_size td) (out_telnet_cmd td))"
      by (simp add: from_buf_def)
    note wd = run_ok_weaken [OF write_data_ok [OF up R un idle]]
    show ?thesis
    proof (cases w1)
      case (Write_failed err)
      then show ?thesis
        using True bs up_ok_shutdown [OF up] wd up
        by (auto simp: handle_tcp_fd_write_def conn_ok_def)
    next
      case (Written k)
      define sent where "sent = take k (take (out_telnet_cmd_size td) (out_telnet_cmd td))"
      define td1 where "td1 = upd_conn (upd_outs (\<lambda>o'. o'\<lparr>wire := wire o' @ map Tcp_command sent\<rparr>))
        (td\<lparr>out_telnet_cmd := move_down (length sent) (out_telnet_cmd_size td) (out_telnet_cmd td),
            out_telnet_cmd_size := out_telnet_cmd_size td - length sent\<rparr>)"
      have "telnet_fine (td\<lparr>out_telnet_cmd := move_down (length sent) (out_telnet_cmd_size td) (out_telnet_cmd td),
            out_telnet_cmd_size := out_telnet_cmd_size td - length sent\<rparr>)"
        by (rule telnet_fine_sent [OF fine True]) (simp_all add: move_down_length)
      then have up1: "up_ok pre R W td1" using up by (simp add: td1_def up_simps)
      have same: "nat (devfd (cb_data td1)) \<notin> R" "nat (tcpfd (cb_data td1)) \<notin> W" "unsent (cb_data td1)"
        using R idle un by (simp_all add: td1_def unsent_def)
      have "handle_tcp_fd_write w1 w2 td = (if out_telnet_cmd_size td1 \<noteq> 0 then Some (Inr td1) else write_data w2 td1)"
        using True bs Written
        by (simp add: handle_tcp_fd_write_def Let_def sent_def [symmetric] td1_def del: take_take length_take)
      with up1 run_ok_weaken [OF write_data_ok [OF up1 same(1,3,2)]] show ?thesis by (simp add: conn_ok_def)
    qed
  qed
qed

section \<open>Reading from the device\<close>

lemma read_into_bytes:
  assumes "length buf = PORT_BUFSIZE" and "n \<le> PORT_BUFSIZE"
  shows "\<exists>buf'. read_into n buf (Read_bytes bs) = (buf', int (length (take n bs))) \<and> length buf' = PORT_BUFSIZE \<and>
    take (length (take n bs)) buf' = take n bs"
  using assms by (simp add: read_into_def Let_def min_def)

lemma write_monitor_ok:
  assumes "length buf = PORT_BUFSIZE" and "0 \<le> n" and "nat n \<le> PORT_BUFSIZE"
    and "m \<noteq> Wild"
  shows "\<exists>bs. write_monitor m buf n c = Inr (upd_outs (\<lambda>o'. o'\<lparr>mon_out := bs\<rparr>) c)"
proof (cases m)
  case No_monitor
  then have "write_monitor m buf n c = Inr (upd_outs (\<lambda>o'. o'\<lparr>mon_out := mon_out (outs c)\<rparr>) c)" by (simp add: write_monitor_def)
  then show ?thesis by blast
next
  case (Monitored_by k)
  then have "write_monitor m buf n c = Inr (upd_outs (\<lambda>o'. o'\<lparr>mon_out := mon_out (outs c) @ [(k, take (nat n) buf)]\<rparr>) c)"
    using assms by (simp add: write_monitor_def controller_write_def from_buf_def)
  then show ?thesis by blast
qed (use assms in simp)

text \<open>A full read of 255s overruns the buffer when it is doubled.\<close>

definition all_iac :: "port_mode \<Rightarrow> read_result \<Rightarrow> bool" where
  "all_iac m r \<longleftrightarrow> m = PORT_TELNET \<and>
     (case r of Read_failed \<Rightarrow> False | Read_bytes bs \<Rightarrow> take (PORT_BUFSIZE div 2) bs = replicate (PORT_BUFSIZE div 2) 255)"

definition dev_read_faults :: "read_result \<Rightarrow> conn \<Rightarrow> c_fault set" where
  "dev_read_faults r c = (case dev_monitor c of No_monitor \<Rightarrow> {} | Wild \<Rightarrow> {Dangling_pointer}
       | Monitored_by k \<Rightarrow> if r = Read_failed then {Out_of_bounds} else {}) \<union>
     (if all_iac (enabled c) r then {Buffer_overflow} else {})"

lemma iac_escape_append [simp]: "iac_escape (a @ b) = iac_escape a @ iac_escape b"
  by (simp add: iac_escape_def)

lemma escape_buffer_ok:
  assumes len: "length (dev_to_tcp_buf c) = PORT_BUFSIZE" and n: "dev_to_tcp_buf_count c = int (length got)"
    and got: "take (length got) (dev_to_tcp_buf c) = got"
    and small: "length got \<le> (if enabled c = PORT_TELNET then PORT_BUFSIZE div 2 else PORT_BUFSIZE)"
    and no: "\<not> (enabled c = PORT_TELNET \<and> got = replicate (PORT_BUFSIZE div 2) 255)"
  shows "\<exists>buf. escape_buffer c = Inr (c\<lparr>dev_to_tcp_buf := buf, dev_to_tcp_buf_count := int (length (encoded (enabled c) got))\<rparr>) \<and>
    flow buf 0 (int (length (encoded (enabled c) got))) (dst @ encoded (enabled c) got) dst"
proof (cases "enabled c = PORT_TELNET")
  case True
  with small have s: "length got \<le> PORT_BUFSIZE div 2" by simp
  obtain buf where b: "double_iacs 0 (length got) (dev_to_tcp_buf c) = Inr (buf, length (iac_escape got))"
    "length buf = PORT_BUFSIZE" "take (length (iac_escape got)) buf = iac_escape got"
    using doubling_result [OF len s got] no True by auto
  have "length (iac_escape got) \<le> PORT_BUFSIZE" using b(2,3) by (metis length_take min.cobounded1 min.commute)
  with b True n show ?thesis by (intro exI [of _ buf]) (simp add: escape_buffer_def encoded_def flow_def)
next
  case False
  have "c\<lparr>dev_to_tcp_buf := dev_to_tcp_buf c, dev_to_tcp_buf_count := dev_to_tcp_buf_count c\<rparr> = c" by simp
  with False len n got small show ?thesis
    by (intro exI [of _ "dev_to_tcp_buf c"]) (simp add: escape_buffer_def encoded_def flow_def)
qed

lemma escape_buffer_overflow:
  assumes "length (dev_to_tcp_buf c) = PORT_BUFSIZE" and "dev_to_tcp_buf_count c = int (PORT_BUFSIZE div 2)"
    and "take (PORT_BUFSIZE div 2) (dev_to_tcp_buf c) = replicate (PORT_BUFSIZE div 2) 255" and "enabled c = PORT_TELNET"
  shows "escape_buffer c = Inl Buffer_overflow"
  using doubling_result [OF assms(1), of "replicate (PORT_BUFSIZE div 2) 255"] assms by (simp add: escape_buffer_def)

lemma gates_less: "gates R W c \<Longrightarrow> R' \<subseteq> R \<Longrightarrow> W' \<subseteq> W \<Longrightarrow> gates R' W' c"
  by (auto simp: gates_def gate_def)

lemma handle_dev_fd_read_ok:
  assumes up: "up_ok pre R W td" and R: "nat (devfd (cb_data td)) \<in> R"
  shows "run_ok (write_retry ws = None) (dev_read_faults r (cb_data td))
    (conn_ok pre (R - {nat (devfd (cb_data td))}) W) (handle_dev_fd_read r ws td)"
proof -
  define c where "c = cb_data td"
  define R' where "R' = R - {nat (devfd c)}"
  note up' = up [unfolded up_ok_def, folded c_def]
  from up' have fine: "fds_fine c" "timer_fine c" "connected c" "telnet_fine td" "flow_to_dev c" "gates R W c"
      "gates (read_set (sel c)) (write_set (sel c)) c"
    and fl: "flow (dev_to_tcp_buf c) (dev_to_tcp_buf_start c) (left_to_send c)
      (pre @ encoded (enabled c) (dev_in (outs c))) (tcp_out (outs c))"
    by (simp_all add: flow_to_tcp_def)
  have dl: "delivered pre c" using up_ok_delivered [OF up] by (simp add: c_def)
  have len: "length (dev_to_tcp_buf c) = PORT_BUFSIZE" using fl by (simp add: flow_def)
  have empty: "tcp_out (outs c) = pre @ encoded (enabled c) (dev_in (outs c))"
    using fine(6) R fl by (simp add: gates_def gate_def c_def flow_def)
  define lim where "lim = (if enabled c = PORT_TELNET then PORT_BUFSIZE div 2 else PORT_BUFSIZE)"
  have lim: "lim \<le> PORT_BUFSIZE" by (simp add: lim_def PORT_BUFSIZE_def)
  have closed: "run_ok N F (conn_ok pre R' W) (shutdown_port (td\<lparr>cb_data := c'\<rparr>))"
    if "c' = upd_outs (\<lambda>o'. o'\<lparr>mon_out := m\<rparr>) (c\<lparr>dev_to_tcp_buf_start := 0, dev_to_tcp_buf := b, dev_to_tcp_buf_count := k\<rparr>)" for N F c' m b k
    using dl fine(1,2) that by (intro conn_ok_shutdown) (simp_all add: delivered_def fds_fine_def timer_fine_def)
  show ?thesis
  proof (cases "dev_monitor c = Wild")
    case True
    then show ?thesis
      by (simp add: handle_dev_fd_read_def c_def [symmetric] write_monitor_def dev_read_faults_def split: prod.split)
  next
    case mon: False
    show ?thesis
  proof (cases r)
    case Read_failed
    have "c\<lparr>dev_to_tcp_buf_start := 0, dev_to_tcp_buf := dev_to_tcp_buf c, dev_to_tcp_buf_count := -1\<rparr> =
      upd_outs (\<lambda>o'. o'\<lparr>mon_out := mon_out o'\<rparr>) (c\<lparr>dev_to_tcp_buf_start := 0, dev_to_tcp_buf := dev_to_tcp_buf c, dev_to_tcp_buf_count := -1\<rparr>)"
      by simp
    from closed [OF this] Read_failed show ?thesis
      by (cases "dev_monitor c")
        (simp_all add: handle_dev_fd_read_def read_into_def c_def [symmetric] R'_def write_monitor_def controller_write_def
          from_buf_def dev_read_faults_def)
  next
    case (Read_bytes bs)
    define got where "got = take lim bs"
    obtain buf where buf: "read_into lim (dev_to_tcp_buf c) r = (buf, int (length got))" "length buf = PORT_BUFSIZE"
      "take (length got) buf = got"
      using read_into_bytes [OF len lim, of bs] Read_bytes by (auto simp: got_def)
    define c1 where "c1 = c\<lparr>dev_to_tcp_buf_start := 0, dev_to_tcp_buf := buf, dev_to_tcp_buf_count := int (length got)\<rparr>"
    have small: "length got \<le> lim" by (simp add: got_def)
    obtain m where m: "write_monitor (dev_monitor c1) (dev_to_tcp_buf c1) (dev_to_tcp_buf_count c1) c1 = Inr (upd_outs (\<lambda>o'. o'\<lparr>mon_out := m\<rparr>) c1)"
      using write_monitor_ok [of buf "int (length got)" "dev_monitor c1" c1] buf(2) small lim mon by (auto simp: c1_def)
    define c2 where "c2 = upd_outs (\<lambda>o'. o'\<lparr>mon_out := m\<rparr>) c1"
    define c3 where "c3 = upd_outs (\<lambda>o'. o'\<lparr>dev_in := dev_in o' @ got\<rparr>)
      (c2\<lparr>dev_bytes_received := dev_bytes_received c2 + of_nat (length got)\<rparr>)"
    have step: "handle_dev_fd_read r ws td = (if got = [] then shutdown_port (td\<lparr>cb_data := c2\<rparr>)
      else bind_run (Some (escape_buffer c3)) (\<lambda>c4. send_to_tcp ws (td\<lparr>cb_data := c4\<rparr>)))"
      using buf(1,3) m
      by (simp add: handle_dev_fd_read_def c_def [symmetric] lim_def [symmetric] c1_def c2_def c3_def)
    have got3: "take (length got) (dev_to_tcp_buf c3) = got" "length (dev_to_tcp_buf c3) = PORT_BUFSIZE"
      "dev_to_tcp_buf_count c3 = int (length got)" "enabled c3 = enabled c"
      using buf by (simp_all add: c3_def c2_def c1_def)
    show ?thesis
    proof (cases "got = []")
      case True
      with closed [where c' = c2 and m = m and b = buf and k = "int (length got)"] show ?thesis
        by (simp add: step R'_def c_def [symmetric] c2_def c1_def)
    next
      case False
      note ne = this
      show ?thesis
      proof (cases "enabled c = PORT_TELNET \<and> got = replicate (PORT_BUFSIZE div 2) 255")
        case True
        then have "all_iac (enabled c) r" using Read_bytes by (auto simp: all_iac_def got_def lim_def)
        moreover have "escape_buffer c3 = Inl Buffer_overflow"
          using got3 True by (intro escape_buffer_overflow) auto
        ultimately show ?thesis using ne by (simp add: step dev_read_faults_def c_def [symmetric])
      next
        case no: False
        define k where "k = int (length (encoded (enabled c) got))"
        obtain b where b: "escape_buffer c3 = Inr (c3\<lparr>dev_to_tcp_buf := b, dev_to_tcp_buf_count := k\<rparr>)"
          "flow b 0 k (tcp_out (outs c) @ encoded (enabled c) got) (tcp_out (outs c))"
          using escape_buffer_ok [OF got3(2,3,1), of "tcp_out (outs c)"] small no by (auto simp: got3(4) lim_def k_def)
        define td4 where "td4 = td\<lparr>cb_data := c3\<lparr>dev_to_tcp_buf := b, dev_to_tcp_buf_count := k\<rparr>\<rparr>"
        have enc: "encoded m (x @ y) = encoded m x @ encoded m y" for m x y by (simp add: encoded_def)
        have same: "devfd (cb_data td4) = devfd c" "tcpfd (cb_data td4) = tcpfd c" "sel (cb_data td4) = sel c"
          "tcp_to_dev_buf_count (cb_data td4) = tcp_to_dev_buf_count c" "dev_to_tcp_buf_start (cb_data td4) = 0"
          by (simp_all add: td4_def c3_def c2_def c1_def)
        have unsent': "unsent (cb_data td4) = unsent c" by (simp add: unsent_def td4_def c3_def c2_def c1_def)
        have "forwarding pre td4"
          using fine b(2) empty
          by (simp add: forwarding_def up_simps td4_def c3_def c2_def c1_def c_def [symmetric] enc)
        moreover have "gates R' W c" by (rule gates_less [OF fine(6)]) (auto simp: R'_def)
        ultimately have "run_ok (write_retry ws = None) {} (conn_ok pre R' W) (send_to_tcp ws td4)"
          using fine(7) by (intro send_to_tcp_ok) (simp_all add: same gates_def unsent', simp_all add: R'_def gate_def)
        then have "run_ok (write_retry ws = None) F (conn_ok pre R' W) (send_to_tcp ws td4)" for F
          by (rule run_ok_weaken) simp_all
        with ne b(1) show ?thesis by (simp add: step R'_def c_def [symmetric] td4_def)
      qed
    qed
  qed
  qed
qed

end
