(* ===== verification/Port_Calls.thy ===== *)
theory Port_Calls
  imports Port_Transfer
begin

text \<open>
  What the functions that a port gives to the telnet layer may change: the settings of the
  device, their own fields, and the direction from the device may be switched from reading to
  waiting for the client.
\<close>

definition waiting :: "conn \<Rightarrow> (registered, nat) selector" where
  "waiting c = (sel c)\<lparr>read_set := read_set (sel c) - {nat (devfd c)}, write_set := insert (nat (tcpfd c)) (write_set (sel c))\<rparr>"

definition same_transfer :: "conn \<Rightarrow> conn \<Rightarrow> bool" where
  "same_transfer c0 c \<longleftrightarrow>
     enabled c = enabled c0 \<and> devfd c = devfd c0 \<and> tcpfd c = tcpfd c0 \<and> timer c = timer c0 \<and>
     tcp_to_dev_state c = tcp_to_dev_state c0 \<and> dev_to_tcp_state c = dev_to_tcp_state c0 \<and> tcp_monitor c = tcp_monitor c0 \<and>
     tcp_to_dev_buf c = tcp_to_dev_buf c0 \<and> tcp_to_dev_buf_start c = tcp_to_dev_buf_start c0 \<and>
     tcp_to_dev_buf_count c = tcp_to_dev_buf_count c0 \<and>
     dev_to_tcp_buf c = dev_to_tcp_buf c0 \<and> dev_to_tcp_buf_start c = dev_to_tcp_buf_start c0 \<and>
     dev_to_tcp_buf_count c = dev_to_tcp_buf_count c0 \<and>
     dev_in (outs c) = dev_in (outs c0) \<and> tcp_in (outs c) = tcp_in (outs c0) \<and>
     dev_out (outs c) = dev_out (outs c0) \<and> tcp_out (outs c) = tcp_out (outs c0)"

definition touched :: "conn \<Rightarrow> conn \<Rightarrow> bool" where
  "touched c0 c \<longleftrightarrow> same_transfer c0 c \<and> (sel c = sel c0 \<or> sel c = waiting c0)"

lemma touched_refl [simp]: "touched c c"
  by (simp add: touched_def same_transfer_def)

lemma touched_sel: "same_transfer c c' \<Longrightarrow> sel c' = sel c \<Longrightarrow> touched c0 c \<Longrightarrow> touched c0 c'"
  by (auto simp: touched_def same_transfer_def)

lemma keeps_conn:
  assumes "touched c0 (cb_data td) \<Longrightarrow> touched c0 c"
  shows "keeps (touched c0) td (td\<lparr>cb_data := c\<rparr>)"
  using assms by (auto simp: keeps_def out_ok_def)

text \<open>The commands of the COM port option.\<close>

definition quiet :: "conn \<Rightarrow> conn \<Rightarrow> bool" where
  "quiet c c' \<longleftrightarrow> same_transfer c c' \<and> sel c' = sel c"

lemma quiet_simps [simp]: "quiet c c" "quiet c (set_tty e t c)"
  "quiet c (upd_outs (\<lambda>o'. o'\<lparr>modem := m\<rparr>) c)" "quiet c (upd_outs (\<lambda>o'. o'\<lparr>flow_off := b\<rparr>) c)"
  "quiet c (upd_outs (\<lambda>o'. o'\<lparr>flushed := fl\<rparr>) c)" "quiet c (upd_outs (\<lambda>o'. o'\<lparr>breaks_sent := n\<rparr>) c)"
  "quiet c (c\<lparr>break_set := b\<rparr>)" "quiet c (c\<lparr>linestate_mask := x\<rparr>)" "quiet c (c\<lparr>modemstate_mask := x\<rparr>)"
  "quiet c (c\<lparr>last_modemstate := x\<rparr>)"
  "quiet c (c\<lparr>is_2217 := b, linestate_mask := x, modemstate_mask := y, last_modemstate := z\<rparr>)"
  by (simp_all add: quiet_def same_transfer_def set_tty_def)

lemma quiet_touched: "quiet c c' \<Longrightarrow> touched c0 c \<Longrightarrow> touched c0 c'"
  by (auto simp: quiet_def intro: touched_sel)

lemma quiet_commands [simp]:
  "quiet c (snd (set_baudrate e c option len))" "quiet c (snd (set_datasize e c option len))"
  "quiet c (snd (set_parity e c option len))" "quiet c (snd (set_stopsize e c option len))"
  "quiet c (snd (purge_data c option len))"
  by (auto simp: set_baudrate_def set_datasize_def set_parity_def set_stopsize_def purge_data_def Let_def split: option.splits)

lemma quiet_controls [simp]:
  "quiet c (snd (outbound_flow e code c))" "quiet c (snd (inbound_flow e code c))" "quiet c (snd (break_control e code c))"
  "quiet c (snd (dtr_control code c))" "quiet c (snd (rts_control code c))"
  by (auto simp: outbound_flow_def inbound_flow_def break_control_def dtr_control_def rts_control_def Let_def split: option.splits)

lemma quiet_set_control [simp]: "quiet c (snd (set_control e c option len))"
  by (simp add: set_control_def Let_def case_prod_unfold)

lemma quiet_reply: "quiet c (snd (com_port_reply e c option len))"
  by (simp add: com_port_reply_def Let_def)

section \<open>The callbacks keep the transfer\<close>

lemma ready_done:
  assumes fds: "fd_ok (devfd c0)" "fd_ok (tcpfd c0)" and "out_ok (touched c0) td"
  shows "done_ok (touched c0) td (telnet_output_ready td)"
proof -
  define c where "c = cb_data td"
  have t: "touched c0 c" using assms(3) by (simp add: out_ok_def c_def)
  then have fd: "devfd c = devfd c0" "tcpfd c = tcpfd c0" by (simp_all add: touched_def same_transfer_def)
  have "block devfd tcpfd c = Inr (c\<lparr>sel := (sel c)\<lparr>read_set := read_set (sel c) - {nat (devfd c)},
      write_set := insert (nat (tcpfd c)) (write_set (sel c))\<rparr>\<rparr>)"
    using fds fd by (intro block_result) simp_all
  moreover have "(sel c)\<lparr>read_set := read_set (sel c) - {nat (devfd c)}, write_set := insert (nat (tcpfd c)) (write_set (sel c))\<rparr> = waiting c0"
    using t fd by (auto simp: touched_def waiting_def)
  ultimately have "telnet_output_ready td = Inr (td\<lparr>cb_data := c\<lparr>sel := waiting c0\<rparr>\<rparr>)"
    by (simp add: telnet_output_ready_def on_conn_def c_def [symmetric])
  moreover have "touched c0 (c\<lparr>sel := waiting c0\<rparr>)" using t by (simp add: touched_def same_transfer_def)
  ultimately show ?thesis by (simp add: keeps_conn)
qed

lemma send_option_done:
  assumes fds: "fd_ok (devfd c0)" "fd_ok (tcpfd c0)" and "out_ok (touched c0) td"
  shows "done_ok (touched c0) td (telnet_send_option telnet_output_ready td option)"
proof (cases "out_telnet_cmd_size td + real_len option \<le> MAX_TELNET_CMD_XMIT_BUF")
  case True
  let ?td = "td\<lparr>
        out_telnet_cmd := take (out_telnet_cmd_size td) (out_telnet_cmd td) @ option_message option @
          drop (out_telnet_cmd_size td + real_len option) (out_telnet_cmd td),
        out_telnet_cmd_size := out_telnet_cmd_size td + real_len option\<rparr>"
  have k: "keeps (touched c0) td ?td"
    using assms(3) True by (auto simp: keeps_def out_ok_def length_option_message)
  then have "out_ok (touched c0) ?td" using assms(3) by (simp only: keeps_def)
  from ready_done [OF fds this] k True show ?thesis
    by (auto simp: send_option_result [OF assms(3)] done_ok_def intro: keeps_trans)
next
  case False
  then show ?thesis by (simp add: send_option_result [OF assms(3)] keeps_def out_ok_def)
qed

lemma done_ok_after:
  assumes "out_ok (touched c0) td" and "quiet (cb_data td) c" and "done_ok (touched c0) (td\<lparr>cb_data := c\<rparr>) r"
  shows "done_ok (touched c0) td r"
proof -
  have "keeps (touched c0) td (td\<lparr>cb_data := c\<rparr>)" by (rule keeps_conn) (rule quiet_touched [OF assms(2)])
  with assms(3) show ?thesis by (auto simp: done_ok_def intro: keeps_trans)
qed

lemma out_ok_quiet: "out_ok (touched c0) td \<Longrightarrow> quiet (cb_data td) c \<Longrightarrow> out_ok (touched c0) (td\<lparr>cb_data := c\<rparr>)"
  by (auto simp: out_ok_def intro: quiet_touched)

lemma com_port_handler_done:
  assumes fds: "fd_ok (devfd c0)" "fd_ok (tcpfd c0)" and out: "out_ok (touched c0) td"
  shows "done_ok (touched c0) td (com_port_handler e td option len)"
proof -
  obtain reply c where r: "com_port_reply e (cb_data td) option len = (reply, c)" by force
  then have q: "quiet (cb_data td) c" using quiet_reply [of "cb_data td" e option len] by simp
  show ?thesis
    by (rule done_ok_after [OF out q])
      (use r send_option_done [OF fds out_ok_quiet [OF out q]] in \<open>simp add: com_port_handler_def split: option.split\<close>)
qed

lemma com_port_will_done:
  assumes fds: "fd_ok (devfd c0)" "fd_ok (tcpfd c0)" and out: "out_ok (touched c0) td"
  shows "\<exists>rv td'. com_port_will td = Inr (rv, td') \<and> keeps (touched c0) td td'"
proof (cases "allow_2217 (dinfo (cb_data td))")
  case False
  then show ?thesis by (intro exI [of _ False] exI [of _ td]) (simp add: com_port_will_def Let_def)
next
  case True
  define c where "c = cb_data td"
  define bits where "bits = (case modem (outs c) of None \<Rightarrow> 0 | Some m \<Rightarrow> modem_bits m)"
  define c2 where "c2 = (case modem (outs c) of None \<Rightarrow> c\<lparr>is_2217 := True, linestate_mask := 0, modemstate_mask := 255, last_modemstate := 0\<rparr>
    | Some m \<Rightarrow> c\<lparr>is_2217 := True, linestate_mask := 0, modemstate_mask := 255, last_modemstate := bits\<rparr>)"
  have q: "quiet (cb_data td) c2" by (simp add: c2_def c_def split: option.split)
  have "com_port_will td = bind_res (telnet_send_option telnet_output_ready (td\<lparr>cb_data := c2\<rparr>) [TN_OPT_COM_PORT, 107, bits])
      (\<lambda>td'. Inr (True, td'))"
    using True by (simp add: com_port_will_def Let_def c2_def bits_def c_def split: option.split)
  with done_ok_after [OF out q send_option_done [OF fds out_ok_quiet [OF out q]], of "[TN_OPT_COM_PORT, 107, bits]"]
  show ?thesis by (auto simp: done_ok_def)
qed

lemma port_callbacks_ok:
  assumes "fd_ok (devfd c0)" and "fd_ok (tcpfd c0)"
  shows "callbacks_ok (touched c0) (port_callbacks e)"
proof -
  have "done_ok (touched c0) td (telnet_cmd_handler td b)" if "out_ok (touched c0) td" for td b
    by (rule done_ok_after [OF that, of "cb_data (case telnet_cmd_handler td b of Inr t \<Rightarrow> t)"])
      (simp_all add: telnet_cmd_handler_def keeps_def)
  then show ?thesis
    unfolding callbacks_ok_def
    using ready_done [OF assms] com_port_handler_done [OF assms] com_port_will_done [OF assms]
    by (simp add: port_callbacks_def)
qed

end
