(* ===== verification/Port_Read.thy ===== *)
theory Port_Read
  imports Port_Lossless Port_Calls
begin

text \<open>Reading from the client: telnet commands are taken out of the data and obeyed.\<close>

definition to_send :: "byte list \<Rightarrow> nat set \<Rightarrow> nat set \<Rightarrow> port \<Rightarrow> bool" where
  "to_send pre R W td \<longleftrightarrow> sending pre R W td \<and> tcp_to_dev_buf_start (cb_data td) = 0 \<and> nat (tcpfd (cb_data td)) \<notin> R \<and>
     gate (devfd (cb_data td)) (tcpfd (cb_data td)) (left_to_send (cb_data td)) R W \<and>
     gate (devfd (cb_data td)) (tcpfd (cb_data td)) (left_to_send (cb_data td))
       (read_set (sel (cb_data td))) (write_set (sel (cb_data td))) \<and>
     gate (tcpfd (cb_data td)) (devfd (cb_data td)) 0 (read_set (sel (cb_data td))) (write_set (sel (cb_data td))) \<and>
     (\<not> unsent (cb_data td) \<longrightarrow> nat (tcpfd (cb_data td)) \<notin> W \<and> nat (tcpfd (cb_data td)) \<notin> write_set (sel (cb_data td)))"

lemma to_send_sent: "to_send pre R W td \<Longrightarrow> run_ok (write_retry ws = None) {} (conn_ok pre R W) (send_to_dev ws td)"
  by (rule send_to_dev_ok) (simp_all add: to_send_def)

lemma td_ok_split: "td_ok I td \<longleftrightarrow> td_ok (\<lambda>_. True) td \<and> I (cb_data td)"
  by (auto simp: td_ok_def out_ok_def)

lemma touched_gates:
  assumes "touched c0 c" and "nat (devfd c0) \<noteq> nat (tcpfd c0)"
  shows "gate (devfd c0) (tcpfd c0) n (read_set (sel c0)) (write_set (sel c0)) \<Longrightarrow>
      gate (devfd c0) (tcpfd c0) n (read_set (sel c)) (write_set (sel c))"
    and "gate (tcpfd c0) (devfd c0) n (read_set (sel c0)) (write_set (sel c0)) \<Longrightarrow>
      gate (tcpfd c0) (devfd c0) n (read_set (sel c)) (write_set (sel c))"
  using assms by (auto simp: touched_def waiting_def gate_def)

lemma touched_fine: "touched c0 c \<Longrightarrow> fds_fine c = fds_fine c0 \<and> timer_fine c = timer_fine c0 \<and> connected c = connected c0"
  unfolding touched_def
  by (elim conjE disjE) (simp_all add: same_transfer_def waiting_def fds_fine_def timer_fine_def connected_def)

lemma same_left_to_send: "same_transfer c0 c \<Longrightarrow> left_to_send c = left_to_send c0 \<and> unsent c = unsent c0"
  by (simp add: same_transfer_def left_to_send_def unsent_def)

text \<open>The effect of \<^const>\<open>process_telnet_data\<close> on a port.\<close>

lemma port_telnet:
  assumes fd: "fd_ok (devfd (cb_data td))" "fd_ok (tcpfd (cb_data td))" and td: "td_ok (\<lambda>_. True) td" "rx_ok td"
    and n: "n \<le> length buf"
  shows "process_telnet_data (port_callbacks e) buf n td = Inl Null_pointer \<or>
    (\<exists>buf' len td'. process_telnet_data (port_callbacks e) buf n td = Inr (buf', len, td') \<and> length buf' = length buf \<and> len \<le> n \<and>
       touched (cb_data td) (cb_data td') \<and> td_ok (\<lambda>_. True) td' \<and> rx_ok td' \<and>
       (rx_of td', take len buf') = rx_run (rx_of td) (take n buf))"
proof -
  have "tn_inv (touched (cb_data td)) (port_callbacks e) td"
    using port_callbacks_ok [OF fd] td by (simp add: tn_inv_def td_ok_split [of "touched (cb_data td)"])
  from process_refines [OF this n] show ?thesis
  proof (elim disjE exE conjE, goal_cases)
    case (2 buf' len td')
    have "length buf' = length buf \<and> len \<le> n"
      using telnet_loop_length [of 0 n buf "port_callbacks e" td buf' len td'] 2(1) n by (simp add: process_telnet_data_def)
    with 2 show ?case by (auto simp: tn_inv_def td_ok_split [of "touched (cb_data td)"])
  qed simp
qed

lemma strip_commands_ok:
  assumes fine: "fds_fine c" "timer_fine c" "connected c" "flow_to_tcp pre c"
    and old: "telnet_fine (td\<lparr>cb_data := upd_outs (\<lambda>o'. o'\<lparr>tcp_in := src\<rparr>) c\<rparr>)" "tcp_in (outs c) = src @ got"
    and dst: "dev_out (outs c) = decoded (enabled c) src"
    and buf: "length (tcp_to_dev_buf c) = PORT_BUFSIZE" "tcp_to_dev_buf_start c = 0" "tcp_to_dev_buf_count c = int (length got)"
      "take (length got) (tcp_to_dev_buf c) = got"
    and R: "nat (tcpfd c) \<notin> R"
    and g: "gate (devfd c) (tcpfd c) (left_to_send c) R W"
      "gate (devfd c) (tcpfd c) (left_to_send c) (read_set (sel c)) (write_set (sel c))"
      "gate (tcpfd c) (devfd c) 0 (read_set (sel c)) (write_set (sel c))"
      "\<not> unsent c \<longrightarrow> nat (tcpfd c) \<notin> W \<and> nat (tcpfd c) \<notin> write_set (sel c)"
  shows "run_ok False (if enabled c = PORT_TELNET then {Null_pointer} else {})
    (\<lambda>(done, td1). if done then conn_ok pre R W td1 else to_send pre R W td1) (strip_commands e (td\<lparr>cb_data := c\<rparr>))"
proof (cases "enabled c = PORT_TELNET")
  case False
  have "length got \<le> PORT_BUFSIZE" using buf(1,4) by (metis length_take min.cobounded1 min.commute)
  with False assms show ?thesis
    by (simp add: strip_commands_def to_send_def sending_def flow_to_dev_def flow_def decoded_def telnet_fine_def)
next
  case True
  define td0 where "td0 = td\<lparr>cb_data := c\<rparr>"
  have td0: "td_ok (\<lambda>_. True) td0" "rx_ok td0" "fst (rx_run Plain src) = rx_of td0" "cb_data td0 = c"
    using old(1) True by (simp_all add: telnet_fine_def td0_def td_ok_def out_ok_def rx_ok_def rx_of_def)
  have ne: "nat (devfd c) \<noteq> nat (tcpfd c)" and fd: "fd_ok (devfd c)" "fd_ok (tcpfd c)"
    using nat_fds [OF fine(1)] fine(1) by (simp_all add: fds_fine_def)
  have n: "length got \<le> length (tcp_to_dev_buf c)" using buf(4) by (metis length_take min.cobounded1 min.commute)
  have strip: "strip_commands e td0 =
     bind_run (Some (process_telnet_data (port_callbacks e) (tcp_to_dev_buf c) (length got) td0)) (\<lambda>(buf, len, td1).
          let td2 = upd_conn (\<lambda>c. c\<lparr>tcp_to_dev_buf := buf, tcp_to_dev_buf_count := int len\<rparr>) td1 in
          if error td2 then bind_run (shutdown_port td2) (\<lambda>td3. Some (Inr (True, td3)))
          else Some (Inr (len = 0, td2)))"
    using True buf(3) by (simp add: strip_commands_def td0(4))
  from port_telnet [of td0 "length got" "tcp_to_dev_buf c" e, unfolded td0(4), OF fd td0(1,2) n]
  show ?thesis
  proof (elim disjE exE conjE, goal_cases)
    case 1
    then show ?case using True by (simp add: strip td0_def [symmetric])
  next
    case (2 b len td1)
    define td2 where "td2 = upd_conn (\<lambda>c. c\<lparr>tcp_to_dev_buf := b, tcp_to_dev_buf_count := int len\<rparr>) td1"
    note t = 2(4) and pos = 2(3)
    have cd: "cb_data td2 = (cb_data td1)\<lparr>tcp_to_dev_buf := b, tcp_to_dev_buf_count := int len\<rparr>" by (simp add: td2_def)
    have same: "same_transfer c (cb_data td1)" using t by (simp add: touched_def)
    have fl: "decoded (enabled c) (src @ got) = dev_out (outs c) @ take len b"
      "fst (rx_run Plain (src @ got)) = rx_of td1"
      using 2(7) dst td0(3) buf(4) True
      by (simp_all add: decoded_def rx_run_append Let_def case_prod_unfold prod_eq_iff)
    have "telnet_fine td2"
      using 2(5,6) fl(2) old(2) True same
      by (simp add: telnet_fine_def cd same_transfer_def) (simp add: td2_def td_ok_def out_ok_def rx_ok_def rx_of_def)
    moreover have "flow_to_dev (cb_data td2)"
      using same fl(1) old(2) buf(1,2) 2(2) pos n by (simp add: flow_to_dev_def flow_def cd same_transfer_def)
    moreover have "flow_to_tcp pre (cb_data td2)"
      using fine(4) same same_left_to_send [OF same] by (simp add: flow_to_tcp_def cd same_transfer_def)
    moreover have "fds_fine (cb_data td2)" "timer_fine (cb_data td2)" "connected (cb_data td2)"
      using fine(1-3) touched_fine [OF t] by (simp_all add: cd fds_fine_def timer_fine_def connected_def)
    ultimately have snd: "sending pre R W td2" by (simp add: sending_def)
    have eq: "devfd (cb_data td2) = devfd c" "tcpfd (cb_data td2) = tcpfd c" "sel (cb_data td2) = sel (cb_data td1)"
      "left_to_send (cb_data td2) = left_to_send c" "unsent (cb_data td2)" "tcp_to_dev_buf_count (cb_data td2) = int len"
      "tcp_to_dev_buf_start (cb_data td2) = 0"
      using same buf(2) True same_left_to_send [OF same] by (simp_all add: cd same_transfer_def, simp_all add: unsent_def)
    note gt = touched_gates [OF t ne]
    have send: "to_send pre R W td2" using snd R g(1) gt(1) [OF g(2)] gt(2) [OF g(3)] by (simp add: to_send_def eq)
    moreover have "up_ok pre R W td2" if "len = 0"
      using snd R g(1) gt(1) [OF g(2)] gt(2) [OF g(3)] that
      by (simp add: up_ok_def sending_def gates_def eq) (simp add: gate_def)
    moreover have "run_ok False F (\<lambda>(done, td1). if done then conn_ok pre R W td1 else to_send pre R W td1)
        (bind_run (shutdown_port td2) (\<lambda>td3. Some (Inr (True, td3))))" for F
      by (rule run_ok_bind [OF conn_ok_shutdown, of td2 pre]) (use snd sending_delivered [OF snd] in \<open>simp_all add: sending_def\<close>)
    ultimately show ?case
      using 2(1) by (simp add: strip td0_def [symmetric] td2_def [symmetric] Let_def) (simp add: conn_ok_def)
  qed
qed

definition tcp_read_faults :: "conn \<Rightarrow> c_fault set" where
  "tcp_read_faults c = (if enabled c = PORT_TELNET then {Null_pointer} else {})"

lemma handle_tcp_fd_read_ok:
  assumes up: "up_ok pre R W td" and R: "nat (tcpfd (cb_data td)) \<in> R"
  shows "run_ok (write_retry ws = None) (tcp_read_faults (cb_data td))
    (conn_ok pre (R - {nat (tcpfd (cb_data td))}) W) (handle_tcp_fd_read e r ws td)"
proof -
  define c where "c = cb_data td"
  define R' where "R' = R - {nat (tcpfd c)}"
  note up' = up [unfolded up_ok_def, folded c_def]
  from up' have fine: "fds_fine c" "timer_fine c" "connected c" "telnet_fine td" "flow_to_tcp pre c" "gates R W c"
      "gates (read_set (sel c)) (write_set (sel c)) c"
    and fl: "flow (tcp_to_dev_buf c) (tcp_to_dev_buf_start c) (tcp_to_dev_buf_count c)
      (decoded (enabled c) (tcp_in (outs c))) (dev_out (outs c))"
    by (simp_all add: flow_to_dev_def)
  have len: "length (tcp_to_dev_buf c) = PORT_BUFSIZE" using fl by (simp add: flow_def)
  have empty: "dev_out (outs c) = decoded (enabled c) (tcp_in (outs c))"
    using fine(6) R fl by (simp add: gates_def gate_def c_def flow_def)
  have gR: "gates R' W c" by (rule gates_less [OF fine(6)]) (auto simp: R'_def)
  have closed: "run_ok N F (conn_ok pre R' W) (shutdown_port (td\<lparr>cb_data := c\<lparr>tcp_to_dev_buf_start := 0, tcp_to_dev_buf := b,
      tcp_to_dev_buf_count := k\<rparr>\<rparr>))" for N F b k
    using up_ok_delivered [OF up] fine(1,2)
    by (intro conn_ok_shutdown) (simp_all add: delivered_def fds_fine_def timer_fine_def c_def)
  show ?thesis
  proof (cases r)
    case Read_failed
    with closed [where b = "tcp_to_dev_buf c" and k = "-1"] show ?thesis
      by (simp add: handle_tcp_fd_read_def read_into_def c_def [symmetric] R'_def)
  next
    case (Read_bytes bs)
    define got where "got = take PORT_BUFSIZE bs"
    obtain buf where buf: "read_into PORT_BUFSIZE (tcp_to_dev_buf c) r = (buf, int (length got))" "length buf = PORT_BUFSIZE"
      "take (length got) buf = got"
      using read_into_bytes [OF len order_refl, of bs] Read_bytes by (auto simp: got_def)
    define c1 where "c1 = c\<lparr>tcp_to_dev_buf_start := 0, tcp_to_dev_buf := buf, tcp_to_dev_buf_count := int (length got)\<rparr>"
    define c2 where "c2 = upd_outs (\<lambda>o'. o'\<lparr>tcp_in := tcp_in o' @ got\<rparr>)
      (c1\<lparr>tcp_bytes_received := tcp_bytes_received c1 + of_nat (length got)\<rparr>)"
    define send where "send = (\<lambda>(done, td1).
        if done then Some (Inr td1)
        else let c3 = cb_data td1 in
          bind_run (Some (write_monitor (tcp_monitor c3) (tcp_to_dev_buf c3) (tcp_to_dev_buf_count c3) c3)) (\<lambda>c4.
          send_to_dev ws (td1\<lparr>cb_data := c4\<rparr>)))"
    have step: "handle_tcp_fd_read e r ws td = (if got = [] then shutdown_port (td\<lparr>cb_data := c1\<rparr>)
      else bind_run (strip_commands e (td\<lparr>cb_data := c2\<rparr>)) send)"
      using buf(1,3)
      by (simp add: handle_tcp_fd_read_def c_def [symmetric] c1_def c2_def send_def)
    have strip: "run_ok False (if enabled c2 = PORT_TELNET then {Null_pointer} else {})
      (\<lambda>(done, td1). if done then conn_ok pre R' W td1 else to_send pre R' W td1) (strip_commands e (td\<lparr>cb_data := c2\<rparr>))"
      using fine gR buf empty
      by (intro strip_commands_ok [where src = "tcp_in (outs c)" and got = got])
        (simp_all add: c2_def c1_def fds_fine_def timer_fine_def connected_def flow_to_tcp_def gates_def gate_def c_def [symmetric] R'_def)
    have sent: "run_ok (write_retry ws = None) (tcp_read_faults c) (conn_ok pre R' W) (send (fin, td1))"
      if ok: "if fin then conn_ok pre R' W td1 else to_send pre R' W td1" for fin td1
    proof (cases fin)
      case False
      with ok have ts: "to_send pre R' W td1" by simp
      define c3 where "c3 = cb_data td1"
      have "flow_to_dev c3" using ts by (simp add: to_send_def sending_def c3_def)
      then have "length (tcp_to_dev_buf c3) = PORT_BUFSIZE" "0 \<le> tcp_to_dev_buf_count c3" "nat (tcp_to_dev_buf_count c3) \<le> PORT_BUFSIZE"
        by (simp_all add: flow_to_dev_def flow_def)
      moreover have "tcp_monitor c3 \<noteq> Wild" using ts by (simp add: to_send_def sending_def fds_fine_def c3_def)
      ultimately obtain m where
        m: "write_monitor (tcp_monitor c3) (tcp_to_dev_buf c3) (tcp_to_dev_buf_count c3) c3 = Inr (upd_outs (\<lambda>o'. o'\<lparr>mon_out := m\<rparr>) c3)"
        using write_monitor_ok by blast
      have "to_send pre R' W (td1\<lparr>cb_data := upd_outs (\<lambda>o'. o'\<lparr>mon_out := m\<rparr>) c3\<rparr>)"
        using ts unfolding to_send_def sending_def by (elim conjE) (simp add: up_simps c3_def)
      from run_ok_weaken [OF to_send_sent [OF this]] m False show ?thesis by (simp add: send_def Let_def c3_def [symmetric])
    qed (use ok in \<open>simp add: send_def\<close>)
    have "run_ok (write_retry ws = None) (tcp_read_faults c)
      (\<lambda>(done, td1). if done then conn_ok pre R' W td1 else to_send pre R' W td1) (strip_commands e (td\<lparr>cb_data := c2\<rparr>))"
      by (rule run_ok_weaken [OF strip]) (simp_all add: tcp_read_faults_def c2_def c1_def)
    then have "run_ok (write_retry ws = None) (tcp_read_faults c) (conn_ok pre R' W)
      (bind_run (strip_commands e (td\<lparr>cb_data := c2\<rparr>)) send)"
      by (rule run_ok_bind) (use sent in auto)
    with closed [where b = buf and k = "int (length got)"] show ?thesis
      by (cases "got = []") (simp_all add: step R'_def c_def [symmetric] c1_def)
  qed
qed

end
