(* ===== verification/Port_Run.thy ===== *)
theory Port_Run
  imports Port_Read
begin

text \<open>
  The whole life of a connection: it is set up, the event loop calls its handlers in any order
  that \<^verbatim>\<open>select\<close> permits, and it is closed.
\<close>

section \<open>Timeouts\<close>

lemma up_ok_touched:
  assumes up: "up_ok pre R W td" and k: "keeps (touched (cb_data td)) td td1"
    and tn: "enabled (cb_data td) = PORT_TELNET"
  shows "up_ok pre R W td1"
proof -
  have td: "td_ok (\<lambda>_. True) td" "rx_ok td" "fst (rx_run Plain (tcp_in (outs (cb_data td)))) = rx_of td"
    using up tn by (simp_all add: up_ok_def telnet_fine_def)
  then have "out_ok (touched (cb_data td)) td" by (simp add: td_ok_def out_ok_def)
  with k have out: "out_ok (touched (cb_data td)) td1" by (simp add: keeps_def)
  then have t: "touched (cb_data td) (cb_data td1)" by (simp add: out_ok_def)
  then have same: "same_transfer (cb_data td) (cb_data td1)" by (simp add: touched_def)
  have ne: "nat (devfd (cb_data td)) \<noteq> nat (tcpfd (cb_data td))" using nat_fds up by (auto simp: up_ok_def)
  have un: "unsent (cb_data td)" using tn by (simp add: unsent_def)
  have "td_ok (\<lambda>_. True) td1" using td(1) k out by (simp add: td_ok_def keeps_def out_ok_def)
  moreover have "rx_ok td1" "rx_of td1 = rx_of td" using td(2) k by (simp_all add: keeps_def rx_ok_def rx_of_def)
  ultimately have "telnet_fine td1" using td(3) tn same by (simp add: telnet_fine_def same_transfer_def)
  moreover have "gates (read_set (sel (cb_data td1))) (write_set (sel (cb_data td1))) (cb_data td1)"
    using up touched_gates [OF t ne] same same_left_to_send [OF same] un by (simp add: up_ok_def gates_def same_transfer_def)
  ultimately show ?thesis
    using up touched_fine [OF t] same same_left_to_send [OF same] un
    by (simp add: up_ok_def gates_def flow_to_tcp_def flow_to_dev_def same_transfer_def)
qed

lemma notify_modemstate_ok:
  assumes up: "up_ok pre R W td"
  shows "res_ok {} (up_ok pre R W) (notify_modemstate td)"
proof (cases "is_2217 (cb_data td)")
  case False
  with up show ?thesis by (simp add: notify_modemstate_def Let_def)
next
  case True
  then have tn: "enabled (cb_data td) = PORT_TELNET" using up by (simp add: up_ok_def telnet_fine_def split: if_splits)
  have fd: "fd_ok (devfd (cb_data td))" "fd_ok (tcpfd (cb_data td))" and out: "out_ok (touched (cb_data td)) td"
    using up tn by (simp_all add: up_ok_def fds_fine_def telnet_fine_def td_ok_def out_ok_def)
  have q: "quiet (cb_data td) ((cb_data td)\<lparr>last_modemstate := x\<rparr>)" for x by simp
  have "done_ok (touched (cb_data td)) td (notify_modemstate td)"
    using done_ok_after [OF out q send_option_done [OF fd out_ok_quiet [OF out q]]] True
    by (simp add: notify_modemstate_def Let_def split: option.split)
  then show ?thesis using up_ok_touched [OF up _ tn] by (auto simp: done_ok_def)
qed

lemma up_ok_sel:
  assumes "up_ok pre R W td" and "heap.more s = heap.more (sel (cb_data td))" and "timer_fine ((cb_data td)\<lparr>sel := s\<rparr>)"
  shows "up_ok pre R W (td\<lparr>cb_data := (cb_data td)\<lparr>sel := s\<rparr>\<rparr>)"
  using assms(1,3) selector_more [OF assms(2)]
  by (simp add: up_ok_def connected_def fds_fine_def gates_def flow_to_tcp_def flow_to_dev_def)

lemma timer_taken:
  assumes up: "up_ok pre R W td" and "stop_timer (cb_data td) = Some (Inr c)"
  shows "up_ok pre R W (td\<lparr>cb_data := c\<rparr>)"
proof -
  have "timer_fine (cb_data td)" using up by (simp add: up_ok_def)
  then obtain s A T where s: "stop_timer (cb_data td) = Some (Inr ((cb_data td)\<lparr>sel := s\<rparr>))" "heap.more s = heap.more (sel (cb_data td))"
    "running s A T" "timer (cb_data td) \<in> A - T" "finite A" "card A < 2 ^ 32"
    using timer_stopped by blast
  then have "timer_fine ((cb_data td)\<lparr>sel := s\<rparr>)" by (auto simp: timer_fine_def)
  from up_ok_sel [OF up s(2) this] show ?thesis using s(1) assms(2) by simp
qed

lemma got_timeout_ok:
  assumes up: "up_ok pre R W td"
  shows "run_ok False {} (conn_ok pre R W) (got_timeout t td)"
proof -
  define c1 where "c1 = (if port_timeout (cb_data td) \<noteq> 0 then (cb_data td)\<lparr>timeout_left := timeout_left (cb_data td) - 1\<rparr> else cb_data td)"
  have up1: "up_ok pre R W (td\<lparr>cb_data := c1\<rparr>)" using up by (simp add: up_simps c1_def)
  have start: "run_ok False {} (conn_ok pre R W) (bind_run (start_timer t (cb_data td1)) (\<lambda>c2. Some (Inr (td1\<lparr>cb_data := c2\<rparr>))))"
    if u: "up_ok pre R W td1" for td1
  proof -
    have "timer_fine (cb_data td1)" using u by (simp add: up_ok_def)
    then obtain s where "start_timer t (cb_data td1) = Some (Inr ((cb_data td1)\<lparr>sel := s\<rparr>))"
      "heap.more s = heap.more (sel (cb_data td1))" "timer_fine ((cb_data td1)\<lparr>sel := s\<rparr>)"
      using timer_started by blast
    with up_ok_sel [OF u] show ?thesis by (simp add: conn_ok_def)
  qed
  have "run_ok False {} (conn_ok pre R W) (bind_run (Some (notify_modemstate (td\<lparr>cb_data := c1\<rparr>)))
      (\<lambda>td1. bind_run (start_timer t (cb_data td1)) (\<lambda>c2. Some (Inr (td1\<lparr>cb_data := c2\<rparr>)))))"
    by (rule run_ok_bind [of _ _ "up_ok pre R W"]) (simp_all add: notify_modemstate_ok [OF up1] start)
  with up_ok_shutdown [OF up1] show ?thesis by (simp add: got_timeout_def Let_def c1_def)
qed

section \<open>The event loop\<close>

text \<open>
  \<open>R\<close>, \<open>W\<close> and \<open>E\<close> are the descriptors that \<^verbatim>\<open>select\<close> has reported and that are not served
  yet.  A handler is called if the table of the selector still holds one at that time.
  The timer is taken out of the heap before its handler is called.  Meanwhile controllers start
  and stop to monitor the port.
\<close>

definition registered_at :: "(((registered, nat) fd_control) \<Rightarrow> registered option) \<Rightarrow> int \<Rightarrow> registered \<Rightarrow> port \<Rightarrow> bool" where
  "registered_at which fd h td \<longleftrightarrow> which (fds (sel (cb_data td)) ! nat fd) = Some h"

inductive port_step :: "os_env \<Rightarrow> nat set \<times> nat set \<times> port \<Rightarrow> nat set \<times> nat set \<times> port \<Rightarrow> bool" for e where
  Select: "R' \<subseteq> read_set (sel (cb_data td)) \<Longrightarrow> W' \<subseteq> write_set (sel (cb_data td)) \<Longrightarrow> port_step e (R, W, td) (R', W', td)"
| Dev_read: "nat (devfd (cb_data td)) \<in> R \<Longrightarrow> registered_at handle_read (devfd (cb_data td)) Handle_dev_fd_read td \<Longrightarrow>
    handle_dev_fd_read r ws td = Some (Inr td') \<Longrightarrow> port_step e (R, W, td) (R - {nat (devfd (cb_data td))}, W, td')"
| Tcp_read: "nat (tcpfd (cb_data td)) \<in> R \<Longrightarrow> registered_at handle_read (tcpfd (cb_data td)) Handle_tcp_fd_read td \<Longrightarrow>
    handle_tcp_fd_read e r ws td = Some (Inr td') \<Longrightarrow> port_step e (R, W, td) (R - {nat (tcpfd (cb_data td))}, W, td')"
| Dev_write: "nat (devfd (cb_data td)) \<in> W \<Longrightarrow> registered_at handle_write (devfd (cb_data td)) Handle_dev_fd_write td \<Longrightarrow>
    handle_dev_fd_write w td = Some (Inr td') \<Longrightarrow> port_step e (R, W, td) (R, W - {nat (devfd (cb_data td))}, td')"
| Tcp_write: "nat (tcpfd (cb_data td)) \<in> W \<Longrightarrow> registered_at handle_write (tcpfd (cb_data td)) Handle_tcp_fd_write td \<Longrightarrow>
    handle_tcp_fd_write w1 w2 td = Some (Inr td') \<Longrightarrow> port_step e (R, W, td) (R, W - {nat (tcpfd (cb_data td))}, td')"
| Dev_except: "registered_at handle_except (devfd (cb_data td)) Handle_dev_fd_except td \<Longrightarrow>
    handle_dev_fd_except td = Some (Inr td') \<Longrightarrow> port_step e (R, W, td) (R, W, td')"
| Tcp_except: "registered_at handle_except (tcpfd (cb_data td)) Handle_tcp_fd_except td \<Longrightarrow>
    handle_tcp_fd_except td = Some (Inr td') \<Longrightarrow> port_step e (R, W, td) (R, W, td')"
| Monitor: "m \<noteq> Wild \<Longrightarrow> m' \<noteq> Wild \<Longrightarrow>
    port_step e (R, W, td) (R, W, upd_conn (\<lambda>c. c\<lparr>tcp_monitor := m, dev_monitor := m'\<rparr>) td)"
| Tick: "in_heap (timers (sel (cb_data td)) (timer (cb_data td))) \<Longrightarrow> stop_timer (cb_data td) = Some (Inr c) \<Longrightarrow>
    got_timeout t (td\<lparr>cb_data := c\<rparr>) = Some (Inr td') \<Longrightarrow> port_step e (R, W, td) (R, W, td')"

text \<open>The descriptors of a connection that is closed are not served any more.\<close>

lemma registered_up:
  assumes "conn_ok pre R W td" and "registered_at which fd h td" and "fd = devfd (cb_data td) \<or> fd = tcpfd (cb_data td)"
    and "which = handle_read \<or> which = handle_write \<or> which = handle_except"
  shows "up_ok pre R W td"
  using assms by (auto simp: conn_ok_def down_ok_def registered_at_def no_handlers_def)

lemma up_ok_less: "up_ok pre R W td \<Longrightarrow> R' \<subseteq> R \<Longrightarrow> W' \<subseteq> W \<Longrightarrow> up_ok pre R' W' td"
  using gates_less by (simp add: up_ok_def) blast

lemma conn_ok_less: "conn_ok pre R W td \<Longrightarrow> R' \<subseteq> R \<Longrightarrow> W' \<subseteq> W \<Longrightarrow> conn_ok pre R' W' td"
  by (auto simp: conn_ok_def up_ok_def dest: gates_less)

lemma monitor_ok:
  assumes "conn_ok pre R W td" and "m \<noteq> Wild"
  shows "conn_ok pre R W (upd_conn (\<lambda>c. c\<lparr>tcp_monitor := m, dev_monitor := m'\<rparr>) td)"
proof (cases "up_ok pre R W td")
  case True
  with assms(2) have "up_ok pre R W (upd_conn (\<lambda>c. c\<lparr>tcp_monitor := m, dev_monitor := m'\<rparr>) td)" by (simp add: up_simps)
  then show ?thesis by (simp add: conn_ok_def)
next
  case False
  with assms(1) have "down_ok pre td" by (simp add: conn_ok_def)
  then have "down_ok pre (upd_conn (\<lambda>c. c\<lparr>tcp_monitor := m, dev_monitor := m'\<rparr>) td)"
    by (simp add: down_ok_def connected_def delivered_def no_handlers_def)
  then show ?thesis by (simp add: conn_ok_def)
qed

lemma port_step_ok:
  assumes "port_step e (R, W, td) (R', W', td')" and "conn_ok pre R W td"
  shows "conn_ok pre R' W' td'"
  using assms
proof cases
  case Select
  with assms(2) show ?thesis by (auto simp: conn_ok_def up_ok_def dest: gates_less)
next
  case (Dev_read r ws)
  with registered_up [OF assms(2)] have "up_ok pre R W td" by blast
  from run_okD [OF handle_dev_fd_read_ok [OF this]] Dev_read show ?thesis by blast
next
  case (Tcp_read r ws)
  with registered_up [OF assms(2)] have "up_ok pre R W td" by blast
  from run_okD [OF handle_tcp_fd_read_ok [OF this]] Tcp_read show ?thesis by blast
next
  case (Dev_write w)
  with registered_up [OF assms(2)] have up: "up_ok pre R W td" by blast
  then have "nat (tcpfd (cb_data td)) \<notin> R" using Dev_write(3) by (auto simp: up_ok_def gates_def gate_def)
  from run_okD [OF handle_dev_fd_write_ok [OF up this]] Dev_write show ?thesis by (blast intro: conn_ok_less)
next
  case (Tcp_write w1 w2)
  with registered_up [OF assms(2)] have up: "up_ok pre R W td" by blast
  then have R: "nat (devfd (cb_data td)) \<notin> R" and un: "unsent (cb_data td)"
    using Tcp_write(3) by (auto simp: up_ok_def gates_def gate_def)
  have "up_ok pre R (W - {nat (tcpfd (cb_data td))}) td" by (rule up_ok_less [OF up]) simp_all
  from run_okD [OF handle_tcp_fd_write_ok [OF this R un]] Tcp_write show ?thesis by blast
next
  case Dev_except
  with registered_up [OF assms(2)] have "up_ok pre R W td" by blast
  from run_okD [OF up_ok_shutdown [OF this]] Dev_except show ?thesis by (auto simp: handle_dev_fd_except_def)
next
  case Tcp_except
  with registered_up [OF assms(2)] have "up_ok pre R W td" by blast
  from run_okD [OF up_ok_shutdown [OF this]] Tcp_except show ?thesis by (auto simp: handle_tcp_fd_except_def)
next
  case (Monitor m m')
  with monitor_ok [OF assms(2)] show ?thesis by simp
next
  case (Tick c t)
  then have "up_ok pre R W td" using assms(2) by (auto simp: conn_ok_def down_ok_def)
  from timer_taken [OF this] have "up_ok pre R W (td\<lparr>cb_data := c\<rparr>)" using Tick by blast
  from run_okD [OF got_timeout_ok [OF this]] Tick show ?thesis by blast
qed

lemma port_steps_ok:
  assumes "(port_step e)\<^sup>*\<^sup>* (R, W, td) (R', W', td')" and "conn_ok pre R W td"
  shows "conn_ok pre R' W' td'"
  using assms(1)
proof (induction "(R', W', td')" arbitrary: R' W' td' rule: rtranclp_induct)
  case base
  with assms(2) show ?case by simp
next
  case (step y)
  then show ?case using port_step_ok by (metis prod_cases3)
qed

end
