(* ===== verification/Port_Session.thy ===== *)
theory Port_Session
  imports Port_Run
begin

text \<open>
  A session from the accepted connection to its end: the properties of the transfer.
\<close>

section \<open>Banners\<close>

definition bannered :: "conn \<Rightarrow> conn \<Rightarrow> bool" where
  "bannered c0 c \<longleftrightarrow> (\<exists>buf n. c = c0\<lparr>dev_to_tcp_buf := buf, dev_to_tcp_buf_count := n\<rparr> \<and>
     length buf = length (dev_to_tcp_buf c0) \<and> 0 \<le> n \<and> int (dev_to_tcp_buf_start c0) + n \<le> int PORT_BUFSIZE)"

lemma bannered_char:
  assumes "bannered c0 c" shows "bannered c0 (add_port_tcp_char ch c)"
proof -
  from assms obtain buf n where c: "c = c0\<lparr>dev_to_tcp_buf := buf, dev_to_tcp_buf_count := n\<rparr>"
    "length buf = length (dev_to_tcp_buf c0)" "0 \<le> n" "int (dev_to_tcp_buf_start c0) + n \<le> int PORT_BUFSIZE"
    by (auto simp: bannered_def)
  show ?thesis
  proof (cases "int PORT_BUFSIZE \<le> int (dev_to_tcp_buf_start c0) + n")
    case True
    with assms c show ?thesis by (simp add: add_port_tcp_char_def)
  next
    case False
    with c show ?thesis unfolding bannered_def
      by (intro exI [of _ "buf[nat (int (dev_to_tcp_buf_start c0) + n) := ch]"] exI [of _ "n + 1"]) (simp add: add_port_tcp_char_def Let_def)
  qed
qed

lemma bannered_string: "bannered c0 c \<Longrightarrow> bannered c0 (add_port_tcp_string s c)"
  unfolding add_port_tcp_string_def by (induction s arbitrary: c) (simp_all add: bannered_char)

declare banner_loop.simps(2) [simp del]

lemma bannered_loop: "bannered c0 c \<Longrightarrow> bannered c0 (banner_loop B s c)"
proof (induction s arbitrary: c rule: length_induct)
  case (1 s)
  have rec: "bannered c0 (banner_loop B r c')" if "length r < length s" "bannered c0 c'" for r c'
    using 1(1) that by blast
  note keep = rec bannered_char [OF 1(2)] bannered_string [OF 1(2)]
  show ?case
  proof (cases s)
    case (Cons ch s0)
    note s = this
    show ?thesis
    proof (cases "ch = CHR 0x5C \<and> s0 \<noteq> []")
      case False
      have "length s0 < length s" using s by simp
      note k = keep(1) [OF this keep(2)]
      from False show ?thesis by (cases "ch = CHR 0x5C") (simp_all add: s k 1(2) banner_loop.simps(2) [of B ch s0] banner_loop.simps(2) [of B "CHR 0x5C" "[]"])
    next
      case True
      then obtain x s1 where x: "s = CHR 0x5C # x # s1" using s by (cases s0) auto
      have "length s1 < length s" by (simp add: x)
      note k = keep(1) [OF this keep(2)] keep(1) [OF this keep(3)]
      note step = x banner_loop.simps(2) [of B "CHR 0x5C" "x # s1"]
      show ?thesis
      proof (cases "simple_escape x")
        case (Some b)
        then show ?thesis by (simp add: step k)
      next
        case None
        consider "x \<in> {CHR ''d'', CHR ''p'', CHR ''s''}" | (octal) "x \<notin> {CHR ''d'', CHR ''p'', CHR ''s''}" "is_octal x"
          | (hex) "x \<notin> {CHR ''d'', CHR ''p'', CHR ''s''}" "\<not> is_octal x" "x = CHR ''x''"
          | "x \<notin> {CHR ''d'', CHR ''p'', CHR ''s''}" "\<not> is_octal x" "x \<noteq> CHR ''x''" by blast
        then show ?thesis
        proof cases
          case octal
          then have "banner_loop B s c =
            (case s1 of [] \<Rightarrow> add_port_tcp_char (word_of_int (int (digit_val x))) c
             | d # s2 \<Rightarrow> if \<not> is_digit d then banner_loop B (d # s2) c
                 else (case s2 of [] \<Rightarrow> add_port_tcp_char (word_of_int (int (digit_val x) * 8 + int (digit_val d))) c
                       | d' # s3 \<Rightarrow> if \<not> is_digit d' then banner_loop B (d' # s3) c else banner_loop B s3 c))"
            using None by (simp add: step Let_def)
          with rec [OF _ 1(2)] bannered_char [OF 1(2)] show ?thesis by (simp add: x split: list.split)
        next
          case hex
          then have "banner_loop B s c =
            (case s1 of [] \<Rightarrow> c
             | d # s2 \<Rightarrow> if \<not> is_xdigit d then banner_loop B (d # s2) c
                 else (case s2 of [] \<Rightarrow> add_port_tcp_char (word_of_int (from_hex_digit d)) c
                       | d' # s3 \<Rightarrow> if \<not> is_digit d' then banner_loop B (d' # s3) c else banner_loop B s3 c))"
            using None by (simp add: step banner_loop.simps(2) [of B "CHR 0x5C" "CHR ''x'' # s1"])
          with rec [OF _ 1(2)] bannered_char [OF 1(2)] 1(2) show ?thesis by (simp add: x split: list.split)
        qed (use None k in \<open>auto simp: step\<close>)
      qed
    qed
  qed (use 1 in simp)
qed

lemma bannered_display:
  assumes "0 \<le> dev_to_tcp_buf_count c" and "int (dev_to_tcp_buf_start c) + dev_to_tcp_buf_count c \<le> int PORT_BUFSIZE"
  shows "bannered c (display_banner B c)"
proof -
  have "bannered c c" unfolding bannered_def
    by (intro exI [of _ "dev_to_tcp_buf c"] exI [of _ "dev_to_tcp_buf_count c"]) (use assms in simp)
  then show ?thesis by (simp add: display_banner_def bannered_loop split: option.split)
qed

section \<open>Setting up\<close>

text \<open>A port that waits for a client, just after \<^verbatim>\<open>accept\<close> has returned: \<open>n\<close> holds what the
  system calls will answer.  The histories start with the connection; the table of options ends
  with its terminator.  Nothing is said of what \<^verbatim>\<open>init_port_data\<close> does not assign: the monitor of
  the device, and the telnet data of a port that does no telnet.\<close>

definition waiting_port :: "connect_env \<Rightarrow> telnet_cmd list \<Rightarrow> port \<Rightarrow> bool" where
  "waiting_port n cmds0 td \<longleftrightarrow>
     fds_fine ((cb_data td)\<lparr>devfd := dev_opened n\<rparr>) \<and> timer_fine (cb_data td) \<and>
     nat (tcpfd (cb_data td)) \<notin> write_set (sel (cb_data td)) \<and> nat (dev_opened n) \<notin> write_set (sel (cb_data td)) \<and>
     length (dev_to_tcp_buf (cb_data td)) = PORT_BUFSIZE \<and> length (tcp_to_dev_buf (cb_data td)) = PORT_BUFSIZE \<and>
     dev_to_tcp_buf_start (cb_data td) = 0 \<and> dev_to_tcp_buf_count (cb_data td) = 0 \<and>
     tcp_to_dev_buf_start (cb_data td) = 0 \<and> tcp_to_dev_buf_count (cb_data td) = 0 \<and>
     dev_in (outs (cb_data td)) = [] \<and> tcp_in (outs (cb_data td)) = [] \<and>
     dev_out (outs (cb_data td)) = [] \<and> wire (outs (cb_data td)) = [] \<and>
     (enabled (cb_data td) = PORT_TELNET \<longrightarrow>
        length (telnet_cmd td) = MAX_TELNET_CMD_SIZE + 1 \<and> length (out_telnet_cmd td) = MAX_TELNET_CMD_XMIT_BUF \<and>
        255 \<in> opt ` set cmds0)"

definition calm :: "(registered, nat) selector \<Rightarrow> (registered, nat) selector \<Rightarrow> bool" where
  "calm s s' \<longleftrightarrow> length (fds s') = length (fds s) \<and> write_set s' = write_set s \<and> timers s' = timers s \<and>
     timer_top s' = timer_top s \<and> timer_last s' = timer_last s"

lemma calm_calls:
  assumes "fd_ok fd"
  shows "\<exists>s'. sel_set_fd_handlers s fd d r w x = Inr s' \<and> calm s s'"
    and "\<exists>s'. sel_set_fd_read_handler s fd b = Inr s' \<and> calm s s'"
    and "\<exists>s'. sel_set_fd_except_handler s fd b = Inr s' \<and> calm s s'"
  using assms
  by (simp_all add: calm_def sel_set_fd_handlers_def sel_set_fd_read_handler_def sel_set_fd_except_handler_def Let_def)

lemma calm_trans: "calm a b \<Longrightarrow> calm b c \<Longrightarrow> calm a c"
  by (simp add: calm_def)

text \<open>Input from the client is waited for and served.\<close>

definition listening :: "(registered, nat) selector \<Rightarrow> int \<Rightarrow> bool" where
  "listening s fd \<longleftrightarrow> nat fd \<in> read_set s \<and> handle_read (fds s ! nat fd) = Some Handle_tcp_fd_read"

lemma setup_handlers_result:
  assumes "fd_ok (devfd c)" and "fd_ok (tcpfd c)" and len: "length (fds (sel c)) = FD_SETSIZE"
  shows "\<exists>s. setup_handlers c = Inr (c\<lparr>dev_to_tcp_state := PORT_WAITING_INPUT, sel := s, tcp_to_dev_state := PORT_WAITING_INPUT\<rparr>) \<and>
    calm (sel c) s \<and> listening s (tcpfd c)"
proof -
  define lp where "lp = (enabled c = PORT_RAWLP)"
  obtain s1 where s1: "sel_set_fd_handlers (sel c) (devfd c) (Some (self c)) (if lp then None else Some Handle_dev_fd_read)
      (Some Handle_dev_fd_write) (Some Handle_dev_fd_except) = Inr s1" "calm (sel c) s1"
    using calm_calls(1) [OF assms(1)] by blast
  obtain s2 where s2: "sel_set_fd_read_handler s1 (devfd c) (Some (\<not> lp)) = Inr s2" "calm s1 s2"
    using calm_calls(2) [OF assms(1)] by blast
  obtain s3 where s3: "sel_set_fd_except_handler s2 (devfd c) (Some True) = Inr s3" "calm s2 s3"
    using calm_calls(3) [OF assms(1)] by blast
  obtain s4 where s4: "sel_set_fd_handlers s3 (tcpfd c) (Some (self c)) (Some Handle_tcp_fd_read)
      (Some Handle_tcp_fd_write) (Some Handle_tcp_fd_except) = Inr s4" "calm s3 s4"
    using calm_calls(1) [OF assms(2)] by blast
  obtain s5 where s5: "sel_set_fd_read_handler s4 (tcpfd c) (Some True) = Inr s5" "calm s4 s5"
    using calm_calls(2) [OF assms(2)] by blast
  obtain s6 where s6: "sel_set_fd_except_handler s5 (tcpfd c) (Some True) = Inr s6" "calm s5 s6"
    using calm_calls(3) [OF assms(2)] by blast
  have "calm (sel c) s6" using s1(2) s2(2) s3(2) s4(2) s5(2) s6(2) by (simp add: calm_def)
  moreover have "listening s6 (tcpfd c)"
  proof -
    have "length (fds s3) = FD_SETSIZE" using len s1(2) s2(2) s3(2) by (simp add: calm_def)
    then have "handle_read (fds s4 ! nat (tcpfd c)) = Some Handle_tcp_fd_read"
      using s4(1) assms(2) by (auto simp: sel_set_fd_handlers_def fd_ok_def Let_def split: if_splits)
    moreover have "fds s6 = fds s4" "nat (tcpfd c) \<in> read_set s6"
      using s5(1) s6(1) assms(2)
      by (auto simp: sel_set_fd_read_handler_def sel_set_fd_except_handler_def change_set_def)
    ultimately show ?thesis by (simp add: listening_def)
  qed
  moreover have "setup_handlers c = Inr (c\<lparr>dev_to_tcp_state := PORT_WAITING_INPUT, sel := s6, tcp_to_dev_state := PORT_WAITING_INPUT\<rparr>)"
    using s1(1) s2(1) s3(1) s4(1) s5(1) s6(1) by (simp add: setup_handlers_def with_sel_def Let_def lp_def)
  ultimately show ?thesis by blast
qed

lemma calm_timer: "calm (sel c) s \<Longrightarrow> timer_fine (c\<lparr>sel := s\<rparr>) = timer_fine c"
  using running_cong [of s "sel c"] by (simp add: timer_fine_def calm_def)

text \<open>Before the banner, the timer and the last reset are added.\<close>

definition fresh :: "port \<Rightarrow> bool" where
  "fresh td \<longleftrightarrow> up_ok [] {} {} td \<and> dev_to_tcp_buf_start (cb_data td) = 0 \<and> dev_to_tcp_buf_count (cb_data td) = 0 \<and>
     wire (outs (cb_data td)) = [] \<and> dev_in (outs (cb_data td)) = [] \<and> listening (sel (cb_data td)) (tcpfd (cb_data td)) \<and>
     (if enabled (cb_data td) = PORT_TELNET then nat (devfd (cb_data td)) \<notin> read_set (sel (cb_data td))
      else dev_to_tcp_state (cb_data td) = PORT_WAITING_INPUT)"

text \<open>What a client is sent first.  Without telnet a banner is never sent: \<^verbatim>\<open>setup_tcp_port\<close> switches
  the reading from the device on and does not ask to be told that the client has room.\<close>

definition greeting :: "conn \<Rightarrow> byte list" where
  "greeting c = (if enabled c = PORT_TELNET then take (nat (dev_to_tcp_buf_count c)) (dev_to_tcp_buf c) else [])"

lemma greeting_upd [simp]: "greeting (c\<lparr>sel := s\<rparr>) = greeting c" "greeting (c\<lparr>timeout_left := t\<rparr>) = greeting c"
  by (simp_all add: greeting_def)

lemma fresh_banner:
  assumes "fresh td" and "c = display_banner B (cb_data td)"
  shows "up_ok (greeting c) {} {} (td\<lparr>cb_data := reset_timer c\<rparr>)"
proof -
  have up: "up_ok [] {} {} td" and z: "dev_to_tcp_buf_start (cb_data td) = 0" "dev_to_tcp_buf_count (cb_data td) = 0"
    "wire (outs (cb_data td)) = []" "dev_in (outs (cb_data td)) = []"
    using assms(1) by (simp_all add: fresh_def)
  obtain buf n where c: "c = (cb_data td)\<lparr>dev_to_tcp_buf := buf, dev_to_tcp_buf_count := n\<rparr>"
     "length buf = length (dev_to_tcp_buf (cb_data td))" "0 \<le> n" "n \<le> int PORT_BUFSIZE"
    using bannered_display [of "cb_data td" B] assms(2) z by (auto simp: bannered_def)
  show ?thesis
  proof (cases "enabled (cb_data td) = PORT_TELNET")
    case True
    have "nat (devfd (cb_data td)) \<notin> read_set (sel (cb_data td))" "unsent (cb_data td)"
      using assms(1) True by (simp_all add: fresh_def unsent_def)
    moreover have "flow buf 0 n (take (nat n) buf) []"
      using up c z by (simp add: up_ok_def flow_to_tcp_def flow_def)
    ultimately show ?thesis
      using up z True unfolding c(1) by (simp add: up_simps encoded_def greeting_def)
  next
    case False
    then have "\<not> unsent (cb_data td)" using assms(1) by (simp add: fresh_def unsent_def)
    moreover from this have "left_to_send (cb_data td) = 0" by (simp add: left_to_send_def)
    moreover have "flow buf 0 0 [] []" using up c z by (simp add: up_ok_def flow_to_tcp_def flow_def)
    ultimately show ?thesis
      using up z False unfolding c(1) by (simp add: up_simps encoded_def greeting_def)
  qed
qed

lemma telnet_started:
  assumes len: "length (telnet_cmd td) = MAX_TELNET_CMD_SIZE + 1" "length (out_telnet_cmd td) = MAX_TELNET_CMD_XMIT_BUF"
    and cs: "255 \<in> opt ` set cmds0" and fd: "fd_ok (devfd c)" "fd_ok (tcpfd c)" and tn: "enabled c = PORT_TELNET"
    and src: "tcp_in (outs c) = []"
  shows "\<exists>td1. telnet_init (port_callbacks e) td c cmds0 telnet_init_seq = Inr td1 \<and>
    cb_data td1 = c\<lparr>sel := waiting c\<rparr> \<and> telnet_fine td1"
proof -
  define td0 where "td0 = td\<lparr>telnet_cmd_pos := 0, error := False, cb_data := c, cmds := cmds0,
     out_telnet_cmd := telnet_init_seq @ drop (length telnet_init_seq) (out_telnet_cmd td), out_telnet_cmd_size := length telnet_init_seq\<rparr>"
  have "telnet_output_ready td0 = Inr (td0\<lparr>cb_data := c\<lparr>sel := waiting c\<rparr>\<rparr>)"
    using block_result [of devfd c tcpfd] fd by (simp add: telnet_output_ready_def on_conn_def td0_def waiting_def)
  moreover have "telnet_init (port_callbacks e) td c cmds0 telnet_init_seq = telnet_output_ready td0"
    using len(2) by (simp add: telnet_init_def write_at_def port_callbacks_def td0_def telnet_init_seq_def MAX_TELNET_CMD_XMIT_BUF_def)
  moreover have "telnet_fine (td0\<lparr>cb_data := c\<lparr>sel := waiting c\<rparr>\<rparr>)"
    using len cs tn src
    by (simp add: telnet_fine_def td_ok_def out_ok_def rx_ok_def rx_of_def shape_def td0_def telnet_init_seq_def
      MAX_TELNET_CMD_XMIT_BUF_def image_image)
  ultimately show ?thesis by auto
qed

text \<open>The part of \<^const>\<open>setup_tcp_port\<close> behind the system calls, up to the banner.\<close>

definition handlers_and_telnet :: "os_env \<Rightarrow> connect_env \<Rightarrow> telnet_cmd list \<Rightarrow> port \<Rightarrow> port res" where
  "handlers_and_telnet e n cmds0 td =
     bind_res (setup_handlers ((cb_data td)\<lparr>devfd := dev_opened n, is_2217 := False, break_set := False\<rparr>)) (\<lambda>c.
     if enabled c = PORT_TELNET then telnet_init (port_callbacks e) td c cmds0 telnet_init_seq
     else bind_res (with_sel (\<lambda>s. sel_set_fd_read_handler s (devfd c) (Some True)) c) (\<lambda>c. Inr (td\<lparr>cb_data := c\<rparr>)))"

lemma handlers_fresh:
  assumes w: "waiting_port n cmds0 td"
  shows "\<exists>t. handlers_and_telnet e n cmds0 td = Inr t \<and> fresh t"
proof -
  define c where "c = (cb_data td)\<lparr>devfd := dev_opened n, is_2217 := False, break_set := False\<rparr>"
  have fd: "fd_ok (devfd c)" "fd_ok (tcpfd c)" "length (fds (sel c)) = FD_SETSIZE"
    using w by (simp_all add: waiting_port_def fds_fine_def c_def)
  obtain s where s: "setup_handlers c = Inr (c\<lparr>dev_to_tcp_state := PORT_WAITING_INPUT, sel := s, tcp_to_dev_state := PORT_WAITING_INPUT\<rparr>)"
    "calm (sel c) s" "listening s (tcpfd c)" using setup_handlers_result [OF fd] by blast
  define c1 where "c1 = c\<lparr>dev_to_tcp_state := PORT_WAITING_INPUT, sel := s, tcp_to_dev_state := PORT_WAITING_INPUT\<rparr>"
  have run: "handlers_and_telnet e n cmds0 td =
    (if enabled c1 = PORT_TELNET then telnet_init (port_callbacks e) td c1 cmds0 telnet_init_seq
     else bind_res (with_sel (\<lambda>s. sel_set_fd_read_handler s (devfd c1) (Some True)) c1) (\<lambda>c. Inr (td\<lparr>cb_data := c\<rparr>)))"
    using s(1) by (simp add: handlers_and_telnet_def c_def [symmetric] c1_def)
  have c1: "fds_fine c1" "timer_fine c1" "connected c1" "is_2217 c1 = False" "enabled c1 = enabled (cb_data td)"
    using w s(2) calm_timer [OF s(2)]
    by (simp_all add: waiting_port_def fds_fine_def c1_def c_def calm_def connected_def timer_fine_def)
  have ws: "nat (tcpfd c1) \<notin> write_set (sel c1)" "nat (devfd c1) \<notin> write_set (sel c1)"
    using w s(2) by (simp_all add: waiting_port_def c1_def c_def calm_def)
  have ne: "nat (devfd c1) \<noteq> nat (tcpfd c1)" using nat_fds [OF c1(1)] by simp
  have li: "listening (sel c1) (tcpfd c1)" using s(3) by (simp add: c1_def)
  have empty: "dev_to_tcp_buf_start c1 = 0" "dev_to_tcp_buf_count c1 = 0" "tcp_to_dev_buf_start c1 = 0" "tcp_to_dev_buf_count c1 = 0"
    "length (dev_to_tcp_buf c1) = PORT_BUFSIZE" "length (tcp_to_dev_buf c1) = PORT_BUFSIZE"
    "dev_in (outs c1) = []" "tcp_in (outs c1) = []" "dev_out (outs c1) = []" "wire (outs c1) = []"
    "dev_to_tcp_state c1 = PORT_WAITING_INPUT"
    using w by (simp_all add: waiting_port_def c1_def c_def)
  show ?thesis
  proof (cases "enabled c1 = PORT_TELNET")
    case True
    have fd1: "fd_ok (devfd c1)" "fd_ok (tcpfd c1)" using fd by (simp_all add: c1_def)
    have un: "unsent c1" "left_to_send c1 = 0" using True empty by (simp_all add: unsent_def left_to_send_def)
    have "length (telnet_cmd td) = MAX_TELNET_CMD_SIZE + 1" "length (out_telnet_cmd td) = MAX_TELNET_CMD_XMIT_BUF" "255 \<in> opt ` set cmds0"
      using w c1(5) True by (simp_all add: waiting_port_def)
    from telnet_started [OF this fd1 True empty(8), of e] obtain t where
      t: "telnet_init (port_callbacks e) td c1 cmds0 telnet_init_seq = Inr t" "cb_data t = c1\<lparr>sel := waiting c1\<rparr>" "telnet_fine t"
      by blast
    have "fresh t"
      using c1 ws ne empty True t(2,3) li un
      by (simp add: fresh_def up_simps waiting_def listening_def flow_def encoded_def decoded_def)
    with t(1) True show ?thesis by (simp add: run)
  next
    case False
    have t: "handlers_and_telnet e n cmds0 td = Inr (td\<lparr>cb_data := c1\<lparr>sel := (sel c1)\<lparr>read_set := insert (nat (devfd c1)) (read_set (sel c1))\<rparr>\<rparr>\<rparr>)"
      using False c1(1) by (simp add: run with_sel_def sel_set_fd_read_handler_def change_set_def fds_fine_def)
    moreover have "\<not> unsent c1" "left_to_send c1 = 0" using False empty by (simp_all add: unsent_def left_to_send_def)
    ultimately show ?thesis
      using c1 ws ne empty False li
      by (simp add: fresh_def up_simps listening_def flow_def encoded_def decoded_def telnet_fine_def)
  qed
qed

lemma setup_result:
  assumes w: "waiting_port n cmds0 td"
  shows "\<exists>td'. bind_run (Some (handlers_and_telnet e n cmds0 td)) (\<lambda>td1.
      bind_run (start_timer (now n) (display_banner (speed_code e) (cb_data td1))) (\<lambda>c. Some (Inr (True, td1\<lparr>cb_data := reset_timer c\<rparr>)))) =
      Some (Inr (True, td')) \<and>
    up_ok (greeting (cb_data td')) {} {} td' \<and> listening (sel (cb_data td')) (tcpfd (cb_data td'))"
proof -
  obtain t where t: "handlers_and_telnet e n cmds0 td = Inr t" "fresh t" using handlers_fresh [OF w] by blast
  define b where "b = display_banner (speed_code e) (cb_data t)"
  have up: "up_ok (greeting b) {} {} (t\<lparr>cb_data := reset_timer b\<rparr>)"
    by (rule fresh_banner [OF t(2) b_def])
  then have "timer_fine b" by (simp add: up_ok_def timer_fine_def reset_timer_def)
  from timer_started [OF this, of "now n"] obtain s' where
    s': "start_timer (now n) b = Some (Inr (b\<lparr>sel := s'\<rparr>))" "heap.more s' = heap.more (sel b)" "timer_fine (b\<lparr>sel := s'\<rparr>)" by blast
  have "reset_timer (b\<lparr>sel := s'\<rparr>) = (reset_timer b)\<lparr>sel := s'\<rparr>" by (cases b) (simp add: reset_timer_def)
  moreover have "listening s' (tcpfd b)"
  proof -
    have "0 \<le> dev_to_tcp_buf_count (cb_data t)" "int (dev_to_tcp_buf_start (cb_data t)) + dev_to_tcp_buf_count (cb_data t) \<le> int PORT_BUFSIZE"
      using t(2) by (simp_all add: fresh_def)
    from bannered_display [OF this, of "speed_code e"] have "sel b = sel (cb_data t)" "tcpfd b = tcpfd (cb_data t)"
      by (auto simp: b_def bannered_def)
    with t(2) selector_more [OF s'(2)] show ?thesis by (simp add: fresh_def listening_def)
  qed
  ultimately show ?thesis using up_ok_sel [OF up, of s'] s' t(1) by (simp add: b_def [symmetric]) (simp add: reset_timer_def timer_fine_def)
qed

definition connect_fine :: "connect_env \<Rightarrow> port \<Rightarrow> bool" where
  "connect_fine n td \<longleftrightarrow> nonblock_ok n \<and> nodelay_ok n \<and> usb_found n \<and> tcsetattr_ok n"

lemma setup_run:
  assumes w: "waiting_port n cmds0 td"
  shows "setup_tcp_port e n cmds0 td = Some (Inr (True, td')) \<Longrightarrow>
      up_ok (greeting (cb_data td')) {} {} td' \<and>
      listening (sel (cb_data td')) (tcpfd (cb_data td'))"
    and "connect_fine n td \<Longrightarrow> \<exists>td'. setup_tcp_port e n cmds0 td = Some (Inr (True, td'))"
proof -
  have body: "bind_run (Some (setup_handlers ((cb_data td)\<lparr>devfd := dev_opened n, is_2217 := False, break_set := False\<rparr>))) (\<lambda>c.
      bind_run (Some (if enabled c = PORT_TELNET then telnet_init (port_callbacks e) td c cmds0 telnet_init_seq
               else bind_res (with_sel (\<lambda>s. sel_set_fd_read_handler s (devfd c) (Some True)) c) (\<lambda>c. Inr (td\<lparr>cb_data := c\<rparr>)))) k) =
    bind_run (Some (handlers_and_telnet e n cmds0 td)) k" for k :: "port \<Rightarrow> 'x run"
    by (cases "setup_handlers ((cb_data td)\<lparr>devfd := dev_opened n, is_2217 := False, break_set := False\<rparr>)")
      (simp_all add: handlers_and_telnet_def)
  note r = setup_result [OF w, of e]
  have fd: "dev_opened n \<noteq> -1" using w by (simp add: waiting_port_def fds_fine_def fd_ok_def)
  show "up_ok (greeting (cb_data td')) {} {} td' \<and>
      listening (sel (cb_data td')) (tcpfd (cb_data td'))"
    if "setup_tcp_port e n cmds0 td = Some (Inr (True, td'))"
    using that r by (auto simp: setup_tcp_port_def Let_def body simp del: bind_run_simps split: if_splits)
  show "\<exists>td'. setup_tcp_port e n cmds0 td = Some (Inr (True, td'))" if "connect_fine n td"
    using that r fd by (auto simp: setup_tcp_port_def Let_def body connect_fine_def simp del: bind_run_simps)
qed


section \<open>The transfer\<close>

lemma session_ok:
  assumes "waiting_port n cmds0 td" and "setup_tcp_port e n cmds0 td = Some (Inr (True, td0))"
    and "(port_step e)\<^sup>*\<^sup>* ({}, {}, td0) (R, W, td')"
  shows "conn_ok (greeting (cb_data td0)) R W td'"
  using port_steps_ok [OF assms(3)] setup_run(1) [OF assms(1,2)] by (simp add: conn_ok_def)


text \<open>C38: In every state that a connection can reach, whatever the fields that \<^verbatim>\<open>init_port_data\<close>
  forgets hold, the handlers leave defined behaviour only in five described cases: the device
  monitor is a wild pointer and the device is read; a failed read of a monitored device; a full
  read of 255s, which overruns the buffer; a telnet command for an option without handler; and the
  client has room while the counter of commands of a port that does no telnet, never set, exceeds
  the array.  They do not return only if \<^verbatim>\<open>write\<close> is interrupted for ever.\<close>

theorem handlers_safe:
  assumes "waiting_port n cmds0 td" and "setup_tcp_port e n cmds0 td = Some (Inr (True, td0))"
    and "(port_step e)\<^sup>*\<^sup>* ({}, {}, td0) (R, W, td')"
  shows "(nat (devfd (cb_data td')) \<in> R \<and> registered_at handle_read (devfd (cb_data td')) Handle_dev_fd_read td' \<longrightarrow>
      run_ok (write_retry ws = None) (dev_read_faults r (cb_data td')) (\<lambda>_. True) (handle_dev_fd_read r ws td')) \<and>
    (nat (tcpfd (cb_data td')) \<in> R \<and> registered_at handle_read (tcpfd (cb_data td')) Handle_tcp_fd_read td' \<longrightarrow>
      run_ok (write_retry ws = None) (tcp_read_faults (cb_data td')) (\<lambda>_. True) (handle_tcp_fd_read e r ws td')) \<and>
    (nat (devfd (cb_data td')) \<in> W \<and> registered_at handle_write (devfd (cb_data td')) Handle_dev_fd_write td' \<longrightarrow>
      run_ok False {} (\<lambda>_. True) (handle_dev_fd_write w td')) \<and>
    (nat (tcpfd (cb_data td')) \<in> W \<and> registered_at handle_write (tcpfd (cb_data td')) Handle_tcp_fd_write td' \<longrightarrow>
      run_ok False (tcp_write_faults td') (\<lambda>_. True) (handle_tcp_fd_write w w2 td')) \<and>
    (in_heap (timers (sel (cb_data td')) (timer (cb_data td'))) \<longrightarrow>
      (\<exists>c. stop_timer (cb_data td') = Some (Inr c) \<and> run_ok False {} (\<lambda>_. True) (got_timeout t (td'\<lparr>cb_data := c\<rparr>))))"
proof -
  define pre where "pre = greeting (cb_data td0)"
  have ok: "conn_ok pre R W td'" using session_ok [OF assms] by (simp add: pre_def)
  note reg = registered_up [OF ok]
  note any = run_ok_mono [where Q = "\<lambda>_. True", OF _ TrueI]
  have noR: "up_ok pre R W td' \<Longrightarrow> nat (tcpfd (cb_data td')) \<notin> R" if "nat (devfd (cb_data td')) \<in> W"
    using that by (auto simp: up_ok_def gates_def gate_def)
  have tcp_write: "run_ok False (tcp_write_faults td') (\<lambda>_. True) (handle_tcp_fd_write w w2 td')"
    if "nat (tcpfd (cb_data td')) \<in> W" and up: "up_ok pre R W td'"
  proof -
    have "nat (devfd (cb_data td')) \<notin> R" "unsent (cb_data td')" using that by (auto simp: up_ok_def gates_def gate_def)
    moreover have "up_ok pre R (W - {nat (tcpfd (cb_data td'))}) td'" by (rule up_ok_less [OF up]) simp_all
    ultimately show ?thesis using any [OF handle_tcp_fd_write_ok] by blast
  qed
  have tick: "\<exists>c. stop_timer (cb_data td') = Some (Inr c) \<and> run_ok False {} (\<lambda>_. True) (got_timeout t (td'\<lparr>cb_data := c\<rparr>))"
    if "in_heap (timers (sel (cb_data td')) (timer (cb_data td')))"
  proof -
    have up: "up_ok pre R W td'" using ok that by (simp add: conn_ok_def down_ok_def)
    then obtain s where s: "stop_timer (cb_data td') = Some (Inr ((cb_data td')\<lparr>sel := s\<rparr>))"
      using timer_stopped [of "cb_data td'"] by (auto simp: up_ok_def)
    from any [OF got_timeout_ok [OF timer_taken [OF up s]]] s show ?thesis by blast
  qed
  show ?thesis
    using reg noR tcp_write tick
    by (intro conjI impI any [OF handle_dev_fd_read_ok] any [OF handle_tcp_fd_read_ok] any [OF handle_dev_fd_write_ok]) blast+
qed

section \<open>Commands among the data\<close>

text \<open>Commands are sent ahead of whatever is left in the buffer, also when that starts with the second
  byte of a doubled 255: the client takes the first byte and the first byte of the command for an
  escaped 255, and the rest of the command for data.\<close>

lemma command_splits_escape:
  assumes "0 < out_telnet_cmd_size td" and "out_telnet_cmd_size td \<le> length (out_telnet_cmd td)"
    and "c = cb_data td" and "from_buf (dev_to_tcp_buf c) (dev_to_tcp_buf_start c) (dev_to_tcp_buf_count c) = Inr (255 # bs)"
    and "wire (outs c) = w @ [Tcp_data 255]" and "out_telnet_cmd_size td \<le> n1"
    and "handle_tcp_fd_write (Written n1) (Written n2) td = Some (Inr td')"
  shows "wire (outs (cb_data td')) = w @ Tcp_data 255 # map Tcp_command (take (out_telnet_cmd_size td) (out_telnet_cmd td)) @
    map Tcp_data (take n2 (255 # bs))"
proof -
  have "from_buf (out_telnet_cmd td) 0 (int (out_telnet_cmd_size td)) = Inr (take (out_telnet_cmd_size td) (out_telnet_cmd td))"
    using assms(2) by (simp add: from_buf_def)
  with assms show ?thesis
    by (auto simp: handle_tcp_fd_write_def write_data_def unblock_def with_sel_def accept_tcp_def reset_timer_def Let_def
        min_def bind_res_eq_Inr simp del: take_take split: sum.splits if_splits)
qed

section \<open>An example\<close>

definition demo_timers :: "(registered, nat) selector" where
  "demo_timers = \<lparr>timers = (\<lambda>t. \<lparr>handler = Got_timeout, user_data = 0, timeout = Timeval 0 0, in_heap = False, left = None,
       right = None, up = None\<rparr>), timer_top = None, timer_last = None,
     fds = replicate FD_SETSIZE init_fd, read_set = {}, write_set = {}, except_set = {}, maxfd = -1, user_sighup_handler = None,
     got_sighup = False\<rparr>"

definition demo_termios :: termios where
  "demo_termios = \<lparr>c_ospeed = 9600, c_ispeed = 9600, c_size = CS8, cstopb = False, parenb = False, parodd = False, clocal = False,
     hupcl = False, cread = True, crtscts = False, ixon = False, ixoff = False, ixany = False, ignbrk = True, vstart = 17, vstop = 19\<rparr>"

definition demo_conn :: conn where
  "demo_conn = \<lparr>self = 0, enabled = PORT_TELNET, port_timeout = 0, timeout_left = 0, timer = 3, portname = ''2000'', tcpport = (0, 2000),
     acceptfd = 4, tcpfd = 5, tcp_bytes_received = 0, tcp_bytes_sent = 0, devname = ''/dev/ttyS0'', devfd = 0,
     dev_bytes_received = 0, dev_bytes_sent = 0, tcp_to_dev_state = PORT_UNCONNECTED, tcp_to_dev_buf = replicate PORT_BUFSIZE 0,
     tcp_to_dev_buf_start = 0, tcp_to_dev_buf_count = 0, tcp_monitor = No_monitor, dev_to_tcp_state = PORT_UNCONNECTED,
     dev_to_tcp_buf = replicate PORT_BUFSIZE 0, dev_to_tcp_buf_start = 0, dev_to_tcp_buf_count = 0, dev_monitor = No_monitor,
     config_num = 1, new_config = None, is_2217 = False, break_set = False, linestate_mask = 0, modemstate_mask = 0,
     last_modemstate = 0, dinfo = \<lparr>termctl = demo_termios, allow_2217 = True, disablebreak = False, banner = Some ''hello'',
       trace_read = no_trace, trace_write = no_trace, trace_both = no_trace\<rparr>, sel = demo_timers,
     outs = \<lparr>tty = Some demo_termios, modem = None, breaks_sent = 0, flushed = [], flow_off = False, dev_in = [], tcp_in = [],
       dev_out = [], wire = [], mon_out = []\<rparr>, after_shutdown = Nothing\<rparr>"

definition demo_port :: port where
  "demo_port = \<lparr>telnet_cmd = replicate 32 0, telnet_cmd_pos = 0, suboption_iac = False, out_telnet_cmd = replicate 256 0,
     out_telnet_cmd_size = 0, error = False, cb_data = demo_conn, cmds = []\<rparr>"

definition demo_env :: os_env where
  "demo_env = \<lparr>speed_code = (\<lambda>r. r), cisco_ios_baud_rates = False, tcset = (\<lambda>old t. t), brk_ok = True\<rparr>"

definition demo_connect :: connect_env where
  "demo_connect = \<lparr>nonblock_ok = True, nodelay_ok = True, usb_found = True, dev_opened = 6, tcsetattr_ok = True, now = Timeval 10 0\<rparr>"

lemma demo_timers_running: "running demo_timers {3} {}"
  by (simp add: running_def queue_def shaped_def heap_ord_def demo_timers_def nth_ptr_def)

lemma demo_waiting: "waiting_port demo_connect telnet_cmds demo_port"
proof -
  have "timer_fine demo_conn" unfolding timer_fine_def
    by (intro exI [of _ "{3}"] exI [of _ "{}"]) (use demo_timers_running in \<open>simp add: demo_conn_def\<close>)
  moreover have "fds_fine (demo_conn\<lparr>devfd := 6\<rparr>)" by (simp add: fds_fine_def fd_ok_def FD_SETSIZE_def demo_conn_def demo_timers_def)
  ultimately show ?thesis
    by (simp add: waiting_port_def demo_port_def demo_connect_def MAX_TELNET_CMD_SIZE_def MAX_TELNET_CMD_XMIT_BUF_def telnet_cmds_def
        table_entry_def) (simp add: demo_conn_def demo_timers_def)
qed

lemma demo_session: "\<exists>td0. setup_tcp_port demo_env demo_connect telnet_cmds demo_port = Some (Inr (True, td0))"
  by (rule setup_run(2) [OF demo_waiting]) (simp add: connect_fine_def demo_connect_def)

lemma demo_select: "(port_step e)\<^sup>*\<^sup>* ({}, {}, td) (read_set (sel (cb_data td)), write_set (sel (cb_data td)), td)"
  by (rule r_into_rtranclp) (rule Select; simp)


theorem handlers_safe_witness:
  "\<exists>td0. setup_tcp_port demo_env demo_connect telnet_cmds demo_port = Some (Inr (True, td0)) \<and>
    run_ok (write_retry [Written 1] = None) (tcp_read_faults (cb_data td0)) (\<lambda>_. True)
      (handle_tcp_fd_read demo_env (Read_bytes [72, 105]) [Written 1] td0)"
proof -
  obtain td0 where td0: "setup_tcp_port demo_env demo_connect telnet_cmds demo_port = Some (Inr (True, td0))"
    using demo_session by blast
  with setup_run(1) [OF demo_waiting] have "listening (sel (cb_data td0)) (tcpfd (cb_data td0))" by blast
  then have "nat (tcpfd (cb_data td0)) \<in> read_set (sel (cb_data td0))"
    "registered_at handle_read (tcpfd (cb_data td0)) Handle_tcp_fd_read td0"
    by (simp_all add: listening_def registered_at_def)
  with td0 handlers_safe [OF demo_waiting td0 demo_select, where r = "Read_bytes [72, 105]" and ws = "[Written 1]"]
  show ?thesis by blast
qed

end
