(* ===== verification/Port_Commands.thy ===== *)
theory Port_Commands
  imports Port_Session
begin

text \<open>What a client can do with telnet commands.\<close>

lemma telnet_cmds_eval: "telnet_cmds =
   [\<lparr>opt = 3, i_will = False, i_do = True, sent_will = True, sent_do = False, rem_will = False, rem_do = False, option_handler = False, will_handler = False\<rparr>,
    \<lparr>opt = 1, i_will = False, i_do = True, sent_will = True, sent_do = True, rem_will = False, rem_do = False, option_handler = False, will_handler = False\<rparr>,
    \<lparr>opt = 0, i_will = True, i_do = True, sent_will = False, sent_do = True, rem_will = False, rem_do = False, option_handler = False, will_handler = False\<rparr>,
    \<lparr>opt = 44, i_will = True, i_do = False, sent_will = False, sent_do = False, rem_will = False, rem_do = False, option_handler = True, will_handler = True\<rparr>,
    \<lparr>opt = 255, i_will = False, i_do = False, sent_will = False, sent_do = False, rem_will = False, rem_do = False, option_handler = False, will_handler = False\<rparr>]"
  by (simp add: telnet_cmds_def table_entry_def TN_OPT_SUPPRESS_GO_AHEAD_def TN_OPT_ECHO_def TN_OPT_BINARY_TRANSMISSION_def TN_OPT_COM_PORT_def)

text \<open>The layout of the table never changes, see \<^const>\<open>keeps\<close>.\<close>

lemma find_handlerless:
  assumes "shape cs = shape telnet_cmds" and "o' \<in> {0, 1, 3}"
  shows "\<exists>i. find_cmd cs o' = Inr (Some i) \<and> \<not> option_handler (cs ! i)"
proof -
  obtain a b c d z where cs: "cs = [a, b, c, d, z]" "opt a = 3" "opt b = 1" "opt c = 0" "opt d = 44"
    "\<not> option_handler a" "\<not> option_handler b" "\<not> option_handler c"
    using assms(1) by (auto simp: shape_def telnet_cmds_eval)
  with assms(2) show ?thesis by (auto simp: find_cmd_def)
qed

lemma suboption_null:
  assumes td: "td_ok I td" and pos: "telnet_cmd_pos td = 0" and cs: "shape (cmds td) = shape telnet_cmds" and o': "o' \<in> {0, 1, 3}"
  shows "run_steps (tn_step cb) (td, out) [255, 250, o', 255, 240] = Inl Null_pointer"
proof -
  have "length (telnet_cmd td) = 32" using td by (simp add: td_ok_def MAX_TELNET_CMD_SIZE_def)
  then obtain a0 a1 a2 a3 rest where a: "telnet_cmd td = a0 # a1 # a2 # a3 # rest"
    by (auto simp: numeral_eq_Suc length_Suc_conv)
  obtain i where i: "find_cmd (cmds td) o' = Inr (Some i)" "\<not> option_handler (cmds td ! i)"
    using find_handlerless [OF cs o'] by blast
  have ne: "o' \<noteq> 255" using o' by auto
  define t where "t = (\<lambda>bs k x. td\<lparr>telnet_cmd := bs @ drop k (telnet_cmd td), telnet_cmd_pos := k, suboption_iac := x\<rparr>)"
  have s1: "tn_step cb (td, out) 255 = Inr (t [255] 1 False, out)"
    using pos by (simp add: tn_step_pair store_cmd_def write_at_def a t_def)
  have s2: "tn_step cb (t [255] 1 False, out) 250 = Inr (t [255, 250] 2 False, out)"
    by (simp add: tn_step_pair store_cmd_def write_at_def command_byte_def a t_def)
  have s3: "tn_step cb (t [255, 250] 2 False, out) o' = Inr (t [255, 250, o'] 3 False, out)"
    by (simp add: tn_step_pair store_cmd_def write_at_def command_byte_def a t_def)
  have s4: "tn_step cb (t [255, 250, o'] 3 False, out) 255 = Inr (t [255, 250, o', 255] 4 True, out)"
    by (simp add: tn_step_pair store_cmd_def write_at_def command_byte_def a t_def MAX_TELNET_CMD_SIZE_def)
  have s5: "tn_step cb (t [255, 250, o', 255] 4 True, out) 240 = Inl Null_pointer"
    using i by (simp add: tn_step_pair command_byte_def finish_cmd_def handle_telnet_cmd_def t_def)
  show ?thesis by (simp add: s1 s2 [simplified] s3 s4 s5)
qed

text \<open>Five bytes from the client make the server follow a NULL pointer: a suboption for one of the
  options 0, 1 and 3, which are in the table of \<^verbatim>\<open>dataxfer.c\<close> without a handler.  This needs no
  more than an open telnet port between two commands.\<close>

theorem suboption_crash:
  assumes "enabled (cb_data td) = PORT_TELNET" and "td_ok (\<lambda>_. True) td" and "telnet_cmd_pos td = 0"
    and "shape (cmds td) = shape telnet_cmds" and "length (tcp_to_dev_buf (cb_data td)) = PORT_BUFSIZE"
    and "o' \<in> {0, 1, 3}"
  shows "handle_tcp_fd_read e (Read_bytes [255, 250, o', 255, 240]) ws td = Some (Inl Null_pointer)"
proof -
  let ?b = "[255, 250, o', 255, 240]"
  have l: "length ?b = 5" and t: "take PORT_BUFSIZE ?b = ?b" by (simp_all add: PORT_BUFSIZE_def)
  obtain buf where b: "read_into PORT_BUFSIZE (tcp_to_dev_buf (cb_data td)) (Read_bytes ?b) = (buf, 5)"
    "length buf = PORT_BUFSIZE" "take 5 buf = ?b"
    using read_into_bytes [OF assms(5) order_refl, of ?b] t l unfolding t l by (auto simp del: take_Suc_Cons)
  define c where "c = upd_outs (\<lambda>o'. o'\<lparr>tcp_in := tcp_in o' @ ?b\<rparr>) ((cb_data td)\<lparr>tcp_to_dev_buf_start := 0, tcp_to_dev_buf := buf,
    tcp_to_dev_buf_count := 5, tcp_bytes_received := tcp_bytes_received (cb_data td) + 5\<rparr>)"
  have "td_ok (\<lambda>_. True) (td\<lparr>cb_data := c\<rparr>)" using assms(2) by (simp add: td_ok_def out_ok_def)
  from suboption_null [OF this _ _ assms(6), of "port_callbacks e" "[]"] assms(3,4)
  have "run_steps (tn_step (port_callbacks e)) (td\<lparr>cb_data := c\<rparr>, []) (take 5 buf) = Inl Null_pointer" by (simp add: b(3))
  moreover have "bind_res (process_telnet_data (port_callbacks e) buf 5 (td\<lparr>cb_data := c\<rparr>)) (\<lambda>r. Inr (result r)) =
      run_steps (tn_step (port_callbacks e)) (td\<lparr>cb_data := c\<rparr>, []) (take 5 buf)"
    using telnet_loop_stream [of 0 5 buf "port_callbacks e" "td\<lparr>cb_data := c\<rparr>"] b(2) by (simp add: process_telnet_data_def PORT_BUFSIZE_def)
  ultimately have "process_telnet_data (port_callbacks e) buf 5 (td\<lparr>cb_data := c\<rparr>) = Inl Null_pointer" by (auto simp: res_simps)
  then have "strip_commands e (td\<lparr>cb_data := c\<rparr>) = Some (Inl Null_pointer)"
    using assms(1) by (simp add: strip_commands_def c_def)
  then show ?thesis using b(1,3) by (simp add: handle_tcp_fd_read_def c_def)
qed

theorem suboption_crash_witness:
  "handle_tcp_fd_read demo_env (Read_bytes [255, 250, 1, 255, 240]) [] (demo_port\<lparr>cmds := telnet_cmds\<rparr>) = Some (Inl Null_pointer)"
proof (rule suboption_crash)
  show "td_ok (\<lambda>_. True) (demo_port\<lparr>cmds := telnet_cmds\<rparr>)"
    by (simp add: td_ok_def out_ok_def demo_port_def MAX_TELNET_CMD_SIZE_def MAX_TELNET_CMD_XMIT_BUF_def shape_def telnet_cmds_eval)
qed (simp_all add: demo_port_def demo_conn_def)

section \<open>The COM port option\<close>

definition obedient :: "os_env \<Rightarrow> bool" where
  "obedient e \<longleftrightarrow> (\<forall>old t. tcset e old t = t)"

text \<open>The values of RFC 2217 for the settings of a device.\<close>

definition size_code :: "termios \<Rightarrow> byte" where
  "size_code t = (case c_size t of CS5 \<Rightarrow> 5 | CS6 \<Rightarrow> 6 | CS7 \<Rightarrow> 7 | CS8 \<Rightarrow> 8)"

definition parity_code :: "termios \<Rightarrow> byte" where
  "parity_code t = (if \<not> parenb t then 1 else if parodd t then 2 else 3)"

definition stop_code :: "termios \<Rightarrow> byte" where
  "stop_code t = (if cstopb t then 2 else 1)"

lemma set_tty_obedient: "obedient e \<Longrightarrow> tty (outs c) = Some t \<Longrightarrow> tty (outs (set_tty e t' c)) = Some t'"
  by (simp add: set_tty_def obedient_def)

text \<open>A command changes the setting it is about and no other.\<close>

definition only_setting :: "byte \<Rightarrow> termios \<Rightarrow> termios \<Rightarrow> bool" where
  "only_setting cmd t t' \<longleftrightarrow>
     t' = (if cmd = 2 then t\<lparr>c_size := c_size t'\<rparr> else if cmd = 3 then t\<lparr>parenb := parenb t', parodd := parodd t'\<rparr>
           else t\<lparr>cstopb := cstopb t'\<rparr>)"

text \<open>C39: The answers to the commands SET-DATASIZE, SET-PARITY and SET-STOPSIZE of RFC 2217, for every
  device: a valid value is asked of the device, with all other settings as they were, and is the
  answer; any other value is a query that changes nothing, and the answer is the setting of the
  device; a device whose settings cannot be read is left alone and the answer is 0.  The settings are
  not read back: if the device does not take over what it is asked for, the answer is not what it has.\<close>

theorem com_port_settings:
  assumes "3 \<le> len" and "option ! 1 = cmd"
    and "(cmd, code, valid) \<in> {(2, size_code, {5, 6, 7, 8}), (3, parity_code, {1, 2, 3}), (4, stop_code, {1, 2})}"
  shows "case tty (outs c) of
      None \<Rightarrow> com_port_reply e c option len = (Some [44, 100 + cmd, 0], c)
    | Some t \<Rightarrow> \<exists>want c'. com_port_reply e c option len = (Some [44, 100 + cmd, code want], c') \<and>
        (if option ! 2 \<in> valid
         then code want = option ! 2 \<and> only_setting cmd t want \<and> tty (outs c') = Some (tcset e t want)
         else want = t \<and> c' = c)"
proof -
  have size: "5 \<le> x \<and> x \<le> 8 \<longleftrightarrow> x = 5 \<or> x = 6 \<or> x = 7 \<or> x = 8" for x :: byte
    by unat_arith
  have par: "1 \<le> x \<and> x \<le> 3 \<longleftrightarrow> x = 1 \<or> x = 2 \<or> x = 3" for x :: byte by unat_arith
  have asked: ?thesis if "tty (outs c) = Some t" "com_port_reply e c option len = (Some [44, 100 + cmd, code want], set_tty e want c)"
    "option ! 2 \<in> valid" "code want = option ! 2" "only_setting cmd t want" for t want
    using that by (simp add: set_tty_def) (rule exI [of _ want], simp)
  consider "cmd = 2" "code = size_code" "valid = {5, 6, 7, 8}" | "cmd = 3" "code = parity_code" "valid = {1, 2, 3}"
    | "cmd = 4" "code = stop_code" "valid = {1, 2}" using assms(3) by auto
  then show ?thesis
  proof cases
    case 1
    then have run: "com_port_reply e c option len = set_datasize e c option len" using assms(1,2) by (simp add: com_port_reply_def Let_def)
    show ?thesis
    proof (cases "tty (outs c)")
      case (Some t)
      show ?thesis
      proof (cases "option ! 2 \<in> valid")
        case True
        then show ?thesis
          using 1 assms(1) Some run
          by (intro asked [OF Some, of "t\<lparr>c_size := if option ! 2 = 5 then CS5 else if option ! 2 = 6 then CS6 else if option ! 2 = 7 then CS7 else CS8\<rparr>"])
            (auto simp: set_datasize_def get_tty_def size size_code_def only_setting_def Let_def)
      qed (use 1 assms(1) Some run in \<open>auto simp: set_datasize_def get_tty_def size size_code_def\<close>)
    qed (use 1 assms(1) run in \<open>simp add: set_datasize_def get_tty_def\<close>)
  next
    case 2
    then have run: "com_port_reply e c option len = set_parity e c option len" using assms(1,2) by (simp add: com_port_reply_def Let_def)
    show ?thesis
    proof (cases "tty (outs c)")
      case (Some t)
      show ?thesis
      proof (cases "option ! 2 \<in> valid")
        case True
        then show ?thesis
          using 2 assms(1) Some run
          by (intro asked [OF Some, of "t\<lparr>parenb := option ! 2 \<noteq> 1, parodd := option ! 2 = 2\<rparr>"])
            (auto simp: set_parity_def get_tty_def par parity_code_def only_setting_def Let_def)
      qed (use 2 assms(1) Some run in \<open>auto simp: set_parity_def get_tty_def par parity_code_def\<close>)
    qed (use 2 assms(1) run in \<open>simp add: set_parity_def get_tty_def\<close>)
  next
    case 3
    then have run: "com_port_reply e c option len = set_stopsize e c option len" using assms(1,2) by (simp add: com_port_reply_def Let_def)
    show ?thesis
    proof (cases "tty (outs c)")
      case (Some t)
      show ?thesis
      proof (cases "option ! 2 \<in> valid")
        case True
        then show ?thesis
          using 3 assms(1) Some run
          by (intro asked [OF Some, of "t\<lparr>cstopb := option ! 2 = 2\<rparr>"])
            (auto simp: set_stopsize_def get_tty_def stop_code_def only_setting_def Let_def)
      qed (use 3 assms(1) Some run in \<open>auto simp: set_stopsize_def get_tty_def stop_code_def\<close>)
    qed (use 3 assms(1) run in \<open>simp add: set_stopsize_def get_tty_def\<close>)
  qed
qed

theorem com_port_settings_witness:
  "\<exists>want c'. com_port_reply demo_env demo_conn [44, 3, 2] 3 = (Some [44, 103, parity_code want], c') \<and> parity_code want = 2 \<and>
    tty (outs c') = Some want"
proof -
  have "tty (outs demo_conn) = Some demo_termios" "tcset demo_env old t = t" for old t by (simp_all add: demo_env_def demo_conn_def)
  then show ?thesis
    using com_port_settings [OF order_refl, of "[44, 3, 2]" 3 parity_code "{1, 2, 3}" demo_env demo_conn] by auto
qed

text \<open>Setting a baud rate of the table gives the device the code of that rate, and the answer
  holds the same four bytes as the request.\<close>

theorem baud_rate_set:
  assumes "obedient e" and "\<not> cisco_ios_baud_rates e" and "inj_on (speed_code e) (fst ` set baud_rates)"
    and "rate \<in> fst ` set baud_rates" and "tty (outs c) = Some t"
  shows "\<exists>c'. com_port_reply e c ([44, 1] @ htonl rate) 6 = (Some ([44, 101] @ htonl rate), c') \<and>
    tty (outs c') = Some (set_speed (speed_code e rate) t)"
proof -
  have rate: "ntohl (htonl rate) = rate \<and> rate \<noteq> 0"
    using assms(4) by (auto simp: baud_rates_def ntohl_def htonl_def)
  obtain k where k: "find (\<lambda>(real, cisco). rate = real) baud_rates = Some (rate, k)"
    using assms(4) by (auto simp: find_Some_iff2 baud_rates_def)
  have get: "get_baud_rate e rate = Some (speed_code e rate)" using k assms(2) by (simp add: get_baud_rate_def)
  have eq: "speed_code e rate = speed_code e a \<longleftrightarrow> rate = a" if "(a, b) \<in> set baud_rates" for a b
    using inj_on_eq_iff [OF assms(3,4), of a] that by (metis fst_conv image_eqI)
  have "find (\<lambda>(real, cisco). speed_code e rate = speed_code e real) baud_rates = find (\<lambda>(real, cisco). rate = real) baud_rates"
    by (intro find_cong) (auto simp: eq)
  then have inv: "get_rate_from_baud_rate e (speed_code e rate) y = rate" for y
    using k assms(2) by (simp add: get_rate_from_baud_rate_def)
  show ?thesis
    using get inv rate assms(2,5) set_tty_obedient [OF assms(1,5), of "set_speed (speed_code e rate) t"]
    by (simp add: com_port_reply_def set_baudrate_def get_tty_def Let_def set_speed_def)
qed

theorem baud_rate_set_witness:
  "\<exists>c'. com_port_reply demo_env demo_conn [44, 1, 0, 1, 0xC2, 0] 6 = (Some [44, 101, 0, 1, 0xC2, 0], c') \<and>
    tty (outs c') = Some (set_speed 115200 demo_termios)"
proof -
  have "obedient demo_env" "\<not> cisco_ios_baud_rates demo_env" "inj_on (speed_code demo_env) (fst ` set baud_rates)"
    "115200 \<in> fst ` set baud_rates" "tty (outs demo_conn) = Some demo_termios"
    by (simp_all add: obedient_def demo_env_def demo_conn_def baud_rates_def)
  moreover have "htonl 115200 = [0, 1, 0xC2, 0]" by (simp add: htonl_def)
  ultimately show ?thesis using baud_rate_set [of demo_env 115200 demo_conn demo_termios] by (simp add: demo_env_def)
qed

end
