(* ===== verification/Server.thy ===== *)
theory Server
  imports Port
begin

text \<open>
  The ports of the program (\<^verbatim>\<open>dataxfer.c\<close>): the list of all ports, starting and stopping them,
  and their configuration.  A \<^verbatim>\<open>port_info_t *\<close> is a number; \<open>objs\<close> holds the objects that are
  allocated, and following a pointer to another one is a fault.  The pointers \<^verbatim>\<open>next\<close> form the
  list \<open>port_list\<close>.  The selector and the table of telnet options are global variables: they are
  handed to a port while one of its functions runs.
\<close>

section \<open>State\<close>

record server =
  objs :: "nat \<Rightarrow> port option"
  port_list :: "nat list"
  gsel :: "(registered, nat) selector"
  cmd_table :: "telnet_cmd list"

definition load :: "nat \<Rightarrow> server \<Rightarrow> port res" where
  "load p sv =
     (case objs sv p of
        None \<Rightarrow> Inl Dangling_pointer
      | Some td \<Rightarrow> Inr (td\<lparr>cb_data := (cb_data td)\<lparr>sel := gsel sv, after_shutdown := Nothing\<rparr>, cmds := cmd_table sv\<rparr>))"

definition store :: "nat \<Rightarrow> port \<Rightarrow> server \<Rightarrow> server" where
  "store p td sv = sv\<lparr>objs := (objs sv)(p \<mapsto> td), gsel := sel (cb_data td), cmd_table := cmds td\<rparr>"

definition with_port :: "nat \<Rightarrow> (port \<Rightarrow> ('a \<times> port) run) \<Rightarrow> server \<Rightarrow> ('a \<times> server) run" where
  "with_port p f sv =
     bind_run (Some (load p sv)) (\<lambda>td. bind_run (f td) (\<lambda>(x, td'). Some (Inr (x, store p td' sv))))"

definition on_port :: "nat \<Rightarrow> (port \<Rightarrow> port run) \<Rightarrow> server \<Rightarrow> server run" where
  "on_port p f sv =
     bind_run (with_port p (\<lambda>td. bind_run (f td) (\<lambda>td'. Some (Inr ((), td')))) sv) (\<lambda>(_, sv'). Some (Inr sv'))"

text \<open>Assignments to fields of a port.\<close>

definition set_port :: "nat \<Rightarrow> (conn \<Rightarrow> conn) \<Rightarrow> server \<Rightarrow> server run" where
  "set_port p f = on_port p (\<lambda>td. Some (Inr (upd_conn f td)))"

definition port_conn :: "nat \<Rightarrow> server \<Rightarrow> conn run" where
  "port_conn p sv = Some (bind_res (load p sv) (\<lambda>td. Inr (cb_data td)))"

definition on_sel :: "((registered, nat) selector \<Rightarrow> (registered, nat) selector res) \<Rightarrow> server \<Rightarrow> server run" where
  "on_sel f sv = Some (bind_res (f (gsel sv)) (\<lambda>s. Inr (sv\<lparr>gsel := s\<rparr>)))"

section \<open>Starting and stopping\<close>

fun inuse_from :: "server \<Rightarrow> nat \<Rightarrow> string \<Rightarrow> nat list \<Rightarrow> bool run" where
  "inuse_from sv p dev [] = Some (Inr False)"
| "inuse_from sv p dev (q # qs) =
     (if q = p then inuse_from sv p dev qs
      else
        bind_run (port_conn q sv) (\<lambda>c.
        if devname c = dev \<and> tcp_to_dev_state c \<noteq> PORT_UNCONNECTED then Some (Inr True)
        else inuse_from sv p dev qs))"

definition is_device_already_inuse :: "nat \<Rightarrow> server \<Rightarrow> bool run" where
  "is_device_already_inuse p sv = bind_run (port_conn p sv) (\<lambda>c. inuse_from sv p (devname c) (port_list sv))"

text \<open>The results of the system calls: \<open>socket_fd\<close> is the descriptor or -1.\<close>

record startup_env =
  socket_fd :: int
  fcntl_ok :: bool
  reuse_ok :: bool
  bind_ok :: bool
  listen_ok :: bool
  connecting :: connect_env

text \<open>The result is the error message, if any.  A port 0 stands for the standard input; when it
  fails the program exits.\<close>

definition startup_port :: "os_env \<Rightarrow> startup_env \<Rightarrow> nat \<Rightarrow> server \<Rightarrow> (string option \<times> server) run" where
  "startup_port e n p sv =
     bind_run (port_conn p sv) (\<lambda>c.
     if snd (tcpport c) = 0 then
       bind_run (is_device_already_inuse p sv) (\<lambda>busy.
       if busy then Some (Inl Exited)
       else
         bind_run
           (with_port p (\<lambda>td. setup_tcp_port e (connecting n) (cmds td) (upd_conn (\<lambda>c. c\<lparr>acceptfd := -1, tcpfd := 0\<rparr>) td)) sv)
           (\<lambda>(ok, sv1). if ok then Some (Inr (None, sv1)) else Some (Inl Exited)))
     else
       bind_run (set_port p (\<lambda>c. c\<lparr>acceptfd := socket_fd n\<rparr>) sv) (\<lambda>sv1.
       if socket_fd n = -1 then Some (Inr (Some ''Unable to create TCP socket'', sv1))
       else if \<not> fcntl_ok n then Some (Inr (Some ''Could not fcntl the accept port'', sv1))
       else if \<not> reuse_ok n then Some (Inr (Some ''Unable to set reuseaddress on socket'', sv1))
       else if \<not> bind_ok n then Some (Inr (Some ''Unable to bind TCP port'', sv1))
       else if \<not> listen_ok n then Some (Inr (Some ''Unable to listen to TCP port'', sv1))
       else
         bind_run (on_sel (\<lambda>s. sel_set_fd_handlers s (socket_fd n) (Some p) (Some Handle_accept_port_read) None None) sv1) (\<lambda>sv2.
         bind_run (on_sel (\<lambda>s. sel_set_fd_read_handler s (socket_fd n) (Some True)) sv2) (\<lambda>sv3.
         Some (Inr (None, sv3))))))"

definition stop_accepting :: "nat \<Rightarrow> int \<Rightarrow> server \<Rightarrow> server run" where
  "stop_accepting p fd sv =
     (if fd = -1 then Some (Inr sv)
      else
        bind_run (on_sel (\<lambda>s. sel_set_fd_read_handler s fd (Some False)) sv) (\<lambda>sv1.
        bind_run (on_sel (\<lambda>s. sel_clear_fd_handlers s fd) sv1) (\<lambda>sv2.
        set_port p (\<lambda>c. c\<lparr>acceptfd := -1\<rparr>) sv2)))"

definition change_port_state :: "os_env \<Rightarrow> startup_env \<Rightarrow> nat \<Rightarrow> port_mode \<Rightarrow> server \<Rightarrow> (string option \<times> server) run" where
  "change_port_state e n p state sv =
     bind_run (port_conn p sv) (\<lambda>c.
     if enabled c = state then Some (Inr (None, sv))
     else
       bind_run
         (if state = PORT_DISABLED then bind_run (stop_accepting p (acceptfd c) sv) (\<lambda>sv1. Some (Inr (None, sv1)))
          else if enabled c = PORT_DISABLED then startup_port e n p sv
          else Some (Inr (None, sv)))
         (\<lambda>(rv, sv1). bind_run (set_port p (\<lambda>c. c\<lparr>enabled := state\<rparr>) sv1) (\<lambda>sv2. Some (Inr (rv, sv2)))))"

definition free_timer :: "ptr \<Rightarrow> server \<Rightarrow> server run" where
  "free_timer t sv =
     (case sel_free_timer (gsel sv) t of
        None \<Rightarrow> None
      | Some (Inl f) \<Rightarrow> Some (Inl f)
      | Some (Inr (Inl err)) \<Rightarrow> Some (Inr sv)
      | Some (Inr (Inr s)) \<Rightarrow> Some (Inr (sv\<lparr>gsel := s\<rparr>)))"

definition free_block :: "nat \<Rightarrow> server \<Rightarrow> server" where
  "free_block p sv = sv\<lparr>objs := (objs sv)(p := None)\<rparr>"

partial_function (option) free_port :: "os_env \<Rightarrow> startup_env \<Rightarrow> nat \<Rightarrow> server \<Rightarrow> server run" where
  "free_port e n p sv =
     bind_run (port_conn p sv) (\<lambda>c0.
     bind_run (free_timer (timer c0) sv) (\<lambda>sv1.
     bind_run (change_port_state e n p PORT_DISABLED sv1) (\<lambda>(rv, sv2).
     bind_run (port_conn p sv2) (\<lambda>c.
     bind_run (case new_config c of None \<Rightarrow> Some (Inr sv2) | Some q \<Rightarrow> free_port e n q sv2) (\<lambda>sv3.
     Some (Inr (free_block p sv3)))))))"

section \<open>After a connection\<close>

text \<open>The end of \<^verbatim>\<open>shutdown_port\<close>: a deleted port leaves the list, a reconfigured one is replaced
  by its new configuration, which takes over the descriptor.\<close>

definition delete_port :: "os_env \<Rightarrow> startup_env \<Rightarrow> nat \<Rightarrow> server \<Rightarrow> server run" where
  "delete_port e n p sv =
     (if p \<in> set (port_list sv) then free_port e n p (sv\<lparr>port_list := remove1 p (port_list sv)\<rparr>) else Some (Inr sv))"

definition replace_port :: "os_env \<Rightarrow> startup_env \<Rightarrow> nat \<Rightarrow> server \<Rightarrow> server run" where
  "replace_port e n p sv =
     (if p \<notin> set (port_list sv) then Some (Inr sv)
      else
        bind_run (port_conn p sv) (\<lambda>c.
        case new_config c of
          None \<Rightarrow> Some (Inl Null_pointer)
        | Some q \<Rightarrow>
            bind_run (set_port q (\<lambda>d. d\<lparr>acceptfd := acceptfd c\<rparr>) sv) (\<lambda>sv1.
            bind_run (on_sel (\<lambda>s. sel_set_fd_handlers s (acceptfd c) (Some q) (Some Handle_accept_port_read) None None) sv1) (\<lambda>sv2.
            bind_run (set_port p (\<lambda>c. c\<lparr>acceptfd := -1\<rparr>) sv2) (\<lambda>sv3.
            bind_run (set_port p (\<lambda>c. c\<lparr>enabled := PORT_DISABLED, new_config := None\<rparr>)
              (sv3\<lparr>port_list := map (\<lambda>r. if r = p then q else r) (port_list sv3)\<rparr>)) (\<lambda>sv4.
            free_port e n p sv4))))))"

definition finish_shutdown :: "os_env \<Rightarrow> startup_env \<Rightarrow> nat \<Rightarrow> after_close \<Rightarrow> server \<Rightarrow> server run" where
  "finish_shutdown e n p next sv =
     (case next of
        Nothing \<Rightarrow> Some (Inr sv)
      | Exit_program \<Rightarrow> Some (Inl Exited)
      | Delete_port \<Rightarrow> delete_port e n p sv
      | Replace_port \<Rightarrow> replace_port e n p sv)"

text \<open>A handler of a port; every handler that closes the connection returns at once.\<close>

definition run_handler :: "os_env \<Rightarrow> startup_env \<Rightarrow> nat \<Rightarrow> (port \<Rightarrow> port run) \<Rightarrow> server \<Rightarrow> server run" where
  "run_handler e n p f sv =
     bind_run (with_port p (\<lambda>td. bind_run (f td) (\<lambda>td'. Some (Inr (after_shutdown (cb_data td'), td')))) sv) (\<lambda>(next, sv1).
     finish_shutdown e n p next sv1)"

text \<open>A request on the accepting descriptor: \<open>new_fd\<close> is what \<^verbatim>\<open>accept\<close> returns.\<close>

definition accept_connection :: "os_env \<Rightarrow> connect_env \<Rightarrow> int \<Rightarrow> nat \<Rightarrow> server \<Rightarrow> server run" where
  "accept_connection e n new_fd p sv =
     bind_run (is_device_already_inuse p sv) (\<lambda>busy.
     on_port p (\<lambda>td. handle_accept_port_read e n (cmds td) busy new_fd td) sv)"

section \<open>Configuration\<close>

definition zero_termios :: termios where
  "zero_termios = \<lparr>c_ospeed = 0, c_ispeed = 0, c_size = CS5, cstopb = False, parenb = False, parodd = False, clocal = False,
     hupcl = False, cread = False, crtscts = False, ixon = False, ixoff = False, ixany = False, ignbrk = False, vstart = 0, vstop = 0\<rparr>"

text \<open>What is not assigned here keeps the content of the block that \<^verbatim>\<open>malloc\<close> returned, the device
  monitor among it.\<close>

definition init_port_data :: "conn \<Rightarrow> conn" where
  "init_port_data c = c\<lparr>
     enabled := PORT_DISABLED, portname := [], tcpport := (0, 0), acceptfd := -1, tcpfd := -1, port_timeout := 0,
     new_config := None, tcp_monitor := No_monitor, devname := [], devfd := 0,
     dinfo := (dinfo c)\<lparr>termctl := zero_termios, disablebreak := False\<rparr>,
     tcp_to_dev_state := PORT_UNCONNECTED, tcp_to_dev_buf_start := 0, tcp_to_dev_buf_count := 0, tcp_bytes_received := 0,
     tcp_bytes_sent := 0, dev_to_tcp_state := PORT_UNCONNECTED, dev_to_tcp_buf_start := 0, dev_to_tcp_buf_count := 0,
     dev_bytes_received := 0, dev_bytes_sent := 0, is_2217 := False, break_set := False\<rparr>"

definition port_mode_of :: "string \<Rightarrow> port_mode option" where
  "port_mode_of state =
     (if state = ''raw'' then Some PORT_RAW else if state = ''rawlp'' then Some PORT_RAWLP
      else if state = ''telnet'' then Some PORT_TELNET else if state = ''off'' then Some PORT_DISABLED else None)"

text \<open>The memory that is available, name lookup, and the lists of banners and trace files.\<close>

record config_env =
  port_block :: "(nat \<times> port) option"
  timer_block :: "ptr option"
  name_mem :: bool
  devcfg_mem :: bool
  devname_mem :: bool
  inet_addr :: "string \<Rightarrow> 32 word"
  gethostbyname :: "string \<Rightarrow> (bool \<times> 32 word) option"
  starting :: startup_env

text \<open>The assignments up to the first error; the message is the first component.\<close>

definition parse_port ::
  "os_env \<Rightarrow> config_env \<Rightarrow> (string \<times> string) list \<Rightarrow> (string \<times> string) list \<Rightarrow>
   string \<Rightarrow> string \<Rightarrow> string \<Rightarrow> string \<Rightarrow> string \<Rightarrow> int \<Rightarrow> conn \<Rightarrow> (string option \<times> conn) res" where
  "parse_port e n banners tracefiles portnum state tmo dev devcfg num c =
     (if \<not> name_mem n then Inr (Some ''unable to allocate port name'', c)
      else
        let c = c\<lparr>portname := portnum\<rparr> in
        bind_res (scan_tcp_port (inet_addr n) (gethostbyname n) portnum) (\<lambda>tp.
        case tp of
          None \<Rightarrow> Inr (Some ''port number was invalid'', c)
        | Some tp \<Rightarrow>
            let c = c\<lparr>tcpport := tp\<rparr> in
            (case port_mode_of state of
               None \<Rightarrow> Inr (Some ''state was invalid'', c)
             | Some m \<Rightarrow>
                 let c = c\<lparr>enabled := m\<rparr> in
                 bind_res (scan_int tmo) (\<lambda>v.
                 let c = c\<lparr>port_timeout := v\<rparr> in
                 if v = -1 then Inr (Some ''timeout was invalid'', c)
                 else
                   let (ok, d) = devconfig (devcfg_mem n) (speed_code e) banners tracefiles devcfg
                         (upd_termctl (devinit (speed_code e)) (dinfo c));
                       c = c\<lparr>dinfo := d\<rparr> in
                   if \<not> ok then Inr (Some ''device configuration invalid'', c)
                   else if \<not> devname_mem n then Inr (Some ''could not allocate device name'', c)
                   else Inr (None, c\<lparr>devname := dev, config_num := num\<rparr>)))))"

text \<open>The first port of the list with a given name.\<close>

fun find_port_from :: "server \<Rightarrow> string \<Rightarrow> nat list \<Rightarrow> nat option run" where
  "find_port_from sv name [] = Some (Inr None)"
| "find_port_from sv name (q # qs) =
     bind_run (port_conn q sv) (\<lambda>c. if portname c = name then Some (Inr (Some q)) else find_port_from sv name qs)"

definition find_port_by_num :: "string \<Rightarrow> server \<Rightarrow> nat option run" where
  "find_port_by_num portstr sv = find_port_from sv portstr (port_list sv)"

text \<open>The port exists and has no connection: its place and its descriptor are taken over.\<close>

definition take_over :: "os_env \<Rightarrow> startup_env \<Rightarrow> nat \<Rightarrow> nat \<Rightarrow> server \<Rightarrow> server run" where
  "take_over e n p q sv =
     bind_run (port_conn p sv) (\<lambda>new.
     bind_run (port_conn q sv) (\<lambda>curr.
     bind_run (set_port p (\<lambda>c. c\<lparr>enabled := enabled curr, acceptfd := acceptfd curr\<rparr>) sv) (\<lambda>sv1.
     bind_run (set_port q (\<lambda>c. c\<lparr>enabled := PORT_DISABLED, acceptfd := -1\<rparr>) sv1) (\<lambda>sv2.
     bind_run (on_sel (\<lambda>s. sel_set_fd_handlers s (acceptfd curr) (Some p) (Some Handle_accept_port_read) None None) sv2) (\<lambda>sv3.
     bind_run (free_port e n q (sv3\<lparr>port_list := map (\<lambda>r. if r = q then p else r) (port_list sv3)\<rparr>)) (\<lambda>sv4.
     bind_run (change_port_state e n p (enabled new) sv4) (\<lambda>(rv, sv5). Some (Inr sv5))))))))"

text \<open>The port exists and is connected: it is replaced later.\<close>

definition replace_later :: "int \<Rightarrow> nat \<Rightarrow> nat \<Rightarrow> server \<Rightarrow> server run" where
  "replace_later num p q sv =
     bind_run (port_conn q sv) (\<lambda>curr.
     bind_run
       (case new_config curr of
          None \<Rightarrow> Some (Inr sv)
        | Some r \<Rightarrow> bind_run (set_port q (\<lambda>c. c\<lparr>enabled := PORT_DISABLED\<rparr>) sv) (\<lambda>sv1. Some (Inr (free_block r sv1))))
       (\<lambda>sv1. set_port q (\<lambda>c. c\<lparr>config_num := num, new_config := Some p\<rparr>) sv1))"

definition add_port :: "os_env \<Rightarrow> startup_env \<Rightarrow> nat \<Rightarrow> server \<Rightarrow> (string option \<times> server) run" where
  "add_port e n p sv =
     bind_run (port_conn p sv) (\<lambda>c.
     bind_run (if enabled c \<noteq> PORT_DISABLED then startup_port e n p sv else Some (Inr (None, sv))) (\<lambda>(rv, sv1).
     case rv of
       Some err \<Rightarrow> bind_run (free_port e n p sv1) (\<lambda>sv2. Some (Inr (rv, sv2)))
     | None \<Rightarrow> Some (Inr (None, sv1\<lparr>port_list := port_list sv1 @ [p]\<rparr>))))"

text \<open>What follows the reading of the parameters.\<close>

definition install_port :: "os_env \<Rightarrow> startup_env \<Rightarrow> string \<Rightarrow> int \<Rightarrow> nat \<Rightarrow> server \<Rightarrow> (string option \<times> server) run" where
  "install_port e n portnum num p sv =
     bind_run (find_port_by_num portnum sv) (\<lambda>found.
     case found of
       None \<Rightarrow> add_port e n p sv
     | Some q \<Rightarrow>
         bind_run (port_conn q sv) (\<lambda>curr.
         bind_run
           (if dev_to_tcp_state curr = PORT_UNCONNECTED then take_over e n p q sv else replace_later num p q sv)
           (\<lambda>sv2. Some (Inr (None, sv2)))))"

definition portconfig ::
  "os_env \<Rightarrow> config_env \<Rightarrow> (string \<times> string) list \<Rightarrow> (string \<times> string) list \<Rightarrow>
   string \<Rightarrow> string \<Rightarrow> string \<Rightarrow> string \<Rightarrow> string \<Rightarrow> int \<Rightarrow> server \<Rightarrow> (string option \<times> server) run" where
  "portconfig e n banners tracefiles portnum state tmo dev devcfg num sv =
     (case port_block n of
        None \<Rightarrow> Some (Inr (Some ''Could not allocate a port data structure'', sv))
      | Some (p, blk) \<Rightarrow>
          (case sel_alloc_timer (gsel sv) (timer_block n) Got_timeout p of
             None \<Rightarrow> Some (Inr (Some ''Could not allocate timer data'', sv))
           | Some (t, s) \<Rightarrow>
               bind_run
                 (Some (parse_port e n banners tracefiles portnum state tmo dev devcfg num
                   (init_port_data ((cb_data blk)\<lparr>self := p, timer := t\<rparr>))))
                 (\<lambda>(rv, c).
               let sv1 = sv\<lparr>objs := (objs sv)(p \<mapsto> blk\<lparr>cb_data := c\<rparr>), gsel := s\<rparr> in
               case rv of
                 Some err \<Rightarrow> bind_run (free_port e (starting n) p sv1) (\<lambda>sv2. Some (Inr (rv, sv2)))
               | None \<Rightarrow> install_port e (starting n) portnum num p sv1)))"

text \<open>The ports that are not in the new configuration.\<close>

fun clear_ports :: "os_env \<Rightarrow> startup_env \<Rightarrow> int \<Rightarrow> nat list \<Rightarrow> server \<Rightarrow> server run" where
  "clear_ports e n num [] sv = Some (Inr sv)"
| "clear_ports e n num (p # ps) sv =
     bind_run (port_conn p sv) (\<lambda>c.
     bind_run
       (if config_num c = num then Some (Inr sv)
        else if dev_to_tcp_state c = PORT_UNCONNECTED then
          free_port e n p (sv\<lparr>port_list := remove1 p (port_list sv)\<rparr>)
        else set_port p (\<lambda>c. c\<lparr>config_num := -1\<rparr>) sv)
       (\<lambda>sv1. clear_ports e n num ps sv1))"

definition clear_old_port_config :: "os_env \<Rightarrow> startup_env \<Rightarrow> int \<Rightarrow> server \<Rightarrow> server run" where
  "clear_old_port_config e n num sv = clear_ports e n num (port_list sv) sv"

end
