(* ===== verification/Readconfig.thy ===== *)
theory Readconfig
  imports Server
begin

text \<open>
  The configuration file (\<^verbatim>\<open>readconfig.c\<close>): its lines, the banners, which may extend over several
  lines, and the trace files.  The static variables of the file are the record \<open>reader\<close>, which
  contains the ports.  \<open>log\<close> has the messages for \<^verbatim>\<open>syslog\<close>, each with the line it names.
\<close>

section \<open>State\<close>

definition MAX_LINE_SIZE :: nat where "MAX_LINE_SIZE = 256"
definition MAX_BANNER_SIZE :: int where "MAX_BANNER_SIZE = 256"

datatype name_ptr = Null | Name string | Freed

record reader =
  conf_num :: int
  banner_continued :: bool
  working_banner_name :: name_ptr
  working_banner :: string
  working_banner_len :: int
  banner_truncated :: bool
  lineno :: int
  banners :: "(string \<times> string) list"
  tracefiles :: "(string \<times> string) list"
  ports :: server
  log :: "(int \<times> string) list"

text \<open>Which allocations succeed while a line is handled.\<close>

record line_env =
  name_dup :: bool
  entry_mem :: bool
  text_dup :: bool
  port_env :: config_env

definition syslog :: "string \<Rightarrow> reader \<Rightarrow> reader" where
  "syslog msg r = r\<lparr>log := log r @ [(lineno r, msg)]\<rparr>"

section \<open>Banners\<close>

text \<open>\<open>copy_text\<close> is \<^verbatim>\<open>memcpy(working_banner + at, text, n)\<close>.\<close>

definition copy_text :: "int \<Rightarrow> string \<Rightarrow> int \<Rightarrow> reader \<Rightarrow> reader res" where
  "copy_text pos txt n r =
     (if n < 0 \<or> pos < 0 \<or> int (length (working_banner r)) < pos + n then Inl Out_of_bounds
      else Inr (r\<lparr>working_banner :=
        take (nat pos) (working_banner r) @ take (nat n) txt @ drop (nat (pos + n)) (working_banner r)\<rparr>))"

definition reset_banner :: "reader \<Rightarrow> reader" where
  "reset_banner r = r\<lparr>working_banner_name := Null, working_banner_len := 0, banner_truncated := False, banner_continued := False\<rparr>"

text \<open>A pointer to memory that was freed must not even be read.  When the text cannot be allocated
  the function returns without the resets.\<close>

definition handle_new_banner :: "line_env \<Rightarrow> reader \<Rightarrow> reader res" where
  "handle_new_banner e r =
     bind_res (copy_text (working_banner_len r) [CHR 0x00] 1 r) (\<lambda>r.
     let r = (if banner_truncated r then syslog ''banner was truncated'' r else r) in
     case working_banner_name r of
       Freed \<Rightarrow> Inl Dangling_pointer
     | Null \<Rightarrow> Inr (reset_banner (syslog ''Out of memory handling banner'' r))
     | Name s \<Rightarrow>
         if \<not> entry_mem e then Inr (reset_banner (syslog ''Out of memory handling banner'' r))
         else if \<not> text_dup e then Inr ((syslog ''Out of memory handling banner'' r)\<lparr>working_banner_name := Freed\<rparr>)
         else Inr (reset_banner (r\<lparr>banners := (s, takeWhile (\<lambda>c. c \<noteq> CHR 0x00) (working_banner r)) # banners r\<rparr>)))"

text \<open>A missing text is the null pointer.\<close>

definition handle_banner :: "line_env \<Rightarrow> string \<Rightarrow> string option \<Rightarrow> reader \<Rightarrow> reader res" where
  "handle_banner e name str r =
     (case str of
        None \<Rightarrow> Inl Null_pointer
      | Some line \<Rightarrow>
          let real_line_len = int (length line);
              r = r\<lparr>working_banner_name := (if name_dup e then Name name else Null)\<rparr>;
              r = (if MAX_BANNER_SIZE \<le> real_line_len then r\<lparr>banner_truncated := True\<rparr> else r);
              line_len = (if MAX_BANNER_SIZE \<le> real_line_len then MAX_BANNER_SIZE else real_line_len) in
          bind_res (copy_text 0 line line_len r) (\<lambda>r.
          let r = r\<lparr>working_banner_len := line_len\<rparr> in
          if 0 < real_line_len \<and> last line = CHR 0x5C
          then Inr (r\<lparr>working_banner_len := working_banner_len r - 1, banner_continued := True\<rparr>)
          else handle_new_banner e r))"

definition handle_continued_banner :: "line_env \<Rightarrow> string \<Rightarrow> reader \<Rightarrow> reader res" where
  "handle_continued_banner e line r =
     (let real_line_len = int (length line);
          long = MAX_BANNER_SIZE < real_line_len + working_banner_len r;
          r = (if long then r\<lparr>banner_truncated := True\<rparr> else r);
          line_len = (if long then MAX_BANNER_SIZE - working_banner_len r else real_line_len) in
      bind_res (copy_text (working_banner_len r) line line_len r) (\<lambda>r.
      let r = r\<lparr>working_banner_len := working_banner_len r + line_len\<rparr> in
      if real_line_len = 0 \<or> last line \<noteq> CHR 0x5C then handle_new_banner e r
      else Inr (r\<lparr>working_banner_len := working_banner_len r - 1\<rparr>)))"

definition find_banner :: "string \<Rightarrow> reader \<Rightarrow> string option" where
  "find_banner name r = map_of (banners r) name"

definition free_banners :: "reader \<Rightarrow> reader res" where
  "free_banners r =
     (if working_banner_name r = Freed then Inl Dangling_pointer
      else Inr ((reset_banner r)\<lparr>banners := []\<rparr>))"

section \<open>Trace files\<close>

definition handle_tracefile :: "line_env \<Rightarrow> string \<Rightarrow> string \<Rightarrow> reader \<Rightarrow> reader" where
  "handle_tracefile e name fname r =
     (if \<not> entry_mem e \<or> \<not> name_dup e \<or> \<not> text_dup e then syslog ''Out of memory handling tracefile'' r
      else r\<lparr>tracefiles := (name, fname) # tracefiles r\<rparr>)"

definition find_tracefile :: "string \<Rightarrow> reader \<Rightarrow> string option \<times> reader" where
  "find_tracefile name r =
     (case map_of (tracefiles r) name of
        Some f \<Rightarrow> (Some f, r)
      | None \<Rightarrow> (None, syslog ''Tracefile not found, it will be ignored'' r))"

definition free_tracefiles :: "reader \<Rightarrow> reader" where
  "free_tracefiles r = r\<lparr>tracefiles := []\<rparr>"

section \<open>Lines\<close>

definition port_line :: "os_env \<Rightarrow> line_env \<Rightarrow> string \<Rightarrow> string \<Rightarrow> reader \<Rightarrow> reader run" where
  "port_line o' e portnum rest r =
     (let (state, rest) = strtok_r '':'' rest; (tmo, rest2) = strtok_r '':'' rest;
          (dev, rest3) = strtok_r '':'' rest2; (devcfg, _) = strtok_r '':'' rest3 in
      case state of
        None \<Rightarrow> Some (Inr (syslog ''No state given'' r))
      | Some state \<Rightarrow>
          (case tmo of
             None \<Rightarrow> Some (Inr (syslog ''No timeout given'' r))
           | Some tmo \<Rightarrow>
               (case dev of
                  None \<Rightarrow> Some (Inr (syslog ''No device name given'' r))
                | Some dev \<Rightarrow>
                    bind_run
                      (portconfig o' (port_env e) (banners r) (tracefiles r) portnum state tmo dev
                        (case devcfg of None \<Rightarrow> '''' | Some s \<Rightarrow> s) (conf_num r) (ports r)) (\<lambda>(errstr, sv).
                    let r = r\<lparr>ports := sv\<rparr> in
                    Some (Inr (case errstr of None \<Rightarrow> r | Some err \<Rightarrow> syslog err r))))))"

definition handle_config_line :: "os_env \<Rightarrow> line_env \<Rightarrow> string \<Rightarrow> reader \<Rightarrow> reader run" where
  "handle_config_line o' e inbuf r =
     (let r = r\<lparr>lineno := lineno r + 1\<rparr> in
      if banner_continued r then
        Some (handle_continued_banner e (case fst (strtok_r [CHR 0x0A] inbuf) of None \<Rightarrow> '''' | Some str \<Rightarrow> str) r)
      else if peek inbuf = CHR ''#'' then Some (Inr r)
      else
        let (portnum, rest) = strtok_r '':'' inbuf in
        case portnum of
          None \<Rightarrow> Some (Inr r)
        | Some portnum \<Rightarrow>
            if portnum = ''BANNER'' then
              let (name, rest) = strtok_r '':'' rest; (str, _) = strtok_r [CHR 0x0A] rest in
              case name of
                None \<Rightarrow> Some (Inr (syslog ''No banner name given'' r))
              | Some name \<Rightarrow> Some (handle_banner e name str r)
            else if portnum = ''TRACEFILE'' then
              let (name, rest) = strtok_r '':'' rest; (str, _) = strtok_r [CHR 0x0A] rest in
              case name of
                None \<Rightarrow> Some (Inr (syslog ''No tracefile name given'' r))
              | Some name \<Rightarrow>
                  (case str of
                     None \<Rightarrow> Some (Inr (syslog ''No tracefile given'' r))
                   | Some str \<Rightarrow> Some (Inr (handle_tracefile e name str r)))
            else port_line o' e portnum rest r)"

section \<open>The file\<close>

text \<open>\<^verbatim>\<open>fgets\<close>: what is stored before the terminating NUL, and the rest of the file.\<close>

definition fgets :: "nat \<Rightarrow> string \<Rightarrow> (string \<times> string) option" where
  "fgets n s =
     (if s = [] then None
      else
        let line = takeWhile (\<lambda>c. c \<noteq> CHR 0x0A) s @ take 1 (dropWhile (\<lambda>c. c \<noteq> CHR 0x0A) s); k = min (n - 1) (length line) in
        Some (take k s, drop k s))"

lemma fgets_shorter: "fgets n s = Some (chunk, rest) \<Longrightarrow> 1 < n \<Longrightarrow> length rest < length s"
  by (cases s) (auto simp: fgets_def Let_def split: if_splits)

text \<open>One line: what \<^verbatim>\<open>fgets\<close> has stored, which ends at the first NUL.  An empty string is indexed
  with -1.\<close>

definition config_chunk :: "os_env \<Rightarrow> line_env \<Rightarrow> string \<Rightarrow> reader \<Rightarrow> reader run" where
  "config_chunk o' e chunk r =
     (let inbuf = takeWhile (\<lambda>c. c \<noteq> CHR 0x00) chunk in
      if inbuf = [] then Some (Inl Out_of_bounds)
      else if last inbuf \<noteq> CHR 0x0A then
        let r = r\<lparr>lineno := lineno r + 1\<rparr> in Some (Inr (syslog ''line is too long in config file'' r))
      else handle_config_line o' e (butlast inbuf) r)"

text \<open>\<open>env i\<close> belongs to the \<open>i\<close>-th round of the loop.\<close>

function read_lines :: "os_env \<Rightarrow> (nat \<Rightarrow> line_env) \<Rightarrow> nat \<Rightarrow> string \<Rightarrow> reader \<Rightarrow> reader run" where
  "read_lines o' env i s r =
     (case fgets MAX_LINE_SIZE s of
        None \<Rightarrow> Some (Inr r)
      | Some (chunk, rest) \<Rightarrow>
          bind_run (config_chunk o' (env i) chunk r) (\<lambda>r. read_lines o' env (Suc i) rest r))"
  by pat_completeness auto
termination
  by (relation "measure (\<lambda>(o', env, i, s, r). length s)") (auto dest: fgets_shorter simp: MAX_LINE_SIZE_def)

declare read_lines.simps [simp del]

text \<open>\<open>file\<close> is the content of the file, when it can be opened; the result is 0 or -1.\<close>

definition readconfig :: "os_env \<Rightarrow> startup_env \<Rightarrow> (nat \<Rightarrow> line_env) \<Rightarrow> string option \<Rightarrow> reader \<Rightarrow> (int \<times> reader) run" where
  "readconfig o' e env file r =
     (let r = r\<lparr>lineno := 0\<rparr> in
      case file of
        None \<Rightarrow> Some (Inr (-1, syslog ''Unable to open config file'' r))
      | Some s \<Rightarrow>
          bind_run (Some (free_banners r)) (\<lambda>r.
          let r = free_tracefiles r; r = r\<lparr>conf_num := conf_num r + 1\<rparr> in
          bind_run (read_lines o' env 0 s r) (\<lambda>r.
          bind_run (clear_old_port_config o' e (conf_num r) (ports r)) (\<lambda>sv. Some (Inr (0, r\<lparr>ports := sv\<rparr>))))))"

end
