(* ===== verification/Controller.thy ===== *)
theory Controller
  imports Readconfig
begin

text \<open>
  The control port (\<^verbatim>\<open>controller.c\<close>): its connections, their output buffers, and opening, writing and
  closing them.  A control connection is like a port: the telnet data with the other fields of
  \<^verbatim>\<open>controller_info_t\<close> as user data.  The record \<open>world\<close> is the state of the whole program.
\<close>

section \<open>State\<close>

definition INBUF_SIZE :: nat where "INBUF_SIZE = 255"
definition max_controller_ports :: int where "max_controller_ports = 4"

definition prompt :: string where "prompt = ''-> ''"

text \<open>\<open>c_out\<close> is what the peer has been sent of the output buffer, \<open>c_cmd_out\<close> of the telnet commands.\<close>

record ctrl =
  c_tcpfd :: int
  inbuf :: "byte list"
  inbuf_count :: int
  outbuf :: "byte list option"
  outbufsize :: int
  outbuf_pos :: int
  outbuf_count :: int
  monitor_port_id :: "nat option"
  c_sel :: "(registered, nat) selector"
  c_out :: "byte list"
  c_cmd_out :: "byte list"

type_synonym controller = "ctrl telnet_data"

abbreviation upd_ctrl :: "(ctrl \<Rightarrow> ctrl) \<Rightarrow> controller \<Rightarrow> controller" where
  "upd_ctrl f td \<equiv> td\<lparr>cb_data := f (cb_data td)\<rparr>"

text \<open>\<open>allocs\<close> are the outcomes of the calls of \<^verbatim>\<open>malloc\<close> to come; those behind its end succeed.\<close>

record world =
  rdr :: reader
  controllers :: "nat list"
  ctls :: "nat \<Rightarrow> controller option"
  num_controller_ports :: int
  ctl_cmds :: "telnet_cmd list"
  allocs :: "bool list"

definition controller_init_seq :: "byte list" where
  "controller_init_seq =
     [TN_IAC, TN_WILL, TN_OPT_SUPPRESS_GO_AHEAD, TN_IAC, TN_WILL, TN_OPT_ECHO, TN_IAC, TN_DONT, TN_OPT_ECHO]"

definition controller_cmds :: "telnet_cmd list" where
  "controller_cmds =
     [table_entry TN_OPT_SUPPRESS_GO_AHEAD False True True False False,
      table_entry TN_OPT_ECHO False True True True False,
      table_entry TN_OPT_BINARY_TRANSMISSION True True False True False,
      table_entry 255 False False False False False]"

section \<open>Access\<close>

abbreviation srv :: "world \<Rightarrow> server" where "srv w \<equiv> ports (rdr w)"

definition set_srv :: "server \<Rightarrow> world \<Rightarrow> world" where
  "set_srv sv w = w\<lparr>rdr := (rdr w)\<lparr>ports := sv\<rparr>\<rparr>"

definition on_srv :: "(server \<Rightarrow> server run) \<Rightarrow> world \<Rightarrow> world run" where
  "on_srv f w = bind_run (f (srv w)) (\<lambda>sv. Some (Inr (set_srv sv w)))"

definition next_alloc :: "world \<Rightarrow> bool \<times> world" where
  "next_alloc w = (case allocs w of [] \<Rightarrow> (True, w) | b # bs \<Rightarrow> (b, w\<lparr>allocs := bs\<rparr>))"

definition load_ctl :: "nat \<Rightarrow> world \<Rightarrow> controller res" where
  "load_ctl k w =
     (case ctls w k of
        None \<Rightarrow> Inl Dangling_pointer
      | Some td \<Rightarrow> Inr (td\<lparr>cb_data := (cb_data td)\<lparr>c_sel := gsel (srv w)\<rparr>, cmds := ctl_cmds w\<rparr>))"

definition store_ctl :: "nat \<Rightarrow> controller \<Rightarrow> world \<Rightarrow> world" where
  "store_ctl k td w =
     set_srv ((srv w)\<lparr>gsel := c_sel (cb_data td)\<rparr>) (w\<lparr>ctls := (ctls w)(k \<mapsto> td), ctl_cmds := cmds td\<rparr>)"

definition with_ctl :: "nat \<Rightarrow> (controller \<Rightarrow> ('a \<times> controller) res) \<Rightarrow> world \<Rightarrow> ('a \<times> world) run" where
  "with_ctl k f w =
     Some (bind_res (load_ctl k w) (\<lambda>td. bind_res (f td) (\<lambda>(x, td'). Inr (x, store_ctl k td' w))))"

definition on_ctl :: "nat \<Rightarrow> (ctrl \<Rightarrow> ctrl res) \<Rightarrow> world \<Rightarrow> world run" where
  "on_ctl k f w =
     Some (bind_res (load_ctl k w) (\<lambda>td. bind_res (f (cb_data td)) (\<lambda>c. Inr (store_ctl k (td\<lparr>cb_data := c\<rparr>) w))))"

section \<open>Output\<close>

definition c_with_sel ::
  "((registered, nat) selector \<Rightarrow> (registered, nat) selector res) \<Rightarrow> ctrl \<Rightarrow> ctrl res" where
  "c_with_sel f c = bind_res (f (c_sel c)) (\<lambda>s. Inr (c\<lparr>c_sel := s\<rparr>))"

text \<open>Reading is off while there is output.\<close>

definition read_off :: "ctrl \<Rightarrow> ctrl res" where
  "read_off c =
     bind_res (c_with_sel (\<lambda>s. sel_set_fd_read_handler s (c_tcpfd c) (Some False)) c) (\<lambda>c.
     c_with_sel (\<lambda>s. sel_set_fd_write_handler s (c_tcpfd c) (Some True)) c)"

definition read_on :: "ctrl \<Rightarrow> ctrl res" where
  "read_on c =
     bind_res (c_with_sel (\<lambda>s. sel_set_fd_read_handler s (c_tcpfd c) (Some True)) c) (\<lambda>c.
     c_with_sel (\<lambda>s. sel_set_fd_write_handler s (c_tcpfd c) (Some False)) c)"

text \<open>The next multiple of 1024 bytes.\<close>

definition block_size :: "int \<Rightarrow> int" where
  "block_size n = (n div 1024) * 1024 + 1024"

text \<open>\<^verbatim>\<open>for (i=0; i<count; i++) buf[i] = buf[pos + i];\<close>\<close>

definition copy_down :: "nat \<Rightarrow> nat \<Rightarrow> byte list \<Rightarrow> byte list" where
  "copy_down ps count buf = fold (\<lambda>i b. b[i := b ! (ps + i)]) [0..<count] buf"

text \<open>\<open>mem\<close>: whether \<^verbatim>\<open>malloc\<close> provides a larger buffer, if one is needed.  The content of a new
  buffer is written before it is read; here it is 0.\<close>

definition output_data :: "bool \<Rightarrow> byte list \<Rightarrow> ctrl \<Rightarrow> ctrl res" where
  "output_data mem bs c =
     (let count = int (length bs) in
      case outbuf c of
        Some buf \<Rightarrow>
          let new_size = outbuf_count c + count in
          bind_res (from_buf buf (nat (outbuf_pos c)) (outbuf_count c)) (\<lambda>old.
          if new_size \<le> outbufsize c then
            bind_res (write_at (nat (outbuf_count c)) bs
              (if 0 < outbuf_pos c then copy_down (nat (outbuf_pos c)) (nat (outbuf_count c)) buf else buf)) (\<lambda>buf'.
            Inr (c\<lparr>outbuf := Some buf', outbuf_pos := 0, outbuf_count := outbuf_count c + count\<rparr>))
          else if \<not> mem then Inr c
          else
            let size' = block_size new_size in
            bind_res (write_at 0 old (replicate (nat size') 0)) (\<lambda>buf1.
            bind_res (write_at (nat (outbuf_count c)) bs buf1) (\<lambda>buf'.
            Inr (c\<lparr>outbufsize := size', outbuf := Some buf', outbuf_pos := 0, outbuf_count := outbuf_count c + count\<rparr>))))
      | None \<Rightarrow>
          if \<not> mem then Inr c
          else
            let size' = block_size count in
            bind_res (write_at 0 bs (replicate (nat size') 0)) (\<lambda>buf'.
            read_off (c\<lparr>outbufsize := size', outbuf := Some buf', outbuf_pos := 0, outbuf_count := count\<rparr>)))"

definition controller_output :: "nat \<Rightarrow> byte list \<Rightarrow> world \<Rightarrow> world run" where
  "controller_output k bs w = (let (mem, w1) = next_alloc w in on_ctl k (output_data mem bs) w1)"

definition output_text :: "nat \<Rightarrow> string \<Rightarrow> world \<Rightarrow> world run" where
  "output_text k s = controller_output k (map char_byte s)"

fun output_texts :: "nat \<Rightarrow> string list \<Rightarrow> world \<Rightarrow> world run" where
  "output_texts k [] w = Some (Inr w)"
| "output_texts k (s # ss) w = bind_run (output_text k s w) (output_texts k ss)"

section \<open>Closing\<close>

text \<open>\<^verbatim>\<open>data_monitor_stop\<close>: the port may be gone.\<close>

definition data_monitor_stop :: "nat \<Rightarrow> server \<Rightarrow> server run" where
  "data_monitor_stop p = set_port p (\<lambda>c. c\<lparr>tcp_monitor := No_monitor, dev_monitor := No_monitor\<rparr>)"

definition stop_monitor :: "nat \<Rightarrow> world \<Rightarrow> world run" where
  "stop_monitor k w =
     bind_run (Some (load_ctl k w)) (\<lambda>td.
     case monitor_port_id (cb_data td) of
       None \<Rightarrow> Some (Inr w)
     | Some p \<Rightarrow>
         bind_run (on_srv (data_monitor_stop p) w) (\<lambda>w1. on_ctl k (\<lambda>c. Inr (c\<lparr>monitor_port_id := None\<rparr>)) w1))"

definition shutdown_controller :: "nat \<Rightarrow> world \<Rightarrow> world run" where
  "shutdown_controller k w =
     bind_run (stop_monitor k w) (\<lambda>w1.
     bind_run (on_ctl k (\<lambda>c. c_with_sel (\<lambda>s. sel_clear_fd_handlers s (c_tcpfd c)) c) w1) (\<lambda>w2.
     Some (Inr (w2\<lparr>
       controllers := remove1 k (controllers w2),
       num_controller_ports := num_controller_ports w2 - (if k \<in> set (controllers w2) then 1 else 0),
       ctls := (ctls w2)(k := None)\<rparr>))))"

section \<open>Writing\<close>

text \<open>\<open>w1\<close> and \<open>w2\<close> are the results of the two calls of \<^verbatim>\<open>write\<close>.\<close>

definition write_commands :: "write_result \<Rightarrow> controller \<Rightarrow> (bool option \<times> controller) res" where
  "write_commands wr td =
     (if out_telnet_cmd_size td = 0 then Inr (None, td)
      else
        case wr of
          Write_failed err \<Rightarrow>
            Inr (if err = EINTR then Some True else if err = EAGAIN then None else Some False, td)
        | Written n \<Rightarrow>
            bind_res (from_buf (out_telnet_cmd td) 0 (int (out_telnet_cmd_size td))) (\<lambda>bs.
            let sent = take n bs; left = out_telnet_cmd_size td - length sent in
            Inr (if left \<noteq> 0 then Some True else None,
              td\<lparr>out_telnet_cmd := copy_down (length sent) left (out_telnet_cmd td), out_telnet_cmd_size := left,
                 cb_data := (cb_data td)\<lparr>c_cmd_out := c_cmd_out (cb_data td) @ sent\<rparr>\<rparr>)))"

text \<open>Writing nothing reads no memory; then the buffer may be missing.\<close>

definition flush_data :: "write_result \<Rightarrow> ctrl \<Rightarrow> (bool \<times> ctrl) res" where
  "flush_data wr c =
     (case wr of
        Write_failed err \<Rightarrow> Inr (err = EAGAIN, c)
      | Written n \<Rightarrow>
          bind_res
            (case outbuf c of
               None \<Rightarrow> if outbuf_count c = 0 then Inr [] else Inl Null_pointer
             | Some buf \<Rightarrow> from_buf buf (nat (outbuf_pos c)) (outbuf_count c)) (\<lambda>bs.
          let sent = take n bs;
              c1 = c\<lparr>outbuf_count := outbuf_count c - int (length sent), c_out := c_out c @ sent\<rparr> in
          if outbuf_count c1 \<noteq> 0 then Inr (True, c1\<lparr>outbuf_pos := outbuf_pos c1 + int (length sent)\<rparr>)
          else bind_res (read_on (c1\<lparr>outbuf := None\<rparr>)) (\<lambda>c2. Inr (True, c2))))"

text \<open>\<open>Some True\<close> leaves the handler, \<open>Some False\<close> closes the connection.\<close>

definition controller_fd_write :: "write_result \<Rightarrow> write_result \<Rightarrow> nat \<Rightarrow> world \<Rightarrow> world run" where
  "controller_fd_write w1 w2 k w =
     bind_run (with_ctl k (write_commands w1) w) (\<lambda>(how, wa).
     case how of
       Some True \<Rightarrow> Some (Inr wa)
     | Some False \<Rightarrow> shutdown_controller k wa
     | None \<Rightarrow>
         bind_run (with_ctl k (\<lambda>td. bind_res (flush_data w2 (cb_data td)) (\<lambda>(ok, c). Inr (ok, td\<lparr>cb_data := c\<rparr>))) wa) (\<lambda>(ok, wb).
         if ok then Some (Inr wb) else shutdown_controller k wb))"

definition controller_fd_except :: "nat \<Rightarrow> world \<Rightarrow> world run" where
  "controller_fd_except k w = shutdown_controller k w"

section \<open>Opening\<close>

definition controller_output_ready :: "controller \<Rightarrow> controller res" where
  "controller_output_ready td = bind_res (read_off (cb_data td)) (\<lambda>c. Inr (td\<lparr>cb_data := c\<rparr>))"

text \<open>No option of the table has a handler.\<close>

definition controller_callbacks :: "ctrl callbacks" where
  "controller_callbacks = \<lparr>output_ready = controller_output_ready, cmd_handler = (\<lambda>td cmd. Inr td),
     call_option = (\<lambda>o' td bs n. Inl Null_pointer), call_will = (\<lambda>o' td. Inl Null_pointer)\<rparr>"

text \<open>The block that \<^verbatim>\<open>malloc\<close> returns, the descriptor from \<^verbatim>\<open>accept\<close> or -1, whether the host has access
  and whether the descriptor can be made non-blocking.\<close>

record accept_env =
  ctl_block :: "(nat \<times> controller) option"
  ctl_fd :: int
  access_ok :: bool
  fcntl_done :: bool

definition accept_controller :: "accept_env \<Rightarrow> world \<Rightarrow> world run" where
  "accept_controller n w =
     (if max_controller_ports \<le> num_controller_ports w then Some (Inr w)
      else
        case ctl_block n of
          None \<Rightarrow> Some (Inr w)
        | Some (k, blk) \<Rightarrow>
            if ctl_fd n = -1 \<or> \<not> access_ok n \<or> \<not> fcntl_done n then Some (Inr w)
            else
              let c = (cb_data blk)\<lparr>c_tcpfd := ctl_fd n, inbuf_count := 0, outbuf := None, monitor_port_id := None,
                        c_sel := gsel (srv w)\<rparr> in
              bind_run (Some (c_with_sel (\<lambda>s. sel_set_fd_handlers s (ctl_fd n) (Some k) (Some Controller_tcp_fd_read)
                (Some Controller_tcp_fd_write) (Some Controller_tcp_fd_except)) c)) (\<lambda>c1.
              bind_run (Some (telnet_init controller_callbacks blk c1 (ctl_cmds w) controller_init_seq)) (\<lambda>td.
              bind_run (output_text k prompt (store_ctl k td (w\<lparr>controllers := k # controllers w\<rparr>))) (\<lambda>w1.
              Some (Inr (w1\<lparr>num_controller_ports := num_controller_ports w1 + 1\<rparr>))))))"

end
