(* ===== verification/Control_Commands.thy ===== *)
theory Control_Commands
  imports Controller
begin

text \<open>
  The commands of the control port: showing and changing ports (the end of \<^verbatim>\<open>dataxfer.c\<close> and of
  \<^verbatim>\<open>devcfg.c\<close>) and the interpretation of a line (\<^verbatim>\<open>process_input_line\<close> of \<^verbatim>\<open>controller.c\<close>).
\<close>

section \<open>Text\<close>

definition newline :: string where "newline = [CHR 0x0A, CHR 0x0D]"

text \<open>The formats \<^verbatim>\<open>%-ns\<close> and \<^verbatim>\<open>%ns\<close>.\<close>

definition pad_right :: "nat \<Rightarrow> string \<Rightarrow> string" where
  "pad_right n s = s @ replicate (n - length s) (CHR '' '')"

definition pad_left :: "nat \<Rightarrow> string \<Rightarrow> string" where
  "pad_left n s = replicate (n - length s) (CHR '' '') @ s"

fun enabled_str :: "port_mode \<Rightarrow> string" where
  "enabled_str PORT_DISABLED = ''off''"
| "enabled_str PORT_RAW = ''raw''"
| "enabled_str PORT_RAWLP = ''rawlp''"
| "enabled_str PORT_TELNET = ''telnet''"

fun state_str :: "port_state \<Rightarrow> string" where
  "state_str PORT_UNCONNECTED = ''unconnected''"
| "state_str PORT_WAITING_INPUT = ''waiting input''"
| "state_str PORT_WAITING_OUTPUT_CLEAR = ''waiting output''"

text \<open>What the program is given: the operating system, what opening a port finds, the text of the
  address and the number of the last peer of a port, and its version.\<close>

record control_env =
  os :: os_env
  startup :: startup_env
  peer :: "nat \<Rightarrow> string \<times> 16 word"
  VERSION :: string

section \<open>Showing the device\<close>

definition show_devcfg_pieces :: "(int \<Rightarrow> int) \<Rightarrow> termios \<Rightarrow> string list" where
  "show_devcfg_pieces B t =
     [baud_string B (c_ospeed t), '' ''] @
     (if ixon t \<and> ixoff t \<and> ixany t then [''XONXOFF ''] else []) @
     (if crtscts t then [''RTSCTS ''] else []) @
     (if clocal t then [''LOCAL ''] else []) @
     (if hupcl t then [''HANGUP_WHEN_DONE ''] else []) @
     [if cstopb t then ''2STOPBITS'' else ''1STOPBIT'', '' '',
      case c_size t of CS7 \<Rightarrow> ''7DATABITS'' | CS8 \<Rightarrow> ''8DATABITS'' | _ \<Rightarrow> ''unknown databits'', '' '',
      if parenb t then (if parodd t then ''ODD'' else ''EVEN'') else ''NONE'']"

lemma show_devcfg_pieces: "concat (show_devcfg_pieces B t) = show_devcfg B t"
  by (simp add: show_devcfg_pieces_def show_devcfg_def)

text \<open>When the lines cannot be read \<^verbatim>\<open>status\<close> has no value.\<close>

definition show_devcontrol :: "modem_lines option \<Rightarrow> string list res" where
  "show_devcontrol m =
     (case m of
        None \<Rightarrow> Inl Uninitialised
      | Some l \<Rightarrow> Inr [if m_rts l then ''RTSHI'' else ''RTSLO'', '' '', if m_dtr l then ''DTRHI'' else ''DTRLO'', '' ''])"

definition control_token :: "string \<Rightarrow> (modem_lines \<Rightarrow> modem_lines) option" where
  "control_token p =
     map_of [(''RTSHI'', \<lambda>l. l\<lparr>m_rts := True\<rparr>), (''RTSLO'', \<lambda>l. l\<lparr>m_rts := False\<rparr>),
       (''DTRHI'', \<lambda>l. l\<lparr>m_dtr := True\<rparr>), (''DTRLO'', \<lambda>l. l\<lparr>m_dtr := False\<rparr>)] p"

fun control_tokens :: "string list \<Rightarrow> modem_lines option \<Rightarrow> (bool \<times> modem_lines option) res" where
  "control_tokens [] m = Inr (True, m)"
| "control_tokens (p # ps) m =
     (case control_token p of
        None \<Rightarrow> Inr (False, m)
      | Some f \<Rightarrow> (case m of None \<Rightarrow> Inl Uninitialised | Some l \<Rightarrow> control_tokens ps (Some (f l))))"

definition setdevcontrol :: "bool \<Rightarrow> string \<Rightarrow> modem_lines option \<Rightarrow> (bool \<times> modem_lines option) res" where
  "setdevcontrol mem instr m = (if \<not> mem then Inr (False, m) else control_tokens (tokens ('' '' @ [CHR 0x09]) instr) m)"

section \<open>Showing ports\<close>

text \<open>A text with its NUL in a buffer of \<open>n\<close> bytes.\<close>

definition sprintf :: "nat \<Rightarrow> string \<Rightarrow> string res" where
  "sprintf n s = (if length s < n then Inr s else Inl Buffer_overflow)"

definition word_str :: "32 word \<Rightarrow> string" where
  "word_str x = show_int (sint x)"

definition showshortport_pieces :: "control_env \<Rightarrow> nat \<Rightarrow> conn \<Rightarrow> string list res" where
  "showshortport_pieces e p c =
     (let (addr, num) = peer e p; numtext = '','' @ show_nat (unat num) @ '' '' in
      bind_res (if tcp_to_dev_state c \<noteq> PORT_UNCONNECTED then show_devcontrol (modem (outs c)) else Inr []) (\<lambda>ctl.
      Inr
        ([take 22 (pad_right 22 (portname c)), '' '' @ pad_right 6 (enabled_str (enabled c)) @ '' '',
          pad_left 7 (show_int (port_timeout c)) @ '' '', addr, numtext] @
         replicate (23 - (length addr + length numtext)) '' '' @
         [take 22 (pad_right 22 (devname c)),
          '' '' @ pad_right 14 (state_str (tcp_to_dev_state c)) @ '' '', pad_right 14 (state_str (dev_to_tcp_state c)) @ '' '',
          pad_left 9 (word_str (tcp_bytes_received c)) @ '' '', pad_left 9 (word_str (tcp_bytes_sent c)) @ '' '',
          pad_left 9 (word_str (dev_bytes_received c)) @ '' '', pad_left 9 (word_str (dev_bytes_sent c)) @ '' ''] @
         (if enabled c \<noteq> PORT_RAWLP then show_devcfg_pieces (speed_code (os e)) (termctl (dinfo c)) else []) @
         (if tcp_to_dev_state c \<noteq> PORT_UNCONNECTED \<and> enabled c \<noteq> PORT_RAWLP then ['' ''] else []) @
         ctl @ [newline])))"

definition showport_pieces :: "control_env \<Rightarrow> nat \<Rightarrow> conn \<Rightarrow> string list res" where
  "showport_pieces e p c =
     (let (addr, num) = peer e p in
      bind_res (sprintf 128 (portname c)) (\<lambda>name.
      bind_res
        (if tcp_to_dev_state c = PORT_UNCONNECTED then Inr [''not currently connected'' @ newline]
         else bind_res (show_devcontrol (modem (outs c))) (\<lambda>ctl. Inr (ctl @ [newline]))) (\<lambda>ctl.
      Inr
        ([''TCP Port '', name, newline,
          ''  enable state: '', enabled_str (enabled c), newline,
          ''  timeout: '', show_int (port_timeout c), newline,
          ''  connected to (or last connection): '', addr, '':'', show_nat (unat num), newline,
          ''  device: '', devname c, newline,
          ''  device config: ''] @
         (if enabled c = PORT_RAWLP then [''none'' @ newline]
          else show_devcfg_pieces (speed_code (os e)) (termctl (dinfo c)) @ [newline]) @
         [''  device controls: ''] @ ctl @
         [''  tcp to device state: '', state_str (tcp_to_dev_state c), newline,
          ''  device to tcp state: '', state_str (dev_to_tcp_state c), newline,
          ''  bytes read from TCP: '', word_str (tcp_bytes_received c), newline,
          ''  bytes written to TCP: '', word_str (tcp_bytes_sent c), newline,
          ''  bytes read from device: '', word_str (dev_bytes_received c), newline,
          ''  bytes written to device: '', word_str (dev_bytes_sent c), newline] @
         (if config_num c = -1 then [''  Port will be deleted when current session closes.'' @ newline]
          else if new_config c \<noteq> None then [''  Port will be reconfigured when current session closes.'' @ newline]
          else [])))))"

text \<open>Showing one port; looking at a port does not change it.\<close>

definition show_one ::
  "(control_env \<Rightarrow> nat \<Rightarrow> conn \<Rightarrow> string list res) \<Rightarrow> control_env \<Rightarrow> nat \<Rightarrow> nat \<Rightarrow> world \<Rightarrow> world run" where
  "show_one f e k p w =
     bind_run (port_conn p (srv w)) (\<lambda>c. bind_run (Some (f e p c)) (\<lambda>ss. output_texts k ss w))"

fun show_list ::
  "(control_env \<Rightarrow> nat \<Rightarrow> conn \<Rightarrow> string list res) \<Rightarrow> control_env \<Rightarrow> nat \<Rightarrow> nat list \<Rightarrow> world \<Rightarrow> world run" where
  "show_list f e k [] w = Some (Inr w)"
| "show_list f e k (p # ps) w = bind_run (show_one f e k p w) (show_list f e k ps)"

text \<open>The port with a given name, or a message.\<close>

definition find_or_complain :: "nat \<Rightarrow> string \<Rightarrow> (nat \<Rightarrow> world \<Rightarrow> world run) \<Rightarrow> world \<Rightarrow> world run" where
  "find_or_complain k portspec f w =
     bind_run (find_port_by_num portspec (srv w)) (\<lambda>found.
     case found of
       None \<Rightarrow> output_texts k [''Invalid port number: '', portspec, newline] w
     | Some p \<Rightarrow> f p w)"

definition show_spec ::
  "(control_env \<Rightarrow> nat \<Rightarrow> conn \<Rightarrow> string list res) \<Rightarrow> control_env \<Rightarrow> nat \<Rightarrow> string option \<Rightarrow> world \<Rightarrow> world run" where
  "show_spec f e k portspec w =
     (case portspec of
        None \<Rightarrow> show_list f e k (port_list (srv w)) w
      | Some s \<Rightarrow> find_or_complain k s (show_one f e k) w)"

definition showports :: "control_env \<Rightarrow> nat \<Rightarrow> string option \<Rightarrow> world \<Rightarrow> world run" where
  "showports e k portspec = show_spec showport_pieces e k portspec"

definition short_header :: string where
  "short_header = pad_right 22 ''Port name'' @ '' '' @ pad_right 6 ''Type'' @ '' '' @ pad_left 7 ''Timeout'' @ '' '' @
     pad_right 22 ''Remote address'' @ '' '' @ pad_right 22 ''Device'' @ '' '' @ pad_right 14 ''TCP to device'' @ '' '' @
     pad_right 14 ''Device to TCP'' @ '' '' @ pad_left 9 ''TCP in'' @ '' '' @ pad_left 9 ''TCP out'' @ '' '' @
     pad_left 9 ''Dev in'' @ '' '' @ pad_left 9 ''Dev out'' @ '' '' @ ''State'' @ newline"

definition showshortports :: "control_env \<Rightarrow> nat \<Rightarrow> string option \<Rightarrow> world \<Rightarrow> world run" where
  "showshortports e k portspec w =
     bind_run (output_text k short_header w) (show_spec showshortport_pieces e k portspec)"

section \<open>Changing ports\<close>

definition setporttimeout :: "nat \<Rightarrow> string \<Rightarrow> string \<Rightarrow> world \<Rightarrow> world run" where
  "setporttimeout k portspec tmo =
     find_or_complain k portspec (\<lambda>p w.
       bind_run (Some (scan_int tmo)) (\<lambda>v.
       if v = -1 then output_texts k [''Invalid timeout: '', tmo, newline] w
       else on_srv (set_port p (\<lambda>c.
         let c = c\<lparr>port_timeout := v\<rparr> in if tcpfd c \<noteq> -1 then reset_timer c else c)) w))"

definition setportdevcfg :: "control_env \<Rightarrow> nat \<Rightarrow> string \<Rightarrow> string \<Rightarrow> world \<Rightarrow> world run" where
  "setportdevcfg e k portspec devcfg =
     find_or_complain k portspec (\<lambda>p w.
       let (mem, w) = next_alloc w in
       bind_run (port_conn p (srv w)) (\<lambda>c.
       let (ok, d) = devconfig mem (speed_code (os e)) (banners (rdr w)) (tracefiles (rdr w)) devcfg (dinfo c) in
       bind_run (on_srv (set_port p (\<lambda>c. c\<lparr>dinfo := d\<rparr>)) w) (\<lambda>w1.
       if ok then Some (Inr w1) else output_text k (''Invalid device config'' @ newline) w1)))"

definition setportcontrol :: "nat \<Rightarrow> string \<Rightarrow> string \<Rightarrow> world \<Rightarrow> world run" where
  "setportcontrol k portspec controls =
     find_or_complain k portspec (\<lambda>p w.
       bind_run (port_conn p (srv w)) (\<lambda>c.
       if tcp_to_dev_state c = PORT_UNCONNECTED then
         output_texts k [''Port is not currently connected: '', portspec, newline] w
       else
         let (mem, w) = next_alloc w in
         bind_run (Some (setdevcontrol mem controls (modem (outs c)))) (\<lambda>(ok, m).
         bind_run (on_srv (set_port p (upd_outs (\<lambda>o'. o'\<lparr>modem := m\<rparr>))) w) (\<lambda>w1.
         if ok then Some (Inr w1) else output_text k (''Invalid device controls'' @ newline) w1))))"

definition setportenable :: "control_env \<Rightarrow> nat \<Rightarrow> string \<Rightarrow> string \<Rightarrow> world \<Rightarrow> world run" where
  "setportenable e k portspec enable =
     find_or_complain k portspec (\<lambda>p w.
       case port_mode_of enable of
         None \<Rightarrow> output_texts k [''Invalid enable: '', enable, newline] w
       | Some m \<Rightarrow>
           bind_run (change_port_state (os e) (startup e) p m (srv w)) (\<lambda>(rv, sv).
           case rv of
             None \<Rightarrow> Some (Inr (set_srv sv w))
           | Some err \<Rightarrow> output_texts k [err, newline] (set_srv sv w)))"

text \<open>The result is the port that is monitored.\<close>

definition data_monitor_start :: "nat \<Rightarrow> string \<Rightarrow> string \<Rightarrow> world \<Rightarrow> (nat option \<times> world) run" where
  "data_monitor_start k type portspec w =
     (let failed = \<lambda>ss w. bind_run (output_texts k ss w) (\<lambda>w1. Some (Inr (None, w1))) in
      bind_run (find_port_by_num portspec (srv w)) (\<lambda>found.
      case found of
        None \<Rightarrow> failed [''Invalid port number: '', portspec, newline] w
      | Some p \<Rightarrow>
          bind_run (port_conn p (srv w)) (\<lambda>c.
          if tcp_monitor c \<noteq> No_monitor \<or> dev_monitor c \<noteq> No_monitor then failed [''Port is already being monitored'', newline] w
          else if type = ''tcp'' then
            bind_run (on_srv (set_port p (\<lambda>c. c\<lparr>tcp_monitor := Monitored_by k\<rparr>)) w) (\<lambda>w1. Some (Inr (Some p, w1)))
          else if type = ''term'' then
            bind_run (on_srv (set_port p (\<lambda>c. c\<lparr>dev_monitor := Monitored_by k\<rparr>)) w) (\<lambda>w1. Some (Inr (Some p, w1)))
          else failed [''invalid monitor type: '', type, newline] w)))"

definition disconnect_port :: "control_env \<Rightarrow> nat \<Rightarrow> string \<Rightarrow> world \<Rightarrow> world run" where
  "disconnect_port e k portspec =
     find_or_complain k portspec (\<lambda>p w.
       bind_run (port_conn p (srv w)) (\<lambda>c.
       if tcp_to_dev_state c = PORT_UNCONNECTED then
         output_texts k [''Port not connected: '', portspec, newline] w
       else on_srv (run_handler (os e) (startup e) p shutdown_port) w))"

section \<open>Lines\<close>

definition help_str :: string where
  "help_str = concat (map (\<lambda>l. l @ newline) [
     ''exit - leave the program.'',
     ''help - display this help.'',
     ''version - display the version of this program.'',
     ''monitor <type> <tcp port> - display all the input for a given port on'',
     ''       the calling control port.  Only one direction may be monitored'',
     ''       at a time.  The type field may be 'tcp' or 'term' and specifies'',
     ''       whether to monitor data from the TCP port or from the serial port'',
     ''       Note that data monitoring is best effort, if the controller port'',
     ''       cannot keep up the data will be silently dropped.  A controller'',
     ''       may only monitor one thing and a port may only be monitored by'',
     ''       one controller.'',
     ''monitor stop - stop the current monitor.'',
     ''disconnect <tcp port> - disconnect the tcp connection on the port.'',
     ''showport [<tcp port>] - Show information about a port. If no port is'',
     ''       given, all ports are displayed.'',
     ''showshortport [<tcp port>] - Show information about a port in a one-line'',
     ''       format. If no port is given, all ports are displayed.'',
     ''setporttimeout <tcp port> <timeout> - Set the amount of time in seconds'',
     ''       before the port connection will be shut down if no activity'',
     ''       has been seen on the port.'',
     ''setportconfig <tcp port> <config> - Set the port configuration as in'',
     ''       the device configuration in the ser2net.conf file.  Valid options'',
     ''       are: 300, 1200, 2400, 4800, 9600, 19200, 38400, 57600, 115200, '',
     ''       EVEN, ODD, NONE, 1STOPBIT, 2STOPBITS, 7DATABITS, 8DATABITS, '',
     ''       LOCAL (ignore modem control), [-]RTSCTS, [-]XONXOFF.'',
     ''       Note that these will not change until the port is disconnected'',
     ''       and connected again.'',
     ''setportcontrol <tcp port> <controls>'',
     ''       Dynamically modify the characteristics of the port.  These are'',
     ''       immedaite and won't live between connections.  Valid controls are'',
     ''       DTRHI, DTRLO, RTSHI, and RTSLO.'',
     ''setportenable <tcp port> <enable state> - Sets the port operation state.'',
     ''       Valid states are:'',
     ''         off - The TCP port is shut down'',
     ''         raw - The TCP port is up and all I/O is transferred'',
     ''         rawlp - The TCP port is up and the input is transferred to dev'',
     ''         telnet - The TCP port is up and the telnet negotiation protocol'',
     ''                  runs on the port.''])"

definition complain :: "nat \<Rightarrow> string \<Rightarrow> world \<Rightarrow> world run" where
  "complain k err = output_text k (err @ newline)"

text \<open>A command with the name of a port and a second parameter, with the messages when one is missing.\<close>

definition two_parameters ::
  "nat \<Rightarrow> string \<Rightarrow> string \<Rightarrow> string \<Rightarrow> (string \<Rightarrow> string \<Rightarrow> world \<Rightarrow> world run) \<Rightarrow> world \<Rightarrow> world run" where
  "two_parameters k delim missing rest f w =
     (let (tok, rest1) = strtok_r ('' '' @ [CHR 0x09]) rest; (str, _) = strtok_r delim rest1 in
      case tok of
        None \<Rightarrow> complain k ''No port given'' w
      | Some tok \<Rightarrow> (case str of None \<Rightarrow> complain k missing w | Some str \<Rightarrow> f tok str w))"

definition monitor_command :: "nat \<Rightarrow> string \<Rightarrow> world \<Rightarrow> world run" where
  "monitor_command k rest w =
     (let blanks = '' '' @ [CHR 0x09]; (tok, rest1) = strtok_r blanks rest in
      case tok of
        None \<Rightarrow> complain k ''No monitor type given'' w
      | Some tok \<Rightarrow>
          if tok = ''stop'' then stop_monitor k w
          else
            bind_run (Some (load_ctl k w)) (\<lambda>td.
            if monitor_port_id (cb_data td) \<noteq> None then complain k ''Already monitoring a port'' w
            else
              case fst (strtok_r blanks rest1) of
                None \<Rightarrow> complain k ''No tcp port given'' w
              | Some str \<Rightarrow>
                  bind_run (data_monitor_start k tok str w) (\<lambda>(p, w1).
                  on_ctl k (\<lambda>c. Inr (c\<lparr>monitor_port_id := p\<rparr>)) w1)))"

text \<open>A line is processed; after \<^verbatim>\<open>exit\<close> and \<^verbatim>\<open>quit\<close> there is no prompt.\<close>

definition process_input_line :: "control_env \<Rightarrow> nat \<Rightarrow> string \<Rightarrow> world \<Rightarrow> world run" where
  "process_input_line e k line w =
     (let blanks = '' '' @ [CHR 0x09]; (tok, rest) = strtok_r blanks line;
          with_prompt = (\<lambda>r. bind_run r (output_text k prompt)) in
      case tok of
        None \<Rightarrow> output_text k prompt w
      | Some tok \<Rightarrow>
          if tok = ''exit'' \<or> tok = ''quit'' then shutdown_controller k w
          else with_prompt
            (if tok = ''help'' then output_text k help_str w
             else if tok = ''version'' then output_texts k [''ser2net version '', VERSION e, newline] w
             else if tok = ''showport'' then showports e k (fst (strtok_r blanks rest)) w
             else if tok = ''showshortport'' then showshortports e k (fst (strtok_r blanks rest)) w
             else if tok = ''monitor'' then monitor_command k rest w
             else if tok = ''disconnect'' then
               (case fst (strtok_r blanks rest) of
                  None \<Rightarrow> complain k ''No port given'' w
                | Some s \<Rightarrow> disconnect_port e k s w)
             else if tok = ''setporttimeout'' then two_parameters k blanks ''No timeout given'' rest (setporttimeout k) w
             else if tok = ''setportenable'' then two_parameters k blanks ''No timeout given'' rest (setportenable e k) w
             else if tok = ''setportconfig'' then two_parameters k '''' ''No device config'' rest (setportdevcfg e k) w
             else if tok = ''setportcontrol'' then two_parameters k '''' ''No device controls'' rest (setportcontrol k) w
             else output_texts k [''Unknown command: '', tok, newline] w))"

end
