(* ===== verification/Controller_Read.thy ===== *)
theory Controller_Read
  imports Control_Commands
begin

text \<open>
  Reading from a control connection (\<^verbatim>\<open>handle_tcp_fd_read\<close> of \<^verbatim>\<open>controller.c\<close>): telnet commands are
  removed, and the rest is edited in the input buffer, echoed and processed line by line.
\<close>

section \<open>Editing the input buffer\<close>

definition remove_chars :: "byte list \<Rightarrow> int \<Rightarrow> int \<Rightarrow> int \<Rightarrow> byte list" where
  "remove_chars buf cnt ps count =
     fold (\<lambda>j b. b[nat j := b ! nat (j + count)]) [ps - count + 1..cnt - count - 1] buf"

text \<open>The bytes behind a processed line are copied to the front.\<close>

definition drop_line :: "byte list \<Rightarrow> int \<Rightarrow> int \<Rightarrow> byte list" where
  "drop_line buf cnt i = fold (\<lambda>j b. b[nat j := b ! nat (i + 1 + j)]) [0..cnt - (i + 1) - 1] buf"

text \<open>The C string at the start of the buffer; without a NUL it does not end inside it.\<close>

definition c_line :: "byte list \<Rightarrow> string res" where
  "c_line buf = (if 0 \<in> set buf then Inr (map (\<lambda>b. char_of (unat b)) (takeWhile (\<lambda>b. b \<noteq> 0) buf)) else Inl Out_of_bounds)"

text \<open>The loop from index \<open>i\<close>; the buffer and its count belong to the connection, which must be
  there still when they are used again after a line.\<close>

function edit_loop ::
  "control_env \<Rightarrow> nat \<Rightarrow> byte list \<Rightarrow> int \<Rightarrow> int \<Rightarrow> world \<Rightarrow> (byte list \<times> int \<times> world) run" where
  "edit_loop e k buf cnt i w =
     (if cnt \<le> i then Some (Inr (buf, cnt, w))
      else if i < 0 \<or> int (length buf) \<le> i then Some (Inl Out_of_bounds)
      else
        let b = buf ! nat i in
        if b = 0 \<or> b = 10 then edit_loop e k (remove_chars buf cnt i 1) (cnt - 1) i w
        else if b = 8 \<or> b = 0x7F then
          (if i = 0 then edit_loop e k (remove_chars buf cnt i 1) (cnt - 1) i w
           else
             bind_run (controller_output k [8, 32, 8] w) (\<lambda>w1.
             edit_loop e k (remove_chars buf cnt i 2) (cnt - 2) (i - 1) w1))
        else if b = 13 then
          bind_run (output_text k newline w) (\<lambda>w1.
          let buf1 = buf[nat i := 0] in
          bind_run (Some (c_line buf1)) (\<lambda>line.
          bind_run (process_input_line e k line w1) (\<lambda>w2.
          if ctls w2 k = None then Some (Inl Dangling_pointer)
          else edit_loop e k (drop_line buf1 cnt i) (cnt - (i + 1)) 0 w2)))
        else bind_run (controller_output k [b] w) (\<lambda>w1. edit_loop e k buf cnt (i + 1) w1))"
  by pat_completeness auto
termination
  by (relation "measure (\<lambda>(e, k, buf, cnt, i, w). nat (cnt - i))") auto

declare edit_loop.simps [simp del]

section \<open>The handler\<close>

text \<open>\<^verbatim>\<open>EINTR\<close> and \<^verbatim>\<open>EAGAIN\<close> are ignored.\<close>

datatype ctl_read = Ctl_bytes "byte list" | Ctl_retry | Ctl_failed

definition controller_fd_read :: "control_env \<Rightarrow> ctl_read \<Rightarrow> nat \<Rightarrow> world \<Rightarrow> world run" where
  "controller_fd_read e r k w =
     bind_run (Some (load_ctl k w)) (\<lambda>td.
     let c = cb_data td; start = inbuf_count c in
     if start = int INBUF_SIZE then
       bind_run (output_text k (''Input line too long'' @ newline) w) (\<lambda>w1.
       on_ctl k (\<lambda>c. Inr (c\<lparr>inbuf_count := 0\<rparr>)) w1)
     else
       case r of
         Ctl_retry \<Rightarrow> Some (Inr w)
       | Ctl_failed \<Rightarrow> shutdown_controller k w
       | Ctl_bytes bs \<Rightarrow>
           let got = take (INBUF_SIZE - nat start) bs in
           if got = [] then shutdown_controller k w
           else
             bind_run (Some (write_at (nat start) got (inbuf c))) (\<lambda>buf.
             bind_run (Some (process_telnet_data controller_callbacks (drop (nat start) buf) (length got) td)) (\<lambda>(rest, n, td1).
             let buf1 = take (nat start) buf @ rest; w1 = store_ctl k (upd_ctrl (\<lambda>c. c\<lparr>inbuf := buf1\<rparr>) td1) w in
             if error td1 then shutdown_controller k w1
             else
               bind_run (edit_loop e k buf1 (start + int n) start w1) (\<lambda>(buf2, cnt, w2).
               on_ctl k (\<lambda>c. Inr (c\<lparr>inbuf := buf2, inbuf_count := cnt\<rparr>)) w2))))"

end
