(* ===== verification/Server_Props.thy ===== *)
theory Server_Props
  imports Server Port_Session
begin

text \<open>What starting, freeing, configuring and clearing ports does to the list of ports.\<close>

section \<open>Access to ports\<close>

definition conn_of :: "server \<Rightarrow> nat \<Rightarrow> conn" where
  "conn_of sv p = cb_data (the (objs sv p))"

definition fresh_view :: "server \<Rightarrow> port \<Rightarrow> port" where
  "fresh_view sv td = td\<lparr>cb_data := (cb_data td)\<lparr>sel := gsel sv, after_shutdown := Nothing\<rparr>, cmds := cmd_table sv\<rparr>"

lemma port_conn_Some [simp]:
  "objs sv p = Some td \<Longrightarrow> port_conn p sv = Some (Inr ((cb_data td)\<lparr>sel := gsel sv, after_shutdown := Nothing\<rparr>))"
  by (simp add: port_conn_def load_def)

lemma with_port_Some:
  "objs sv p = Some td \<Longrightarrow> with_port p f sv = bind_run (f (fresh_view sv td)) (\<lambda>(x, td'). Some (Inr (x, store p td' sv)))"
  by (simp add: with_port_def load_def fresh_view_def)

lemma set_port_Some:
  "objs sv p = Some td \<Longrightarrow> set_port p f sv = Some (Inr (store p (upd_conn f (fresh_view sv td)) sv))"
  by (simp add: set_port_def on_port_def with_port_Some)

text \<open>Assignments that leave the selector alone.\<close>

lemma store_fields [simp]:
  "port_list (store p td sv) = port_list sv" "objs (store p td sv) = (objs sv)(p \<mapsto> td)"
  "gsel (store p td sv) = sel (cb_data td)" "cmd_table (store p td sv) = cmds td"
  by (simp_all add: store_def)

lemma fresh_view_fields [simp]:
  "cb_data (fresh_view sv td) = (cb_data td)\<lparr>sel := gsel sv, after_shutdown := Nothing\<rparr>" "cmds (fresh_view sv td) = cmd_table sv"
  by (simp_all add: fresh_view_def)

section \<open>Freeing\<close>

text \<open>A port can be closed: its timer does not run, and its descriptor is valid or there is none.\<close>

definition closable :: "(registered, nat) selector \<Rightarrow> conn \<Rightarrow> bool" where
  "closable s c \<longleftrightarrow> \<not> in_heap (timers s (timer c)) \<and> (acceptfd c = -1 \<or> fd_ok (acceptfd c))"

text \<open>Selectors that have the same timers and differ in some descriptors only.\<close>

definition same_but :: "nat set \<Rightarrow> (registered, nat) selector \<Rightarrow> (registered, nat) selector \<Rightarrow> bool" where
  "same_but F s s' \<longleftrightarrow> timers s' = timers s \<and> length (fds s') = length (fds s) \<and>
     (\<forall>i. i \<notin> F \<longrightarrow> fds s' ! i = fds s ! i \<and> (i \<in> read_set s' \<longleftrightarrow> i \<in> read_set s) \<and> (i \<in> write_set s' \<longleftrightarrow> i \<in> write_set s))"

text \<open>The descriptors on which a port listens.\<close>

definition listens :: "conn \<Rightarrow> nat set" where
  "listens c = (if enabled c = PORT_DISABLED \<or> acceptfd c = -1 then {} else {nat (acceptfd c)})"

text \<open>What closing a socket does to the selector, and what closing a port does.\<close>

definition unwatch :: "int \<Rightarrow> (registered, nat) selector \<Rightarrow> (registered, nat) selector" where
  "unwatch fd s = (if fd = -1 then s else case sel_clear_fd_handlers s fd of Inl _ \<Rightarrow> s | Inr s' \<Rightarrow> s')"

definition closed_sel :: "conn \<Rightarrow> (registered, nat) selector \<Rightarrow> (registered, nat) selector" where
  "closed_sel c s = (if enabled c = PORT_DISABLED then s else unwatch (acceptfd c) s)"

definition unwatched :: "(registered, nat) selector \<Rightarrow> nat \<Rightarrow> bool" where
  "unwatched s i \<longleftrightarrow> fds s ! i = init_fd \<and> i \<notin> read_set s \<and> i \<notin> write_set s \<and> i \<notin> except_set s"

text \<open>Equal up to what a port sees of the global state.\<close>

definition same_fields :: "conn \<Rightarrow> conn \<Rightarrow> bool" where
  "same_fields c d \<longleftrightarrow> d = c\<lparr>sel := sel d, after_shutdown := after_shutdown d\<rparr>"

lemma same_but_refl [simp]: "same_but F s s"
  by (simp add: same_but_def)

lemma same_but_trans: "same_but F s s1 \<Longrightarrow> same_but G s1 s2 \<Longrightarrow> same_but (F \<union> G) s s2"
  by (simp add: same_but_def)

lemma same_but_mono: "same_but F s s' \<Longrightarrow> F \<subseteq> G \<Longrightarrow> same_but G s s'"
  by (auto simp: same_but_def)

lemma closable_same_but: "same_but F s s' \<Longrightarrow> closable s' c = closable s c"
  by (simp add: closable_def same_but_def)

lemma same_fieldsD:
  assumes "same_fields c d"
  shows "enabled d = enabled c" "acceptfd d = acceptfd c" "new_config d = new_config c" "timer d = timer c"
    "config_num d = config_num c" "dev_to_tcp_state d = dev_to_tcp_state c" "portname d = portname c"
proof -
  obtain s a where d: "d = c\<lparr>sel := s, after_shutdown := a\<rparr>" using assms unfolding same_fields_def by blast
  show "enabled d = enabled c" "acceptfd d = acceptfd c" "new_config d = new_config c" "timer d = timer c"
    "config_num d = config_num c" "dev_to_tcp_state d = dev_to_tcp_state c" "portname d = portname c"
    by (simp_all add: d)
qed

lemma selector_calls:
  assumes "fd_ok fd"
  shows "\<exists>s'. sel_set_fd_handlers s fd d r w x = Inr s' \<and> same_but {nat fd} s s' \<and>
      (nat fd < length (fds s) \<longrightarrow> fds s' ! nat fd = \<lparr>in_use = True, data = d, handle_read = r, handle_write = w, handle_except = x\<rparr>) \<and>
      read_set s' = read_set s"
    and "\<exists>s'. sel_set_fd_read_handler s fd b = Inr s' \<and> same_but {nat fd} s s' \<and> fds s' = fds s \<and>
      read_set s' = change_set b (nat fd) (read_set s)"
    and "\<exists>s'. sel_clear_fd_handlers s fd = Inr s' \<and> same_but {nat fd} s s'"
  using assms
  by (auto simp: sel_set_fd_handlers_def sel_set_fd_read_handler_def sel_clear_fd_handlers_def same_but_def Let_def change_set_def
      split: option.split bool.split)

lemma clear_unread:
  "fd_ok fd \<Longrightarrow> sel_set_fd_read_handler s fd (Some False) = Inr s1 \<Longrightarrow> sel_clear_fd_handlers s1 fd = Inr s2 \<Longrightarrow>
   s2 = unwatch fd s"
  by (auto simp: sel_set_fd_read_handler_def sel_clear_fd_handlers_def unwatch_def change_set_def fd_ok_def Let_def)

lemma unwatch_fields:
  "fds (unwatch fd s) = (if fd_ok fd then (fds s)[nat fd := init_fd] else fds s)"
  "read_set (unwatch fd s) = (if fd_ok fd then read_set s - {nat fd} else read_set s)"
  "write_set (unwatch fd s) = (if fd_ok fd then write_set s - {nat fd} else write_set s)"
  "except_set (unwatch fd s) = (if fd_ok fd then except_set s - {nat fd} else except_set s)"
  by (auto simp: unwatch_def sel_clear_fd_handlers_def fd_ok_def Let_def)

lemma unwatched_closed: "unwatched s i \<Longrightarrow> unwatched (closed_sel c s) i"
  by (cases "nat (acceptfd c) = i"; cases "i < length (fds s)") (auto simp: unwatched_def closed_sel_def unwatch_fields nth_list_update list_update_beyond not_less)

lemma closed_unwatched:
  assumes "closable s' c" and "i \<in> listens c" and "length (fds s) = FD_SETSIZE"
  shows "unwatched (closed_sel c s) i"
  using assms by (auto simp: unwatched_def closed_sel_def unwatch_fields listens_def closable_def fd_ok_def split: if_splits)

lemma closed_length [simp]: "length (fds (closed_sel c s)) = length (fds s)"
  by (simp add: closed_sel_def unwatch_fields)

lemma unwatched_fold: "unwatched s i \<Longrightarrow> unwatched (fold (\<lambda>p. closed_sel (f p)) ps s) i"
  by (induction ps arbitrary: s) (simp_all add: unwatched_closed)

lemma unwatched_all:
  assumes "p \<in> set ps" and "\<forall>q \<in> set ps. closable s' (f q)" and "i \<in> listens (f p)" and "length (fds s) = FD_SETSIZE"
  shows "unwatched (fold (\<lambda>p. closed_sel (f p)) ps s) i"
  using assms
proof (induction ps arbitrary: s)
  case (Cons q ps)
  show ?case
  proof (cases "q = p")
    case True
    with closed_unwatched [of s' "f p" i s] Cons.prems have "unwatched (closed_sel (f q) s) i" by simp
    then show ?thesis by (simp add: unwatched_fold)
  next
    case False
    with Cons show ?thesis by simp
  qed
qed simp

lemma stop_accepting_ok:
  assumes "objs sv p = Some td" and "acceptfd (cb_data td) = fd" and "fd = -1 \<or> fd_ok fd"
  shows "\<exists>td' sv'. stop_accepting p fd sv = Some (Inr sv') \<and> objs sv' = (objs sv)(p \<mapsto> td') \<and>
    cb_data td' = (cb_data td)\<lparr>acceptfd := -1, sel := sel (cb_data td'), after_shutdown := after_shutdown (cb_data td')\<rparr> \<and>
    port_list sv' = port_list sv \<and> cmd_table sv' = cmd_table sv \<and>
    same_but (if fd = -1 then {} else {nat fd}) (gsel sv) (gsel sv') \<and> gsel sv' = unwatch fd (gsel sv)"
proof (cases "fd = -1")
  case True
  with assms show ?thesis by (intro exI [of _ td] exI [of _ sv]) (auto simp: stop_accepting_def unwatch_def)
next
  case False
  then have fd: "fd_ok fd" using assms(3) by simp
  obtain s1 where s1: "sel_set_fd_read_handler (gsel sv) fd (Some False) = Inr s1" "same_but {nat fd} (gsel sv) s1"
    using selector_calls(2) [OF fd] by blast
  obtain s2 where s2: "sel_clear_fd_handlers s1 fd = Inr s2" "same_but {nat fd} s1 s2"
    using selector_calls(3) [OF fd] by blast
  have "same_but {nat fd} (gsel sv) s2" "s2 = unwatch fd (gsel sv)"
    using same_but_trans [OF s1(2) s2(2)] clear_unread [OF fd s1(1) s2(1)] by simp_all
  moreover have "stop_accepting p fd sv =
      Some (Inr (store p (upd_conn (\<lambda>c. c\<lparr>acceptfd := -1\<rparr>) (fresh_view (sv\<lparr>gsel := s2\<rparr>) td)) (sv\<lparr>gsel := s2\<rparr>)))"
    using False assms(1) s1(1) s2(1) by (simp add: stop_accepting_def on_sel_def set_port_Some [of _ p td])
  ultimately show ?thesis
    by (intro exI [of _ "upd_conn (\<lambda>c. c\<lparr>acceptfd := -1\<rparr>) (fresh_view (sv\<lparr>gsel := s2\<rparr>) td)"] exI conjI)
      (assumption | simp add: False)+
qed

lemma free_port_step:
  assumes "objs sv p = Some td" and "closable (gsel sv) (cb_data td)"
  shows "\<exists>td' sv2. objs sv2 = (objs sv)(p \<mapsto> td') \<and> port_list sv2 = port_list sv \<and> cmd_table sv2 = cmd_table sv \<and>
    same_but (listens (cb_data td)) (gsel sv) (gsel sv2) \<and> gsel sv2 = closed_sel (cb_data td) (gsel sv) \<and>
    free_port e n p sv =
      bind_run (case new_config (cb_data td) of None \<Rightarrow> Some (Inr sv2) | Some q \<Rightarrow> free_port e n q sv2)
        (\<lambda>sv3. Some (Inr (free_block p sv3)))"
proof -
  have timer: "free_timer t sv = Some (Inr sv)" if "t = timer (cb_data td)" for t
    using assms(2) that by (simp add: free_timer_def sel_free_timer_def closable_def)
  show ?thesis
  proof (cases "enabled (cb_data td) = PORT_DISABLED")
    case True
    with assms timer show ?thesis
      by (intro exI [of _ td] exI [of _ sv], subst free_port.simps)
        (simp add: change_port_state_def fun_upd_idem closed_sel_def)
  next
    case False
    have "acceptfd (cb_data td) = -1 \<or> fd_ok (acceptfd (cb_data td))" using assms(2) by (simp add: closable_def)
    from stop_accepting_ok [OF assms(1) refl this] obtain td' sv' where
      s: "stop_accepting p (acceptfd (cb_data td)) sv = Some (Inr sv')" "objs sv' = (objs sv)(p \<mapsto> td')"
      "cb_data td' = (cb_data td)\<lparr>acceptfd := -1, sel := sel (cb_data td'), after_shutdown := after_shutdown (cb_data td')\<rparr>"
      "port_list sv' = port_list sv" "cmd_table sv' = cmd_table sv"
      "same_but (if acceptfd (cb_data td) = -1 then {} else {nat (acceptfd (cb_data td))}) (gsel sv) (gsel sv')"
      "gsel sv' = unwatch (acceptfd (cb_data td)) (gsel sv)" by blast
    have nc: "new_config (cb_data td') = new_config (cb_data td)" by (subst s(3)) simp
    have p: "objs sv' p = Some td'" by (simp add: s(2))
    define td2 where "td2 = upd_conn (\<lambda>c. c\<lparr>enabled := PORT_DISABLED\<rparr>) (fresh_view sv' td')"
    have "change_port_state e n p PORT_DISABLED sv = Some (Inr (None, store p td2 sv'))"
      using False assms(1) s(1) p by (simp add: change_port_state_def set_port_Some [OF p] td2_def)
    moreover have "new_config (cb_data td2) = new_config (cb_data td)" by (simp add: td2_def nc)
    ultimately have "free_port e n p sv =
        bind_run (case new_config (cb_data td) of None \<Rightarrow> Some (Inr (store p td2 sv')) | Some q \<Rightarrow> free_port e n q (store p td2 sv'))
        (\<lambda>sv3. Some (Inr (free_block p sv3)))"
      using assms(1) timer by (subst free_port.simps) simp
    moreover have "gsel (store p td2 sv') = gsel sv'" "cmds td2 = cmd_table sv'" by (simp_all add: td2_def)
    ultimately show ?thesis using s(2,4-7) False
      by (intro exI [of _ td2] exI [of _ "store p td2 sv'"]) (auto simp: listens_def closed_sel_def)
  qed
qed

lemma free_port_ok:
  assumes "objs sv p = Some td" and "closable (gsel sv) (cb_data td)" and "new_config (cb_data td) = None"
  shows "\<exists>sv'. free_port e n p sv = Some (Inr sv') \<and> objs sv' = (objs sv)(p := None) \<and> port_list sv' = port_list sv \<and>
    cmd_table sv' = cmd_table sv \<and> same_but (listens (cb_data td)) (gsel sv) (gsel sv') \<and>
    gsel sv' = closed_sel (cb_data td) (gsel sv)"
proof -
  obtain td' sv2 where "objs sv2 = (objs sv)(p \<mapsto> td')" "port_list sv2 = port_list sv" "cmd_table sv2 = cmd_table sv"
    "same_but (listens (cb_data td)) (gsel sv) (gsel sv2)" "gsel sv2 = closed_sel (cb_data td) (gsel sv)"
    "free_port e n p sv = Some (Inr (free_block p sv2))"
    using free_port_step [OF assms(1,2), of e n] assms(3) by auto
  then show ?thesis by (simp add: free_block_def)
qed

text \<open>The configurations that wait for a port, one for the other.\<close>

fun pending :: "server \<Rightarrow> nat \<Rightarrow> nat list \<Rightarrow> bool" where
  "pending sv p [] = (case objs sv p of None \<Rightarrow> False | Some td \<Rightarrow> new_config (cb_data td) = None)"
| "pending sv p (q # qs) =
     (case objs sv p of None \<Rightarrow> False | Some td \<Rightarrow> new_config (cb_data td) = Some q \<and> pending sv q qs)"

lemma pending_cong:
  "\<forall>r \<in> set (p # qs). objs sv' r = objs sv r \<Longrightarrow> pending sv' p qs = pending sv p qs"
  by (induction qs arbitrary: p) (auto split: option.split)

lemma free_port_chain:
  assumes "pending sv p qs" and "distinct (p # qs)" and "\<forall>r \<in> set (p # qs). closable (gsel sv) (conn_of sv r)"
  shows "\<exists>sv'. free_port e n p sv = Some (Inr sv') \<and> port_list sv' = port_list sv \<and>
    objs sv' = (\<lambda>r. if r \<in> set (p # qs) then None else objs sv r)"
  using assms
proof (induction qs arbitrary: p sv)
  case Nil
  then obtain td where "objs sv p = Some td" "new_config (cb_data td) = None" by (auto split: option.splits)
  with free_port_ok [of sv p td e n] Nil(3) show ?case by (auto simp: conn_of_def fun_eq_iff)
next
  case (Cons q qs)
  then obtain td where td: "objs sv p = Some td" "new_config (cb_data td) = Some q" "pending sv q qs"
    by (auto split: option.splits)
  moreover have "closable (gsel sv) (cb_data td)" using Cons.prems(3) td(1) by (auto simp: conn_of_def)
  ultimately obtain td' sv2 where s: "objs sv2 = (objs sv)(p \<mapsto> td')" "port_list sv2 = port_list sv"
    "same_but (listens (cb_data td)) (gsel sv) (gsel sv2)"
    "free_port e n p sv = bind_run (free_port e n q sv2) (\<lambda>sv3. Some (Inr (free_block p sv3)))"
    using free_port_step [of sv p td e n] by auto
  have eq: "objs sv2 r = objs sv r" if "r \<in> set (q # qs)" for r using that Cons.prems(2) s(1) by auto
  have "\<forall>r \<in> set (q # qs). closable (gsel sv2) (conn_of sv2 r)"
    using Cons.prems(3) closable_same_but [OF s(3)] eq by (auto simp: conn_of_def)
  moreover have "pending sv2 q qs" using td(3) eq pending_cong [of q qs sv2 sv] by blast
  ultimately obtain sv' where "free_port e n q sv2 = Some (Inr sv')" "port_list sv' = port_list sv2"
    "objs sv' = (\<lambda>r. if r \<in> set (q # qs) then None else objs sv2 r)"
    using Cons.IH [of sv2 q] Cons.prems(2) by auto
  with s show ?case by (auto simp: free_block_def fun_eq_iff)
qed


section \<open>Clearing the old configuration\<close>

text \<open>A port without a connection can be closed, and none waits to be replaced.\<close>

definition idle_ok :: "server \<Rightarrow> nat \<Rightarrow> bool" where
  "idle_ok sv p \<longleftrightarrow> objs sv p \<noteq> None \<and>
     (dev_to_tcp_state (conn_of sv p) = PORT_UNCONNECTED \<longrightarrow>
        closable (gsel sv) (conn_of sv p) \<and> new_config (conn_of sv p) = None)"

definition kept :: "int \<Rightarrow> conn \<Rightarrow> bool" where
  "kept num c \<longleftrightarrow> config_num c = num \<or> dev_to_tcp_state c \<noteq> PORT_UNCONNECTED"

definition marked :: "int \<Rightarrow> conn \<Rightarrow> conn" where
  "marked num c = (if config_num c = num then c else c\<lparr>config_num := -1\<rparr>)"

text \<open>What clearing makes of one port.\<close>

definition cleared :: "int \<Rightarrow> port option \<Rightarrow> port option \<Rightarrow> bool" where
  "cleared num old new \<longleftrightarrow>
     (case old of None \<Rightarrow> new = None
      | Some td \<Rightarrow>
          if kept num (cb_data td) then \<exists>td'. new = Some td' \<and> same_fields (marked num (cb_data td)) (cb_data td')
          else new = None)"

lemma same_fields_refl [simp]: "same_fields c c"
  by (simp add: same_fields_def)

lemma idle_ok_cong:
  assumes "idle_ok sv p" and "objs sv' p = objs sv p" and "same_but F (gsel sv) (gsel sv')"
  shows "idle_ok sv' p"
  using assms closable_same_but [OF assms(3)] by (simp add: idle_ok_def conn_of_def)

lemma clear_one:
  assumes "idle_ok sv p" and "distinct (port_list sv)" and "objs sv p = Some td"
  shows "\<exists>sv1 F. (if config_num (cb_data td) = num then Some (Inr sv)
        else if dev_to_tcp_state (cb_data td) = PORT_UNCONNECTED then free_port e n p (sv\<lparr>port_list := remove1 p (port_list sv)\<rparr>)
        else set_port p (\<lambda>c. c\<lparr>config_num := -1\<rparr>) sv) = Some (Inr sv1) \<and>
      port_list sv1 = filter (\<lambda>q. q = p \<longrightarrow> kept num (cb_data td)) (port_list sv) \<and>
      cleared num (objs sv p) (objs sv1 p) \<and> (\<forall>q. q \<noteq> p \<longrightarrow> objs sv1 q = objs sv q) \<and> same_but F (gsel sv) (gsel sv1) \<and>
      gsel sv1 = (if kept num (cb_data td) then gsel sv else closed_sel (cb_data td) (gsel sv))"
proof -
  consider (same) "config_num (cb_data td) = num"
    | (idle) "config_num (cb_data td) \<noteq> num" "dev_to_tcp_state (cb_data td) = PORT_UNCONNECTED"
    | (busy) "config_num (cb_data td) \<noteq> num" "dev_to_tcp_state (cb_data td) \<noteq> PORT_UNCONNECTED" by blast
  then show ?thesis
  proof cases
    case same
    with assms(3) show ?thesis
      by (intro exI [of _ sv] exI [of _ "{}"]) (auto simp: kept_def marked_def cleared_def intro!: filter_True [symmetric])
  next
    case idle
    let ?sv = "sv\<lparr>port_list := remove1 p (port_list sv)\<rparr>"
    have "closable (gsel ?sv) (cb_data td)" "new_config (cb_data td) = None"
      using assms(1,3) idle(2) by (simp_all add: idle_ok_def conn_of_def)
    with free_port_ok [of ?sv p td e n] assms(3) obtain sv' where
      "free_port e n p ?sv = Some (Inr sv')" "objs sv' = (objs sv)(p := None)" "port_list sv' = remove1 p (port_list sv)"
      "same_but (listens (cb_data td)) (gsel sv) (gsel sv')" "gsel sv' = closed_sel (cb_data td) (gsel sv)" by auto
    moreover have "filter (\<lambda>q. q = p \<longrightarrow> kept num (cb_data td)) (port_list sv) = remove1 p (port_list sv)"
      using idle assms(2) by (simp add: kept_def distinct_remove1_removeAll removeAll_filter_not_eq)
        (metis (no_types, lifting))
    ultimately show ?thesis using idle assms(3)
      by (intro exI [of _ sv'] exI [of _ "listens (cb_data td)"]) (auto simp: kept_def cleared_def)
  next
    case busy
    with assms(3) show ?thesis
      by (intro exI [of _ "store p (upd_conn (\<lambda>c. c\<lparr>config_num := -1\<rparr>) (fresh_view sv td)) sv"] exI [of _ "{}"])
        (auto simp: set_port_Some kept_def marked_def cleared_def same_fields_def intro!: filter_True [symmetric])
  qed
qed

lemma clear_ports_ok:
  assumes "\<forall>p \<in> set ps. idle_ok sv p" and "distinct ps" and "distinct (port_list sv)"
  shows "\<exists>sv'. clear_ports e n num ps sv = Some (Inr sv') \<and>
    port_list sv' = filter (\<lambda>p. p \<in> set ps \<longrightarrow> kept num (conn_of sv p)) (port_list sv) \<and>
    (\<forall>p \<in> set ps. cleared num (objs sv p) (objs sv' p)) \<and> (\<forall>p. p \<notin> set ps \<longrightarrow> objs sv' p = objs sv p) \<and>
    gsel sv' = fold (\<lambda>p. closed_sel (conn_of sv p)) (filter (\<lambda>p. \<not> kept num (conn_of sv p)) ps) (gsel sv)"
  using assms
proof (induction ps arbitrary: sv)
  case Nil
  then show ?case by simp
next
  case (Cons p ps)
  obtain td where td: "objs sv p = Some td" using Cons.prems(1) by (auto simp: idle_ok_def)
  with clear_one [of sv p td num e n] Cons.prems obtain sv1 F where
    one: "(if config_num (cb_data td) = num then Some (Inr sv)
        else if dev_to_tcp_state (cb_data td) = PORT_UNCONNECTED then free_port e n p (sv\<lparr>port_list := remove1 p (port_list sv)\<rparr>)
        else set_port p (\<lambda>c. c\<lparr>config_num := -1\<rparr>) sv) = Some (Inr sv1)"
    and s: "port_list sv1 = filter (\<lambda>q. q = p \<longrightarrow> kept num (cb_data td)) (port_list sv)"
      "cleared num (objs sv p) (objs sv1 p)" "\<forall>q. q \<noteq> p \<longrightarrow> objs sv1 q = objs sv q" "same_but F (gsel sv) (gsel sv1)"
      "gsel sv1 = (if kept num (cb_data td) then gsel sv else closed_sel (cb_data td) (gsel sv))" by auto
  have "\<forall>q \<in> set ps. idle_ok sv1 q"
    using Cons.prems(1,2) s(3) idle_ok_cong [OF _ _ s(4)] by (metis distinct.simps(2) list.set_intros(2))
  then obtain sv' where
    "clear_ports e n num ps sv1 = Some (Inr sv')"
    "port_list sv' = filter (\<lambda>p. p \<in> set ps \<longrightarrow> kept num (conn_of sv1 p)) (port_list sv1)"
    "\<forall>p \<in> set ps. cleared num (objs sv1 p) (objs sv' p)" "\<forall>p. p \<notin> set ps \<longrightarrow> objs sv' p = objs sv1 p"
    "gsel sv' = fold (\<lambda>p. closed_sel (conn_of sv1 p)) (filter (\<lambda>p. \<not> kept num (conn_of sv1 p)) ps) (gsel sv1)"
    using Cons.IH [of sv1] Cons.prems(2,3) s(1) by auto
  moreover have "clear_ports e n num (p # ps) sv = clear_ports e n num ps sv1"
    using td one by (simp cong: if_cong)
  moreover have eq: "\<forall>q \<in> set ps. objs sv1 q = objs sv q" using Cons.prems(2) s(3) by auto
  moreover have "fold (\<lambda>p. closed_sel (conn_of sv1 p)) (filter (\<lambda>p. \<not> kept num (conn_of sv1 p)) ps) (gsel sv1) =
      fold (\<lambda>p. closed_sel (conn_of sv p)) (filter (\<lambda>p. \<not> kept num (conn_of sv p)) (p # ps)) (gsel sv)"
  proof -
    have "filter (\<lambda>p. \<not> kept num (conn_of sv1 p)) ps = filter (\<lambda>p. \<not> kept num (conn_of sv p)) ps"
      using eq by (intro filter_cong) (simp_all add: conn_of_def)
    then have "fold (\<lambda>p. closed_sel (conn_of sv1 p)) (filter (\<lambda>p. \<not> kept num (conn_of sv1 p)) ps) (gsel sv1) =
        fold (\<lambda>p. closed_sel (conn_of sv p)) (filter (\<lambda>p. \<not> kept num (conn_of sv p)) ps) (gsel sv1)"
      using eq by (intro fold_cong) (simp_all add: conn_of_def)
    with s(5) td show ?thesis by (simp add: conn_of_def)
  qed
  ultimately show ?case
    using Cons.prems(2) s(1-3) td by (auto simp: conn_of_def simp del: clear_ports.simps intro!: filter_cong)
qed


section \<open>Configuration\<close>

lemma find_port_absent:
  assumes "\<forall>q \<in> set qs. \<exists>td. objs sv q = Some td \<and> portname (cb_data td) \<noteq> name"
  shows "find_port_from sv name qs = Some (Inr None)"
  using assms by (induction qs) auto

lemma find_port_first:
  assumes "\<forall>q \<in> set qs1. \<exists>td. objs sv q = Some td \<and> portname (cb_data td) \<noteq> name"
    and "objs sv q = Some td" and "portname (cb_data td) = name"
  shows "find_port_from sv name (qs1 @ q # qs2) = Some (Inr (Some q))"
  using assms by (induction qs1) auto

text \<open>Reading the parameters touches neither the descriptor nor the timer.\<close>

lemma parse_port_keeps:
  assumes "parse_port e n banners tracefiles portnum state tmo dev devcfg num c = Inr (rv, c')"
  shows "acceptfd c' = acceptfd c \<and> timer c' = timer c \<and> new_config c' = new_config c \<and> self c' = self c \<and>
    dev_to_tcp_state c' = dev_to_tcp_state c"
  using assms
  by (auto simp: parse_port_def Let_def bind_res_def split: if_splits option.splits sum.splits prod.splits)

text \<open>The block and the timer of a new port are not in use.\<close>

definition fresh_port :: "server \<Rightarrow> nat \<Rightarrow> bool" where
  "fresh_port sv p \<longleftrightarrow> objs sv p = None \<and> p \<notin> set (port_list sv)"

text \<open>A descriptor that the system has just given out is registered nowhere.\<close>

definition unused :: "(registered, nat) selector \<Rightarrow> int \<Rightarrow> bool" where
  "unused s fd \<longleftrightarrow> fd = -1 \<or> fd_ok fd \<and> unwatched s (nat fd) \<and> fd \<noteq> maxfd s"

lemma unused_unwatch:
  assumes "unused s fd"
  shows "unwatch fd s = s"
proof (cases "fd = -1")
  case False
  with assms have "fd_ok fd" "fds s ! nat fd = init_fd" "fd \<noteq> maxfd s"
    "nat fd \<notin> read_set s" "nat fd \<notin> write_set s" "nat fd \<notin> except_set s"
    by (simp_all add: unused_def unwatched_def)
  moreover from this have "(fds s)[nat fd := init_fd] = fds s" by (metis list_update_id)
  ultimately show ?thesis by (cases s) (simp add: unwatch_def sel_clear_fd_handlers_def)
qed (simp add: unwatch_def)

text \<open>One of the calls that open a socket fails.\<close>

definition socket_error :: "startup_env \<Rightarrow> bool" where
  "socket_error n \<longleftrightarrow> socket_fd n = -1 \<or> \<not> (fcntl_ok n \<and> reuse_ok n \<and> bind_ok n \<and> listen_ok n)"

lemma startup_port_fails:
  assumes "objs sv p = Some td" and "snd (tcpport (cb_data td)) \<noteq> 0" and "socket_error n"
  shows "\<exists>err. startup_port e n p sv =
    Some (Inr (Some err, store p (upd_conn (\<lambda>c. c\<lparr>acceptfd := socket_fd n\<rparr>) (fresh_view sv td)) sv))"
  using assms by (auto simp: startup_port_def set_port_Some socket_error_def)

text \<open>What is left of a rejected line: the event loop is as before but for the block of the timer,
  which has been allocated and freed.\<close>

definition restored :: "ptr \<Rightarrow> server \<Rightarrow> server \<Rightarrow> bool" where
  "restored t sv sv' \<longleftrightarrow> sv' = sv\<lparr>gsel := (gsel sv)\<lparr>timers := timers (gsel sv')\<rparr>\<rparr> \<and>
     (\<forall>r. r \<noteq> t \<longrightarrow> timers (gsel sv') r = timers (gsel sv) r)"

lemma freed_restored:
  assumes "fresh_port sv p" and "sv1 = sv\<lparr>objs := (objs sv)(p \<mapsto> td), gsel := upd t f (gsel sv)\<rparr>"
    and "objs sv' = (objs sv1)(p := None)" and "port_list sv' = port_list sv1" and "cmd_table sv' = cmd_table sv1" and "gsel sv' = gsel sv1"
  shows "restored t sv sv'"
proof -
  have "objs sv' = objs sv" using assms(1-3) by (simp add: fresh_port_def fun_upd_idem)
  then show ?thesis using assms(2,4-6) by (cases sv; cases sv') (simp add: restored_def upd_def)
qed

lemma portconfig_rejected_ok:
  assumes "fresh_port sv p" and "port_block n = Some (p, blk)" and "timer_block n = Some t"
    and parse: "parse_port e n banners tracefiles portnum state tmo dev devcfg num
      (init_port_data ((cb_data blk)\<lparr>self := p, timer := t\<rparr>)) = Inr (rv, c)"
    and why: "rv \<noteq> None \<or> enabled c \<noteq> PORT_DISABLED \<and> snd (tcpport c) \<noteq> 0 \<and> socket_error (starting n) \<and>
      (\<forall>q \<in> set (port_list sv). \<exists>td. objs sv q = Some td \<and> portname (cb_data td) \<noteq> portnum)"
    and "unused (gsel sv) (socket_fd (starting n))"
  shows "\<exists>err sv'. portconfig e n banners tracefiles portnum state tmo dev devcfg num sv = Some (Inr (Some err, sv')) \<and>
    (rv \<noteq> None \<longrightarrow> rv = Some err) \<and> restored t sv sv'"
proof -
  define s where "s = upd t (\<lambda>r. r\<lparr>handler := Got_timeout, user_data := p, in_heap := False\<rparr>) (gsel sv)"
  have s: "sel_alloc_timer (gsel sv) (Some t) Got_timeout p = Some (t, s)" "\<not> in_heap (timers s t)"
    by (simp_all add: sel_alloc_timer_def s_def upd_def)
  define td where "td = blk\<lparr>cb_data := c\<rparr>"
  define sv1 where "sv1 = sv\<lparr>objs := (objs sv)(p \<mapsto> td), gsel := s\<rparr>"
  have c: "acceptfd c = -1" "timer c = t" "new_config c = None"
    using parse_port_keeps [OF parse] by (simp_all add: init_port_data_def)
  show ?thesis
  proof (cases rv)
    case (Some err)
    have "closable (gsel sv1) c" using s(2) c by (simp add: closable_def sv1_def)
    then obtain sv' where sv': "free_port e (starting n) p sv1 = Some (Inr sv')" "objs sv' = (objs sv1)(p := None)"
      "port_list sv' = port_list sv1" "cmd_table sv' = cmd_table sv1" "gsel sv' = closed_sel c (gsel sv1)"
      using free_port_ok [of sv1 p td e "starting n"] c(3) by (auto simp: sv1_def td_def)
    have "gsel sv' = gsel sv1" using sv'(5) c(1) by (simp add: closed_sel_def unwatch_def)
    from freed_restored [OF assms(1) sv1_def [unfolded s_def] sv'(2-4) this]
    show ?thesis using Some assms(2,3) parse s(1) sv'(1) by (simp add: portconfig_def sv1_def td_def Let_def)
  next
    case None
    with why have w: "enabled c \<noteq> PORT_DISABLED" "snd (tcpport c) \<noteq> 0" "socket_error (starting n)"
      "\<forall>q \<in> set (port_list sv). \<exists>td. objs sv q = Some td \<and> portname (cb_data td) \<noteq> portnum" by simp_all
    define td1 where "td1 = upd_conn (\<lambda>c. c\<lparr>acceptfd := socket_fd (starting n)\<rparr>) (fresh_view sv1 td)"
    define sv2 where "sv2 = store p td1 sv1"
    obtain err where start: "startup_port e (starting n) p sv1 = Some (Inr (Some err, sv2))"
      using startup_port_fails [of sv1 p td "starting n" e] w(2,3) by (auto simp: sv1_def td_def sv2_def td1_def)
    have g: "gsel sv2 = s" "cmd_table sv2 = cmd_table sv" "port_list sv2 = port_list sv"
      by (simp_all add: sv2_def td1_def sv1_def)
    have un: "unused s (socket_fd (starting n))" using assms(6) by (simp add: unused_def unwatched_def s_def upd_def)
    then have "closable (gsel sv2) (cb_data td1)" "new_config (cb_data td1) = None"
      using s(2) c by (auto simp: closable_def g td1_def td_def unused_def)
    then obtain sv' where sv': "free_port e (starting n) p sv2 = Some (Inr sv')" "objs sv' = (objs sv2)(p := None)"
      "port_list sv' = port_list sv2" "cmd_table sv' = cmd_table sv2" "gsel sv' = closed_sel (cb_data td1) (gsel sv2)"
      using free_port_ok [of sv2 p td1 e "starting n"] by (auto simp: sv2_def)
    have "gsel sv' = gsel sv1" using sv'(5) unused_unwatch [OF un] g(1) by (simp add: closed_sel_def td1_def sv1_def)
    moreover have "objs sv' = (objs sv1)(p := None)" using sv'(2) by (simp add: sv2_def)
    ultimately have "restored t sv sv'"
      by (intro freed_restored [OF assms(1) sv1_def [unfolded s_def]]) (simp_all add: sv'(3,4) g sv1_def)
    moreover have "find_port_by_num portnum sv1 = Some (Inr None)"
      unfolding find_port_by_num_def
      by (rule find_port_absent) (use assms(1) w(4) in \<open>auto simp: sv1_def fresh_port_def\<close>)
    moreover have "port_conn p sv1 = Some (Inr (c\<lparr>sel := s, after_shutdown := Nothing\<rparr>))"
      using port_conn_Some [of sv1 p td] by (simp add: sv1_def td_def)
    ultimately show ?thesis
      using None assms(2,3) parse s(1) sv'(1) w(1) start
      by (simp add: portconfig_def Let_def td_def [symmetric] sv1_def [symmetric] install_port_def add_port_def)
  qed
qed


text \<open>A port that listens: its descriptor is watched for connections, and its handler is called with it.\<close>

definition accepting :: "server \<Rightarrow> nat \<Rightarrow> bool" where
  "accepting sv p \<longleftrightarrow>
     (case objs sv p of
        None \<Rightarrow> False
      | Some td \<Rightarrow>
          let fd = nat (acceptfd (cb_data td)) in
          acceptfd (cb_data td) \<ge> 0 \<and> fd \<in> read_set (gsel sv) \<and>
          in_use (fds (gsel sv) ! fd) \<and> data (fds (gsel sv) ! fd) = Some p \<and>
          handle_read (fds (gsel sv) ! fd) = Some Handle_accept_port_read)"

lemma startup_port_listens:
  assumes "objs sv p = Some td" and "snd (tcpport (cb_data td)) \<noteq> 0" and "socket_fd n = fd" and "fd_ok fd"
    and "fcntl_ok n" "reuse_ok n" "bind_ok n" "listen_ok n" and "nat fd < length (fds (gsel sv))"
  shows "\<exists>td' sv'. startup_port e n p sv = Some (Inr (None, sv')) \<and> objs sv' = (objs sv)(p \<mapsto> td') \<and>
    same_fields ((cb_data td)\<lparr>acceptfd := fd\<rparr>) (cb_data td') \<and> port_list sv' = port_list sv \<and>
    same_but {nat fd} (gsel sv) (gsel sv') \<and> nat fd \<in> read_set (gsel sv') \<and>
    fds (gsel sv') ! nat fd = \<lparr>in_use = True, data = Some p, handle_read = Some Handle_accept_port_read, handle_write = None, handle_except = None\<rparr>"
proof -
  define td' where "td' = upd_conn (\<lambda>c. c\<lparr>acceptfd := fd\<rparr>) (fresh_view sv td)"
  define sv1 where "sv1 = store p td' sv"
  have [simp]: "gsel sv1 = gsel sv" by (simp add: sv1_def td'_def)
  obtain s1 where s1: "sel_set_fd_handlers (gsel sv) fd (Some p) (Some Handle_accept_port_read) None None = Inr s1"
    "same_but {nat fd} (gsel sv) s1"
    "fds s1 ! nat fd = \<lparr>in_use = True, data = Some p, handle_read = Some Handle_accept_port_read, handle_write = None, handle_except = None\<rparr>"
    using selector_calls(1) [OF assms(4), of "gsel sv" "Some p" "Some Handle_accept_port_read" None None] assms(9) by auto
  obtain s2 where s2: "sel_set_fd_read_handler s1 fd (Some True) = Inr s2" "same_but {nat fd} s1 s2" "fds s2 = fds s1"
    "read_set s2 = change_set (Some True) (nat fd) (read_set s1)"
    using selector_calls(2) [OF assms(4)] by blast
  have "fd \<noteq> -1" using assms(4) by (auto simp: fd_ok_def)
  then have "startup_port e n p sv = Some (Inr (None, sv1\<lparr>gsel := s2\<rparr>))"
    using assms(1-8) s1(1) s2(1)
    by (simp add: startup_port_def set_port_Some [OF assms(1)] on_sel_def td'_def sv1_def)
  moreover have "same_but {nat fd} (gsel sv) s2" using same_but_trans [OF s1(2) s2(2)] by simp
  moreover have "nat fd \<in> read_set s2" using s2(4) by (simp add: change_set_def)
  moreover have "same_fields ((cb_data td)\<lparr>acceptfd := fd\<rparr>) (cb_data td')" by (simp add: same_fields_def td'_def)
  ultimately show ?thesis using s1(3) s2(3)
    by (intro exI [of _ td'] exI [of _ "sv1\<lparr>gsel := s2\<rparr>"]) (simp add: sv1_def)
qed

lemma portconfig_added_ok:
  assumes "fresh_port sv p" and "port_block n = Some (p, blk)" and "timer_block n = Some t"
    and "parse_port e n banners tracefiles portnum state tmo dev devcfg num
      (init_port_data ((cb_data blk)\<lparr>self := p, timer := t\<rparr>)) = Inr (None, c)"
    and "\<forall>q \<in> set (port_list sv). \<exists>td. objs sv q = Some td \<and> portname (cb_data td) \<noteq> portnum"
    and "enabled c \<noteq> PORT_DISABLED" and "snd (tcpport c) \<noteq> 0"
    and "socket_fd (starting n) = fd" and "fd_ok fd" and "nat fd < length (fds (gsel sv))"
    and "fcntl_ok (starting n)" "reuse_ok (starting n)" "bind_ok (starting n)" "listen_ok (starting n)"
  shows "\<exists>sv' td'. portconfig e n banners tracefiles portnum state tmo dev devcfg num sv = Some (Inr (None, sv')) \<and>
    port_list sv' = port_list sv @ [p] \<and> objs sv' = (objs sv)(p \<mapsto> td') \<and>
    same_fields (c\<lparr>acceptfd := fd\<rparr>) (cb_data td') \<and> accepting sv' p"
proof -
  define s where "s = upd t (\<lambda>r. r\<lparr>handler := Got_timeout, user_data := p, in_heap := False\<rparr>) (gsel sv)"
  have s: "sel_alloc_timer (gsel sv) (Some t) Got_timeout p = Some (t, s)" "fds s = fds (gsel sv)"
    by (simp_all add: sel_alloc_timer_def s_def upd_def)
  define sv1 where "sv1 = sv\<lparr>objs := (objs sv)(p \<mapsto> blk\<lparr>cb_data := c\<rparr>), gsel := s\<rparr>"
  have "find_port_by_num portnum sv1 = Some (Inr None)"
    unfolding find_port_by_num_def
    by (rule find_port_absent) (use assms(1,5) in \<open>auto simp: sv1_def fresh_port_def\<close>)
  moreover obtain td' sv' where start: "startup_port e (starting n) p sv1 = Some (Inr (None, sv'))"
    "objs sv' = (objs sv1)(p \<mapsto> td')" "same_fields (c\<lparr>acceptfd := fd\<rparr>) (cb_data td')" "port_list sv' = port_list sv1"
    "nat fd \<in> read_set (gsel sv')"
    "fds (gsel sv') ! nat fd = \<lparr>in_use = True, data = Some p, handle_read = Some Handle_accept_port_read, handle_write = None, handle_except = None\<rparr>"
    using startup_port_listens [of sv1 p "blk\<lparr>cb_data := c\<rparr>" "starting n" fd e] assms(7-14) s(2) by (auto simp: sv1_def)
  moreover have "port_conn p sv1 = Some (Inr (c\<lparr>sel := s, after_shutdown := Nothing\<rparr>))"
    using port_conn_Some [of sv1 p "blk\<lparr>cb_data := c\<rparr>"] by (simp add: sv1_def)
  ultimately have "portconfig e n banners tracefiles portnum state tmo dev devcfg num sv =
      Some (Inr (None, sv'\<lparr>port_list := port_list sv' @ [p]\<rparr>))"
    using assms(2-4,6) s(1)
    by (simp add: portconfig_def Let_def sv1_def [symmetric] install_port_def add_port_def)
  moreover have "acceptfd (cb_data td') = fd" using same_fieldsD(2) [OF start(3)] by simp
  ultimately show ?thesis using start assms(9)
    by (intro exI [of _ "sv'\<lparr>port_list := port_list sv' @ [p]\<rparr>"] exI [of _ td'])
      (auto simp: sv1_def accepting_def Let_def fd_ok_def)
qed


lemma change_mode_ok:
  assumes "objs sv p = Some td" and "enabled (cb_data td) \<noteq> PORT_DISABLED" and "state \<noteq> PORT_DISABLED"
  shows "\<exists>td' sv'. change_port_state e n p state sv = Some (Inr (None, sv')) \<and> objs sv' = (objs sv)(p \<mapsto> td') \<and>
    gsel sv' = gsel sv \<and> port_list sv' = port_list sv \<and> same_fields ((cb_data td)\<lparr>enabled := state\<rparr>) (cb_data td')"
proof (cases "enabled (cb_data td) = state")
  case True
  with assms(1) show ?thesis
    by (intro exI [of _ td] exI [of _ sv]) (auto simp: change_port_state_def same_fields_def)
next
  case False
  define td' where "td' = upd_conn (\<lambda>c. c\<lparr>enabled := state\<rparr>) (fresh_view sv td)"
  have "change_port_state e n p state sv = Some (Inr (None, store p td' sv))"
    using assms False by (simp add: change_port_state_def set_port_Some td'_def cong: if_cong)
  then show ?thesis
    by (intro exI [of _ td'] exI [of _ "store p td' sv"]) (simp add: td'_def same_fields_def)
qed

text \<open>A line for a port that exists, is not disabled and has no connection: the new port takes the
  place and the descriptor of the old one, which is freed.\<close>

lemma take_over_ok:
  assumes "objs sv p = Some td" and "objs sv q = Some old" and "p \<noteq> q"
    and "acceptfd (cb_data old) = fd" and "fd_ok fd" and "nat fd < length (fds (gsel sv))"
    and "nat fd \<in> read_set (gsel sv)" and "\<not> in_heap (timers (gsel sv) (timer (cb_data old)))" and "new_config (cb_data old) = None"
    and "enabled (cb_data old) \<noteq> PORT_DISABLED" and "enabled (cb_data td) \<noteq> PORT_DISABLED"
  shows "\<exists>td' sv'. take_over e n p q sv = Some (Inr sv') \<and> objs sv' = (objs sv)(q := None, p \<mapsto> td') \<and>
    same_fields ((cb_data td)\<lparr>acceptfd := fd\<rparr>) (cb_data td') \<and>
    port_list sv' = map (\<lambda>r. if r = q then p else r) (port_list sv) \<and> accepting sv' p"
proof -
  define td1 where "td1 = upd_conn (\<lambda>c. c\<lparr>enabled := enabled (cb_data old), acceptfd := fd\<rparr>) (fresh_view sv td)"
  define sv1 where "sv1 = store p td1 sv"
  define old1 where "old1 = upd_conn (\<lambda>c. c\<lparr>enabled := PORT_DISABLED, acceptfd := -1\<rparr>) (fresh_view sv1 old)"
  define sv2 where "sv2 = store q old1 sv1"
  have g: "gsel sv1 = gsel sv" "gsel sv2 = gsel sv" by (simp_all add: sv1_def td1_def sv2_def old1_def)
  have q1: "objs sv1 q = Some old" using assms(2,3) by (simp add: sv1_def)
  obtain s where s: "sel_set_fd_handlers (gsel sv) fd (Some p) (Some Handle_accept_port_read) None None = Inr s"
    "same_but {nat fd} (gsel sv) s" "read_set s = read_set (gsel sv)"
    "fds s ! nat fd = \<lparr>in_use = True, data = Some p, handle_read = Some Handle_accept_port_read, handle_write = None, handle_except = None\<rparr>"
    using selector_calls(1) [OF assms(5), of "gsel sv" "Some p" "Some Handle_accept_port_read" None None] assms(6) by auto
  define sv3 where "sv3 = sv2\<lparr>gsel := s, port_list := map (\<lambda>r. if r = q then p else r) (port_list sv)\<rparr>"
  have o3: "objs sv3 = (objs sv)(p \<mapsto> td1, q \<mapsto> old1)" by (simp add: sv3_def sv2_def sv1_def)
  have fd: "fd \<noteq> -1" using assms(5) by (auto simp: fd_ok_def)
  have "closable (gsel sv3) (cb_data old1)" "new_config (cb_data old1) = None" "listens (cb_data old1) = {}"
    using assms(8,9) s(2) by (simp_all add: closable_def old1_def sv3_def listens_def same_but_def)
  moreover have "objs sv3 q = Some old1" by (simp add: o3)
  ultimately obtain sv4 where sv4: "free_port e n q sv3 = Some (Inr sv4)" "objs sv4 = (objs sv3)(q := None)"
    "port_list sv4 = port_list sv3" "same_but {} (gsel sv3) (gsel sv4)"
    using free_port_ok [of sv3 q old1 e n] by auto
  have p4: "objs sv4 p = Some td1" using assms(3) by (simp add: sv4(2) o3)
  have "enabled (cb_data td1) \<noteq> PORT_DISABLED" using assms(10) by (simp add: td1_def)
  from change_mode_ok [OF p4 this assms(11), of e n] obtain td' sv5 where
    sv5: "change_port_state e n p (enabled (cb_data td)) sv4 = Some (Inr (None, sv5))" "objs sv5 = (objs sv4)(p \<mapsto> td')"
      "gsel sv5 = gsel sv4" "port_list sv5 = port_list sv4"
      "same_fields ((cb_data td1)\<lparr>enabled := enabled (cb_data td)\<rparr>) (cb_data td')" by blast
  have td': "same_fields ((cb_data td)\<lparr>acceptfd := fd\<rparr>) (cb_data td')"
    using sv5(5) by (simp add: same_fields_def td1_def)
  have "set_port p (\<lambda>c. c\<lparr>enabled := enabled (cb_data old), acceptfd := fd\<rparr>) sv = Some (Inr sv1)"
    by (simp add: set_port_Some [OF assms(1)] sv1_def td1_def)
  moreover have "set_port q (\<lambda>c. c\<lparr>enabled := PORT_DISABLED, acceptfd := -1\<rparr>) sv1 = Some (Inr sv2)"
    by (simp add: set_port_Some [OF q1] sv2_def old1_def)
  moreover have "on_sel (\<lambda>s. sel_set_fd_handlers s fd (Some p) (Some Handle_accept_port_read) None None) sv2 = Some (Inr (sv2\<lparr>gsel := s\<rparr>))"
    by (simp add: on_sel_def g s(1))
  moreover have "sv2\<lparr>gsel := s, port_list := map (\<lambda>r. if r = q then p else r) (port_list sv2)\<rparr> = sv3"
    by (simp add: sv3_def sv2_def sv1_def)
  ultimately have "take_over e n p q sv = Some (Inr sv5)"
    using assms(1,2,4) sv4(1) sv5(1) by (simp add: take_over_def)
  moreover have "acceptfd (cb_data td') = fd" using same_fieldsD(2) [OF td'] by simp
  moreover have "nat fd \<in> read_set (gsel sv5)" "fds (gsel sv5) ! nat fd = fds s ! nat fd"
    using sv5(3) sv4(4) assms(7) s(3) by (simp_all add: same_but_def sv3_def)
  moreover have "objs sv5 = (objs sv)(q := None, p \<mapsto> td')" using assms(3) by (auto simp: sv5(2) sv4(2) o3)
  ultimately show ?thesis using td' sv5(2,4) sv4(3) s(4) assms(5)
    by (intro exI [of _ td'] exI [of _ sv5]) (auto simp: sv3_def accepting_def Let_def fd_ok_def)
qed


section \<open>The properties\<close>

text \<open>C14: Clearing the old configuration always returns.  What stays on the list are, in their order,
  the ports of the new configuration and the connected ones; a connected port that is not in the
  new configuration is marked for its removal, every other port is freed, and no other object is
  touched.  The sockets on which the freed ports listened are not watched any more and have no
  handler, and nothing else happens to the event loop: in their order, each of these descriptors is
  taken out of it.  The ports without a connection have no running timer, as \<^verbatim>\<open>shutdown_port\<close> leaves
  them.
\<close>

theorem clear_old_port_config_exact:
  assumes "\<forall>p \<in> set (port_list sv). idle_ok sv p" and "distinct (port_list sv)" and "length (fds (gsel sv)) = FD_SETSIZE"
    and "gone = filter (\<lambda>p. \<not> kept num (conn_of sv p)) (port_list sv)"
  shows "\<exists>sv'. clear_old_port_config e n num sv = Some (Inr sv') \<and>
    port_list sv' = filter (\<lambda>p. kept num (conn_of sv p)) (port_list sv) \<and>
    (\<forall>p \<in> set (port_list sv). cleared num (objs sv p) (objs sv' p)) \<and>
    (\<forall>p. p \<notin> set (port_list sv) \<longrightarrow> objs sv' p = objs sv p) \<and>
    (\<forall>p \<in> set gone. \<forall>i \<in> listens (conn_of sv p). unwatched (gsel sv') i) \<and>
    gsel sv' = fold (\<lambda>p. closed_sel (conn_of sv p)) gone (gsel sv)"
proof -
  obtain sv' where sv': "clear_ports e n num (port_list sv) sv = Some (Inr sv')"
    "port_list sv' = filter (\<lambda>p. p \<in> set (port_list sv) \<longrightarrow> kept num (conn_of sv p)) (port_list sv)"
    "\<forall>p \<in> set (port_list sv). cleared num (objs sv p) (objs sv' p)" "\<forall>p. p \<notin> set (port_list sv) \<longrightarrow> objs sv' p = objs sv p"
    "gsel sv' = fold (\<lambda>p. closed_sel (conn_of sv p)) gone (gsel sv)"
    using clear_ports_ok [OF assms(1) assms(2) assms(2), of e n num] unfolding assms(4) by blast
  have "\<forall>q \<in> set gone. closable (gsel sv) (conn_of sv q)"
    using assms(1,4) by (auto simp: idle_ok_def kept_def)
  then have "\<forall>p \<in> set gone. \<forall>i \<in> listens (conn_of sv p). unwatched (gsel sv') i"
    using unwatched_all [of _ gone "gsel sv" "conn_of sv" _ "gsel sv"] assms(3) unfolding sv'(5) by blast
  moreover have "port_list sv' = filter (\<lambda>p. kept num (conn_of sv p)) (port_list sv)"
    unfolding sv'(2) by (rule filter_cong) simp_all
  ultimately show ?thesis using sv' by (auto simp: clear_old_port_config_def)
qed

definition demo_server :: server where
  "demo_server = \<lparr>objs = [0 \<mapsto> demo_port], port_list = [0], gsel = demo_timers, cmd_table = telnet_cmds\<rparr>"

definition demo_startup :: startup_env where
  "demo_startup = \<lparr>socket_fd = 8, fcntl_ok = True, reuse_ok = True, bind_ok = True, listen_ok = True, connecting = demo_connect\<rparr>"

theorem clear_old_port_config_exact_witness:
  "\<exists>sv'. clear_old_port_config demo_env demo_startup 7 demo_server = Some (Inr sv') \<and> port_list sv' = [] \<and> objs sv' 0 = None"
proof -
  have "\<forall>p \<in> set (port_list demo_server). idle_ok demo_server p" "distinct (port_list demo_server)"
    by (simp_all add: demo_server_def idle_ok_def conn_of_def demo_port_def closable_def fd_ok_def FD_SETSIZE_def)
      (simp_all add: demo_conn_def demo_timers_def)
  moreover have "length (fds (gsel demo_server)) = FD_SETSIZE" by (simp add: demo_server_def demo_timers_def)
  ultimately show ?thesis
    using clear_old_port_config_exact [of demo_server _ 7 demo_env demo_startup, OF _ _ _ refl]
    by (auto simp: demo_server_def kept_def conn_of_def demo_port_def cleared_def) (simp_all add: demo_conn_def)
qed

text \<open>C20: A line of the configuration with a bad parameter, or for a new port whose socket cannot be
  opened, has no effect: an error message is returned, and the ports, their list, the table of
  telnet options and the whole event loop (the registered handlers, the watched descriptors and
  all timers but the one that was allocated for the line and is freed again) are exactly as before.
  The descriptor that the system gives out is one that is not in use.\<close>

theorem rejected_line_no_effect:
  assumes "fresh_port sv p" and "port_block n = Some (p, blk)" and "timer_block n = Some t"
    and "parse_port e n banners tracefiles portnum state tmo dev devcfg num
      (init_port_data ((cb_data blk)\<lparr>self := p, timer := t\<rparr>)) = Inr (rv, c)"
    and "rv \<noteq> None \<or> enabled c \<noteq> PORT_DISABLED \<and> snd (tcpport c) \<noteq> 0 \<and> socket_error (starting n) \<and>
      (\<forall>q \<in> set (port_list sv). \<exists>td. objs sv q = Some td \<and> portname (cb_data td) \<noteq> portnum)"
    and "unused (gsel sv) (socket_fd (starting n))"
  shows "\<exists>err sv'. portconfig e n banners tracefiles portnum state tmo dev devcfg num sv = Some (Inr (Some err, sv')) \<and>
    (rv \<noteq> None \<longrightarrow> rv = Some err) \<and>
    sv' = sv\<lparr>gsel := (gsel sv)\<lparr>timers := timers (gsel sv')\<rparr>\<rparr> \<and>
    (\<forall>r. r \<noteq> t \<longrightarrow> timers (gsel sv') r = timers (gsel sv) r)"
  using portconfig_rejected_ok [OF assms] unfolding restored_def by blast

definition demo_config :: config_env where
  "demo_config = \<lparr>port_block = Some (5, demo_port), timer_block = Some 9, name_mem = True, devcfg_mem = True, devname_mem = True,
     inet_addr = (\<lambda>_. 0xFFFFFFFF), gethostbyname = (\<lambda>_. None), starting = demo_startup\<rparr>"

lemma demo_scan: "scan_tcp_port (\<lambda>_. 0xFFFFFFFF) (\<lambda>_. None) ''3000'' = Inr (Some (0, 3000))"
  by code_simp

theorem rejected_line_no_effect_witness:
  "\<exists>sv'. portconfig demo_env demo_config [] [] ''3000'' ''on'' ''0'' ''tty'' ''9600'' 1 demo_server =
     Some (Inr (Some ''state was invalid'', sv')) \<and> objs sv' = objs demo_server \<and> read_set (gsel sv') = {}"
proof -
  have "\<exists>c. parse_port demo_env demo_config [] [] ''3000'' ''on'' ''0'' ''tty'' ''9600'' 1
      (init_port_data ((cb_data demo_port)\<lparr>self := 5, timer := 9\<rparr>)) = Inr (Some ''state was invalid'', c)"
    by (simp add: parse_port_def demo_config_def demo_scan port_mode_of_def)
  then obtain c where c: "parse_port demo_env demo_config [] [] ''3000'' ''on'' ''0'' ''tty'' ''9600'' 1
      (init_port_data ((cb_data demo_port)\<lparr>self := 5, timer := 9\<rparr>)) = Inr (Some ''state was invalid'', c)" by blast
  have "fresh_port demo_server 5" by (simp add: fresh_port_def demo_server_def)
  moreover have "port_block demo_config = Some (5, demo_port)" "timer_block demo_config = Some 9" by (simp_all add: demo_config_def)
  moreover have "unused (gsel demo_server) (socket_fd (starting demo_config))"
    by (simp add: unused_def unwatched_def demo_server_def demo_timers_def demo_config_def demo_startup_def fd_ok_def FD_SETSIZE_def)
  ultimately obtain err sv' where
    r: "portconfig demo_env demo_config [] [] ''3000'' ''on'' ''0'' ''tty'' ''9600'' 1 demo_server = Some (Inr (Some err, sv'))"
      "err = ''state was invalid''"
      "sv' = demo_server\<lparr>gsel := (gsel demo_server)\<lparr>timers := timers (gsel sv')\<rparr>\<rparr>"
    using rejected_line_no_effect [of demo_server 5 demo_config demo_port 9, OF _ _ _ c] by auto
  have "objs sv' = objs demo_server \<and> read_set (gsel sv') = {}" by (subst r(3), subst (2) r(3)) (simp add: demo_server_def demo_timers_def)
  with r(1,2) show ?thesis by blast
qed


text \<open>C21: A line with a new port name opens it: when the operating system provides the descriptor,
  the port comes last on the list with the fields that were read and the new descriptor, the
  descriptor is watched, a connection request calls its handler, and all other ports are as before.
\<close>

theorem new_port_accepts:
  assumes "fresh_port sv p" and "port_block n = Some (p, blk)" and "timer_block n = Some t"
    and "parse_port e n banners tracefiles portnum state tmo dev devcfg num
      (init_port_data ((cb_data blk)\<lparr>self := p, timer := t\<rparr>)) = Inr (None, c)"
    and "\<forall>q \<in> set (port_list sv). \<exists>td. objs sv q = Some td \<and> portname (cb_data td) \<noteq> portnum"
    and "enabled c \<noteq> PORT_DISABLED" and "snd (tcpport c) \<noteq> 0"
    and "socket_fd (starting n) = fd" and "fd_ok fd" and "nat fd < length (fds (gsel sv))"
    and "fcntl_ok (starting n)" "reuse_ok (starting n)" "bind_ok (starting n)" "listen_ok (starting n)"
  shows "\<exists>sv' td'. portconfig e n banners tracefiles portnum state tmo dev devcfg num sv = Some (Inr (None, sv')) \<and>
    port_list sv' = port_list sv @ [p] \<and> objs sv' = (objs sv)(p \<mapsto> td') \<and>
    same_fields (c\<lparr>acceptfd := fd\<rparr>) (cb_data td') \<and> accepting sv' p"
  by (rule portconfig_added_ok [OF assms])

lemma demo_parse:
  "\<exists>c. parse_port demo_env demo_config [] [] ''3000'' ''raw'' ''0'' ''tty'' ''9600'' 1
     (init_port_data ((cb_data demo_port)\<lparr>self := 5, timer := 9\<rparr>)) = Inr (None, c) \<and>
     enabled c = PORT_RAW \<and> tcpport c = (0, 3000) \<and> devname c = ''tty''"
proof -
  have "scan_int ''0'' = Inr 0" by code_simp
  moreover have "fst (devconfig True (\<lambda>r. r) [] [] ''9600'' d)" for d
  proof -
    have "tokens ('', '' @ [CHR 0x09]) ''9600'' = [''9600'']" by code_simp
    then show ?thesis
      by (simp add: devconfig_def config_token_def speed_tokens_def)
  qed
  ultimately show ?thesis
    by (simp add: parse_port_def demo_config_def demo_scan port_mode_of_def demo_env_def case_prod_beta Let_def)
qed

theorem new_port_accepts_witness:
  "\<exists>sv'. portconfig demo_env demo_config [] [] ''3000'' ''raw'' ''0'' ''tty'' ''9600'' 1 demo_server = Some (Inr (None, sv')) \<and>
     port_list sv' = [0, 5] \<and> accepting sv' 5"
proof -
  obtain c where c: "parse_port demo_env demo_config [] [] ''3000'' ''raw'' ''0'' ''tty'' ''9600'' 1
     (init_port_data ((cb_data demo_port)\<lparr>self := 5, timer := 9\<rparr>)) = Inr (None, c)"
    "enabled c \<noteq> PORT_DISABLED" "snd (tcpport c) \<noteq> 0" using demo_parse by auto
  have f: "fresh_port demo_server 5" "port_block demo_config = Some (5, demo_port)" "timer_block demo_config = Some 9"
    "\<forall>q \<in> set (port_list demo_server). \<exists>td. objs demo_server q = Some td \<and> portname (cb_data td) \<noteq> ''3000''"
    "nat 8 < length (fds (gsel demo_server))"
    by (simp_all add: fresh_port_def demo_server_def demo_config_def demo_port_def demo_timers_def FD_SETSIZE_def)
      (simp add: demo_conn_def)
  have "socket_fd (starting demo_config) = 8" "fd_ok 8" "fcntl_ok (starting demo_config)" "reuse_ok (starting demo_config)"
    "bind_ok (starting demo_config)" "listen_ok (starting demo_config)"
    by (simp_all add: demo_config_def demo_startup_def fd_ok_def FD_SETSIZE_def)
  from new_port_accepts [OF f(1-3) c(1) f(4) c(2,3) this(1,2) f(5) this(3-6)] show ?thesis
    by (auto simp: demo_server_def)
qed

text \<open>C15: A line for a port that accepts connections and has none at the moment replaces it at its place
  on the list: the new port has the fields that were read and the descriptor of the old one, which
  stays open and watched, requests on it call the handler with the new port, and the old port is freed.
\<close>

theorem reconfigured_port_takes_over:
  assumes "fresh_port sv p" and "port_block n = Some (p, blk)" and "timer_block n = Some t"
    and "parse_port e n banners tracefiles portnum state tmo dev devcfg num
      (init_port_data ((cb_data blk)\<lparr>self := p, timer := t\<rparr>)) = Inr (None, c)"
    and "port_list sv = qs1 @ q # qs2" and "distinct (port_list sv)"
    and "\<forall>r \<in> set qs1. \<exists>td. objs sv r = Some td \<and> portname (cb_data td) \<noteq> portnum"
    and "objs sv q = Some old" and "portname (cb_data old) = portnum"
    and "dev_to_tcp_state (cb_data old) = PORT_UNCONNECTED" and "enabled (cb_data old) \<noteq> PORT_DISABLED"
    and "closable (gsel sv) (cb_data old)" and "new_config (cb_data old) = None" and "t \<noteq> timer (cb_data old)"
    and "acceptfd (cb_data old) = fd" and "fd_ok fd" and "nat fd < length (fds (gsel sv))" and "nat fd \<in> read_set (gsel sv)"
    and "enabled c \<noteq> PORT_DISABLED"
  shows "\<exists>sv' td'. portconfig e n banners tracefiles portnum state tmo dev devcfg num sv = Some (Inr (None, sv')) \<and>
    port_list sv' = qs1 @ p # qs2 \<and> objs sv' = (objs sv)(q := None, p \<mapsto> td') \<and>
    same_fields (c\<lparr>acceptfd := fd\<rparr>) (cb_data td') \<and> accepting sv' p"
proof -
  define s where "s = upd t (\<lambda>r. r\<lparr>handler := Got_timeout, user_data := p, in_heap := False\<rparr>) (gsel sv)"
  have s: "sel_alloc_timer (gsel sv) (Some t) Got_timeout p = Some (t, s)" "fds s = fds (gsel sv)" "read_set s = read_set (gsel sv)"
    "timers s (timer (cb_data old)) = timers (gsel sv) (timer (cb_data old))"
    using assms(14) by (simp_all add: sel_alloc_timer_def s_def upd_def)
  define sv1 where "sv1 = sv\<lparr>objs := (objs sv)(p \<mapsto> blk\<lparr>cb_data := c\<rparr>), gsel := s\<rparr>"
  have ne: "p \<noteq> q" "p \<notin> set qs1" "p \<notin> set qs2" using assms(1,5) by (auto simp: fresh_port_def)
  have o: "objs sv1 p = Some (blk\<lparr>cb_data := c\<rparr>)" "objs sv1 q = Some old" using assms(8) ne by (simp_all add: sv1_def)
  have "find_port_from sv1 portnum (qs1 @ q # qs2) = Some (Inr (Some q))"
    by (rule find_port_first [OF _ o(2) assms(9)]) (use assms(7) ne(2) in \<open>auto simp: sv1_def\<close>)
  then have find: "find_port_by_num portnum sv1 = Some (Inr (Some q))"
    by (simp add: find_port_by_num_def sv1_def assms(5))
  have "\<not> in_heap (timers (gsel sv1) (timer (cb_data old)))" using assms(12) s(4) by (simp add: closable_def sv1_def)
  from take_over_ok [OF o ne(1) assms(15,16) _ _ this assms(13,11), of e "starting n"] assms(17-19) obtain td' sv' where
    t: "take_over e (starting n) p q sv1 = Some (Inr sv')" "objs sv' = (objs sv1)(q := None, p \<mapsto> td')"
      "same_fields (c\<lparr>acceptfd := fd\<rparr>) (cb_data td')" "port_list sv' = map (\<lambda>r. if r = q then p else r) (port_list sv1)"
      "accepting sv' p"
    by (auto simp: sv1_def s(2,3))
  have "portconfig e n banners tracefiles portnum state tmo dev devcfg num sv = Some (Inr (None, sv'))"
    using assms(2-4,10) s(1) find t(1) o(2)
    by (simp add: portconfig_def Let_def sv1_def [symmetric] install_port_def)
  moreover have "map (\<lambda>r. if r = q then p else r) (port_list sv1) = qs1 @ p # qs2"
    using assms(5,6) by (auto simp: sv1_def intro!: map_idI)
  moreover have "objs sv' = (objs sv)(q := None, p \<mapsto> td')" using t(2) by (auto simp: sv1_def)
  ultimately show ?thesis using t(3-5) by auto
qed

definition open_server :: server where
  "open_server = demo_server\<lparr>
     objs := [0 \<mapsto> upd_conn (\<lambda>c. c\<lparr>portname := ''3000'', acceptfd := 4\<rparr>) demo_port],
     gsel := demo_timers\<lparr>read_set := {4}\<rparr>\<rparr>"

theorem reconfigured_port_takes_over_witness:
  "\<exists>sv'. portconfig demo_env demo_config [] [] ''3000'' ''raw'' ''0'' ''tty'' ''9600'' 1 open_server = Some (Inr (None, sv')) \<and>
     port_list sv' = [5] \<and> objs sv' 0 = None \<and> accepting sv' 5"
proof -
  define old where "old = upd_conn (\<lambda>c. c\<lparr>portname := ''3000'', acceptfd := 4\<rparr>) demo_port"
  obtain c where c: "parse_port demo_env demo_config [] [] ''3000'' ''raw'' ''0'' ''tty'' ''9600'' 1
     (init_port_data ((cb_data demo_port)\<lparr>self := 5, timer := 9\<rparr>)) = Inr (None, c)"
    "enabled c \<noteq> PORT_DISABLED" using demo_parse by auto
  have f: "fresh_port open_server 5" "port_block demo_config = Some (5, demo_port)" "timer_block demo_config = Some 9"
    "port_list open_server = [] @ 0 # []" "distinct (port_list open_server)" "objs open_server 0 = Some old"
    by (simp_all add: fresh_port_def open_server_def demo_server_def demo_config_def old_def)
  have g: "portname (cb_data old) = ''3000''" "acceptfd (cb_data old) = 4" "dev_to_tcp_state (cb_data old) = PORT_UNCONNECTED"
    "enabled (cb_data old) \<noteq> PORT_DISABLED" "new_config (cb_data old) = None" "9 \<noteq> timer (cb_data old)"
    by (simp_all add: old_def demo_port_def) (simp_all add: demo_conn_def)
  have h: "closable (gsel open_server) (cb_data old)" "fd_ok 4" "nat 4 < length (fds (gsel open_server))"
    "nat 4 \<in> read_set (gsel open_server)"
    using g(2) by (simp_all add: closable_def open_server_def demo_timers_def fd_ok_def FD_SETSIZE_def)
  from reconfigured_port_takes_over [OF f(1-3) c(1) f(4,5) _ f(6) g(1) g(3,4) h(1) g(5,6,2) h(2-4) c(2)] show ?thesis
    using g by (auto simp: open_server_def)
qed


text \<open>A line for a port that is switched off and has no connection leaves the table of descriptors:
  the handlers of descriptor -1, the one a port without a socket has, are set outside the array.
\<close>

theorem disabled_port_reload_fault:
  assumes "fresh_port sv p" and "port_block n = Some (p, blk)" and "timer_block n = Some t"
    and "parse_port e n banners tracefiles portnum state tmo dev devcfg num
      (init_port_data ((cb_data blk)\<lparr>self := p, timer := t\<rparr>)) = Inr (None, c)"
    and "port_list sv = qs1 @ q # qs2"
    and "\<forall>r \<in> set qs1. \<exists>td. objs sv r = Some td \<and> portname (cb_data td) \<noteq> portnum"
    and "objs sv q = Some old" and "portname (cb_data old) = portnum"
    and "dev_to_tcp_state (cb_data old) = PORT_UNCONNECTED" and "acceptfd (cb_data old) = -1"
  shows "portconfig e n banners tracefiles portnum state tmo dev devcfg num sv = Some (Inl Out_of_bounds)"
proof -
  define s where "s = upd t (\<lambda>r. r\<lparr>handler := Got_timeout, user_data := p, in_heap := False\<rparr>) (gsel sv)"
  have s: "sel_alloc_timer (gsel sv) (Some t) Got_timeout p = Some (t, s)" by (simp add: sel_alloc_timer_def s_def)
  define sv1 where "sv1 = sv\<lparr>objs := (objs sv)(p \<mapsto> blk\<lparr>cb_data := c\<rparr>), gsel := s\<rparr>"
  have ne: "p \<noteq> q" "p \<notin> set qs1" using assms(1,5) by (auto simp: fresh_port_def)
  have p1: "objs sv1 p = Some (blk\<lparr>cb_data := c\<rparr>)" and q1: "objs sv1 q = Some old" using assms(7) ne by (simp_all add: sv1_def)
  have "find_port_from sv1 portnum (qs1 @ q # qs2) = Some (Inr (Some q))"
    by (rule find_port_first [OF _ q1 assms(8)]) (use assms(6) ne(2) in \<open>auto simp: sv1_def\<close>)
  then have find: "find_port_by_num portnum sv1 = Some (Inr (Some q))"
    by (simp add: find_port_by_num_def sv1_def assms(5))
  have "take_over e (starting n) p q sv1 = Some (Inl Out_of_bounds)"
    using p1 q1 ne(1) assms(10)
    by (simp add: take_over_def set_port_Some on_sel_def sel_set_fd_handlers_def fd_ok_def)
  then show ?thesis
    using assms(2-4,9) s find q1 by (simp add: portconfig_def Let_def sv1_def [symmetric] install_port_def)
qed

theorem disabled_port_reload_fault_witness:
  "portconfig demo_env demo_config [] [] ''3000'' ''raw'' ''0'' ''tty'' ''9600'' 1
     (demo_server\<lparr>objs := [0 \<mapsto> upd_conn (\<lambda>c. c\<lparr>portname := ''3000'', enabled := PORT_DISABLED, acceptfd := -1\<rparr>) demo_port]\<rparr>) =
   Some (Inl Out_of_bounds)"
proof -
  obtain c where c: "parse_port demo_env demo_config [] [] ''3000'' ''raw'' ''0'' ''tty'' ''9600'' 1
     (init_port_data ((cb_data demo_port)\<lparr>self := 5, timer := 9\<rparr>)) = Inr (None, c)" using demo_parse by auto
  show ?thesis
    by (rule disabled_port_reload_fault [OF _ _ _ c, where q = 0 and ?qs1.0 = "[]" and ?qs2.0 = "[]"])
      (simp_all add: fresh_port_def demo_server_def demo_config_def demo_port_def, simp_all add: demo_conn_def)
qed

text \<open>C23: Freeing a port always returns when the configurations that wait for it form a chain without
  a cycle: it frees exactly the port and the chain, whatever their number.
\<close>

theorem free_port_terminates:
  assumes "pending sv p qs" and "distinct (p # qs)" and "\<forall>r \<in> set (p # qs). closable (gsel sv) (conn_of sv r)"
  shows "\<exists>sv'. free_port e n p sv = Some (Inr sv') \<and> port_list sv' = port_list sv \<and>
    objs sv' = (\<lambda>r. if r \<in> set (p # qs) then None else objs sv r)"
  by (rule free_port_chain [OF assms])

theorem free_port_terminates_witness:
  "\<exists>sv'. free_port demo_env demo_startup 0
     (demo_server\<lparr>objs := [0 \<mapsto> upd_conn (\<lambda>c. c\<lparr>new_config := Some 5\<rparr>) demo_port, 5 \<mapsto> demo_port, 6 \<mapsto> demo_port]\<rparr>) =
     Some (Inr sv') \<and> objs sv' = [6 \<mapsto> demo_port]"
proof -
  define sv where "sv = demo_server\<lparr>objs := [0 \<mapsto> upd_conn (\<lambda>c. c\<lparr>new_config := Some 5\<rparr>) demo_port, 5 \<mapsto> demo_port, 6 \<mapsto> demo_port]\<rparr>"
  have "pending sv 0 [5]" "distinct [0::nat, 5]" "\<forall>r \<in> set [0, 5]. closable (gsel sv) (conn_of sv r)"
    by (simp_all add: sv_def demo_server_def demo_port_def conn_of_def closable_def demo_timers_def fd_ok_def FD_SETSIZE_def)
      (simp_all add: demo_conn_def)
  from free_port_terminates [OF this, of demo_env demo_startup] obtain sv' where
    "free_port demo_env demo_startup 0 sv = Some (Inr sv')"
    "objs sv' = (\<lambda>r. if r \<in> set [0, 5] then None else objs sv r)" by blast
  then show ?thesis by (auto simp: sv_def fun_eq_iff)
qed

end
