(* ===== verification/Controller_Output.thy ===== *)
theory Controller_Output
  imports Controller_Read Server_Props
begin

text \<open>The output of a control connection: the buffer refines a queue of bytes.\<close>

section \<open>The buffer\<close>

definition ctl_ok :: "ctrl \<Rightarrow> bool" where
  "ctl_ok c \<longleftrightarrow> fd_ok (c_tcpfd c) \<and>
     (case outbuf c of
        None \<Rightarrow> outbuf_count c = 0
      | Some buf \<Rightarrow> int (length buf) = outbufsize c \<and> 0 \<le> outbuf_pos c \<and> 0 \<le> outbuf_count c \<and>
          outbuf_pos c + outbuf_count c \<le> outbufsize c)"

definition queued :: "ctrl \<Rightarrow> byte list" where
  "queued c = (case outbuf c of None \<Rightarrow> [] | Some buf \<Rightarrow> take (nat (outbuf_count c)) (drop (nat (outbuf_pos c)) buf))"

lemma shift_fold_nth:
  assumes "a \<le> m" and "m + c \<le> length buf"
  shows "length (fold (\<lambda>i b. b[i := b ! (i + c)]) [a..<m] buf) = length buf \<and>
    (\<forall>i < length buf. fold (\<lambda>i b. b[i := b ! (i + c)]) [a..<m] buf ! i = (if a \<le> i \<and> i < m then buf ! (i + c) else buf ! i))"
  using assms
proof (induction m)
  case (Suc m)
  show ?case
  proof (cases "a = Suc m")
    case False
    with Suc show ?thesis by (auto simp: nth_list_update less_Suc_eq)
  qed auto
qed simp

lemma shift_fold:
  assumes "a \<le> m" and "m + c \<le> length buf"
  shows "fold (\<lambda>i b. b[i := b ! (i + c)]) [a..<m] buf = take a buf @ take (m - a) (drop (a + c) buf) @ drop m buf"
proof -
  have "length (take (m - a) (drop (a + c) buf)) = m - a" "length (take a buf) = a" using assms by simp_all
  then show ?thesis using shift_fold_nth [OF assms] assms
    by (intro nth_equalityI) (auto simp: nth_append add_ac simp del: length_take)
qed

lemma fold_copy_down:
  assumes "ps + n \<le> length buf"
  shows "copy_down ps n buf = take n (drop ps buf) @ drop n buf"
  using shift_fold [of 0 n ps buf] assms by (simp add: copy_down_def add.commute)

lemma block_size_bound: "n < block_size n"
  unfolding block_size_def by (simp add: minus_mod_eq_div_mult [symmetric])

text \<open>What \<^const>\<open>read_off\<close> and \<^const>\<open>read_on\<close> do.\<close>

lemma read_off_ok:
  assumes "fd_ok (c_tcpfd c)"
  shows "\<exists>s. read_off c = Inr (c\<lparr>c_sel := s\<rparr>) \<and> read_set s = read_set (c_sel c) - {nat (c_tcpfd c)} \<and>
    write_set s = insert (nat (c_tcpfd c)) (write_set (c_sel c)) \<and> fds s = fds (c_sel c) \<and> timers s = timers (c_sel c)"
  using assms
  by (intro exI [of _ "c_sel c\<lparr>read_set := read_set (c_sel c) - {nat (c_tcpfd c)}, write_set := insert (nat (c_tcpfd c)) (write_set (c_sel c))\<rparr>"])
    (simp add: read_off_def c_with_sel_def sel_set_fd_read_handler_def sel_set_fd_write_handler_def change_set_def)

lemma read_on_ok:
  assumes "fd_ok (c_tcpfd c)"
  shows "\<exists>s. read_on c = Inr (c\<lparr>c_sel := s\<rparr>) \<and> read_set s = insert (nat (c_tcpfd c)) (read_set (c_sel c)) \<and>
    write_set s = write_set (c_sel c) - {nat (c_tcpfd c)} \<and> fds s = fds (c_sel c) \<and> timers s = timers (c_sel c)"
  using assms
  by (intro exI [of _ "c_sel c\<lparr>read_set := insert (nat (c_tcpfd c)) (read_set (c_sel c)), write_set := write_set (c_sel c) - {nat (c_tcpfd c)}\<rparr>"])
    (simp add: read_on_def c_with_sel_def sel_set_fd_read_handler_def sel_set_fd_write_handler_def change_set_def)

text \<open>The fields that output leaves alone.\<close>

definition same_ctrl :: "ctrl \<Rightarrow> ctrl \<Rightarrow> bool" where
  "same_ctrl c c' \<longleftrightarrow> c' = c\<lparr>outbuf := outbuf c', outbufsize := outbufsize c', outbuf_pos := outbuf_pos c',
     outbuf_count := outbuf_count c', c_sel := c_sel c', c_out := c_out c'\<rparr>"

lemma same_ctrlD:
  assumes "same_ctrl c c'"
  shows "monitor_port_id c' = monitor_port_id c" "c_tcpfd c' = c_tcpfd c" "inbuf c' = inbuf c" "inbuf_count c' = inbuf_count c"
proof -
  obtain a1 a2 a3 a4 a5 a6 where c': "c' = c\<lparr>outbuf := a1, outbufsize := a2, outbuf_pos := a3, outbuf_count := a4, c_sel := a5, c_out := a6\<rparr>"
    using assms unfolding same_ctrl_def by blast
  show "monitor_port_id c' = monitor_port_id c" "c_tcpfd c' = c_tcpfd c" "inbuf c' = inbuf c" "inbuf_count c' = inbuf_count c"
    unfolding c' by simp_all
qed

lemma same_ctrl_trans: "same_ctrl c c1 \<Longrightarrow> same_ctrl c1 c2 \<Longrightarrow> same_ctrl c c2"
proof -
  assume "same_ctrl c c1" and "same_ctrl c1 c2"
  then obtain a1 a2 a3 a4 a5 a6 b1 b2 b3 b4 b5 b6 where
    1: "c1 = c\<lparr>outbuf := a1, outbufsize := a2, outbuf_pos := a3, outbuf_count := a4, c_sel := a5, c_out := a6\<rparr>"
    and 2: "c2 = c1\<lparr>outbuf := b1, outbufsize := b2, outbuf_pos := b3, outbuf_count := b4, c_sel := b5, c_out := b6\<rparr>"
    unfolding same_ctrl_def by blast
  show ?thesis unfolding 2 unfolding 1 by (simp add: same_ctrl_def)
qed

lemma output_data_ok:
  assumes "ctl_ok c"
  shows "\<exists>c'. output_data mem bs c = Inr c' \<and> ctl_ok c' \<and> same_ctrl c c' \<and> c_out c' = c_out c \<and>
    (queued c' = queued c @ bs \<or> \<not> mem \<and> c' = c)"
proof (cases "outbuf c")
  case None
  define n where "n = nat (block_size (int (length bs)))"
  have n: "length bs < n" "int n = block_size (int (length bs))"
    using block_size_bound [of "int (length bs)"] by (auto simp: n_def)
  have w: "write_at 0 bs (replicate n 0) = Inr (bs @ replicate (n - length bs) 0)"
    using n(1) by (simp add: write_at_def)
  define c1 where "c1 = c\<lparr>outbufsize := int n, outbuf := Some (bs @ replicate (n - length bs) 0), outbuf_pos := 0,
    outbuf_count := int (length bs)\<rparr>"
  have "fd_ok (c_tcpfd c1)" using assms by (simp add: c1_def ctl_ok_def)
  then obtain s where "read_off c1 = Inr (c1\<lparr>c_sel := s\<rparr>)" using read_off_ok by blast
  then have "output_data mem bs c = Inr (if mem then c1\<lparr>c_sel := s\<rparr> else c)"
    using None w n(2) by (simp add: output_data_def Let_def c1_def n_def [symmetric])
  moreover have "ctl_ok (c1\<lparr>c_sel := s\<rparr>)" "queued (c1\<lparr>c_sel := s\<rparr>) = bs" "same_ctrl c (c1\<lparr>c_sel := s\<rparr>)"
    using assms n(1) by (simp_all add: ctl_ok_def queued_def c1_def same_ctrl_def)
  moreover have "queued c = []" using None by (simp add: queued_def)
  ultimately show ?thesis using assms by (cases mem) (auto simp: same_ctrl_def c1_def)
next
  case (Some buf)
  define ps cnt where "ps = nat (outbuf_pos c)" and "cnt = nat (outbuf_count c)"
  have b: "outbuf_pos c = int ps" "outbuf_count c = int cnt" "ps + cnt \<le> length buf" "outbufsize c = int (length buf)"
    using assms Some by (auto simp: ctl_ok_def ps_def cnt_def)
  have old: "from_buf buf ps (int cnt) = Inr (take cnt (drop ps buf))" using b(3) by (simp add: from_buf_def)
  define old where "old = take cnt (drop ps buf)"
  have lo: "length old = cnt" using b(3) by (simp add: old_def)
  have q: "queued c = old" using Some by (simp add: queued_def b(1,2) old_def)
  show ?thesis
  proof (cases "cnt + length bs \<le> length buf")
    case True
    define buf1 where "buf1 = (if 0 < ps then copy_down ps cnt buf else buf)"
    have "buf1 = old @ drop cnt buf" using fold_copy_down [OF b(3)] by (cases ps) (simp_all add: buf1_def old_def)
    then have "write_at cnt bs buf1 = Inr (old @ bs @ drop (cnt + length bs) buf)"
      using True lo b(3) by (simp add: write_at_def add.commute)
    then have "output_data mem bs c = Inr (c\<lparr>outbuf := Some (old @ bs @ drop (cnt + length bs) buf), outbuf_pos := 0,
        outbuf_count := int cnt + int (length bs)\<rparr>)"
      using Some True old by (cases "0 < ps") (simp_all add: output_data_def Let_def b(1,2,4) buf1_def old_def)
    moreover have "nat (int cnt + int (length bs)) = cnt + length bs" by simp
    ultimately show ?thesis using assms True lo q b
      by (auto simp: ctl_ok_def queued_def same_ctrl_def)
  next
    case False
    define n where "n = nat (block_size (int cnt + int (length bs)))"
    have n: "cnt + length bs < n" "int n = block_size (int cnt + int (length bs))"
      using block_size_bound [of "int cnt + int (length bs)"] by (auto simp: n_def)
    have "write_at 0 old (replicate n 0) = Inr (old @ replicate (n - cnt) 0)"
      using n(1) lo by (simp add: write_at_def)
    moreover have "write_at cnt bs (old @ replicate (n - cnt) 0) = Inr (old @ bs @ replicate (n - cnt - length bs) 0)"
      using n(1) lo by (simp add: write_at_def)
    ultimately have "output_data mem bs c = Inr (if mem then c\<lparr>outbufsize := int n, outbuf := Some (old @ bs @ replicate (n - cnt - length bs) 0),
        outbuf_pos := 0, outbuf_count := int cnt + int (length bs)\<rparr> else c)"
      using Some False old n(2) by (simp add: output_data_def Let_def b(1,2,4) n_def [symmetric] old_def [symmetric])
    moreover have "nat (int cnt + int (length bs)) = cnt + length bs" by simp
    ultimately show ?thesis using assms n(1) lo q b
      by (cases mem) (auto simp: ctl_ok_def queued_def same_ctrl_def)
  qed
qed

lemma flush_data_ok:
  assumes "ctl_ok c"
  shows "\<exists>ok c'. flush_data wr c = Inr (ok, c') \<and> ctl_ok c' \<and> same_ctrl c c' \<and> c_out c' @ queued c' = c_out c @ queued c \<and>
    (queued c' = [] \<longrightarrow> wr = Written n \<longrightarrow> nat (c_tcpfd c) \<in> read_set (c_sel c')) \<and> (ok \<longleftrightarrow> (\<forall>x. wr = Write_failed x \<longrightarrow> x = EAGAIN))"
proof (cases wr)
  case (Write_failed x)
  with assms show ?thesis by (auto simp: flush_data_def same_ctrl_def)
next
  case (Written n)
  have bs: "(case outbuf c of None \<Rightarrow> if outbuf_count c = 0 then Inr [] else Inl Null_pointer
      | Some buf \<Rightarrow> from_buf buf (nat (outbuf_pos c)) (outbuf_count c)) = Inr (queued c)"
    "int (length (queued c)) = outbuf_count c"
    using assms by (auto simp: ctl_ok_def queued_def from_buf_def split: option.splits)
  define sent where "sent = take n (queued c)"
  define c1 where "c1 = c\<lparr>outbuf_count := outbuf_count c - int (length sent), c_out := c_out c @ sent\<rparr>"
  have fd: "fd_ok (c_tcpfd c)" and len: "length sent \<le> length (queued c)" using assms by (simp_all add: ctl_ok_def sent_def)
  have run: "flush_data wr c =
      (if outbuf_count c1 \<noteq> 0 then Inr (True, c1\<lparr>outbuf_pos := outbuf_pos c1 + int (length sent)\<rparr>)
       else bind_res (read_on (c1\<lparr>outbuf := None\<rparr>)) (\<lambda>c2. Inr (True, c2)))"
    using Written bs(1) by (simp add: flush_data_def Let_def sent_def c1_def)
  show ?thesis
  proof (cases "outbuf_count c1 = 0")
    case True
    have "fd_ok (c_tcpfd (c1\<lparr>outbuf := None\<rparr>))" using fd by (simp add: c1_def)
    from read_on_ok [OF this] obtain s where s: "read_on (c1\<lparr>outbuf := None\<rparr>) = Inr (c1\<lparr>outbuf := None, c_sel := s\<rparr>)"
      "read_set s = insert (nat (c_tcpfd c)) (read_set (c_sel c1))" by (auto simp: c1_def)
    have "length sent = length (queued c)" using True bs(2) by (simp add: c1_def)
    then have "sent = queued c" by (auto simp: sent_def)
    then have "flush_data wr c = Inr (True, c1\<lparr>outbuf := None, c_sel := s\<rparr>)" "ctl_ok (c1\<lparr>outbuf := None, c_sel := s\<rparr>)"
      "same_ctrl c (c1\<lparr>outbuf := None, c_sel := s\<rparr>)" "c_out (c1\<lparr>outbuf := None, c_sel := s\<rparr>) = c_out c @ queued c"
      "queued (c1\<lparr>outbuf := None, c_sel := s\<rparr>) = []"
      using True fd s run by (simp_all add: ctl_ok_def c1_def same_ctrl_def queued_def)
    with s(2) Written show ?thesis by auto
  next
    case False
    then obtain buf where buf: "outbuf c = Some buf"
      using bs(2) assms by (cases "outbuf c") (auto simp: ctl_ok_def c1_def sent_def queued_def)
    define c2 where "c2 = c1\<lparr>outbuf_pos := outbuf_pos c1 + int (length sent)\<rparr>"
    have b: "int (length buf) = outbufsize c" "0 \<le> outbuf_pos c" "0 \<le> outbuf_count c" "outbuf_pos c + outbuf_count c \<le> outbufsize c"
      using assms buf by (simp_all add: ctl_ok_def)
    have "nat (outbuf_count c - int (length sent)) = nat (outbuf_count c) - length sent"
      "nat (outbuf_pos c + int (length sent)) = nat (outbuf_pos c) + length sent" using b by simp_all
    then have q: "queued c2 = drop (length sent) (queued c)"
      using buf by (simp add: queued_def c2_def c1_def drop_take add.commute)
    have split: "sent @ drop (length sent) (queued c) = queued c"
      by (cases "n \<le> length (queued c)") (simp_all add: sent_def)
    have "ctl_ok c2" using fd buf len bs(2) b by (simp add: ctl_ok_def c2_def c1_def)
    moreover have "c_out c2 @ queued c2 = c_out c @ queued c" using split by (simp add: q) (simp add: c2_def c1_def)
    moreover have "queued c2 \<noteq> []" using q False len bs(2) by (auto simp: c1_def)
    moreover have "flush_data wr c = Inr (True, c2)" "same_ctrl c c2" using False run by (simp_all add: c2_def c1_def same_ctrl_def)
    ultimately show ?thesis using Written by auto
  qed
qed


section \<open>The connections that are open\<close>

definition same_controllers :: "world \<Rightarrow> world \<Rightarrow> bool" where
  "same_controllers w w' \<longleftrightarrow> controllers w' = controllers w \<and> num_controller_ports w' = num_controller_ports w \<and>
     (\<forall>j. ctls w' j = None \<longleftrightarrow> ctls w j = None)"

text \<open>A computation that starts in \<open>w\<close> opens and closes no control connection.\<close>

definition preserves :: "world \<Rightarrow> world run \<Rightarrow> bool" where
  "preserves w r \<longleftrightarrow> (\<forall>w'. r = Some (Inr w') \<longrightarrow> same_controllers w w')"

definition preserves_pair :: "world \<Rightarrow> ('a \<times> world) run \<Rightarrow> bool" where
  "preserves_pair w r \<longleftrightarrow> (\<forall>x w'. r = Some (Inr (x, w')) \<longrightarrow> same_controllers w w')"

named_theorems preserve_intros \<open>no control connection is opened or closed\<close>

lemma same_controllers_refl [simp]: "same_controllers w w"
  by (simp add: same_controllers_def)

lemma same_controllers_trans: "same_controllers w w1 \<Longrightarrow> same_controllers w1 w2 \<Longrightarrow> same_controllers w w2"
  by (simp add: same_controllers_def)

lemma set_srv_fields [simp]:
  "controllers (set_srv sv w) = controllers w" "num_controller_ports (set_srv sv w) = num_controller_ports w"
  "ctls (set_srv sv w) = ctls w" "ctl_cmds (set_srv sv w) = ctl_cmds w" "srv (set_srv sv w) = sv"
  by (simp_all add: set_srv_def)

lemma store_ctl_fields [simp]:
  "controllers (store_ctl k td w) = controllers w" "num_controller_ports (store_ctl k td w) = num_controller_ports w"
  "ctls (store_ctl k td w) = (ctls w)(k \<mapsto> td)" "ctl_cmds (store_ctl k td w) = cmds td"
  "srv (store_ctl k td w) = (srv w)\<lparr>gsel := c_sel (cb_data td)\<rparr>"
  by (simp_all add: store_ctl_def)

lemma next_alloc_fields:
  assumes "next_alloc w = (mem, w1)"
  shows "controllers w1 = controllers w \<and> num_controller_ports w1 = num_controller_ports w \<and> ctls w1 = ctls w \<and>
    ctl_cmds w1 = ctl_cmds w \<and> rdr w1 = rdr w"
  using assms by (auto simp: next_alloc_def split: list.splits)

lemma load_ctl_eq: "load_ctl k w = Inr td \<Longrightarrow> ctls w k \<noteq> None"
  by (auto simp: load_ctl_def split: option.splits)

lemma preserves_ret [preserve_intros]: "preserves w (Some (Inr w))"
  by (simp add: preserves_def)

lemma preserves_set_srv [preserve_intros]: "preserves w (Some (Inr (set_srv sv w)))"
  by (simp add: preserves_def same_controllers_def)

lemma preserves_pair_ret [preserve_intros]: "preserves_pair w (Some (Inr (x, w)))"
  by (simp add: preserves_pair_def)

lemma preserves_bind [preserve_intros]: "preserves w r \<Longrightarrow> (\<And>w1. preserves w1 (g w1)) \<Longrightarrow> preserves w (bind_run r g)"
  unfolding preserves_def bind_run_eq_Inr by (metis same_controllers_trans)

lemma preserves_bind_pair [preserve_intros]:
  "preserves_pair w r \<Longrightarrow> (\<And>x w1. preserves w1 (g x w1)) \<Longrightarrow> preserves w (bind_run r (\<lambda>(x, w1). g x w1))"
  unfolding preserves_def preserves_pair_def bind_run_eq_Inr by (metis same_controllers_trans case_prod_conv old.prod.exhaust)

lemma preserves_pair_bind [preserve_intros]: "preserves w r \<Longrightarrow> (\<And>w1. preserves_pair w1 (g w1)) \<Longrightarrow> preserves_pair w (bind_run r g)"
  unfolding preserves_def preserves_pair_def bind_run_eq_Inr by (metis same_controllers_trans)

text \<open>A first part that does not change the state.\<close>

lemma preserves_read: "(\<And>x. preserves w (g x)) \<Longrightarrow> preserves w (bind_run r g)"
  "(\<And>x. preserves_pair w (h x)) \<Longrightarrow> preserves_pair w (bind_run r h)"
  by (auto simp: preserves_def preserves_pair_def bind_run_eq_Inr)

lemma preserves_if [preserve_intros]: "preserves w r \<Longrightarrow> preserves w s \<Longrightarrow> preserves w (if b then r else s)"
  "preserves_pair w p \<Longrightarrow> preserves_pair w q \<Longrightarrow> preserves_pair w (if b then p else q)"
  by simp_all

lemma preserves_option [preserve_intros]:
  "preserves w r \<Longrightarrow> (\<And>y. preserves w (f y)) \<Longrightarrow> preserves w (case x of None \<Rightarrow> r | Some y \<Rightarrow> f y)"
  "preserves_pair w p \<Longrightarrow> (\<And>y. preserves_pair w (h y)) \<Longrightarrow> preserves_pair w (case x of None \<Rightarrow> p | Some y \<Rightarrow> h y)"
  by (simp_all split: option.split)

lemma preserves_prod [preserve_intros]: "(\<And>a b. preserves w (f a b)) \<Longrightarrow> preserves w (case x of (a, b) \<Rightarrow> f a b)"
  by (simp split: prod.split)

lemma preserves_alloc: "(\<And>mem w1. preserves w1 (g mem w1)) \<Longrightarrow> preserves w (case next_alloc w of (mem, w1) \<Rightarrow> g mem w1)"
  by (cases "next_alloc w") (auto simp: preserves_def same_controllers_def dest!: next_alloc_fields)

lemma preserves_on_srv [preserve_intros]: "preserves w (on_srv f w)"
  by (auto simp: preserves_def on_srv_def bind_run_eq_Inr same_controllers_def)

lemma preserves_on_ctl [preserve_intros]: "preserves w (on_ctl k f w)"
  by (auto simp: preserves_def on_ctl_def bind_res_eq_Inr same_controllers_def dest: load_ctl_eq split: if_splits)

lemma preserves_with_ctl [preserve_intros]: "preserves_pair w (with_ctl k f w)"
  by (auto simp: preserves_pair_def with_ctl_def bind_res_eq_Inr same_controllers_def dest: load_ctl_eq split: if_splits)

lemma preserves_output [preserve_intros]: "preserves w (controller_output k bs w)"
  unfolding controller_output_def Let_def by (intro preserves_alloc preserves_on_ctl)

lemma preserves_text [preserve_intros]: "preserves w (output_text k s w)"
  unfolding output_text_def by (rule preserves_output)

lemma preserves_texts [preserve_intros]: "preserves w (output_texts k ss w)"
  by (induction ss arbitrary: w) (auto intro: preserve_intros)

section \<open>Commands open and close no connection\<close>

lemma preserves_show_one [preserve_intros]: "preserves w (show_one f e k p w)"
  unfolding show_one_def by (intro preserves_read preserves_texts)

lemma preserves_show_list [preserve_intros]: "preserves w (show_list f e k ps w)"
  by (induction ps arbitrary: w) (auto intro: preserve_intros)

lemma preserves_find [preserve_intros]: "(\<And>p w. preserves w (f p w)) \<Longrightarrow> preserves w (find_or_complain k s f w)"
  unfolding find_or_complain_def by (rule preserves_read) (intro preserve_intros)

lemma preserves_show [preserve_intros]: "preserves w (showports e k s w)" "preserves w (showshortports e k s w)"
proof -
  have "preserves w (show_spec f e k s w)" for f w unfolding show_spec_def by (intro preserve_intros)
  then show "preserves w (showports e k s w)" "preserves w (showshortports e k s w)"
    unfolding showports_def showshortports_def by (auto intro: preserve_intros)
qed

lemma preserves_from_srv: "(\<And>w. preserves w (f w)) \<Longrightarrow> preserves w (f (set_srv sv w))"
  by (auto simp: preserves_def same_controllers_def)

lemma preserves_setters [preserve_intros]:
  "preserves w (setporttimeout k s t w)" "preserves w (setportdevcfg e k s d w)" "preserves w (setportcontrol k s d w)"
  "preserves w (setportenable e k s d w)" "preserves w (disconnect_port e k s w)"
proof -
  show "preserves w (setporttimeout k s t w)" unfolding setporttimeout_def
    by (intro preserves_find, rule preserves_read) (intro preserve_intros)
  show "preserves w (setportdevcfg e k s d w)" unfolding setportdevcfg_def Let_def
    by (intro preserves_find preserves_alloc, rule preserves_read) (intro preserve_intros)
  show "preserves w (setportcontrol k s d w)" unfolding setportcontrol_def Let_def
    by (intro preserves_find, rule preserves_read, intro preserves_if preserves_alloc preserves_texts, rule preserves_read) (intro preserve_intros)
  show "preserves w (setportenable e k s d w)" unfolding setportenable_def
    by (intro preserves_find preserves_option preserves_texts, rule preserves_read)
      (intro preserve_intros preserves_from_srv)
  show "preserves w (disconnect_port e k s w)" unfolding disconnect_port_def
    by (intro preserves_find, rule preserves_read) (intro preserve_intros)
qed


lemma preserves_stop_monitor [preserve_intros]: "preserves w (stop_monitor k w)"
  unfolding stop_monitor_def by (rule preserves_read) (intro preserve_intros)

lemma preserves_monitor_start [preserve_intros]: "preserves_pair w (data_monitor_start k ty s w)"
  unfolding data_monitor_start_def Let_def
  by (rule preserves_read(2), rule preserves_option(2), intro preserve_intros, rule preserves_read(2)) (intro preserve_intros)

lemma preserves_complain [preserve_intros]: "preserves w (complain k s w)"
  unfolding complain_def by (rule preserves_text)

lemma preserves_monitor_command [preserve_intros]: "preserves w (monitor_command k rest w)"
  unfolding monitor_command_def Let_def
  by (intro preserves_prod preserves_option preserves_if preserves_complain preserves_stop_monitor, rule preserves_read) (intro preserve_intros)

lemma preserves_parameters [preserve_intros]: "(\<And>a b w. preserves w (f a b w)) \<Longrightarrow> preserves w (two_parameters k delim missing rest f w)"
  unfolding two_parameters_def Let_def by (intro preserve_intros)

text \<open>The list has the open connections, and their number is counted; there are at most four.\<close>

definition world_ok :: "world \<Rightarrow> bool" where
  "world_ok w \<longleftrightarrow> distinct (controllers w) \<and> num_controller_ports w = int (length (controllers w)) \<and>
     num_controller_ports w \<le> max_controller_ports \<and> (\<forall>k. k \<in> set (controllers w) \<longleftrightarrow> ctls w k \<noteq> None)"

definition sound :: "world \<Rightarrow> world run \<Rightarrow> bool" where
  "sound w r \<longleftrightarrow> (world_ok w \<longrightarrow> (\<forall>w'. r = Some (Inr w') \<longrightarrow> world_ok w'))"

lemma sound_preserves: "preserves w r \<Longrightarrow> sound w r"
  by (auto simp: sound_def preserves_def same_controllers_def world_ok_def)

lemma sound_bind: "sound w r \<Longrightarrow> (\<And>w1. sound w1 (g w1)) \<Longrightarrow> sound w (bind_run r g)"
  unfolding sound_def bind_run_eq_Inr by blast

lemma sound_bind_pair:
  assumes "preserves_pair w r" and "\<And>x w1. sound w1 (g x w1)"
  shows "sound w (bind_run r (\<lambda>(x, w1). g x w1))"
proof -
  have "world_ok w1" if "world_ok w" "r = Some (Inr (x, w1))" for x w1
    using assms(1) that by (auto simp: preserves_pair_def same_controllers_def world_ok_def)
  with assms(2) show ?thesis unfolding sound_def bind_run_eq_Inr by (metis case_prod_conv old.prod.exhaust)
qed

lemma sound_cases:
  "sound w r \<Longrightarrow> sound w s \<Longrightarrow> sound w (if b then r else s)"
  "sound w r \<Longrightarrow> (\<And>y. sound w (f y)) \<Longrightarrow> sound w (case x of None \<Rightarrow> r | Some y \<Rightarrow> f y)"
  "(\<And>a b. sound w (g a b)) \<Longrightarrow> sound w (case z of (a, b) \<Rightarrow> g a b)"
  by (simp_all split: option.split prod.split)

lemma sound_read: "(\<And>x. sound w (g x)) \<Longrightarrow> sound w (bind_run r g)"
  unfolding sound_def bind_run_eq_Inr by blast

lemma closed_ok:
  assumes "world_ok w"
  shows "world_ok (w\<lparr>controllers := remove1 k (controllers w),
       num_controller_ports := num_controller_ports w - (if k \<in> set (controllers w) then 1 else 0), ctls := (ctls w)(k := None)\<rparr>)"
proof -
  have "int (length (remove1 k (controllers w))) = int (length (controllers w)) - (if k \<in> set (controllers w) then 1 else 0)"
    using length_pos_if_in_set [of k "controllers w"] by (auto simp: length_remove1 Suc_leI)
  with assms show ?thesis by (simp add: world_ok_def)
qed

lemma sound_shutdown: "sound w (shutdown_controller k w)"
  unfolding shutdown_controller_def
proof (intro sound_bind)
  show "sound w (stop_monitor k w)" by (intro sound_preserves preserve_intros)
  show "sound w (on_ctl k (\<lambda>c. c_with_sel (\<lambda>s. sel_clear_fd_handlers s (c_tcpfd c)) c) w)" for w by (intro sound_preserves preserve_intros)
  show "sound w (Some (Inr (w\<lparr>controllers := remove1 k (controllers w),
       num_controller_ports := num_controller_ports w - (if k \<in> set (controllers w) then 1 else 0),
       ctls := (ctls w)(k := None)\<rparr>)))" for w
    using closed_ok [of w k] by (simp add: sound_def)
qed

lemma sound_process: "sound w (process_input_line e k line w)"
  unfolding process_input_line_def Let_def
  by (intro sound_cases sound_shutdown; intro sound_preserves preserve_intros)


end
