(* ===== verification/Controller_Edit.thy ===== *)
theory Controller_Edit
  imports Controller_Output Telnet_Props
begin

text \<open>The editing of the input buffer: the loop is a byte-wise automaton on the current line.\<close>

section \<open>Moving bytes\<close>

lemma upto_upt: "a \<le> m \<Longrightarrow> [int a..int m - 1] = map int [a..<m]"
proof (induction m)
  case (Suc m)
  show ?case
  proof (cases "a = Suc m")
    case False
    then have "[int a..int (Suc m) - 1] = [int a..int m - 1] @ [int m]" using Suc.prems by (simp add: upto_rec2)
    then show ?thesis using Suc False by simp
  qed simp
qed simp

lemma remove_chars_eq:
  assumes "c \<le> Suc i" and "i < cnt" and "cnt \<le> length buf"
  shows "remove_chars buf (int cnt) (int i) (int c) =
    take (Suc i - c) buf @ take (cnt - Suc i) (drop (Suc i) buf) @ drop (cnt - c) buf"
proof -
  have "[int i - int c + 1..int cnt - int c - 1] = map int [Suc i - c..<cnt - c]"
    using upto_upt [of "Suc i - c" "cnt - c"] assms by (simp add: algebra_simps)
  moreover have "nat (int j + int c) = j + c" for j by simp
  ultimately have "remove_chars buf (int cnt) (int i) (int c) = fold (\<lambda>j b. b[j := b ! (j + c)]) [Suc i - c..<cnt - c] buf"
    by (simp add: remove_chars_def fold_map comp_def)
  then show ?thesis using shift_fold [of "Suc i - c" "cnt - c" c buf] assms by simp
qed

lemma drop_line_eq:
  assumes "i < cnt" and "cnt \<le> length buf"
  shows "drop_line buf (int cnt) (int i) = take (cnt - Suc i) (drop (Suc i) buf) @ drop (cnt - Suc i) buf"
proof -
  have "[0..int cnt - (int i + 1) - 1] = map int [0..<cnt - Suc i]"
    using upto_upt [of 0 "cnt - Suc i"] assms by (simp add: algebra_simps)
  moreover have "nat (int i + 1 + int j) = j + Suc i" for j by simp
  ultimately have "drop_line buf (int cnt) (int i) = fold (\<lambda>j b. b[j := b ! (j + Suc i)]) [0..<cnt - Suc i] buf"
    by (simp add: drop_line_def fold_map comp_def)
  then show ?thesis using shift_fold [of 0 "cnt - Suc i" "Suc i" buf] assms by simp
qed

section \<open>The automaton\<close>

text \<open>\<open>cur\<close> is the line so far.\<close>

fun edit :: "control_env \<Rightarrow> nat \<Rightarrow> byte list \<Rightarrow> byte list \<Rightarrow> world \<Rightarrow> (byte list \<times> world) run" where
  "edit e k cur [] w = Some (Inr (cur, w))"
| "edit e k cur (b # bs) w =
     (if b = 0 \<or> b = 10 then edit e k cur bs w
      else if b = 8 \<or> b = 0x7F then
        (if cur = [] then edit e k [] bs w
         else bind_run (controller_output k [8, 32, 8] w) (edit e k (butlast cur) bs))
      else if b = 13 then
        bind_run (output_text k newline w) (\<lambda>w1.
        bind_run (process_input_line e k (map (\<lambda>b. char_of (unat b)) cur) w1) (\<lambda>w2.
        if ctls w2 k = None then Some (Inl Dangling_pointer) else edit e k [] bs w2))
      else bind_run (controller_output k [b] w) (edit e k (cur @ [b]) bs))"

text \<open>The loop leaves the current line at the start of the buffer.\<close>

definition edits_to :: "nat \<Rightarrow> (byte list \<times> int \<times> world) run \<Rightarrow> (byte list \<times> world) run \<Rightarrow> bool" where
  "edits_to n r q \<longleftrightarrow>
     (case q of
        None \<Rightarrow> r = None
      | Some (Inl f) \<Rightarrow> r = Some (Inl f)
      | Some (Inr (cur, w)) \<Rightarrow>
          \<exists>buf. r = Some (Inr (buf, int (length cur), w)) \<and> length buf = n \<and> take (length cur) buf = cur \<and> 0 \<notin> set cur)"

lemma edits_to_bind:
  assumes "\<And>x. r = Some (Inr x) \<Longrightarrow> edits_to n (f x) (g x)"
  shows "edits_to n (bind_run r f) (bind_run r g)"
proof (cases r)
  case (Some q)
  then show ?thesis using assms by (cases q) (auto simp: edits_to_def)
qed (simp add: edits_to_def)

lemma c_line_eq:
  assumes "i < length buf" and "0 \<notin> set (take i buf)"
  shows "c_line (buf[i := 0]) = Inr (map (\<lambda>b. char_of (unat b)) (take i buf))"
proof -
  have "buf[i := 0] = take i buf @ 0 # drop (Suc i) buf" using assms(1) by (rule upd_conv_take_nth_drop)
  moreover have "takeWhile (\<lambda>b. b \<noteq> 0) (take i buf @ 0 # xs) = take i buf" for xs
  proof -
    have "\<forall>b \<in> set (take i buf). b \<noteq> 0" using assms(2) by auto
    then show ?thesis by simp
  qed
  ultimately show ?thesis by (simp add: c_line_def)
qed

lemma edit_loop_edits:
  assumes "i \<le> cnt" and "cnt \<le> length buf" and "0 \<notin> set (take i buf)"
  shows "edits_to (length buf) (edit_loop e k buf (int cnt) (int i) w) (edit e k (take i buf) (drop i (take cnt buf)) w)"
  using assms
proof (induction "cnt - i" arbitrary: buf cnt i w rule: less_induct)
  case less
  show ?case
  proof (cases "i = cnt")
    case True
    then show ?thesis using less.prems by (subst edit_loop.simps) (auto simp: edits_to_def)
  next
    case False
    then have i: "i < cnt" "i < length buf" using less.prems(1,2) by simp_all
    define b where "b = buf ! i"
    have rest: "drop i (take cnt buf) = b # drop (Suc i) (take cnt buf)"
      using i by (simp add: b_def Cons_nth_drop_Suc [symmetric])
    have nz: "b \<noteq> 0 \<Longrightarrow> 0 \<notin> set (take (Suc i) buf)" using less.prems(3) i by (simp add: b_def take_Suc_conv_app_nth)
    have idx: "\<not> int cnt \<le> int i" "\<not> (int i < 0 \<or> int (length buf) \<le> int i)" "nat (int i) = i" "buf ! i = b"
      using i by (simp_all add: b_def)
    note loop = edit_loop.simps [of e k buf "int cnt" "int i" w, unfolded Let_def idx(3,4) if_not_P [OF idx(1)] if_not_P [OF idx(2)]]
    have removed: "edits_to (length buf) (edit_loop e k (remove_chars buf (int cnt) (int i) (int c)) (int cnt - int c) (int (Suc i - c)) w')
        (edit e k (take (Suc i - c) buf) (drop (Suc i) (take cnt buf)) w')" if "0 < c" "c \<le> Suc i" for c w'
    proof -
      define buf1 where "buf1 = remove_chars buf (int cnt) (int i) (int c)"
      have eq: "buf1 = take (Suc i - c) buf @ take (cnt - Suc i) (drop (Suc i) buf) @ drop (cnt - c) buf"
        using remove_chars_eq [OF that(2) i(1) less.prems(2)] by (simp add: buf1_def)
      have l: "length buf1 = length buf" and t: "take (Suc i - c) buf1 = take (Suc i - c) buf"
        and d: "drop (Suc i - c) (take (cnt - c) buf1) = drop (Suc i) (take cnt buf)"
        using eq i less.prems(2) that by (simp_all add: drop_take)
      have "Suc i - c \<le> i" using that(1) by linarith
      then have "0 \<notin> set (take (Suc i - c) buf1)"
        using less.prems(3) t that(1) set_take_subset_set_take [of "Suc i - c" i buf] by auto
      moreover have "cnt - c - (Suc i - c) < cnt - i" using i that by linarith
      moreover have "int cnt - int c = int (cnt - c)" using i that by linarith
      ultimately show ?thesis
        using less.hyps [of "cnt - c" "Suc i - c" buf1 w'] i that less.prems(2) l t d by (simp add: buf1_def [symmetric])
    qed
    consider (ignored) "b = 0 \<or> b = 10 \<or> (b = 8 \<or> b = 0x7F) \<and> i = 0" | (erase) "b = 8 \<or> b = 0x7F" "0 < i"
      | (line) "b = 13" | (other) "b \<noteq> 0" "b \<noteq> 10" "b \<noteq> 8" "b \<noteq> 0x7F" "b \<noteq> 13" by blast
    then show ?thesis
    proof cases
      case ignored
      then show ?thesis using removed [of 1 w] unfolding loop rest by (elim disjE conjE) simp_all
    next
      case erase
      have "butlast (take i buf) = take (i - 1) buf" using i(2) by (simp add: butlast_take)
      moreover have "int i - 1 = int (i - 1)" using erase(2) by simp
      ultimately have "edits_to (length buf) (edit_loop e k (remove_chars buf (int cnt) (int i) 2) (int cnt - 2) (int i - 1) w')
          (edit e k (butlast (take i buf)) (drop (Suc i) (take cnt buf)) w')" for w'
        using removed [of 2 w'] erase(2) by simp
      moreover have "buf \<noteq> []" using i(2) by auto
      ultimately show ?thesis using erase i unfolding loop rest by (elim disjE) (simp_all add: edits_to_bind)
    next
      case line
      define buf1 where "buf1 = drop_line (buf[i := 0]) (int cnt) (int i)"
      have "buf1 = take (cnt - Suc i) (drop (Suc i) buf) @ drop (cnt - Suc i) (buf[i := 0])"
        using drop_line_eq [of i cnt "buf[i := 0]"] i less.prems(2) by (simp add: buf1_def)
      then have "length buf1 = length buf" "drop 0 (take (cnt - Suc i) buf1) = drop (Suc i) (take cnt buf)"
        using i less.prems(2) by (simp_all add: drop_take)
      then have "edits_to (length buf) (edit_loop e k buf1 (int (cnt - Suc i)) 0 w') (edit e k [] (drop (Suc i) (take cnt buf)) w')" for w'
        using less.hyps [of "cnt - Suc i" 0 buf1 w'] i less.prems(2) by simp
      moreover have "int (cnt - Suc i) = int cnt - (int i + 1)" using i by simp
      moreover have "edits_to n (Some (Inl f)) (Some (Inl f))" for n f by (simp add: edits_to_def)
      ultimately show ?thesis using line unfolding loop rest buf1_def
        by (simp add: c_line_eq [OF i(2) less.prems(3)] edits_to_bind)
    next
      case other
      have "edits_to (length buf) (edit_loop e k buf (int cnt) (int (Suc i)) w')
          (edit e k (take i buf @ [b]) (drop (Suc i) (take cnt buf)) w')" for w'
        using less.hyps [of cnt "Suc i" buf w'] i less.prems(2) nz other(1) by (simp add: b_def take_Suc_conv_app_nth)
      moreover have eq: "int i + 1 = int (Suc i)" by simp
      ultimately show ?thesis using other unfolding loop rest eq by (simp add: edits_to_bind del: of_nat_Suc)
    qed
  qed
qed


lemma bind_run_assoc: "bind_run (bind_run r f) g = bind_run r (\<lambda>x. bind_run (f x) g)"
  by (auto simp: bind_run_def split: option.split sum.split)

lemma bind_run_eqI: "(\<And>x. f x = g x) \<Longrightarrow> bind_run r f = bind_run r g"
  by (auto simp: bind_run_def split: option.split sum.split)

lemma edit_append:
  "edit e k cur (xs @ ys) w = bind_run (edit e k cur xs w) (\<lambda>(cur', w'). edit e k cur' ys w')"
proof (induction e k cur xs w rule: edit.induct)
  case (2 e k cur b bs w)
  then show ?case by (auto simp: bind_run_assoc intro!: bind_run_eqI)
qed simp

text \<open>The loop opens no connection and closes at most its own.\<close>

lemma sound_edit_loop:
  assumes "world_ok w" and "edit_loop e k buf cnt i w = Some (Inr (buf', cnt', w'))"
  shows "world_ok w'"
  using assms
proof (induction e k buf cnt i w rule: edit_loop.induct)
  case (1 e k buf cnt i w)
  have out: "world_ok w1" if "controller_output k xs w = Some (Inr w1)" for xs w1
    using sound_preserves [OF preserves_output] "1.prems"(1) that unfolding sound_def by blast
  have text': "world_ok w1" if "output_text k s w = Some (Inr w1)" for s w1
    using out [of "map char_byte s"] that by (simp add: output_text_def)
  have line: "world_ok w2" if "process_input_line e k l w1 = Some (Inr w2)" "world_ok w1" for l w1 w2
    using sound_process [of w1 e k l] that unfolding sound_def by blast
  show ?case
  proof (cases "cnt \<le> i \<or> i < 0 \<or> int (length buf) \<le> i")
    case True
    then show ?thesis using "1.prems" by (subst (asm) edit_loop.simps) (auto split: if_splits)
  next
    case False
    then have idx: "\<not> cnt \<le> i" "\<not> (i < 0 \<or> int (length buf) \<le> i)" by simp_all
    note loop = "1.prems"(2) [unfolded edit_loop.simps [of e k buf cnt i w] Let_def if_not_P [OF idx(1)] if_not_P [OF idx(2)]]
    note ih = "1.IH" [OF idx refl]
    let ?b = "buf ! nat i"
    consider (drop) "?b = 0 \<or> ?b = 10" | (front) "?b = 8 \<or> ?b = 0x7F" "i = 0" | (erase) "?b = 8 \<or> ?b = 0x7F" "i \<noteq> 0"
      | (eol) "?b = 13" | (other) "?b \<noteq> 0" "?b \<noteq> 10" "?b \<noteq> 8" "?b \<noteq> 0x7F" "?b \<noteq> 13" by blast
    then show ?thesis
    proof cases
      case drop
      then have "edit_loop e k (remove_chars buf cnt i 1) (cnt - 1) i w = Some (Inr (buf', cnt', w'))" using loop by auto
      then show ?thesis using ih(1) drop "1.prems"(1) by blast
    next
      case front
      then have ne: "\<not> (?b = 0 \<or> ?b = 10)" by auto
      have "edit_loop e k (remove_chars buf cnt i 1) (cnt - 1) i w = Some (Inr (buf', cnt', w'))"
        using loop front by (elim disjE) simp_all
      then show ?thesis using ih(2) [OF ne front "1.prems"(1)] by blast
    next
      case erase
      then have ne: "\<not> (?b = 0 \<or> ?b = 10)" by auto
      obtain w1 where "controller_output k [8, 32, 8] w = Some (Inr w1)"
        "edit_loop e k (remove_chars buf cnt i 2) (cnt - 2) (i - 1) w1 = Some (Inr (buf', cnt', w'))"
        using loop erase by (elim disjE) (auto simp: bind_run_eq_Inr)
      then show ?thesis using ih(3) [OF ne erase(1)] erase(2) out by blast
    next
      case eol
      then have ne: "\<not> (?b = 0 \<or> ?b = 10)" "\<not> (?b = 8 \<or> ?b = 0x7F)" by auto
      obtain w1 l w2 where r: "output_text k newline w = Some (Inr w1)" "process_input_line e k l w1 = Some (Inr w2)" "ctls w2 k \<noteq> None"
        "edit_loop e k (drop_line (buf[nat i := 0]) cnt i) (cnt - (i + 1)) 0 w2 = Some (Inr (buf', cnt', w'))"
        using loop eol by (auto simp: bind_run_eq_Inr split: if_splits)
      then show ?thesis using ih(4) [OF ne eol refl] text' line by blast
    next
      case other
      obtain w1 where "controller_output k [?b] w = Some (Inr w1)" "edit_loop e k buf cnt (i + 1) w1 = Some (Inr (buf', cnt', w'))"
        using loop other by (auto simp: bind_run_eq_Inr)
      then show ?thesis using ih(5) other out by blast
    qed
  qed
qed

end
