(* ===== verification/Readconfig_Props.thy ===== *)
theory Readconfig_Props
  imports Readconfig Server_Props
begin

text \<open>What reading a configuration file does: its lines, its banners and the ports.\<close>

section \<open>Lines\<close>

text \<open>The reference: the lines of a file, one after the other.\<close>

fun run_lines :: "os_env \<Rightarrow> (nat \<Rightarrow> line_env) \<Rightarrow> nat \<Rightarrow> string list \<Rightarrow> reader \<Rightarrow> reader run" where
  "run_lines o' env i [] r = Some (Inr r)"
| "run_lines o' env i (l # ls) r =
     bind_run (handle_config_line o' (env i) l r) (\<lambda>r. run_lines o' env (Suc i) ls r)"

definition plain_line :: "string \<Rightarrow> bool" where
  "plain_line l \<longleftrightarrow> length l < 255 \<and> CHR 0x0A \<notin> set l \<and> CHR 0x00 \<notin> set l"

definition file_of :: "string list \<Rightarrow> string" where
  "file_of ls = concat (map (\<lambda>l. l @ [CHR 0x0A]) ls)"

lemma takeWhile_line: "c \<notin> set l \<Longrightarrow> takeWhile (\<lambda>x. x \<noteq> c) (l @ c # s) = l"
  "c \<notin> set l \<Longrightarrow> dropWhile (\<lambda>x. x \<noteq> c) (l @ c # s) = c # s"
  by (induction l) auto

lemma fgets_line:
  assumes "CHR 0x0A \<notin> set l" and "length l < n - 1"
  shows "fgets n (l @ CHR 0x0A # s) = Some (l @ [CHR 0x0A], s)"
  using assms by (simp add: fgets_def Let_def takeWhile_line)

lemma takeWhile_all: "c \<notin> set l \<Longrightarrow> takeWhile (\<lambda>x. x \<noteq> c) l = l"
  by (induction l) auto

lemma config_chunk_line:
  assumes "plain_line l"
  shows "config_chunk o' e (l @ [CHR 0x0A]) r = handle_config_line o' e l r"
  using assms by (simp add: config_chunk_def plain_line_def takeWhile_all Let_def)

lemma read_lines_ok:
  assumes "\<forall>l \<in> set ls. plain_line l"
  shows "read_lines o' env i (file_of ls) r = run_lines o' env i ls r"
  using assms
proof (induction ls arbitrary: i r)
  case Nil
  then show ?case by (subst read_lines.simps) (simp add: file_of_def fgets_def)
next
  case (Cons l ls)
  then have "fgets MAX_LINE_SIZE (file_of (l # ls)) = Some (l @ [CHR 0x0A], file_of ls)"
    using fgets_line [of l MAX_LINE_SIZE "file_of ls"] by (simp add: file_of_def plain_line_def MAX_LINE_SIZE_def)
  moreover have "read_lines o' env j (file_of ls) = run_lines o' env j ls" for j by (rule ext) (use Cons in simp)
  ultimately show ?case
    using Cons.prems by (subst read_lines.simps) (simp add: config_chunk_line)
qed

text \<open>A line that does not fit into the buffer: its end is read as a line of its own.\<close>

lemma read_lines_long:
  assumes "CHR 0x0A \<notin> set l" and "CHR 0x00 \<notin> set l" and "255 \<le> length l"
  shows "read_lines o' env i (l @ CHR 0x0A # s) r =
    read_lines o' env (Suc i) (drop 255 l @ CHR 0x0A # s)
      (syslog ''line is too long in config file'' (r\<lparr>lineno := lineno r + 1\<rparr>))"
proof -
  have l: "l \<noteq> []" "take 255 l \<noteq> []" using assms(3) by auto
  have f: "fgets MAX_LINE_SIZE (l @ CHR 0x0A # s) = Some (take 255 l, drop 255 l @ CHR 0x0A # s)"
    using assms(1,3) by (simp add: fgets_def Let_def takeWhile_line MAX_LINE_SIZE_def)
  have n: "CHR 0x00 \<notin> set (take 255 l)" "CHR 0x0A \<notin> set (take 255 l)"
    using assms(1,2) by (meson in_set_takeD)+
  then have "last (take 255 l) \<noteq> CHR 0x0A" using l(2) last_in_set by metis
  then show ?thesis
    using f l n by (subst read_lines.simps) (simp add: config_chunk_def takeWhile_all Let_def)
qed

text \<open>The reference for files with lines of any length: every full 255 bytes of a line are reported as
  too long, and what is left of it is a line; behind the last line feed everything is reported.\<close>

fun too_long :: "nat \<Rightarrow> reader \<Rightarrow> reader" where
  "too_long 0 r = r"
| "too_long (Suc k) r = too_long k (syslog ''line is too long in config file'' (r\<lparr>lineno := lineno r + 1\<rparr>))"

fun lf_split :: "string \<Rightarrow> string list \<times> string" where
  "lf_split [] = ([], [])"
| "lf_split (c # s) =
     (case lf_split s of (ls, t) \<Rightarrow>
        if c = CHR 0x0A then ([] # ls, t) else (case ls of [] \<Rightarrow> ([], c # t) | l # ls \<Rightarrow> ((c # l) # ls, t)))"

fun run_file :: "os_env \<Rightarrow> (nat \<Rightarrow> line_env) \<Rightarrow> nat \<Rightarrow> string list \<Rightarrow> string \<Rightarrow> reader \<Rightarrow> reader run" where
  "run_file o' env i [] t r = Some (Inr (too_long ((length t + 254) div 255) r))"
| "run_file o' env i (l # ls) t r =
     (let q = length l div 255 in
      bind_run (handle_config_line o' (env (i + q)) (drop (255 * q) l) (too_long q r)) (\<lambda>r. run_file o' env (Suc (i + q)) ls t r))"

lemma lf_split_file:
  "lf_split s = (ls, t) \<Longrightarrow> s = file_of ls @ t \<and> CHR 0x0A \<notin> set t \<and> (\<forall>l \<in> set ls. CHR 0x0A \<notin> set l)"
proof (induction s arbitrary: ls t)
  case (Cons c s)
  obtain ls' t' where s: "lf_split s = (ls', t')" by (cases "lf_split s")
  from Cons.IH [OF s] Cons.prems s show ?case
    by (cases ls') (auto simp: file_of_def split: if_splits)
qed (simp add: file_of_def)

lemma read_lines_line:
  assumes "CHR 0x0A \<notin> set l" and "CHR 0x00 \<notin> set l"
  shows "read_lines o' env i (l @ CHR 0x0A # s) r =
    (let q = length l div 255 in
     bind_run (handle_config_line o' (env (i + q)) (drop (255 * q) l) (too_long q r)) (\<lambda>r. read_lines o' env (Suc (i + q)) s r))"
  using assms
proof (induction l arbitrary: i r rule: length_induct)
  case (1 l)
  show ?case
  proof (cases "length l < 255")
    case True
    then have "fgets MAX_LINE_SIZE (l @ CHR 0x0A # s) = Some (l @ [CHR 0x0A], s)"
      using fgets_line [of l MAX_LINE_SIZE s] 1(2) by (simp add: MAX_LINE_SIZE_def)
    moreover have "plain_line l" using True 1(2,3) by (simp add: plain_line_def)
    ultimately show ?thesis
      using True by (subst read_lines.simps) (simp add: config_chunk_line)
  next
    case False
    then have len: "255 \<le> length l" by simp
    define l' where "l' = drop 255 l"
    have l': "length l' < length l" "CHR 0x0A \<notin> set l'" "CHR 0x00 \<notin> set l'"
      using len 1(2,3) by (auto simp: l'_def dest: in_set_dropD)
    have q: "length l div 255 = Suc (length l' div 255)" using len by (simp add: l'_def div_if)
    have "drop (255 * Suc (length l' div 255)) l = drop (255 * (length l' div 255)) l'" by (simp add: l'_def add.commute)
    then show ?thesis
      using 1(1) [rule_format, OF l'] unfolding read_lines_long [OF 1(2,3) len] q
      by (simp add: l'_def [symmetric] Let_def)
  qed
qed

lemma read_lines_rest:
  assumes "CHR 0x0A \<notin> set t" and "CHR 0x00 \<notin> set t"
  shows "read_lines o' env i t r = Some (Inr (too_long ((length t + 254) div 255) r))"
  using assms
proof (induction t arbitrary: i r rule: length_induct)
  case (1 t)
  show ?case
  proof (cases "t = []")
    case True
    then show ?thesis by (subst read_lines.simps) (simp add: fgets_def)
  next
    case False
    define t' where "t' = drop 255 t"
    have t': "length t' < length t" "CHR 0x0A \<notin> set t'" "CHR 0x00 \<notin> set t'"
      using False 1(2,3) by (auto simp: t'_def dest: in_set_dropD)
    have f: "fgets MAX_LINE_SIZE t = Some (take 255 t, t')"
    proof -
      have "length (takeWhile (\<lambda>c. c \<noteq> CHR 0x0A) t) + length (dropWhile (\<lambda>c. c \<noteq> CHR 0x0A) t) = length t"
        by (metis length_append takeWhile_dropWhile_id)
      then have len: "length (takeWhile (\<lambda>c. c \<noteq> CHR 0x0A) t @ take 1 (dropWhile (\<lambda>c. c \<noteq> CHR 0x0A) t)) = length t"
        using 1(2) by (simp add: takeWhile_all)
      moreover have "take (min 255 (length t)) t = take 255 t" "drop (min 255 (length t)) t = drop 255 t"
        by (simp_all add: min_def)
      ultimately show ?thesis using False unfolding t'_def fgets_def Let_def len by (simp add: MAX_LINE_SIZE_def)
    qed
    have n: "CHR 0x00 \<notin> set (take 255 t)" "CHR 0x0A \<notin> set (take 255 t)" "take 255 t \<noteq> []"
      using 1(2,3) False by (auto dest: in_set_takeD)
    then have "last (take 255 t) \<noteq> CHR 0x0A" using last_in_set by metis
    moreover have "(length t + 254) div 255 = Suc ((length t' + 254) div 255)"
    proof (cases "length t \<le> 255")
      case True
      have "length t + 254 = length t - 1 + 1 * 255" using False by (cases t) simp_all
      also have "\<dots> div 255 = (length t - 1) div 255 + 1" by simp
      finally show ?thesis using True by (simp add: t'_def)
    next
      case long: False
      then have "length t + 254 = (length t' + 254) + 1 * 255" by (simp add: t'_def)
      also have "\<dots> div 255 = (length t' + 254) div 255 + 1" by simp
      finally show ?thesis by simp
    qed
    ultimately show ?thesis
      using f n 1(1) [rule_format, OF t'] by (subst read_lines.simps) (simp add: config_chunk_def takeWhile_all Let_def)
  qed
qed

lemma read_lines_file:
  assumes "\<forall>l \<in> set ls. CHR 0x0A \<notin> set l \<and> CHR 0x00 \<notin> set l" and "CHR 0x0A \<notin> set t" and "CHR 0x00 \<notin> set t"
  shows "read_lines o' env i (file_of ls @ t) r = run_file o' env i ls t r"
  using assms(1)
proof (induction ls arbitrary: i r)
  case Nil
  show ?case using read_lines_rest [OF assms(2,3)] by (simp add: file_of_def)
next
  case (Cons l ls)
  have "read_lines o' env j (file_of ls @ t) = run_file o' env j ls t" for j by (rule ext) (use Cons in simp)
  with Cons.prems read_lines_line [of l o' env i "file_of ls @ t" r] show ?case by (simp add: file_of_def Let_def)
qed

section \<open>Banners\<close>

text \<open>A buffer that starts with a text.\<close>

definition holds :: "string \<Rightarrow> string \<Rightarrow> bool" where
  "holds t b \<longleftrightarrow> length b = 257 \<and> take (length t) b = t"

text \<open>What a reader becomes while a banner is read, and when it is complete: \<open>k\<close> lines later.\<close>

definition in_banner :: "string \<Rightarrow> string \<Rightarrow> int \<Rightarrow> reader \<Rightarrow> string \<Rightarrow> reader" where
  "in_banner name t k r b = r\<lparr>working_banner := b, working_banner_len := int (length t), working_banner_name := Name name,
     banner_continued := True, banner_truncated := False, lineno := lineno r + k\<rparr>"

definition with_banner :: "string \<Rightarrow> string \<Rightarrow> int \<Rightarrow> reader \<Rightarrow> string \<Rightarrow> reader" where
  "with_banner name t k r b = r\<lparr>working_banner := b, working_banner_len := 0, working_banner_name := Null,
     banner_continued := False, banner_truncated := False, lineno := lineno r + k, banners := (name, t) # banners r\<rparr>"

lemma copy_text_holds:
  assumes "length (working_banner r) = 257" and "take (length t) (working_banner r) = t" and "length t + length u \<le> 257"
  shows "\<exists>b. copy_text (int (length t)) u (int (length u)) r = Inr (r\<lparr>working_banner := b\<rparr>) \<and> holds (t @ u) b"
proof -
  have "length t \<le> length (working_banner r)" using assms(1,3) by simp
  then show ?thesis
    using assms by (intro exI [of _ "t @ u @ drop (length t + length u) (working_banner r)"])
      (auto simp: copy_text_def nat_add_distrib holds_def)
qed

lemma handle_new_banner_ok:
  assumes "length (working_banner r) = 257" and "take (length t) (working_banner r) = t" and "length t < 257"
    and "working_banner_len r = int (length t)" and "working_banner_name r = Name name" and "\<not> banner_truncated r"
    and "CHR 0x00 \<notin> set t" and "entry_mem e" "text_dup e"
  shows "\<exists>b. handle_new_banner e r = Inr (with_banner name t 0 r b) \<and> length b = 257"
proof -
  obtain b where b: "copy_text (working_banner_len r) [CHR 0x00] 1 r = Inr (r\<lparr>working_banner := b\<rparr>)" "holds (t @ [CHR 0x00]) b"
    using copy_text_holds [of r t "[CHR 0x00]"] assms(1-4) by auto
  have "take (length t + 1) b = t @ [CHR 0x00]" "length b = 257" using b(2) by (simp_all add: holds_def)
  moreover have "b = take (length t + 1) b @ drop (length t + 1) b" by simp
  ultimately have "b = t @ CHR 0x00 # drop (length t + 1) b" by simp
  then have "takeWhile (\<lambda>c. c \<noteq> CHR 0x00) b = t" using assms(7) takeWhile_line(1) by metis
  then show ?thesis
    using b(1) \<open>length b = 257\<close> assms(5,6,8,9)
    by (intro exI [of _ b]) (simp add: handle_new_banner_def Let_def reset_banner_def with_banner_def)
qed

lemma strtok_all:
  assumes "\<forall>c \<in> set delim. c \<notin> set s"
  shows "strtok_r delim s = (if s = [] then None else Some s, [])"
proof -
  have "dropWhile (\<lambda>c. c \<in> set delim) s = s" using assms by (cases s) auto
  moreover have "takeWhile (\<lambda>c. c \<notin> set delim) s = s" using assms by auto
  moreover have "dropWhile (\<lambda>c. c \<notin> set delim) s = []" using assms by auto
  ultimately show ?thesis by (simp add: strtok_r_def Let_def del: dropWhile_eq_Nil_conv takeWhile_eq_all_conv)
qed

lemma continued_line:
  assumes "holds t b" and "CHR 0x0A \<notin> set u" and "length t + length u < 256"
  shows "\<exists>b'. handle_config_line o' e (u @ [CHR 0x5C]) (in_banner name t k r b) = Some (Inr (in_banner name (t @ u) (k + 1) r b')) \<and>
    holds (t @ u) b'"
proof -
  let ?r = "(in_banner name t k r b)\<lparr>lineno := lineno r + k + 1\<rparr>"
  obtain b' where b': "copy_text (int (length t)) (u @ [CHR 0x5C]) (int (length (u @ [CHR 0x5C]))) ?r = Inr (?r\<lparr>working_banner := b'\<rparr>)"
    "holds (t @ u @ [CHR 0x5C]) b'"
    using copy_text_holds [of ?r t "u @ [CHR 0x5C]"] assms(1,3) by (auto simp: holds_def in_banner_def)
  have "fst (strtok_r [CHR 0x0A] (u @ [CHR 0x5C])) = Some (u @ [CHR 0x5C])" using assms(2) by (subst strtok_all) auto
  moreover have "take (length t + length u) b' = t @ u"
    using arg_cong [OF conjunct2 [OF b'(2) [unfolded holds_def]], of "take (length t + length u)"] by simp
  ultimately show ?thesis using b' assms(3)
    by (intro exI [of _ b']) (simp add: handle_config_line_def handle_continued_banner_def in_banner_def Let_def MAX_BANNER_SIZE_def holds_def)
qed

lemma final_line:
  assumes "holds t b" and "CHR 0x0A \<notin> set u" and "length t + length u < 257" and "u = [] \<or> last u \<noteq> CHR 0x5C"
    and "CHR 0x00 \<notin> set (t @ u)" and "entry_mem e" "text_dup e"
  shows "\<exists>b'. handle_config_line o' e u (in_banner name t k r b) = Some (Inr (with_banner name (t @ u) (k + 1) r b')) \<and> length b' = 257"
proof -
  let ?r = "(in_banner name t k r b)\<lparr>lineno := lineno r + k + 1\<rparr>"
  obtain b' where b': "copy_text (int (length t)) u (int (length u)) ?r = Inr (?r\<lparr>working_banner := b'\<rparr>)" "holds (t @ u) b'"
    using copy_text_holds [of ?r t u] assms(1,3) by (auto simp: holds_def in_banner_def)
  have "(case fst (strtok_r [CHR 0x0A] u) of None \<Rightarrow> '''' | Some str \<Rightarrow> str) = u" using assms(2) by (subst strtok_all) auto
  moreover let ?r2 = "?r\<lparr>working_banner := b', working_banner_len := int (length t) + int (length u)\<rparr>"
  obtain b2 where "handle_new_banner e ?r2 = Inr (with_banner name (t @ u) 0 ?r2 b2)" "length b2 = 257"
    using handle_new_banner_ok [of ?r2 "t @ u" name e] b'(2) assms(3,5-7) by (auto simp: holds_def in_banner_def)
  ultimately show ?thesis using b'(1) assms(3,4)
    by (intro exI [of _ b2]) (auto simp: handle_config_line_def handle_continued_banner_def Let_def MAX_BANNER_SIZE_def
        in_banner_def with_banner_def)
qed



lemma strtok_token:
  assumes "tok \<noteq> []" and "d \<notin> set tok"
  shows "strtok_r [d] (tok @ d # rest) = (Some tok, rest)"
proof -
  have "dropWhile (\<lambda>c. c = d) (tok @ d # rest) = tok @ d # rest" using assms by (cases tok) auto
  then show ?thesis using takeWhile_line [OF assms(2)] by (simp add: strtok_r_def Let_def)
qed

text \<open>The first line of a banner.\<close>

lemma banner_line_start:
  assumes "name \<noteq> []" and "CHR '':'' \<notin> set name" and "\<not> banner_continued r"
  shows "handle_config_line o' e (''BANNER:'' @ name @ '':'' @ t) r =
    Some (handle_banner e name (fst (strtok_r [CHR 0x0A] t)) (r\<lparr>lineno := lineno r + 1\<rparr>))"
proof -
  have "strtok_r '':'' (''BANNER:'' @ name @ '':'' @ t) = (Some ''BANNER'', name @ '':'' @ t)"
    using strtok_token [of "''BANNER''" "CHR '':''" "name @ '':'' @ t"] by simp
  moreover have "strtok_r '':'' (name @ '':'' @ t) = (Some name, t)" using strtok_token [OF assms(1,2)] by simp
  moreover have "peek (''BANNER:'' @ name @ '':'' @ t) \<noteq> CHR ''#''" by simp
  ultimately show ?thesis using assms(3) unfolding handle_config_line_def Let_def by (simp del: append.simps add: case_prod_beta)
qed

lemma first_line:
  assumes "name \<noteq> []" and "CHR '':'' \<notin> set name" and "\<not> banner_continued r" and "\<not> banner_truncated r"
    and "length (working_banner r) = 257" and "CHR 0x0A \<notin> set u" and "length u < 255" and "name_dup e"
  shows "\<exists>b. handle_config_line o' e (''BANNER:'' @ name @ '':'' @ u @ [CHR 0x5C]) r = Some (Inr (in_banner name u 1 r b)) \<and> holds u b"
proof -
  let ?r = "r\<lparr>lineno := lineno r + 1, working_banner_name := Name name\<rparr>"
  obtain b where b: "copy_text 0 (u @ [CHR 0x5C]) (int (length (u @ [CHR 0x5C]))) ?r = Inr (?r\<lparr>working_banner := b\<rparr>)"
    "holds (u @ [CHR 0x5C]) b"
    using copy_text_holds [of ?r "[]" "u @ [CHR 0x5C]"] assms(5,7) by auto
  have "strtok_r [CHR 0x0A] (u @ [CHR 0x5C]) = (Some (u @ [CHR 0x5C]), [])" using assms(6) by (subst strtok_all) auto
  moreover have "take (length u) b = u"
    using arg_cong [OF conjunct2 [OF b(2) [unfolded holds_def]], of "take (length u)"] by simp
  ultimately show ?thesis using b assms(4,7,8)
    by (intro exI [of _ b], subst banner_line_start [OF assms(1-3)])
      (simp add: handle_banner_def Let_def MAX_BANNER_SIZE_def in_banner_def holds_def)
qed

lemma only_line:
  assumes "name \<noteq> []" and "CHR '':'' \<notin> set name" and "\<not> banner_continued r" and "\<not> banner_truncated r"
    and "length (working_banner r) = 257" and "CHR 0x0A \<notin> set u" and "length u < 256" and "u \<noteq> []" and "last u \<noteq> CHR 0x5C"
    and "CHR 0x00 \<notin> set u" and "name_dup e" "entry_mem e" "text_dup e"
  shows "\<exists>b. handle_config_line o' e (''BANNER:'' @ name @ '':'' @ u) r = Some (Inr (with_banner name u 1 r b)) \<and> length b = 257"
proof -
  let ?r = "r\<lparr>lineno := lineno r + 1, working_banner_name := Name name\<rparr>"
  obtain b where b: "copy_text 0 u (int (length u)) ?r = Inr (?r\<lparr>working_banner := b\<rparr>)" "holds u b"
    using copy_text_holds [of ?r "[]" u] assms(5,7) by auto
  have "strtok_r [CHR 0x0A] u = (Some u, [])" using assms(6,8) by (subst strtok_all) auto
  moreover let ?r2 = "?r\<lparr>working_banner := b, working_banner_len := int (length u)\<rparr>"
  obtain b2 where "handle_new_banner e ?r2 = Inr (with_banner name u 0 ?r2 b2)" "length b2 = 257"
    using handle_new_banner_ok [of ?r2 u name e] b(2) assms(4,7,10,12,13) by (auto simp: holds_def)
  ultimately show ?thesis using b(1) assms(7-9,11)
    by (intro exI [of _ b2], subst banner_line_start [OF assms(1-3)])
      (simp add: handle_banner_def Let_def MAX_BANNER_SIZE_def with_banner_def)
qed

text \<open>The lines of a banner text: a backslash at the end of all but the last.\<close>

fun split_lines :: "string list \<Rightarrow> string list" where
  "split_lines [] = []"
| "split_lines [t] = [t]"
| "split_lines (t # u # ts) = (t @ [CHR 0x5C]) # split_lines (u # ts)"

lemma continued_lines:
  assumes "holds t b" and "ts \<noteq> []" and "\<forall>u \<in> set ts. CHR 0x0A \<notin> set u \<and> CHR 0x00 \<notin> set u" and "CHR 0x00 \<notin> set t"
    and "length t + length (concat ts) < 256" and "last ts = [] \<or> last (last ts) \<noteq> CHR 0x5C"
    and "\<And>j. entry_mem (env j) \<and> text_dup (env j)"
  shows "\<exists>b'. run_lines o' env i (split_lines ts) (in_banner name t k r b) =
      Some (Inr (with_banner name (t @ concat ts) (k + int (length ts)) r b')) \<and> length b' = 257"
  using assms(1-6)
proof (induction ts arbitrary: t b k i rule: split_lines.induct)
  case 1
  then show ?case by simp
next
  case (2 u)
  then show ?case using final_line [of t b u "env i" o' name k r] assms(7) by auto
next
  case (3 u v ts)
  obtain b1 where b1: "handle_config_line o' (env i) (u @ [CHR 0x5C]) (in_banner name t k r b) = Some (Inr (in_banner name (t @ u) (k + 1) r b1))"
    "holds (t @ u) b1"
    using continued_line [of t b u o' "env i" name k r] 3 by auto
  have "\<exists>b'. run_lines o' env (Suc i) (split_lines (v # ts)) (in_banner name (t @ u) (k + 1) r b1) =
      Some (Inr (with_banner name ((t @ u) @ concat (v # ts)) (k + 1 + int (length (v # ts))) r b')) \<and> length b' = 257"
    by (rule "3.IH" [OF b1(2)]) (use 3 in auto)
  with b1(1) show ?case by (auto simp: algebra_simps)
qed


definition banner_lines :: "string \<Rightarrow> string list \<Rightarrow> string list" where
  "banner_lines name ts =
     (case split_lines ts of [] \<Rightarrow> [] | l # ls \<Rightarrow> (''BANNER:'' @ name @ '':'' @ l) # ls)"

section \<open>The properties\<close>

definition demo_reader :: reader where
  "demo_reader = \<lparr>conf_num = 1, banner_continued = False, working_banner_name = Null, working_banner = replicate 257 (CHR 0x00),
     working_banner_len = 0, banner_truncated = False, lineno = 0, banners = [], tracefiles = [], ports = demo_server, log = []\<rparr>"

definition demo_line :: line_env where
  "demo_line = \<lparr>name_dup = True, entry_mem = True, text_dup = True, port_env = demo_config\<rparr>"

text \<open>C18: Reading a configuration file in pieces of 255 bytes handles its lines in their order, for every
  file without a NUL: a line of less than 255 bytes is handled as it is; of a longer one every full
  piece is reported as a line that is too long and the rest is handled as if it were a line; and
  what follows the last line feed is only reported.\<close>

theorem file_is_read_by_lines:
  assumes "CHR 0x00 \<notin> set s" and "lf_split s = (ls, t)"
  shows "read_lines o' env i s r = run_file o' env i ls t r"
proof -
  have f: "s = file_of ls @ t" "CHR 0x0A \<notin> set t" "\<forall>l \<in> set ls. CHR 0x0A \<notin> set l"
    using lf_split_file [OF assms(2)] by simp_all
  have "\<forall>l \<in> set ls. CHR 0x00 \<notin> set l" "CHR 0x00 \<notin> set t" using assms(1) by (auto simp: f(1) file_of_def split: if_splits)
  with f(2,3) show ?thesis unfolding f(1) by (intro read_lines_file) simp_all
qed

theorem file_is_read_by_lines_witness:
  "read_lines demo_env (\<lambda>_. demo_line) 0 (''# no ports'' @ [CHR 0x0A, CHR 0x0A] @ ''x'') demo_reader =
   run_file demo_env (\<lambda>_. demo_line) 0 [''# no ports'', ''''] ''x'' demo_reader"
  by (rule file_is_read_by_lines) simp_all

text \<open>C19: A banner that is split over several lines of the file, all but the last ending in a
  backslash, is entered in front of the list of banners under its name, as the concatenation of
  its parts; nothing else changes but the line number and the buffer.
\<close>

theorem banner_joined:
  assumes "name \<noteq> []" and "CHR '':'' \<notin> set name" and "\<forall>l \<in> set (banner_lines name ts). plain_line l"
    and "\<not> banner_continued r" and "\<not> banner_truncated r" and "length (working_banner r) = 257"
    and "\<forall>u \<in> set ts. CHR 0x0A \<notin> set u \<and> CHR 0x00 \<notin> set u" and "length (concat ts) < 255" and "concat ts \<noteq> []"
    and "last ts = [] \<or> last (last ts) \<noteq> CHR 0x5C" and "\<And>j. name_dup (env j) \<and> entry_mem (env j) \<and> text_dup (env j)"
  shows "\<exists>b. read_lines o' env i (file_of (banner_lines name ts)) r =
    Some (Inr (with_banner name (concat ts) (int (length ts)) r b)) \<and> length b = 257"
proof -
  have "\<exists>b. run_lines o' env i (banner_lines name ts) r =
      Some (Inr (with_banner name (concat ts) (int (length ts)) r b)) \<and> length b = 257"
  proof (cases ts rule: split_lines.cases)
    case 1
    then show ?thesis using assms(9) by simp
  next
    case (2 t)
    then show ?thesis using only_line [OF assms(1,2,4-6), of t "env i" o'] assms(7-11) by (auto simp: banner_lines_def)
  next
    case (3 t u us)
    obtain b where b: "handle_config_line o' (env i) (''BANNER:'' @ name @ '':'' @ t @ [CHR 0x5C]) r = Some (Inr (in_banner name t 1 r b))"
      "holds t b"
      using first_line [OF assms(1,2,4-6), of t "env i" o'] assms(7,8,11) 3 by auto
    have "\<exists>b'. run_lines o' env (Suc i) (split_lines (u # us)) (in_banner name t 1 r b) =
        Some (Inr (with_banner name (t @ concat (u # us)) (1 + int (length (u # us))) r b')) \<and> length b' = 257"
      by (rule continued_lines [OF b(2)]) (use assms(7,8,10,11) 3 in auto)
    with b(1) 3 show ?thesis by (auto simp: banner_lines_def algebra_simps)
  qed
  then show ?thesis by (simp add: read_lines_ok [OF assms(3)])
qed

theorem banner_joined_witness:
  "\<exists>r'. read_lines demo_env (\<lambda>_. demo_line) 0 (''BANNER:b1:Hello, '' @ [CHR 0x5C, CHR 0x0A] @ ''world'' @ [CHR 0x0A]) demo_reader =
     Some (Inr r') \<and> banners r' = [(''b1'', ''Hello, world'')] \<and> lineno r' = 2"
proof -
  have "\<exists>b. read_lines demo_env (\<lambda>_. demo_line) 0 (file_of (banner_lines ''b1'' [''Hello, '', ''world''])) demo_reader =
      Some (Inr (with_banner ''b1'' (concat [''Hello, '', ''world'']) (int (length [''Hello, '', ''world''])) demo_reader b)) \<and> length b = 257"
    by (rule banner_joined) (simp_all add: banner_lines_def plain_line_def demo_reader_def demo_line_def)
  moreover have "file_of (banner_lines ''b1'' [''Hello, '', ''world'']) =
      ''BANNER:b1:Hello, '' @ [CHR 0x5C, CHR 0x0A] @ ''world'' @ [CHR 0x0A]" by (simp add: file_of_def banner_lines_def)
  ultimately show ?thesis by (auto simp: with_banner_def demo_reader_def)
qed

text \<open>A line that starts a banner but has no text for it makes the program follow a NULL pointer.
\<close>

theorem banner_without_text_fault:
  assumes "name \<noteq> []" and "CHR '':'' \<notin> set name" and "\<not> banner_continued r"
  shows "handle_config_line o' e (''BANNER:'' @ name @ '':'') r = Some (Inl Null_pointer)"
  using banner_line_start [OF assms, of o' e "[]"] by (simp add: handle_banner_def strtok_r_def)

theorem banner_without_text_fault_witness:
  "handle_config_line demo_env demo_line ''BANNER:b1:'' demo_reader = Some (Inl Null_pointer)"
  using banner_without_text_fault [of "''b1''" demo_reader demo_env demo_line] by (simp add: demo_reader_def)

lemma comment_line:
  assumes "l = [] \<or> hd l = CHR ''#''" and "\<not> banner_continued r"
  shows "handle_config_line o' e l r = Some (Inr (r\<lparr>lineno := lineno r + 1\<rparr>))"
  using assms by (cases l) (auto simp: handle_config_line_def Let_def strtok_r_def)

lemma comment_lines:
  assumes "\<forall>l \<in> set ls. l = [] \<or> hd l = CHR ''#''" and "\<not> banner_continued r"
  shows "run_lines o' env i ls r = Some (Inr (r\<lparr>lineno := lineno r + int (length ls)\<rparr>))"
  using assms by (induction ls arbitrary: i r) (simp_all add: comment_line algebra_simps)

text \<open>Reading a file that has only comments and empty lines always returns 0: what is left of the
  ports are the connected ones, and of the banners and trace files none.
\<close>

theorem empty_file_clears_ports:
  assumes "\<forall>l \<in> set ls. plain_line l \<and> (l = [] \<or> hd l = CHR ''#'')"
    and "working_banner_name r \<noteq> Freed"
    and "\<forall>p \<in> set (port_list (ports r)). idle_ok (ports r) p \<and> config_num (conn_of (ports r) p) \<le> conf_num r"
    and "distinct (port_list (ports r))"
  shows "\<exists>r'. readconfig o' e env (Some (file_of ls)) r = Some (Inr (0, r')) \<and> banners r' = [] \<and> tracefiles r' = [] \<and>
    lineno r' = int (length ls) \<and> conf_num r' = conf_num r + 1 \<and>
    port_list (ports r') = filter (\<lambda>p. dev_to_tcp_state (conn_of (ports r) p) \<noteq> PORT_UNCONNECTED) (port_list (ports r))"
proof -
  define r1 where "r1 = (reset_banner (r\<lparr>lineno := 0\<rparr>))\<lparr>banners := [], tracefiles := [], conf_num := conf_num r + 1\<rparr>"
  have "read_lines o' env 0 (file_of ls) r1 = Some (Inr (r1\<lparr>lineno := lineno r1 + int (length ls)\<rparr>))"
    using assms(1) comment_lines [of ls r1 o' env 0]
    by (simp add: read_lines_ok) (simp add: r1_def reset_banner_def)
  moreover have "readconfig o' e env (Some (file_of ls)) r =
      bind_run (read_lines o' env 0 (file_of ls) r1) (\<lambda>r.
      bind_run (clear_old_port_config o' e (conf_num r) (ports r)) (\<lambda>sv. Some (Inr (0, r\<lparr>ports := sv\<rparr>))))"
    using assms(2) by (simp add: readconfig_def Let_def free_banners_def free_tracefiles_def reset_banner_def r1_def)
  moreover obtain sv where sv: "clear_ports o' e (conf_num r + 1) (port_list (ports r)) (ports r) = Some (Inr sv)"
    "port_list sv = filter (\<lambda>p. p \<in> set (port_list (ports r)) \<longrightarrow> kept (conf_num r + 1) (conn_of (ports r) p)) (port_list (ports r))"
    using clear_ports_ok [of "port_list (ports r)" "ports r" o' e "conf_num r + 1"] assms(3,4) by auto
  moreover have "ports r1 = ports r" "conf_num r1 = conf_num r + 1" "lineno r1 = 0" by (simp_all add: r1_def reset_banner_def)
  ultimately have "readconfig o' e env (Some (file_of ls)) r =
      Some (Inr (0, r1\<lparr>lineno := int (length ls), ports := sv\<rparr>))"
    by (simp add: clear_old_port_config_def)
  moreover have "port_list sv = filter (\<lambda>p. dev_to_tcp_state (conn_of (ports r) p) \<noteq> PORT_UNCONNECTED) (port_list (ports r))"
    using assms(3) by (auto simp: sv(2) kept_def intro!: filter_cong)
  ultimately show ?thesis by (simp add: r1_def)
qed

theorem empty_file_clears_ports_witness:
  "\<exists>r'. readconfig demo_env demo_startup (\<lambda>_. demo_line) (Some (''# none'' @ [CHR 0x0A])) demo_reader = Some (Inr (0, r')) \<and>
     port_list (ports r') = []"
proof -
  have "\<forall>l \<in> set [''# none'']. plain_line l \<and> (l = [] \<or> hd l = CHR ''#'')" "working_banner_name demo_reader \<noteq> Freed"
    by (simp_all add: plain_line_def demo_reader_def)
  moreover have "\<forall>p \<in> set (port_list (ports demo_reader)). idle_ok (ports demo_reader) p \<and> config_num (conn_of (ports demo_reader) p) \<le> conf_num demo_reader"
    "distinct (port_list (ports demo_reader))"
    by (simp_all add: demo_reader_def demo_server_def idle_ok_def conn_of_def demo_port_def closable_def fd_ok_def FD_SETSIZE_def)
      (simp_all add: demo_conn_def demo_timers_def)
  ultimately obtain r' where
    "readconfig demo_env demo_startup (\<lambda>_. demo_line) (Some (file_of [''# none''])) demo_reader = Some (Inr (0, r'))"
    "port_list (ports r') = filter (\<lambda>p. dev_to_tcp_state (conn_of (ports demo_reader) p) \<noteq> PORT_UNCONNECTED) (port_list (ports demo_reader))"
    using empty_file_clears_ports [of "[''# none'']" demo_reader demo_env demo_startup "\<lambda>_. demo_line"] by blast
  then show ?thesis
    by (auto simp: file_of_def demo_reader_def demo_server_def conn_of_def demo_port_def) (simp add: demo_conn_def)
qed

end
