(* ===== verification/Controller_Props.thy ===== *)
theory Controller_Props
  imports Controller_Edit Readconfig_Props
begin

text \<open>The properties of the control port.\<close>

section \<open>Output\<close>

text \<open>A connection that can take output.\<close>

definition ready :: "nat \<Rightarrow> world \<Rightarrow> bool" where
  "ready k w \<longleftrightarrow> (\<exists>td. ctls w k = Some td \<and> ctl_ok (cb_data td))"

lemma controller_output_ok:
  assumes "ready k w"
  shows "\<exists>w'. controller_output k bs w = Some (Inr w') \<and> ready k w' \<and> objs (srv w') = objs (srv w) \<and>
    port_list (srv w') = port_list (srv w) \<and> monitor_port_id (cb_data (the (ctls w' k))) = monitor_port_id (cb_data (the (ctls w k)))"
proof -
  obtain mem w1 where a: "next_alloc w = (mem, w1)" by (cases "next_alloc w")
  note f = next_alloc_fields [OF a]
  obtain td where td: "ctls w k = Some td" "ctl_ok (cb_data td)" using assms by (auto simp: ready_def)
  define c where "c = (cb_data td)\<lparr>c_sel := gsel (srv w1)\<rparr>"
  have "ctl_ok c" using td(2) by (auto simp: c_def ctl_ok_def split: option.splits)
  from output_data_ok [OF this, of mem bs] obtain c' where c': "output_data mem bs c = Inr c'" "ctl_ok c'" "same_ctrl c c'" by blast
  define w' where "w' = store_ctl k (td\<lparr>cmds := ctl_cmds w1, cb_data := c'\<rparr>) w1"
  have "controller_output k bs w = Some (Inr w')"
    using a f td(1) c'(1) by (simp add: controller_output_def on_ctl_def load_ctl_def c_def w'_def)
  moreover have "monitor_port_id c' = monitor_port_id (cb_data td)"
    using same_ctrlD(1) [OF c'(3)] by (simp add: c_def)
  ultimately show ?thesis using f c'(2) td(1) by (auto simp: w'_def ready_def)
qed

lemma output_text_ok:
  assumes "ready k w"
  shows "\<exists>w'. output_text k s w = Some (Inr w') \<and> ready k w' \<and> objs (srv w') = objs (srv w) \<and>
    port_list (srv w') = port_list (srv w) \<and> monitor_port_id (cb_data (the (ctls w' k))) = monitor_port_id (cb_data (the (ctls w k)))"
  unfolding output_text_def by (rule controller_output_ok [OF assms])

text \<open>Output and writing in any order: the steps of a queue.\<close>

datatype ctl_step = Put bool "byte list" | Flush write_result

fun step_ctl :: "ctl_step \<Rightarrow> ctrl \<Rightarrow> ctrl res" where
  "step_ctl (Put mem bs) c = output_data mem bs c"
| "step_ctl (Flush wr) c = bind_res (flush_data wr c) (\<lambda>(ok, c'). Inr c')"

fun ctl_steps :: "ctl_step list \<Rightarrow> ctrl \<Rightarrow> ctrl res" where
  "ctl_steps [] c = Inr c"
| "ctl_steps (s # ss) c = bind_res (step_ctl s c) (ctl_steps ss)"

fun put_data :: "ctl_step \<Rightarrow> byte list" where
  "put_data (Put mem bs) = bs"
| "put_data (Flush wr) = []"

definition allocated :: "ctl_step \<Rightarrow> bool" where
  "allocated s \<longleftrightarrow> (\<forall>bs. s \<noteq> Put False bs)"

lemma ctl_step_queue:
  assumes "ctl_ok c" and "allocated s"
  shows "\<exists>c'. step_ctl s c = Inr c' \<and> ctl_ok c' \<and> c_out c' @ queued c' = c_out c @ queued c @ put_data s"
proof (cases s)
  case (Put mem bs)
  then have "mem" using assms(2) by (cases mem) (auto simp: allocated_def)
  with output_data_ok [OF assms(1), of mem bs] Put show ?thesis by auto
next
  case (Flush wr)
  moreover obtain ok c' where "flush_data wr c = Inr (ok, c')" "ctl_ok c'" "c_out c' @ queued c' = c_out c @ queued c"
    using flush_data_ok [OF assms(1), of wr] by blast
  ultimately show ?thesis by simp
qed

lemma ctl_steps_queue:
  assumes "ctl_ok c" and "\<forall>s \<in> set ss. allocated s"
  shows "\<exists>c'. ctl_steps ss c = Inr c' \<and> ctl_ok c' \<and> c_out c' @ queued c' = c_out c @ queued c @ concat (map put_data ss)"
  using assms
proof (induction ss arbitrary: c)
  case (Cons s ss)
  obtain c1 where "step_ctl s c = Inr c1" "ctl_ok c1" "c_out c1 @ queued c1 = c_out c @ queued c @ put_data s"
    using ctl_step_queue [OF Cons.prems(1)] Cons.prems(2) by auto
  moreover obtain c2 where "ctl_steps ss c1 = Inr c2" "ctl_ok c2" "c_out c2 @ queued c2 = c_out c1 @ queued c1 @ concat (map put_data ss)"
    using Cons.IH [OF calculation(2)] Cons.prems(2) by auto
  ultimately show ?case by (auto simp: append_assoc [symmetric] simp del: append_assoc)
qed simp

section \<open>Input\<close>

lemma telnet_loop_plain:
  assumes "telnet_cmd_pos td = 0" and "i \<le> len" and "len \<le> length xs" and "\<forall>j. i \<le> j \<and> j < len \<longrightarrow> xs ! j \<noteq> 255"
  shows "telnet_loop cb xs i len td = Inr (xs, len, td)"
  using assms(2,4)
proof (induction "len - i" arbitrary: i)
  case 0
  then show ?case by (subst telnet_loop.simps) simp
next
  case (Suc n)
  then have "telnet_loop cb xs (i + 1) len td = Inr (xs, len, td)" by simp
  then show ?case using Suc.prems Suc.hyps(2) assms(1) by (subst telnet_loop.simps) simp
qed

lemma shutdown_ready:
  assumes "ready k w" and "monitor_port_id (cb_data (the (ctls w k))) = None"
  shows "\<exists>w'. shutdown_controller k w = Some (Inr w') \<and> ctls w' k = None"
proof -
  obtain td where td: "ctls w k = Some td" "ctl_ok (cb_data td)" using assms(1) by (auto simp: ready_def)
  then have fd: "fd_ok (c_tcpfd (cb_data td))" by (simp add: ctl_ok_def)
  have "stop_monitor k w = Some (Inr w)" using td(1) assms(2) by (simp add: stop_monitor_def load_ctl_def)
  moreover obtain s where "sel_clear_fd_handlers (gsel (srv w)) (c_tcpfd (cb_data td)) = Inr s"
    using selector_calls(3) [OF fd] by blast
  ultimately show ?thesis using td(1) by (simp add: shutdown_controller_def on_ctl_def load_ctl_def c_with_sel_def)
qed

text \<open>The word is echoed, the connection is closed and its memory freed, and the loop goes on with it.\<close>

lemma edit_exit:
  assumes "ready k w" and "monitor_port_id (cb_data (the (ctls w k))) = None"
  shows "edit e k [] [101, 120, 105, 116, 13] w = Some (Inl Dangling_pointer)"
proof -
  note step = controller_output_ok
  obtain w1 where w1: "controller_output k [101] w = Some (Inr w1)" "ready k w1" "monitor_port_id (cb_data (the (ctls w1 k))) = None"
    using step [OF assms(1)] assms(2) by auto
  obtain w2 where w2: "controller_output k [120] w1 = Some (Inr w2)" "ready k w2" "monitor_port_id (cb_data (the (ctls w2 k))) = None"
    using step [OF w1(2)] w1(3) by auto
  obtain w3 where w3: "controller_output k [105] w2 = Some (Inr w3)" "ready k w3" "monitor_port_id (cb_data (the (ctls w3 k))) = None"
    using step [OF w2(2)] w2(3) by auto
  obtain w4 where w4: "controller_output k [116] w3 = Some (Inr w4)" "ready k w4" "monitor_port_id (cb_data (the (ctls w4 k))) = None"
    using step [OF w3(2)] w3(3) by auto
  obtain w5 where w5: "output_text k newline w4 = Some (Inr w5)" "ready k w5" "monitor_port_id (cb_data (the (ctls w5 k))) = None"
    using output_text_ok [OF w4(2)] w4(3) by auto
  obtain w6 where w6: "shutdown_controller k w5 = Some (Inr w6)" "ctls w6 k = None" using shutdown_ready [OF w5(2,3)] by blast
  have "map (\<lambda>b :: byte. char_of (unat b)) [101, 120, 105, 116] = ''exit''" by code_simp
  moreover have "strtok_r ('' '' @ [CHR 0x09]) ''exit'' = (Some ''exit'', [])" by code_simp
  ultimately have "process_input_line e k (map (\<lambda>b :: byte. char_of (unat b)) [101, 120, 105, 116]) w5 = Some (Inr w6)"
    using w6(1) by (simp add: process_input_line_def)
  then show ?thesis using w1(1) w2(1) w3(1) w4(1) w5(1) w6(2) by simp
qed


lemma read_exit:
  assumes "ctls w k = Some td" and "ctl_ok (cb_data td)" and "monitor_port_id (cb_data td) = None" and "inbuf_count (cb_data td) = 0"
    and "length (inbuf (cb_data td)) = 256" and "telnet_cmd_pos td = 0" and "\<not> error td"
  shows "controller_fd_read e (Ctl_bytes [101, 120, 105, 116, 13]) k w = Some (Inl Dangling_pointer)"
proof -
  define bs :: "byte list" where "bs = [101, 120, 105, 116, 13]"
  define td0 where "td0 = td\<lparr>cb_data := (cb_data td)\<lparr>c_sel := gsel (srv w)\<rparr>, cmds := ctl_cmds w\<rparr>"
  define buf where "buf = bs @ drop 5 (inbuf (cb_data td))"
  have ne: "bs \<noteq> []" by (simp add: bs_def)
  have len: "length bs = 5" "length buf = 256" "take 5 buf = bs" using assms(5) by (simp_all add: bs_def buf_def)
  have wr: "write_at 0 bs (inbuf (cb_data td)) = Inr buf" using assms(5) len(1) by (simp add: write_at_def buf_def)
  have "telnet_loop controller_callbacks buf 0 5 td0 = Inr (buf, 5, td0)"
  proof (rule telnet_loop_plain)
    have "\<forall>b \<in> set bs. b \<noteq> 255" by (simp add: bs_def)
    then show "\<forall>j. 0 \<le> j \<and> j < 5 \<longrightarrow> buf ! j \<noteq> 255" using len by (metis nth_mem nth_take)
  qed (use assms(6) len in \<open>simp_all add: td0_def\<close>)
  then have tn: "process_telnet_data controller_callbacks buf 5 td0 = Inr (buf, 5, td0)"
    using len by (simp add: process_telnet_data_def)
  define w1 where "w1 = store_ctl k (upd_ctrl (\<lambda>c. c\<lparr>inbuf := buf\<rparr>) td0) w"
  have "ready k w1" "monitor_port_id (cb_data (the (ctls w1 k))) = None"
    using assms(2,3) by (auto simp: ready_def w1_def td0_def ctl_ok_def split: option.splits)
  from edit_exit [OF this, of e] have "edit e k (take 0 buf) (drop 0 (take 5 buf)) w1 = Some (Inl Dangling_pointer)"
    by (simp add: len(3)) (simp add: bs_def)
  with edit_loop_edits [of 0 5 buf e k w1] len have "edit_loop e k buf 5 0 w1 = Some (Inl Dangling_pointer)"
    by (simp add: edits_to_def)
  moreover have "load_ctl k w = Inr td0" using assms(1) by (simp add: load_ctl_def td0_def)
  moreover have "take (INBUF_SIZE - 0) bs = bs" by (simp add: bs_def INBUF_SIZE_def)
  ultimately show ?thesis
    using wr tn assms(4,7) len ne
    unfolding bs_def [symmetric] controller_fd_read_def
    by (simp add: Let_def INBUF_SIZE_def td0_def w1_def)
qed

section \<open>Connections\<close>

lemma sound_fd_write: "sound w (controller_fd_write w1 w2 k w)"
  unfolding controller_fd_write_def
  by (intro sound_bind_pair preserves_with_ctl sound_cases sound_shutdown)
    (auto intro!: sound_bind_pair sound_cases sound_shutdown intro: sound_preserves preserve_intros split: bool.split)

lemma sound_fd_read: "sound w (controller_fd_read e r k w)"
proof -
  have edit: "sound w (bind_run (edit_loop e k buf cnt i w) (\<lambda>(b, n, w2). on_ctl k (f b n) w2))" for buf cnt i f w
    unfolding sound_def bind_run_eq_Inr
  proof (intro impI allI, elim exE conjE)
    fix w' x
    assume a: "world_ok w" "edit_loop e k buf cnt i w = Some (Inr x)" "(case x of (b, n, w2) \<Rightarrow> on_ctl k (f b n) w2) = Some (Inr w')"
    obtain b n w2 where x: "x = (b, n, w2)" by (cases x) auto
    then have "world_ok w2" using sound_edit_loop a(1,2) by blast
    moreover have "sound w2 (on_ctl k (f b n) w2)" by (rule sound_preserves [OF preserves_on_ctl])
    ultimately show "world_ok w'" using a(3) x by (simp add: sound_def)
  qed
  have stored: "sound w (r (store_ctl k td w))" if "\<And>w. sound w (r w)" "ctls w k \<noteq> None" for r td
  proof -
    have "world_ok w \<Longrightarrow> world_ok (store_ctl k td w)" using that(2) by (auto simp: world_ok_def)
    with that(1) [of "store_ctl k td w"] show ?thesis unfolding sound_def by blast
  qed
  have text': "sound w (bind_run (output_text k s w) (on_ctl k f))" for s f
    by (intro sound_preserves preserve_intros)
  show ?thesis
  proof (cases "load_ctl k w")
    case (Inl f)
    then show ?thesis by (simp add: controller_fd_read_def sound_def)
  next
    case (Inr td)
    then have "ctls w k \<noteq> None" by (rule load_ctl_eq)
    note alive = this
    show ?thesis
    proof (cases r)
      case (Ctl_bytes bs)
      with Inr alive show ?thesis unfolding controller_fd_read_def Let_def
        by (auto intro!: sound_cases text' sound_shutdown sound_read stored edit split: prod.split)
    next
      case Ctl_retry
      with Inr show ?thesis unfolding controller_fd_read_def Let_def
        by (auto intro!: sound_cases text' sound_preserves [OF preserves_ret])
    next
      case Ctl_failed
      with Inr show ?thesis unfolding controller_fd_read_def Let_def
        by (auto intro!: sound_cases text' sound_shutdown)
    qed
  qed
qed

lemma sound_accept:
  assumes "\<forall>k blk. ctl_block n = Some (k, blk) \<longrightarrow> ctls w k = None"
  shows "sound w (accept_controller n w)"
proof (cases "max_controller_ports \<le> num_controller_ports w \<or> ctl_block n = None \<or> ctl_fd n = -1 \<or> \<not> access_ok n \<or> \<not> fcntl_done n")
  case True
  then show ?thesis by (auto simp: accept_controller_def sound_def split: option.split prod.split)
next
  case False
  then obtain k blk where n: "ctl_block n = Some (k, blk)" by auto
  show ?thesis unfolding sound_def
  proof (intro impI allI)
    fix w' assume ok: "world_ok w" and r: "accept_controller n w = Some (Inr w')"
    then obtain td w1 where w1: "output_text k prompt (store_ctl k td (w\<lparr>controllers := k # controllers w\<rparr>)) = Some (Inr w1)"
      "w' = w1\<lparr>num_controller_ports := num_controller_ports w1 + 1\<rparr>"
      using False n by (auto simp: accept_controller_def Let_def bind_run_eq_Inr)
    have "same_controllers (store_ctl k td (w\<lparr>controllers := k # controllers w\<rparr>)) w1"
      using preserves_text w1(1) by (simp add: preserves_def)
    moreover have "ctls w k = None" using assms n by blast
    ultimately show "world_ok w'" using ok False w1(2)
      by (auto simp: world_ok_def same_controllers_def split: if_splits)
  qed
qed

text \<open>The handlers of the control port.\<close>

inductive control_step :: "control_env \<Rightarrow> world \<Rightarrow> world \<Rightarrow> bool" for e where
  Accept: "control_step e w w'" if "accept_controller n w = Some (Inr w')" "\<forall>k blk. ctl_block n = Some (k, blk) \<longrightarrow> ctls w k = None"
| Read: "control_step e w w'" if "controller_fd_read e r k w = Some (Inr w')"
| Write: "control_step e w w'" if "controller_fd_write w1 w2 k w = Some (Inr w')"
| Except: "control_step e w w'" if "controller_fd_except k w = Some (Inr w')"

lemma control_step_ok: "control_step e w w' \<Longrightarrow> world_ok w \<Longrightarrow> world_ok w'"
proof (induction rule: control_step.induct)
  case (Accept n w w')
  then show ?case using sound_accept unfolding sound_def by blast
next
  case (Read r k w w')
  then show ?case using sound_fd_read unfolding sound_def by blast
next
  case (Write w1 w2 k w w')
  then show ?case using sound_fd_write unfolding sound_def by blast
next
  case (Except k w w')
  then show ?case using sound_shutdown unfolding sound_def controller_fd_except_def by blast
qed

section \<open>The properties\<close>

text \<open>C16: The output buffer of a control connection is a queue: whatever the order of output and of
  writes, partial and failing ones among them, nothing is written outside the buffer, and what the peer was
  sent followed by what is buffered is all output in its order, provided memory was available.
\<close>

theorem control_output_queue:
  assumes "ctl_ok c" and "\<forall>s \<in> set ss. allocated s"
  shows "\<exists>c'. ctl_steps ss c = Inr c' \<and> ctl_ok c' \<and> c_out c' @ queued c' = c_out c @ queued c @ concat (map put_data ss)"
  by (rule ctl_steps_queue [OF assms])

definition demo_ctrl :: ctrl where
  "demo_ctrl = \<lparr>c_tcpfd = 12, inbuf = replicate 256 0, inbuf_count = 0, outbuf = None, outbufsize = 0, outbuf_pos = 0,
     outbuf_count = 0, monitor_port_id = None, c_sel = demo_timers, c_out = [], c_cmd_out = []\<rparr>"

lemma demo_ctrl_ok: "ctl_ok demo_ctrl"
  by (simp add: ctl_ok_def demo_ctrl_def fd_ok_def FD_SETSIZE_def)

theorem control_output_queue_witness:
  "\<exists>c'. ctl_steps [Put True [1, 2, 3], Flush (Written 2), Put True [4], Flush (Write_failed EAGAIN)] demo_ctrl = Inr c' \<and>
     c_out c' @ queued c' = [1, 2, 3, 4]"
  using control_output_queue [OF demo_ctrl_ok, of "[Put True [1, 2, 3], Flush (Written 2), Put True [4], Flush (Write_failed EAGAIN)]"]
  by (auto simp: allocated_def) (auto simp: demo_ctrl_def queued_def)

text \<open>C17: The editing of the input in place is the byte-wise automaton \<^const>\<open>edit\<close>: NUL and newline are
  dropped, backspace and delete take back one byte of the line, a carriage return processes the line, any
  other byte is echoed and joins the line. The loop ends with the unfinished line at the start of the buffer,
  in the same state of the program, or in the same fault.
\<close>

theorem control_editing:
  assumes "i \<le> cnt" and "cnt \<le> length buf" and "0 \<notin> set (take i buf)"
  shows "edits_to (length buf) (edit_loop e k buf (int cnt) (int i) w) (edit e k (take i buf) (drop i (take cnt buf)) w)"
  by (rule edit_loop_edits [OF assms])

definition demo_control :: control_env where
  "demo_control = \<lparr>os = demo_env, startup = demo_startup, peer = (\<lambda>_. (''0.0.0.0'', 0)), VERSION = ''2.9''\<rparr>"

definition demo_controller :: controller where
  "demo_controller = \<lparr>telnet_cmd = replicate 32 0, telnet_cmd_pos = 0, suboption_iac = False, out_telnet_cmd = replicate 256 0,
     out_telnet_cmd_size = 0, error = False, cb_data = demo_ctrl, cmds = controller_cmds\<rparr>"

definition demo_world :: world where
  "demo_world = \<lparr>rdr = demo_reader, controllers = [20], ctls = [20 \<mapsto> demo_controller], num_controller_ports = 1,
     ctl_cmds = controller_cmds, allocs = []\<rparr>"

theorem control_editing_witness:
  "edits_to 5 (edit_loop demo_control 20 [97, 98, 8, 0, 0] 4 0 demo_world) (edit demo_control 20 [] [97, 98, 8, 0] demo_world)"
proof -
  have "length [97, 98, 8, 0, 0 :: byte] = 5" by simp
  then show ?thesis using control_editing [of 0 4 "[97, 98, 8, 0, 0]" demo_control 20 demo_world] by (simp del: edit.simps list.size)
qed

text \<open>C22: The list of control connections is exact after every sequence of the handlers of the control port:
  it has no duplicates, its length is the counter, which never exceeds four, and its elements are the
  connections whose memory is allocated.
\<close>

theorem controllers_counted:
  assumes "(control_step e)\<^sup>*\<^sup>* w w'" and "world_ok w"
  shows "distinct (controllers w') \<and> num_controller_ports w' = int (length (controllers w')) \<and>
    num_controller_ports w' \<le> 4 \<and> (\<forall>k. k \<in> set (controllers w') \<longleftrightarrow> ctls w' k \<noteq> None)"
proof -
  have "world_ok w'" using assms by (induction rule: rtranclp_induct) (auto intro: control_step_ok)
  then show ?thesis by (simp add: world_ok_def max_controller_ports_def)
qed

lemma demo_world_ready: "ready 20 demo_world"
  using demo_ctrl_ok by (simp add: ready_def demo_world_def demo_controller_def)

lemma demo_world_ok: "world_ok demo_world"
  by (simp add: world_ok_def demo_world_def max_controller_ports_def)

theorem controllers_counted_witness:
  "\<exists>w'. control_step demo_control demo_world w' \<and> num_controller_ports w' = 0 \<and> controllers w' = []"
proof -
  obtain w' where w': "shutdown_controller 20 demo_world = Some (Inr w')" "ctls w' 20 = None"
    using shutdown_ready [OF demo_world_ready] by (auto simp: demo_world_def demo_controller_def demo_ctrl_def)
  then have step: "control_step demo_control demo_world w'"
    using Except [of 20 demo_world w'] by (simp add: controller_fd_except_def)
  have n: "num_controller_ports w' = 0"
    using w'(1) by (auto simp: shutdown_controller_def bind_run_eq_Inr on_ctl_def bind_res_eq_Inr stop_monitor_def load_ctl_def demo_world_def demo_controller_def demo_ctrl_def)
  from controllers_counted [OF r_into_rtranclp [of "control_step demo_control", OF step] demo_world_ok] n have "controllers w' = []" by simp
  with step n show ?thesis by blast
qed


text \<open>C24: The command \<^verbatim>\<open>exit\<close> makes the program use freed memory: the line is processed, the connection with its
  input buffer is freed, and the loop over that buffer goes on.
\<close>

theorem exit_use_after_free:
  assumes "ctls w k = Some td" and "ctl_ok (cb_data td)" and "monitor_port_id (cb_data td) = None" and "inbuf_count (cb_data td) = 0"
    and "length (inbuf (cb_data td)) = 256" and "telnet_cmd_pos td = 0" and "\<not> error td"
  shows "controller_fd_read e (Ctl_bytes [101, 120, 105, 116, 13]) k w = Some (Inl Dangling_pointer)"
  by (rule read_exit [OF assms])

theorem exit_use_after_free_witness:
  "controller_fd_read demo_control (Ctl_bytes [101, 120, 105, 116, 13]) 20 demo_world = Some (Inl Dangling_pointer)"
  by (rule exit_use_after_free [of _ _ demo_controller])
    (simp_all add: demo_world_def demo_controller_def demo_ctrl_ok, simp_all add: demo_ctrl_def)

text \<open>A port that a control connection monitors may be freed when the configuration is read again;
  closing that connection then writes into the freed port.
\<close>

theorem monitored_port_freed:
  assumes "\<forall>p \<in> set (port_list (srv w)). idle_ok (srv w) p" and "distinct (port_list (srv w))"
    and "ctls w k = Some td" and "monitor_port_id (cb_data td) = Some p" and "p \<in> set (port_list (srv w))"
    and "\<not> kept num (conn_of (srv w) p)"
  shows "\<exists>sv'. clear_old_port_config e n num (srv w) = Some (Inr sv') \<and>
    shutdown_controller k (set_srv sv' w) = Some (Inl Dangling_pointer)"
proof -
  obtain sv' where sv': "clear_old_port_config e n num (srv w) = Some (Inr sv')"
    "\<forall>p \<in> set (port_list (srv w)). cleared num (objs (srv w) p) (objs sv' p)"
    using clear_ports_ok [OF assms(1) assms(2) assms(2), of e n num] by (auto simp: clear_old_port_config_def)
  have "objs sv' p = None"
    using sv'(2) assms(5,6) by (auto simp: cleared_def conn_of_def split: option.splits)
  then have "data_monitor_stop p sv' = Some (Inl Dangling_pointer)"
    by (simp add: data_monitor_stop_def set_port_def on_port_def with_port_def load_def)
  then have "shutdown_controller k (set_srv sv' w) = Some (Inl Dangling_pointer)"
    using assms(3,4) by (simp add: shutdown_controller_def stop_monitor_def load_ctl_def on_srv_def)
  with sv'(1) show ?thesis by blast
qed

theorem monitored_port_freed_witness:
  "\<exists>sv'. clear_old_port_config demo_env demo_startup 7 demo_server = Some (Inr sv') \<and>
    shutdown_controller 20 (set_srv sv' (demo_world\<lparr>ctls := [20 \<mapsto> upd_ctrl (\<lambda>c. c\<lparr>monitor_port_id := Some 0\<rparr>) demo_controller]\<rparr>)) =
      Some (Inl Dangling_pointer)"
proof -
  let ?w = "demo_world\<lparr>ctls := [20 \<mapsto> upd_ctrl (\<lambda>c. c\<lparr>monitor_port_id := Some 0\<rparr>) demo_controller]\<rparr>"
  have s: "srv ?w = demo_server" by (simp add: demo_world_def demo_reader_def)
  have "\<forall>p \<in> set (port_list (srv ?w)). idle_ok (srv ?w) p" "distinct (port_list (srv ?w))" "0 \<in> set (port_list (srv ?w))"
    "\<not> kept 7 (conn_of (srv ?w) 0)" unfolding s
    by (simp_all add: demo_server_def idle_ok_def conn_of_def demo_port_def closable_def fd_ok_def FD_SETSIZE_def kept_def)
      (simp_all add: demo_conn_def demo_timers_def)
  from monitored_port_freed [OF this(1,2) _ _ this(3,4), of 20 "upd_ctrl (\<lambda>c. c\<lparr>monitor_port_id := Some 0\<rparr>) demo_controller" demo_env demo_startup]
  show ?thesis unfolding s by simp
qed

end
