(* ===== verification/Vf48.thy ===== *)
theory Vf48
  imports C_Prelude "HOL-Library.Word"
begin

text \<open>
  The unpacker of VF48 digitizer data (\<^verbatim>\<open>src/vme/UnpackVF48A.cxx\<close> and its header).  A module sends
  words of 32 bits in which its six groups of channels are interleaved; \<^verbatim>\<open>UnpackStream\<close> separates
  the groups, \<^verbatim>\<open>UnpackEvent\<close> decodes what one group sent for one trigger, and events are put
  together from modules whose time stamps agree.

  Arrays that are indexed by a module, a group or a channel are functions: the code asserts or
  tests the index before it uses it, and where it does not the model has a fault.  An event owns
  its modules, so the pointer to the module that is being decoded is the position of its event in
  the buffer, which only grows meanwhile.  Arithmetic on \<^verbatim>\<open>double\<close> belongs to the machine: the
  type \<open>'d\<close> and the operations in the record \<open>fp_env\<close> stand for it.  What is printed is left out.
\<close>

unbundle bit_operations_syntax

section \<open>Data\<close>

type_synonym w32 = "32 word"

definition VF48_MAX_MODULES :: nat where "VF48_MAX_MODULES = 22"
definition VF48_MAX_GROUPS :: nat where "VF48_MAX_GROUPS = 6"
definition VF48_MAX_CHANNELS :: nat where "VF48_MAX_CHANNELS = 48"
definition VF48_MAX_SAMPLES :: nat where "VF48_MAX_SAMPLES = 1100"

record vf48_channel =
  ch_number :: int
  ch_time :: w32
  ch_charge :: w32
  ch_complete :: bool
  ch_numSamples :: nat
  ch_samples :: "16 word list"

record 'd vf48_module =
  m_unit :: nat
  m_trigger :: w32
  m_error :: int
  m_tgroup :: nat
  m_timestampGroupMask :: w32
  m_timestamp64 :: "nat \<Rightarrow> 64 word"
  m_timestamps :: "nat \<Rightarrow> 'd"
  m_groupMask :: w32
  m_completeGroupMask :: w32
  m_complete :: bool
  m_numSamples :: int
  m_numChannels :: int
  m_suppressMask :: "nat \<Rightarrow> w32"
  m_channels :: "nat \<Rightarrow> vf48_channel"

record 'd vf48_event =
  e_eventNo :: int
  e_complete :: bool
  e_error :: int
  e_modulesMask :: w32
  e_timestamp :: 'd
  e_modules :: "nat \<Rightarrow> 'd vf48_module option"

text \<open>The object, with the static variables of the file.\<close>

record 'd unpacker =
  fNumModules :: nat
  fModulesMask :: w32
  fGroupEnabled :: "nat \<Rightarrow> w32"
  fChanEnabled :: "nat \<Rightarrow> nat \<Rightarrow> bool"
  fNumSamples :: "nat \<Rightarrow> int"
  fFreq :: "nat \<Rightarrow> 'd"
  fCoinc :: 'd
  fFlushIncompleteThreshold :: w32
  fTimestampResyncEnable :: bool
  fEventNo :: int
  fBadDataCount :: int
  fBuffer :: "'d vf48_event list"
  wgrp :: "nat \<Rightarrow> nat"
  wmax :: "nat \<Rightarrow> nat \<Rightarrow> nat"
  wptr :: "nat \<Rightarrow> nat \<Rightarrow> nat"
  wbuf :: "nat \<Rightarrow> nat \<Rightarrow> w32 list option"
  wacc :: "nat \<Rightarrow> nat \<Rightarrow> bool"
  timestampBases :: "nat \<Rightarrow> 64 word"
  last_ts :: "nat \<Rightarrow> nat \<Rightarrow> 64 word"
  countSkipped :: "nat \<Rightarrow> int"

text \<open>\<open>seconds n f\<close> is \<^verbatim>\<open>n / f\<close>, \<open>closer a b c\<close> is \<^verbatim>\<open>fabs(a - b) < c\<close>, \<open>coinc_ticks c f\<close> is
  \<^verbatim>\<open>(int)(c * f)\<close>, and \<open>apart a b\<close> is \<^verbatim>\<open>fabs(a - b) > 0.010\<close>; \<open>malloc_ok\<close>: \<^verbatim>\<open>malloc\<close> succeeds.  What new
  memory holds: the samples, time and charge of a channel, and the words of a buffer.\<close>

record 'd fp_env =
  zero_time :: 'd
  seconds :: "64 word \<Rightarrow> 'd \<Rightarrow> 'd"
  closer :: "'d \<Rightarrow> 'd \<Rightarrow> 'd \<Rightarrow> bool"
  coinc_ticks :: "'d \<Rightarrow> 'd \<Rightarrow> int"
  apart :: "'d \<Rightarrow> 'd \<Rightarrow> bool"
  malloc_ok :: bool
  raw_time :: "nat \<Rightarrow> w32"
  raw_charge :: "nat \<Rightarrow> w32"
  raw_sample :: "nat \<Rightarrow> nat \<Rightarrow> 16 word"
  raw_word :: "nat \<Rightarrow> w32"

text \<open>The constructors.  They do not set the samples, time and charge of a channel.\<close>

definition new_channel :: "'d fp_env \<Rightarrow> nat \<Rightarrow> vf48_channel" where
  "new_channel e c = \<lparr>ch_number = -1, ch_time = raw_time e c, ch_charge = raw_charge e c, ch_complete = False,
     ch_numSamples = 0, ch_samples = map (raw_sample e c) [0..<VF48_MAX_SAMPLES]\<rparr>"

definition new_module :: "'d fp_env \<Rightarrow> nat \<Rightarrow> 'd vf48_module" where
  "new_module e i = \<lparr>m_unit = i, m_trigger = 0, m_error = 0, m_tgroup = 0, m_timestampGroupMask = 0,
     m_timestamp64 = (\<lambda>_. 0), m_timestamps = (\<lambda>_. zero_time e), m_groupMask = 0, m_completeGroupMask = 0,
     m_complete = False, m_numSamples = 0, m_numChannels = 0, m_suppressMask = (\<lambda>_. 0), m_channels = new_channel e\<rparr>"

definition new_event :: "'d fp_env \<Rightarrow> int \<Rightarrow> 'd vf48_event" where
  "new_event e n = \<lparr>e_eventNo = n, e_complete = False, e_error = 0, e_modulesMask = 0, e_timestamp = zero_time e,
     e_modules = (\<lambda>_. None)\<rparr>"

section \<open>Settings\<close>

definition SetNumModules :: "int \<Rightarrow> 'd unpacker \<Rightarrow> 'd unpacker res" where
  "SetNumModules n u =
     (if n \<le> 0 \<or> int VF48_MAX_MODULES \<le> n then Inl Assert_failed
      else Inr (u\<lparr>fNumModules := nat n, fModulesMask := fold (\<lambda>i m. m OR push_bit i 1) [0..<nat n] 0\<rparr>))"

definition SetModulesMask :: "w32 \<Rightarrow> 'd unpacker \<Rightarrow> 'd unpacker" where
  "SetModulesMask m u = u\<lparr>fModulesMask := m\<rparr>"

definition SetGroupEnableMask :: "int \<Rightarrow> w32 \<Rightarrow> 'd unpacker \<Rightarrow> 'd unpacker" where
  "SetGroupEnableMask unit m u =
     u\<lparr>fGroupEnabled := (\<lambda>i. if i < fNumModules u \<and> (int i = unit \<or> unit < 0) then m else fGroupEnabled u i)\<rparr>"

definition SetNumSamples :: "int \<Rightarrow> int \<Rightarrow> 'd unpacker \<Rightarrow> 'd unpacker" where
  "SetNumSamples unit n u =
     u\<lparr>fNumSamples := (\<lambda>i. if i < fNumModules u \<and> (int i = unit \<or> unit < 0) then n else fNumSamples u i)\<rparr>"

definition SetChanEnable :: "int \<Rightarrow> int \<Rightarrow> w32 \<Rightarrow> 'd unpacker \<Rightarrow> 'd unpacker res" where
  "SetChanEnable unit grp m u =
     (if unit < 0 \<or> int (fNumModules u) \<le> unit \<or> grp < 0 \<or> int VF48_MAX_GROUPS \<le> grp then Inl Assert_failed
      else
        let k = nat unit; g = nat grp; w = VF48_MAX_CHANNELS div VF48_MAX_GROUPS in
        Inr (u\<lparr>fChanEnabled := (fChanEnabled u)(k := (\<lambda>c.
          if g * VF48_MAX_CHANNELS div VF48_MAX_GROUPS \<le> c \<and> c < g * VF48_MAX_CHANNELS div VF48_MAX_GROUPS + w
          then bit m (c - g * VF48_MAX_CHANNELS div VF48_MAX_GROUPS) else fChanEnabled u k c))\<rparr>))"

text \<open>The loop selects the index \<open>i\<close> but stores at \<open>unit\<close>.\<close>

definition SetTsFreq :: "int \<Rightarrow> 'd \<Rightarrow> 'd unpacker \<Rightarrow> 'd unpacker res" where
  "SetTsFreq unit f u =
     (if \<exists>i \<in> set [0..<fNumModules u]. int i = unit \<or> unit < 0 then
        (if unit < 0 then Inl Out_of_bounds else Inr (u\<lparr>fFreq := (fFreq u)(nat unit := f)\<rparr>))
      else Inr u)"

definition GetTsFreq :: "int \<Rightarrow> 'd unpacker \<Rightarrow> 'd res" where
  "GetTsFreq unit u = (if unit < 0 \<or> int (fNumModules u) \<le> unit then Inl Assert_failed else Inr (fFreq u (nat unit)))"

definition SetCoincTime :: "'d \<Rightarrow> 'd unpacker \<Rightarrow> 'd unpacker" where
  "SetCoincTime t u = u\<lparr>fCoinc := t\<rparr>"

definition SetTimestampResync :: "bool \<Rightarrow> 'd unpacker \<Rightarrow> 'd unpacker" where
  "SetTimestampResync b u = u\<lparr>fTimestampResyncEnable := b\<rparr>"

definition SetFlushIncompleteThreshold :: "w32 \<Rightarrow> 'd unpacker \<Rightarrow> 'd unpacker" where
  "SetFlushIncompleteThreshold n u = u\<lparr>fFlushIncompleteThreshold := n\<rparr>"

definition ResetStreamBuffer :: "'d unpacker \<Rightarrow> 'd unpacker" where
  "ResetStreamBuffer u =
     u\<lparr>wgrp := (\<lambda>_. 0), wmax := (\<lambda>_ _. 0), wptr := (\<lambda>_ _. 0), wacc := (\<lambda>_ _. False)\<rparr>"

definition ResetEventBuffer :: "'d unpacker \<Rightarrow> 'd unpacker" where
  "ResetEventBuffer u = u\<lparr>fBuffer := []\<rparr>"

definition Reset :: "'d unpacker \<Rightarrow> 'd unpacker" where
  "Reset u =
     (ResetStreamBuffer (ResetEventBuffer u))\<lparr>fBadDataCount := 0, fEventNo := 0, timestampBases := (\<lambda>_. 0),
       last_ts := (\<lambda>_ _. 0), fChanEnabled := (\<lambda>unit c. bit (fGroupEnabled u unit) (c div 8))\<rparr>"

text \<open>The constructor, when the static variables still have their initial value 0.\<close>

definition new_unpacker :: "'d \<Rightarrow> 'd \<Rightarrow> 'd unpacker" where
  "new_unpacker freq coinc = \<lparr>fNumModules = 0, fModulesMask = 0, fGroupEnabled = (\<lambda>_. 0x3F), fChanEnabled = (\<lambda>_ _. True),
     fNumSamples = (\<lambda>_. 1000), fFreq = (\<lambda>_. freq), fCoinc = coinc, fFlushIncompleteThreshold = 20,
     fTimestampResyncEnable = True, fEventNo = 0, fBadDataCount = 0, fBuffer = [], wgrp = (\<lambda>_. 0), wmax = (\<lambda>_ _. 0),
     wptr = (\<lambda>_ _. 0), wbuf = (\<lambda>_ _. None), wacc = (\<lambda>_ _. False), timestampBases = (\<lambda>_. 0), last_ts = (\<lambda>_ _. 0),
     countSkipped = (\<lambda>_. 0)\<rparr>"

section \<open>The buffer of events\<close>

abbreviation bad_data :: "'d unpacker \<Rightarrow> 'd unpacker" where
  "bad_data u \<equiv> u\<lparr>fBadDataCount := fBadDataCount u + 1\<rparr>"

text \<open>\<^verbatim>\<open>FindEvent\<close> returns a position in the buffer.\<close>

fun position_from :: "('a \<Rightarrow> bool) \<Rightarrow> nat \<Rightarrow> 'a list \<Rightarrow> nat option" where
  "position_from P i [] = None"
| "position_from P i (x # xs) = (if P x then Some i else position_from P (Suc i) xs)"

definition FindEvent :: "'d fp_env \<Rightarrow> nat \<Rightarrow> 'd \<Rightarrow> bool \<Rightarrow> 'd unpacker \<Rightarrow> nat \<times> 'd unpacker" where
  "FindEvent e unit t dup u =
     (case position_from (\<lambda>ev. closer e (e_timestamp ev) t (fCoinc u) \<and> (e_modules ev unit = None \<or> dup)) 0 (fBuffer u) of
        Some i \<Rightarrow> (i, u)
      | None \<Rightarrow>
          (length (fBuffer u),
           u\<lparr>fEventNo := fEventNo u + 1, fBuffer := fBuffer u @ [(new_event e (fEventNo u + 1))\<lparr>e_timestamp := t\<rparr>]\<rparr>))"

definition update_event :: "nat \<Rightarrow> ('d vf48_event \<Rightarrow> 'd vf48_event) \<Rightarrow> 'd unpacker \<Rightarrow> 'd unpacker" where
  "update_event i f u = u\<lparr>fBuffer := (fBuffer u)[i := f (fBuffer u ! i)]\<rparr>"

text \<open>\<^verbatim>\<open>FindEvent\<close> never returns NULL, so what follows the \<^verbatim>\<open>if\<close> is not reached.\<close>

definition FindModule :: "'d fp_env \<Rightarrow> nat \<Rightarrow> 'd \<Rightarrow> 'd unpacker \<Rightarrow> nat \<times> 'd unpacker" where
  "FindModule e unit t u =
     (let (i, u1) = FindEvent e unit t True u in
      case e_modules (fBuffer u1 ! i) unit of
        Some m \<Rightarrow> (i, u1)
      | None \<Rightarrow>
          (i, update_event i (\<lambda>ev. ev\<lparr>e_modules := (e_modules ev)(unit \<mapsto> new_module e unit)\<rparr>) u1))"

text \<open>\<^verbatim>\<open>CompleteModule\<close>: the channels of a module, then its groups.\<close>

definition check_channel :: "'d unpacker \<Rightarrow> nat \<Rightarrow> 'd vf48_module \<times> int \<Rightarrow> 'd vf48_module \<times> int" where
  "check_channel u i = (\<lambda>(m, bad).
     let c = m_channels m i in
     if \<not> fChanEnabled u (m_unit m) i \<or> ch_number c = -1 \<and> ch_numSamples c = 0 \<or> ch_numSamples c = 0 then (m, bad)
     else
       let (m1, bad1) = (if int (ch_numSamples c) \<noteq> fNumSamples u (m_unit m) then (m\<lparr>m_error := 1\<rparr>, bad + 1) else (m, bad)) in
       (if VF48_MAX_SAMPLES < ch_numSamples c
        then m1\<lparr>m_channels := (m_channels m1)(i := c\<lparr>ch_numSamples := VF48_MAX_SAMPLES\<rparr>)\<rparr> else m1, bad1))"

definition check_group :: "'d fp_env \<Rightarrow> 'd unpacker \<Rightarrow> 'd \<Rightarrow> nat \<Rightarrow> 'd vf48_module \<times> int \<Rightarrow> 'd vf48_module \<times> int" where
  "check_group e u t i = (\<lambda>(m, bad).
     if bit (fGroupEnabled u (m_unit m)) i \<and>
       (\<not> bit (m_groupMask m) i \<or> \<not> bit (m_timestampGroupMask m) i \<or> apart e (m_timestamps m i) t)
     then (m\<lparr>m_error := 1\<rparr>, bad + 1) else (m, bad))"

definition CompleteModule :: "'d fp_env \<Rightarrow> 'd unpacker \<Rightarrow> 'd vf48_module \<Rightarrow> 'd vf48_module \<times> int" where
  "CompleteModule e u m =
     (if m_groupMask m = 0 then (m\<lparr>m_complete := True\<rparr>, fBadDataCount u)
      else
        let (m1, bad1) = fold (check_channel u) [0..<VF48_MAX_CHANNELS] (m, fBadDataCount u);
            (m2, bad2) = fold (check_group e u (m_timestamps m1 (m_tgroup m1))) [0..<VF48_MAX_GROUPS] (m1, bad1)
        in (m2\<lparr>m_complete := True\<rparr>, bad2))"

definition CompleteEvent :: "'d unpacker \<Rightarrow> 'd vf48_event \<Rightarrow> 'd vf48_event" where
  "CompleteEvent u ev =
     (if fModulesMask u = 0 then ev\<lparr>e_complete := True\<rparr>
      else
        let mask = fold (\<lambda>i k. case e_modules ev i of None \<Rightarrow> k | Some m \<Rightarrow> if m_complete m then k OR push_bit i 1 else k)
              [0..<fNumModules u] (e_modulesMask ev);
            ev1 = ev\<lparr>e_modulesMask := mask\<rparr>
        in if mask = fModulesMask u then ev1\<lparr>e_complete := True\<rparr> else ev1)"

text \<open>The loop of \<^verbatim>\<open>GetEvent\<close>: events are completed until one is complete.\<close>

fun complete_until :: "'d unpacker \<Rightarrow> 'd vf48_event list \<Rightarrow> bool \<times> 'd vf48_event list" where
  "complete_until u [] = (False, [])"
| "complete_until u (ev # evs) =
     (let ev1 = (if e_complete ev then ev else CompleteEvent u ev) in
      if e_complete ev1 then (True, ev1 # evs)
      else let (found, evs1) = complete_until u evs in (found, ev1 # evs1))"

definition GetEvent :: "bool \<Rightarrow> 'd unpacker \<Rightarrow> 'd vf48_event option \<times> 'd unpacker" where
  "GetEvent flush u =
     (case fBuffer u of
        [] \<Rightarrow> (None, u)
      | ev # evs \<Rightarrow>
          let ev1 = (if e_complete ev then ev else CompleteEvent u ev) in
          if e_complete ev1 \<or> flush then (Some ev1, u\<lparr>fBuffer := evs\<rparr>)
          else
            let (found, evs1) = complete_until u (ev1 # evs) in
            if found \<or> unat (fFlushIncompleteThreshold u) < length evs1
            then (Some (hd evs1), u\<lparr>fBuffer := tl evs1\<rparr>)
            else (None, u\<lparr>fBuffer := evs1\<rparr>))"

text \<open>\<^verbatim>\<open>AddToEvent\<close>, for a module that is not in an event yet.\<close>

definition AddToEvent :: "'d fp_env \<Rightarrow> 'd vf48_module \<Rightarrow> 'd unpacker \<Rightarrow> 'd unpacker" where
  "AddToEvent e m u =
     (let (i, u1) = FindEvent e (m_unit m) (m_timestamps m (m_tgroup m)) False u in
      if e_modules (fBuffer u1 ! i) (m_unit m) \<noteq> None then bad_data u1
      else
        update_event i (\<lambda>ev. ev\<lparr>e_modules := (e_modules ev)(m_unit m \<mapsto> m),
          e_error := (if e_error ev < m_error m then m_error m else e_error ev)\<rparr>) u1)"

section \<open>Decoding\<close>

text \<open>The local variables of \<^verbatim>\<open>UnpackEvent\<close>; \<open>cur\<close> is the pointer \<^verbatim>\<open>m\<close>.\<close>

record 'd decoder =
  cur :: "nat option"
  chan :: int
  headerTrigNo :: int
  timestampCount :: int
  timestampFlag :: bool
  timestamp1 :: w32
  timestamp2 :: w32
  unp :: "'d unpacker"

definition new_decoder :: "'d unpacker \<Rightarrow> 'd decoder" where
  "new_decoder u = \<lparr>cur = None, chan = -1, headerTrigNo = -1, timestampCount = 0, timestampFlag = False,
     timestamp1 = 0, timestamp2 = 0, unp = u\<rparr>"

abbreviation bad_word :: "'d decoder \<Rightarrow> 'd decoder" where
  "bad_word d \<equiv> d\<lparr>unp := bad_data (unp d)\<rparr>"

definition get_module :: "nat \<Rightarrow> 'd decoder \<Rightarrow> 'd vf48_module option" where
  "get_module unit d = (case cur d of None \<Rightarrow> None | Some i \<Rightarrow> e_modules (fBuffer (unp d) ! i) unit)"

definition put_module :: "nat \<Rightarrow> 'd vf48_module \<Rightarrow> 'd decoder \<Rightarrow> 'd decoder" where
  "put_module unit m d =
     (case cur d of
        None \<Rightarrow> d
      | Some i \<Rightarrow> d\<lparr>unp := update_event i (\<lambda>ev. ev\<lparr>e_modules := (e_modules ev)(unit \<mapsto> m)\<rparr>) (unp d)\<rparr>)"

abbreviation set_channel :: "nat \<Rightarrow> (vf48_channel \<Rightarrow> vf48_channel) \<Rightarrow> 'd vf48_module \<Rightarrow> 'd vf48_module" where
  "set_channel c f m \<equiv> m\<lparr>m_channels := (m_channels m)(c := f (m_channels m c))\<rparr>"

definition bad_chan :: "'d decoder \<Rightarrow> bool" where
  "bad_chan d \<longleftrightarrow> chan d < 0 \<or> int VF48_MAX_CHANNELS \<le> chan d"

definition unexpected_word :: "nat \<Rightarrow> w32 \<Rightarrow> 'd decoder \<Rightarrow> 'd decoder res" where
  "unexpected_word unit w d =
     (if w = 0xDEADDEAD \<or> w = 0xDEADBEEF then Inr d
      else
        case get_module unit d of
          None \<Rightarrow> Inr (bad_word d)
        | Some m \<Rightarrow> if bad_chan d then Inl Out_of_bounds else Inr (bad_word (put_module unit (m\<lparr>m_error := 1\<rparr>) d)))"

definition header_word :: "w32 \<Rightarrow> 'd decoder \<Rightarrow> 'd decoder" where
  "header_word w d = d\<lparr>headerTrigNo := uint (w AND 0x00FFFFFF)\<rparr>"

definition timestamp_word :: "w32 \<Rightarrow> 'd decoder \<Rightarrow> 'd decoder" where
  "timestamp_word w d =
     (let t = w AND 0x00FFFFFF;
          d1 = (if timestampCount d = 0 then d\<lparr>timestamp1 := t\<rparr>
                else if timestampCount d = 1 then d\<lparr>timestamp2 := t\<rparr> else bad_word d)
      in d1\<lparr>timestampCount := timestampCount d1 + 1, timestampFlag := True\<rparr>)"

text \<open>The group and the channel number in a channel header.\<close>

definition header_group :: "nat \<Rightarrow> w32 \<Rightarrow> nat" where
  "header_group grp w = (let g = unat (drop_bit 4 (w AND 0x70)) in if g = 0 then grp else g)"

definition header_channel :: "nat \<Rightarrow> w32 \<Rightarrow> nat" where
  "header_channel grp w = unat ((w AND 7) OR push_bit 3 (of_nat (header_group grp w)))"

text \<open>The time stamp of the words that preceded a channel header, and the module it belongs to.\<close>

definition stamp_value :: "nat \<Rightarrow> 'd decoder \<Rightarrow> 'd decoder \<times> 64 word" where
  "stamp_value unit d =
     (let t = ucast (timestamp1 d) OR push_bit 24 (ucast (timestamp2 d)) :: 64 word in
      if fTimestampResyncEnable (unp d) then
        let (d1, t1) = (if t = 0 \<and> headerTrigNo d = 1 then (d\<lparr>timestamp1 := 1\<rparr>, 1) else (d, t));
            u = unp d1
        in (if timestampBases u unit = 0 then d1\<lparr>unp := u\<lparr>timestampBases := (timestampBases u)(unit := t1)\<rparr>\<rparr> else d1, t1)
      else (d, t))"

definition fresh_stamp :: "'d fp_env \<Rightarrow> nat \<Rightarrow> nat \<Rightarrow> 'd decoder \<times> 64 word \<Rightarrow> 'd decoder \<times> 64 word" where
  "fresh_stamp e unit g = (\<lambda>(d, t).
     let u = unp d; old = last_ts u unit g;
         (u, t) = (if t = old then (bad_data u, old + word_of_int (coinc_ticks e (fCoinc u) (fFreq u unit)) + 1) else (u, t))
     in (d\<lparr>unp := u\<lparr>last_ts := (last_ts u)(unit := (last_ts u unit)(g := t))\<rparr>\<rparr>, t))"

definition enter_module :: "'d fp_env \<Rightarrow> nat \<Rightarrow> 'd \<Rightarrow> 'd decoder \<Rightarrow> 'd decoder" where
  "enter_module e unit secs d =
     (case cur d of
        Some i \<Rightarrow> d
      | None \<Rightarrow>
          let (i, u) = FindModule e unit secs (unp d); d = d\<lparr>cur := Some i, unp := u\<rparr> in
          (case get_module unit d of
             None \<Rightarrow> d
           | Some m \<Rightarrow> put_module unit (m\<lparr>m_unit := unit, m_trigger := word_of_int (headerTrigNo d)\<rparr>) d))"

definition stamp :: "'d fp_env \<Rightarrow> nat \<Rightarrow> nat \<Rightarrow> 'd decoder \<Rightarrow> 'd decoder" where
  "stamp e unit g d =
     (let (d, t) = fresh_stamp e unit g (stamp_value unit d);
          secs = seconds e (t - timestampBases (unp d) unit) (fFreq (unp d) unit);
          d = enter_module e unit secs d
      in case get_module unit d of
           None \<Rightarrow> d
         | Some m \<Rightarrow>
             put_module unit (m\<lparr>m_timestamp64 := (m_timestamp64 m)(g := t), m_timestamps := (m_timestamps m)(g := secs),
               m_tgroup := g\<rparr>) d)"

definition open_channel :: "nat \<Rightarrow> nat \<Rightarrow> bool \<Rightarrow> 'd vf48_module \<Rightarrow> 'd vf48_module" where
  "open_channel g c stamped m =
     set_channel c (\<lambda>ch. ch\<lparr>ch_complete := False, ch_numSamples := 0, ch_number := int c\<rparr>)
       (m\<lparr>m_groupMask := m_groupMask m OR push_bit g 1,
          m_timestampGroupMask := (if stamped then m_timestampGroupMask m OR push_bit g 1 else m_timestampGroupMask m),
          m_completeGroupMask := m_completeGroupMask m OR push_bit g 1\<rparr>)"

definition channel_word :: "'d fp_env \<Rightarrow> nat \<Rightarrow> nat \<Rightarrow> w32 \<Rightarrow> 'd decoder \<Rightarrow> 'd decoder res" where
  "channel_word e unit grp w d =
     (let g = header_group grp w; c = header_channel grp w; d = d\<lparr>chan := int c\<rparr> in
      if VF48_MAX_CHANNELS \<le> c then Inr (bad_word d)
      else
        let d = (if timestampCount d \<noteq> 0 then stamp e unit g d else d) in
        case get_module unit d of
          None \<Rightarrow> Inl Null_pointer
        | Some m \<Rightarrow>
            let d = (if ch_numSamples (m_channels m c) \<noteq> 0 then bad_word d else d) in
            Inr ((put_module unit (open_channel g c (timestampFlag d) m) d)\<lparr>timestampCount := 0, timestampFlag := False\<rparr>))"

text \<open>What needs a module and a channel.\<close>

definition with_channel ::
  "nat \<Rightarrow> ('d vf48_module \<Rightarrow> nat \<Rightarrow> 'd decoder \<Rightarrow> 'd decoder res) \<Rightarrow> 'd decoder \<Rightarrow> 'd decoder res" where
  "with_channel unit f d =
     (case get_module unit d of
        None \<Rightarrow> Inr (bad_word d)
      | Some m \<Rightarrow> if bad_chan d then Inr (bad_word d) else f m (nat (chan d)) d)"

definition sample_word :: "nat \<Rightarrow> w32 \<Rightarrow> 'd decoder \<Rightarrow> 'd decoder res" where
  "sample_word unit w =
     with_channel unit (\<lambda>m c d.
       let cc = m_channels m c; n = ch_numSamples cc in
       if ch_complete cc then Inr (bad_word (put_module unit (m\<lparr>m_error := 1\<rparr>) d))
       else if n < VF48_MAX_SAMPLES - 2 then
         bind_res (write_at n [ucast (w AND 0x3FFF), ucast (drop_bit 16 w AND 0x3FFF)] (ch_samples cc)) (\<lambda>samples.
         Inr (put_module unit (set_channel c (\<lambda>ch. ch\<lparr>ch_samples := samples, ch_numSamples := n + 2\<rparr>) m) d))
       else Inr (bad_word (put_module unit (set_channel c (\<lambda>ch. ch\<lparr>ch_numSamples := n + 2\<rparr>) (m\<lparr>m_error := 1\<rparr>)) d)))"

definition time_word :: "nat \<Rightarrow> w32 \<Rightarrow> 'd decoder \<Rightarrow> 'd decoder res" where
  "time_word unit w =
     with_channel unit (\<lambda>m c d.
       Inr (put_module unit (set_channel c (\<lambda>ch. ch\<lparr>ch_time := w AND 0x00FFFFFF, ch_complete := True\<rparr>) m) d))"

definition charge_word :: "nat \<Rightarrow> w32 \<Rightarrow> 'd decoder \<Rightarrow> 'd decoder res" where
  "charge_word unit w =
     with_channel unit (\<lambda>m c d.
       let m = (if w AND 0x0F000000 = 0 then m\<lparr>m_suppressMask := (m_suppressMask m)(c div 8 := w AND 0xFF)\<rparr> else m) in
       Inr (put_module unit (set_channel c (\<lambda>ch. ch\<lparr>ch_charge := w AND 0x00FFFFFF, ch_complete := True\<rparr>) m) d))"

definition trailer_word :: "'d fp_env \<Rightarrow> nat \<Rightarrow> w32 \<Rightarrow> 'd decoder \<Rightarrow> 'd decoder res" where
  "trailer_word e unit w =
     with_channel unit (\<lambda>m c d.
       let m = set_channel c (\<lambda>ch. ch\<lparr>ch_complete := True\<rparr>) m;
           (m, d) = (if uint (w AND 0x00FFFFFF) \<noteq> headerTrigNo d then (m\<lparr>m_error := 1\<rparr>, bad_word d) else (m, d)) in
       if m_completeGroupMask m = fGroupEnabled (unp d) unit then
         let (m, bad) = CompleteModule e (unp d) m;
             d = put_module unit m d
         in Inr (d\<lparr>cur := None, unp := (unp d)\<lparr>fBadDataCount := bad\<rparr>\<rparr>)
       else Inr (put_module unit m d))"

definition decode_word :: "'d fp_env \<Rightarrow> nat \<Rightarrow> nat \<Rightarrow> 'd decoder \<Rightarrow> w32 \<Rightarrow> 'd decoder res" where
  "decode_word e unit grp d w =
     (let tag = w AND 0xF0000000 in
      if tag = 0xF0000000 then Inr d
      else if tag = 0x80000000 then Inr (header_word w d)
      else if tag = 0xA0000000 then Inr (timestamp_word w d)
      else if tag = 0xC0000000 then channel_word e unit grp w d
      else if tag = 0 then sample_word unit w d
      else if tag = 0x40000000 then time_word unit w d
      else if tag = 0x50000000 then charge_word unit w d
      else if tag = 0xE0000000 then trailer_word e unit w d
      else unexpected_word unit w d)"

definition UnpackEvent :: "'d fp_env \<Rightarrow> nat \<Rightarrow> nat \<Rightarrow> w32 list \<Rightarrow> 'd unpacker \<Rightarrow> 'd unpacker res" where
  "UnpackEvent e unit grp ws u =
     (if VF48_MAX_MODULES \<le> unit \<or> VF48_MAX_GROUPS \<le> grp then Inl Assert_failed
      else bind_res (run_steps (decode_word e unit grp) (new_decoder u) ws) (\<lambda>d. Inr (unp d)))"

section \<open>Separating the groups\<close>

text \<open>\<open>wmax\<close> counts what \<^verbatim>\<open>malloc\<close> is asked for, which are bytes; the words of a new buffer are not
  set.\<close>

definition NewGroup :: "'d fp_env \<Rightarrow> nat \<Rightarrow> 'd unpacker \<Rightarrow> (nat \<times> 'd unpacker) res" where
  "NewGroup e unit u =
     (let grp = wgrp u unit in
      if VF48_MAX_GROUPS \<le> grp then Inl Assert_failed
      else
        case wbuf u unit grp of
          Some b \<Rightarrow> Inr (grp, u)
        | None \<Rightarrow>
            let n = VF48_MAX_SAMPLES * 2 * VF48_MAX_CHANNELS + 1024 in
            if \<not> malloc_ok e then Inl Assert_failed
            else
              Inr (grp, u\<lparr>wmax := (wmax u)(unit := (wmax u unit)(grp := n)),
                wbuf := (wbuf u)(unit := (wbuf u unit)(grp := Some (map (raw_word e) [0..<n div 4]))),
                wptr := (wptr u)(unit := (wptr u unit)(grp := 0)), wacc := (wacc u)(unit := (wacc u unit)(grp := False))\<rparr>))"

definition set_wptr :: "nat \<Rightarrow> nat \<Rightarrow> nat \<Rightarrow> 'd unpacker \<Rightarrow> 'd unpacker" where
  "set_wptr unit grp n u = u\<lparr>wptr := (wptr u)(unit := (wptr u unit)(grp := n))\<rparr>"

definition set_wacc :: "nat \<Rightarrow> nat \<Rightarrow> bool \<Rightarrow> 'd unpacker \<Rightarrow> 'd unpacker" where
  "set_wacc unit grp b u = u\<lparr>wacc := (wacc u)(unit := (wacc u unit)(grp := b))\<rparr>"

text \<open>\<^verbatim>\<open>wbuf[unit][grp][wptr[unit][grp]++] = w\<close>\<close>

definition store_word :: "nat \<Rightarrow> nat \<Rightarrow> w32 \<Rightarrow> 'd unpacker \<Rightarrow> 'd unpacker res" where
  "store_word unit grp w u =
     (case wbuf u unit grp of
        None \<Rightarrow> Inl Null_pointer
      | Some b \<Rightarrow>
          let n = wptr u unit grp in
          if length b \<le> n then Inl Buffer_overflow
          else Inr (set_wptr unit grp (n + 1) (u\<lparr>wbuf := (wbuf u)(unit := (wbuf u unit)(grp := Some (b[n := w])))\<rparr>)))"

definition unpack_buffer :: "'d fp_env \<Rightarrow> nat \<Rightarrow> nat \<Rightarrow> 'd unpacker \<Rightarrow> 'd unpacker res" where
  "unpack_buffer e unit grp u =
     (case wbuf u unit grp of
        None \<Rightarrow> Inl Null_pointer
      | Some b \<Rightarrow>
          bind_res (UnpackEvent e unit grp (take (wptr u unit grp) b) u) (\<lambda>u1. Inr (set_wptr unit grp 0 u1)))"

definition stream_word :: "'d fp_env \<Rightarrow> nat \<Rightarrow> nat \<times> 'd unpacker \<Rightarrow> w32 \<Rightarrow> (nat \<times> 'd unpacker) res" where
  "stream_word e unit = (\<lambda>(grp, u) w.
     let tag = w AND 0xF0000000 in
     if tag = 0xF0000000 then NewGroup e unit (u\<lparr>wgrp := (wgrp u)(unit := unat (w AND 7))\<rparr>)
     else if tag = 0x80000000 then
       bind_res (if 1 < wptr u unit grp then unpack_buffer e unit grp u else Inr u) (\<lambda>u1.
       bind_res (store_word unit grp w ((set_wacc unit grp True u1)\<lparr>countSkipped := (countSkipped u1)(unit := 0)\<rparr>)) (\<lambda>u2.
       Inr (grp, u2)))
     else if tag = 0xE0000000 then
       bind_res (store_word unit grp w u) (\<lambda>u1.
       bind_res (unpack_buffer e unit grp u1) (\<lambda>u2.
       Inr (grp, set_wacc unit grp False u2)))
     else if wacc u unit grp then bind_res (store_word unit grp w u) (\<lambda>u1. Inr (grp, u1))
     else if w \<noteq> 0xDEADBEEF \<and> w \<noteq> 0xDEADDEAD then Inr (grp, u\<lparr>countSkipped := (countSkipped u)(unit := countSkipped u unit + 1)\<rparr>)
     else Inr (grp, u))"

definition UnpackStream :: "'d fp_env \<Rightarrow> nat \<Rightarrow> w32 list \<Rightarrow> 'd unpacker \<Rightarrow> 'd unpacker res" where
  "UnpackStream e unit ws u =
     (if VF48_MAX_MODULES \<le> unit then Inl Assert_failed
      else
        bind_res (NewGroup e unit u) (\<lambda>s.
        bind_res (run_steps (stream_word e unit) s ws) (\<lambda>(grp, u1). Inr u1)))"

section \<open>An example\<close>

text \<open>A module with two groups of four samples, which sends both groups interleaved.\<close>

definition demo_fp :: "int fp_env" where
  "demo_fp = \<lparr>zero_time = 0, seconds = (\<lambda>n f. uint n div f), closer = (\<lambda>a b c. \<bar>a - b\<bar> < c), coinc_ticks = (\<lambda>c f. c * f),
     apart = (\<lambda>a b. \<bar>a - b\<bar> > 10000), malloc_ok = True, raw_time = (\<lambda>_. 0),
     raw_charge = (\<lambda>_. 0), raw_sample = (\<lambda>_ _. 0), raw_word = (\<lambda>_. 0)\<rparr>"

definition demo_unpacker :: "int unpacker" where
  "demo_unpacker = (new_unpacker 60 100)\<lparr>fNumModules := 1, fModulesMask := 1, fGroupEnabled := (\<lambda>_. 3), fNumSamples := (\<lambda>_. 4)\<rparr>"

definition demo_words :: "w32 list" where
  "demo_words =
    [0xF0000000, 0x80000005, 0xA0001000, 0xA0000001, 0xF0000001, 0x80000005, 0xA0001000, 0xA0000001, 0xC0000012,
     0xF0000000, 0xC0000002, 0x00020001, 0x00040003, 0x50000007, 0xE0000005,
     0xF0000001, 0x00060005, 0x00080007, 0x50000009, 0xE0000005]"

lemma demo_unpacker_sel [simp]:
  "fBuffer demo_unpacker = []" "fEventNo demo_unpacker = 0" "fBadDataCount demo_unpacker = 0" "fNumSamples demo_unpacker i = 4"
  "fGroupEnabled demo_unpacker i = 3" "last_ts demo_unpacker i g = 0" "wgrp demo_unpacker i = 0" "wbuf demo_unpacker i g = None"
  by (simp_all add: demo_unpacker_def new_unpacker_def)

lemma demo_fp_sel [simp]: "malloc_ok demo_fp" "\<not> apart demo_fp t t"
  by (simp_all add: demo_fp_def)

end
