(* ===== verification/Vf48_Stream.thy ===== *)
theory Vf48_Stream
  imports Vf48
begin

text \<open>
  Separating the groups: the words of every group are cut into frames independently of the other
  groups, and decoding a frame does not depend on what is buffered.
\<close>

section \<open>Decoding leaves the stream buffers alone\<close>

definition with_stream :: "'d unpacker \<Rightarrow> 'd unpacker \<Rightarrow> 'd unpacker" where
  "with_stream s u = u\<lparr>wgrp := wgrp s, wmax := wmax s, wptr := wptr s, wbuf := wbuf s, wacc := wacc s, countSkipped := countSkipped s\<rparr>"

lemma with_stream_sel [simp]:
  "fNumModules (with_stream s u) = fNumModules u" "fModulesMask (with_stream s u) = fModulesMask u"
  "fGroupEnabled (with_stream s u) = fGroupEnabled u" "fChanEnabled (with_stream s u) = fChanEnabled u"
  "fNumSamples (with_stream s u) = fNumSamples u" "fFreq (with_stream s u) = fFreq u" "fCoinc (with_stream s u) = fCoinc u"
  "fTimestampResyncEnable (with_stream s u) = fTimestampResyncEnable u" "fEventNo (with_stream s u) = fEventNo u"
  "fBadDataCount (with_stream s u) = fBadDataCount u" "fBuffer (with_stream s u) = fBuffer u"
  "timestampBases (with_stream s u) = timestampBases u" "last_ts (with_stream s u) = last_ts u"
  "wgrp (with_stream s u) = wgrp s" "wmax (with_stream s u) = wmax s" "wptr (with_stream s u) = wptr s"
  "wbuf (with_stream s u) = wbuf s" "wacc (with_stream s u) = wacc s" "countSkipped (with_stream s u) = countSkipped s"
  by (simp_all add: with_stream_def)

lemma with_stream_upd [simp]:
  "(with_stream s u)\<lparr>fEventNo := n\<rparr> = with_stream s (u\<lparr>fEventNo := n\<rparr>)"
  "(with_stream s u)\<lparr>fBadDataCount := n\<rparr> = with_stream s (u\<lparr>fBadDataCount := n\<rparr>)"
  "(with_stream s u)\<lparr>fBuffer := b\<rparr> = with_stream s (u\<lparr>fBuffer := b\<rparr>)"
  "(with_stream s u)\<lparr>timestampBases := t\<rparr> = with_stream s (u\<lparr>timestampBases := t\<rparr>)"
  "(with_stream s u)\<lparr>last_ts := l\<rparr> = with_stream s (u\<lparr>last_ts := l\<rparr>)"
  by (simp_all add: with_stream_def)

lemma with_stream_same [simp]: "with_stream u u = u" "with_stream s (with_stream t u) = with_stream s u"
  "with_stream (with_stream s t) u = with_stream s u"
  by (simp_all add: with_stream_def)

abbreviation restream :: "'d unpacker \<Rightarrow> 'd decoder \<Rightarrow> 'd decoder" where
  "restream s d \<equiv> d\<lparr>unp := with_stream s (unp d)\<rparr>"

lemma get_module_restream [simp]: "get_module unit (restream s d) = get_module unit d"
  by (simp add: get_module_def split: option.split)

lemma update_event_restream [simp]: "update_event i f (with_stream s u) = with_stream s (update_event i f u)"
  by (simp add: update_event_def)

lemma put_module_restream [simp]:
  "put_module unit m (d\<lparr>unp := with_stream s u\<rparr>) = restream s (put_module unit m (d\<lparr>unp := u\<rparr>))"
  by (simp add: put_module_def split: option.split)

lemma FindModule_restream [simp]:
  "FindModule e unit t (with_stream s u) = map_prod id (with_stream s) (FindModule e unit t u)"
  by (simp add: FindModule_def FindEvent_def split: option.split)

lemma CompleteModule_restream [simp]: "CompleteModule e (with_stream s u) m = CompleteModule e u m"
proof -
  have "check_channel (with_stream s u) = check_channel u" by (simp add: check_channel_def fun_eq_iff Let_def cong: if_cong)
  moreover have "check_group e (with_stream s u) = check_group e u" by (simp add: check_group_def fun_eq_iff cong: if_cong)
  ultimately show ?thesis by (simp add: CompleteModule_def)
qed

lemma put_module_sel [simp]:
  "cur (put_module unit m d) = cur d" "chan (put_module unit m d) = chan d" "headerTrigNo (put_module unit m d) = headerTrigNo d"
  "timestampCount (put_module unit m d) = timestampCount d" "timestampFlag (put_module unit m d) = timestampFlag d"
  "fGroupEnabled (unp (put_module unit m d)) = fGroupEnabled (unp d)" "fBadDataCount (unp (put_module unit m d)) = fBadDataCount (unp d)"
  by (simp_all add: put_module_def update_event_def split: option.split)

lemma stamp_value_restream:
  "stamp_value unit (restream s d) = map_prod (restream s) id (stamp_value unit d)"
  by (simp add: stamp_value_def Let_def)

lemma fresh_stamp_restream:
  "fresh_stamp e unit g (restream s d, t) = map_prod (restream s) id (fresh_stamp e unit g (d, t))"
  by (simp add: fresh_stamp_def Let_def)

lemma enter_module_restream: "enter_module e unit t (restream s d) = restream s (enter_module e unit t d)"
proof (cases "cur d")
  case None
  obtain i u where f: "FindModule e unit t (unp d) = (i, u)" by force
  have "get_module unit (d\<lparr>cur := Some i, unp := with_stream s u\<rparr>) = get_module unit (d\<lparr>cur := Some i, unp := u\<rparr>)"
    using get_module_restream [of unit s "d\<lparr>cur := Some i, unp := u\<rparr>"] by simp
  with None f show ?thesis
    by (simp add: enter_module_def Let_def split: option.split)
qed (simp add: enter_module_def)

lemma stamp_restream: "stamp e unit g (restream s d) = restream s (stamp e unit g d)"
proof -
  obtain d1 t where 1: "stamp_value unit d = (d1, t)" by force
  obtain d2 t2 where 2: "fresh_stamp e unit g (d1, t) = (d2, t2)" by force
  define secs where "secs = seconds e (t2 - timestampBases (unp d2) unit) (fFreq (unp d2) unit)"
  obtain d3 where 3: "enter_module e unit secs d2 = d3" by simp
  from 1 2 3 show ?thesis
    by (cases "get_module unit d3")
      (simp_all add: stamp_def stamp_value_restream fresh_stamp_restream enter_module_restream secs_def [symmetric])
qed

lemma with_channel_restream:
  assumes "\<And>m c d. f m c (restream s d) = map_sum id (restream s) (f m c d)"
  shows "with_channel unit f (restream s d) = map_sum id (restream s) (with_channel unit f d)"
proof -
  have "bad_chan (restream s d) = bad_chan d" by (simp add: bad_chan_def)
  then show ?thesis by (simp add: with_channel_def assms split: option.split)
qed

lemma map_sum_bind: "map_sum id f (bind_res r g) = bind_res r (\<lambda>x. map_sum id f (g x))"
  by (cases r) simp_all

lemma bad_word_restream: "bad_word (restream s d) = restream s (bad_word d)"
  by simp

lemma channel_word_restream:
  "channel_word e unit g w (restream s d) = map_sum id (restream s) (channel_word e unit g w d)"
proof -
  define c where "c = header_channel g w"
  define d1 where "d1 = d\<lparr>chan := int c\<rparr>"
  define d2 where "d2 = (if timestampCount d1 \<noteq> 0 then stamp e unit (header_group g w) d1 else d1)"
  have 1: "(restream s d)\<lparr>chan := int c\<rparr> = restream s d1" by (simp add: d1_def)
  have 2: "(if timestampCount (restream s d1) \<noteq> 0 then stamp e unit (header_group g w) (restream s d1) else restream s d1) = restream s d2"
    by (simp add: d2_def stamp_restream)
  show ?thesis
    unfolding channel_word_def Let_def c_def [symmetric] 1 d1_def [symmetric] 2 d2_def [symmetric]
    by (simp split: option.split)
qed

lemma decode_word_restream:
  "decode_word e unit g (restream s d) w = map_sum id (restream s) (decode_word e unit g d w)"
proof -
  have bad: "bad_chan (restream s d) = bad_chan d" by (simp add: bad_chan_def)
  have "header_word w (restream s d) = restream s (header_word w d)" by (simp add: header_word_def)
  moreover have "timestamp_word w (restream s d) = restream s (timestamp_word w d)" by (simp add: timestamp_word_def Let_def)
  moreover have "unexpected_word unit w (restream s d) = map_sum id (restream s) (unexpected_word unit w d)"
    by (simp add: unexpected_word_def bad split: option.split)
  moreover have "sample_word unit w (restream s d) = map_sum id (restream s) (sample_word unit w d)"
    unfolding sample_word_def by (rule with_channel_restream) (simp add: Let_def map_sum_bind)
  moreover have "time_word unit w (restream s d) = map_sum id (restream s) (time_word unit w d)"
    unfolding time_word_def by (rule with_channel_restream) simp
  moreover have "charge_word unit w (restream s d) = map_sum id (restream s) (charge_word unit w d)"
    unfolding charge_word_def by (rule with_channel_restream) (simp add: Let_def)
  moreover have "trailer_word e unit w (restream s d) = map_sum id (restream s) (trailer_word e unit w d)"
    unfolding trailer_word_def by (rule with_channel_restream) (simp add: Let_def split: prod.split)
  ultimately show ?thesis by (simp add: decode_word_def channel_word_restream Let_def)
qed

lemma decode_restream:
  "run_steps (decode_word e unit g) (restream s d) ws = map_sum id (restream s) (run_steps (decode_word e unit g) d ws)"
proof (induction ws arbitrary: d)
  case (Cons w ws)
  then show ?case by (cases "decode_word e unit g d w") (simp_all add: decode_word_restream)
qed simp

lemma UnpackEvent_restream:
  "UnpackEvent e unit g ws (with_stream s u) = map_sum id (with_stream s) (UnpackEvent e unit g ws u)"
proof -
  have "new_decoder (with_stream s u) = restream s (new_decoder u)" by (simp add: new_decoder_def)
  then show ?thesis by (cases "run_steps (decode_word e unit g) (new_decoder u) ws") (simp_all add: UnpackEvent_def decode_restream)
qed

lemma UnpackEvent_stream:
  assumes "UnpackEvent e unit g ws u = Inr u'"
  shows "u' = with_stream u u'"
  using UnpackEvent_restream [of e unit g ws u u] assms by simp

section \<open>The frames of a group\<close>

text \<open>What one group sends is cut at its headers and trailers.  The state of a group says whether a
  header was seen, and holds the words since.\<close>

fun frame_word :: "bool \<times> w32 list \<Rightarrow> w32 \<Rightarrow> (bool \<times> w32 list) \<times> w32 list list" where
  "frame_word (acc, buf) w =
     (let tag = w AND 0xF0000000 in
      if tag = 0x80000000 then
        (if 1 < length buf then ((True, [w]), [buf]) else ((True, buf @ [w]), []))
      else if tag = 0xE0000000 then ((False, []), [buf @ [w]])
      else ((acc, if acc then buf @ [w] else buf), []))"

fun frames :: "bool \<times> w32 list \<Rightarrow> w32 list \<Rightarrow> (bool \<times> w32 list) \<times> w32 list list" where
  "frames st [] = (st, [])"
| "frames st (w # ws) =
     (let (st1, fs) = frame_word st w; (st2, gs) = frames st1 ws in (st2, fs @ gs))"

text \<open>The group of every word: it is switched by markers.\<close>

definition is_marker :: "w32 \<Rightarrow> bool" where
  "is_marker w \<longleftrightarrow> w AND 0xF0000000 = 0xF0000000"

fun routed :: "nat \<Rightarrow> w32 list \<Rightarrow> (nat \<times> w32) list" where
  "routed g [] = []"
| "routed g (w # ws) = (if is_marker w then routed (unat (w AND 7)) ws else (g, w) # routed g ws)"

text \<open>All groups at once: the frames in the order in which they end.\<close>

fun demux :: "(nat \<Rightarrow> bool \<times> w32 list) \<Rightarrow> (nat \<times> w32) list \<Rightarrow> (nat \<Rightarrow> bool \<times> w32 list) \<times> (nat \<times> w32 list) list" where
  "demux p [] = (p, [])"
| "demux p ((g, w) # r) =
     (let (st, fs) = frame_word (p g) w; (p2, cs) = demux (p(g := st)) r in (p2, map (Pair g) fs @ cs))"

definition of_group :: "nat \<Rightarrow> (nat \<times> 'a) list \<Rightarrow> 'a list" where
  "of_group g xs = map snd (filter (\<lambda>x. fst x = g) xs)"

lemma of_group_simps [simp]:
  "of_group g [] = []" "of_group g ((h, x) # xs) = (if h = g then x # of_group g xs else of_group g xs)"
  "of_group g (xs @ ys) = of_group g xs @ of_group g ys" "of_group g (map (Pair h) fs) = (if h = g then fs else [])"
  by (simp_all add: of_group_def comp_def)

lemma demux_group:
  assumes "demux p r = (p2, cs)"
  shows "frames (p g) (of_group g r) = (p2 g, of_group g cs)"
  using assms
proof (induction r arbitrary: p cs)
  case Nil
  then show ?case by simp
next
  case (Cons x r)
  obtain h w where x: "x = (h, w)" by force
  obtain st fs where 1: "frame_word (p h) w = (st, fs)" by (metis surj_pair)
  obtain p3 cs1 where 2: "demux (p(h := st)) r = (p3, cs1)" by (metis surj_pair)
  from Cons.prems x 1 2 have p3: "p3 = p2" and cs: "cs = map (Pair h) fs @ cs1" by simp_all
  from Cons.IH [OF 2 [unfolded p3]] x 1 cs show ?case by auto
qed

lemma frame_length: "frame_word st w = (st1, fs) \<Longrightarrow> \<exists>f \<in> set (snd st1 # fs). length (snd st) \<le> length f"
  by (cases st) (auto simp: Let_def split: if_splits)

lemma demux_length:
  assumes "demux p r = (p2, cs)"
  shows "\<exists>f \<in> set (snd (p2 g) # map snd cs). length (snd (p g)) \<le> length f"
  using assms
proof (induction r arbitrary: p cs)
  case Nil
  then show ?case by simp
next
  case (Cons x r)
  obtain h w where x: "x = (h, w)" by force
  obtain st fs where 1: "frame_word (p h) w = (st, fs)" by (metis surj_pair)
  obtain p3 cs1 where 2: "demux (p(h := st)) r = (p3, cs1)" by (metis surj_pair)
  from Cons.prems x 1 2 have p3: "p3 = p2" and cs: "cs = map (Pair h) fs @ cs1" by simp_all
  from Cons.IH [OF 2 [unfolded p3]] have ih: "\<exists>f \<in> set (snd (p2 g) # map snd cs1). length (snd ((p(h := st)) g)) \<le> length f" .
  show ?case
  proof (cases "h = g")
    case True
    with frame_length [OF 1] ih cs show ?thesis by (auto simp: image_Un intro: order_trans)
  next
    case False
    with ih cs show ?thesis by auto
  qed
qed

section \<open>The stream is separated into these frames\<close>

definition BUF_WORDS :: nat where
  "BUF_WORDS = (VF48_MAX_SAMPLES * 2 * VF48_MAX_CHANNELS + 1024) div 4"

definition pend :: "nat \<Rightarrow> 'd unpacker \<Rightarrow> nat \<Rightarrow> bool \<times> w32 list" where
  "pend unit u g = (case wbuf u unit g of None \<Rightarrow> (False, []) | Some b \<Rightarrow> (wacc u unit g, take (wptr u unit g) b))"

definition stream_ok :: "nat \<Rightarrow> 'd unpacker \<Rightarrow> bool" where
  "stream_ok unit u \<longleftrightarrow> (\<forall>g b. wbuf u unit g = Some b \<longrightarrow> length b = BUF_WORDS \<and> wptr u unit g \<le> BUF_WORDS)"

text \<open>Unpackers that differ in their stream buffers only.\<close>

definition same_events :: "'d unpacker \<Rightarrow> 'd unpacker \<Rightarrow> bool" where
  "same_events u v \<longleftrightarrow> with_stream u v = u"

lemma same_events_refl [simp]: "same_events u u"
  by (simp add: same_events_def)

lemma same_events_trans: "same_events u v \<Longrightarrow> same_events v w \<Longrightarrow> same_events u w"
  by (metis same_events_def with_stream_same(2))

lemma same_events_sym: "same_events u v \<Longrightarrow> same_events v u"
  by (metis same_events_def with_stream_same)

definition call :: "'d fp_env \<Rightarrow> nat \<Rightarrow> 'd unpacker \<Rightarrow> nat \<times> w32 list \<Rightarrow> 'd unpacker res" where
  "call e unit u = (\<lambda>(g, ws). UnpackEvent e unit g ws u)"

lemma call_restream: "call e unit (with_stream s u) c = map_sum id (with_stream s) (call e unit u c)"
  by (cases c) (simp add: call_def UnpackEvent_restream)

lemma calls_restream: "run_steps (call e unit) (with_stream s u) cs = map_sum id (with_stream s) (run_steps (call e unit) u cs)"
proof (induction cs arbitrary: u)
  case (Cons c cs)
  then show ?case by (cases "call e unit u c") (simp_all add: call_restream)
qed simp

text \<open>A buffer in a state where the current group is \<open>grp\<close>.\<close>

definition at_group :: "nat \<Rightarrow> nat \<Rightarrow> 'd unpacker \<Rightarrow> bool" where
  "at_group unit grp u \<longleftrightarrow> stream_ok unit u \<and> wgrp u unit = grp \<and> grp < VF48_MAX_GROUPS \<and> wbuf u unit grp \<noteq> None"

lemma at_groupE:
  assumes "at_group unit grp u"
  obtains b where "wbuf u unit grp = Some b" "length b = BUF_WORDS" "wptr u unit grp \<le> BUF_WORDS"
    "pend unit u grp = (wacc u unit grp, take (wptr u unit grp) b)"
  using assms by (auto simp: at_group_def stream_ok_def pend_def)

definition moved :: "nat \<Rightarrow> nat \<Rightarrow> bool \<times> w32 list \<Rightarrow> 'd unpacker \<Rightarrow> 'd unpacker \<Rightarrow> bool" where
  "moved unit grp st u v \<longleftrightarrow> same_events u v \<and> at_group unit grp v \<and> pend unit v = (pend unit u)(grp := st)"

lemma moved_trans:
  "moved unit grp st u v \<Longrightarrow> moved unit grp st' v w \<Longrightarrow> moved unit grp st' u w"
  by (auto simp: moved_def intro: same_events_trans)

lemma store_word_moved:
  assumes "at_group unit grp u" and "pend unit u grp = (acc, buf)" and "length buf < BUF_WORDS"
  shows "\<exists>v. store_word unit grp w u = Inr v \<and> moved unit grp (acc, buf @ [w]) u v"
proof -
  from assms(1) obtain b where b: "wbuf u unit grp = Some b" "length b = BUF_WORDS" "wptr u unit grp \<le> BUF_WORDS"
      "pend unit u grp = (wacc u unit grp, take (wptr u unit grp) b)" by (rule at_groupE)
  with assms have n: "wptr u unit grp < BUF_WORDS" "buf = take (wptr u unit grp) b" "acc = wacc u unit grp" by auto
  define v where "v = set_wptr unit grp (wptr u unit grp + 1)
    (u\<lparr>wbuf := (wbuf u)(unit := (wbuf u unit)(grp := Some (b[wptr u unit grp := w])))\<rparr>)"
  have "store_word unit grp w u = Inr v" using b n by (simp add: store_word_def v_def Let_def)
  moreover have "same_events u v" by (simp add: v_def same_events_def with_stream_def set_wptr_def)
  moreover have "pend unit v = (pend unit u)(grp := (acc, buf @ [w]))"
    using b n by (auto simp: fun_eq_iff pend_def v_def set_wptr_def take_list_update_Suc split: option.split)
  moreover have "at_group unit grp v"
    using assms(1) b n by (auto simp: at_group_def stream_ok_def v_def set_wptr_def)
  ultimately show ?thesis by (auto simp: moved_def)
qed

lemma set_wacc_moved:
  assumes "at_group unit grp u" and "pend unit u grp = (acc, buf)"
  shows "moved unit grp (a, buf) u (set_wacc unit grp a u)"
proof -
  have "pend unit (set_wacc unit grp a u) = (pend unit u)(grp := (a, buf))"
    using assms by (auto simp: fun_eq_iff pend_def set_wacc_def at_group_def split: option.split option.split_asm)
  then show ?thesis
    using assms(1) by (simp add: moved_def at_group_def stream_ok_def set_wacc_def same_events_def with_stream_def)
qed

lemma set_skipped_moved:
  assumes "at_group unit grp u"
  shows "moved unit grp (pend unit u grp) u (u\<lparr>countSkipped := k\<rparr>)"
  using assms by (simp add: moved_def at_group_def stream_ok_def same_events_def with_stream_def) (simp add: pend_def fun_eq_iff split: option.split)

lemma unpack_buffer_moved:
  assumes "at_group unit grp u" and "pend unit u grp = (acc, buf)"
  shows "(\<forall>f. UnpackEvent e unit grp buf u = Inl f \<longrightarrow> unpack_buffer e unit grp u = Inl f) \<and>
    (\<forall>v. UnpackEvent e unit grp buf u = Inr v \<longrightarrow>
      (\<exists>v'. unpack_buffer e unit grp u = Inr v' \<and> same_events v v' \<and> at_group unit grp v' \<and> pend unit v' = (pend unit u)(grp := (acc, []))))"
proof -
  from assms(1) obtain b where b: "wbuf u unit grp = Some b" "length b = BUF_WORDS" "wptr u unit grp \<le> BUF_WORDS"
      "pend unit u grp = (wacc u unit grp, take (wptr u unit grp) b)" by (rule at_groupE)
  with assms(2) have buf: "buf = take (wptr u unit grp) b" "acc = wacc u unit grp" by auto
  have "\<exists>v'. unpack_buffer e unit grp u = Inr v' \<and> same_events v v' \<and> at_group unit grp v' \<and> pend unit v' = (pend unit u)(grp := (acc, []))"
    if v: "UnpackEvent e unit grp buf u = Inr v" for v
  proof -
    have "v = with_stream u v" by (rule UnpackEvent_stream [OF v])
    then have s: "wgrp v = wgrp u" "wbuf v = wbuf u" "wptr v = wptr u" "wacc v = wacc u"
      by (metis with_stream_sel(14), metis with_stream_sel(17), metis with_stream_sel(16), metis with_stream_sel(18))
    define v' where "v' = set_wptr unit grp 0 v"
    have "unpack_buffer e unit grp u = Inr v'" using b buf v by (simp add: unpack_buffer_def v'_def)
    moreover have "same_events v v'" by (simp add: v'_def same_events_def with_stream_def set_wptr_def)
    moreover have "pend unit v' = (pend unit u)(grp := (acc, []))"
      using b buf s by (auto simp: fun_eq_iff pend_def v'_def set_wptr_def split: option.split)
    moreover have "at_group unit grp v'"
      using assms(1) s by (auto simp: at_group_def stream_ok_def v'_def set_wptr_def)
    ultimately show ?thesis by blast
  qed
  then show ?thesis using b buf by (simp add: unpack_buffer_def)
qed

text \<open>\<open>follows\<close>: the stream has come as far as the calls of the decoder, whose result is \<open>r\<close>.\<close>

definition follows :: "nat \<Rightarrow> (nat \<Rightarrow> bool \<times> w32 list) \<Rightarrow> 'd unpacker res \<Rightarrow> (nat \<times> 'd unpacker) res \<Rightarrow> bool" where
  "follows unit p r q \<longleftrightarrow>
     (case r of
        Inl f \<Rightarrow> q = Inl f
      | Inr u \<Rightarrow> \<exists>g v. q = Inr (g, v) \<and> same_events u v \<and> at_group unit g v \<and> pend unit v = p)"

lemma follows_unpack:
  assumes "at_group unit grp u" and "pend unit u grp = (acc, buf)" and "same_events u0 u"
    and "\<And>v. \<lbrakk>at_group unit grp v; pend unit v = (pend unit u)(grp := (acc, []))\<rbrakk> \<Longrightarrow>
      \<exists>v'. k v = Inr (grp, v') \<and> moved unit grp st v v'"
  shows "follows unit ((pend unit u)(grp := st)) (UnpackEvent e unit grp buf u0) (bind_res (unpack_buffer e unit grp u) k)"
proof -
  have eq: "UnpackEvent e unit grp buf u = map_sum id (with_stream u) (UnpackEvent e unit grp buf u0)"
    using same_events_sym [OF assms(3)] UnpackEvent_restream [of e unit grp buf u u0] by (simp add: same_events_def)
  show ?thesis
  proof (cases "UnpackEvent e unit grp buf u0")
    case (Inl f)
    with eq unpack_buffer_moved [OF assms(1,2), of e] show ?thesis by (simp add: follows_def)
  next
    case (Inr v0)
    with eq obtain v where v: "unpack_buffer e unit grp u = Inr v" "same_events (with_stream u v0) v"
        "at_group unit grp v" "pend unit v = (pend unit u)(grp := (acc, []))"
      using unpack_buffer_moved [OF assms(1,2), of e] by auto
    from assms(4) [OF v(3,4)] obtain v' where v': "k v = Inr (grp, v')" "moved unit grp st v v'" by blast
    have "same_events v0 (with_stream u v0)" by (simp add: same_events_def)
    with v(2) v'(2) have "same_events v0 v'" by (auto simp: moved_def intro: same_events_trans)
    with Inr v v' show ?thesis by (simp add: follows_def moved_def)
  qed
qed

lemma bind_res_Inr_right [simp]: "bind_res r Inr = r"
  by (cases r) simp_all

lemma stream_word_follows:
  fixes u :: "'d unpacker"
  assumes u: "at_group unit grp u" and w: "\<not> is_marker w" and fw: "frame_word (pend unit u grp) w = (st, fs)"
    and len: "length (snd st) \<le> BUF_WORDS" "\<forall>f \<in> set fs. length f \<le> BUF_WORDS"
  shows "follows unit ((pend unit u)(grp := st)) (run_steps (call e unit) u (map (Pair grp) fs)) (stream_word e unit (grp, u) w)"
proof -
  obtain acc buf where p: "pend unit u grp = (acc, buf)" by force
  from u obtain b where b: "wbuf u unit grp = Some b" "length b = BUF_WORDS" "wptr u unit grp \<le> BUF_WORDS"
      "pend unit u grp = (wacc u unit grp, take (wptr u unit grp) b)" by (rule at_groupE)
  with p have ptr: "wptr u unit grp = length buf" "acc = wacc u unit grp" by auto
  have store_header: "\<exists>v'. bind_res (store_word unit grp w ((set_wacc unit grp True v)\<lparr>countSkipped := (countSkipped v)(unit := 0)\<rparr>))
        (\<lambda>u2. Inr (grp, u2)) = Inr (grp, v') \<and> moved unit grp (True, buf' @ [w]) v v'"
    if v: "at_group unit grp v" "pend unit v grp = (acc', buf')" "length buf' < BUF_WORDS" for v :: "'d unpacker" and acc' buf'
  proof -
    have m1: "moved unit grp (True, buf') v (set_wacc unit grp True v)" (is "moved _ _ _ _ ?v1") by (rule set_wacc_moved) fact+
    then have "moved unit grp (True, buf') ?v1 (?v1\<lparr>countSkipped := (countSkipped v)(unit := 0)\<rparr>)" (is "moved _ _ _ _ ?v2")
      using set_skipped_moved [of unit grp ?v1] by (simp add: moved_def)
    with m1 have m2: "moved unit grp (True, buf') v ?v2" by (rule moved_trans)
    then obtain v' where "store_word unit grp w ?v2 = Inr v'" "moved unit grp (True, buf' @ [w]) ?v2 v'"
      using store_word_moved [of unit grp ?v2 True buf' w] v(3) by (auto simp: moved_def)
    with moved_trans [OF m2] show ?thesis by auto
  qed
  consider (header) "w AND 0xF0000000 = 0x80000000" | (trailer) "w AND 0xF0000000 = 0xE0000000"
    | (other) "w AND 0xF0000000 \<noteq> 0x80000000" "w AND 0xF0000000 \<noteq> 0xE0000000" by blast
  then show ?thesis
  proof cases
    case header
    show ?thesis
    proof (cases "1 < length buf")
      case True
      with fw p header have st: "st = (True, [w])" and fs: "fs = [buf]" by simp_all
      have "follows unit ((pend unit u)(grp := st)) (UnpackEvent e unit grp buf u)
        (bind_res (unpack_buffer e unit grp u) (\<lambda>u1.
         bind_res (store_word unit grp w ((set_wacc unit grp True u1)\<lparr>countSkipped := (countSkipped u1)(unit := 0)\<rparr>)) (\<lambda>u2. Inr (grp, u2))))"
        using store_header [where buf' = "[]"] by (intro follows_unpack [OF u p]) (simp_all add: st BUF_WORDS_def VF48_MAX_SAMPLES_def)
      then show ?thesis using True header ptr fs by (simp add: stream_word_def call_def bind_res_assoc)
    next
      case False
      with fw p header have st: "st = (True, buf @ [w])" and fs: "fs = []" by simp_all
      with store_header [OF u p] len(1) obtain v' where
        "bind_res (store_word unit grp w ((set_wacc unit grp True u)\<lparr>countSkipped := (countSkipped u)(unit := 0)\<rparr>))
          (\<lambda>u2. Inr (grp, u2)) = Inr (grp, v')" "moved unit grp st u v'" by auto
      with False header ptr fs show ?thesis by (simp add: stream_word_def follows_def moved_def)
    qed
  next
    case trailer
    with fw p have st: "st = (False, [])" and fs: "fs = [buf @ [w]]" by simp_all
    with len(2) store_word_moved [OF u p, of w] obtain v where v: "store_word unit grp w u = Inr v" "moved unit grp (acc, buf @ [w]) u v"
      by auto
    have "follows unit ((pend unit v)(grp := st)) (UnpackEvent e unit grp (buf @ [w]) u)
      (bind_res (unpack_buffer e unit grp v) (\<lambda>u2. Inr (grp, set_wacc unit grp False u2)))"
    proof (rule follows_unpack)
      show "at_group unit grp v" "pend unit v grp = (acc, buf @ [w])" "same_events u v" using v(2) by (simp_all add: moved_def)
    qed (use st in \<open>auto intro: set_wacc_moved\<close>)
    with v trailer fs show ?thesis by (simp add: stream_word_def call_def moved_def)
  next
    case other
    with fw p have st: "st = (acc, if acc then buf @ [w] else buf)" and fs: "fs = []" by simp_all
    have no_marker: "w AND 0xF0000000 \<noteq> 0xF0000000" using w by (simp add: is_marker_def)
    show ?thesis
    proof (cases acc)
      case True
      with st len(1) store_word_moved [OF u p, of w] obtain v where "store_word unit grp w u = Inr v" "moved unit grp st u v" by auto
      with True ptr other no_marker fs show ?thesis by (simp add: stream_word_def follows_def moved_def)
    next
      case False
      have id: "(pend unit u)(grp := st) = pend unit u" using st p False by auto
      show ?thesis
      proof (cases "w \<noteq> 0xDEADBEEF \<and> w \<noteq> 0xDEADDEAD")
        case True
        with False ptr other no_marker fs id u
          set_skipped_moved [OF u, of "(countSkipped u)(unit := countSkipped u unit + 1)"] show ?thesis
          by (simp add: stream_word_def follows_def moved_def)
      next
        case skip: False
        from skip False ptr other no_marker have "stream_word e unit (grp, u) w = Inr (grp, u)" by (auto simp: stream_word_def)
        with fs id u show ?thesis by (simp add: follows_def)
      qed
    qed
  qed
qed

lemma NewGroup_at:
  assumes "stream_ok unit u" and "malloc_ok e" and "wgrp u unit < VF48_MAX_GROUPS"
  shows "\<exists>v. NewGroup e unit u = Inr (wgrp u unit, v) \<and> same_events u v \<and> at_group unit (wgrp u unit) v \<and> pend unit v = pend unit u"
proof (cases "wbuf u unit (wgrp u unit)")
  case None
  define v where "v = snd (projr (NewGroup e unit u))"
  from None assms have "NewGroup e unit u = Inr (wgrp u unit, v)" by (simp add: NewGroup_def v_def Let_def)
  moreover have "same_events u v" using None assms by (simp add: v_def NewGroup_def same_events_def with_stream_def Let_def)
  moreover have "at_group unit (wgrp u unit) v"
    using None assms by (auto simp: v_def NewGroup_def at_group_def stream_ok_def BUF_WORDS_def Let_def)
  moreover have "pend unit v = pend unit u"
    using None assms by (auto simp: v_def NewGroup_def pend_def fun_eq_iff Let_def split: option.split)
  ultimately show ?thesis by blast
next
  case (Some b)
  with assms show ?thesis by (simp add: NewGroup_def at_group_def)
qed

lemma stream_word_marker:
  assumes "at_group unit grp u" and "is_marker w" and "malloc_ok e" and "unat (w AND 7) < VF48_MAX_GROUPS"
  shows "\<exists>v. stream_word e unit (grp, u) w = Inr (unat (w AND 7), v) \<and> same_events u v \<and>
    at_group unit (unat (w AND 7)) v \<and> pend unit v = pend unit u"
proof -
  define u1 where "u1 = u\<lparr>wgrp := (wgrp u)(unit := unat (w AND 7))\<rparr>"
  have "stream_ok unit u1" "wgrp u1 unit = unat (w AND 7)" "pend unit u1 = pend unit u" "same_events u u1"
    using assms(1) by (simp_all add: u1_def at_group_def stream_ok_def same_events_def with_stream_def)
      (simp add: pend_def fun_eq_iff split: option.split)
  with NewGroup_at [of unit u1 e] assms(3,4) obtain v where
    "NewGroup e unit u1 = Inr (unat (w AND 7), v)" "same_events u1 v" "at_group unit (unat (w AND 7)) v" "pend unit v = pend unit u"
    by auto
  with assms(2) \<open>same_events u u1\<close> show ?thesis
    by (auto simp: stream_word_def is_marker_def u1_def intro: same_events_trans)
qed

definition markers_ok :: "w32 list \<Rightarrow> bool" where
  "markers_ok ws \<longleftrightarrow> (\<forall>w \<in> set ws. is_marker w \<longrightarrow> unat (w AND 7) < VF48_MAX_GROUPS)"

lemma stream_follows:
  fixes u :: "'d unpacker"
  assumes "at_group unit grp u" and "same_events u0 u" and "malloc_ok e" and "markers_ok ws"
    and "demux (pend unit u) (routed grp ws) = (p, cs)"
    and "\<forall>c \<in> set cs. length (snd c) \<le> BUF_WORDS" and "\<forall>g. length (snd (p g)) \<le> BUF_WORDS"
  shows "follows unit p (run_steps (call e unit) u0 cs) (run_steps (stream_word e unit) (grp, u) ws)"
  using assms
proof (induction ws arbitrary: grp u u0 cs)
  case Nil
  then show ?case by (auto simp: follows_def)
next
  case (Cons w ws)
  note at = Cons.prems(1)
  have ws: "markers_ok ws" using Cons.prems(4) by (simp add: markers_ok_def)
  show ?case
  proof (cases "is_marker w")
    case True
    with Cons.prems(4) have "unat (w AND 7) < VF48_MAX_GROUPS" by (simp add: markers_ok_def)
    from stream_word_marker [OF at True Cons.prems(3) this] obtain v where
      v: "stream_word e unit (grp, u) w = Inr (unat (w AND 7), v)" "same_events u v" "at_group unit (unat (w AND 7)) v" "pend unit v = pend unit u"
      by blast
    have "follows unit p (run_steps (call e unit) u0 cs) (run_steps (stream_word e unit) (unat (w AND 7), v) ws)"
      using v True Cons.prems by (intro Cons.IH) (auto simp: ws intro: same_events_trans)
    with v show ?thesis by simp
  next
    case False
    obtain st fs where fw: "frame_word (pend unit u grp) w = (st, fs)" by (metis surj_pair)
    obtain p2 cs1 where dm: "demux ((pend unit u)(grp := st)) (routed grp ws) = (p2, cs1)" by (metis surj_pair)
    from False fw dm Cons.prems(5) have p2: "p2 = p" and cs: "cs = map (Pair grp) fs @ cs1" by simp_all
    have len_fs: "\<forall>f \<in> set fs. length f \<le> BUF_WORDS" using Cons.prems(6) by (simp add: cs ball_Un)
    have "length (snd st) \<le> BUF_WORDS"
      using demux_length [OF dm, of grp] Cons.prems(6,7) cs p2 by (auto intro: order_trans)
    from stream_word_follows [OF at False fw this len_fs, of e]
    have fol: "follows unit ((pend unit u)(grp := st)) (run_steps (call e unit) u (map (Pair grp) fs)) (stream_word e unit (grp, u) w)" .
    have eq: "run_steps (call e unit) u0 fs' = map_sum id (with_stream u0) (run_steps (call e unit) u fs')" for fs'
      using Cons.prems(2) calls_restream [of e unit u0 u fs'] by (simp add: same_events_def)
    show ?thesis
    proof (cases "run_steps (call e unit) u (map (Pair grp) fs)")
      case (Inl f)
      with fol cs eq [of "map (Pair grp) fs"] show ?thesis by (simp add: follows_def run_steps_append)
    next
      case (Inr u1)
      with fol obtain g v where v: "stream_word e unit (grp, u) w = Inr (g, v)" "same_events u1 v" "at_group unit g v"
          "pend unit v = (pend unit u)(grp := st)" by (auto simp: follows_def)
      have g: "g = grp" using v(1) False
        by (auto simp: stream_word_def is_marker_def Let_def bind_res_eq_Inr split: if_splits)
      have "same_events (with_stream u0 u1) v" using v(2) by (rule same_events_trans [rotated]) (simp add: same_events_def)
      moreover have "demux (pend unit v) (routed grp ws) = (p, cs1)" using dm p2 v(4) by (simp only:)
      ultimately have "follows unit p (run_steps (call e unit) (with_stream u0 u1) cs1) (run_steps (stream_word e unit) (grp, v) ws)"
        using v(3) g Cons.prems(3,6,7) ws by (intro Cons.IH) (simp_all add: cs ball_Un)
      with v g Inr cs eq [of "map (Pair grp) fs"] show ?thesis by (simp add: run_steps_append)
    qed
  qed
qed

lemma UnpackStream_follows:
  assumes "unit < VF48_MAX_MODULES" and "stream_ok unit u" and "wgrp u unit < VF48_MAX_GROUPS" and "malloc_ok e"
    and "markers_ok ws" and "demux (pend unit u) (routed (wgrp u unit) ws) = (p, cs)"
    and "\<forall>c \<in> set cs. length (snd c) \<le> BUF_WORDS" and "\<forall>g. length (snd (p g)) \<le> BUF_WORDS"
  shows "case run_steps (call e unit) u cs of
      Inl f \<Rightarrow> UnpackStream e unit ws u = Inl f
    | Inr u1 \<Rightarrow> \<exists>v. UnpackStream e unit ws u = Inr v \<and> same_events u1 v \<and> pend unit v = p \<and> stream_ok unit v"
proof -
  from NewGroup_at [OF assms(2,4,3)] obtain v where
    v: "NewGroup e unit u = Inr (wgrp u unit, v)" "same_events u v" "at_group unit (wgrp u unit) v" "pend unit v = pend unit u" by blast
  have "follows unit p (run_steps (call e unit) u cs) (run_steps (stream_word e unit) (wgrp u unit, v) ws)"
    using v assms by (intro stream_follows) auto
  with v(1) assms(1) show ?thesis
    by (auto simp: UnpackStream_def follows_def at_group_def split: sum.splits)
qed

section \<open>The theorem\<close>

text \<open>C8: The interleaved stream of a module is separated exactly: whatever the order of the words, the
  unpacker decodes for every group the frames of that group's own words, each as it ends, and nothing
  else.  This holds if the markers name existing groups and no frame is longer than the buffer.
\<close>

theorem stream_demultiplexed:
  fixes u :: "'d unpacker"
  assumes "unit < VF48_MAX_MODULES" and "stream_ok unit u" and "wgrp u unit < VF48_MAX_GROUPS" and "malloc_ok e"
    and "markers_ok ws" and "demux (pend unit u) (routed (wgrp u unit) ws) = (p, cs)"
    and "\<forall>c \<in> set cs. length (snd c) \<le> BUF_WORDS" and "\<forall>g. length (snd (p g)) \<le> BUF_WORDS"
  shows "(case run_steps (call e unit) u cs of
       Inl f \<Rightarrow> UnpackStream e unit ws u = Inl f
     | Inr u1 \<Rightarrow> \<exists>v. UnpackStream e unit ws u = Inr v \<and> same_events u1 v \<and> pend unit v = p \<and> stream_ok unit v) \<and>
    (\<forall>g. (p g, of_group g cs) = frames (pend unit u g) (of_group g (routed (wgrp u unit) ws)))"
  using UnpackStream_follows [OF assms] demux_group [OF assms(6)] by simp

text \<open>The example has one frame of each group, and both are complete.\<close>

definition demo_frames :: "(nat \<times> w32 list) list" where
  "demo_frames =
    [(0, [0x80000005, 0xA0001000, 0xA0000001, 0xC0000002, 0x00020001, 0x00040003, 0x50000007, 0xE0000005]),
     (1, [0x80000005, 0xA0001000, 0xA0000001, 0xC0000012, 0x00060005, 0x00080007, 0x50000009, 0xE0000005])]"

lemma demo_demux: "demux (pend 0 demo_unpacker) (routed 0 demo_words) = ((pend 0 demo_unpacker)(0 := (False, []), 1 := (False, [])), demo_frames)"
  by (simp add: demo_words_def demo_frames_def is_marker_def pend_def Let_def fun_upd_twist)

lemma demo_markers: "markers_ok demo_words"
  by (simp add: demo_words_def markers_ok_def is_marker_def VF48_MAX_GROUPS_def)

lemma demo_short:
  "\<forall>c \<in> set demo_frames. length (snd c) \<le> BUF_WORDS" "length (snd (((pend 0 demo_unpacker)(0 := (False, []), 1 := (False, []))) g)) \<le> BUF_WORDS"
  by (simp_all add: demo_frames_def BUF_WORDS_def VF48_MAX_SAMPLES_def VF48_MAX_CHANNELS_def pend_def)

lemma stream_demultiplexed_witness:
  "(case run_steps (call demo_fp 0) demo_unpacker demo_frames of
       Inl f \<Rightarrow> UnpackStream demo_fp 0 demo_words demo_unpacker = Inl f
     | Inr u1 \<Rightarrow> \<exists>v. UnpackStream demo_fp 0 demo_words demo_unpacker = Inr v \<and> same_events u1 v)"
  using stream_demultiplexed [OF _ _ _ _ demo_markers, of 0 demo_unpacker demo_fp] demo_demux demo_short
  by (auto simp: VF48_MAX_MODULES_def VF48_MAX_GROUPS_def stream_ok_def split: sum.splits)

end
