(* ===== verification/Vf48_Decode.thy ===== *)
theory Vf48_Decode
  imports Vf48_Stream
begin

text \<open>
  Decoding: a frame makes the decoder fault exactly when its words are in an order that is described
  by an automaton with three flags, and a stream of words makes the unpacker fault exactly when it
  ends such a frame, has a marker of a group that does not exist, or has a frame that is too long.
  Otherwise no array is overrun.
\<close>

section \<open>The invariant of the event buffer\<close>

definition module_ok :: "nat \<Rightarrow> 'd vf48_module \<Rightarrow> bool" where
  "module_ok unit m \<longleftrightarrow> m_unit m = unit \<and> (\<forall>c. length (ch_samples (m_channels m c)) = VF48_MAX_SAMPLES)"

definition event_ok :: "'d vf48_event \<Rightarrow> bool" where
  "event_ok ev \<longleftrightarrow> (\<forall>k m. e_modules ev k = Some m \<longrightarrow> module_ok k m)"

definition buffer_ok :: "'d unpacker \<Rightarrow> bool" where
  "buffer_ok u \<longleftrightarrow> (\<forall>ev \<in> set (fBuffer u). event_ok ev)"

definition dec_ok :: "nat \<Rightarrow> 'd decoder \<Rightarrow> bool" where
  "dec_ok unit d \<longleftrightarrow> buffer_ok (unp d) \<and> 0 \<le> timestampCount d \<and>
     (\<forall>i. cur d = Some i \<longrightarrow> i < length (fBuffer (unp d)) \<and> e_modules (fBuffer (unp d) ! i) unit \<noteq> None)"

lemma module_ok_new [simp]: "module_ok k (new_module e k)"
  by (simp add: module_ok_def new_module_def new_channel_def)

lemma event_ok_new [simp]: "event_ok ((new_event e n)\<lparr>e_timestamp := t\<rparr>)"
  by (simp add: event_ok_def new_event_def)

lemma event_ok_module: "event_ok ev \<Longrightarrow> module_ok k m \<Longrightarrow> event_ok (ev\<lparr>e_modules := (e_modules ev)(k \<mapsto> m)\<rparr>)"
  by (simp add: event_ok_def)

lemma buffer_ok_update: "buffer_ok u \<Longrightarrow> (i < length (fBuffer u) \<Longrightarrow> event_ok (f (fBuffer u ! i))) \<Longrightarrow> buffer_ok (update_event i f u)"
  by (cases "i < length (fBuffer u)") (auto simp: buffer_ok_def update_event_def list_update_beyond dest!: set_update_subset_insert [THEN subsetD])

lemma buffer_ok_upd [simp]:
  "buffer_ok (u\<lparr>fBadDataCount := n\<rparr>) = buffer_ok u" "buffer_ok (u\<lparr>last_ts := l\<rparr>) = buffer_ok u"
  "buffer_ok (u\<lparr>timestampBases := b\<rparr>) = buffer_ok u"
  by (simp_all add: buffer_ok_def)

lemma dec_ok_bad [simp]: "dec_ok unit (d\<lparr>unp := (unp d)\<lparr>fBadDataCount := n\<rparr>\<rparr>) = dec_ok unit d"
  by (simp add: dec_ok_def)

lemma dec_ok_module:
  assumes "dec_ok unit d" and "cur d = Some i"
  obtains m where "get_module unit d = Some m" "module_ok unit m"
  using assms by (fastforce simp: dec_ok_def get_module_def buffer_ok_def event_ok_def)

lemma get_module_cur: "get_module unit d = Some m \<Longrightarrow> cur d \<noteq> None"
  by (auto simp: get_module_def split: option.splits)

lemma dec_ok_get: "dec_ok unit d \<Longrightarrow> get_module unit d = Some m \<Longrightarrow> module_ok unit m"
  by (metis dec_ok_module get_module_cur not_None_eq option.sel)

lemma dec_ok_none: "dec_ok unit d \<Longrightarrow> get_module unit d = None \<longleftrightarrow> cur d = None"
  by (metis dec_ok_module get_module_cur not_None_eq option.simps(3) get_module_def option.simps(4))

lemma dec_ok_put: "dec_ok unit d \<Longrightarrow> module_ok unit m \<Longrightarrow> dec_ok unit (put_module unit m d)"
proof (cases "cur d")
  case (Some i)
  assume a: "dec_ok unit d" "module_ok unit m"
  with Some have i: "i < length (fBuffer (unp d))" by (simp add: dec_ok_def)
  with a have "event_ok (fBuffer (unp d) ! i)" by (simp add: dec_ok_def buffer_ok_def)
  with a have "buffer_ok (update_event i (\<lambda>ev. ev\<lparr>e_modules := (e_modules ev)(unit \<mapsto> m)\<rparr>) (unp d))"
    by (intro buffer_ok_update) (auto simp: dec_ok_def intro: event_ok_module)
  with Some a i show ?thesis by (simp add: dec_ok_def put_module_def update_event_def)
qed (simp add: put_module_def)

lemma position_from_length: "position_from P i xs = Some j \<Longrightarrow> i \<le> j \<and> j < i + length xs \<and> P (xs ! (j - i))"
  by (induction xs arbitrary: i) (fastforce split: if_splits simp: nth_Cons')+

lemma FindEvent_ok:
  assumes "FindEvent e unit t dup u = (i, v)" and "buffer_ok u"
  shows "buffer_ok v \<and> i < length (fBuffer v)"
  using assms by (auto simp: FindEvent_def buffer_ok_def dest: position_from_length split: option.splits)

lemma FindModule_ok:
  assumes "FindModule e unit t u = (i, v)" and "buffer_ok u"
  shows "buffer_ok v \<and> i < length (fBuffer v) \<and> e_modules (fBuffer v ! i) unit \<noteq> None"
proof -
  obtain j u1 where f: "FindEvent e unit t True u = (j, u1)" by force
  from FindEvent_ok [OF f assms(2)] have ok: "buffer_ok u1" "j < length (fBuffer u1)" by simp_all
  then have "event_ok (fBuffer u1 ! j)" by (simp add: buffer_ok_def)
  then have "buffer_ok (update_event j (\<lambda>ev. ev\<lparr>e_modules := (e_modules ev)(unit \<mapsto> new_module e unit)\<rparr>) u1)"
    using ok by (intro buffer_ok_update) (auto intro: event_ok_module)
  with assms(1) f ok show ?thesis by (auto simp: FindModule_def update_event_def split: option.splits)
qed

section \<open>The words of a frame\<close>

lemma stamp_value_ok:
  assumes "stamp_value unit d = (d1, t)" and "dec_ok unit d"
  shows "dec_ok unit d1 \<and> cur d1 = cur d \<and> timestampCount d1 = timestampCount d \<and> timestampFlag d1 = timestampFlag d \<and> chan d1 = chan d"
  using assms by (auto simp: stamp_value_def dec_ok_def Let_def split: if_splits prod.splits)

lemma fresh_stamp_ok:
  assumes "fresh_stamp e unit g (d, t) = (d1, t1)" and "dec_ok unit d"
  shows "dec_ok unit d1 \<and> cur d1 = cur d \<and> timestampCount d1 = timestampCount d \<and> timestampFlag d1 = timestampFlag d \<and> chan d1 = chan d"
  using assms by (auto simp: fresh_stamp_def dec_ok_def Let_def split: if_splits prod.splits)

lemma module_ok_fields [simp]:
  "module_ok k (m\<lparr>m_trigger := t\<rparr>) = module_ok k m" "module_ok k (m\<lparr>m_error := er\<rparr>) = module_ok k m"
  "module_ok k (m\<lparr>m_timestamp64 := s\<rparr>) = module_ok k m" "module_ok k (m\<lparr>m_timestamps := d\<rparr>) = module_ok k m"
  "module_ok k (m\<lparr>m_tgroup := g\<rparr>) = module_ok k m" "module_ok k (m\<lparr>m_suppressMask := sm\<rparr>) = module_ok k m"
  "module_ok k (m\<lparr>m_complete := b\<rparr>) = module_ok k m"
  by (simp_all add: module_ok_def)

lemma module_ok_channel:
  "module_ok k m \<Longrightarrow> length (ch_samples (f (m_channels m c))) = VF48_MAX_SAMPLES \<Longrightarrow> module_ok k (set_channel c f m)"
  by (simp add: module_ok_def)

lemma samples_length: "module_ok k m \<Longrightarrow> length (ch_samples (m_channels m c)) = VF48_MAX_SAMPLES"
  by (simp add: module_ok_def)

lemma enter_module_ok:
  assumes "dec_ok unit d"
  shows "dec_ok unit (enter_module e unit secs d) \<and> cur (enter_module e unit secs d) \<noteq> None \<and>
    timestampCount (enter_module e unit secs d) = timestampCount d \<and> timestampFlag (enter_module e unit secs d) = timestampFlag d \<and>
    chan (enter_module e unit secs d) = chan d"
proof (cases "cur d")
  case None
  obtain i v where f: "FindModule e unit secs (unp d) = (i, v)" by force
  define d1 where "d1 = d\<lparr>cur := Some i, unp := v\<rparr>"
  have ok: "dec_ok unit d1" using FindModule_ok [OF f] assms by (simp add: d1_def dec_ok_def)
  then obtain m where m: "get_module unit d1 = Some m" "module_ok unit m" by (rule dec_ok_module) (simp add: d1_def)
  then have "module_ok unit (m\<lparr>m_unit := unit, m_trigger := word_of_int (headerTrigNo d1)\<rparr>)" by (simp add: module_ok_def)
  with ok have "dec_ok unit (put_module unit (m\<lparr>m_unit := unit, m_trigger := word_of_int (headerTrigNo d1)\<rparr>) d1)" by (rule dec_ok_put)
  moreover have "enter_module e unit secs d = put_module unit (m\<lparr>m_unit := unit, m_trigger := word_of_int (headerTrigNo d1)\<rparr>) d1"
    using None f m by (simp add: enter_module_def d1_def [symmetric] Let_def)
  ultimately show ?thesis by (simp add: d1_def)
next
  case (Some i)
  then show ?thesis using assms by (simp add: enter_module_def)
qed

lemma stamp_ok:
  assumes "dec_ok unit d"
  shows "dec_ok unit (stamp e unit g d) \<and> cur (stamp e unit g d) \<noteq> None \<and>
    timestampCount (stamp e unit g d) = timestampCount d \<and> timestampFlag (stamp e unit g d) = timestampFlag d \<and>
    chan (stamp e unit g d) = chan d"
proof -
  obtain d1 t where 1: "stamp_value unit d = (d1, t)" by force
  obtain d2 t2 where 2: "fresh_stamp e unit g (d1, t) = (d2, t2)" by force
  define secs where "secs = seconds e (t2 - timestampBases (unp d2) unit) (fFreq (unp d2) unit)"
  define d3 where "d3 = enter_module e unit secs d2"
  from stamp_value_ok [OF 1 assms] fresh_stamp_ok [OF 2] enter_module_ok [of unit d2 e secs]
  have d3: "dec_ok unit d3" "cur d3 \<noteq> None" "timestampCount d3 = timestampCount d" "timestampFlag d3 = timestampFlag d" "chan d3 = chan d"
    by (simp_all add: d3_def)
  then obtain m where m: "get_module unit d3 = Some m" "module_ok unit m" by (metis dec_ok_module option.exhaust)
  from 1 2 m(1) have "stamp e unit g d = put_module unit (m\<lparr>m_timestamp64 := (m_timestamp64 m)(g := t2),
      m_timestamps := (m_timestamps m)(g := secs), m_tgroup := g\<rparr>) d3"
    by (simp add: stamp_def secs_def [symmetric] d3_def [symmetric])
  with d3 m(2) show ?thesis by (simp add: dec_ok_put)
qed

lemma CompleteModule_ok:
  assumes "module_ok k m"
  shows "module_ok k (fst (CompleteModule e u m))"
proof -
  have chans: "module_ok k (fst (fold (check_channel u) is (m, b)))" if "module_ok k m" for "is" m b
    using that
  proof (induction "is" arbitrary: m b)
    case (Cons i "is")
    obtain m1 b1 where 1: "check_channel u i (m, b) = (m1, b1)" by force
    then have "module_ok k m1" using Cons.prems by (auto simp: check_channel_def Let_def module_ok_def split: if_splits)
    with Cons.IH 1 show ?case by simp
  qed simp
  have groups: "module_ok k (fst (fold (check_group e u t) is (m, b)))" if "module_ok k m" for "is" m b t
    using that
  proof (induction "is" arbitrary: m b)
    case (Cons i "is")
    obtain m1 b1 where 1: "check_group e u t i (m, b) = (m1, b1)" by force
    then have "module_ok k m1" using Cons.prems by (auto simp: check_group_def split: if_splits)
    with Cons.IH 1 show ?case by simp
  qed simp
  show ?thesis using assms chans [OF assms, of "[0..<VF48_MAX_CHANNELS]" "fBadDataCount u"]
    by (auto simp: CompleteModule_def Let_def split: prod.split) (metis fst_conv groups)
qed

section \<open>When a frame makes the decoder fault\<close>

text \<open>The flags: there is a module; a time stamp was seen since the last channel header; the last
  channel header had no valid number, or there was none.\<close>

definition flags :: "'d decoder \<Rightarrow> bool \<times> bool \<times> bool" where
  "flags d = (cur d \<noteq> None, timestampCount d \<noteq> 0, bad_chan d)"

definition is_trailer :: "w32 \<Rightarrow> bool" where
  "is_trailer w \<longleftrightarrow> w AND 0xF0000000 = 0xE0000000"

fun flag_word :: "nat \<Rightarrow> bool \<times> bool \<times> bool \<Rightarrow> w32 \<Rightarrow> (bool \<times> bool \<times> bool) res" where
  "flag_word grp (found, stamped, bad) w =
     (let tag = w AND 0xF0000000 in
      if tag = 0xA0000000 then Inr (found, True, bad)
      else if tag = 0xC0000000 then
        (if VF48_MAX_CHANNELS \<le> header_channel grp w then Inr (found, stamped, True)
         else if found \<or> stamped then Inr (True, False, False) else Inl Null_pointer)
      else if tag \<in> {0xF0000000, 0x80000000, 0, 0x40000000, 0x50000000, 0xE0000000} \<or> w = 0xDEADDEAD \<or> w = 0xDEADBEEF
      then Inr (found, stamped, bad)
      else if found \<and> bad then Inl Out_of_bounds
      else Inr (found, stamped, bad))"

text \<open>A step of the decoder and the step of the automaton.\<close>

definition agrees :: "nat \<Rightarrow> (bool \<times> bool \<times> bool) res \<Rightarrow> 'd decoder res \<Rightarrow> bool" where
  "agrees unit fl r \<longleftrightarrow> (case fl of Inl f \<Rightarrow> r = Inl f | Inr x \<Rightarrow> \<exists>d. r = Inr d \<and> dec_ok unit d \<and> flags d = x)"

lemma flags_put [simp]: "flags (put_module unit m d) = flags d"
  by (simp add: flags_def bad_chan_def)

lemma flags_bad [simp]: "flags (d\<lparr>unp := (unp d)\<lparr>fBadDataCount := n\<rparr>\<rparr>) = flags d"
  by (simp add: flags_def bad_chan_def)

lemma with_channel_agrees:
  assumes "dec_ok unit d"
    and "\<And>m c. \<lbrakk>get_module unit d = Some m; module_ok unit m; c < VF48_MAX_CHANNELS\<rbrakk> \<Longrightarrow> agrees unit (Inr (flags d)) (f m c d)"
  shows "agrees unit (Inr (flags d)) (with_channel unit f d)"
proof (cases "get_module unit d")
  case None
  then show ?thesis using assms(1) by (simp add: with_channel_def agrees_def)
next
  case (Some m)
  show ?thesis
  proof (cases "bad_chan d")
    case True
    with Some show ?thesis using assms(1) by (simp add: with_channel_def agrees_def)
  next
    case False
    then have "nat (chan d) < VF48_MAX_CHANNELS" by (auto simp: bad_chan_def VF48_MAX_CHANNELS_def)
    from assms(2) [OF Some dec_ok_get [OF assms(1) Some] this] False Some show ?thesis by (simp add: with_channel_def)
  qed
qed

lemma put_agrees: "dec_ok unit d \<Longrightarrow> module_ok unit m \<Longrightarrow> agrees unit (Inr (flags d)) (Inr (put_module unit m d))"
  by (simp add: agrees_def dec_ok_put)

lemma bad_put_agrees: "dec_ok unit d \<Longrightarrow> module_ok unit m \<Longrightarrow> agrees unit (Inr (flags d)) (Inr ((put_module unit m d)\<lparr>unp := (unp (put_module unit m d))\<lparr>fBadDataCount := n\<rparr>\<rparr>))"
  by (simp add: agrees_def dec_ok_put)

lemma sample_word_agrees:
  fixes d :: "'d decoder"
  assumes "dec_ok unit d"
  shows "agrees unit (Inr (flags d)) (sample_word unit w d)"
  unfolding sample_word_def
proof (rule with_channel_agrees [OF assms])
  fix m :: "'d vf48_module" and c
  assume m: "module_ok unit m"
  define n where "n = ch_numSamples (m_channels m c)"
  have w: "write_at n [x, y] (ch_samples (m_channels m c)) =
      Inr (take n (ch_samples (m_channels m c)) @ [x, y] @ drop (n + 2) (ch_samples (m_channels m c)))"
    and len: "length (take n (ch_samples (m_channels m c)) @ [x, y] @ drop (n + 2) (ch_samples (m_channels m c))) = VF48_MAX_SAMPLES"
    if "n < VF48_MAX_SAMPLES - 2" for x y
    using that samples_length [OF m, of c] by (simp_all add: write_at_def)
  show "agrees unit (Inr (flags d)) (let cc = m_channels m c; n = ch_numSamples cc in
       if ch_complete cc then Inr (bad_word (put_module unit (m\<lparr>m_error := 1\<rparr>) d))
       else if n < VF48_MAX_SAMPLES - 2 then
         bind_res (write_at n [ucast (w AND 0x3FFF), ucast (drop_bit 16 w AND 0x3FFF)] (ch_samples cc)) (\<lambda>samples.
         Inr (put_module unit (set_channel c (\<lambda>ch. ch\<lparr>ch_samples := samples, ch_numSamples := n + 2\<rparr>) m) d))
       else Inr (bad_word (put_module unit (set_channel c (\<lambda>ch. ch\<lparr>ch_numSamples := n + 2\<rparr>) (m\<lparr>m_error := 1\<rparr>)) d)))"
    unfolding Let_def n_def [symmetric]
    using m assms w len samples_length [OF m]
    by (auto intro!: put_agrees bad_put_agrees simp: module_ok_def)
qed

lemma time_word_agrees: "dec_ok unit d \<Longrightarrow> agrees unit (Inr (flags d)) (time_word unit w d)"
  unfolding time_word_def by (rule with_channel_agrees) (auto intro!: put_agrees simp: module_ok_def)

lemma charge_word_agrees: "dec_ok unit d \<Longrightarrow> agrees unit (Inr (flags d)) (charge_word unit w d)"
  unfolding charge_word_def by (rule with_channel_agrees) (auto intro!: put_agrees simp: module_ok_def Let_def)

lemma trailer_word_ok:
  assumes "dec_ok unit d"
  shows "\<exists>d'. trailer_word e unit w d = Inr d' \<and> dec_ok unit d'"
proof -
  consider "get_module unit d = None \<or> bad_chan d" | m where "get_module unit d = Some m" "\<not> bad_chan d" by (cases "get_module unit d") auto
  then show ?thesis
  proof cases
    case 1
    then show ?thesis using assms by (auto simp: trailer_word_def with_channel_def split: option.splits)
  next
    case 2
    define m1 where "m1 = set_channel (nat (chan d)) (\<lambda>ch. ch\<lparr>ch_complete := True\<rparr>) m"
    obtain m2 d2 where md: "(if uint (w AND 0x00FFFFFF) \<noteq> headerTrigNo d then (m1\<lparr>m_error := 1\<rparr>, bad_word d) else (m1, d)) = (m2, d2)"
      by force
    have "module_ok unit m1" using dec_ok_get [OF assms 2(1)] by (simp add: m1_def module_ok_def)
    with md assms have ok: "module_ok unit m2" "dec_ok unit d2" by (auto split: if_splits)
    obtain m3 bad where cm: "CompleteModule e (unp d2) m2 = (m3, bad)" by force
    with CompleteModule_ok [OF ok(1), of e "unp d2"] ok(2) have "dec_ok unit (put_module unit m3 d2)" by (simp add: dec_ok_put)
    then have "dec_ok unit ((put_module unit m3 d2)\<lparr>cur := None, unp := (unp (put_module unit m3 d2))\<lparr>fBadDataCount := bad\<rparr>\<rparr>)"
      by (simp add: dec_ok_def)
    moreover have "trailer_word e unit w d =
        (if m_completeGroupMask m2 = fGroupEnabled (unp d2) unit
         then Inr ((put_module unit m3 d2)\<lparr>cur := None, unp := (unp (put_module unit m3 d2))\<lparr>fBadDataCount := bad\<rparr>\<rparr>)
         else Inr (put_module unit m2 d2))"
      by (simp only: trailer_word_def with_channel_def Let_def 2 option.case if_False m1_def [symmetric] md prod.case cm)
    ultimately show ?thesis using ok dec_ok_put by auto
  qed
qed

lemma channel_word_agrees:
  assumes "dec_ok unit d"
  shows "agrees unit
    (if VF48_MAX_CHANNELS \<le> header_channel g w then Inr (cur d \<noteq> None, timestampCount d \<noteq> 0, True)
     else if cur d \<noteq> None \<or> timestampCount d \<noteq> 0 then Inr (True, False, False) else Inl Null_pointer)
    (channel_word e unit g w d)"
proof -
  define c where "c = header_channel g w"
  define d1 where "d1 = d\<lparr>chan := int c\<rparr>"
  have d1: "dec_ok unit d1" "cur d1 = cur d" "timestampCount d1 = timestampCount d" "chan d1 = int c"
    using assms by (simp_all add: d1_def dec_ok_def)
  show ?thesis
  proof (cases "VF48_MAX_CHANNELS \<le> c")
    case True
    with d1 show ?thesis
      by (simp add: channel_word_def c_def [symmetric] d1_def [symmetric] Let_def agrees_def flags_def bad_chan_def)
  next
    case False
    define d2 where "d2 = (if timestampCount d1 \<noteq> 0 then stamp e unit (header_group g w) d1 else d1)"
    have d2: "dec_ok unit d2" "chan d2 = int c" "cur d2 \<noteq> None \<longleftrightarrow> cur d \<noteq> None \<or> timestampCount d \<noteq> 0"
      using stamp_ok [OF d1(1), of e "header_group g w"] d1 by (simp_all add: d2_def)
    show ?thesis
    proof (cases "get_module unit d2")
      case None
      then have "channel_word e unit g w d = Inl Null_pointer"
        unfolding channel_word_def Let_def c_def [symmetric] d1_def [symmetric] d2_def [symmetric] using False by simp
      then show ?thesis using None d2 dec_ok_none [OF d2(1)] False by (simp add: agrees_def c_def)
    next
      case (Some m)
      define d3 where "d3 = (if ch_numSamples (m_channels m c) \<noteq> 0 then bad_word d2 else d2)"
      define d4 where "d4 = (put_module unit (open_channel (header_group g w) c (timestampFlag d3) m) d3)\<lparr>timestampCount := 0, timestampFlag := False\<rparr>"
      have "module_ok unit (open_channel (header_group g w) c (timestampFlag d3) m)"
        using dec_ok_get [OF d2(1) Some] by (auto simp: open_channel_def module_ok_def)
      then have "dec_ok unit (put_module unit (open_channel (header_group g w) c (timestampFlag d3) m) d3)"
        using d2 by (intro dec_ok_put) (simp_all add: d3_def)
      then have "dec_ok unit d4" by (simp add: d4_def dec_ok_def)
      moreover have "flags d4 = (True, False, False)"
        using False d2 get_module_cur [OF Some] by (auto simp: d4_def d3_def flags_def bad_chan_def)
      moreover have "channel_word e unit g w d = Inr d4"
        unfolding channel_word_def Let_def c_def [symmetric] d1_def [symmetric] d2_def [symmetric]
        using False Some by (simp add: d3_def d4_def)
      moreover have "cur d \<noteq> None \<or> timestampCount d \<noteq> 0" using get_module_cur [OF Some] d2(3) by simp
      ultimately show ?thesis using False by (auto simp: agrees_def c_def)
    qed
  qed
qed

lemma decode_word_agrees:
  assumes "dec_ok unit d" and "\<not> is_trailer w"
  shows "agrees unit (flag_word g (flags d) w) (decode_word e unit g d w)"
proof -
  have head: "agrees unit (Inr (flags d)) (Inr (header_word w d))"
    using assms(1) by (simp add: agrees_def header_word_def dec_ok_def flags_def bad_chan_def)
  have time: "agrees unit (Inr (cur d \<noteq> None, True, bad_chan d)) (Inr (timestamp_word w d))"
    using assms(1) by (auto simp: agrees_def timestamp_word_def dec_ok_def flags_def bad_chan_def Let_def)
  have same: "agrees unit (Inr (flags d)) (Inr d)" using assms(1) by (simp add: agrees_def)
  have unexp: "agrees unit
      (if w = 0xDEADDEAD \<or> w = 0xDEADBEEF then Inr (flags d)
       else if cur d \<noteq> None \<and> bad_chan d then Inl Out_of_bounds else Inr (flags d)) (unexpected_word unit w d)"
  proof (cases "get_module unit d")
    case None
    then have "cur d = None" using dec_ok_none [OF assms(1)] by simp
    with None assms(1) show ?thesis by (simp add: unexpected_word_def agrees_def)
  next
    case (Some m)
    have "module_ok unit (m\<lparr>m_error := 1\<rparr>)" using dec_ok_get [OF assms(1) Some] by simp
    with Some get_module_cur [OF Some] assms(1) show ?thesis
      by (auto simp: unexpected_word_def agrees_def dec_ok_put)
  qed
  have fl: "flags d = (cur d \<noteq> None, timestampCount d \<noteq> 0, bad_chan d)" by (simp add: flags_def)
  show ?thesis
    using assms(2) head time same channel_word_agrees [OF assms(1), of g w e] unexp
      sample_word_agrees [OF assms(1), of w] time_word_agrees [OF assms(1), of w] charge_word_agrees [OF assms(1), of w]
    unfolding fl flag_word.simps Let_def decode_word_def is_trailer_def
    by auto
qed

lemma flag_word_trailer: "is_trailer w \<Longrightarrow> flag_word g fl w = Inr fl"
  by (cases fl) (simp add: is_trailer_def)

text \<open>Trailers end the frames.\<close>

definition one_frame :: "w32 list \<Rightarrow> bool" where
  "one_frame ws \<longleftrightarrow> list_all (\<lambda>w. \<not> is_trailer w) (butlast ws)"

lemma decode_frame:
  assumes "dec_ok unit d" and "one_frame ws"
  shows "case run_steps (flag_word g) (flags d) ws of
      Inl f \<Rightarrow> run_steps (decode_word e unit g) d ws = Inl f
    | Inr _ \<Rightarrow> \<exists>d'. run_steps (decode_word e unit g) d ws = Inr d' \<and> dec_ok unit d'"
  using assms
proof (induction ws arbitrary: d)
  case Nil
  then show ?case by simp
next
  case (Cons w ws)
  show ?case
  proof (cases "is_trailer w")
    case True
    with Cons.prems(2) have "ws = []" by (cases ws) (simp_all add: one_frame_def)
    have "decode_word e unit g d w = trailer_word e unit w d"
      using True by (simp add: decode_word_def is_trailer_def)
    with trailer_word_ok [OF Cons.prems(1), of e w] \<open>ws = []\<close> flag_word_trailer [OF True] show ?thesis by auto
  next
    case False
    have ws: "one_frame ws" using Cons.prems(2) by (cases ws) (simp_all add: one_frame_def)
    show ?thesis
    proof (cases "flag_word g (flags d) w")
      case (Inl f)
      with decode_word_agrees [OF Cons.prems(1) False, where g = g and e = e] show ?thesis by (simp add: agrees_def)
    next
      case (Inr fl)
      with decode_word_agrees [OF Cons.prems(1) False, where g = g and e = e] obtain d1 where
        d1: "decode_word e unit g d w = Inr d1" "dec_ok unit d1" "flags d1 = fl" by (auto simp: agrees_def)
      from Cons.IH [OF d1(2) ws] d1 Inr show ?thesis by (simp split: sum.splits)
    qed
  qed
qed

text \<open>What the automaton says about a frame, and about a sequence of frames.\<close>

definition frame_result :: "nat \<times> w32 list \<Rightarrow> unit res" where
  "frame_result c = map_sum id (\<lambda>_. ()) (run_steps (flag_word (fst c)) (False, False, True) (snd c))"

lemma UnpackEvent_frame:
  assumes "buffer_ok u" and "one_frame ws" and "unit < VF48_MAX_MODULES" and "g < VF48_MAX_GROUPS"
  shows "case frame_result (g, ws) of
      Inl f \<Rightarrow> UnpackEvent e unit g ws u = Inl f
    | Inr _ \<Rightarrow> \<exists>v. UnpackEvent e unit g ws u = Inr v \<and> buffer_ok v"
proof -
  have d: "dec_ok unit (new_decoder u)" "flags (new_decoder u) = (False, False, True)"
    using assms(1) by (simp_all add: dec_ok_def new_decoder_def flags_def bad_chan_def)
  show ?thesis
    using decode_frame [OF d(1) assms(2), where g = g and e = e] assms(3,4)
    by (cases "run_steps (flag_word g) (flags (new_decoder u)) ws") (auto simp: d(2) frame_result_def UnpackEvent_def dec_ok_def)
qed

lemma calls_result:
  assumes "buffer_ok u" and "unit < VF48_MAX_MODULES" and "\<forall>c \<in> set cs. fst c < VF48_MAX_GROUPS \<and> one_frame (snd c)"
  shows "case run_steps (\<lambda>_. frame_result) () cs of
      Inl f \<Rightarrow> run_steps (call e unit) u cs = Inl f
    | Inr _ \<Rightarrow> \<exists>v. run_steps (call e unit) u cs = Inr v \<and> buffer_ok v"
  using assms
proof (induction cs arbitrary: u)
  case Nil
  then show ?case by simp
next
  case (Cons c cs)
  obtain g ws where c: "c = (g, ws)" by force
  with Cons.prems have "one_frame ws" "g < VF48_MAX_GROUPS" by simp_all
  from UnpackEvent_frame [OF Cons.prems(1) this(1) Cons.prems(2) this(2), where e = e] Cons.IH Cons.prems(2,3) c
  show ?case by (cases "frame_result c") (auto simp: call_def split: sum.splits)
qed

section \<open>Streams\<close>

lemma frame_word_one_frame:
  assumes "frame_word (acc, buf) w = (st, fs)" and "list_all (\<lambda>w. \<not> is_trailer w) buf"
  shows "list_all (\<lambda>w. \<not> is_trailer w) (snd st) \<and> (\<forall>f \<in> set fs. one_frame f)"
proof -
  have "is_trailer w \<longleftrightarrow> w AND 0xF0000000 = 0xE0000000" by (simp add: is_trailer_def)
  moreover have "one_frame buf" using assms(2) by (auto simp: one_frame_def list_all_iff dest: in_set_butlastD)
  ultimately show ?thesis using assms by (auto simp: one_frame_def Let_def split: if_splits)
qed

lemma demux_one_frame:
  assumes "demux p r = (p2, cs)" and "\<forall>g. list_all (\<lambda>w. \<not> is_trailer w) (snd (p g))"
  shows "(\<forall>c \<in> set cs. one_frame (snd c)) \<and> fst ` set cs \<subseteq> fst ` set r"
  using assms
proof (induction r arbitrary: p cs)
  case Nil
  then show ?case by simp
next
  case (Cons x r)
  obtain h w where x: "x = (h, w)" by force
  obtain st fs where 1: "frame_word (p h) w = (st, fs)" by (metis surj_pair)
  obtain p3 cs1 where 2: "demux (p(h := st)) r = (p3, cs1)" by (metis surj_pair)
  from Cons.prems(1) x 1 2 have p3: "p3 = p2" and cs: "cs = map (Pair h) fs @ cs1" by simp_all
  obtain acc buf where p: "p h = (acc, buf)" by force
  with Cons.prems(2) have "list_all (\<lambda>w. \<not> is_trailer w) buf" by (metis snd_conv)
  from frame_word_one_frame [OF 1 [unfolded p] this]
  have st: "list_all (\<lambda>w. \<not> is_trailer w) (snd st)" and fs: "\<forall>f \<in> set fs. one_frame f" by simp_all
  have "\<forall>g. list_all (\<lambda>w. \<not> is_trailer w) (snd ((p(h := st)) g))" using st Cons.prems(2) by simp
  from Cons.IH [OF 2 [unfolded p3] this] fs cs x show ?case by (auto simp: ball_Un)
qed

lemma routed_groups: "markers_ok ws \<Longrightarrow> g < VF48_MAX_GROUPS \<Longrightarrow> fst ` set (routed g ws) \<subseteq> {..<VF48_MAX_GROUPS}"
  by (induction ws arbitrary: g) (auto simp: markers_ok_def)

lemma same_events_buffer_ok: "same_events u v \<Longrightarrow> buffer_ok u \<Longrightarrow> buffer_ok v"
  by (metis buffer_ok_def same_events_def with_stream_sel(11))

text \<open>
  What a stream does to the groups, with everything that can go wrong: a marker for a group that does
  not exist, a word behind the end of the buffer, and a frame that cannot be decoded.
\<close>

definition expected_word :: "nat \<times> (nat \<Rightarrow> bool \<times> w32 list) \<Rightarrow> w32 \<Rightarrow> (nat \<times> (nat \<Rightarrow> bool \<times> w32 list)) res" where
  "expected_word = (\<lambda>(g, p) w.
     if is_marker w then (if VF48_MAX_GROUPS \<le> unat (w AND 7) then Inl Assert_failed else Inr (unat (w AND 7), p))
     else
       let (st, fs) = frame_word (p g) w in
       if list_ex (\<lambda>f. BUF_WORDS < length f) (snd st # fs) then Inl Buffer_overflow
       else bind_res (run_steps (\<lambda>_. frame_result) () (map (Pair g) fs)) (\<lambda>_. Inr (g, p(g := st))))"

text \<open>The state between two calls.\<close>

definition unpacker_ok :: "nat \<Rightarrow> 'd unpacker \<Rightarrow> bool" where
  "unpacker_ok unit u \<longleftrightarrow> stream_ok unit u \<and> wgrp u unit < VF48_MAX_GROUPS \<and> buffer_ok u \<and>
     (\<forall>g. list_all (\<lambda>w. \<not> is_trailer w) (snd (pend unit u g)))"

lemma full_buffer:
  assumes "at_group unit grp u" and "\<not> is_marker w" and "frame_word (pend unit u grp) w = (st, fs)"
    and "list_ex (\<lambda>f. BUF_WORDS < length f) (snd st # fs)"
  shows "stream_word e unit (grp, u) w = Inl Buffer_overflow"
proof -
  from assms(1) obtain b where b: "wbuf u unit grp = Some b" "length b = BUF_WORDS" "wptr u unit grp \<le> BUF_WORDS"
      "pend unit u grp = (wacc u unit grp, take (wptr u unit grp) b)" by (rule at_groupE)
  have two: "2 \<le> BUF_WORDS" by (simp add: BUF_WORDS_def VF48_MAX_SAMPLES_def)
  from b(2-4) obtain a buf where p: "pend unit u grp = (a, buf)" "a = wacc u unit grp" "length buf = wptr u unit grp" by auto
  from assms(3) [unfolded p(1)] assms(4) p(2,3) b(3) two have full: "wptr u unit grp = BUF_WORDS" "wacc u unit grp \<or> w AND 0xF0000000 = 0xE0000000" "w AND 0xF0000000 \<noteq> 0x80000000"
    by (auto simp: Let_def split: if_splits)
  then have "store_word unit grp w u = Inl Buffer_overflow" using b by (simp add: store_word_def)
  with full assms(2) show ?thesis by (auto simp: stream_word_def is_marker_def)
qed

lemma stream_word_expected:
  assumes "at_group unit grp u" and "buffer_ok u" and "\<forall>g. list_all (\<lambda>w. \<not> is_trailer w) (snd (pend unit u g))"
    and "unit < VF48_MAX_MODULES" and "malloc_ok e"
  shows "case expected_word (grp, pend unit u) w of
      Inl f \<Rightarrow> stream_word e unit (grp, u) w = Inl f
    | Inr (g, p) \<Rightarrow> \<exists>v. stream_word e unit (grp, u) w = Inr (g, v) \<and> at_group unit g v \<and> buffer_ok v \<and> pend unit v = p \<and>
        (\<forall>g. list_all (\<lambda>w. \<not> is_trailer w) (snd (p g)))"
proof (cases "is_marker w")
  case True
  show ?thesis
  proof (cases "VF48_MAX_GROUPS \<le> unat (w AND 7)")
    case bad: True
    with True show ?thesis by (simp add: expected_word_def stream_word_def is_marker_def NewGroup_def)
  next
    case False
    with stream_word_marker [OF assms(1) True assms(5)] obtain v where
      "stream_word e unit (grp, u) w = Inr (unat (w AND 7), v)" "same_events u v" "at_group unit (unat (w AND 7)) v" "pend unit v = pend unit u"
      by auto
    with True False assms(2,3) same_events_buffer_ok show ?thesis by (auto simp: expected_word_def)
  qed
next
  case False
  obtain st fs where fw: "frame_word (pend unit u grp) w = (st, fs)" by (metis surj_pair)
  show ?thesis
  proof (cases "list_ex (\<lambda>f. BUF_WORDS < length f) (snd st # fs)")
    case True
    with full_buffer [OF assms(1) False fw True, of e] fw False show ?thesis by (simp add: expected_word_def)
  next
    case len: False
    from assms(1) have grp: "grp < VF48_MAX_GROUPS" by (simp add: at_group_def)
    obtain acc buf where p: "pend unit u grp = (acc, buf)" by force
    with assms(3) have "list_all (\<lambda>w. \<not> is_trailer w) buf" by (metis snd_conv)
    from frame_word_one_frame [OF fw [unfolded p] this]
    have st: "list_all (\<lambda>w. \<not> is_trailer w) (snd st)" and one: "\<forall>f \<in> set fs. one_frame f" by simp_all
    have lens: "length (snd st) \<le> BUF_WORDS" "\<forall>f \<in> set fs. length f \<le> BUF_WORDS" using len by (auto simp: list_ex_iff not_less)
    have fol: "follows unit ((pend unit u)(grp := st)) (run_steps (call e unit) u (map (Pair grp) fs)) (stream_word e unit (grp, u) w)"
      by (rule stream_word_follows [OF assms(1) False fw lens])
    have cs: "\<forall>c \<in> set (map (Pair grp) fs). fst c < VF48_MAX_GROUPS \<and> one_frame (snd c)" using grp one by auto
    note run = calls_result [OF assms(2,4) cs, of e]
    have exp: "expected_word (grp, pend unit u) w =
        bind_res (run_steps (\<lambda>_. frame_result) () (map (Pair grp) fs)) (\<lambda>_. Inr (grp, (pend unit u)(grp := st)))"
      using False fw len by (simp add: expected_word_def)
    show ?thesis
    proof (cases "run_steps (\<lambda>_. frame_result) () (map (Pair grp) fs)")
      case (Inl f)
      with run fol exp show ?thesis by (simp add: follows_def)
    next
      case (Inr x)
      with run obtain u1 where "run_steps (call e unit) u (map (Pair grp) fs) = Inr u1" "buffer_ok u1" by auto
      with fol obtain g v where v: "stream_word e unit (grp, u) w = Inr (g, v)" "same_events u1 v" "at_group unit g v"
          "pend unit v = (pend unit u)(grp := st)" by (auto simp: follows_def)
      have "g = grp" using v(1) False by (auto simp: stream_word_def is_marker_def Let_def bind_res_eq_Inr split: if_splits)
      with v exp Inr st assms(3) same_events_buffer_ok [OF v(2) \<open>buffer_ok u1\<close>] show ?thesis by simp
    qed
  qed
qed

lemma stream_expected:
  assumes "at_group unit grp u" and "buffer_ok u" and "\<forall>g. list_all (\<lambda>w. \<not> is_trailer w) (snd (pend unit u g))"
    and "unit < VF48_MAX_MODULES" and "malloc_ok e"
  shows "case run_steps expected_word (grp, pend unit u) ws of
      Inl f \<Rightarrow> run_steps (stream_word e unit) (grp, u) ws = Inl f
    | Inr (g, p) \<Rightarrow> \<exists>v. run_steps (stream_word e unit) (grp, u) ws = Inr (g, v) \<and> unpacker_ok unit v \<and> pend unit v = p"
  using assms
proof (induction ws arbitrary: grp u)
  case Nil
  then show ?case by (simp add: unpacker_ok_def at_group_def)
next
  case (Cons w ws)
  note step = stream_word_expected [OF Cons.prems, of w]
  show ?case
  proof (cases "expected_word (grp, pend unit u) w")
    case (Inl f)
    with step show ?thesis by simp
  next
    case (Inr gp)
    obtain g p where gp: "gp = (g, p)" by force
    with Inr step obtain v where v: "stream_word e unit (grp, u) w = Inr (g, v)" "at_group unit g v" "buffer_ok v" "pend unit v = p"
        "\<forall>g. list_all (\<lambda>w. \<not> is_trailer w) (snd (p g))" by auto
    have eq1: "run_steps (stream_word e unit) (grp, u) (w # ws) = run_steps (stream_word e unit) (g, v) ws" using v(1) by simp
    have eq2: "run_steps expected_word (grp, pend unit u) (w # ws) = run_steps expected_word (g, pend unit v) ws" using Inr gp v(4) by simp
    show ?thesis unfolding eq1 eq2 using v(4,5) Cons.prems(4,5) by (intro Cons.IH v(2,3)) simp_all
  qed
qed

text \<open>The faults that occur.\<close>

lemma expected_faults:
  "run_steps expected_word s ws = Inl f \<Longrightarrow> f \<in> {Assert_failed, Buffer_overflow, Null_pointer, Out_of_bounds}"
proof (induction ws arbitrary: s)
  case (Cons w ws)
  have flag: "f \<in> {Null_pointer, Out_of_bounds}" if "run_steps (flag_word g) fl ws = Inl f" for g fl ws
    using that by (induction ws arbitrary: fl) (auto simp: bind_res_eq_Inl Let_def split: if_splits)
  have only: "f \<in> {Null_pointer, Out_of_bounds}" if "run_steps (\<lambda>_. frame_result) () cs = Inl f" for cs
    using that
  proof (induction cs)
    case (Cons c cs)
    from Cons flag [of "fst c" "(False, False, True)" "snd c"] show ?case
      by (cases "run_steps (flag_word (fst c)) (False, False, True) (snd c)") (auto simp: frame_result_def)
  qed simp
  from Cons show ?case
    by (cases s) (auto simp: expected_word_def bind_res_eq_Inl Let_def dest!: only split: if_splits prod.splits)
qed simp

text \<open>C10: Every stream of words has exactly the outcome that the groups predict.  Either all words are
  taken, no array is overrun and the state is fit for the next call; or the unpacker stops at the first
  word for which one of these holds: it is a marker of a group that does not exist (an assertion fails),
  it is the word behind a frame that fills the buffer (which is written behind its end), or it ends a
  frame in which a channel header has neither a time stamp nor a module before it (a NULL pointer is
  followed) or an unknown word stands behind a channel header with a bad number (which reads behind the
  array of channels).
\<close>

theorem stream_faults_exactly:
  assumes "unit < VF48_MAX_MODULES" and "unpacker_ok unit u" and "malloc_ok e"
  shows "case run_steps expected_word (wgrp u unit, pend unit u) ws of
      Inl f \<Rightarrow> UnpackStream e unit ws u = Inl f \<and> f \<in> {Assert_failed, Buffer_overflow, Null_pointer, Out_of_bounds}
    | Inr (g, p) \<Rightarrow> \<exists>v. UnpackStream e unit ws u = Inr v \<and> unpacker_ok unit v \<and> pend unit v = p"
proof -
  from assms(2) have u: "stream_ok unit u" "wgrp u unit < VF48_MAX_GROUPS" "buffer_ok u"
    "\<forall>g. list_all (\<lambda>w. \<not> is_trailer w) (snd (pend unit u g))" by (simp_all add: unpacker_ok_def)
  from NewGroup_at [OF u(1) assms(3) u(2)] obtain v where
    v: "NewGroup e unit u = Inr (wgrp u unit, v)" "same_events u v" "at_group unit (wgrp u unit) v" "pend unit v = pend unit u" by blast
  from stream_expected [OF v(3) same_events_buffer_ok [OF v(2) u(3)] _ assms(1,3), of ws] u(4) v(4)
  have "case run_steps expected_word (wgrp u unit, pend unit u) ws of
      Inl f \<Rightarrow> run_steps (stream_word e unit) (wgrp u unit, v) ws = Inl f
    | Inr (g, p) \<Rightarrow> \<exists>v'. run_steps (stream_word e unit) (wgrp u unit, v) ws = Inr (g, v') \<and> unpacker_ok unit v' \<and> pend unit v' = p" by simp
  moreover have "UnpackStream e unit ws u = bind_res (run_steps (stream_word e unit) (wgrp u unit, v) ws) (\<lambda>(g, u1). Inr u1)"
    using assms(1) v(1) by (simp add: UnpackStream_def)
  ultimately show ?thesis
    by (cases "run_steps expected_word (wgrp u unit, pend unit u) ws") (auto dest: expected_faults)
qed

lemma demo_ok: "unpacker_ok 0 demo_unpacker"
  by (simp add: unpacker_ok_def stream_ok_def buffer_ok_def pend_def VF48_MAX_GROUPS_def)

lemma demo_expected: "map_sum id fst (run_steps expected_word (0, pend 0 demo_unpacker) demo_words) = Inr 1"
proof -
  have results: "frame_result (0, [0x80000005, 0xA0001000, 0xA0000001, 0xC0000002, 0x00020001, 0x00040003, 0x50000007, 0xE0000005]) = Inr ()"
    "frame_result (1, [0x80000005, 0xA0001000, 0xA0000001, 0xC0000012, 0x00060005, 0x00080007, 0x50000009, 0xE0000005]) = Inr ()"
    by code_simp+
  have "pend 0 demo_unpacker = (\<lambda>_. (False, []))" "BUF_WORDS = 26656"
    by (simp_all add: fun_eq_iff pend_def BUF_WORDS_def VF48_MAX_SAMPLES_def VF48_MAX_CHANNELS_def)
  with results show ?thesis by (simp add: demo_words_def expected_word_def is_marker_def VF48_MAX_GROUPS_def)
qed

lemma stream_faults_exactly_witness:
  "\<exists>v. UnpackStream demo_fp 0 demo_words demo_unpacker = Inr v \<and> unpacker_ok 0 v"
  using stream_faults_exactly [OF _ demo_ok, of demo_fp demo_words] demo_expected
  by (auto simp: VF48_MAX_MODULES_def split: sum.splits)

end
