(* ===== verification/Vf48_Packet.thy ===== *)
theory Vf48_Packet
  imports Vf48_Decode
begin

text \<open>
  What a module sends for one trigger, as words, and the decoding of it: the samples arrive in the
  channels they were taken from.
\<close>

section \<open>Packing\<close>

text \<open>Two samples share a word.  The decoder takes 14 bits of each, but the upper two of the second one
  belong to the tag of the word, so the samples have 12 bits.\<close>

fun pair_words :: "16 word list \<Rightarrow> w32 list" where
  "pair_words (a # b # ss) = (push_bit 16 (ucast b) OR ucast a) # pair_words ss"
| "pair_words ss = []"

text \<open>A channel of a group: its number, its samples and the charge.\<close>

type_synonym channel_data = "nat \<times> 16 word list \<times> w32"

definition chan_header :: "nat \<Rightarrow> nat \<Rightarrow> w32" where
  "chan_header g k = 0xC0000000 OR push_bit 4 (of_nat g) OR of_nat k"

fun chan_words :: "nat \<Rightarrow> channel_data \<Rightarrow> w32 list" where
  "chan_words g (k, ss, q) = chan_header g k # pair_words ss @ [0x50000000 OR q]"

definition frame_of :: "nat \<Rightarrow> w32 \<Rightarrow> 64 word \<Rightarrow> channel_data list \<Rightarrow> w32 list" where
  "frame_of g trig t chs =
     [0x80000000 OR trig, 0xA0000000 OR (ucast t AND 0x00FFFFFF), 0xA0000000 OR (ucast (drop_bit 24 t) AND 0x00FFFFFF)] @
     concat (map (chan_words g) chs) @ [0xE0000000 OR trig]"

definition samples_ok :: "16 word list \<Rightarrow> bool" where
  "samples_ok ss \<longleftrightarrow> even (length ss) \<and> length ss \<le> VF48_MAX_SAMPLES - 2 \<and> (\<forall>s \<in> set ss. s AND 0x0FFF = s)"

definition short :: "w32 \<Rightarrow> bool" where
  "short w \<longleftrightarrow> w AND 0x00FFFFFF = w"

definition channel_ok :: "channel_data \<Rightarrow> bool" where
  "channel_ok = (\<lambda>(k, ss, q). k < 8 \<and> samples_ok ss \<and> short q)"

section \<open>The fields of the words\<close>

lemma short_and:
  assumes "short w" and "m AND 0x00FFFFFF = 0"
  shows "w AND m = 0"
proof -
  have "w AND m = (w AND 0x00FFFFFF) AND m" using assms(1) by (simp add: short_def)
  also have "\<dots> = w AND (m AND 0x00FFFFFF)" by (simp add: ac_simps)
  finally show ?thesis using assms(2) by simp
qed

lemma word_fields:
  assumes "short w"
  shows "(0x80000000 OR w) AND 0xF0000000 = 0x80000000" "(0xA0000000 OR w) AND 0xF0000000 = 0xA0000000"
    "(0x50000000 OR w) AND 0xF0000000 = 0x50000000" "(0xE0000000 OR w) AND 0xF0000000 = 0xE0000000"
    "(0x80000000 OR w) AND 0x00FFFFFF = w" "(0xA0000000 OR w) AND 0x00FFFFFF = w" "(0x50000000 OR w) AND 0x00FFFFFF = w"
    "(0xE0000000 OR w) AND 0x00FFFFFF = w" "(0x50000000 OR w) AND 0x0F000000 = 0" "(0x50000000 OR w) AND 0xFF = w AND 0xFF"
  using short_and [OF assms, of "0xF0000000"] short_and [OF assms, of "0x0F000000"] assms
  by (simp_all add: bit.conj_disj_distrib2 short_def)

lemma short_mask [simp]: "short (w AND 0x00FFFFFF)"
  by (simp add: short_def ac_simps)

lemma chan_header_fields:
  assumes "g < 6" and "k < 8" and "h = g \<or> g \<noteq> 0"
  shows "chan_header g k AND 0xF0000000 = 0xC0000000 \<and> header_group h (chan_header g k) = g \<and> header_channel h (chan_header g k) = 8 * g + k"
proof -
  have "\<forall>g \<in> set [0..<6]. \<forall>k \<in> set [0..<8]. chan_header g k AND 0xF0000000 = 0xC0000000 \<and> header_group g (chan_header g k) = g \<and>
    header_channel g (chan_header g k) = 8 * g + k \<and> drop_bit 4 (chan_header g k AND 0x70) = of_nat g"
    by code_simp
  with assms have *: "chan_header g k AND 0xF0000000 = 0xC0000000" "header_group g (chan_header g k) = g"
      "header_channel g (chan_header g k) = 8 * g + k" "drop_bit 4 (chan_header g k AND 0x70) = of_nat g" by simp_all
  have "unat (of_nat g :: w32) = g" using assms(1) by (simp add: unat_of_nat)
  with * assms(3) have "header_group h (chan_header g k) = g" by (auto simp: header_group_def)
  with * show ?thesis by (simp add: header_channel_def)
qed

lemma sample_bits:
  assumes "(a :: 16 word) AND 0x0FFF = a" and "(b :: 16 word) AND 0x0FFF = b"
  shows "(push_bit 16 (ucast b) OR ucast a :: w32) AND 0xF0000000 = 0"
    "ucast ((push_bit 16 (ucast b) OR ucast a :: w32) AND 0x3FFF) = a"
    "ucast (drop_bit 16 (push_bit 16 (ucast b) OR ucast a :: w32) AND 0x3FFF) = b"
proof -
  have m: "(0x0FFF :: 16 word) = mask 12" "(0x3FFF :: w32) = mask 14" "(0xF0000000 :: w32) = push_bit 28 (mask 4)"
    by (simp_all add: mask_eq_exp_minus_1)
  have a: "bit a n \<longrightarrow> n < 12" for n using assms(1) unfolding m by (metis bit_and_iff bit_mask_iff)
  have b: "bit b n \<longrightarrow> n < 12" for n using assms(2) unfolding m by (metis bit_and_iff bit_mask_iff)
  show "(push_bit 16 (ucast b) OR ucast a :: w32) AND 0xF0000000 = 0"
    unfolding m by (rule bit_word_eqI) (use a b in \<open>fastforce simp: bit_simps\<close>)
  show "ucast ((push_bit 16 (ucast b) OR ucast a :: w32) AND 0x3FFF) = a"
    unfolding m by (rule bit_word_eqI) (use a in \<open>force simp: bit_simps\<close>)
  show "ucast (drop_bit 16 (push_bit 16 (ucast b) OR ucast a :: w32) AND 0x3FFF) = b"
    unfolding m by (rule bit_word_eqI) (use a b in \<open>force simp: bit_simps\<close>)
qed

lemma stamp_bits:
  assumes "take_bit 48 t = t"
  shows "(ucast (ucast t AND 0x00FFFFFF :: w32) OR push_bit 24 (ucast (ucast (drop_bit 24 t) AND 0x00FFFFFF :: w32)) :: 64 word) = t"
proof -
  have m: "(0x00FFFFFF :: w32) = mask 24" by (simp add: mask_eq_exp_minus_1)
  have t: "bit t n \<longrightarrow> n < 48" for n
    using assms by (metis bit_take_bit_iff)
  show ?thesis unfolding m by (rule bit_word_eqI) (use t in \<open>force simp: bit_simps\<close>)
qed

section \<open>Decoding a channel\<close>

text \<open>The decoder has a module, at a position of the buffer.\<close>

definition holds :: "'d decoder \<Rightarrow> bool" where
  "holds d \<longleftrightarrow> (\<exists>i. cur d = Some i \<and> i < length (fBuffer (unp d)))"

lemma holds_put [simp]: "holds (put_module unit m d) = holds d"
  by (auto simp: holds_def put_module_def update_event_def split: option.splits)

lemma get_put [simp]: "holds d \<Longrightarrow> get_module unit (put_module unit m d) = Some m"
  by (auto simp: holds_def put_module_def get_module_def update_event_def)

lemma put_put [simp]: "put_module unit m' (put_module unit m d) = put_module unit m' d"
proof (cases "cur d")
  case (Some i)
  then show ?thesis
    by (cases "i < length (fBuffer (unp d))") (simp_all add: put_module_def update_event_def list_update_beyond)
qed (simp add: put_module_def)

lemma put_upd [simp]:
  "(put_module unit m d)\<lparr>chan := c\<rparr> = put_module unit m (d\<lparr>chan := c\<rparr>)"
  "(put_module unit m d)\<lparr>timestampCount := n\<rparr> = put_module unit m (d\<lparr>timestampCount := n\<rparr>)"
  "(put_module unit m d)\<lparr>timestampFlag := b\<rparr> = put_module unit m (d\<lparr>timestampFlag := b\<rparr>)"
  by (simp_all add: put_module_def split: option.split)

lemma holds_upd [simp]:
  "holds (d\<lparr>chan := c\<rparr>) = holds d" "holds (d\<lparr>timestampCount := n\<rparr>) = holds d" "holds (d\<lparr>timestampFlag := b\<rparr>) = holds d"
  by (simp_all add: holds_def)

lemma bad_chan_put [simp]: "bad_chan (put_module unit m d) = bad_chan d"
  by (simp add: bad_chan_def)

text \<open>The samples of a channel.\<close>

lemma sample_step:
  assumes "holds d" and "chan d = int c" and "c < VF48_MAX_CHANNELS" and "\<not> ch_complete (m_channels m c)"
    and "ch_numSamples (m_channels m c) = n" and "n < VF48_MAX_SAMPLES - 2"
    and "length (ch_samples (m_channels m c)) = VF48_MAX_SAMPLES" and "a AND 0x0FFF = a" and "b AND 0x0FFF = b"
  shows "decode_word e unit g (put_module unit m d) (push_bit 16 (ucast b) OR ucast a) =
    Inr (put_module unit (set_channel c (\<lambda>ch. ch\<lparr>ch_samples := take n (ch_samples ch) @ [a, b] @ drop (n + 2) (ch_samples ch),
      ch_numSamples := n + 2\<rparr>) m) d)"
proof -
  have "\<not> bad_chan d" using assms(2,3) by (simp add: bad_chan_def)
  then show ?thesis
    using assms sample_bits [OF assms(8,9)]
    by (simp add: decode_word_def sample_word_def with_channel_def Let_def write_at_def)
qed

definition put_samples :: "nat \<Rightarrow> 16 word list \<Rightarrow> vf48_channel \<Rightarrow> vf48_channel" where
  "put_samples n ss ch = ch\<lparr>ch_samples := take n (ch_samples ch) @ ss @ drop (n + length ss) (ch_samples ch), ch_numSamples := n + length ss\<rparr>"

lemma put_samples_Nil: "ch_numSamples ch = n \<Longrightarrow> put_samples n [] ch = ch"
  by (cases ch) (simp add: put_samples_def)

lemma samples_run:
  assumes "holds d" and "chan d = int c" and "c < VF48_MAX_CHANNELS" and "\<not> ch_complete (m_channels m c)"
    and "ch_numSamples (m_channels m c) = n" and "n + length ss \<le> VF48_MAX_SAMPLES - 2" and "even (length ss)"
    and "length (ch_samples (m_channels m c)) = VF48_MAX_SAMPLES" and "\<forall>s \<in> set ss. s AND 0x0FFF = s"
  shows "run_steps (decode_word e unit g) (put_module unit m d) (pair_words ss) =
    Inr (put_module unit (set_channel c (put_samples n ss) m) d)"
  using assms
proof (induction ss arbitrary: m n rule: pair_words.induct)
  case (1 a b ss)
  define m1 where "m1 = set_channel c (\<lambda>ch. ch\<lparr>ch_samples := take n (ch_samples ch) @ [a, b] @ drop (n + 2) (ch_samples ch),
      ch_numSamples := n + 2\<rparr>) m"
  have n: "n < VF48_MAX_SAMPLES - 2" using "1.prems"(6) by simp
  have "decode_word e unit g (put_module unit m d) (push_bit 16 (ucast b) OR ucast a) = Inr (put_module unit m1 d)"
    unfolding m1_def using "1.prems" by (intro sample_step n) simp_all
  moreover have "run_steps (decode_word e unit g) (put_module unit m1 d) (pair_words ss) =
      Inr (put_module unit (set_channel c (put_samples (n + 2) ss) m1) d)"
    using "1.prems" n by (intro "1.IH") (simp_all add: m1_def)
  moreover have "set_channel c (put_samples (n + 2) ss) m1 = set_channel c (put_samples n (a # b # ss)) m"
    using "1.prems" n by (simp add: m1_def put_samples_def add.commute)
  ultimately show ?case by (simp only: pair_words.simps run_steps.simps bind_res_Inr)
qed (simp_all add: put_samples_Nil)

text \<open>The effect of a whole channel on the module.\<close>

fun load_channel :: "nat \<Rightarrow> bool \<Rightarrow> channel_data \<Rightarrow> 'd vf48_module \<Rightarrow> 'd vf48_module" where
  "load_channel g stamped (k, ss, q) m =
     (let m1 = set_channel (8 * g + k) (put_samples 0 ss) (open_channel g (8 * g + k) stamped m) in
      set_channel (8 * g + k) (\<lambda>ch. ch\<lparr>ch_charge := q, ch_complete := True\<rparr>)
        (m1\<lparr>m_suppressMask := (m_suppressMask m1)(g := q AND 0xFF)\<rparr>))"

lemma channel_header_step:
  assumes "holds d" and "timestampCount d = 0" and "ch_numSamples (m_channels m c) = 0"
    and "w AND 0xF0000000 = 0xC0000000" and "header_group h w = g" and "header_channel h w = c" and "c < VF48_MAX_CHANNELS"
  shows "decode_word e unit h (put_module unit m d) w =
    Inr (put_module unit (open_channel g c (timestampFlag d) m) (d\<lparr>chan := int c, timestampCount := 0, timestampFlag := False\<rparr>))"
  using assms by (simp add: decode_word_def channel_word_def Let_def)

lemma charge_step:
  assumes "holds d" and "chan d = int c" and "c < VF48_MAX_CHANNELS" and "short q"
  shows "decode_word e unit g (put_module unit m d) (0x50000000 OR q) =
    Inr (put_module unit (set_channel c (\<lambda>ch. ch\<lparr>ch_charge := q, ch_complete := True\<rparr>)
      (m\<lparr>m_suppressMask := (m_suppressMask m)(c div 8 := q AND 0xFF)\<rparr>)) d)"
proof -
  have "\<not> bad_chan d" using assms(2,3) by (simp add: bad_chan_def)
  then show ?thesis
    using assms word_fields [OF assms(4)] by (simp add: decode_word_def charge_word_def with_channel_def Let_def)
qed

lemma channel_run:
  assumes "holds d" and "timestampCount d = 0" and "ch_numSamples (m_channels m (8 * g + k)) = 0" and "module_ok unit m"
    and "g < VF48_MAX_GROUPS" and "channel_ok (k, ss, q)" and "h = g \<or> g \<noteq> 0"
  shows "run_steps (decode_word e unit h) (put_module unit m d) (chan_words g (k, ss, q)) =
    Inr (put_module unit (load_channel g (timestampFlag d) (k, ss, q) m) (d\<lparr>chan := int (8 * g + k), timestampCount := 0, timestampFlag := False\<rparr>))"
proof -
  define c where "c = 8 * g + k"
  define m1 where "m1 = open_channel g c (timestampFlag d) m"
  define d1 where "d1 = d\<lparr>chan := int c, timestampCount := 0, timestampFlag := False\<rparr>"
  have g: "g < 6" using assms(5) by (simp add: VF48_MAX_GROUPS_def)
  have k: "k < 8" "samples_ok ss" "short q" using assms(6) by (simp_all add: channel_ok_def)
  have c: "c < VF48_MAX_CHANNELS" "c div 8 = g" using g k(1) by (simp_all add: c_def VF48_MAX_CHANNELS_def)
  note f = chan_header_fields [OF g k(1) assms(7)]
  have h: "decode_word e unit h (put_module unit m d) (chan_header g k) = Inr (put_module unit m1 d1)"
    unfolding m1_def d1_def using assms f c by (intro channel_header_step) (simp_all add: c_def)
  have "run_steps (decode_word e unit h) (put_module unit m1 d1) (pair_words ss) =
      Inr (put_module unit (set_channel c (put_samples 0 ss) m1) d1)"
    using assms k(2) c(1) samples_length [OF assms(4), of c]
    by (intro samples_run) (simp_all add: d1_def m1_def open_channel_def samples_ok_def)
  moreover have "decode_word e unit h (put_module unit (set_channel c (put_samples 0 ss) m1) d1) (0x50000000 OR q) =
      Inr (put_module unit (load_channel g (timestampFlag d) (k, ss, q) m) d1)"
    using charge_step [of d1 c q e unit h "set_channel c (put_samples 0 ss) m1"] assms(1) c k(3)
    by (simp add: d1_def m1_def c_def Let_def)
  ultimately show ?thesis
    using h by (simp add: run_steps_append c_def [symmetric] d1_def [symmetric])
qed

text \<open>All channels of a frame.\<close>

lemma load_channel_other:
  assumes "c \<noteq> 8 * g + k"
  shows "m_channels (load_channel g b (k, ss, q) m) c = m_channels m c"
  using assms by (simp add: open_channel_def Let_def)

lemma load_channel_ok: "module_ok unit m \<Longrightarrow> channel_ok (k, ss, q) \<Longrightarrow> module_ok unit (load_channel g b (k, ss, q) m)"
  by (auto simp: module_ok_def open_channel_def put_samples_def channel_ok_def samples_ok_def Let_def)

lemma channels_run:
  assumes "holds d" and "timestampCount d = 0" and "\<not> timestampFlag d" and "module_ok unit m" and "g < VF48_MAX_GROUPS"
    and "\<forall>c \<in> set chs. channel_ok c" and "distinct (map fst chs)" and "\<forall>k \<in> set (map fst chs). ch_numSamples (m_channels m (8 * g + k)) = 0"
    and "h = g \<or> g \<noteq> 0"
  shows "\<exists>c. run_steps (decode_word e unit h) (put_module unit m d) (concat (map (chan_words g) chs)) =
    Inr (put_module unit (fold (load_channel g False) chs m) (d\<lparr>chan := c\<rparr>)) \<and>
    (if chs = [] then c = chan d else \<exists>k \<in> set (map fst chs). c = int (8 * g + k))"
  using assms
proof (induction chs arbitrary: m d)
  case Nil
  then show ?case by (intro exI [of _ "chan d"]) simp
next
  case (Cons x chs)
  obtain k ss q where x: "x = (k, ss, q)" by (cases x) auto
  define m1 where "m1 = load_channel g False (k, ss, q) m"
  define d1 where "d1 = d\<lparr>chan := int (8 * g + k), timestampCount := 0, timestampFlag := False\<rparr>"
  have ok: "channel_ok (k, ss, q)" "k < 8" using Cons.prems(6) x by (simp_all add: channel_ok_def)
  have run: "run_steps (decode_word e unit h) (put_module unit m d) (chan_words g (k, ss, q)) = Inr (put_module unit m1 d1)"
    using channel_run [OF Cons.prems(1,2) _ Cons.prems(4,5) ok(1) Cons.prems(9), of e] Cons.prems(3,8) x by (simp add: m1_def d1_def)
  have "\<forall>j \<in> set (map fst chs). ch_numSamples (m_channels m1 (8 * g + j)) = 0"
  proof
    fix j
    assume j: "j \<in> set (map fst chs)"
    with Cons.prems(7) x have "j \<noteq> k" by auto
    then have "m_channels m1 (8 * g + j) = m_channels m (8 * g + j)" unfolding m1_def by (intro load_channel_other) simp
    with j Cons.prems(8) show "ch_numSamples (m_channels m1 (8 * g + j)) = 0" by auto
  qed
  with Cons.IH [of d1 m1] Cons.prems x load_channel_ok [OF Cons.prems(4) ok(1)] obtain c where
    c: "run_steps (decode_word e unit h) (put_module unit m1 d1) (concat (map (chan_words g) chs)) =
      Inr (put_module unit (fold (load_channel g False) chs m1) (d1\<lparr>chan := c\<rparr>))"
      "if chs = [] then c = chan d1 else \<exists>k \<in> set (map fst chs). c = int (8 * g + k)"
    by (auto simp: d1_def m1_def)
  have "d1\<lparr>chan := c\<rparr> = d\<lparr>chan := c\<rparr>" using Cons.prems(2,3) by (cases d) (simp add: d1_def)
  moreover have "\<exists>j \<in> set (map fst (x # chs)). c = int (8 * g + j)" using c(2) x by (auto simp: d1_def split: if_splits)
  ultimately show ?case using run c(1) x by (auto simp: run_steps_append m1_def simp del: load_channel.simps chan_words.simps)
qed

lemma load_channel_fields [simp]:
  "m_unit (load_channel g b x m) = m_unit m" "m_trigger (load_channel g b x m) = m_trigger m" "m_error (load_channel g b x m) = m_error m"
  "m_tgroup (load_channel g b x m) = m_tgroup m" "m_timestamps (load_channel g b x m) = m_timestamps m"
  "m_complete (load_channel g b x m) = m_complete m"
  "m_timestampGroupMask (load_channel g b x m) = (if b then m_timestampGroupMask m OR push_bit g 1 else m_timestampGroupMask m)"
  "m_groupMask (load_channel g b x m) = m_groupMask m OR push_bit g 1"
  "m_completeGroupMask (load_channel g b x m) = m_completeGroupMask m OR push_bit g 1"
  by (cases x; simp add: open_channel_def Let_def)+

definition loaded :: "channel_data option \<Rightarrow> vf48_channel \<Rightarrow> bool" where
  "loaded x ch \<longleftrightarrow>
     (case x of
        None \<Rightarrow> ch_number ch = -1 \<and> \<not> ch_complete ch \<and> ch_numSamples ch = 0
      | Some (k, ss, q) \<Rightarrow> ch_complete ch \<and> ch_numSamples ch = length ss \<and> take (length ss) (ch_samples ch) = ss \<and> ch_charge ch = q)"

definition find_channel :: "nat \<Rightarrow> channel_data list \<Rightarrow> nat \<Rightarrow> channel_data option" where
  "find_channel g chs c = find (\<lambda>(k, ss, q). 8 * g + k = c) chs"

lemma find_channel_simps [simp]:
  "find_channel g [] c = None"
  "find_channel g ((k, ss, q) # chs) c = (if 8 * g + k = c then Some (k, ss, q) else find_channel g chs c)"
  by (simp_all add: find_channel_def)

lemma fold_load_fields:
  "m_unit (fold (load_channel g False) chs m) = m_unit m" "m_trigger (fold (load_channel g False) chs m) = m_trigger m"
  "m_error (fold (load_channel g False) chs m) = m_error m" "m_tgroup (fold (load_channel g False) chs m) = m_tgroup m"
  "m_timestamps (fold (load_channel g False) chs m) = m_timestamps m" "m_complete (fold (load_channel g False) chs m) = m_complete m"
  "m_timestampGroupMask (fold (load_channel g False) chs m) = m_timestampGroupMask m"
  "m_groupMask m = push_bit g 1 \<Longrightarrow> m_groupMask (fold (load_channel g False) chs m) = push_bit g 1"
  "m_completeGroupMask m = push_bit g 1 \<Longrightarrow> m_completeGroupMask (fold (load_channel g False) chs m) = push_bit g 1"
  by (induction chs arbitrary: m) simp_all

lemma load_channel_this: "loaded (Some (k, ss, q)) (m_channels (load_channel g b (k, ss, q) m) (8 * g + k))"
  by (simp add: loaded_def Let_def put_samples_def)

lemma fold_load_channels:
  assumes "distinct (map fst chs)"
  shows "if find_channel g chs c = None then m_channels (fold (load_channel g b) chs m) c = m_channels m c
    else loaded (find_channel g chs c) (m_channels (fold (load_channel g b) chs m) c)"
  using assms
proof (induction chs arbitrary: m)
  case Nil
  then show ?case by simp
next
  case (Cons x chs)
  obtain k ss q where x: "x = (k, ss, q)" by (cases x) auto
  have ih: "if find_channel g chs c = None then m_channels (fold (load_channel g b) chs (load_channel g b x m)) c = m_channels (load_channel g b x m) c
    else loaded (find_channel g chs c) (m_channels (fold (load_channel g b) chs (load_channel g b x m)) c)"
    by (rule Cons.IH) (use Cons.prems in simp)
  show ?case
  proof (cases "8 * g + k = c")
    case True
    with Cons.prems x have "find_channel g chs c = None" by (force simp: find_channel_def find_None_iff)
    with ih True x load_channel_this [of k ss q g b m] show ?thesis by (simp del: load_channel.simps)
  next
    case False
    with ih x load_channel_other [of c g k b ss q m] show ?thesis
      by (cases "find_channel g chs c") (simp_all del: load_channel.simps)
  qed
qed

section \<open>Completing the module\<close>

lemma check_channels_id:
  assumes "\<forall>i \<in> set is. ch_numSamples (m_channels m i) = 0 \<or>
    int (ch_numSamples (m_channels m i)) = fNumSamples u (m_unit m) \<and> ch_numSamples (m_channels m i) \<le> VF48_MAX_SAMPLES"
  shows "fold (check_channel u) is (m, bad) = (m, bad)"
  using assms by (induction "is") (auto simp: check_channel_def Let_def)

lemma check_groups_id:
  assumes "\<forall>i \<in> set is. bit (fGroupEnabled u (m_unit m)) i \<longrightarrow>
    bit (m_groupMask m) i \<and> bit (m_timestampGroupMask m) i \<and> \<not> apart e (m_timestamps m i) t"
  shows "fold (check_group e u t) is (m, bad) = (m, bad)"
  using assms by (induction "is") (auto simp: check_group_def)

lemma CompleteModule_clean:
  assumes "m_groupMask m \<noteq> 0"
    and "\<forall>i. ch_numSamples (m_channels m i) = 0 \<or>
      int (ch_numSamples (m_channels m i)) = fNumSamples u (m_unit m) \<and> ch_numSamples (m_channels m i) \<le> VF48_MAX_SAMPLES"
    and "\<forall>i. bit (fGroupEnabled u (m_unit m)) i \<longrightarrow>
      bit (m_groupMask m) i \<and> bit (m_timestampGroupMask m) i \<and> \<not> apart e (m_timestamps m i) (m_timestamps m (m_tgroup m))"
  shows "CompleteModule e u m = (m\<lparr>m_complete := True\<rparr>, fBadDataCount u)"
  using assms by (simp add: CompleteModule_def check_channels_id check_groups_id)

section \<open>The head of a frame\<close>

definition stamped_unpacker :: "nat \<Rightarrow> nat \<Rightarrow> 64 word \<Rightarrow> 'd unpacker \<Rightarrow> 'd unpacker" where
  "stamped_unpacker unit g t u =
     (let u1 = (if fTimestampResyncEnable u \<and> timestampBases u unit = 0
                then u\<lparr>timestampBases := (timestampBases u)(unit := t)\<rparr> else u)
      in u1\<lparr>last_ts := (last_ts u1)(unit := (last_ts u1 unit)(g := t))\<rparr>)"

definition event_time :: "'d fp_env \<Rightarrow> nat \<Rightarrow> 64 word \<Rightarrow> 'd unpacker \<Rightarrow> 'd" where
  "event_time e unit t u =
     seconds e (t - (if fTimestampResyncEnable u \<and> timestampBases u unit = 0 then t else timestampBases u unit)) (fFreq u unit)"

definition stamped_module :: "'d fp_env \<Rightarrow> nat \<Rightarrow> nat \<Rightarrow> w32 \<Rightarrow> 64 word \<Rightarrow> 'd \<Rightarrow> 'd vf48_module" where
  "stamped_module e unit g trig t secs =
     (let m = new_module e unit in
      m\<lparr>m_trigger := trig, m_timestamp64 := (m_timestamp64 m)(g := t), m_timestamps := (m_timestamps m)(g := secs), m_tgroup := g\<rparr>)"

text \<open>The decoder behind the three words of the head.\<close>

definition head_decoder :: "w32 \<Rightarrow> 64 word \<Rightarrow> 'd unpacker \<Rightarrow> 'd decoder" where
  "head_decoder trig t u = (new_decoder u)\<lparr>headerTrigNo := uint trig, timestampCount := 2, timestampFlag := True,
     timestamp1 := ucast t AND 0x00FFFFFF, timestamp2 := ucast (drop_bit 24 t) AND 0x00FFFFFF\<rparr>"

lemma head_run:
  assumes "short trig"
  shows "run_steps (decode_word e unit g) (new_decoder u)
    [0x80000000 OR trig, 0xA0000000 OR (ucast t AND 0x00FFFFFF), 0xA0000000 OR (ucast (drop_bit 24 t) AND 0x00FFFFFF)] =
    Inr (head_decoder trig t u)"
  using word_fields [OF assms] word_fields [OF short_mask]
  by (simp add: decode_word_def header_word_def timestamp_word_def Let_def head_decoder_def new_decoder_def)

text \<open>The first channel header enters a new event.\<close>

definition entered :: "'d fp_env \<Rightarrow> nat \<Rightarrow> nat \<Rightarrow> w32 \<Rightarrow> 64 word \<Rightarrow> 'd unpacker \<Rightarrow> 'd decoder" where
  "entered e unit g trig t u =
     (head_decoder trig t u)\<lparr>cur := Some (length (fBuffer u)),
        unp := (stamped_unpacker unit g t u)\<lparr>fEventNo := fEventNo u + 1,
          fBuffer := fBuffer u @ [(new_event e (fEventNo u + 1))\<lparr>e_timestamp := event_time e unit t u, e_modules := [unit \<mapsto> new_module e unit]\<rparr>]\<rparr>\<rparr>"

lemma position_from_None: "position_from P i xs = None \<longleftrightarrow> (\<forall>x \<in> set xs. \<not> P x)"
  by (induction xs arbitrary: i) auto

lemma stamped_unpacker_sel [simp]:
  "fBuffer (stamped_unpacker unit g t u) = fBuffer u" "fCoinc (stamped_unpacker unit g t u) = fCoinc u"
  "fEventNo (stamped_unpacker unit g t u) = fEventNo u" "fFreq (stamped_unpacker unit g t u) = fFreq u"
  "fGroupEnabled (stamped_unpacker unit g t u) = fGroupEnabled u" "fNumSamples (stamped_unpacker unit g t u) = fNumSamples u"
  "fBadDataCount (stamped_unpacker unit g t u) = fBadDataCount u"
  by (simp_all add: stamped_unpacker_def Let_def)

lemma stamp_entered:
  assumes "take_bit 48 t = t" and "t \<noteq> 0" and "t \<noteq> last_ts u unit g"
    and "\<forall>ev \<in> set (fBuffer u). \<not> closer e (e_timestamp ev) (event_time e unit t u) (fCoinc u)"
  shows "stamp e unit g ((head_decoder trig t u)\<lparr>chan := c\<rparr>) =
    put_module unit (stamped_module e unit g trig t (event_time e unit t u)) ((entered e unit g trig t u)\<lparr>chan := c\<rparr>)"
proof -
  define d where "d = (head_decoder trig t u)\<lparr>chan := c\<rparr>"
  define u1 where "u1 = (if fTimestampResyncEnable u \<and> timestampBases u unit = 0
      then u\<lparr>timestampBases := (timestampBases u)(unit := t)\<rparr> else u)"
  define secs where "secs = event_time e unit t u"
  have "stamp_value unit d = (d\<lparr>unp := u1\<rparr>, t)"
    using assms(2) stamp_bits [OF assms(1)] by (simp add: stamp_value_def d_def head_decoder_def new_decoder_def u1_def)
  moreover have "fresh_stamp e unit g (d\<lparr>unp := u1\<rparr>, t) = (d\<lparr>unp := stamped_unpacker unit g t u\<rparr>, t)"
    using assms(3) by (simp add: fresh_stamp_def u1_def stamped_unpacker_def Let_def)
  moreover have "seconds e (t - timestampBases (stamped_unpacker unit g t u) unit) (fFreq u unit) = secs"
    by (simp add: secs_def event_time_def stamped_unpacker_def Let_def)
  moreover have pos: "position_from (\<lambda>ev. closer e (e_timestamp ev) secs (fCoinc u)) 0 (fBuffer u) = None"
    using assms(4) by (simp add: position_from_None secs_def)
  moreover have find: "FindModule e unit secs (stamped_unpacker unit g t u) = (length (fBuffer u), unp (entered e unit g trig t u))"
    using pos by (simp add: FindModule_def FindEvent_def update_event_def entered_def new_event_def secs_def [symmetric])
  moreover define d1 where "d1 = (entered e unit g trig t u)\<lparr>chan := c\<rparr>"
  have "enter_module e unit secs (d\<lparr>unp := stamped_unpacker unit g t u\<rparr>) =
      put_module unit ((new_module e unit)\<lparr>m_trigger := trig\<rparr>) d1"
  proof -
    have "d\<lparr>cur := Some (length (fBuffer u)), unp := unp d1\<rparr> = d1" by (simp add: d_def d1_def entered_def)
    moreover have "get_module unit d1 = Some (new_module e unit)" by (simp add: d1_def entered_def get_module_def nth_append)
    moreover have "(new_module e unit)\<lparr>m_unit := unit\<rparr> = new_module e unit" by (simp add: new_module_def)
    moreover have "headerTrigNo d1 = uint trig" by (simp add: d1_def entered_def head_decoder_def)
    ultimately show ?thesis using find
      by (simp add: enter_module_def d_def head_decoder_def new_decoder_def d1_def)
  qed
  moreover have "holds d1" by (simp add: d1_def entered_def holds_def)
  ultimately show ?thesis
    by (simp add: stamp_def d_def [symmetric] secs_def [symmetric] d1_def [symmetric] stamped_module_def Let_def)
qed

text \<open>From there the first channel is like the others.\<close>

lemma first_header:
  assumes "take_bit 48 t = t" and "t \<noteq> 0" and "t \<noteq> last_ts u unit g"
    and "\<forall>ev \<in> set (fBuffer u). \<not> closer e (e_timestamp ev) (event_time e unit t u) (fCoinc u)"
    and "g < VF48_MAX_GROUPS" and "k < 8" and "h = g \<or> g \<noteq> 0"
  shows "decode_word e unit h (head_decoder trig t u) (chan_header g k) =
    decode_word e unit h (put_module unit (stamped_module e unit g trig t (event_time e unit t u))
      ((entered e unit g trig t u)\<lparr>timestampCount := 0\<rparr>)) (chan_header g k)"
proof -
  define c where "c = 8 * g + k"
  define m where "m = stamped_module e unit g trig t (event_time e unit t u)"
  define d where "d = entered e unit g trig t u"
  have g: "g < 6" using assms(5) by (simp add: VF48_MAX_GROUPS_def)
  note f = chan_header_fields [OF g assms(6,7)]
  have c: "c < VF48_MAX_CHANNELS" using g assms(6) by (simp add: c_def VF48_MAX_CHANNELS_def)
  have d: "holds d" "timestampFlag d" "timestampCount (head_decoder trig t u) \<noteq> 0"
    by (simp_all add: d_def holds_def entered_def head_decoder_def)
  have n: "ch_numSamples (m_channels m c) = 0"
    by (simp add: m_def stamped_module_def new_module_def new_channel_def Let_def)
  have st: "stamp e unit g ((head_decoder trig t u)\<lparr>chan := int c\<rparr>) = put_module unit m (d\<lparr>chan := int c\<rparr>)"
    unfolding m_def d_def by (rule stamp_entered [OF assms(1-4)])
  have "decode_word e unit h (head_decoder trig t u) (chan_header g k) =
      Inr (put_module unit (open_channel g c True m) (d\<lparr>chan := int c, timestampCount := 0, timestampFlag := False\<rparr>))"
    using f c d n st by (simp add: decode_word_def channel_word_def c_def [symmetric])
  moreover have "decode_word e unit h (put_module unit m (d\<lparr>timestampCount := 0\<rparr>)) (chan_header g k) =
      Inr (put_module unit (open_channel g c True m) (d\<lparr>chan := int c, timestampCount := 0, timestampFlag := False\<rparr>))"
    using channel_header_step [of "d\<lparr>timestampCount := 0\<rparr>" m c "chan_header g k" h g e unit] f c d n by (simp add: c_def [symmetric])
  ultimately show ?thesis by (simp add: m_def d_def)
qed

definition loaded_module :: "'d fp_env \<Rightarrow> nat \<Rightarrow> nat \<Rightarrow> w32 \<Rightarrow> 64 word \<Rightarrow> channel_data list \<Rightarrow> 'd unpacker \<Rightarrow> 'd vf48_module" where
  "loaded_module e unit g trig t chs u =
     fold (load_channel g False) (tl chs)
       (load_channel g True (hd chs) (stamped_module e unit g trig t (event_time e unit t u)))"

lemma body_run:
  assumes "take_bit 48 t = t" and "t \<noteq> 0" and "t \<noteq> last_ts u unit g"
    and "\<forall>ev \<in> set (fBuffer u). \<not> closer e (e_timestamp ev) (event_time e unit t u) (fCoinc u)"
    and "g < VF48_MAX_GROUPS" and "h = g \<or> g \<noteq> 0"
    and "\<forall>c \<in> set chs. channel_ok c" and "distinct (map fst chs)" and "chs \<noteq> []"
  shows "\<exists>k \<in> set (map fst chs). run_steps (decode_word e unit h) (head_decoder trig t u) (concat (map (chan_words g) chs)) =
    Inr (put_module unit (loaded_module e unit g trig t chs u)
      ((entered e unit g trig t u)\<lparr>chan := int (8 * g + k), timestampCount := 0, timestampFlag := False\<rparr>))"
proof -
  from assms(9) obtain x cs where "chs = x # cs" by (cases chs) auto
  moreover obtain k ss q where "x = (k, ss, q)" by (cases x) auto
  ultimately have chs: "chs = (k, ss, q) # cs" by simp
  define m where "m = stamped_module e unit g trig t (event_time e unit t u)"
  define d where "d = (entered e unit g trig t u)\<lparr>timestampCount := 0\<rparr>"
  define m1 where "m1 = load_channel g True (k, ss, q) m"
  define d1 where "d1 = d\<lparr>chan := int (8 * g + k), timestampCount := 0, timestampFlag := False\<rparr>"
  have ok: "channel_ok (k, ss, q)" "k < 8" using assms(7) chs by (simp_all add: channel_ok_def)
  have zero: "ch_numSamples (m_channels m c) = 0" for c
    by (simp add: m_def stamped_module_def new_module_def new_channel_def Let_def)
  have mok: "module_ok unit m" by (simp add: m_def stamped_module_def new_module_def new_channel_def module_ok_def Let_def)
  have d: "holds d" "timestampCount d = 0" "timestampFlag d" by (simp_all add: d_def holds_def entered_def head_decoder_def)
  have "run_steps (decode_word e unit h) (put_module unit m d) (chan_words g (k, ss, q)) = Inr (put_module unit m1 d1)"
    using channel_run [OF d(1,2) zero mok assms(5) ok(1) assms(6), of e] d(3) by (simp add: m1_def d1_def)
  then have first: "run_steps (decode_word e unit h) (head_decoder trig t u) (chan_words g (k, ss, q)) = Inr (put_module unit m1 d1)"
    using first_header [OF assms(1-5) ok(2) assms(6)] by (simp add: m_def d_def)
  have "\<forall>j \<in> set (map fst cs). ch_numSamples (m_channels m1 (8 * g + j)) = 0"
  proof
    fix j
    assume "j \<in> set (map fst cs)"
    with assms(8) chs have "j \<noteq> k" by auto
    then have "m_channels m1 (8 * g + j) = m_channels m (8 * g + j)" unfolding m1_def by (intro load_channel_other) simp
    with zero show "ch_numSamples (m_channels m1 (8 * g + j)) = 0" by simp
  qed
  with channels_run [of d1 unit m1 g cs h e] assms chs load_channel_ok [OF mok ok(1)] d obtain c where
    c: "run_steps (decode_word e unit h) (put_module unit m1 d1) (concat (map (chan_words g) cs)) =
        Inr (put_module unit (fold (load_channel g False) cs m1) (d1\<lparr>chan := c\<rparr>))"
      "if cs = [] then c = chan d1 else \<exists>k \<in> set (map fst cs). c = int (8 * g + k)"
    by (auto simp: d1_def m1_def)
  then obtain j where j: "j \<in> set (map fst chs)" "c = int (8 * g + j)" using chs by (auto simp: d1_def split: if_splits)
  have "d1\<lparr>chan := c\<rparr> = (entered e unit g trig t u)\<lparr>chan := int (8 * g + j), timestampCount := 0, timestampFlag := False\<rparr>"
    by (simp add: d1_def d_def j(2))
  moreover have "fold (load_channel g False) cs m1 = loaded_module e unit g trig t chs u"
    by (simp add: loaded_module_def chs m1_def m_def)
  ultimately have "run_steps (decode_word e unit h) (head_decoder trig t u) (concat (map (chan_words g) chs)) =
    Inr (put_module unit (loaded_module e unit g trig t chs u)
      ((entered e unit g trig t u)\<lparr>chan := int (8 * g + j), timestampCount := 0, timestampFlag := False\<rparr>))"
    using first c(1) by (simp add: run_steps_append chs del: chan_words.simps)
  with j(1) show ?thesis by blast
qed

lemma loaded_module_fields:
  assumes "distinct (map fst chs)" and "chs \<noteq> []"
  shows "m_unit (loaded_module e unit g trig t chs u) = unit" "m_trigger (loaded_module e unit g trig t chs u) = trig"
    "m_error (loaded_module e unit g trig t chs u) = 0" "m_complete (loaded_module e unit g trig t chs u) = False"
    "m_tgroup (loaded_module e unit g trig t chs u) = g" "m_timestamps (loaded_module e unit g trig t chs u) g = event_time e unit t u"
    "m_groupMask (loaded_module e unit g trig t chs u) = push_bit g 1"
    "m_timestampGroupMask (loaded_module e unit g trig t chs u) = push_bit g 1"
    "m_completeGroupMask (loaded_module e unit g trig t chs u) = push_bit g 1"
    "loaded (find_channel g chs c) (m_channels (loaded_module e unit g trig t chs u) c)"
proof -
  from assms(2) obtain x cs where chs: "chs = x # cs" by (cases chs) auto
  define m where "m = stamped_module e unit g trig t (event_time e unit t u)"
  note fields = fold_load_fields [where g = g and chs = cs and m = "load_channel g True x m"]
  show "m_unit (loaded_module e unit g trig t chs u) = unit" "m_trigger (loaded_module e unit g trig t chs u) = trig"
    "m_error (loaded_module e unit g trig t chs u) = 0" "m_complete (loaded_module e unit g trig t chs u) = False"
    "m_tgroup (loaded_module e unit g trig t chs u) = g" "m_timestamps (loaded_module e unit g trig t chs u) g = event_time e unit t u"
    "m_groupMask (loaded_module e unit g trig t chs u) = push_bit g 1"
    "m_timestampGroupMask (loaded_module e unit g trig t chs u) = push_bit g 1"
    "m_completeGroupMask (loaded_module e unit g trig t chs u) = push_bit g 1"
    using fields by (simp_all add: loaded_module_def chs m_def stamped_module_def new_module_def Let_def)
  obtain k ss q where x: "x = (k, ss, q)" by (cases x) auto
  have new: "m_channels m c = new_channel e c" by (simp add: m_def stamped_module_def new_module_def Let_def)
  have m: "loaded_module e unit g trig t chs u = fold (load_channel g False) cs (load_channel g True x m)"
    by (simp add: loaded_module_def chs m_def)
  have rest: "if find_channel g cs c = None then m_channels (fold (load_channel g False) cs (load_channel g True x m)) c = m_channels (load_channel g True x m) c
    else loaded (find_channel g cs c) (m_channels (fold (load_channel g False) cs (load_channel g True x m)) c)"
    by (rule fold_load_channels) (use assms(1) chs in simp)
  show "loaded (find_channel g chs c) (m_channels (loaded_module e unit g trig t chs u) c)"
  proof (cases "8 * g + k = c")
    case True
    with assms(1) x chs have "find_channel g cs c = None" by (force simp: find_channel_def find_None_iff)
    with rest True x load_channel_this [of k ss q g True m] show ?thesis unfolding m by (simp add: chs del: load_channel.simps)
  next
    case False
    with rest x new load_channel_other [of c g k True ss q m] show ?thesis unfolding m
      by (cases "find_channel g cs c") (simp_all add: chs loaded_def new_channel_def del: load_channel.simps)
  qed
qed

section \<open>The trailer\<close>

lemma trailer_step:
  assumes "holds d" and "chan d = int c" and "c < VF48_MAX_CHANNELS" and "short trig" and "headerTrigNo d = uint trig"
    and "ch_complete (m_channels m c)"
  shows "decode_word e unit g (put_module unit m d) (0xE0000000 OR trig) =
    (if m_completeGroupMask m = fGroupEnabled (unp d) unit then
       let (m', bad) = CompleteModule e (unp (put_module unit m d)) m in
       Inr ((put_module unit m' d)\<lparr>cur := None, unp := (unp (put_module unit m' d))\<lparr>fBadDataCount := bad\<rparr>\<rparr>)
     else Inr (put_module unit m d))"
proof -
  have "\<not> bad_chan d" using assms(2,3) by (simp add: bad_chan_def)
  moreover have "set_channel c (\<lambda>ch. ch\<lparr>ch_complete := True\<rparr>) m = m"
    using assms(6) by (cases "m_channels m c") (cases m, simp add: fun_upd_idem)
  ultimately show ?thesis
    using assms word_fields [OF assms(4)] by (simp add: decode_word_def trailer_word_def with_channel_def Let_def)
qed

section \<open>The round trip\<close>

lemma find_channel_in: "find_channel g chs c = Some x \<Longrightarrow> x \<in> set chs"
  by (metis find_Some_iff find_channel_def nth_mem)

lemma find_channel_None: "find_channel g chs (8 * g + k) = None \<longleftrightarrow> k \<notin> set (map fst chs)"
  by (induction chs) (auto split: if_splits)

lemma put_entered:
  "fBuffer (unp (put_module unit m ((entered e unit g trig t u)\<lparr>chan := c, timestampCount := n, timestampFlag := b\<rparr>))) =
     fBuffer u @ [(new_event e (fEventNo u + 1))\<lparr>e_timestamp := event_time e unit t u, e_modules := [unit \<mapsto> m]\<rparr>]"
  "fGroupEnabled (unp (entered e unit g trig t u)) = fGroupEnabled u" "fBadDataCount (unp (entered e unit g trig t u)) = fBadDataCount u"
  by (simp_all add: put_module_def entered_def update_event_def nth_append)

lemma put_module_settings [simp]: "fNumSamples (unp (put_module unit m d)) = fNumSamples (unp d)"
  by (simp add: put_module_def update_event_def split: option.split)

lemma loaded_module_completes:
  assumes "distinct (map fst chs)" and "chs \<noteq> []" and "\<forall>(k, ss, q) \<in> set chs. int (length ss) = fNumSamples v unit \<and> length ss \<le> VF48_MAX_SAMPLES"
    and "fGroupEnabled v unit = push_bit g 1" and "\<not> apart e (event_time e unit t u) (event_time e unit t u)"
    and "g < VF48_MAX_GROUPS"
  shows "CompleteModule e v (loaded_module e unit g trig t chs u) =
    ((loaded_module e unit g trig t chs u)\<lparr>m_complete := True\<rparr>, fBadDataCount v)"
proof (rule CompleteModule_clean)
  note f = loaded_module_fields [OF assms(1,2), where e = e and unit = unit and g = g and trig = trig and t = t and u = u]
  have g: "bit (push_bit g 1 :: w32) i \<longleftrightarrow> i = g" for i using assms(6) by (auto simp: bit_simps VF48_MAX_GROUPS_def)
  show "m_groupMask (loaded_module e unit g trig t chs u) \<noteq> 0"
  proof
    assume "m_groupMask (loaded_module e unit g trig t chs u) = 0"
    with g [of g] f(7) have "bit (0 :: w32) g" by metis
    then show False by simp
  qed
  show "\<forall>i. bit (fGroupEnabled v (m_unit (loaded_module e unit g trig t chs u))) i \<longrightarrow>
      bit (m_groupMask (loaded_module e unit g trig t chs u)) i \<and> bit (m_timestampGroupMask (loaded_module e unit g trig t chs u)) i \<and>
      \<not> apart e (m_timestamps (loaded_module e unit g trig t chs u) i)
        (m_timestamps (loaded_module e unit g trig t chs u) (m_tgroup (loaded_module e unit g trig t chs u)))"
    using f assms(4,5) g by auto
  show "\<forall>i. ch_numSamples (m_channels (loaded_module e unit g trig t chs u) i) = 0 \<or>
      int (ch_numSamples (m_channels (loaded_module e unit g trig t chs u) i)) = fNumSamples v (m_unit (loaded_module e unit g trig t chs u)) \<and>
      ch_numSamples (m_channels (loaded_module e unit g trig t chs u) i) \<le> VF48_MAX_SAMPLES"
  proof
    fix i
    show "ch_numSamples (m_channels (loaded_module e unit g trig t chs u) i) = 0 \<or>
      int (ch_numSamples (m_channels (loaded_module e unit g trig t chs u) i)) = fNumSamples v (m_unit (loaded_module e unit g trig t chs u)) \<and>
      ch_numSamples (m_channels (loaded_module e unit g trig t chs u) i) \<le> VF48_MAX_SAMPLES"
      using f(10) [of i] f(1) assms(3) find_channel_in [of g chs i]
      by (cases "find_channel g chs i") (auto simp: loaded_def new_channel_def)
  qed
qed

text \<open>C9: What a module sends for one trigger is recovered: the frame of a group with a time stamp that
  belongs to no buffered event makes one new event with the trigger number, the time, and exactly the
  samples and charges of its channels; nothing is counted as bad, and the module is complete if and
  only if this is the one group that is enabled.
\<close>

theorem frame_roundtrip:
  assumes "unit < VF48_MAX_MODULES" and "g < VF48_MAX_GROUPS" and "short trig" and "take_bit 48 t = t" and "t \<noteq> 0" and "t \<noteq> last_ts u unit g"
    and "\<forall>ev \<in> set (fBuffer u). \<not> closer e (e_timestamp ev) (event_time e unit t u) (fCoinc u)"
    and "\<not> apart e (event_time e unit t u) (event_time e unit t u)"
    and "chs \<noteq> []" and "distinct (map fst chs)" and "\<forall>c \<in> set chs. channel_ok c"
    and "\<forall>(k, ss, q) \<in> set chs. int (length ss) = fNumSamples u unit"
  shows "\<exists>v m. UnpackEvent e unit g (frame_of g trig t chs) u = Inr v \<and> fBadDataCount v = fBadDataCount u \<and>
    fBuffer v = fBuffer u @ [(new_event e (fEventNo u + 1))\<lparr>e_timestamp := event_time e unit t u, e_modules := [unit \<mapsto> m]\<rparr>] \<and>
    m_trigger m = trig \<and> m_error m = 0 \<and> (m_complete m \<longleftrightarrow> fGroupEnabled u unit = push_bit g 1) \<and>
    (\<forall>c. loaded (find_channel g chs c) (m_channels m c))"
proof -
  note f = loaded_module_fields [OF assms(10,9), where e = e and unit = unit and g = g and trig = trig and t = t and u = u]
  define m where "m = loaded_module e unit g trig t chs u"
  from body_run [OF assms(4-7) assms(2) _ assms(11,10,9), of g trig] obtain k where
    k: "k \<in> set (map fst chs)" "run_steps (decode_word e unit g) (head_decoder trig t u) (concat (map (chan_words g) chs)) =
      Inr (put_module unit m ((entered e unit g trig t u)\<lparr>chan := int (8 * g + k), timestampCount := 0, timestampFlag := False\<rparr>))"
    by (auto simp: m_def)
  define d where "d = (entered e unit g trig t u)\<lparr>chan := int (8 * g + k), timestampCount := 0, timestampFlag := False\<rparr>"
  have "k < 8" using k(1) assms(11) by (auto simp: channel_ok_def)
  then have c: "8 * g + k < VF48_MAX_CHANNELS" using assms(2) by (simp add: VF48_MAX_GROUPS_def VF48_MAX_CHANNELS_def)
  have "find_channel g chs (8 * g + k) \<noteq> None" using k(1) by (simp add: find_channel_None)
  then have complete: "ch_complete (m_channels m (8 * g + k))" using f(10) [of "8 * g + k"] by (auto simp: m_def loaded_def)
  have d: "holds d" "chan d = int (8 * g + k)" "headerTrigNo d = uint trig"
    by (simp_all add: d_def holds_def entered_def head_decoder_def)
  note buffer = put_entered(1) [where unit = unit and e = e and g = g and trig = trig and t = t and u = u and c = "int (8 * g + k)" and n = 0
    and b = False, folded d_def]
  have settings: "fGroupEnabled (unp (put_module unit m' d)) = fGroupEnabled u" "fNumSamples (unp (put_module unit m' d)) = fNumSamples u"
    "fBadDataCount (unp (put_module unit m' d)) = fBadDataCount u" for m'
    by (simp_all add: d_def put_module_def entered_def update_event_def)
  have bad: "fBadDataCount (unp d) = fBadDataCount u" by (simp add: d_def entered_def)
  have run: "UnpackEvent e unit g (frame_of g trig t chs) u =
      bind_res (decode_word e unit g (put_module unit m d) (0xE0000000 OR trig)) (\<lambda>d. Inr (unp d))"
    unfolding UnpackEvent_def frame_of_def run_steps_append head_run [OF assms(3)] k(2) bind_res_Inr d_def [symmetric]
    using assms(1,2) by simp
  note step = trailer_step [OF d(1,2) c assms(3) d(3) complete, where e = e and unit = unit and g = g]
  show ?thesis
  proof (cases "fGroupEnabled u unit = push_bit g 1")
    case True
    have "int (length ss) = fNumSamples u unit \<and> length ss \<le> VF48_MAX_SAMPLES" if x: "(j, ss, q) \<in> set chs" for j ss q
      using bspec [OF assms(11) x] bspec [OF assms(12) x] by (auto simp: channel_ok_def samples_ok_def)
    then have "\<forall>(j, ss, q) \<in> set chs. int (length ss) = fNumSamples (unp (put_module unit m d)) unit \<and> length ss \<le> VF48_MAX_SAMPLES"
      unfolding settings by blast
    moreover have "fGroupEnabled (unp (put_module unit m d)) unit = push_bit g 1" using True by (simp only: settings)
    ultimately have "CompleteModule e (unp (put_module unit m d)) m = (m\<lparr>m_complete := True\<rparr>, fBadDataCount u)"
      using loaded_module_completes [OF assms(10,9) _ _ assms(8,2)] by (simp only: m_def settings)
    then have "UnpackEvent e unit g (frame_of g trig t chs) u =
        Inr ((unp (put_module unit (m\<lparr>m_complete := True\<rparr>) d))\<lparr>fBadDataCount := fBadDataCount u\<rparr>)"
      using run step f(9) True settings by (simp add: m_def)
    then show ?thesis
      using f True
      by (intro exI [of _ "(unp (put_module unit (m\<lparr>m_complete := True\<rparr>) d))\<lparr>fBadDataCount := fBadDataCount u\<rparr>"]
          exI [of _ "m\<lparr>m_complete := True\<rparr>"]) (simp add: buffer m_def)
  next
    case False
    then have "UnpackEvent e unit g (frame_of g trig t chs) u = Inr (unp (put_module unit m d))"
      using run step f(9) settings by (simp add: m_def)
    then show ?thesis
      using f False
      by (intro exI [of _ "unp (put_module unit m d)"] exI [of _ m]) (simp add: buffer settings bad m_def)
  qed
qed

definition demo_channels :: "channel_data list" where
  "demo_channels = [(2, [1, 2, 3, 4], 7), (5, [10, 20, 30, 40], 9)]"

lemma frame_roundtrip_witness:
  "\<exists>v m. UnpackEvent demo_fp 0 1 (frame_of 1 5 0x1000001 demo_channels) demo_unpacker = Inr v \<and> fBadDataCount v = 0 \<and>
    fBuffer v = [(new_event demo_fp 1)\<lparr>e_timestamp := event_time demo_fp 0 0x1000001 demo_unpacker, e_modules := [0 \<mapsto> m]\<rparr>] \<and>
    m_trigger m = 5 \<and> m_error m = 0 \<and> \<not> m_complete m \<and> (\<forall>c. loaded (find_channel 1 demo_channels c) (m_channels m c))"
proof -
  have "short 5" "take_bit 48 (0x1000001 :: 64 word) = 0x1000001" "\<forall>c \<in> set demo_channels. channel_ok c" "distinct (map fst demo_channels)"
    "demo_channels \<noteq> []" "\<forall>(k, ss, q) \<in> set demo_channels. int (length ss) = 4" "(3 :: w32) \<noteq> push_bit 1 1"
    by code_simp+
  then show ?thesis
    using frame_roundtrip [of 0 1 5 "0x1000001" demo_unpacker demo_fp demo_channels]
    by (simp add: VF48_MAX_MODULES_def VF48_MAX_GROUPS_def del: push_bit_Suc push_bit_of_1)
qed

end
