(* ===== verification/Vf48_Events.thy ===== *)
theory Vf48_Events
  imports Vf48_Packet
begin

text \<open>
  The buffer of events as a queue: every event that is made is delivered once, in the order of the
  numbers, and it is delivered when it is complete, when a later one is, or when too many wait.  At
  the end what the unpacker does with data it cannot take.
\<close>

section \<open>Events are numbered as they are made\<close>

definition numbers :: "'d unpacker \<Rightarrow> int list" where
  "numbers u = map e_eventNo (fBuffer u)"

definition grows :: "'d unpacker \<Rightarrow> 'd unpacker \<Rightarrow> bool" where
  "grows u v \<longleftrightarrow> fEventNo u \<le> fEventNo v \<and> numbers v = numbers u @ [fEventNo u + 1..fEventNo v]"

lemma grows_refl [simp]: "grows u u"
  by (simp add: grows_def)

lemma upto_append: "a \<le> b \<Longrightarrow> b \<le> c \<Longrightarrow> [a + 1..b] @ [b + 1..c] = [a + 1..c]"
  by (cases "a = b") (simp_all add: upto_split2 [of "a + 1" b c])

lemma grows_trans: "grows u v \<Longrightarrow> grows v w \<Longrightarrow> grows u w"
  by (auto simp: grows_def upto_append)

lemma grows_same: "fEventNo v = fEventNo u \<Longrightarrow> fBuffer v = fBuffer u \<Longrightarrow> grows u v"
  by (simp add: grows_def numbers_def)

lemma numbers_update:
  assumes "\<And>ev. e_eventNo (f ev) = e_eventNo ev"
  shows "numbers (update_event i f u) = numbers u"
proof (cases "i < length (fBuffer u)")
  case True
  then show ?thesis by (simp add: numbers_def update_event_def map_update assms) (metis length_map list_update_id nth_map)
next
  case False
  then show ?thesis by (simp add: numbers_def update_event_def list_update_beyond)
qed

lemma grows_update: "(\<And>ev. e_eventNo (f ev) = e_eventNo ev) \<Longrightarrow> grows u (update_event i f u)"
  by (simp add: grows_def numbers_update) (simp add: update_event_def)

lemma FindEvent_grows: "FindEvent e unit t dup u = (i, v) \<Longrightarrow> grows u v"
  by (auto simp: FindEvent_def grows_def numbers_def new_event_def split: option.splits)

lemma FindModule_grows: "FindModule e unit t u = (i, v) \<Longrightarrow> grows u v"
  by (auto simp: FindModule_def split: prod.splits option.splits intro: FindEvent_grows
      intro!: grows_trans [OF FindEvent_grows grows_update])

lemma AddToEvent_grows: "grows u (AddToEvent e m u)"
proof -
  obtain i u1 where find: "FindEvent e (m_unit m) (m_timestamps m (m_tgroup m)) False u = (i, u1)" by (metis surj_pair)
  then have "grows u u1" by (rule FindEvent_grows)
  moreover have "grows u1 (bad_data u1)" by (simp add: grows_same)
  ultimately show ?thesis
    using find by (auto simp: AddToEvent_def intro: grows_trans intro!: grows_trans [OF _ grows_update])
qed

section \<open>Decoding makes events only at the end of the buffer\<close>

lemma put_module_grows: "grows (unp d) (unp (put_module unit m d))"
  by (simp add: put_module_def grows_update split: option.split)

lemma bad_grows: "grows u (u\<lparr>fBadDataCount := n\<rparr>)"
  by (rule grows_same) simp_all

lemma put_bad_grows: "grows (unp d) ((unp (put_module unit m d))\<lparr>fBadDataCount := n\<rparr>)"
  by (rule grows_trans [OF put_module_grows bad_grows])

lemma bad_put_grows: "grows (unp d) (unp (put_module unit m (d\<lparr>unp := (unp d)\<lparr>fBadDataCount := n\<rparr>\<rparr>)))"
  using put_module_grows [of "d\<lparr>unp := (unp d)\<lparr>fBadDataCount := n\<rparr>\<rparr>" unit m] by (simp add: grows_trans [OF bad_grows])

lemmas decode_grows = put_module_grows bad_grows put_bad_grows bad_put_grows grows_trans [OF bad_put_grows bad_grows]

lemma stamp_value_grows: "stamp_value unit d = (d', t) \<Longrightarrow> grows (unp d) (unp d')"
  by (auto simp: stamp_value_def Let_def split: if_splits intro: grows_same)

lemma fresh_stamp_grows: "fresh_stamp e unit g (d, t) = (d', t') \<Longrightarrow> grows (unp d) (unp d')"
  by (auto simp: fresh_stamp_def Let_def split: if_splits intro: grows_same)

lemma enter_module_grows: "grows (unp d) (unp (enter_module e unit secs d))"
proof (cases "cur d")
  case None
  obtain i u where f: "FindModule e unit secs (unp d) = (i, u)" by (metis surj_pair)
  define d1 where "d1 = d\<lparr>cur := Some i, unp := u\<rparr>"
  have "grows (unp d) (unp d1)" using FindModule_grows [OF f] by (simp add: d1_def)
  moreover have "grows (unp d1) (unp (enter_module e unit secs d))"
    using None f by (simp add: enter_module_def d1_def [symmetric] put_module_grows split: option.split)
  ultimately show ?thesis by (rule grows_trans)
qed (simp add: enter_module_def)

lemma stamp_grows: "grows (unp d) (unp (stamp e unit g d))"
proof -
  obtain d1 t1 where 1: "stamp_value unit d = (d1, t1)" by (metis surj_pair)
  obtain d2 t2 where 2: "fresh_stamp e unit g (d1, t1) = (d2, t2)" by (metis surj_pair)
  define d3 where "d3 = enter_module e unit (seconds e (t2 - timestampBases (unp d2) unit) (fFreq (unp d2) unit)) d2"
  have "grows (unp d) (unp d2)" by (rule grows_trans [OF stamp_value_grows [OF 1] fresh_stamp_grows [OF 2]])
  moreover have "grows (unp d2) (unp d3)" unfolding d3_def by (rule enter_module_grows)
  moreover have "grows (unp d3) (unp (stamp e unit g d))"
    using 1 2 by (simp add: stamp_def Let_def d3_def [symmetric] put_module_grows split: option.split)
  ultimately show ?thesis by (metis grows_trans)
qed

lemma channel_word_grows:
  assumes "channel_word e unit grp w d = Inr d'"
  shows "grows (unp d) (unp d')"
proof -
  define g c d0 where "g = header_group grp w" and "c = header_channel grp w" and "d0 = d\<lparr>chan := int c\<rparr>"
  define d1 where "d1 = (if timestampCount d0 \<noteq> 0 then stamp e unit g d0 else d0)"
  note eq = assms [unfolded channel_word_def Let_def, folded g_def c_def, folded d0_def, folded d1_def]
  have "unp d0 = unp d" by (simp add: d0_def)
  then have d1: "grows (unp d) (unp d1)" using stamp_grows [of d0 e unit g] by (simp add: d1_def)
  show ?thesis
  proof (cases "VF48_MAX_CHANNELS \<le> c")
    case True
    with eq \<open>unp d0 = unp d\<close> show ?thesis by (auto intro: bad_grows)
  next
    case False
    with eq obtain m where m: "get_module unit d1 = Some m" by (cases "get_module unit d1") auto
    define d2 where "d2 = (if ch_numSamples (m_channels m c) \<noteq> 0 then bad_word d1 else d1)"
    have "grows (unp d1) (unp d2)" by (simp add: d2_def bad_grows)
    moreover have "grows (unp d2) (unp d')"
      using eq False m put_module_grows [of d2 unit "open_channel g c (timestampFlag d2) m"]
      by (auto simp: d2_def simp del: put_upd)
    ultimately show ?thesis using d1 by (metis grows_trans)
  qed
qed

lemma with_channel_grows:
  assumes "with_channel unit f d = Inr d'" and "\<And>m c. f m c d = Inr d' \<Longrightarrow> grows (unp d) (unp d')"
  shows "grows (unp d) (unp d')"
  using assms by (auto simp: with_channel_def bad_grows split: option.splits if_splits)

lemma decode_word_grows:
  assumes "decode_word e unit g d w = Inr d'"
  shows "grows (unp d) (unp d')"
proof -
  have "sample_word unit w d = Inr d' \<Longrightarrow> grows (unp d) (unp d')"
    unfolding sample_word_def
    by (erule with_channel_grows) (auto simp: Let_def bind_res_eq_Inr decode_grows split: if_splits)
  moreover have "time_word unit w d = Inr d' \<Longrightarrow> grows (unp d) (unp d')"
    unfolding time_word_def by (erule with_channel_grows) (auto simp: decode_grows)
  moreover have "charge_word unit w d = Inr d' \<Longrightarrow> grows (unp d) (unp d')"
    unfolding charge_word_def by (erule with_channel_grows) (auto simp: Let_def decode_grows)
  moreover have "trailer_word e unit w d = Inr d' \<Longrightarrow> grows (unp d) (unp d')"
    unfolding trailer_word_def
    by (erule with_channel_grows) (auto simp: Let_def decode_grows split: if_splits prod.splits)
  moreover have "unexpected_word unit w d = Inr d' \<Longrightarrow> grows (unp d) (unp d')"
    by (auto simp: unexpected_word_def decode_grows split: if_splits option.splits)
  moreover have "grows (unp d) (unp (header_word w d))" by (simp add: header_word_def)
  moreover have "grows (unp d) (unp (timestamp_word w d))" by (simp add: timestamp_word_def Let_def bad_grows)
  ultimately show ?thesis
    using assms channel_word_grows by (auto simp: decode_word_def Let_def split: if_splits)
qed

lemma UnpackEvent_grows: "UnpackEvent e unit g ws u = Inr v \<Longrightarrow> grows u v"
proof -
  have "grows (unp d) (unp d')" if "run_steps (decode_word e unit g) d ws = Inr d'" for d d' :: "'a decoder"
    using that
    by (induction ws arbitrary: d) (auto simp: bind_res_eq_Inr intro: grows_trans decode_word_grows)
  then show "UnpackEvent e unit g ws u = Inr v \<Longrightarrow> grows u v"
    by (fastforce simp: UnpackEvent_def new_decoder_def bind_res_eq_Inr split: if_splits)
qed

lemma unpack_buffer_grows: "unpack_buffer e unit grp u = Inr v \<Longrightarrow> grows u v"
  by (auto simp: unpack_buffer_def bind_res_eq_Inr set_wptr_def split: option.splits
      intro: grows_trans [OF UnpackEvent_grows grows_same])

lemma NewGroup_grows: "NewGroup e unit u = Inr (grp, v) \<Longrightarrow> grows u v"
  by (auto simp: NewGroup_def Let_def split: if_splits option.splits intro: grows_same)

lemma store_word_grows: "store_word unit grp w u = Inr v \<Longrightarrow> grows u v"
  by (auto simp: store_word_def set_wptr_def Let_def split: if_splits option.splits intro: grows_same)

lemma stream_word_grows:
  assumes "stream_word e unit (grp, u) w = Inr (grp', v)"
  shows "grows u v"
proof -
  have marker: "grows u v" if "NewGroup e unit (u\<lparr>wgrp := f\<rparr>) = Inr (grp', v)" for f
    by (rule grows_trans [OF _ NewGroup_grows [OF that]]) (simp add: grows_same)
  have header: "grows u v" if "store_word unit h w ((set_wacc unit h True u1)\<lparr>countSkipped := f\<rparr>) = Inr v" "grows u u1" for h u1 f
    by (rule grows_trans [OF that(2) grows_trans [OF _ store_word_grows [OF that(1)]]]) (simp add: grows_same set_wacc_def)
  have trailer: "grows u (set_wacc unit h False u2)" if "store_word unit h w u = Inr u1" "unpack_buffer e unit h u1 = Inr u2" for h u1 u2
    by (rule grows_trans [OF grows_trans [OF store_word_grows [OF that(1)] unpack_buffer_grows [OF that(2)]]]) (simp add: grows_same set_wacc_def)
  from assms show ?thesis
    by (auto simp: stream_word_def Let_def bind_res_eq_Inr split: if_splits
        intro: marker header trailer store_word_grows unpack_buffer_grows grows_same)
qed

lemma UnpackStream_grows:
  assumes "UnpackStream e unit ws u = Inr v"
  shows "grows u v"
proof -
  have run: "grows (snd s) (snd s')" if "run_steps (stream_word e unit) s ws = Inr s'" for s s' :: "nat \<times> 'a unpacker"
    using that
    by (induction ws arbitrary: s) (auto simp: bind_res_eq_Inr, metis grows_trans stream_word_grows)
  from assms obtain s s' where "NewGroup e unit u = Inr s" "run_steps (stream_word e unit) s ws = Inr s'" "v = snd s'"
    by (auto simp: UnpackStream_def bind_res_eq_Inr split: if_splits)
  with run [of s s'] NewGroup_grows [of e unit u "fst s" "snd s"] show ?thesis by (auto intro: grows_trans)
qed

section \<open>The queue\<close>

lemma CompleteEvent_no [simp]: "e_eventNo (CompleteEvent u ev) = e_eventNo ev"
  by (simp add: CompleteEvent_def Let_def)

lemma complete_until_numbers: "complete_until u evs = (found, evs1) \<Longrightarrow> map e_eventNo evs1 = map e_eventNo evs"
  by (induction evs arbitrary: found evs1) (auto simp: Let_def split: if_splits prod.splits)

lemma GetEvent_numbers:
  assumes "GetEvent flush u = (r, v)"
  shows "fEventNo v = fEventNo u" and "numbers u = map e_eventNo (case r of None \<Rightarrow> [] | Some ev \<Rightarrow> [ev]) @ numbers v"
proof -
  show "fEventNo v = fEventNo u"
    using assms by (auto simp: GetEvent_def Let_def split: list.splits prod.splits if_splits)
  show "numbers u = map e_eventNo (case r of None \<Rightarrow> [] | Some ev \<Rightarrow> [ev]) @ numbers v"
  proof (cases "fBuffer u")
    case Nil
    with assms show ?thesis by (auto simp: GetEvent_def numbers_def)
  next
    case (Cons ev evs)
    define ev1 where "ev1 = (if e_complete ev then ev else CompleteEvent u ev)"
    have no: "e_eventNo ev1 = e_eventNo ev" by (simp add: ev1_def)
    obtain found evs1 where c: "complete_until u (ev1 # evs) = (found, evs1)" by (metis surj_pair)
    from complete_until_numbers [OF c] no obtain x xs where "evs1 = x # xs" "e_eventNo x = e_eventNo ev" "map e_eventNo xs = map e_eventNo evs"
      by (cases evs1) auto
    with assms Cons c no show ?thesis
      by (auto simp: GetEvent_def Let_def ev1_def [symmetric] numbers_def simp del: complete_until.simps split: if_splits)
  qed
qed

text \<open>What a client does: it hands over data, and takes events.\<close>

datatype 'd request = Stream nat "w32 list" | Add "'d vf48_module" | Take bool

fun perform :: "'d fp_env \<Rightarrow> 'd vf48_event list \<times> 'd unpacker \<Rightarrow> 'd request \<Rightarrow> ('d vf48_event list \<times> 'd unpacker) res" where
  "perform e (out, u) (Stream unit ws) = bind_res (UnpackStream e unit ws u) (\<lambda>v. Inr (out, v))"
| "perform e (out, u) (Add m) = Inr (out, AddToEvent e m u)"
| "perform e (out, u) (Take flush) =
     (let (r, v) = GetEvent flush u in Inr (out @ (case r of None \<Rightarrow> [] | Some ev \<Rightarrow> [ev]), v))"

text \<open>The numbers of the events that were delivered, and of those that wait.\<close>

definition in_order :: "int \<Rightarrow> 'd vf48_event list \<times> 'd unpacker \<Rightarrow> bool" where
  "in_order n = (\<lambda>(out, u). n \<le> fEventNo u \<and> map e_eventNo out @ numbers u = [n + 1..fEventNo u])"

lemma in_order_grows: "in_order n (out, u) \<Longrightarrow> grows u v \<Longrightarrow> in_order n (out, v)"
  unfolding in_order_def grows_def by clarsimp (metis append_assoc upto_append)

lemma perform_in_order:
  assumes "in_order n s" and "perform e s q = Inr s'"
  shows "in_order n s'"
proof (cases q)
  case (Stream unit ws)
  with assms show ?thesis by (cases s) (auto simp: bind_res_eq_Inr intro: in_order_grows UnpackStream_grows)
next
  case (Add m)
  with assms show ?thesis by (cases s) (auto intro: in_order_grows AddToEvent_grows)
next
  case (Take flush)
  obtain out u where s: "s = (out, u)" by (cases s) auto
  obtain r v where g: "GetEvent flush u = (r, v)" by (metis surj_pair)
  from Take assms(2) s g GetEvent_numbers [OF g] assms(1) show ?thesis by (auto simp: in_order_def)
qed

text \<open>C11: The buffer of events is a queue without loss: whatever data, modules and requests the unpacker
  gets in whatever order, the events that were delivered, followed by those that wait, have the numbers
  from 1 to the number of events made, each once and in this order.
\<close>

theorem delivered_in_order:
  assumes "fBuffer u0 = []" and "fEventNo u0 = 0" and "run_steps (perform e) ([], u0) qs = Inr (out, u)"
  shows "map e_eventNo out @ map e_eventNo (fBuffer u) = [1..fEventNo u]"
proof -
  have "in_order 0 s'" if "in_order 0 s" "run_steps (perform e) s qs = Inr s'" for s s'
    using that by (induction qs arbitrary: s) (auto simp: bind_res_eq_Inr dest: perform_in_order)
  moreover have "in_order 0 ([], u0)" using assms(1,2) by (simp add: in_order_def numbers_def)
  ultimately have "in_order 0 (out, u)" using assms(3) by blast
  then show ?thesis by (simp add: in_order_def numbers_def)
qed

lemma demo_runs: "\<exists>v. UnpackStream demo_fp 0 demo_words demo_unpacker = Inr v"
proof -
  have "run_steps (\<lambda>_. frame_result) () demo_frames = Inr ()" "\<forall>c \<in> set demo_frames. fst c < VF48_MAX_GROUPS \<and> one_frame (snd c)"
    by code_simp+
  with calls_result [of demo_unpacker 0 demo_frames demo_fp] obtain u1 where "run_steps (call demo_fp 0) demo_unpacker demo_frames = Inr u1"
    by (auto simp: buffer_ok_def VF48_MAX_MODULES_def)
  with UnpackStream_follows [OF _ _ _ _ demo_markers, of 0 demo_unpacker demo_fp] demo_demux demo_short show ?thesis
    by (auto simp: VF48_MAX_MODULES_def VF48_MAX_GROUPS_def stream_ok_def)
qed

lemma delivered_in_order_witness:
  "\<exists>out u. run_steps (perform demo_fp) ([], demo_unpacker) [Stream 0 demo_words, Take False, Take True] = Inr (out, u) \<and>
     map e_eventNo out @ map e_eventNo (fBuffer u) = [1..fEventNo u]"
proof -
  from demo_runs obtain v where "UnpackStream demo_fp 0 demo_words demo_unpacker = Inr v" ..
  moreover obtain r1 u1 where "GetEvent False v = (r1, u1)" by (metis surj_pair)
  moreover obtain r2 u2 where "GetEvent True u1 = (r2, u2)" by (metis surj_pair)
  ultimately obtain out u where run: "run_steps (perform demo_fp) ([], demo_unpacker) [Stream 0 demo_words, Take False, Take True] = Inr (out, u)"
    by simp
  from run delivered_in_order [OF _ _ run] show ?thesis by simp
qed

section \<open>When an event is delivered\<close>

text \<open>All modules of an event have sent their data.\<close>

definition ready :: "'d unpacker \<Rightarrow> 'd vf48_event \<Rightarrow> bool" where
  "ready u ev \<longleftrightarrow>
     e_complete ev \<or> fModulesMask u = 0 \<or>
     (\<forall>n < 32. bit (fModulesMask u) n \<longleftrightarrow>
        bit (e_modulesMask ev) n \<or> n < fNumModules u \<and> (\<exists>m. e_modules ev n = Some m \<and> m_complete m))"

definition seen_mask :: "(nat \<Rightarrow> 'd vf48_module option) \<Rightarrow> nat list \<Rightarrow> w32 \<Rightarrow> w32" where
  "seen_mask ms is k = fold (\<lambda>i k. case ms i of None \<Rightarrow> k | Some m \<Rightarrow> if m_complete m then k OR push_bit i 1 else k) is k"

lemma seen_mask_Cons:
  "seen_mask ms (i # is) k = seen_mask ms is (case ms i of None \<Rightarrow> k | Some m \<Rightarrow> if m_complete m then k OR push_bit i 1 else k)"
  by (simp add: seen_mask_def)

lemma w32_eq_iff: "(a :: w32) = b \<longleftrightarrow> (\<forall>n < 32. bit a n = bit b n)"
  by (auto intro: bit_word_eqI)

lemma bit_one_at: "n < 32 \<Longrightarrow> bit (2 ^ i :: w32) n \<longleftrightarrow> n = i"
  by (auto simp: bit_exp_iff)

lemma seen_mask_bits:
  "n < 32 \<Longrightarrow> bit (seen_mask ms is k) n \<longleftrightarrow> bit k n \<or> n \<in> set is \<and> (\<exists>m. ms n = Some m \<and> m_complete m)"
proof (induction "is" arbitrary: k)
  case (Cons i "is")
  define k1 where "k1 = (case ms i of None \<Rightarrow> k | Some m \<Rightarrow> if m_complete m then k OR push_bit i 1 else k)"
  have "bit k1 n \<longleftrightarrow> bit k n \<or> (n = i \<and> (\<exists>m. ms i = Some m \<and> m_complete m))"
    using Cons.prems by (cases "ms i") (simp_all add: k1_def bit_or_iff bit_one_at)
  with Cons.IH [OF Cons.prems, of k1] show ?case unfolding seen_mask_Cons k1_def [symmetric] by auto
qed (simp add: seen_mask_def)

lemma seen_mask_is:
  "seen_mask (e_modules ev) [0..<fNumModules u] (e_modulesMask ev) = fModulesMask u \<longleftrightarrow>
    (\<forall>n < 32. bit (fModulesMask u) n \<longleftrightarrow>
        bit (e_modulesMask ev) n \<or> n < fNumModules u \<and> (\<exists>m. e_modules ev n = Some m \<and> m_complete m))"
  by (auto simp: w32_eq_iff seen_mask_bits)

lemma seen_mask_again: "seen_mask ms is (seen_mask ms is k) = seen_mask ms is k"
  by (auto simp: w32_eq_iff seen_mask_bits)

lemma CompleteEvent_alt:
  "CompleteEvent u ev =
     (if fModulesMask u = 0 then ev\<lparr>e_complete := True\<rparr>
      else
        let ev1 = ev\<lparr>e_modulesMask := seen_mask (e_modules ev) [0..<fNumModules u] (e_modulesMask ev)\<rparr>
        in if e_modulesMask ev1 = fModulesMask u then ev1\<lparr>e_complete := True\<rparr> else ev1)"
  by (simp add: CompleteEvent_def seen_mask_def [symmetric] Let_def)

lemma CompleteEvent_ready: "e_complete (if e_complete ev then ev else CompleteEvent u ev) \<longleftrightarrow> ready u ev"
  using seen_mask_is [of ev u] by (simp add: CompleteEvent_alt ready_def Let_def)

lemma CompleteEvent_modules [simp]: "e_modules (CompleteEvent u ev) = e_modules ev"
  by (simp add: CompleteEvent_def Let_def)

lemma ready_again: "ready u (if e_complete ev then ev else CompleteEvent u ev) = ready u ev"
proof (cases "e_complete ev \<or> fModulesMask u = 0")
  case False
  then have r: "ready u ev' \<longleftrightarrow> e_complete ev' \<or> seen_mask (e_modules ev') [0..<fNumModules u] (e_modulesMask ev') = fModulesMask u" for ev'
    by (simp add: ready_def seen_mask_is)
  show ?thesis
    unfolding r using False by (simp add: CompleteEvent_alt Let_def seen_mask_again)
qed (auto simp: ready_def)

lemma complete_until_ready: "fst (complete_until u evs) = list_ex (ready u) evs"
proof (induction evs)
  case (Cons ev evs)
  then show ?case using CompleteEvent_ready [of ev u] by (cases "complete_until u evs") (auto simp: Let_def)
qed simp

lemma complete_until_length: "length (snd (complete_until u evs)) = length evs"
  by (induction evs) (auto simp: Let_def split: prod.split)

text \<open>C12: \<^verbatim>\<open>GetEvent\<close> delivers the oldest event as soon as all its modules are complete, when a later
  event is complete, when more events wait than the threshold allows, or when the caller flushes; it
  returns NULL in no other case, and then nothing is removed from the buffer.
\<close>

theorem GetEvent_delivers:
  "case GetEvent flush u of
     (None, v) \<Rightarrow> \<not> (flush \<and> fBuffer u \<noteq> []) \<and> list_all (\<lambda>ev. \<not> ready u ev) (fBuffer u) \<and>
       length (fBuffer u) \<le> unat (fFlushIncompleteThreshold u) \<and> length (fBuffer v) = length (fBuffer u)
   | (Some ev, v) \<Rightarrow>
       (flush \<or> list_ex (ready u) (fBuffer u) \<or> unat (fFlushIncompleteThreshold u) < length (fBuffer u)) \<and>
       (\<exists>e0 es. fBuffer u = e0 # es \<and> length (fBuffer v) = length es \<and> e_eventNo ev = e_eventNo e0 \<and>
          e_modules ev = e_modules e0 \<and> e_complete ev = ready u e0)"
proof (cases "fBuffer u")
  case (Cons e0 es)
  define e1 where "e1 = (if e_complete e0 then e0 else CompleteEvent u e0)"
  have e1: "e_eventNo e1 = e_eventNo e0" "e_modules e1 = e_modules e0" "e_complete e1 = ready u e0"
    using CompleteEvent_ready [of e0 u] by (simp_all add: e1_def)
  show ?thesis
  proof (cases "e_complete e1 \<or> flush")
    case True
    with Cons e1 show ?thesis by (auto simp: GetEvent_def Let_def e1_def [symmetric])
  next
    case False
    obtain found evs1 where c: "complete_until u (e1 # es) = (found, evs1)" by (metis surj_pair)
    have "found = list_ex (ready u) (e1 # es)" "length evs1 = length (e1 # es)"
      using complete_until_ready [of u "e1 # es"] complete_until_length [of u "e1 # es"] c by simp_all
    moreover have "ready u e1 = ready u e0" unfolding e1_def by (rule ready_again)
    moreover have "e_complete (hd evs1) = ready u e0 \<and> e_eventNo (hd evs1) = e_eventNo e0 \<and> e_modules (hd evs1) = e_modules e0"
      using c e1 False CompleteEvent_ready [of e1 u] \<open>ready u e1 = ready u e0\<close> by (auto simp: Let_def split: if_splits prod.splits)
    moreover obtain x xs where "evs1 = x # xs" using \<open>length evs1 = length (e1 # es)\<close> by (cases evs1) auto
    ultimately show ?thesis
      using False Cons e1 c by (auto simp: GetEvent_def Let_def e1_def [symmetric] list_ex_iff list_all_iff simp del: complete_until.simps)
  qed
qed (simp add: GetEvent_def)

section \<open>Data that the unpacker cannot take\<close>

text \<open>A channel header that no time stamp precedes: the module is looked up only if there was one.\<close>

lemma header_without_time_stamp:
  assumes "unit < VF48_MAX_MODULES" and "g < VF48_MAX_GROUPS"
  shows "UnpackEvent e unit g [0x80000001, 0xC0000000] u = Inl Null_pointer"
proof -
  have g: "g < 6" using assms(2) by (simp add: VF48_MAX_GROUPS_def)
  have "\<forall>g \<in> set [0..<6]. header_channel g 0xC0000000 < VF48_MAX_CHANNELS" by code_simp
  then have "header_channel g 0xC0000000 < VF48_MAX_CHANNELS" using g by simp
  with assms show ?thesis
    by (simp add: UnpackEvent_def decode_word_def header_word_def channel_word_def new_decoder_def get_module_def Let_def)
qed

text \<open>The group in a marker has three bits, but there are six groups.\<close>

lemma marker_of_no_group:
  assumes "unit < VF48_MAX_MODULES" and "wgrp u unit < VF48_MAX_GROUPS" and "malloc_ok e"
    and "w AND 0xF0000000 = 0xF0000000" and "VF48_MAX_GROUPS \<le> unat (w AND 7)"
  shows "UnpackStream e unit (w # ws) u = Inl Assert_failed"
  using assms by (auto simp: UnpackStream_def NewGroup_def stream_word_def Let_def split: option.split)

text \<open>\<^verbatim>\<open>wmax\<close> is the size of the buffer in bytes, and no operation reads it.\<close>

lemma buffer_size:
  assumes "wbuf u unit (wgrp u unit) = None" and "NewGroup e unit u = Inr (grp, v)"
  shows "wmax v unit grp = 4 * BUF_WORDS" and "map_option length (wbuf v unit grp) = Some BUF_WORDS"
  using assms by (auto simp: NewGroup_def Let_def BUF_WORDS_def VF48_MAX_SAMPLES_def VF48_MAX_CHANNELS_def split: if_splits)

lemma frame_overflows:
  assumes "wbuf u unit grp = Some b" and "wptr u unit grp \<le> length b" and "length b < wptr u unit grp + n" and "wacc u unit grp"
  shows "run_steps (stream_word e unit) (grp, u) (replicate n 0) = Inl Buffer_overflow"
  using assms
proof (induction n arbitrary: u b)
  case (Suc n)
  show ?case
  proof (cases "length b \<le> wptr u unit grp")
    case True
    with Suc.prems show ?thesis by (simp add: stream_word_def store_word_def)
  next
    case False
    define u1 where "u1 = set_wptr unit grp (wptr u unit grp + 1)
      (u\<lparr>wbuf := (wbuf u)(unit := (wbuf u unit)(grp := Some (b[wptr u unit grp := 0])))\<rparr>)"
    have "stream_word e unit (grp, u) 0 = Inr (grp, u1)"
      using False Suc.prems by (simp add: stream_word_def store_word_def Let_def u1_def)
    moreover have "run_steps (stream_word e unit) (grp, u1) (replicate n 0) = Inl Buffer_overflow"
      using False Suc.prems by (intro Suc.IH [of _ "b[wptr u unit grp := 0]"]) (simp_all add: u1_def set_wptr_def)
    ultimately show ?thesis by simp
  qed
qed simp

text \<open>The other settings take a negative unit for all units; this one writes before its array.\<close>

lemma SetTsFreq_all: "0 < fNumModules u \<Longrightarrow> SetTsFreq (- 1) f u = Inl Out_of_bounds"
  by (auto simp: SetTsFreq_def)


end
