(* ===== verification/Spec2Isabelle.thy ===== *)
theory Spec2Isabelle
  imports Mxml_Roundtrip Mxml_Entity Mxml_Find Strlcpy Telnet_Props Selector_Loop Utils Devcfg Port_Commands Controller_Props Vf48_Events
begin

text \<open>
  A verification development for \<^verbatim>\<open>ptf-online-converter\<close>, the online software of a test
  facility for photomultipliers.  The repository collects independent programs; those with
  logic of their own are modelled here: the XML library \<^verbatim>\<open>src/mxml\<close>, with which the
  configuration of the experiment is stored, the server \<^verbatim>\<open>src/ser2net\<close>, which connects TCP
  clients to serial devices, and the unpacker of digitizer data in \<^verbatim>\<open>src/vme\<close>.

  \<^bold>\<open>The parts and how they interact.\<close>

  \<^item> \<^verbatim>\<open>mxml/strlcpy.c\<close>: copying into arrays of limited size.  Every string operation of the XML
    library goes through it.
  \<^item> \<^verbatim>\<open>mxml/mxml.c\<close>: a writer that produces XML text into memory or a file; a tree of nodes, with
    functions to build, search, change, copy and free it; a parser from text to trees; the
    expansion of entities before parsing; and writing whole trees with the writer.
  \<^item> \<^verbatim>\<open>ser2net/selector.c\<close>: the event loop, with the watched descriptors and a heap of timers.
  \<^item> \<^verbatim>\<open>ser2net/telnet.c\<close>: takes telnet commands out of received data, negotiates options and
    queues commands to be sent.  Ports and control connections both use it and give it callbacks.
  \<^item> \<^verbatim>\<open>ser2net/dataxfer.c\<close>: ports; each has a socket on which it accepts, and while a client is
    connected two buffers between the client and the device, with flow control through the event
    loop, a timeout, the COM port option of RFC 2217, and trace files.  It also has the list of all
    ports, its change by a new configuration, and the functions behind the control commands.
  \<^item> \<^verbatim>\<open>ser2net/devcfg.c\<close>, \<^verbatim>\<open>utils.c\<close>: settings of a device as text, numbers and addresses.
  \<^item> \<^verbatim>\<open>ser2net/readconfig.c\<close>: the configuration file, which defines banners, trace files and ports,
    and can be read again while the server runs.
  \<^item> \<^verbatim>\<open>ser2net/controller.c\<close>: the control port, a command interpreter for up to four clients.
  \<^item> \<^verbatim>\<open>vme/UnpackVF48A.cxx\<close>: the data of VF48 digitizers.  A module sends the words of its six groups
    interleaved; \<^verbatim>\<open>UnpackStream\<close> collects what each group sends for a trigger, \<^verbatim>\<open>UnpackEvent\<close> decodes
    it, and \<^verbatim>\<open>GetEvent\<close> delivers the events in which the modules with matching times are put together.

  \<^bold>\<open>Theories.\<close>

  \<^item> \<open>C_Prelude\<close>: faults as values (\<open>c_fault\<close>), arrays with checked access, the string functions of
    the C library, sequencing of computations, and the locales \<open>stepping\<close>, \<open>safe_stepping\<close> (an
    invariant that all operations keep) and \<open>keyed_store\<close>.
  \<^item> \<open>Strlcpy\<close>: \<^verbatim>\<open>strlcpy.c\<close> on arrays, and the contract \<open>bounded_store\<close> that its users rely on.
  \<^item> \<open>Mxml_Codec\<close> (\<open>mxml_encode\<close>, \<open>mxml_decode\<close>), \<open>Mxml_Writer\<close> (\<open>MXML_WRITER\<close>), \<open>Mxml_Tree\<close>
    (\<open>MXML_NODE\<close>), \<open>Mxml_Parser\<close>, \<open>Mxml_Find\<close>, \<open>Mxml_Entity\<close>, \<open>Mxml_Subtree\<close>: the code of \<^verbatim>\<open>mxml.c\<close>
    in its order, one definition per function or branch of a long function.
  \<^item> \<open>Mxml_Printer\<close>: the abstract printer that the writer refines.  \<open>Mxml_Tree_Props\<close>,
    \<open>Mxml_Parser_Props\<close>: the effect of each operation on a tree, and what the parser guarantees on
    every buffer.  \<open>Mxml_Roundtrip\<close>: parsing what was written.
  \<^item> \<open>Selector\<close>: \<^verbatim>\<open>selector.c\<close> on linked records.  \<open>Selector_Heap\<close>, \<open>Selector_Queue\<close>: the records as
    a complete tree in heap order.  \<open>Selector_Loop\<close>: timers as a priority queue (locale
    \<open>timer_queue\<close>), the event loop and the descriptors.
  \<^item> \<open>Telnet\<close>: \<^verbatim>\<open>telnet.c\<close>.  \<open>Telnet_Props\<close>: the in-place loop as a byte-wise transducer, its
    invariant, and the exchange between two sides.  \<open>Telnet_Stream\<close>: which bytes are data.
  \<^item> \<open>Utils\<close>, \<open>Devcfg\<close>: \<^verbatim>\<open>utils.c\<close> and \<^verbatim>\<open>devcfg.c\<close>, with the round trip of settings.
  \<^item> \<open>Port_State\<close> (\<open>port_info_t\<close>), \<open>Rfc2217\<close>, \<open>Port\<close>: one port of \<^verbatim>\<open>dataxfer.c\<close> and all its handlers.
    \<open>Port_Escape\<close>, \<open>Port_Transfer\<close>, \<open>Port_Lossless\<close>, \<open>Port_Calls\<close>, \<open>Port_Read\<close>, \<open>Port_Run\<close>: the
    invariant of the transfer, handler by handler, and the step relation \<open>port_step\<close> of a
    connection under the event loop.  \<open>Port_Session\<close>, \<open>Port_Commands\<close>: the properties.
  \<^item> \<open>Server\<close>: the heap of ports, their list, starting, freeing, replacing and clearing them.
    \<open>Server_Props\<close>: its properties.  \<open>Readconfig\<close>, \<open>Readconfig_Props\<close>: \<^verbatim>\<open>readconfig.c\<close>.
  \<^item> \<open>Controller\<close>, \<open>Control_Commands\<close>, \<open>Controller_Read\<close>: \<^verbatim>\<open>controller.c\<close> and the end of \<^verbatim>\<open>dataxfer.c\<close>.
    \<open>Controller_Output\<close>, \<open>Controller_Edit\<close>, \<open>Controller_Props\<close>: the output queue, the line editor
    and the list of control connections.

  \<^item> \<open>Vf48\<close>: \<^verbatim>\<open>UnpackVF48A.cxx\<close>.  \<open>Vf48_Stream\<close>: the separation of the groups, as an automaton per
    group.  \<open>Vf48_Decode\<close>: which frames cannot be decoded.  \<open>Vf48_Packet\<close>: what a module sends, and
    that decoding gives it back.  \<open>Vf48_Events\<close>: the buffer of events as a queue.

  \<^bold>\<open>State.\<close>  Records have the fields of the source structures.  The static variables of a file are a
  record too and are passed on: \<open>mxml_static\<close>, \<open>reader\<close>, \<open>server\<close>; \<open>world\<close> is the state of the whole
  server.  Where the code shares objects by pointers and the claims depend on it, pointers are kept:
  nodes of the XML tree store the address of their parent, timers are linked records, ports and
  control connections are objects on a heap, from which \<open>free\<close> removes them.  System calls, the
  allocator, the file system and the clock are arguments of the definitions, so that the theorems
  hold for every behaviour of them.  So is arithmetic on \<^verbatim>\<open>double\<close>,
  which only the times of the unpacker need (\<open>fp_env\<close>).  What a connection has exchanged is kept as
  histories: \<open>wire\<close> is the one stream to the client, with telnet commands and data in the order of the
  calls of \<^verbatim>\<open>write\<close>, \<open>mon_out\<close> what was offered to which monitor.

  \<^bold>\<open>What is shown.\<close>  For the XML library: no sequence of calls within the stated lengths overruns a
  buffer; the writer produces the text of the abstract printer; the parser returns well-formed trees
  or an error with an existing line on every input, up to two described faults; writing and parsing
  trees of elements whose strings fit are inverse; searching, grafting, deleting and the attribute functions do what their comments say,
  with the exact conditions where they do not.  For the server: timers fire in the order of their
  times; the telnet layer never writes outside its arrays on any input and gives the user the data
  however the stream is cut, its one fault being an option without handler; a connection loses, adds
  and reorders no byte of its data; valid settings of the COM port option are asked of the device and
  its other settings left alone; a reload keeps, replaces, adds and removes the ports
  it has to; the control port queues its output, edits lines and counts its connections.  For the
  unpacker: the groups are separated exactly, what a group sends is recovered, the four kinds of data
  that it cannot take are described and no other data make it leave its arrays, and every event is
  delivered once and in order.  Faults
  that the code can run into are theorems as well, with the inputs that lead to them.

  \<^bold>\<open>Bounds and fuel.\<close>  Machine integers keep their width where the code can reach the end of it: bytes
  are \<^typ>\<open>8 word\<close>, addresses \<^typ>\<open>32 word\<close>, ports \<^typ>\<open>16 word\<close>, and \<^verbatim>\<open>int\<close> results that can overflow
  are checked and then a fault.  The counters of the XML writer in memory are natural numbers: its texts
  stay below 2 GiB, and its allocations succeed; sizes for \<^verbatim>\<open>mxml_encode\<close> are checked up to 2^30.
  Memory that the code reads before it has set it has an arbitrary content: \<^verbatim>\<open>maxfd\<close> of a new selector,
  the pointer to the monitor of the device and the counter of telnet commands of a new port, and the
  channels of a VF48 module (fields \<open>raw_time\<close>, \<open>raw_charge\<close>, \<open>raw_sample\<close>, \<open>raw_word\<close> of \<open>fp_env\<close>).
  Timers that are started again while the due ones fire are started for a time behind the end of the
  round (\<open>patient\<close>).  Loops that only the shape of a linked structure ends are partial
  functions whose value \<^const>\<open>None\<close> is a loop that does not end; the theorems show that it does not
  occur.  Recursion through external entities has no bound in the code; its model has a fuel
  argument, and no amount of it suffices for a file that includes itself.  Everything else is
  recursion with a proof of termination.

  \<^bold>\<open>Not modelled.\<close>  Of \<^verbatim>\<open>mxml.c\<close>: \<open>mxml_debug_tree\<close>, which only prints.  Of \<^verbatim>\<open>ser2net\<close>: the program's
  main function, which parses arguments, daemonises and installs signal handlers; the opening of the
  control socket; UUCP locks and TCP wrappers, which are compiled only on request; the writing of trace
  files (the ports of the model have none); and the program
  \<^verbatim>\<open>usbFindSerial.c\<close>.  Of \<^verbatim>\<open>vme\<close>: everything but the unpacker (front ends and drivers that read
  registers of bus modules; what they do is decided by the hardware), and of the unpacker what it
  prints.  Not at all: \<^verbatim>\<open>phidget\<close> and \<^verbatim>\<open>caen_usb_dt5730\<close> (libraries and drivers of the
  manufacturers), \<^verbatim>\<open>rootana\<close>, \<^verbatim>\<open>roody\<close> and \<^verbatim>\<open>midas2root\<close> (C++ on the class library ROOT).
\<close>

end
